(* ===== verification/Prelude.thy ===== *)
theory Prelude
  imports Main "HOL-Library.Word"
begin

text \<open>
  Shared vocabulary of the development: the result type of fallible Rust code, the
  \<open>cfg(target_os)\<close> switch, lemma collections used by the component theories, and the
  generic facts on lists and options that several components need.
\<close>

section \<open>Lemma collections\<close>

text \<open>
  \<open>rust_simps\<close> collects rewrite rules for the modelled parts of the Rust standard library;
  \<open>wf_simps\<close> collects unfolding rules for the well-formedness invariants.
\<close>

named_theorems rust_simps
named_theorems wf_simps

section \<open>Results, panics and the build target\<close>

text \<open>
  \<open>Result<T, E>\<close> is \<open>'e + 't\<close>: \<open>Inl\<close> is \<open>Err\<close>, \<open>Inr\<close> is \<open>Ok\<close>. A function that can
  panic returns an \<open>option\<close>, with \<open>None\<close> for the panic, where the text of its definition
  says so.
\<close>

type_synonym ('e, 't) result = "'e + 't"

definition bind_result :: "('e, 'a) result \<Rightarrow> ('a \<Rightarrow> ('e, 'b) result) \<Rightarrow> ('e, 'b) result" where
  "bind_result r f = (case r of Inl e \<Rightarrow> Inl e | Inr x \<Rightarrow> f x)"

lemma bind_result_simps [simp, rust_simps]:
  "bind_result (Inl e) f = Inl e"
  "bind_result (Inr x) f = f x"
  by (simp_all add: bind_result_def)

lemma bind_result_Inr_iff:
  "bind_result r f = Inr y \<longleftrightarrow> (\<exists>x. r = Inr x \<and> f x = Inr y)"
  by (cases r) auto

text \<open>The \<open>?\<close> operator in an iterator chain: \<open>collect::<Result<Vec<_>, _>>()\<close>.\<close>

fun collect_results :: "('e, 'a) result list \<Rightarrow> ('e, 'a list) result" where
  "collect_results [] = Inr []"
| "collect_results (Inl e # rs) = Inl e"
| "collect_results (Inr x # rs) = bind_result (collect_results rs) (\<lambda>xs. Inr (x # xs))"

lemma collect_results_map_Inr [simp]: "collect_results (map Inr xs) = Inr xs"
  by (induction xs) simp_all

lemma collect_results_length:
  "collect_results rs = Inr xs \<Longrightarrow> length xs = length rs"
  by (induction rs arbitrary: xs rule: collect_results.induct)
    (auto simp: bind_result_Inr_iff)

text \<open>The values of \<open>cfg(target_os)\<close> the source distinguishes.\<close>

datatype target_os = Macos | Linux | Freebsd | Windows | OtherOs

section \<open>Lists\<close>

text \<open>\<open>Iterator::find\<close> is \<open>List.find\<close>; \<open>Iterator::enumerate\<close> numbers from 0.\<close>

definition enumerated :: "'a list \<Rightarrow> (nat \<times> 'a) list" where
  "enumerated xs = zip [0..<length xs] xs"

lemma enumerated_length [simp]: "length (enumerated xs) = length xs"
  by (simp add: enumerated_def)

lemma enumerated_nth [simp]: "i < length xs \<Longrightarrow> enumerated xs ! i = (i, xs ! i)"
  by (simp add: enumerated_def)

lemma in_set_enumerated:
  "(i, x) \<in> set (enumerated xs) \<longleftrightarrow> i < length xs \<and> xs ! i = x"
  by (metis (no_types, lifting) enumerated_length enumerated_nth fst_conv in_set_conv_nth snd_conv)

lemma enumerated_snoc: "enumerated (xs @ [x]) = enumerated xs @ [(length xs, x)]"
  by (simp add: enumerated_def)

lemma map_fst_enumerated [simp]: "map fst (enumerated xs) = [0..<length xs]"
  by (simp add: enumerated_def)

lemma map_snd_enumerated [simp]: "map snd (enumerated xs) = xs"
  by (simp add: enumerated_def)

lemma sorted_wrt_enumerated: "sorted_wrt (\<lambda>a b. fst a < fst b) (enumerated xs)"
  by (simp add: sorted_wrt_iff_nth_less)

text \<open>\<open>takeWhile\<close> and \<open>dropWhile\<close> of a concatenation whose first part is exhausted.\<close>

lemma takeWhile_all_append:
  "\<forall>x \<in> set xs. P x \<Longrightarrow> takeWhile P (xs @ ys) = xs @ takeWhile P ys"
  by (induction xs) auto

lemma dropWhile_all_append:
  "\<forall>x \<in> set xs. P x \<Longrightarrow> dropWhile P (xs @ ys) = dropWhile P ys"
  by (induction xs) auto

lemma length_dropWhile_lt:
  "xs \<noteq> [] \<Longrightarrow> P (hd xs) \<Longrightarrow> length (dropWhile P xs) < length xs"
  by (cases xs) (auto simp: length_dropWhile_le less_Suc_eq_le)

lemma list_all2_take_prefix:
  "length xs \<le> length ys \<Longrightarrow>
   list_all2 P xs (take (length xs) ys) \<longleftrightarrow> (\<forall>i < length xs. P (xs ! i) (ys ! i))"
  by (auto simp: list_all2_conv_all_nth)


text \<open>In a strictly ordered list, \<open>takeWhile\<close> keeps what no failing element precedes.\<close>

lemma in_set_takeWhile_ordered:
  assumes "sorted_wrt R xs" and "\<And>x y. R x y \<Longrightarrow> \<not> R y x"
  shows "x \<in> set (takeWhile P xs) \<longleftrightarrow> x \<in> set xs \<and> P x \<and> (\<forall>y \<in> set xs. R y x \<longrightarrow> P y)"
  using assms(1)
proof (induction xs)
  case (Cons a xs)
  have irrefl: "\<not> R a a" using assms(2) by blast
  have "\<not> R y a" if "y \<in> set xs" for y using Cons.prems that assms(2) by auto
  with Cons irrefl show ?case by auto
qed simp

lemma in_set_map_filter: "y \<in> set (List.map_filter f xs) \<longleftrightarrow> (\<exists>x \<in> set xs. f x = Some y)"
  by (induction xs) (auto simp: List.map_filter_simps split: option.split)

lemma sorted_wrt_map_filter:
  assumes "sorted_wrt R xs"
    and "\<And>x y x' y'. R x y \<Longrightarrow> f x = Some x' \<Longrightarrow> f y = Some y' \<Longrightarrow> S x' y'"
  shows "sorted_wrt S (List.map_filter f xs)"
  using assms(1)
proof (induction xs)
  case (Cons x xs)
  have "S x' y'" if "f x = Some x'" "y \<in> set xs" "f y = Some y'" for x' y y'
    using Cons.prems that assms(2) [of x y x' y'] by simp
  with Cons show ?case
    by (auto simp: List.map_filter_simps in_set_map_filter split: option.split)
qed simp

lemma sorted_wrt_last_greatest:
  assumes "sorted_wrt R xs" and "xs \<noteq> []" and "x \<in> set xs"
  shows "x = last xs \<or> R x (last xs)"
  using assms by (induction xs rule: rev_induct) (auto simp: sorted_wrt_append)

text \<open>Searching an index range from its end, as \<open>(0..n).rev()\<close> does.\<close>

lemma find_rev_upt_Some:
  "List.find P (rev [0..<n]) = Some d \<longleftrightarrow> d < n \<and> P d \<and> (\<forall>k. d < k \<and> k < n \<longrightarrow> \<not> P k)"
proof (induction n)
  case (Suc n)
  show ?case
  proof (cases "P n")
    case True
    then show ?thesis by (auto simp: less_Suc_eq)
  next
    case False
    then have "List.find P (rev [0..<Suc n]) = List.find P (rev [0..<n])" by simp
    then show ?thesis using Suc.IH False by (auto simp: less_Suc_eq)
  qed
qed simp

lemma find_rev_upt_None: "List.find P (rev [0..<n]) = None \<longleftrightarrow> (\<forall>k < n. \<not> P k)"
  by (auto simp: find_None_iff)

end
