(* ===== verification/Rust_Str.thy ===== *)
theory Rust_Str
  imports Prelude
begin

text \<open>
  The parts of Rust's \<open>char\<close> and \<open>str\<close> the modelled code uses. A \<^typ>\<open>char\<close> stands for
  the Unicode scalar value of the same number, so a \<^typ>\<open>string\<close> is a Rust string over the
  code points U+0000 to U+00FF; on these the Unicode character classes below are the exact
  ones. Byte offsets and byte lengths are those of the UTF-8 encoding, in which a code point
  from U+0080 on takes two bytes.
\<close>

section \<open>Characters\<close>

definition code_point :: "char \<Rightarrow> nat" where
  "code_point c = of_char c"

text \<open>\<open>char::is_alphanumeric\<close>: the Alphabetic property or a general category of numbers.\<close>

definition is_alphabetic :: "char \<Rightarrow> bool" where
  "is_alphabetic c \<longleftrightarrow> (let n = code_point c in
     (65 \<le> n \<and> n \<le> 90) \<or> (97 \<le> n \<and> n \<le> 122) \<or> n = 170 \<or> n = 181 \<or> n = 186 \<or>
     (192 \<le> n \<and> n \<le> 214) \<or> (216 \<le> n \<and> n \<le> 246) \<or> (248 \<le> n \<and> n \<le> 255))"

definition is_numeric :: "char \<Rightarrow> bool" where
  "is_numeric c \<longleftrightarrow> (let n = code_point c in
     (48 \<le> n \<and> n \<le> 57) \<or> n = 178 \<or> n = 179 \<or> n = 185 \<or> (188 \<le> n \<and> n \<le> 190))"

definition is_alphanumeric :: "char \<Rightarrow> bool" where
  "is_alphanumeric c \<longleftrightarrow> is_alphabetic c \<or> is_numeric c"

text \<open>\<open>char::is_whitespace\<close>: the White\_Space property.\<close>

definition is_whitespace :: "char \<Rightarrow> bool" where
  "is_whitespace c \<longleftrightarrow> (let n = code_point c in
     (9 \<le> n \<and> n \<le> 13) \<or> n = 32 \<or> n = 133 \<or> n = 160)"

definition is_ascii_uppercase :: "char \<Rightarrow> bool" where
  "is_ascii_uppercase c \<longleftrightarrow> (let n = code_point c in 65 \<le> n \<and> n \<le> 90)"

definition is_ascii_lowercase :: "char \<Rightarrow> bool" where
  "is_ascii_lowercase c \<longleftrightarrow> (let n = code_point c in 97 \<le> n \<and> n \<le> 122)"

definition to_ascii_lowercase :: "char \<Rightarrow> char" where
  "to_ascii_lowercase c = (if is_ascii_uppercase c then char_of (code_point c + 32) else c)"

definition to_ascii_uppercase :: "char \<Rightarrow> char" where
  "to_ascii_uppercase c = (if is_ascii_lowercase c then char_of (code_point c - 32) else c)"

lemmas char_class_defs =
  is_alphabetic_def is_numeric_def is_alphanumeric_def is_whitespace_def
  is_ascii_uppercase_def is_ascii_lowercase_def code_point_def Let_def

lemma code_point_less [simp]: "code_point c < 256"
  by (cases c) (simp add: code_point_def of_char_def split: if_splits)

lemma char_of_code_point [simp]: "char_of (code_point c) = c"
  by (simp add: code_point_def)

lemma alphanumeric_not_whitespace: "is_alphanumeric c \<Longrightarrow> \<not> is_whitespace c"
  by (auto simp: is_alphanumeric_def is_alphabetic_def is_numeric_def is_whitespace_def Let_def)

lemma to_ascii_lowercase_idem [simp]:
  "\<not> is_ascii_uppercase c \<Longrightarrow> to_ascii_lowercase c = c"
  by (simp add: to_ascii_lowercase_def)

section \<open>Strings\<close>

text \<open>\<open>str::len\<close> counts UTF-8 bytes.\<close>

fun byte_len :: "string \<Rightarrow> nat" where
  "byte_len [] = 0"
| "byte_len (c # cs) = (if code_point c < 128 then 1 else 2) + byte_len cs"

lemma byte_len_append [simp]: "byte_len (xs @ ys) = byte_len xs + byte_len ys"
  by (induction xs) auto

lemma byte_len_0_iff [simp]: "byte_len s = 0 \<longleftrightarrow> s = []"
  by (cases s) auto

lemma length_le_byte_len: "length s \<le> byte_len s"
  by (induction s) auto

text \<open>\<open>str::starts_with\<close>, \<open>str::ends_with\<close> and \<open>str::strip_prefix\<close>.\<close>

definition starts_with :: "string \<Rightarrow> string \<Rightarrow> bool" where
  "starts_with s p \<longleftrightarrow> take (length p) s = p"

definition ends_with :: "string \<Rightarrow> string \<Rightarrow> bool" where
  "ends_with s p \<longleftrightarrow> length p \<le> length s \<and> drop (length s - length p) s = p"

definition strip_prefix :: "string \<Rightarrow> string \<Rightarrow> string option" where
  "strip_prefix s p = (if starts_with s p then Some (drop (length p) s) else None)"

lemma starts_with_append [simp]: "starts_with (p @ s) p"
  by (simp add: starts_with_def)

lemma strip_prefix_append [simp]: "strip_prefix (p @ s) p = Some s"
  by (simp add: strip_prefix_def)

lemma ends_with_append [simp]: "ends_with (s @ p) p"
  by (simp add: ends_with_def)

lemma ends_with_single: "ends_with s [c] \<longleftrightarrow> s \<noteq> [] \<and> last s = c"
  by (cases s rule: rev_cases) (auto simp: ends_with_def)

text \<open>\<open>str::split(c)\<close> keeps empty pieces; \<open>str::split_whitespace\<close> drops them.\<close>

fun split_on :: "char \<Rightarrow> string \<Rightarrow> string list" where
  "split_on d [] = [[]]"
| "split_on d (c # cs) =
     (if c = d then [] # split_on d cs
      else case split_on d cs of [] \<Rightarrow> [[c]] | p # ps \<Rightarrow> (c # p) # ps)"

lemma split_on_not_Nil [simp]: "split_on d s \<noteq> []"
  by (induction s) (auto split: list.splits)

lemma split_on_no_delim: "d \<notin> set s \<Longrightarrow> split_on d s = [s]"
  by (induction s) auto

lemma split_on_append_delim:
  "d \<notin> set p \<Longrightarrow> split_on d (p @ d # s) = p # split_on d s"
  by (induction p) auto

fun split_whitespace_aux :: "string \<Rightarrow> string \<Rightarrow> string list" where
  "split_whitespace_aux acc [] = (if acc = [] then [] else [rev acc])"
| "split_whitespace_aux acc (c # cs) =
     (if is_whitespace c
      then (if acc = [] then split_whitespace_aux [] cs else rev acc # split_whitespace_aux [] cs)
      else split_whitespace_aux (c # acc) cs)"

definition split_whitespace :: "string \<Rightarrow> string list" where
  "split_whitespace s = split_whitespace_aux [] s"

lemma split_whitespace_aux_pieces:
  "\<forall>c \<in> set acc. \<not> is_whitespace c \<Longrightarrow> p \<in> set (split_whitespace_aux acc s) \<Longrightarrow>
   p \<noteq> [] \<and> (\<forall>c \<in> set p. \<not> is_whitespace c)"
proof (induction s arbitrary: acc)
  case Nil
  then show ?case by (auto split: if_splits)
next
  case (Cons c cs)
  show ?case
  proof (cases "is_whitespace c")
    case True
    from Cons.prems True consider "acc \<noteq> []" "p = rev acc" | "p \<in> set (split_whitespace_aux [] cs)"
      by (cases "acc = []") auto
    then show ?thesis
      using Cons.prems(1) Cons.IH [of "[]"] by cases auto
  next
    case False
    with Cons.prems have "\<forall>x \<in> set (c # acc). \<not> is_whitespace x"
      and "p \<in> set (split_whitespace_aux (c # acc) cs)"
      by simp_all
    then show ?thesis by (rule Cons.IH)
  qed
qed

lemma split_whitespace_pieces:
  "p \<in> set (split_whitespace s) \<Longrightarrow> p \<noteq> [] \<and> (\<forall>c \<in> set p. \<not> is_whitespace c)"
  using split_whitespace_aux_pieces [of "[]"] by (simp add: split_whitespace_def)

text \<open>\<open>str::eq_ignore_ascii_case\<close>, \<open>make_ascii_lowercase\<close>.\<close>

definition ascii_lowercase :: "string \<Rightarrow> string" where
  "ascii_lowercase s = map to_ascii_lowercase s"

definition eq_ignore_ascii_case :: "string \<Rightarrow> string \<Rightarrow> bool" where
  "eq_ignore_ascii_case a b \<longleftrightarrow> ascii_lowercase a = ascii_lowercase b"

lemma ascii_lowercase_id:
  "\<forall>c \<in> set s. \<not> is_ascii_uppercase c \<Longrightarrow> ascii_lowercase s = s"
  by (induction s) (simp_all add: ascii_lowercase_def)

end
