(* ===== verification/Keystroke.thy ===== *)
theory Keystroke
  imports Rust_Str
begin

text \<open>
  Keystrokes, from \<open>src/src/platform/keystroke.rs\<close>: \<open>Modifiers\<close> with its bit operations,
  \<open>Keystroke\<close> with \<open>should_match\<close>, \<open>parse\<close>, \<open>unparse\<close> and the IME helpers, and
  \<open>KeybindingKeystroke\<close>.  The build target is an argument where the code has a \<open>cfg\<close>.  The
  \<open>Display\<close> forms use symbols outside the modelled alphabet and are left out.
\<close>

section \<open>Modifiers\<close>

record modifiers =
  m_control :: bool
  m_alt :: bool
  m_shift :: bool
  m_platform :: bool
  m_function :: bool

definition modifiers_none :: modifiers where
  "modifiers_none = \<lparr>m_control = False, m_alt = False, m_shift = False,
                     m_platform = False, m_function = False\<rparr>"

definition modified :: "modifiers \<Rightarrow> bool" where
  "modified m \<longleftrightarrow> m_control m \<or> m_alt m \<or> m_shift m \<or> m_platform m \<or> m_function m"

definition secondary :: "target_os \<Rightarrow> modifiers \<Rightarrow> bool" where
  "secondary os m = (if os = Macos then m_platform m else m_control m)"

definition number_of_modifiers :: "modifiers \<Rightarrow> 8 word" where
  "number_of_modifiers m =
     of_bool (m_control m) + of_bool (m_alt m) + of_bool (m_shift m)
     + of_bool (m_platform m) + of_bool (m_function m)"

definition modifiers_command :: modifiers where
  "modifiers_command = modifiers_none\<lparr>m_platform := True\<rparr>"

definition modifiers_secondary_key :: "target_os \<Rightarrow> modifiers" where
  "modifiers_secondary_key os =
     (if os = Macos then modifiers_none\<lparr>m_platform := True\<rparr>
      else modifiers_none\<lparr>m_control := True\<rparr>)"

definition modifiers_windows :: modifiers where
  "modifiers_windows = modifiers_none\<lparr>m_platform := True\<rparr>"

definition modifiers_super_key :: modifiers where
  "modifiers_super_key = modifiers_none\<lparr>m_platform := True\<rparr>"

definition modifiers_control :: modifiers where
  "modifiers_control = modifiers_none\<lparr>m_control := True\<rparr>"

definition modifiers_alt :: modifiers where
  "modifiers_alt = modifiers_none\<lparr>m_alt := True\<rparr>"

definition modifiers_shift :: modifiers where
  "modifiers_shift = modifiers_none\<lparr>m_shift := True\<rparr>"

definition modifiers_function :: modifiers where
  "modifiers_function = modifiers_none\<lparr>m_function := True\<rparr>"

definition modifiers_command_shift :: modifiers where
  "modifiers_command_shift = modifiers_none\<lparr>m_shift := True, m_platform := True\<rparr>"

definition modifiers_control_shift :: modifiers where
  "modifiers_control_shift = modifiers_none\<lparr>m_shift := True, m_control := True\<rparr>"

definition modifiers_bitor :: "modifiers \<Rightarrow> modifiers \<Rightarrow> modifiers" where
  "modifiers_bitor self other =
     \<lparr>m_control = (m_control self \<or> m_control other), m_alt = (m_alt self \<or> m_alt other),
      m_shift = (m_shift self \<or> m_shift other), m_platform = (m_platform self \<or> m_platform other),
      m_function = (m_function self \<or> m_function other)\<rparr>"

definition modifiers_bitxor :: "modifiers \<Rightarrow> modifiers \<Rightarrow> modifiers" where
  "modifiers_bitxor self rhs =
     \<lparr>m_control = (m_control self \<noteq> m_control rhs), m_alt = (m_alt self \<noteq> m_alt rhs),
      m_shift = (m_shift self \<noteq> m_shift rhs), m_platform = (m_platform self \<noteq> m_platform rhs),
      m_function = (m_function self \<noteq> m_function rhs)\<rparr>"

definition modifiers_bitand :: "modifiers \<Rightarrow> modifiers \<Rightarrow> modifiers" where
  "modifiers_bitand self rhs =
     \<lparr>m_control = (m_control self \<and> m_control rhs), m_alt = (m_alt self \<and> m_alt rhs),
      m_shift = (m_shift self \<and> m_shift rhs), m_platform = (m_platform self \<and> m_platform rhs),
      m_function = (m_function self \<and> m_function rhs)\<rparr>"

definition is_subset_of :: "modifiers \<Rightarrow> modifiers \<Rightarrow> bool" where
  "is_subset_of self other \<longleftrightarrow> modifiers_bitand other self = self"

lemmas modifiers_defs =
  modifiers_none_def modifiers_bitor_def modifiers_bitxor_def modifiers_bitand_def is_subset_of_def

lemma is_subset_of_iff:
  "is_subset_of a b \<longleftrightarrow>
     (m_control a \<longrightarrow> m_control b) \<and> (m_alt a \<longrightarrow> m_alt b) \<and> (m_shift a \<longrightarrow> m_shift b) \<and>
     (m_platform a \<longrightarrow> m_platform b) \<and> (m_function a \<longrightarrow> m_function b)"
  by (cases a, cases b) (auto simp: modifiers_defs)

lemma is_subset_of_antisym: "is_subset_of a b \<Longrightarrow> is_subset_of b a \<Longrightarrow> a = b"
  by (cases a, cases b) (auto simp: is_subset_of_iff)

text \<open>
  C8. The bit operations on modifiers form a lattice under \<open>is_subset_of\<close>: \<open>|\<close> is the least
  upper bound, \<open>&\<close> the greatest lower bound, and \<open>^\<close> is \<open>|\<close> without \<open>&\<close>.
\<close>

theorem modifiers_lattice:
  "(is_subset_of (modifiers_bitor a b) c \<longleftrightarrow> is_subset_of a c \<and> is_subset_of b c) \<and>
   (is_subset_of c (modifiers_bitand a b) \<longleftrightarrow> is_subset_of c a \<and> is_subset_of c b) \<and>
   modifiers_bitor (modifiers_bitxor a b) (modifiers_bitand a b) = modifiers_bitor a b \<and>
   modifiers_bitand (modifiers_bitxor a b) (modifiers_bitand a b) = modifiers_none"
  unfolding is_subset_of_iff by (auto simp: modifiers_defs)

lemma number_of_modifiers_bound: "unat (number_of_modifiers m) \<le> 5"
  by (cases m) (auto simp: number_of_modifiers_def of_bool_def)

section \<open>Keystrokes\<close>

record keystroke =
  ks_modifiers :: modifiers
  ks_key :: string
  ks_key_char :: "string option"

text \<open>The two display fields of \<open>KeybindingKeystroke\<close> exist on Windows only: \<open>None\<close> elsewhere.\<close>

record keybinding_keystroke =
  kb_inner :: keystroke
  kb_display :: "(modifiers \<times> string) option"

datatype keystroke_error = InvalidKeystrokeError string

definition should_match :: "target_os \<Rightarrow> keystroke \<Rightarrow> keybinding_keystroke \<Rightarrow> bool" where
  "should_match os self target =
     ((case ks_key_char self of
         None \<Rightarrow> False
       | Some key_char \<Rightarrow>
           key_char \<noteq> ks_key self \<and>
           ks_key (kb_inner target) = key_char \<and>
           ks_modifiers (kb_inner target) =
             (if os = Windows then modifiers_none
              else modifiers_none\<lparr>m_control := m_control (ks_modifiers self),
                                  m_platform := m_platform (ks_modifiers self)\<rparr>))
      \<or> (ks_modifiers (kb_inner target) = ks_modifiers self \<and> ks_key (kb_inner target) = ks_key self))"

section \<open>Parsing\<close>

text \<open>The loop over the peekable components; \<open>rest\<close> is what \<open>components\<close> still holds.\<close>

fun parse_components ::
    "target_os \<Rightarrow> string \<Rightarrow> string list \<Rightarrow> modifiers \<Rightarrow> string option \<Rightarrow> string option \<Rightarrow>
     (keystroke_error, modifiers \<times> string option \<times> string option) result" where
  "parse_components os source [] modifiers key key_char = Inr (modifiers, key, key_char)"
| "parse_components os source (component # rest) modifiers key key_char =
     (if eq_ignore_ascii_case component ''ctrl'' then
        parse_components os source rest (modifiers\<lparr>m_control := True\<rparr>) key key_char
      else if eq_ignore_ascii_case component ''alt'' then
        parse_components os source rest (modifiers\<lparr>m_alt := True\<rparr>) key key_char
      else if eq_ignore_ascii_case component ''shift'' then
        parse_components os source rest (modifiers\<lparr>m_shift := True\<rparr>) key key_char
      else if eq_ignore_ascii_case component ''fn'' then
        parse_components os source rest (modifiers\<lparr>m_function := True\<rparr>) key key_char
      else if eq_ignore_ascii_case component ''secondary'' then
        parse_components os source rest
          (if os = Macos then modifiers\<lparr>m_platform := True\<rparr> else modifiers\<lparr>m_control := True\<rparr>)
          key key_char
      else if eq_ignore_ascii_case component ''cmd'' \<or> eq_ignore_ascii_case component ''super'' \<or>
              eq_ignore_ascii_case component ''win'' then
        parse_components os source rest (modifiers\<lparr>m_platform := True\<rparr>) key key_char
      else
        (case rest of
           next # rest' \<Rightarrow>
             if next = [] \<and> ends_with source ''-'' then Inr (modifiers, Some ''-'', key_char)
             else if 1 < byte_len next \<and> starts_with next ''>'' then
               parse_components os source rest' modifiers (Some component) (Some (drop 1 next))
             else Inl (InvalidKeystrokeError source)
         | [] \<Rightarrow>
             if byte_len component = 1 \<and> list_all is_ascii_uppercase component then
               Inr (modifiers\<lparr>m_shift := True\<rparr>, Some (ascii_lowercase component), key_char)
             else Inr (modifiers, Some (ascii_lowercase component), key_char)))"

text \<open>A keystroke that names only modifiers: the first one set, in this order, becomes the key.\<close>

definition modifier_as_key :: "modifiers \<Rightarrow> modifiers \<times> string option" where
  "modifier_as_key modifiers =
     (if m_shift modifiers then (modifiers\<lparr>m_shift := False\<rparr>, Some ''shift'')
      else if m_control modifiers then (modifiers\<lparr>m_control := False\<rparr>, Some ''control'')
      else if m_alt modifiers then (modifiers\<lparr>m_alt := False\<rparr>, Some ''alt'')
      else if m_platform modifiers then (modifiers\<lparr>m_platform := False\<rparr>, Some ''platform'')
      else if m_function modifiers then (modifiers\<lparr>m_function := False\<rparr>, Some ''function'')
      else (modifiers, None))"

definition keystroke_parse :: "target_os \<Rightarrow> string \<Rightarrow> (keystroke_error, keystroke) result" where
  "keystroke_parse os source =
     bind_result (parse_components os source (split_on CHR ''-'' source) modifiers_none None None)
       (\<lambda>(modifiers, key, key_char).
          let (modifiers, key) =
            (case key of Some k \<Rightarrow> (modifiers, Some k) | None \<Rightarrow> modifier_as_key modifiers)
          in case key of
               None \<Rightarrow> Inl (InvalidKeystrokeError source)
             | Some key \<Rightarrow> Inr \<lparr>ks_modifiers = modifiers, ks_key = key, ks_key_char = key_char\<rparr>)"

section \<open>Unparsing and IME\<close>

definition unparse :: "target_os \<Rightarrow> modifiers \<Rightarrow> string \<Rightarrow> string" where
  "unparse os modifiers key =
     (if m_function modifiers then ''fn-'' else []) @
     (if m_control modifiers then ''ctrl-'' else []) @
     (if m_alt modifiers then ''alt-'' else []) @
     (if m_platform modifiers then
        (case os of Macos \<Rightarrow> ''cmd-'' | Linux \<Rightarrow> ''super-'' | Freebsd \<Rightarrow> ''super-''
                  | Windows \<Rightarrow> ''win-'' | OtherOs \<Rightarrow> []) else []) @
     (if m_shift modifiers then ''shift-'' else []) @ key"

definition keystroke_unparse :: "target_os \<Rightarrow> keystroke \<Rightarrow> string" where
  "keystroke_unparse os self = unparse os (ks_modifiers self) (ks_key self)"

definition function_keys :: "string list" where
  "function_keys =
     [''f1'', ''f2'', ''f3'', ''f4'', ''f5'', ''f6'', ''f7'', ''f8'', ''f9'', ''f10'', ''f11'',
      ''f12'', ''f13'', ''f14'', ''f15'', ''f16'', ''f17'', ''f18'', ''f19'', ''f20'', ''f21'',
      ''f22'', ''f23'', ''f24'', ''f25'', ''f26'', ''f27'', ''f28'', ''f29'', ''f30'', ''f31'',
      ''f32'', ''f33'', ''f34'', ''f35'']"

definition is_printable_key :: "string \<Rightarrow> bool" where
  "is_printable_key key \<longleftrightarrow>
     key \<notin> set function_keys \<and>
     key \<notin> set [''backspace'', ''delete'', ''left'', ''right'', ''up'', ''down'', ''pageup'',
               ''pagedown'', ''insert'', ''home'', ''end'', ''back'', ''forward'', ''escape'']"

definition is_ime_in_progress :: "keystroke \<Rightarrow> bool" where
  "is_ime_in_progress self \<longleftrightarrow>
     ks_key_char self = None \<and> (is_printable_key (ks_key self) \<or> ks_key self = []) \<and>
     \<not> (m_platform (ks_modifiers self) \<or> m_control (ks_modifiers self) \<or>
        m_function (ks_modifiers self) \<or> m_alt (ks_modifiers self))"

text \<open>
  \<open>str::to_uppercase\<close>: \<open>None\<close> where the upper-case form leaves the modelled alphabet (U+00B5
  and U+00FF).
\<close>

definition uppercase_char :: "char \<Rightarrow> string option" where
  "uppercase_char c = (let n = code_point c in
     if (97 \<le> n \<and> n \<le> 122) \<or> (224 \<le> n \<and> n \<le> 246) \<or> (248 \<le> n \<and> n \<le> 254)
     then Some [char_of (n - 32)]
     else if n = 223 then Some ''SS''
     else if n = 181 \<or> n = 255 then None
     else Some [c])"

fun to_uppercase :: "string \<Rightarrow> string option" where
  "to_uppercase [] = Some []"
| "to_uppercase (c # cs) =
     (case uppercase_char c of None \<Rightarrow> None | Some u \<Rightarrow> map_option ((@) u) (to_uppercase cs))"

definition with_simulated_ime :: "keystroke \<Rightarrow> keystroke option" where
  "with_simulated_ime self =
     (if ks_key_char self = None \<and> \<not> m_platform (ks_modifiers self) \<and>
         \<not> m_control (ks_modifiers self) \<and> \<not> m_function (ks_modifiers self) \<and>
         \<not> m_alt (ks_modifiers self)
      then
        (let key = ks_key self in
         if key = ''space'' then Some (self\<lparr>ks_key_char := Some '' ''\<rparr>)
         else if key = ''tab'' then Some (self\<lparr>ks_key_char := Some [CHR 0x09]\<rparr>)
         else if key = ''enter'' then Some (self\<lparr>ks_key_char := Some [CHR 0x0A]\<rparr>)
         else if \<not> is_printable_key key \<or> key = [] then Some self
         else if m_shift (ks_modifiers self)
         then map_option (\<lambda>u. self\<lparr>ks_key_char := Some u\<rparr>) (to_uppercase key)
         else Some (self\<lparr>ks_key_char := Some key\<rparr>))
      else Some self)"

section \<open>Keybinding keystrokes\<close>

definition kb_from_keystroke :: "target_os \<Rightarrow> keystroke \<Rightarrow> keybinding_keystroke" where
  "kb_from_keystroke os keystroke =
     \<lparr>kb_inner = keystroke,
      kb_display = (if os = Windows then Some (ks_modifiers keystroke, ks_key keystroke) else None)\<rparr>"

definition kb_modifiers :: "keybinding_keystroke \<Rightarrow> modifiers" where
  "kb_modifiers k = (case kb_display k of Some (m, _) \<Rightarrow> m | None \<Rightarrow> ks_modifiers (kb_inner k))"

definition kb_key :: "keybinding_keystroke \<Rightarrow> string" where
  "kb_key k = (case kb_display k of Some (_, key) \<Rightarrow> key | None \<Rightarrow> ks_key (kb_inner k))"

definition kb_set_modifiers :: "modifiers \<Rightarrow> keybinding_keystroke \<Rightarrow> keybinding_keystroke" where
  "kb_set_modifiers m k =
     k\<lparr>kb_inner := (kb_inner k)\<lparr>ks_modifiers := m\<rparr>,
       kb_display := map_option (\<lambda>(_, key). (m, key)) (kb_display k)\<rparr>"

definition kb_set_key :: "string \<Rightarrow> keybinding_keystroke \<Rightarrow> keybinding_keystroke" where
  "kb_set_key key k =
     k\<lparr>kb_inner := (kb_inner k)\<lparr>ks_key := key\<rparr>,
       kb_display := map_option (\<lambda>(m, _). (m, key)) (kb_display k)\<rparr>"

definition kb_unparse :: "target_os \<Rightarrow> keybinding_keystroke \<Rightarrow> string" where
  "kb_unparse os k = unparse os (kb_modifiers k) (kb_key k)"

definition kb_remove_key_char :: "keybinding_keystroke \<Rightarrow> keybinding_keystroke" where
  "kb_remove_key_char k = k\<lparr>kb_inner := (kb_inner k)\<lparr>ks_key_char := None\<rparr>\<rparr>"

lemma kb_from_keystroke_simps [simp]:
  "kb_inner (kb_from_keystroke os k) = k"
  "kb_modifiers (kb_from_keystroke os k) = ks_modifiers k"
  "kb_key (kb_from_keystroke os k) = ks_key k"
  by (simp_all add: kb_from_keystroke_def kb_modifiers_def kb_key_def)

lemma kb_set_simps [simp]:
  "kb_modifiers (kb_set_modifiers m k) = m" "kb_key (kb_set_modifiers m k) = kb_key k"
  "kb_key (kb_set_key key k) = key" "kb_modifiers (kb_set_key key k) = kb_modifiers k"
  by (simp_all add: kb_set_modifiers_def kb_set_key_def kb_modifiers_def kb_key_def
      split: option.split prod.split)

text \<open>
  A typed keystroke matches a binding exactly when key and modifiers agree, or, if it
  produced a character other than its key, when the binding is that character with at most
  the control and platform modifiers that were held (with none on Windows).
\<close>

theorem should_match_from_keystroke:
  "should_match os typed (kb_from_keystroke os target) \<longleftrightarrow>
     (ks_key target = ks_key typed \<and> ks_modifiers target = ks_modifiers typed) \<or>
     (\<exists>ch. ks_key_char typed = Some ch \<and> ch \<noteq> ks_key typed \<and> ks_key target = ch \<and>
        ks_modifiers target =
          (if os = Windows then modifiers_none
           else modifiers_bitand (ks_modifiers typed)
                  (modifiers_bitor modifiers_control modifiers_command)))"
  by (auto simp: should_match_def modifiers_defs modifiers_control_def modifiers_command_def
      split: option.split)


section \<open>Reading back what is unparsed\<close>

text \<open>
  Keys that survive: lower case, without a dash (or the dash itself), and not one of the
  words the parser reads as a modifier.
\<close>

definition modifier_words :: "string list" where
  "modifier_words =
     [''ctrl'', ''alt'', ''shift'', ''fn'', ''secondary'', ''cmd'', ''super'', ''win'']"

definition plain_key :: "string \<Rightarrow> bool" where
  "plain_key key \<longleftrightarrow> key = ''-'' \<or>
     (key \<noteq> [] \<and> CHR ''-'' \<notin> set key \<and> \<not> list_ex is_ascii_uppercase key \<and>
      key \<notin> set modifier_words)"

lemma lowercase_words [simp]:
  "ascii_lowercase ''ctrl'' = ''ctrl''" "ascii_lowercase ''alt'' = ''alt''"
  "ascii_lowercase ''shift'' = ''shift''" "ascii_lowercase ''fn'' = ''fn''"
  "ascii_lowercase ''secondary'' = ''secondary''" "ascii_lowercase ''cmd'' = ''cmd''"
  "ascii_lowercase ''super'' = ''super''" "ascii_lowercase ''win'' = ''win''"
  "ascii_lowercase [] = []"
  by (simp_all add: ascii_lowercase_def to_ascii_lowercase_def is_ascii_uppercase_def code_point_def)

lemma parse_plain_key:
  assumes "plain_key key" and "key = ''-'' \<Longrightarrow> ends_with source ''-''"
  shows "parse_components os source (split_on CHR ''-'' key) m None None = Inr (m, Some key, None)"
proof (cases "key = ''-''")
  case True
  with assms(2) show ?thesis by (simp add: eq_ignore_ascii_case_def)
next
  case False
  with assms(1) have key: "key \<noteq> []" "CHR ''-'' \<notin> set key" "key \<notin> set modifier_words"
    "\<forall>c \<in> set key. \<not> is_ascii_uppercase c"
    by (auto simp: plain_key_def list_ex_iff)
  from key(4) have "ascii_lowercase key = key" by (rule ascii_lowercase_id)
  moreover have "\<not> list_all is_ascii_uppercase key" using key(1,4) by (cases key) auto
  ultimately show ?thesis
    using key(3) by (simp add: split_on_no_delim [OF key(2)] eq_ignore_ascii_case_def modifier_words_def)
qed

lemma split_on_word:
  "CHR ''-'' \<notin> set w \<Longrightarrow>
   split_on CHR ''-'' ((if b then w @ ''-'' else []) @ s) = (if b then [w] else []) @ split_on CHR ''-'' s"
  by (simp add: split_on_append_delim)

lemma parse_words:
  "parse_components os src ((if b then [''fn''] else []) @ ws) m k c =
     parse_components os src ws (m\<lparr>m_function := m_function m \<or> b\<rparr>) k c"
  "parse_components os src ((if b then [''ctrl''] else []) @ ws) m k c =
     parse_components os src ws (m\<lparr>m_control := m_control m \<or> b\<rparr>) k c"
  "parse_components os src ((if b then [''alt''] else []) @ ws) m k c =
     parse_components os src ws (m\<lparr>m_alt := m_alt m \<or> b\<rparr>) k c"
  "parse_components os src ((if b then [''shift''] else []) @ ws) m k c =
     parse_components os src ws (m\<lparr>m_shift := m_shift m \<or> b\<rparr>) k c"
  "w \<in> {''cmd'', ''super'', ''win''} \<Longrightarrow>
   parse_components os src ((if b then [w] else []) @ ws) m k c =
     parse_components os src ws (m\<lparr>m_platform := m_platform m \<or> b\<rparr>) k c"
  by (cases m; auto simp: eq_ignore_ascii_case_def)+

definition platform_word :: "target_os \<Rightarrow> string" where
  "platform_word os = (case os of Macos \<Rightarrow> ''cmd'' | Windows \<Rightarrow> ''win'' | _ \<Rightarrow> ''super'')"

lemma unparse_words:
  assumes "os \<noteq> OtherOs \<or> \<not> m_platform m"
  shows "unparse os m key =
     (if m_function m then ''fn'' @ ''-'' else []) @ (if m_control m then ''ctrl'' @ ''-'' else []) @
     (if m_alt m then ''alt'' @ ''-'' else []) @
     (if m_platform m then platform_word os @ ''-'' else []) @
     (if m_shift m then ''shift'' @ ''-'' else []) @ key"
  using assms by (auto simp: unparse_def platform_word_def split: target_os.split)

text \<open>
  Unparsing a keystroke with a plain key and parsing the text gives its modifiers and its
  key back, on every target whose platform modifier has a name.
\<close>

theorem keystroke_parse_unparse:
  assumes "plain_key (ks_key ks)" and "os \<noteq> OtherOs \<or> \<not> m_platform (ks_modifiers ks)"
  shows "keystroke_parse os (keystroke_unparse os ks) = Inr (ks\<lparr>ks_key_char := None\<rparr>)"
proof -
  let ?m = "ks_modifiers ks" and ?key = "ks_key ks"
  let ?src = "unparse os ?m ?key"
  have word: "platform_word os \<in> {''cmd'', ''super'', ''win''}"
    by (cases os) (simp_all add: platform_word_def)
  then have "CHR ''-'' \<notin> set (platform_word os)" by auto
  then have "split_on CHR ''-'' ?src =
     (if m_function ?m then [''fn''] else []) @ (if m_control ?m then [''ctrl''] else []) @
     (if m_alt ?m then [''alt''] else []) @ (if m_platform ?m then [platform_word os] else []) @
     (if m_shift ?m then [''shift''] else []) @ split_on CHR ''-'' ?key"
    unfolding unparse_words [OF assms(2)] by (subst split_on_word, simp)+ simp
  then have "parse_components os ?src (split_on CHR ''-'' ?src) modifiers_none None None =
      parse_components os ?src (split_on CHR ''-'' ?key) ?m None None"
    by (simp only: parse_words(1-4) parse_words(5) [OF word]) (cases ?m, simp add: modifiers_none_def)
  also have "\<dots> = Inr (?m, Some ?key, None)"
    using assms(1) by (rule parse_plain_key) (simp add: unparse_def ends_with_single)
  finally show ?thesis by (simp add: keystroke_parse_def keystroke_unparse_def)
qed

theorem keystroke_parse_unparse_witness:
  "keystroke_parse Linux (keystroke_unparse Linux
     \<lparr>ks_modifiers = modifiers_control_shift, ks_key = ''pageup'', ks_key_char = None\<rparr>) =
   Inr \<lparr>ks_modifiers = modifiers_control_shift, ks_key = ''pageup'', ks_key_char = None\<rparr>"
  using keystroke_parse_unparse
    [of "\<lparr>ks_modifiers = modifiers_control_shift, ks_key = ''pageup'', ks_key_char = None\<rparr>" Linux]
  by (simp add: plain_key_def modifier_words_def is_ascii_uppercase_def code_point_def)

text \<open>
  A text with one dash, at its end, is read as the dash key whatever stands before the
  dash, unless that is a modifier word: the text before it is dropped without an error.
\<close>

theorem keystroke_parse_trailing_dash:
  assumes "CHR ''-'' \<notin> set junk" and "ascii_lowercase junk \<notin> set modifier_words"
  shows "keystroke_parse os (junk @ ''-'') =
     Inr \<lparr>ks_modifiers = modifiers_none, ks_key = ''-'', ks_key_char = None\<rparr>"
proof -
  have "split_on CHR ''-'' (junk @ ''-'') = [junk, []]"
    using assms(1) by (simp add: split_on_append_delim)
  then show ?thesis
    using assms(2) by (simp add: keystroke_parse_def eq_ignore_ascii_case_def modifier_words_def)
qed

theorem keystroke_parse_trailing_dash_witness:
  "keystroke_parse Macos ''foo-'' =
     Inr \<lparr>ks_modifiers = modifiers_none, ks_key = ''-'', ks_key_char = None\<rparr>"
  using keystroke_parse_trailing_dash [of "''foo''" Macos]
  by (simp add: modifier_words_def ascii_lowercase_def to_ascii_lowercase_def
      is_ascii_uppercase_def code_point_def)

end
