(* ===== verification/Action_Registry.thy ===== *)
theory Action_Registry
  imports Rust_Str
begin

text \<open>
  Actions and the action registry, from \<open>src/src/action.rs\<close>.  A \<open>dyn Action\<close> is the name of
  its concrete type, standing for its \<open>TypeId\<close>, and its field values in some fixed encoding;
  \<open>partial_eq\<close> is the one the derive macro generates.  The builder functions that actions
  register are values of the model, over a type \<open>'j\<close> of JSON values and a type \<open>'e\<close> of
  errors that come from outside the crate.
\<close>

section \<open>Actions\<close>

datatype action = Action (act_type: string) (act_fields: string)

definition action_partial_eq :: "action \<Rightarrow> action \<Rightarrow> bool" where
  "action_partial_eq a b \<longleftrightarrow> act_type a = act_type b \<and> act_fields a = act_fields b"

definition no_action_type :: string where
  "no_action_type = ''zed::NoAction''"

definition is_no_action :: "action \<Rightarrow> bool" where
  "is_no_action a \<longleftrightarrow> act_type a = no_action_type"

lemma action_partial_eq_iff [simp]: "action_partial_eq a b \<longleftrightarrow> a = b"
  by (cases a, cases b) (simp add: action_partial_eq_def)

section \<open>The registry\<close>

type_synonym ('j, 'e) action_builder = "'j \<Rightarrow> ('e, action) result"

datatype 'e action_build_error = ActionNotFound string | ActionBuildError string 'e

record ('j, 'e) macro_action_data =
  mad_name :: string
  mad_type_id :: string
  mad_build :: "('j, 'e) action_builder"
  mad_deprecated_aliases :: "string list"
  mad_deprecation_message :: "string option"
  mad_documentation :: "string option"

record ('j, 'e) action_registry =
  by_name :: "string \<rightharpoonup> ('j, 'e) action_builder"
  names_by_type_id :: "string \<rightharpoonup> string"
  all_names :: "string list"
  deprecated_aliases :: "string \<rightharpoonup> string"
  deprecation_messages :: "string \<rightharpoonup> string"
  documentation :: "string \<rightharpoonup> string"

definition registry_empty :: "('j, 'e) action_registry" where
  "registry_empty = \<lparr>by_name = Map.empty, names_by_type_id = Map.empty, all_names = [],
     deprecated_aliases = Map.empty, deprecation_messages = Map.empty,
     documentation = Map.empty\<rparr>"

text \<open>The loop over the deprecated aliases; \<open>None\<close> is the panic on a name already taken.\<close>

fun insert_aliases ::
    "string \<Rightarrow> ('j, 'e) action_builder \<Rightarrow> string list \<Rightarrow> ('j, 'e) action_registry \<Rightarrow>
     ('j, 'e) action_registry option" where
  "insert_aliases name builder [] self = Some self"
| "insert_aliases name builder (alt_name # aliases) self =
     (if alt_name \<in> dom (by_name self) then None
      else insert_aliases name builder aliases
        (self\<lparr>by_name := (by_name self)(alt_name \<mapsto> builder),
              deprecated_aliases := (deprecated_aliases self)(alt_name \<mapsto> name),
              all_names := all_names self @ [alt_name]\<rparr>))"

definition insert_action ::
    "('j, 'e) macro_action_data \<Rightarrow> ('j, 'e) action_registry \<Rightarrow> ('j, 'e) action_registry option" where
  "insert_action action self =
     (let name = mad_name action in
      if name \<in> dom (by_name self) then None
      else
        case insert_aliases name (mad_build action) (mad_deprecated_aliases action)
               (self\<lparr>by_name := (by_name self)(name \<mapsto> mad_build action)\<rparr>) of
          None \<Rightarrow> None
        | Some self \<Rightarrow> Some (self
            \<lparr>names_by_type_id := (names_by_type_id self)(mad_type_id action \<mapsto> name),
             all_names := all_names self @ [name],
             deprecation_messages :=
               (case mad_deprecation_message action of
                  Some msg \<Rightarrow> (deprecation_messages self)(name \<mapsto> msg)
                | None \<Rightarrow> deprecation_messages self),
             documentation :=
               (case mad_documentation action of
                  Some doc \<Rightarrow> (documentation self)(name \<mapsto> doc)
                | None \<Rightarrow> documentation self)\<rparr>))"

text \<open>The actions collected by \<open>inventory\<close> are the argument.\<close>

fun load_actions ::
    "('j, 'e) macro_action_data list \<Rightarrow> ('j, 'e) action_registry \<Rightarrow> ('j, 'e) action_registry option"
where
  "load_actions [] self = Some self"
| "load_actions (action # actions) self =
     (case insert_action action self of None \<Rightarrow> None | Some self \<Rightarrow> load_actions actions self)"

definition build_action ::
    "'j \<Rightarrow> ('j, 'e) action_registry \<Rightarrow> string \<Rightarrow> 'j option \<Rightarrow> ('e action_build_error, action) result"
where
  "build_action empty_json self name params =
     (case by_name self name of
        None \<Rightarrow> Inl (ActionNotFound name)
      | Some builder \<Rightarrow>
          (case builder (case params of Some p \<Rightarrow> p | None \<Rightarrow> empty_json) of
             Inl e \<Rightarrow> Inl (ActionBuildError name e)
           | Inr a \<Rightarrow> Inr a))"

text \<open>\<open>build_action_type\<close>: \<open>Inl None\<close> is the error for a type that is not registered.\<close>

definition build_action_type ::
    "'j \<Rightarrow> ('j, 'e) action_registry \<Rightarrow> string \<Rightarrow> ('e action_build_error option, action) result" where
  "build_action_type empty_json self type_id =
     (case names_by_type_id self type_id of
        None \<Rightarrow> Inl None
      | Some name \<Rightarrow>
          (case build_action empty_json self name None of
             Inl e \<Rightarrow> Inl (Some e) | Inr a \<Rightarrow> Inr a))"

section \<open>The invariant\<close>

definition registry_wf :: "('j, 'e) action_registry \<Rightarrow> bool" where
  "registry_wf r \<longleftrightarrow>
     distinct (all_names r) \<and> set (all_names r) = dom (by_name r) \<and>
     ran (names_by_type_id r) \<subseteq> set (all_names r) \<and>
     dom (deprecated_aliases r) \<subseteq> set (all_names r) \<and>
     ran (deprecated_aliases r) \<subseteq> set (all_names r) - dom (deprecated_aliases r) \<and>
     ran (names_by_type_id r) \<inter> dom (deprecated_aliases r) = {}"

lemma registry_wf_empty [simp]: "registry_wf registry_empty"
  by (simp add: registry_wf_def registry_empty_def)

text \<open>The aliases are registered one after the other, so they and the name must all be new.\<close>

lemma insert_aliases_eq:
  "insert_aliases name builder aliases r =
     (if distinct aliases \<and> set aliases \<inter> dom (by_name r) = {}
      then Some (r
        \<lparr>by_name := (\<lambda>x. if x \<in> set aliases then Some builder else by_name r x),
         deprecated_aliases := (\<lambda>x. if x \<in> set aliases then Some name else deprecated_aliases r x),
         all_names := all_names r @ aliases\<rparr>)
      else None)"
proof (induction aliases arbitrary: r)
  case Nil
  then show ?case by simp
next
  case (Cons n aliases)
  show ?case
  proof (cases "n \<in> dom (by_name r)")
    case False
    then have guard: "(distinct aliases \<and> set aliases \<inter> insert n (dom (by_name r)) = {}) \<longleftrightarrow>
        (distinct (n # aliases) \<and> set (n # aliases) \<inter> dom (by_name r) = {})" if "n \<notin> set aliases"
      using that by auto
    have maps: "(\<lambda>x. if x \<in> set aliases then Some v else (f(n \<mapsto> v)) x) =
        (\<lambda>x. if x \<in> set (n # aliases) then Some v else f x)" for f :: "string \<rightharpoonup> 'x" and v
      by auto
    show ?thesis
      using False by (cases "n \<in> set aliases") (simp_all add: Cons.IH guard maps del: fun_upd_apply cong: if_cong)
  qed simp
qed

definition action_names :: "('j, 'e) macro_action_data \<Rightarrow> string list" where
  "action_names a = mad_name a # mad_deprecated_aliases a"

definition registered :: "('j, 'e) macro_action_data \<Rightarrow> ('j, 'e) action_registry \<Rightarrow> ('j, 'e) action_registry"
where
  "registered a r = r
     \<lparr>by_name := (\<lambda>x. if x \<in> set (action_names a) then Some (mad_build a) else by_name r x),
      names_by_type_id := (names_by_type_id r)(mad_type_id a \<mapsto> mad_name a),
      all_names := all_names r @ mad_deprecated_aliases a @ [mad_name a],
      deprecated_aliases := (\<lambda>x. if x \<in> set (mad_deprecated_aliases a) then Some (mad_name a)
                                   else deprecated_aliases r x),
      deprecation_messages := (case mad_deprecation_message a of
          Some msg \<Rightarrow> (deprecation_messages r)(mad_name a \<mapsto> msg) | None \<Rightarrow> deprecation_messages r),
      documentation := (case mad_documentation a of
          Some doc \<Rightarrow> (documentation r)(mad_name a \<mapsto> doc) | None \<Rightarrow> documentation r)\<rparr>"

lemma insert_action_eq:
  "insert_action a r =
     (if distinct (action_names a) \<and> set (action_names a) \<inter> dom (by_name r) = {}
      then Some (registered a r) else None)"
proof (cases "distinct (action_names a) \<and> set (action_names a) \<inter> dom (by_name r) = {}")
  case True
  then have "mad_name a \<notin> dom (by_name r)" "distinct (mad_deprecated_aliases a)"
    "set (mad_deprecated_aliases a) \<inter> dom ((by_name r)(mad_name a \<mapsto> mad_build a)) = {}"
    by (auto simp: action_names_def)
  moreover have "(\<lambda>x. if x \<in> set (mad_deprecated_aliases a) then Some (mad_build a)
        else ((by_name r)(mad_name a \<mapsto> mad_build a)) x) =
      (\<lambda>x. if x \<in> set (action_names a) then Some (mad_build a) else by_name r x)"
    by (auto simp: action_names_def)
  ultimately show ?thesis
    unfolding insert_action_def insert_aliases_eq Let_def registered_def using True
    by (simp cong: if_cong split: option.split)
next
  case False
  then show ?thesis
    by (auto simp: insert_action_def insert_aliases_eq Let_def action_names_def)
qed

lemma registry_wf_registered:
  assumes "registry_wf r" and "distinct (action_names a)"
    and "set (action_names a) \<inter> dom (by_name r) = {}"
  shows "registry_wf (registered a r)"
proof -
  let ?r = "registered a r" and ?A = "set (mad_deprecated_aliases a)"
  note wf = assms(1) [unfolded registry_wf_def]
  have a: "mad_name a \<notin> ?A" "set (action_names a) = insert (mad_name a) ?A"
    using assms(2) by (auto simp: action_names_def)
  with assms(3) wf have new: "mad_name a \<notin> set (all_names r)" "?A \<inter> set (all_names r) = {}"
    by auto
  have names: "set (all_names ?r) = set (all_names r) \<union> insert (mad_name a) ?A"
    by (auto simp: registered_def)
  have types: "ran (names_by_type_id ?r) \<subseteq> insert (mad_name a) (ran (names_by_type_id r))"
    by (auto simp: registered_def ran_def)
  have dep: "dom (deprecated_aliases ?r) = ?A \<union> dom (deprecated_aliases r)"
    by (auto simp: registered_def)
  have dep_ran: "ran (deprecated_aliases ?r) \<subseteq> insert (mad_name a) (ran (deprecated_aliases r))"
    by (auto simp: registered_def ran_def)
  show ?thesis unfolding registry_wf_def
  proof (intro conjI)
    show "distinct (all_names ?r)"
      using wf new a assms(2) by (auto simp: registered_def action_names_def)
    show "set (all_names ?r) = dom (by_name ?r)"
      using wf a unfolding names by (auto simp: registered_def)
    show "ran (names_by_type_id ?r) \<subseteq> set (all_names ?r)"
      using types wf unfolding names by blast
    show "dom (deprecated_aliases ?r) \<subseteq> set (all_names ?r)"
      using wf unfolding dep names by blast
    have "mad_name a \<notin> dom (deprecated_aliases r)" using wf new by blast
    with dep_ran a(1) wf new show "ran (deprecated_aliases ?r) \<subseteq> set (all_names ?r) - dom (deprecated_aliases ?r)"
      unfolding dep names by blast
    show "ran (names_by_type_id ?r) \<inter> dom (deprecated_aliases ?r) = {}"
      using types a(1) wf new \<open>mad_name a \<notin> dom (deprecated_aliases r)\<close> unfolding dep by blast
  qed
qed

section \<open>Loading all registered actions\<close>

lemma dom_registered: "dom (by_name (registered a r)) = set (action_names a) \<union> dom (by_name r)"
  by (auto simp: registered_def)

lemma load_actions_None:
  "load_actions as r = None \<longleftrightarrow>
     \<not> (distinct (concat (map action_names as)) \<and>
        set (concat (map action_names as)) \<inter> dom (by_name r) = {})"
proof (induction as arbitrary: r)
  case (Cons a as)
  have "(distinct (concat (map action_names (a # as))) \<and>
        set (concat (map action_names (a # as))) \<inter> dom (by_name r) = {}) \<longleftrightarrow>
      (distinct (action_names a) \<and> set (action_names a) \<inter> dom (by_name r) = {}) \<and>
      (distinct (concat (map action_names as)) \<and>
        set (concat (map action_names as)) \<inter> dom (by_name (registered a r)) = {})"
    by (simp add: dom_registered Int_Un_distrib Int_Un_distrib2) blast
  then show ?case
    using Cons.IH [of "registered a r"]
    by (cases "distinct (action_names a) \<and> set (action_names a) \<inter> dom (by_name r) = {}")
      (simp_all only: load_actions.simps insert_action_eq if_True if_False option.case simp_thms)
qed simp

lemma load_actions_Some:
  "registry_wf r \<Longrightarrow> load_actions as r = Some r' \<Longrightarrow>
   registry_wf r' \<and>
   by_name r' n = (case find (\<lambda>a. n \<in> set (action_names a)) as of
                     None \<Rightarrow> by_name r n | Some a \<Rightarrow> Some (mad_build a))"
proof (induction as arbitrary: r)
  case (Cons a as)
  from Cons.prems(2) have ok: "distinct (action_names a)" "set (action_names a) \<inter> dom (by_name r) = {}"
    and rest: "load_actions as (registered a r) = Some r'"
    by (auto simp: insert_action_eq split: if_splits)
  have "find (\<lambda>b. n \<in> set (action_names b)) as = None" if "n \<in> set (action_names a)"
    using that load_actions_None [of as "registered a r"] rest
    by (auto simp: find_None_iff dom_registered)
  with Cons.IH [OF registry_wf_registered [OF Cons.prems(1) ok] rest] show ?case
    by (cases "n \<in> set (action_names a)") (auto simp: registered_def split: option.split)
qed simp

text \<open>
  Loading the collected actions panics exactly when two of their names and aliases
  collide; otherwise the registry is well formed and a name is registered exactly when it
  is the name or an alias of one of the actions, with that action's builder.
\<close>

theorem load_actions_registers:
  "(load_actions as registry_empty = None \<longleftrightarrow> \<not> distinct (concat (map action_names as))) \<and>
   (case load_actions as registry_empty of
      None \<Rightarrow> True
    | Some r \<Rightarrow> registry_wf r \<and>
        by_name r n = map_option mad_build (find (\<lambda>a. n \<in> set (action_names a)) as))"
proof -
  have empty: "by_name registry_empty = Map.empty" by (simp add: registry_empty_def)
  from load_actions_None [of as registry_empty] have
    "load_actions as registry_empty = None \<longleftrightarrow> \<not> distinct (concat (map action_names as))"
    by (simp add: empty)
  then show ?thesis
    using load_actions_Some [OF registry_wf_empty, of as _ n]
    by (auto simp: empty split: option.split)
qed

text \<open>
  C13. In a well-formed registry, building an action by its type never fails with
  \<open>NotFound\<close>: the type's name is registered, and only its builder can fail.
\<close>

theorem build_action_type_found:
  assumes "registry_wf r" and "names_by_type_id r type_id = Some name"
  shows "build_action_type empty_json r type_id \<noteq> Inl (Some (ActionNotFound n))"
proof -
  have "name \<in> dom (by_name r)" using assms by (auto simp: registry_wf_def ran_def)
  then show ?thesis
    using assms(2) by (auto simp: build_action_type_def build_action_def split: sum.splits)
qed

definition example_action :: "(string, string) macro_action_data" where
  "example_action = \<lparr>mad_name = ''editor::Copy'', mad_type_id = ''Copy'',
     mad_build = (\<lambda>j. Inr (Action ''Copy'' j)), mad_deprecated_aliases = [''editor::Yank''],
     mad_deprecation_message = None, mad_documentation = None\<rparr>"

theorem build_action_type_found_witness:
  "build_action_type ''{}'' (registered example_action registry_empty) ''Copy''
     \<noteq> Inl (Some (ActionNotFound ''editor::Copy''))"
proof (rule build_action_type_found [where name = "''editor::Copy''"])
  show "registry_wf (registered example_action registry_empty)"
    by (rule registry_wf_registered)
      (simp_all add: action_names_def example_action_def, simp add: registry_empty_def)
  show "names_by_type_id (registered example_action registry_empty) ''Copy'' = Some ''editor::Copy''"
    by (simp add: registered_def example_action_def)
qed

end
