(* ===== verification/Key_Context.thy ===== *)
theory Key_Context
  imports Rust_Str
begin

text \<open>
  Key contexts, from the first half of \<open>src/src/keymap/context.rs\<close>: \<open>ContextEntry\<close>, \<open>KeyContext\<close>, its
  operations, its parser and its \<open>Debug\<close> form.  A context is the list of its entries, as in
  the code; the invariant \<open>kc_wf\<close> says that no key occurs twice.  \<open>KeyContext::parse\<close> recurses
  without consuming input on a character it does not know, so the model is a
  \<open>partial_function\<close> whose value \<open>None\<close> means that the recursion never ends.
\<close>

section \<open>Data and characters\<close>

record context_entry =
  ce_key :: string
  ce_value :: "string option"

type_synonym key_context = "context_entry list"

definition is_identifier_char :: "char \<Rightarrow> bool" where
  "is_identifier_char c \<longleftrightarrow> is_alphanumeric c \<or> c = CHR ''_'' \<or> c = CHR ''-''"

definition is_vim_operator_char :: "char \<Rightarrow> bool" where
  "is_vim_operator_char c \<longleftrightarrow>
     c = CHR ''>'' \<or> c = CHR ''<'' \<or> c = CHR ''~'' \<or> c = CHR 0x22 \<or> c = CHR ''?''"

definition skip_whitespace :: "string \<Rightarrow> string" where
  "skip_whitespace source = dropWhile is_whitespace source"

lemma skip_whitespace_length: "length (skip_whitespace s) \<le> length s"
  by (simp add: skip_whitespace_def length_dropWhile_le)

lemma skip_whitespace_simps [simp]:
  "skip_whitespace [] = []"
  "is_whitespace c \<Longrightarrow> skip_whitespace (c # s) = skip_whitespace s"
  "\<not> is_whitespace c \<Longrightarrow> skip_whitespace (c # s) = c # s"
  by (simp_all add: skip_whitespace_def)

lemma skip_whitespace_idem [simp]: "skip_whitespace (skip_whitespace s) = skip_whitespace s"
  by (simp add: skip_whitespace_def)

lemma set_skip_whitespace: "set (skip_whitespace s) \<subseteq> set s"
  by (auto simp: skip_whitespace_def dest: set_dropWhileD)

lemma skip_whitespace_split:
  "\<exists>ws. s = ws @ skip_whitespace s \<and> (\<forall>c \<in> set ws. is_whitespace c)"
  unfolding skip_whitespace_def
  by (metis set_takeWhileD takeWhile_dropWhile_id)

lemma is_whitespace_space [simp]: "is_whitespace CHR '' ''"
  by (simp add: is_whitespace_def code_point_def)

lemma identifier_not_whitespace: "is_identifier_char c \<Longrightarrow> \<not> is_whitespace c"
  unfolding is_identifier_char_def
  by (auto dest: alphanumeric_not_whitespace simp: is_whitespace_def code_point_def Let_def)

lemma not_identifier_chars [simp]:
  "\<not> is_identifier_char CHR '' ''" "\<not> is_identifier_char CHR ''=''"
  "\<not> is_identifier_char CHR '')''" "\<not> is_identifier_char CHR ''(''"
  "\<not> is_identifier_char CHR ''!''" "\<not> is_identifier_char CHR ''&''"
  "\<not> is_identifier_char CHR ''|''" "\<not> is_identifier_char CHR ''>''"
  by (simp_all add: is_identifier_char_def char_class_defs)

section \<open>Operations\<close>

definition kc_contains :: "key_context \<Rightarrow> string \<Rightarrow> bool" where
  "kc_contains ctx key \<longleftrightarrow> list_ex (\<lambda>entry. ce_key entry = key) ctx"

definition kc_get :: "key_context \<Rightarrow> string \<Rightarrow> string option" where
  "kc_get ctx key =
     (case find (\<lambda>entry. ce_key entry = key) ctx of None \<Rightarrow> None | Some entry \<Rightarrow> ce_value entry)"

definition kc_add :: "string \<Rightarrow> key_context \<Rightarrow> key_context" where
  "kc_add identifier ctx =
     (if \<not> kc_contains ctx identifier
      then ctx @ [\<lparr>ce_key = identifier, ce_value = None\<rparr>] else ctx)"

definition kc_set :: "string \<Rightarrow> string \<Rightarrow> key_context \<Rightarrow> key_context" where
  "kc_set key value ctx =
     (if \<not> kc_contains ctx key
      then ctx @ [\<lparr>ce_key = key, ce_value = Some value\<rparr>] else ctx)"

fun kc_extend :: "key_context \<Rightarrow> key_context \<Rightarrow> key_context" where
  "kc_extend ctx [] = ctx"
| "kc_extend ctx (entry # other) =
     kc_extend (if \<not> kc_contains ctx (ce_key entry) then ctx @ [entry] else ctx) other"

definition kc_is_empty :: "key_context \<Rightarrow> bool" where
  "kc_is_empty ctx \<longleftrightarrow> ctx = []"

definition kc_clear :: "key_context \<Rightarrow> key_context" where
  "kc_clear ctx = []"

definition kc_primary :: "key_context \<Rightarrow> context_entry option" where
  "kc_primary ctx = find (\<lambda>p. ce_value p = None) ctx"

definition kc_secondary :: "key_context \<Rightarrow> context_entry list" where
  "kc_secondary ctx = filter (\<lambda>p. Some p \<noteq> kc_primary ctx) ctx"

definition kc_new_with_defaults :: "target_os \<Rightarrow> key_context" where
  "kc_new_with_defaults os =
     (case os of
        Macos \<Rightarrow> kc_set ''os'' ''macos'' []
      | Linux \<Rightarrow> kc_set ''os'' ''linux'' []
      | Freebsd \<Rightarrow> kc_set ''os'' ''linux'' []
      | Windows \<Rightarrow> kc_set ''os'' ''windows'' []
      | OtherOs \<Rightarrow> kc_set ''os'' ''unknown'' [])"

section \<open>Parsing and printing\<close>

partial_function (option) kc_parse_expr :: "string \<Rightarrow> key_context \<Rightarrow> key_context option" where
  "kc_parse_expr source ctx =
     (if source = [] then Some ctx
      else
        let key = takeWhile is_identifier_char source;
            source1 = skip_whitespace (drop (length key) source)
        in case strip_prefix source1 ''='' of
             Some suffix \<Rightarrow>
               (let source2 = skip_whitespace suffix;
                    val = takeWhile is_identifier_char source2;
                    source3 = skip_whitespace (drop (length val) source2)
                in kc_parse_expr source3 (kc_set key val ctx))
           | None \<Rightarrow> kc_parse_expr source1 (kc_add key ctx))"

definition kc_parse :: "string \<Rightarrow> key_context option" where
  "kc_parse source = kc_parse_expr (skip_whitespace source) []"

definition entry_display :: "context_entry \<Rightarrow> string" where
  "entry_display e = (case ce_value e of Some v \<Rightarrow> ce_key e @ ''='' @ v | None \<Rightarrow> ce_key e)"

fun kc_display :: "key_context \<Rightarrow> string" where
  "kc_display [] = []"
| "kc_display [e] = entry_display e"
| "kc_display (e # es) = entry_display e @ '' '' @ kc_display es"

section \<open>The invariant\<close>

definition kc_wf :: "key_context \<Rightarrow> bool" where
  "kc_wf ctx \<longleftrightarrow> distinct (map ce_key ctx)"

lemma kc_contains_iff [rust_simps]: "kc_contains ctx k \<longleftrightarrow> k \<in> ce_key ` set ctx"
  by (auto simp: kc_contains_def list_ex_iff)

lemma kc_wf_Nil [simp]: "kc_wf []"
  by (simp add: kc_wf_def)

lemma kc_wf_add [simp]: "kc_wf ctx \<Longrightarrow> kc_wf (kc_add k ctx)"
  by (auto simp: kc_wf_def kc_add_def kc_contains_iff)

lemma kc_wf_set [simp]: "kc_wf ctx \<Longrightarrow> kc_wf (kc_set k v ctx)"
  by (auto simp: kc_wf_def kc_set_def kc_contains_iff)

lemma kc_wf_extend: "kc_wf ctx \<Longrightarrow> kc_wf (kc_extend ctx other)"
  by (induction ctx other rule: kc_extend.induct) (auto simp: kc_wf_def kc_contains_iff)

lemma kc_wf_new_with_defaults: "kc_wf (kc_new_with_defaults os)"
  by (cases os) (simp_all add: kc_new_with_defaults_def)

text \<open>Extending never overrides: an entry already present keeps its value.\<close>

lemma kc_get_simps [simp]:
  "kc_get [] k = None"
  "kc_get (e # es) k = (if ce_key e = k then ce_value e else kc_get es k)"
  by (simp_all add: kc_get_def)

lemma kc_contains_simps [simp]:
  "\<not> kc_contains [] k"
  "kc_contains (e # es) k \<longleftrightarrow> ce_key e = k \<or> kc_contains es k"
  by (simp_all add: kc_contains_def)

lemma kc_get_append:
  "kc_get (xs @ ys) k = (if kc_contains xs k then kc_get xs k else kc_get ys k)"
  by (induction xs) auto

lemma kc_get_absent: "\<not> kc_contains ctx k \<Longrightarrow> kc_get ctx k = None"
  by (induction ctx) auto

lemma kc_contains_append [simp]: "kc_contains (xs @ ys) k \<longleftrightarrow> kc_contains xs k \<or> kc_contains ys k"
  by (simp add: kc_contains_def)

lemma kc_contains_extend:
  "kc_contains (kc_extend ctx other) k \<longleftrightarrow> kc_contains ctx k \<or> kc_contains other k"
  by (induction ctx other rule: kc_extend.induct) auto

lemma kc_get_extend:
  "kc_get (kc_extend ctx other) k = (if kc_contains ctx k then kc_get ctx k else kc_get other k)"
  by (induction ctx other rule: kc_extend.induct) (auto simp: kc_get_append kc_get_absent)

section \<open>Termination of the parser\<close>

text \<open>The characters on which \<open>KeyContext::parse\<close> makes progress.\<close>

definition kc_char_ok :: "char \<Rightarrow> bool" where
  "kc_char_ok c \<longleftrightarrow> is_identifier_char c \<or> is_whitespace c \<or> c = CHR ''=''"

lemma strip_eq: "strip_prefix s ''='' = (case s of c # cs \<Rightarrow> if c = CHR ''='' then Some cs else None | [] \<Rightarrow> None)"
  by (auto simp: strip_prefix_def starts_with_def split: list.split)

lemma source_split:
  "\<exists>ws. source = takeWhile is_identifier_char source @ ws @
      skip_whitespace (drop (length (takeWhile is_identifier_char source)) source) \<and>
      (\<forall>c \<in> set ws. is_whitespace c)"
  by (metis append_take_drop_id dropWhile_eq_drop skip_whitespace_split takeWhile_dropWhile_id)

lemma chars_ok_split:
  "(\<forall>c \<in> set source. kc_char_ok c) \<longleftrightarrow>
   (\<forall>c \<in> set (skip_whitespace (drop (length (takeWhile is_identifier_char source)) source)).
      kc_char_ok c)" (is "?l \<longleftrightarrow> ?r")
proof -
  obtain ws where ws: "source = takeWhile is_identifier_char source @ ws @
      skip_whitespace (drop (length (takeWhile is_identifier_char source)) source)"
    "\<forall>c \<in> set ws. is_whitespace c"
    using source_split by blast
  have "set source = set (takeWhile is_identifier_char source) \<union> set ws \<union>
      set (skip_whitespace (drop (length (takeWhile is_identifier_char source)) source))"
    by (subst ws(1)) (simp only: set_append Un_assoc)
  then show ?thesis
    using ws(2) by (auto simp: kc_char_ok_def dest: set_takeWhileD)
qed

lemma chars_ok_skip: "(\<forall>c \<in> set (skip_whitespace s). kc_char_ok c) \<longleftrightarrow> (\<forall>c \<in> set s. kc_char_ok c)"
proof -
  obtain ws where ws: "s = ws @ skip_whitespace s" "\<forall>c \<in> set ws. is_whitespace c"
    using skip_whitespace_split by blast
  have "set s = set ws \<union> set (skip_whitespace s)"
    by (subst ws(1)) (simp only: set_append)
  then show ?thesis using ws(2) by (auto simp: kc_char_ok_def)
qed

lemma kc_parse_expr_returns_ok:
  assumes ret: "kc_parse_expr source ctx = Some r"
  shows "\<forall>c \<in> set source. kc_char_ok c"
proof (rule kc_parse_expr.raw_induct
    [where P = "\<lambda>source ctx r. \<forall>c \<in> set source. kc_char_ok c", OF _ ret])
  fix f source ctx r
  let ?key = "takeWhile is_identifier_char source"
  let ?s1 = "skip_whitespace (drop (length ?key) source)"
  assume IH: "\<And>source ctx r. f source ctx = Some r \<Longrightarrow> \<forall>c \<in> set source. kc_char_ok c"
    and eq: "(if source = [] then Some ctx
      else let key = ?key; source1 = skip_whitespace (drop (length key) source)
        in case strip_prefix source1 ''='' of
             Some suffix \<Rightarrow>
               (let source2 = skip_whitespace suffix;
                    val = takeWhile is_identifier_char source2;
                    source3 = skip_whitespace (drop (length val) source2)
                in f source3 (kc_set key val ctx))
           | None \<Rightarrow> f source1 (kc_add key ctx)) = Some r"
  show "\<forall>c \<in> set source. kc_char_ok c"
  proof (cases "source = []")
    case False
    have "\<forall>c \<in> set ?s1. kc_char_ok c"
    proof (cases "strip_prefix ?s1 ''=''")
      case None
      with eq False show ?thesis by (auto simp: Let_def dest: IH)
    next
      case (Some suffix)
      with eq False have "\<forall>c \<in> set (skip_whitespace suffix). kc_char_ok c"
        by (subst chars_ok_split) (auto simp: Let_def dest: IH)
      then have "\<forall>c \<in> set suffix. kc_char_ok c" by (simp only: chars_ok_skip)
      moreover have "?s1 = CHR ''='' # suffix"
        using Some by (simp add: strip_eq split: list.splits if_splits)
      ultimately show ?thesis by (simp add: kc_char_ok_def)
    qed
    then show ?thesis by (simp only: chars_ok_split [symmetric])
  qed simp
qed

text \<open>On those characters every step shortens the input.\<close>

lemma step_shorter:
  assumes "source \<noteq> []" and "\<forall>c \<in> set source. kc_char_ok c"
    and "strip_prefix (skip_whitespace (drop (length (takeWhile is_identifier_char source)) source)) ''='' = None"
  shows "length (skip_whitespace (drop (length (takeWhile is_identifier_char source)) source)) < length source"
proof (cases source)
  case Nil
  with assms(1) show ?thesis by simp
next
  case (Cons c cs)
  show ?thesis
  proof (cases "is_identifier_char c")
    case True
    let ?n = "length (takeWhile is_identifier_char source)"
    have "length (drop ?n source) < length source" using True Cons by simp
    with skip_whitespace_length [of "drop ?n source"] show ?thesis by (rule le_less_trans)
  next
    case False
    have "is_whitespace c"
    proof (rule ccontr)
      assume nws: "\<not> is_whitespace c"
      with assms(2) False Cons have "c = CHR ''=''" by (simp add: kc_char_ok_def)
      with assms(3) False nws Cons show False by (simp add: strip_eq)
    qed
    with False Cons show ?thesis using skip_whitespace_length [of cs] by simp
  qed
qed

lemma kc_parse_expr_terminates:
  "\<forall>c \<in> set source. kc_char_ok c \<Longrightarrow> \<exists>r. kc_parse_expr source ctx = Some r"
proof (induction source arbitrary: ctx rule: length_induct)
  case (1 source)
  let ?key = "takeWhile is_identifier_char source"
  let ?s1 = "skip_whitespace (drop (length ?key) source)"
  have ok1: "\<forall>c \<in> set ?s1. kc_char_ok c" using "1.prems" by (simp only: chars_ok_split [symmetric])
  show ?case
  proof (cases "source = []")
    case True
    then show ?thesis by (simp add: kc_parse_expr.simps)
  next
    case ne: False
    show ?thesis
    proof (cases "strip_prefix ?s1 ''=''")
      case None
      with ne "1.prems" have "length ?s1 < length source" by (intro step_shorter) simp_all
      with "1.IH" ok1 obtain r where "kc_parse_expr ?s1 (kc_add ?key ctx) = Some r" by blast
      with ne None show ?thesis by (subst kc_parse_expr.simps) (simp add: Let_def)
    next
      case (Some suffix)
      let ?s2 = "skip_whitespace suffix"
      let ?val = "takeWhile is_identifier_char ?s2"
      let ?s3 = "skip_whitespace (drop (length ?val) ?s2)"
      from Some have s1: "?s1 = CHR ''='' # suffix"
        by (auto simp: strip_eq split: list.splits if_splits)
      have "length ?s3 \<le> length suffix"
        using skip_whitespace_length [of "drop (length ?val) ?s2"] skip_whitespace_length [of suffix]
        by simp
      moreover have "length ?s1 \<le> length source"
        using skip_whitespace_length [of "drop (length ?key) source"] by simp
      ultimately have shorter: "length ?s3 < length source" using s1 by simp
      from ok1 s1 have "\<forall>c \<in> set suffix. kc_char_ok c" by simp
      then have "\<forall>c \<in> set ?s2. kc_char_ok c" by (simp only: chars_ok_skip)
      then have "\<forall>c \<in> set ?s3. kc_char_ok c" by (simp only: chars_ok_split [symmetric])
      with "1.IH" shorter obtain r where "kc_parse_expr ?s3 (kc_set ?key ?val ctx) = Some r" by blast
      with ne Some show ?thesis by (subst kc_parse_expr.simps) (simp add: Let_def)
    qed
  qed
qed

text \<open>
  C30. \<open>KeyContext::parse\<close> returns exactly on the inputs made of identifier characters, white
  space and equals signs; on any other input its recursion never ends, although its result
  type promises an error value.
\<close>

theorem kc_parse_returns_iff: "(\<exists>ctx. kc_parse source = Some ctx) \<longleftrightarrow> list_all kc_char_ok source"
proof
  assume "\<exists>ctx. kc_parse source = Some ctx"
  then have "\<forall>c \<in> set (skip_whitespace source). kc_char_ok c"
    by (auto simp: kc_parse_def dest: kc_parse_expr_returns_ok)
  then show "list_all kc_char_ok source" by (simp add: chars_ok_skip list_all_iff)
next
  assume "list_all kc_char_ok source"
  then have "\<forall>c \<in> set (skip_whitespace source). kc_char_ok c"
    by (simp add: chars_ok_skip list_all_iff)
  then show "\<exists>ctx. kc_parse source = Some ctx"
    unfolding kc_parse_def by (rule kc_parse_expr_terminates)
qed

section \<open>Reading back what is printed\<close>

text \<open>Contexts whose \<open>Debug\<close> form the parser understands: identifiers as keys and values.\<close>

definition is_identifier :: "string \<Rightarrow> bool" where
  "is_identifier s \<longleftrightarrow> s \<noteq> [] \<and> list_all is_identifier_char s"

definition entry_printable :: "context_entry \<Rightarrow> bool" where
  "entry_printable e \<longleftrightarrow> is_identifier (ce_key e) \<and>
     (case ce_value e of None \<Rightarrow> True | Some v \<Rightarrow> is_identifier v)"

lemma takeWhile_identifier:
  "is_identifier s \<Longrightarrow> rest = [] \<or> \<not> is_identifier_char (hd rest) \<Longrightarrow>
   takeWhile is_identifier_char (s @ rest) = s"
  by (cases rest) (auto simp: is_identifier_def list_all_iff takeWhile_all_append)

lemma skip_whitespace_identifier [simp]: "is_identifier s \<Longrightarrow> skip_whitespace (s @ rest) = s @ rest"
  by (cases s) (auto simp: is_identifier_def identifier_not_whitespace)

lemma skip_whitespace_entry [simp]:
  "entry_printable e \<Longrightarrow> skip_whitespace (entry_display e @ rest) = entry_display e @ rest"
  by (auto simp: entry_display_def entry_printable_def split: option.splits)

lemma entry_eta: "ce_value e = v \<Longrightarrow> \<lparr>ce_key = ce_key e, ce_value = v\<rparr> = e"
  by (cases e) simp

text \<open>One entry is read back and appended, whatever follows after white space.\<close>

lemma parse_entry:
  assumes e: "entry_printable e" and new: "\<not> kc_contains ctx (ce_key e)"
    and rest: "rest = [] \<or> hd rest = CHR '' ''" and no_eq: "strip_prefix (skip_whitespace rest) ''='' = None"
  shows "kc_parse_expr (entry_display e @ rest) ctx = kc_parse_expr (skip_whitespace rest) (ctx @ [e])"
proof -
  have stop: "rest = [] \<or> \<not> is_identifier_char (hd rest)" using rest by auto
  have stop': "(CHR ''='' # t) = [] \<or> \<not> is_identifier_char (hd (CHR ''='' # t))" for t by simp
  show ?thesis
  proof (cases "ce_value e")
    case None
    with e have id: "is_identifier (ce_key e)" by (simp add: entry_printable_def)
    then have "ce_key e @ rest \<noteq> []" by (simp add: is_identifier_def)
    with None new no_eq id takeWhile_identifier [OF id stop] show ?thesis
      by (subst kc_parse_expr.simps)
        (simp add: entry_display_def Let_def kc_add_def is_identifier_def entry_eta [OF None])
  next
    case (Some v)
    with e have id: "is_identifier (ce_key e)" "is_identifier v" by (simp_all add: entry_printable_def)
    then have "ce_key e @ CHR ''='' # v @ rest \<noteq> []" by simp
    with Some new id takeWhile_identifier [OF id(1) stop', of "v @ rest"]
      takeWhile_identifier [OF id(2) stop]
    show ?thesis
      by (subst kc_parse_expr.simps)
        (simp add: entry_display_def Let_def kc_set_def strip_eq is_whitespace_def code_point_def
          entry_eta [OF Some])
  qed
qed

lemma display_not_eq:
  "list_all entry_printable es \<Longrightarrow> strip_prefix (skip_whitespace (kc_display es)) ''='' = None"
  by (induction es rule: kc_display.induct)
    (auto simp: strip_eq entry_display_def entry_printable_def is_identifier_def neq_Nil_conv
      identifier_not_whitespace split: option.splits list.splits)

lemma parse_display_expr:
  "list_all entry_printable es \<Longrightarrow> kc_wf (ctx @ es) \<Longrightarrow>
   kc_parse_expr (kc_display es) ctx = Some (ctx @ es)"
proof (induction es arbitrary: ctx rule: kc_display.induct)
  case 1
  then show ?case by (simp add: kc_parse_expr.simps)
next
  case (2 e)
  then have "kc_parse_expr (entry_display e @ []) ctx = kc_parse_expr (skip_whitespace []) (ctx @ [e])"
    by (intro parse_entry) (auto simp: kc_wf_def kc_contains_iff strip_eq)
  then show ?case by (simp add: kc_parse_expr.simps)
next
  case (3 e f es)
  let ?rest = "'' '' @ kc_display (f # es)"
  have ok: "list_all entry_printable (f # es)" using "3.prems"(1) by simp
  from display_not_eq [OF this] "3.prems" have
    "kc_parse_expr (entry_display e @ ?rest) ctx = kc_parse_expr (skip_whitespace ?rest) (ctx @ [e])"
    by (intro parse_entry) (auto simp: kc_wf_def kc_contains_iff)
  moreover have "skip_whitespace ?rest = kc_display (f # es)"
    using ok by (cases es) (simp_all, metis append_Nil2 skip_whitespace_entry)
  ultimately show ?case using "3.IH" [OF ok, of "ctx @ [e]"] "3.prems"(2) by simp
qed

text \<open>
  Printing a context whose keys and values are identifiers and parsing the text gives the
  same context back.
\<close>

theorem kc_parse_display:
  assumes "kc_wf ctx" and "list_all entry_printable ctx"
  shows "kc_parse (kc_display ctx) = Some ctx"
proof -
  have "skip_whitespace (kc_display ctx) = kc_display ctx"
    using assms(2)
    by (cases ctx rule: kc_display.cases) (simp_all, metis append_Nil2 skip_whitespace_entry)
  with parse_display_expr [of ctx "[]"] assms show ?thesis by (simp add: kc_parse_def)
qed

theorem kc_parse_display_witness:
  "kc_parse (kc_display
     [\<lparr>ce_key = ''Editor'', ce_value = None\<rparr>, \<lparr>ce_key = ''mode'', ce_value = Some ''full''\<rparr>]) =
   Some [\<lparr>ce_key = ''Editor'', ce_value = None\<rparr>, \<lparr>ce_key = ''mode'', ce_value = Some ''full''\<rparr>]"
  by (rule kc_parse_display)
    (simp_all add: kc_wf_def entry_printable_def is_identifier_def is_identifier_char_def char_class_defs)

end
