(* ===== verification/Context_Predicate.thy ===== *)
theory Context_Predicate
  imports Key_Context
begin

text \<open>
  Context predicates, from the second half of \<open>src/src/keymap/context.rs\<close>:
  \<open>KeyBindingContextPredicate\<close> with its evaluation over a stack of contexts, \<open>depth_of\<close> and
  \<open>is_superset\<close>.  Its parser and printer are in \<open>Predicate_Parser\<close>.
\<close>

section \<open>Data\<close>

datatype context_predicate =
    Identifier string
  | Equal string string
  | NotEqual string string
  | Descendant context_predicate context_predicate
  | Not_pred context_predicate
  | And_pred context_predicate context_predicate
  | Or_pred context_predicate context_predicate

section \<open>Evaluation\<close>

primrec eval_inner :: "context_predicate \<Rightarrow> key_context list \<Rightarrow> key_context list \<Rightarrow> bool" where
  "eval_inner (Identifier name) contexts all_contexts =
     (if contexts = [] then False else kc_contains (last contexts) name)"
| "eval_inner (Equal left right) contexts all_contexts =
     (if contexts = [] then False else
        case kc_get (last contexts) left of Some v \<Rightarrow> v = right | None \<Rightarrow> False)"
| "eval_inner (NotEqual left right) contexts all_contexts =
     (if contexts = [] then False else
        case kc_get (last contexts) left of Some v \<Rightarrow> v \<noteq> right | None \<Rightarrow> True)"
| "eval_inner (Descendant parent child) contexts all_contexts =
     (if contexts = [] then False else
        case find (\<lambda>i. eval_inner parent (take (Suc i) contexts) all_contexts)
               [0..<length contexts - 1] of
          Some i \<Rightarrow> eval_inner child (drop (Suc i) contexts) (drop (Suc i) contexts)
        | None \<Rightarrow> False)"
| "eval_inner (Not_pred pred) contexts all_contexts =
     (if contexts = [] then False else
        \<not> list_ex (\<lambda>i. eval_inner pred (take (Suc i) all_contexts) all_contexts)
            [0..<length all_contexts])"
| "eval_inner (And_pred left right) contexts all_contexts =
     (if contexts = [] then False else
        eval_inner left contexts all_contexts \<and> eval_inner right contexts all_contexts)"
| "eval_inner (Or_pred left right) contexts all_contexts =
     (if contexts = [] then False else
        eval_inner left contexts all_contexts \<or> eval_inner right contexts all_contexts)"

definition eval_pred :: "context_predicate \<Rightarrow> key_context list \<Rightarrow> bool" where
  "eval_pred p contexts = eval_inner p contexts contexts"

definition depth_of :: "context_predicate \<Rightarrow> key_context list \<Rightarrow> nat option" where
  "depth_of p contexts =
     find (\<lambda>depth. eval_inner p (take depth contexts) contexts) (rev [0..<Suc (length contexts)])"

fun is_superset :: "context_predicate \<Rightarrow> context_predicate \<Rightarrow> bool" where
  "is_superset self other =
     (if self = other then True
      else case self of
        Or_pred left right \<Rightarrow> is_superset left other \<or> is_superset right other
      | _ \<Rightarrow>
        (case other of
           Descendant _ child \<Rightarrow> is_superset self child
         | And_pred left right \<Rightarrow> is_superset self left \<or> is_superset self right
         | Identifier _ \<Rightarrow> False
         | Equal _ _ \<Rightarrow> False
         | NotEqual _ _ \<Rightarrow> False
         | Not_pred _ \<Rightarrow> False
         | Or_pred _ _ \<Rightarrow> False))"

declare is_superset.simps [simp del]

lemma eval_inner_Nil [simp]: "\<not> eval_inner p [] all_contexts"
  by (cases p) simp_all

section \<open>Depth\<close>

text \<open>
  C3. \<open>depth_of\<close> returns \<open>Some d\<close> exactly when \<open>d\<close> is the largest length of a prefix of
  the context stack on which the predicate holds; such a prefix is never empty.
\<close>

theorem depth_of_greatest:
  "depth_of p contexts = Some d \<longleftrightarrow>
     0 < d \<and> d \<le> length contexts \<and> eval_inner p (take d contexts) contexts \<and>
     \<not> (\<exists>k > d. k \<le> length contexts \<and> eval_inner p (take k contexts) contexts)"
proof -
  have "depth_of p contexts = Some d \<longleftrightarrow>
      d < Suc (length contexts) \<and> eval_inner p (take d contexts) contexts \<and>
      (\<forall>k. d < k \<and> k < Suc (length contexts) \<longrightarrow> \<not> eval_inner p (take k contexts) contexts)"
    unfolding depth_of_def by (rule find_rev_upt_Some)
  then show ?thesis by (cases "d = 0") (auto simp: less_Suc_eq_le)
qed

lemma depth_of_None_iff:
  "depth_of p contexts = None \<longleftrightarrow>
     (\<forall>k \<le> length contexts. \<not> eval_inner p (take k contexts) contexts)"
  by (simp add: depth_of_def find_rev_upt_None less_Suc_eq_le del: upt_Suc)

lemma depth_of_le: "depth_of p contexts = Some d \<Longrightarrow> d \<le> length contexts"
  unfolding depth_of_def find_rev_upt_Some by simp

section \<open>Supersets\<close>

text \<open>Predicates without negation only look at what lies below the contexts they match.\<close>

primrec negation_free :: "context_predicate \<Rightarrow> bool" where
  "negation_free (Identifier _) = True"
| "negation_free (Equal _ _) = True"
| "negation_free (NotEqual _ _) = True"
| "negation_free (Descendant p q) = (negation_free p \<and> negation_free q)"
| "negation_free (Not_pred _) = False"
| "negation_free (And_pred p q) = (negation_free p \<and> negation_free q)"
| "negation_free (Or_pred p q) = (negation_free p \<and> negation_free q)"

lemma eval_all_contexts_irrelevant:
  "negation_free p \<Longrightarrow> eval_inner p contexts a = eval_inner p contexts b"
proof (induction p arbitrary: contexts a b)
  case (Descendant p q)
  then have "(\<lambda>i. eval_inner p (take (Suc i) contexts) a) = (\<lambda>i. eval_inner p (take (Suc i) contexts) b)"
    by auto
  then show ?case by simp
next
  case (And_pred p q)
  then show ?case by (metis eval_inner.simps(6) negation_free.simps(6))
next
  case (Or_pred p q)
  then show ?case by (metis eval_inner.simps(7) negation_free.simps(7))
qed auto

lemma find_upt_Some:
  "find P [0..<n] = Some i \<longleftrightarrow> i < n \<and> P i \<and> (\<forall>k < i. \<not> P k)"
  by (auto simp: find_Some_iff)

lemma eval_Descendant_iff:
  "eval_inner (Descendant p q) contexts a \<longleftrightarrow>
     (\<exists>i. i < length contexts - 1 \<and> eval_inner p (take (Suc i) contexts) a \<and>
        (\<forall>k < i. \<not> eval_inner p (take (Suc k) contexts) a) \<and>
        eval_inner q (drop (Suc i) contexts) (drop (Suc i) contexts))"
proof (cases "find (\<lambda>i. eval_inner p (take (Suc i) contexts) a) [0..<length contexts - 1]")
  case None
  then have "\<not> eval_inner p (take (Suc i) contexts) a" if "i < length contexts - 1" for i
    using that by (auto simp: find_None_iff)
  with None show ?thesis by auto
next
  case (Some i)
  then have i: "i < length contexts - 1" "eval_inner p (take (Suc i) contexts) a"
    "\<forall>k < i. \<not> eval_inner p (take (Suc k) contexts) a"
    unfolding find_upt_Some by auto
  have "k = i" if "eval_inner p (take (Suc k) contexts) a"
    "\<forall>l < k. \<not> eval_inner p (take (Suc l) contexts) a" for k
    using that i by (metis linorder_neqE_nat)
  then have "(\<exists>k. k < length contexts - 1 \<and> eval_inner p (take (Suc k) contexts) a \<and>
        (\<forall>l < k. \<not> eval_inner p (take (Suc l) contexts) a) \<and>
        eval_inner q (drop (Suc k) contexts) (drop (Suc k) contexts)) \<longleftrightarrow>
      eval_inner q (drop (Suc i) contexts) (drop (Suc i) contexts)"
    using i by metis
  moreover have "contexts \<noteq> []" using i(1) by auto
  ultimately show ?thesis using Some by simp
qed

lemma drop_append_suffix:
  "j \<le> length xs + i \<Longrightarrow> \<exists>ws. drop (Suc j) (xs @ ys) = ws @ drop (Suc i) ys"
proof -
  assume "j \<le> length xs + i"
  then have "drop (length xs + i - j) (drop (Suc j) (xs @ ys)) = drop (Suc (length xs + i)) (xs @ ys)"
    unfolding drop_drop by simp
  also have "\<dots> = drop (Suc i) ys" by simp
  finally have "drop (length xs + i - j) (drop (Suc j) (xs @ ys)) = drop (Suc i) ys" .
  then show ?thesis by (metis append_take_drop_id)
qed

text \<open>A negation-free predicate that holds on a stack holds on every longer one below it.\<close>

lemma eval_mono:
  "negation_free p \<Longrightarrow> eval_inner p contexts a \<Longrightarrow> eval_inner p (outer @ contexts) b"
proof (induction p arbitrary: contexts outer a b)
  case (Descendant p q contexts outer a b)
  let ?n = "length outer"
  from Descendant.prems(2) obtain i where i: "i < length contexts - 1"
    "eval_inner p (take (Suc i) contexts) a"
    "eval_inner q (drop (Suc i) contexts) (drop (Suc i) contexts)"
    unfolding eval_Descendant_iff by blast
  define P where "P = (\<lambda>k. eval_inner p (take (Suc k) (outer @ contexts)) b)"
  have "P (?n + i)"
    using Descendant.IH(1) [of "take (Suc i) contexts" a outer b] Descendant.prems(1) i(2)
    by (simp add: P_def)
  then obtain j where j: "P j" "j \<le> ?n + i" "\<forall>k < j. \<not> P k"
    by (metis LeastI Least_le not_less_Least)
  obtain ws where ws: "drop (Suc j) (outer @ contexts) = ws @ drop (Suc i) contexts"
    using drop_append_suffix [OF j(2)] by blast
  have "eval_inner q (drop (Suc j) (outer @ contexts)) (drop (Suc j) (outer @ contexts))"
    unfolding ws using Descendant.IH(2) Descendant.prems(1) i(3) by simp
  moreover have "j < length (outer @ contexts) - 1" using j(2) i(1) by simp
  ultimately show ?case
    unfolding eval_Descendant_iff using j unfolding P_def by (intro exI [of _ j] conjI)
next
  case (And_pred p q)
  then show ?case by (auto split: if_splits)
next
  case (Or_pred p q)
  then show ?case by (fastforce split: if_splits)
qed (auto split: if_splits)

lemma is_superset_cases:
  assumes "is_superset self other" and "self \<noteq> other"
  obtains (Or) l r where "self = Or_pred l r" "is_superset l other \<or> is_superset r other"
  | (Desc) p c where "other = Descendant p c" "is_superset self c"
  | (And) l r where "other = And_pred l r" "is_superset self l \<or> is_superset self r"
  using assms by (subst (asm) is_superset.simps) (cases self; cases other; auto)

lemma is_superset_sound:
  "is_superset self other \<Longrightarrow> negation_free self \<Longrightarrow>
   eval_inner other contexts a \<Longrightarrow> eval_inner self contexts a"
proof (induction "size self + size other" arbitrary: self other contexts a rule: less_induct)
  case less
  have ne: "contexts \<noteq> []" using less.prems(3) by auto
  show ?case
  proof (cases "self = other")
    case True
    with less.prems show ?thesis by simp
  next
    case False
    from less.prems(1) False show ?thesis
    proof (cases rule: is_superset_cases)
      case (Or l r)
      with less.hyps [of l other contexts a] less.hyps [of r other contexts a] less.prems(2,3)
      have "eval_inner l contexts a \<or> eval_inner r contexts a" by auto
      with Or ne show ?thesis by simp
    next
      case (Desc p c)
      from less.prems(3) obtain i where
        i: "eval_inner c (drop (Suc i) contexts) (drop (Suc i) contexts)"
        unfolding Desc(1) eval_Descendant_iff by blast
      have "size self + size c < size self + size other" using Desc(1) by simp
      then have "eval_inner self (drop (Suc i) contexts) (drop (Suc i) contexts)"
        using Desc(2) less.prems(2) i by (rule less.hyps)
      then have "eval_inner self (take (Suc i) contexts @ drop (Suc i) contexts) a"
        using eval_mono less.prems(2) by blast
      then show ?thesis by simp
    next
      case (And l r)
      then have "size self + size l < size self + size other"
        "size self + size r < size self + size other" by simp_all
      moreover have "eval_inner l contexts a" "eval_inner r contexts a"
        using less.prems(3) And(1) by (auto split: if_splits)
      ultimately show ?thesis using less.hyps less.prems(2) And(2) by blast
    qed
  qed
qed

text \<open>
  C37. If \<open>is_superset\<close> accepts and the left predicate contains no negation, every stack of
  contexts on which the right predicate holds is one on which the left predicate holds.
\<close>

theorem is_superset_eval:
  assumes "is_superset self other" and "negation_free self" and "eval_pred other contexts"
  shows "eval_pred self contexts"
  using is_superset_sound assms unfolding eval_pred_def by blast

theorem is_superset_eval_witness:
  "eval_pred (Identifier ''editor'') [[\<lparr>ce_key = ''pane'', ce_value = None\<rparr>], [\<lparr>ce_key = ''editor'', ce_value = None\<rparr>]]"
  by (rule is_superset_eval [where other = "Descendant (Identifier ''pane'') (Identifier ''editor'')"])
    (simp_all add: is_superset.simps eval_pred_def)

text \<open>
  C40. Without that restriction the documented meaning of \<open>is_superset\<close> fails: it accepts
  \<open>!Workspace\<close> as a superset of \<open>Pane > !Workspace\<close>, but below \<open>Workspace > Pane\<close> the
  latter holds and the former does not.
\<close>

theorem is_superset_unsound_with_negation:
  "\<exists>self other contexts.
     is_superset self other \<and> eval_pred other contexts \<and> \<not> eval_pred self contexts"
proof -
  let ?ctx = "\<lambda>n. [\<lparr>ce_key = n, ce_value = None\<rparr>]"
  let ?self = "Not_pred (Identifier ''Workspace'')"
  let ?other = "Descendant (Identifier ''Pane'') ?self"
  let ?stack = "[?ctx ''Workspace'', ?ctx ''Pane'', ?ctx ''Editor'']"
  have "is_superset ?self ?other" by (simp add: is_superset.simps)
  moreover have "eval_pred ?other ?stack"
    by (simp add: eval_pred_def upt_rec)
  moreover have "\<not> eval_pred ?self ?stack"
    by (simp add: eval_pred_def upt_rec)
  ultimately show ?thesis by blast
qed

end
