(* ===== verification/Predicate_Parser.thy ===== *)
theory Predicate_Parser
  imports Context_Predicate
begin

text \<open>
  The parser and printer of context predicates, from \<open>src/src/keymap/context.rs\<close>:
  \<open>KeyBindingContextPredicate::parse\<close>, \<open>parse_expr\<close>, \<open>parse_primary\<close>, the checked
  constructors and \<open>Display\<close>.  \<open>parse_expr_fuel\<close>, \<open>parse_ops_fuel\<close> (the labelled loop of
  \<open>parse_expr\<close>) and \<open>parse_primary_fuel\<close> count calls; \<open>None\<close> means that the fuel ran out, which
  the entry points below exclude by starting with enough of it.
\<close>

section \<open>Printing\<close>

primrec pred_display :: "context_predicate \<Rightarrow> string" where
  "pred_display (Identifier name) = name"
| "pred_display (Equal left right) = left @ '' == '' @ right"
| "pred_display (NotEqual left right) = left @ '' != '' @ right"
| "pred_display (Not_pred pred) = ''!'' @ pred_display pred"
| "pred_display (Descendant parent child) = pred_display parent @ '' > '' @ pred_display child"
| "pred_display (And_pred left right) =
     ''('' @ pred_display left @ '' && '' @ pred_display right @ '')''"
| "pred_display (Or_pred left right) =
     ''('' @ pred_display left @ '' || '' @ pred_display right @ '')''"

section \<open>Errors, operators and checked constructors\<close>

datatype parse_error =
    UnexpectedCharacter char
  | UnexpectedEnd
  | ExpectedCloseParen
  | EqOperands
  | NeqOperands

type_synonym pred_result = "(parse_error, context_predicate) result"

definition PRECEDENCE_CHILD :: nat where "PRECEDENCE_CHILD = 1"
definition PRECEDENCE_OR :: nat where "PRECEDENCE_OR = 2"
definition PRECEDENCE_AND :: nat where "PRECEDENCE_AND = 3"
definition PRECEDENCE_EQ :: nat where "PRECEDENCE_EQ = 4"
definition PRECEDENCE_NOT :: nat where "PRECEDENCE_NOT = 5"

lemmas precedence_defs =
  PRECEDENCE_CHILD_def PRECEDENCE_OR_def PRECEDENCE_AND_def PRECEDENCE_EQ_def PRECEDENCE_NOT_def

definition new_or :: "context_predicate \<Rightarrow> context_predicate \<Rightarrow> pred_result" where
  "new_or self other = Inr (Or_pred self other)"

definition new_and :: "context_predicate \<Rightarrow> context_predicate \<Rightarrow> pred_result" where
  "new_and self other = Inr (And_pred self other)"

definition new_child :: "context_predicate \<Rightarrow> context_predicate \<Rightarrow> pred_result" where
  "new_child self other = Inr (Descendant self other)"

fun new_eq :: "context_predicate \<Rightarrow> context_predicate \<Rightarrow> pred_result" where
  "new_eq (Identifier left) (Identifier right) = Inr (Equal left right)"
| "new_eq _ _ = Inl EqOperands"

fun new_neq :: "context_predicate \<Rightarrow> context_predicate \<Rightarrow> pred_result" where
  "new_neq (Identifier left) (Identifier right) = Inr (NotEqual left right)"
| "new_neq _ _ = Inl NeqOperands"

definition operators ::
    "(string \<times> nat \<times> (context_predicate \<Rightarrow> context_predicate \<Rightarrow> pred_result)) list" where
  "operators =
     [(''>'', PRECEDENCE_CHILD, new_child),
      (''&&'', PRECEDENCE_AND, new_and),
      (''||'', PRECEDENCE_OR, new_or),
      (''=='', PRECEDENCE_EQ, new_eq),
      (''!='', PRECEDENCE_EQ, new_neq)]"

definition is_word_char :: "char \<Rightarrow> bool" where
  "is_word_char c \<longleftrightarrow> is_identifier_char c \<or> is_vim_operator_char c"

section \<open>The parser\<close>

type_synonym parse_result = "(parse_error, context_predicate \<times> string) result option"

fun parse_expr_fuel :: "nat \<Rightarrow> string \<Rightarrow> nat \<Rightarrow> parse_result"
  and parse_ops_fuel :: "nat \<Rightarrow> context_predicate \<Rightarrow> string \<Rightarrow> nat \<Rightarrow> parse_result"
  and parse_primary_fuel :: "nat \<Rightarrow> string \<Rightarrow> parse_result"
where
  "parse_expr_fuel 0 source min_precedence = None"
| "parse_expr_fuel (Suc n) source min_precedence =
     (case parse_primary_fuel n source of
        None \<Rightarrow> None
      | Some (Inl e) \<Rightarrow> Some (Inl e)
      | Some (Inr (predicate, rest)) \<Rightarrow> parse_ops_fuel n predicate rest min_precedence)"
| "parse_ops_fuel 0 predicate source min_precedence = None"
| "parse_ops_fuel (Suc n) predicate source min_precedence =
     (case find (\<lambda>(operator, precedence, _).
               starts_with source operator \<and> min_precedence \<le> precedence) operators of
        None \<Rightarrow> Some (Inr (predicate, source))
      | Some (operator, precedence, new_pred) \<Rightarrow>
          (case parse_expr_fuel n (skip_whitespace (drop (length operator) source)) (precedence + 1) of
             None \<Rightarrow> None
           | Some (Inl e) \<Rightarrow> Some (Inl e)
           | Some (Inr (right, rest)) \<Rightarrow>
               (case new_pred predicate right of
                  Inl e \<Rightarrow> Some (Inl e)
                | Inr predicate' \<Rightarrow> parse_ops_fuel n predicate' rest min_precedence)))"
| "parse_primary_fuel 0 source = None"
| "parse_primary_fuel (Suc n) source =
     (case source of
        [] \<Rightarrow> Some (Inl UnexpectedEnd)
      | next # rest \<Rightarrow>
          if next = CHR ''('' then
            (case parse_expr_fuel n (skip_whitespace rest) 0 of
               None \<Rightarrow> None
             | Some (Inl e) \<Rightarrow> Some (Inl e)
             | Some (Inr (predicate, rest)) \<Rightarrow>
                 (case strip_prefix rest '')'' of
                    None \<Rightarrow> Some (Inl ExpectedCloseParen)
                  | Some stripped \<Rightarrow> Some (Inr (predicate, skip_whitespace stripped))))
          else if next = CHR ''!'' then
            (case parse_expr_fuel n (skip_whitespace rest) PRECEDENCE_NOT of
               None \<Rightarrow> None
             | Some (Inl e) \<Rightarrow> Some (Inl e)
             | Some (Inr (predicate, source)) \<Rightarrow> Some (Inr (Not_pred predicate, source)))
          else if is_identifier_char next then
            Some (Inr (Identifier (takeWhile is_word_char source),
                       skip_whitespace (dropWhile is_word_char source)))
          else if is_vim_operator_char next then
            Some (Inr (Identifier [next], skip_whitespace rest))
          else Some (Inl (UnexpectedCharacter next)))"

declare parse_expr_fuel.simps(2) [simp del] parse_ops_fuel.simps(2) [simp del]
  parse_primary_fuel.simps(2) [simp del]

definition parse_expr :: "string \<Rightarrow> nat \<Rightarrow> parse_result" where
  "parse_expr source min_precedence = parse_expr_fuel (2 * length source + 2) source min_precedence"

definition pred_parse :: "string \<Rightarrow> pred_result option" where
  "pred_parse source =
     (case parse_expr (skip_whitespace source) 0 of
        None \<Rightarrow> None
      | Some (Inl e) \<Rightarrow> Some (Inl e)
      | Some (Inr (predicate, rest)) \<Rightarrow>
          (case rest of
             next # _ \<Rightarrow> Some (Inl (UnexpectedCharacter next))
           | [] \<Rightarrow> Some (Inr predicate)))"

section \<open>Every call consumes input, so the fuel suffices\<close>

lemma operators_found:
  assumes "find (\<lambda>(operator, precedence, _). starts_with source operator \<and> m \<le> precedence) operators
           = Some (operator, precedence, f)"
  shows "0 < length operator" "length operator \<le> length source"
proof -
  from assms have "(operator, precedence, f) \<in> set operators" "starts_with source operator"
    by (auto simp: find_Some_iff) (metis nth_mem)
  then show "0 < length operator" "length operator \<le> length source"
    by (auto simp: operators_def starts_with_def dest: arg_cong [where f = length])
qed

lemma operator_rest_shorter:
  assumes "find (\<lambda>(operator, precedence, _). starts_with source operator \<and> m \<le> precedence) operators
           = Some (operator, precedence, f)"
  shows "length (skip_whitespace (drop (length operator) source)) < length source"
  using operators_found [OF assms] skip_whitespace_length [of "drop (length operator) source"]
  by (simp only: length_drop)

lemma parse_shortens:
  "(\<forall>s m p r. parse_expr_fuel n s m = Some (Inr (p, r)) \<longrightarrow> length r < length s) \<and>
   (\<forall>q s m p r. parse_ops_fuel n q s m = Some (Inr (p, r)) \<longrightarrow> length r \<le> length s) \<and>
   (\<forall>s p r. parse_primary_fuel n s = Some (Inr (p, r)) \<longrightarrow> length r < length s)"
proof (induction n)
  case 0
  then show ?case by simp
next
  case (Suc n)
  have IHe: "length r < length s" if "parse_expr_fuel n s m = Some (Inr (p, r))" for s m p r
    using Suc that by blast
  have IHo: "length r \<le> length s" if "parse_ops_fuel n q s m = Some (Inr (p, r))" for q s m p r
    using Suc that by blast
  have IHp: "length r < length s" if "parse_primary_fuel n s = Some (Inr (p, r))" for s p r
    using Suc that by blast
  have "length r < length s" if "parse_expr_fuel (Suc n) s m = Some (Inr (p, r))" for s m p r
    using that
    by (auto simp: parse_expr_fuel.simps split: option.splits sum.splits dest!: IHp IHo)
  moreover have "length r \<le> length s" if "parse_ops_fuel (Suc n) q s m = Some (Inr (p, r))" for q s m p r
  proof (cases "find (\<lambda>(operator, precedence, _). starts_with s operator \<and> m \<le> precedence) operators")
    case None
    with that show ?thesis by (simp add: parse_ops_fuel.simps)
  next
    case (Some x)
    obtain operator precedence f where x: "x = (operator, precedence, f)" by (cases x)
    let ?s = "skip_whitespace (drop (length operator) s)"
    from that Some x obtain right rest q' where
      "parse_expr_fuel n ?s (precedence + 1) = Some (Inr (right, rest))"
      "parse_ops_fuel n q' rest m = Some (Inr (p, r))"
      by (auto simp: parse_ops_fuel.simps split: option.splits sum.splits)
    then have "length rest < length ?s" "length r \<le> length rest" by (auto dest: IHe IHo)
    with skip_whitespace_length [of "drop (length operator) s"] show ?thesis by simp
  qed
  moreover have "length r < length s" if "parse_primary_fuel (Suc n) s = Some (Inr (p, r))" for s p r
  proof (cases s)
    case Nil
    with that show ?thesis by (simp add: parse_primary_fuel.simps)
  next
    case (Cons c cs)
    have "length (skip_whitespace (dropWhile is_word_char s)) < length s" if "is_identifier_char c"
      using that Cons skip_whitespace_length [of "dropWhile is_word_char cs"]
        length_dropWhile_le [of is_word_char cs]
      by (simp add: is_word_char_def)
    moreover have "length r' < length s" if "parse_expr_fuel n (skip_whitespace cs) m = Some (Inr (p', r'))" for m p' r'
      using IHe [OF that] skip_whitespace_length [of cs] Cons by simp
    moreover have "length (skip_whitespace t) \<le> length r'" if "strip_prefix r' '')'' = Some t" for t r'
      using that skip_whitespace_length [of t] by (auto simp: strip_prefix_def split: if_splits)
    ultimately show ?thesis
      using that Cons skip_whitespace_length [of cs]
      by (auto simp: parse_primary_fuel.simps le_imp_less_Suc
          split: option.splits sum.splits if_splits) (fastforce intro: le_less_trans)+
  qed
  ultimately show ?case by blast
qed


lemma parse_fuel_enough:
  "(\<forall>s m. 2 * length s + 2 \<le> n \<longrightarrow> parse_expr_fuel n s m \<noteq> None) \<and>
   (\<forall>q s m. 2 * length s + 1 \<le> n \<longrightarrow> parse_ops_fuel n q s m \<noteq> None) \<and>
   (\<forall>s. 2 * length s + 1 \<le> n \<longrightarrow> parse_primary_fuel n s \<noteq> None)"
proof (induction n)
  case 0
  then show ?case by simp
next
  case (Suc n)
  have IHe: "\<exists>y. parse_expr_fuel n s m = Some y" if "2 * length s + 2 \<le> n" for s m
    using Suc that by blast
  have IHo: "\<exists>y. parse_ops_fuel n q s m = Some y" if "2 * length s + 1 \<le> n" for q s m
    using Suc that by blast
  have IHp: "\<exists>y. parse_primary_fuel n s = Some y" if "2 * length s + 1 \<le> n" for s
    using Suc that by blast
  have se: "length r < length s" if "parse_expr_fuel n s m = Some (Inr (p, r))" for s m p r
    using parse_shortens [of n] that by blast
  have sp: "length r < length s" if "parse_primary_fuel n s = Some (Inr (p, r))" for s p r
    using parse_shortens [of n] that by blast
  have "\<exists>y. parse_expr_fuel (Suc n) s m = Some y" if n: "2 * length s + 2 \<le> Suc n" for s m
  proof -
    obtain y where y: "parse_primary_fuel n s = Some y" using IHp [of s] n by auto
    have "\<exists>z. parse_ops_fuel n p r m = Some z" if "y = Inr (p, r)" for p r
      using sp [of s p r] y that n by (intro IHo) simp
    with y show ?thesis by (auto simp: parse_expr_fuel.simps split: sum.split)
  qed
  moreover have "\<exists>y. parse_ops_fuel (Suc n) q s m = Some y" if n: "2 * length s + 1 \<le> Suc n" for q s m
  proof (cases "find (\<lambda>(operator, precedence, _). starts_with s operator \<and> m \<le> precedence) operators")
    case None
    then show ?thesis by (simp add: parse_ops_fuel.simps)
  next
    case (Some x)
    obtain operator precedence f where x: "x = (operator, precedence, f)" by (cases x)
    let ?s = "skip_whitespace (drop (length operator) s)"
    have len: "length ?s < length s"
      using Some [unfolded x] by (rule operator_rest_shorter)
    then obtain y where y: "parse_expr_fuel n ?s (precedence + 1) = Some y"
      using IHe [of ?s "precedence + 1"] n by auto
    have "\<exists>z. parse_ops_fuel n p r m = Some z" if "y = Inr (p', r)" for p p' r
      using se [of ?s "precedence + 1" p' r] y that n len by (intro IHo) simp
    with Some x y show ?thesis by (auto simp: parse_ops_fuel.simps split: sum.split)
  qed
  moreover have "\<exists>y. parse_primary_fuel (Suc n) s = Some y" if n: "2 * length s + 1 \<le> Suc n" for s
  proof (cases s)
    case Nil
    then show ?thesis by (simp add: parse_primary_fuel.simps)
  next
    case (Cons c cs)
    have "\<exists>y. parse_expr_fuel n (skip_whitespace cs) m = Some y" for m
      using skip_whitespace_length [of cs] n Cons by (intro IHe) simp
    then obtain y0 y5 where "parse_expr_fuel n (skip_whitespace cs) 0 = Some y0"
      "parse_expr_fuel n (skip_whitespace cs) PRECEDENCE_NOT = Some y5"
      by metis
    with Cons show ?thesis
      by (auto simp: parse_primary_fuel.simps split: sum.split option.split)
  qed
  ultimately show ?case by auto
qed

lemma parse_fuel_mono:
  "(\<forall>s m y. parse_expr_fuel n s m = Some y \<longrightarrow> parse_expr_fuel (Suc n) s m = Some y) \<and>
   (\<forall>q s m y. parse_ops_fuel n q s m = Some y \<longrightarrow> parse_ops_fuel (Suc n) q s m = Some y) \<and>
   (\<forall>s y. parse_primary_fuel n s = Some y \<longrightarrow> parse_primary_fuel (Suc n) s = Some y)"
proof (induction n)
  case 0
  then show ?case by simp
next
  case (Suc n)
  have IHe: "parse_expr_fuel (Suc n) s m = Some y" if "parse_expr_fuel n s m = Some y" for s m y
    using Suc that by blast
  have IHo: "parse_ops_fuel (Suc n) q s m = Some y" if "parse_ops_fuel n q s m = Some y" for q s m y
    using Suc that by blast
  have IHp: "parse_primary_fuel (Suc n) s = Some y" if "parse_primary_fuel n s = Some y" for s y
    using Suc that by blast
  have "parse_expr_fuel (Suc (Suc n)) s m = Some y" if y: "parse_expr_fuel (Suc n) s m = Some y" for s m y
  proof (cases "parse_primary_fuel n s")
    case (Some z)
    with y IHp [OF Some] show ?thesis
      by (auto simp: parse_expr_fuel.simps IHo split: sum.splits)
  qed (use y in \<open>simp add: parse_expr_fuel.simps\<close>)
  moreover have "parse_ops_fuel (Suc (Suc n)) q s m = Some y"
    if y: "parse_ops_fuel (Suc n) q s m = Some y" for q s m y
  proof (cases "find (\<lambda>(operator, precedence, _). starts_with s operator \<and> m \<le> precedence) operators")
    case None
    with y show ?thesis by (simp add: parse_ops_fuel.simps)
  next
    case (Some x)
    obtain operator precedence f where x: "x = (operator, precedence, f)" by (cases x)
    with y Some obtain z where
      z: "parse_expr_fuel n (skip_whitespace (drop (length operator) s)) (precedence + 1) = Some z"
      by (auto simp: parse_ops_fuel.simps(2) [of n] split: option.splits)
    with y Some x IHe [OF z] show ?thesis
      by (auto simp: parse_ops_fuel.simps(2) [of n q s m] parse_ops_fuel.simps(2) [of "Suc n" q s m]
          IHo split: sum.splits)
  qed
  moreover have "parse_primary_fuel (Suc (Suc n)) s = Some y"
    if y: "parse_primary_fuel (Suc n) s = Some y" for s y
  proof (cases s)
    case Nil
    with y show ?thesis by (simp add: parse_primary_fuel.simps)
  next
    case (Cons c cs)
    have "parse_expr_fuel (Suc n) (skip_whitespace cs) m = parse_expr_fuel n (skip_whitespace cs) m"
      if "parse_expr_fuel n (skip_whitespace cs) m \<noteq> None" for m
      using that IHe by auto
    with y Cons show ?thesis
      by (auto simp: parse_primary_fuel.simps split: option.splits if_splits)
  qed
  ultimately show ?case by blast
qed

lemma parse_fuel_Suc:
  "parse_expr_fuel n s m = Some y \<Longrightarrow> parse_expr_fuel (Suc n) s m = Some y"
  "parse_ops_fuel n q s m = Some y \<Longrightarrow> parse_ops_fuel (Suc n) q s m = Some y"
  "parse_primary_fuel n s = Some y \<Longrightarrow> parse_primary_fuel (Suc n) s = Some y"
  using parse_fuel_mono by blast+

lemma parse_fuel_add:
  "parse_expr_fuel n s m = Some y \<Longrightarrow> n \<le> k \<Longrightarrow> parse_expr_fuel k s m = Some y"
  "parse_ops_fuel n q s m = Some y \<Longrightarrow> n \<le> k \<Longrightarrow> parse_ops_fuel k q s m = Some y"
  "parse_primary_fuel n s = Some y \<Longrightarrow> n \<le> k \<Longrightarrow> parse_primary_fuel k s = Some y"
  by (induction k; auto simp: le_Suc_eq intro: parse_fuel_Suc)+

section \<open>The parser without fuel\<close>

text \<open>With enough fuel the result no longer depends on it, so the code's own equations hold.\<close>

definition parse_ops :: "context_predicate \<Rightarrow> string \<Rightarrow> nat \<Rightarrow> parse_result" where
  "parse_ops q s m = parse_ops_fuel (2 * length s + 1) q s m"

definition parse_primary :: "string \<Rightarrow> parse_result" where
  "parse_primary s = parse_primary_fuel (2 * length s + 1) s"

lemma parse_expr_fuel_eq: "2 * length s + 2 \<le> n \<Longrightarrow> parse_expr_fuel n s m = parse_expr s m"
  unfolding parse_expr_def
  by (metis option.exhaust order_refl parse_fuel_add(1) parse_fuel_enough)

lemma parse_ops_fuel_eq: "2 * length s + 1 \<le> n \<Longrightarrow> parse_ops_fuel n q s m = parse_ops q s m"
  unfolding parse_ops_def
  by (metis option.exhaust order_refl parse_fuel_add(2) parse_fuel_enough)

lemma parse_primary_fuel_eq: "2 * length s + 1 \<le> n \<Longrightarrow> parse_primary_fuel n s = parse_primary s"
  unfolding parse_primary_def
  by (metis option.exhaust order_refl parse_fuel_add(3) parse_fuel_enough)

lemma parse_primary_shortens: "parse_primary s = Some (Inr (p, r)) \<Longrightarrow> length r < length s"
  unfolding parse_primary_def using parse_shortens by blast

lemma parse_expr_shortens: "parse_expr s m = Some (Inr (p, r)) \<Longrightarrow> length r < length s"
  unfolding parse_expr_def using parse_shortens by blast

lemma parse_expr_eq:
  "parse_primary s = Some (Inr (p, r)) \<Longrightarrow> parse_expr s m = parse_ops p r m"
  using parse_primary_shortens [of s p r] parse_primary_fuel_eq [of s "2 * length s + 1"]
    parse_ops_fuel_eq [of r "2 * length s + 1" p m]
  by (simp add: parse_expr_def parse_expr_fuel.simps)

lemma parse_ops_stop:
  "find (\<lambda>(operator, precedence, _). starts_with s operator \<and> m \<le> precedence) operators = None \<Longrightarrow>
   parse_ops q s m = Some (Inr (q, s))"
  by (simp add: parse_ops_def parse_ops_fuel.simps)

lemma parse_ops_step:
  assumes "find (\<lambda>(operator, precedence, _). starts_with s operator \<and> m \<le> precedence) operators
             = Some (operator, precedence, f)"
    and "parse_expr (skip_whitespace (drop (length operator) s)) (precedence + 1) = Some (Inr (right, rest))"
    and "f q right = Inr q'"
  shows "parse_ops q s m = parse_ops q' rest m"
proof -
  let ?s = "skip_whitespace (drop (length operator) s)"
  have len: "length ?s < length s"
    using assms(1) by (rule operator_rest_shorter)
  have "length rest < length ?s" using assms(2) by (rule parse_expr_shortens)
  with len assms parse_expr_fuel_eq [of ?s "2 * length s" "precedence + 1"]
    parse_ops_fuel_eq [of rest "2 * length s" q' m]
  show ?thesis by (simp add: parse_ops_def parse_ops_fuel.simps)
qed

lemma parse_primary_paren:
  assumes "parse_expr (skip_whitespace s) 0 = Some (Inr (p, CHR '')'' # rest))"
  shows "parse_primary (CHR ''('' # s) = Some (Inr (p, skip_whitespace rest))"
  using assms parse_expr_fuel_eq [of "skip_whitespace s" "2 * length s + 2" 0] skip_whitespace_length [of s]
  by (simp add: parse_primary_def parse_primary_fuel.simps strip_prefix_def starts_with_def)

lemma parse_primary_not:
  assumes "parse_expr (skip_whitespace s) PRECEDENCE_NOT = Some (Inr (p, rest))"
  shows "parse_primary (CHR ''!'' # s) = Some (Inr (Not_pred p, rest))"
  using assms parse_expr_fuel_eq [of "skip_whitespace s" "2 * length s + 2" PRECEDENCE_NOT]
    skip_whitespace_length [of s]
  by (simp add: parse_primary_def parse_primary_fuel.simps)

text \<open>
  C36. Parsing a context predicate always returns, with a predicate or with an error: the
  recursion of \<open>parse_expr\<close> and \<open>parse_primary\<close> ends on every input.
\<close>

theorem pred_parse_returns: "\<exists>r. pred_parse source = Some r"
proof -
  have "parse_expr (skip_whitespace source) 0 \<noteq> None"
    using parse_fuel_enough by (simp add: parse_expr_def)
  then obtain y where "parse_expr (skip_whitespace source) 0 = Some y" by blast
  then show ?thesis
    by (auto simp: pred_parse_def split: sum.split list.split)
qed


section \<open>Reading back what is printed\<close>

text \<open>
  The printer puts no parentheses around \<open>Descendant\<close>, so only predicates whose \<open>Descendant\<close>
  nodes form the left spine of the whole predicate are printed unambiguously, and only
  comparisons that stand alone or under \<open>&&\<close>, \<open>||\<close> and \<open>>\<close>.
\<close>

definition valid_name :: "string \<Rightarrow> bool" where
  "valid_name n \<longleftrightarrow> (case n of [] \<Rightarrow> False
     | c # cs \<Rightarrow> (is_identifier_char c \<and> list_all is_word_char cs)
               \<or> (is_vim_operator_char c \<and> \<not> is_identifier_char c \<and> cs = []))"

fun is_comparison :: "context_predicate \<Rightarrow> bool" where
  "is_comparison (Equal a b) = (valid_name a \<and> valid_name b)"
| "is_comparison (NotEqual a b) = (valid_name a \<and> valid_name b)"
| "is_comparison _ = False"

primrec is_primary :: "context_predicate \<Rightarrow> bool" where
  "is_primary (Identifier n) = valid_name n"
| "is_primary (Equal _ _) = False"
| "is_primary (NotEqual _ _) = False"
| "is_primary (Descendant _ _) = False"
| "is_primary (Not_pred p) = is_primary p"
| "is_primary (And_pred p q) =
     ((is_primary p \<or> is_comparison p) \<and> (is_primary q \<or> is_comparison q))"
| "is_primary (Or_pred p q) =
     ((is_primary p \<or> is_comparison p) \<and> (is_primary q \<or> is_comparison q))"

fun pred_printable :: "context_predicate \<Rightarrow> bool" where
  "pred_printable (Descendant p q) = (pred_printable p \<and> (is_primary q \<or> is_comparison q))"
| "pred_printable p = (is_primary p \<or> is_comparison p)"

lemma vim_not_whitespace: "is_vim_operator_char c \<Longrightarrow> \<not> is_whitespace c"
  by (auto simp: is_vim_operator_char_def is_whitespace_def code_point_def)

lemma special_chars [simp]:
  "\<not> is_word_char CHR '' ''" "\<not> is_word_char CHR '')''"
  "\<not> is_whitespace CHR ''(''" "\<not> is_whitespace CHR '')''" "\<not> is_whitespace CHR ''!''"
  "\<not> is_whitespace CHR ''&''" "\<not> is_whitespace CHR ''|''" "\<not> is_whitespace CHR ''=''"
  "\<not> is_whitespace CHR ''>''"
  by (simp_all add: is_word_char_def is_vim_operator_char_def is_whitespace_def code_point_def)

lemma valid_name_start:
  "valid_name n \<Longrightarrow> \<exists>c cs. n = c # cs \<and> \<not> is_whitespace c"
  by (auto simp: valid_name_def identifier_not_whitespace vim_not_whitespace split: list.splits)

lemma display_start:
  "is_primary p \<or> is_comparison p \<Longrightarrow> \<exists>c cs. pred_display p = c # cs \<and> \<not> is_whitespace c"
  by (cases p) (auto dest!: valid_name_start)

lemma skip_whitespace_display [simp]:
  "is_primary p \<or> is_comparison p \<Longrightarrow>
   skip_whitespace (pred_display p @ rest) = pred_display p @ rest"
  using display_start [of p] by auto

lemma valid_name_chars:
  "valid_name n \<Longrightarrow> n = c # cs \<Longrightarrow> c \<noteq> CHR ''('' \<and> c \<noteq> CHR ''!''"
  by (auto simp: valid_name_def is_vim_operator_char_def)

lemma parse_primary_name:
  assumes n: "valid_name n" and rest: "rest = [] \<or> \<not> is_word_char (hd rest)"
  shows "parse_primary (n @ rest) = Some (Inr (Identifier n, skip_whitespace rest))"
proof -
  obtain c cs where c: "n = c # cs" using n by (auto simp: valid_name_def split: list.splits)
  note start = valid_name_chars [OF n c]
  show ?thesis
  proof (cases "is_identifier_char c")
    case True
    with n c have "\<forall>x \<in> set n. is_word_char x"
      by (auto simp: valid_name_def is_word_char_def list_all_iff)
    then have "takeWhile is_word_char (n @ rest) = n" "dropWhile is_word_char (n @ rest) = rest"
      using rest by (cases rest; simp add: takeWhile_all_append dropWhile_all_append)+
    with True start c show ?thesis by (simp add: parse_primary_def parse_primary_fuel.simps)
  next
    case False
    with n c have "is_vim_operator_char c" "cs = []" by (auto simp: valid_name_def)
    with False start c show ?thesis by (simp add: parse_primary_def parse_primary_fuel.simps)
  qed
qed

lemmas find_operator = operators_def starts_with_def precedence_defs

lemma parse_ops_above: "PRECEDENCE_EQ < m \<Longrightarrow> parse_ops q s m = Some (Inr (q, s))"
  by (rule parse_ops_stop) (simp add: find_operator)

lemma parse_ops_close: "parse_ops q (CHR '')'' # s) m = Some (Inr (q, CHR '')'' # s))"
  by (rule parse_ops_stop) (simp add: find_operator)

lemma parse_comparison:
  assumes "valid_name a" "valid_name b" "rest = [] \<or> \<not> is_word_char (hd rest)" "m \<le> PRECEDENCE_EQ"
  shows "parse_expr (a @ '' == '' @ b @ rest) m = parse_ops (Equal a b) (skip_whitespace rest) m"
    and "parse_expr (a @ '' != '' @ b @ rest) m = parse_ops (NotEqual a b) (skip_whitespace rest) m"
proof -
  have c: "skip_whitespace (b @ rest) = b @ rest" using valid_name_start [OF assms(2)] by auto
  have right: "parse_expr (b @ rest) (PRECEDENCE_EQ + 1)
      = Some (Inr (Identifier b, skip_whitespace rest))"
    using parse_expr_eq [OF parse_primary_name [OF assms(2,3)]] by (simp add: parse_ops_above)
  have "parse_expr (a @ '' == '' @ b @ rest) m = parse_ops (Identifier a) (''== '' @ b @ rest) m"
    using parse_expr_eq [OF parse_primary_name [OF assms(1), of "'' == '' @ b @ rest"]] by simp
  also have "\<dots> = parse_ops (Equal a b) (skip_whitespace rest) m"
    using right assms(4) c
    by (intro parse_ops_step [where operator = "''==''" and precedence = PRECEDENCE_EQ and f = new_eq
          and right = "Identifier b"]) (simp_all add: find_operator)
  finally show "parse_expr (a @ '' == '' @ b @ rest) m = parse_ops (Equal a b) (skip_whitespace rest) m" .
  have "parse_expr (a @ '' != '' @ b @ rest) m = parse_ops (Identifier a) (''!= '' @ b @ rest) m"
    using parse_expr_eq [OF parse_primary_name [OF assms(1), of "'' != '' @ b @ rest"]] by simp
  also have "\<dots> = parse_ops (NotEqual a b) (skip_whitespace rest) m"
    using right assms(4) c
    by (intro parse_ops_step [where operator = "''!=''" and precedence = PRECEDENCE_EQ and f = new_neq
          and right = "Identifier b"]) (simp_all add: find_operator)
  finally show "parse_expr (a @ '' != '' @ b @ rest) m = parse_ops (NotEqual a b) (skip_whitespace rest) m" .
qed

lemma parse_operand:
  assumes "is_primary p \<Longrightarrow> parse_primary (pred_display p @ rest) = Some (Inr (p, skip_whitespace rest))"
    and "is_primary p \<or> is_comparison p" "rest = [] \<or> \<not> is_word_char (hd rest)" "m \<le> PRECEDENCE_EQ"
  shows "parse_expr (pred_display p @ rest) m = parse_ops p (skip_whitespace rest) m"
proof (cases "is_primary p")
  case True
  then show ?thesis by (rule parse_expr_eq [OF assms(1)])
next
  case False
  with assms(2) have "is_comparison p" by simp
  then consider a b where "p = Equal a b" "valid_name a" "valid_name b"
    | a b where "p = NotEqual a b" "valid_name a" "valid_name b"
    by (cases p) auto
  then show ?thesis
  proof cases
    case (1 a b)
    then show ?thesis using parse_comparison(1) [OF 1(2,3) assms(3,4)] by simp
  next
    case (2 a b)
    then show ?thesis using parse_comparison(2) [OF 2(2,3) assms(3,4)] by simp
  qed
qed

lemma parse_primary_display:
  "is_primary p \<Longrightarrow> rest = [] \<or> \<not> is_word_char (hd rest) \<Longrightarrow>
   parse_primary (pred_display p @ rest) = Some (Inr (p, skip_whitespace rest))"
proof (induction p arbitrary: rest)
  case (Identifier n)
  then show ?case by (simp add: parse_primary_name)
next
  case (Not_pred p)
  then have "parse_expr (pred_display p @ rest) PRECEDENCE_NOT = Some (Inr (p, skip_whitespace rest))"
    by (simp add: parse_expr_eq parse_ops_above precedence_defs)
  with Not_pred.prems show ?case by (simp add: parse_primary_not)
next
  case (And_pred p q)
  let ?q = "pred_display q @ CHR '')'' # rest"
  have ops: "is_primary p \<or> is_comparison p" "is_primary q \<or> is_comparison q"
    using And_pred.prems by auto
  have q: "parse_expr ?q (PRECEDENCE_AND + 1) = Some (Inr (q, CHR '')'' # rest))"
    using And_pred.IH(2) ops
    by (subst parse_operand) (simp_all add: parse_ops_close precedence_defs)
  have "parse_expr (pred_display p @ '' && '' @ ?q) 0 = parse_ops p (''&& '' @ ?q) 0"
    using And_pred.IH(1) ops by (subst parse_operand) (simp_all add: precedence_defs)
  also have "\<dots> = parse_ops (And_pred p q) (CHR '')'' # rest) 0"
    using q ops
    by (intro parse_ops_step [where operator = "''&&''" and precedence = PRECEDENCE_AND and f = new_and])
      (simp_all add: find_operator new_and_def)
  finally have "parse_expr (pred_display p @ '' && '' @ ?q) 0 = Some (Inr (And_pred p q, CHR '')'' # rest))"
    by (simp add: parse_ops_close)
  with ops show ?case by (simp add: parse_primary_paren)
next
  case (Or_pred p q)
  let ?q = "pred_display q @ CHR '')'' # rest"
  have ops: "is_primary p \<or> is_comparison p" "is_primary q \<or> is_comparison q"
    using Or_pred.prems by auto
  have q: "parse_expr ?q (PRECEDENCE_OR + 1) = Some (Inr (q, CHR '')'' # rest))"
    using Or_pred.IH(2) ops
    by (subst parse_operand) (simp_all add: parse_ops_close precedence_defs)
  have "parse_expr (pred_display p @ '' || '' @ ?q) 0 = parse_ops p (''|| '' @ ?q) 0"
    using Or_pred.IH(1) ops by (subst parse_operand) (simp_all add: precedence_defs)
  also have "\<dots> = parse_ops (Or_pred p q) (CHR '')'' # rest) 0"
    using q ops
    by (intro parse_ops_step [where operator = "''||''" and precedence = PRECEDENCE_OR and f = new_or])
      (simp_all add: find_operator new_or_def)
  finally have "parse_expr (pred_display p @ '' || '' @ ?q) 0 = Some (Inr (Or_pred p q, CHR '')'' # rest))"
    by (simp add: parse_ops_close)
  with ops show ?case by (simp add: parse_primary_paren)
qed simp_all

lemma parse_operand_display:
  "is_primary p \<or> is_comparison p \<Longrightarrow> rest = [] \<or> \<not> is_word_char (hd rest) \<Longrightarrow>
   m \<le> PRECEDENCE_EQ \<Longrightarrow>
   parse_expr (pred_display p @ rest) m = parse_ops p (skip_whitespace rest) m"
  by (rule parse_operand) (simp_all add: parse_primary_display)

lemma parse_printable:
  "pred_printable p \<Longrightarrow> rest = [] \<or> (\<exists>t. rest = '' > '' @ t) \<Longrightarrow>
   parse_expr (pred_display p @ rest) 0 = parse_ops p (skip_whitespace rest) 0"
proof (induction p arbitrary: rest rule: pred_printable.induct)
  case (1 p q)
  have stop: "rest = [] \<or> \<not> is_word_char (hd rest)" using "1.prems"(2) by auto
  have q: "is_primary q \<or> is_comparison q" using "1.prems"(1) by simp
  have "parse_ops q (skip_whitespace rest) (PRECEDENCE_CHILD + 1) = Some (Inr (q, skip_whitespace rest))"
    using "1.prems"(2) by (intro parse_ops_stop) (auto simp: find_operator)
  then have right: "parse_expr (pred_display q @ rest) (PRECEDENCE_CHILD + 1)
      = Some (Inr (q, skip_whitespace rest))"
    using q stop by (simp add: parse_operand_display precedence_defs)
  have "parse_expr (pred_display p @ '' > '' @ pred_display q @ rest) 0
      = parse_ops p (skip_whitespace ('' > '' @ pred_display q @ rest)) 0"
    using "1.prems"(1) by (intro "1.IH") auto
  also have "\<dots> = parse_ops p (''> '' @ pred_display q @ rest) 0" by simp
  also have "\<dots> = parse_ops (Descendant p q) (skip_whitespace rest) 0"
    using right q
    by (intro parse_ops_step [where operator = "''>''" and precedence = PRECEDENCE_CHILD and f = new_child])
      (simp_all add: find_operator new_child_def)
  finally show ?case by simp
qed (rule parse_operand_display; auto simp: precedence_defs)+

text \<open>
  Printing an unambiguously printed predicate and parsing the text gives the predicate
  back, with its associativity and precedences.
\<close>

theorem pred_parse_display:
  assumes "pred_printable p"
  shows "pred_parse (pred_display p) = Some (Inr p)"
proof -
  have "parse_expr (pred_display p) 0 = Some (Inr (p, []))"
    using parse_printable [OF assms, of "[]"] by (simp add: parse_ops_stop find_operator)
  moreover have "skip_whitespace (pred_display p) = pred_display p"
  proof -
    have "\<exists>c cs. pred_display p = c # cs \<and> \<not> is_whitespace c"
      using assms by (induction p rule: pred_printable.induct) (auto dest!: valid_name_start)
    then show ?thesis by auto
  qed
  ultimately show ?thesis by (simp add: pred_parse_def)
qed

theorem pred_parse_display_witness:
  "pred_parse ''Workspace > !Pane > (Editor && mode == full)'' =
     Some (Inr (Descendant (Descendant (Identifier ''Workspace'') (Not_pred (Identifier ''Pane'')))
       (And_pred (Identifier ''Editor'') (Equal ''mode'' ''full''))))"
  using pred_parse_display [of "Descendant (Descendant (Identifier ''Workspace'') (Not_pred (Identifier ''Pane'')))
       (And_pred (Identifier ''Editor'') (Equal ''mode'' ''full''))"]
  by (simp add: valid_name_def is_word_char_def is_identifier_char_def char_class_defs)

end
