(* ===== verification/Keymap.thy ===== *)
theory Keymap
  imports Keystroke Action_Registry Predicate_Parser "HOL-Library.Product_Lexorder"
begin

text \<open>
  Key bindings and the keymap, from \<open>src/src/keymap/binding.rs\<close> and \<open>src/src/keymap.rs\<close>:
  loading and matching a binding, adding bindings with the two indices the keymap keeps, the
  lookup by action, and the lookup by input with its precedence order, disabling by
  \<open>NoAction\<close> and the pending flag.
\<close>

section \<open>Key bindings\<close>

record key_binding =
  kbd_action :: action
  kbd_keystrokes :: "keybinding_keystroke list"
  kbd_context_predicate :: "context_predicate option"
  kbd_meta :: "32 word option"
  kbd_action_input :: "string option"

type_synonym keyboard_mapper = "keystroke \<Rightarrow> bool \<Rightarrow> keybinding_keystroke"

definition dummy_keyboard_mapper :: "target_os \<Rightarrow> keyboard_mapper" where
  "dummy_keyboard_mapper os keystroke use_key_equivalents = kb_from_keystroke os keystroke"

definition binding_load ::
    "target_os \<Rightarrow> string \<Rightarrow> action \<Rightarrow> context_predicate option \<Rightarrow> bool \<Rightarrow> string option \<Rightarrow>
     keyboard_mapper \<Rightarrow> (keystroke_error, key_binding) result" where
  "binding_load os keystrokes action context_predicate use_key_equivalents action_input mapper =
     bind_result
       (collect_results (map (\<lambda>source.
          bind_result (keystroke_parse os source)
            (\<lambda>keystroke. Inr (mapper keystroke use_key_equivalents))) (split_whitespace keystrokes)))
       (\<lambda>keystrokes. Inr \<lparr>kbd_action = action, kbd_keystrokes = keystrokes,
          kbd_context_predicate = context_predicate, kbd_meta = None,
          kbd_action_input = action_input\<rparr>)"

text \<open>\<open>KeyBinding::new\<close> unwraps both parsers: \<open>None\<close> is the panic.\<close>

definition binding_new :: "target_os \<Rightarrow> string \<Rightarrow> action \<Rightarrow> string option \<Rightarrow> key_binding option" where
  "binding_new os keystrokes action context =
     (let load = (\<lambda>context_predicate.
            case binding_load os keystrokes action context_predicate False None
                   (dummy_keyboard_mapper os) of Inl _ \<Rightarrow> None | Inr b \<Rightarrow> Some b)
      in case context of
           None \<Rightarrow> load None
         | Some source \<Rightarrow>
             (case pred_parse source of Some (Inr p) \<Rightarrow> load (Some p) | _ \<Rightarrow> None))"

definition binding_with_meta :: "32 word \<Rightarrow> key_binding \<Rightarrow> key_binding" where
  "binding_with_meta meta b = b\<lparr>kbd_meta := Some meta\<rparr>"

text \<open>The loop over the zipped keystrokes stops at the first one that does not match.\<close>

definition match_keystrokes :: "target_os \<Rightarrow> key_binding \<Rightarrow> keystroke list \<Rightarrow> bool option" where
  "match_keystrokes os b typed =
     (if length (kbd_keystrokes b) < length typed then None
      else if list_ex (\<lambda>(target, t). \<not> should_match os t target) (zip (kbd_keystrokes b) typed) then None
      else Some (length typed < length (kbd_keystrokes b)))"

lemma match_keystrokes_iff:
  "match_keystrokes os b typed = Some pending \<longleftrightarrow>
     length typed \<le> length (kbd_keystrokes b) \<and>
     (\<forall>i < length typed. should_match os (typed ! i) (kbd_keystrokes b ! i)) \<and>
     pending = (length typed < length (kbd_keystrokes b))"
proof -
  have ex: "list_ex (\<lambda>(target, t). \<not> should_match os t target) (zip (kbd_keystrokes b) typed) \<longleftrightarrow>
      \<not> (\<forall>i < length typed. should_match os (typed ! i) (kbd_keystrokes b ! i))"
    if "length typed \<le> length (kbd_keystrokes b)"
    using that by (force simp: list_ex_iff set_zip)
  show ?thesis
  proof (cases "length typed \<le> length (kbd_keystrokes b)")
    case True
    then show ?thesis by (auto simp: match_keystrokes_def ex [OF True] simp del: list_ex_iff)
  qed (simp add: match_keystrokes_def)
qed

lemma binding_load_length:
  "binding_load os ks a p e i mapper = Inr b \<Longrightarrow>
   length (kbd_keystrokes b) = length (split_whitespace ks) \<and> kbd_action b = a \<and>
   kbd_context_predicate b = p \<and> kbd_meta b = None"
  by (auto simp: binding_load_def bind_result_Inr_iff dest!: collect_results_length)

section \<open>The keymap\<close>

record keymap =
  km_bindings :: "key_binding list"
  km_indices :: "string \<rightharpoonup> nat list"
  km_no_action_indices :: "nat list"
  km_version :: nat

definition keymap_default :: keymap where
  "keymap_default = \<lparr>km_bindings = [], km_indices = Map.empty, km_no_action_indices = [],
                     km_version = 0\<rparr>"

text \<open>The body of the loop of \<open>add_bindings\<close>.\<close>

definition add_binding :: "key_binding \<Rightarrow> keymap \<Rightarrow> keymap" where
  "add_binding b km =
     (let ix = length (km_bindings km); action_id = act_type (kbd_action b);
          km' = (if is_no_action (kbd_action b)
                 then km\<lparr>km_no_action_indices := km_no_action_indices km @ [ix]\<rparr>
                 else km\<lparr>km_indices := (km_indices km)(action_id \<mapsto>
                        (case km_indices km action_id of None \<Rightarrow> [] | Some ixs \<Rightarrow> ixs) @ [ix])\<rparr>)
      in km'\<lparr>km_bindings := km_bindings km @ [b]\<rparr>)"

definition add_bindings :: "key_binding list \<Rightarrow> keymap \<Rightarrow> keymap" where
  "add_bindings bs km = (let km' = fold add_binding bs km in km'\<lparr>km_version := km_version km' + 1\<rparr>)"

definition keymap_new :: "key_binding list \<Rightarrow> keymap" where
  "keymap_new bs = add_bindings bs keymap_default"

definition keymap_clear :: "keymap \<Rightarrow> keymap" where
  "keymap_clear km = km\<lparr>km_bindings := [], km_indices := Map.empty, km_no_action_indices := [],
                        km_version := km_version km + 1\<rparr>"

section \<open>Lookup by action\<close>

definition null_binding_matches :: "key_binding \<Rightarrow> key_binding \<Rightarrow> bool" where
  "null_binding_matches null_binding b =
     (case (kbd_context_predicate null_binding, kbd_context_predicate b) of
        (None, _) \<Rightarrow> True
      | (Some _, None) \<Rightarrow> False
      | (Some null_predicate, Some predicate) \<Rightarrow> is_superset null_predicate predicate)"

definition disabled_at :: "keymap \<Rightarrow> nat \<Rightarrow> bool" where
  "disabled_at km ix \<longleftrightarrow> list_ex (\<lambda>null_ix. ix < null_ix \<and>
      kbd_keystrokes (km_bindings km ! null_ix) = kbd_keystrokes (km_bindings km ! ix) \<and>
      null_binding_matches (km_bindings km ! null_ix) (km_bindings km ! ix)) (km_no_action_indices km)"

definition bindings_for_action :: "keymap \<Rightarrow> action \<Rightarrow> key_binding list" where
  "bindings_for_action km action =
     (let binding_indices = (case km_indices km (act_type action) of None \<Rightarrow> [] | Some ixs \<Rightarrow> ixs)
      in map (\<lambda>ix. km_bindings km ! ix)
           (filter (\<lambda>ix. action_partial_eq (kbd_action (km_bindings km ! ix)) action \<and>
                         \<not> disabled_at km ix) binding_indices))"

section \<open>Lookup by input\<close>

definition all_bindings_for_input :: "target_os \<Rightarrow> keymap \<Rightarrow> keystroke list \<Rightarrow> key_binding list" where
  "all_bindings_for_input os km input =
     filter (\<lambda>b. match_keystrokes os b input = Some False) (rev (km_bindings km))"

definition binding_enabled :: "key_binding \<Rightarrow> key_context list \<Rightarrow> nat option" where
  "binding_enabled b contexts =
     (case kbd_context_predicate b of
        Some predicate \<Rightarrow> depth_of predicate contexts
      | None \<Rightarrow> Some (length contexts))"

text \<open>The first loop, over \<open>bindings().enumerate().rev()\<close>, and the sort.\<close>

definition matched_bindings ::
    "target_os \<Rightarrow> keymap \<Rightarrow> keystroke list \<Rightarrow> key_context list \<Rightarrow> (nat \<times> nat \<times> key_binding) list" where
  "matched_bindings os km input context_stack =
     List.map_filter (\<lambda>(ix, b).
       case binding_enabled b context_stack of
         None \<Rightarrow> None
       | Some depth \<Rightarrow>
           (case match_keystrokes os b input of
              None \<Rightarrow> None
            | Some pending \<Rightarrow> if \<not> pending then Some (depth, ix, b) else None))
       (rev (enumerated (km_bindings km)))"

definition pending_bindings ::
    "target_os \<Rightarrow> keymap \<Rightarrow> keystroke list \<Rightarrow> key_context list \<Rightarrow> (nat \<times> key_binding) list" where
  "pending_bindings os km input context_stack =
     List.map_filter (\<lambda>(ix, b).
       case binding_enabled b context_stack of
         None \<Rightarrow> None
       | Some depth \<Rightarrow>
           (case match_keystrokes os b input of
              None \<Rightarrow> None
            | Some pending \<Rightarrow> if pending then Some (ix, b) else None))
       (rev (enumerated (km_bindings km)))"

definition sort_matched :: "(nat \<times> nat \<times> key_binding) list \<Rightarrow> (nat \<times> nat \<times> key_binding) list" where
  "sort_matched ms = sort_key (\<lambda>(depth, ix, _). (- int depth, - int ix)) ms"

text \<open>A \<open>NoAction\<close> binding ends the search if it is the user's (meta 0) or has no meta.\<close>

definition ends_search :: "key_binding \<Rightarrow> bool" where
  "ends_search b = (case kbd_meta b of Some meta \<Rightarrow> meta = 0 | None \<Rightarrow> True)"

fun select_matched ::
    "(nat \<times> nat \<times> key_binding) list \<Rightarrow> key_binding list \<Rightarrow> nat option \<Rightarrow> key_binding list \<times> nat option"
where
  "select_matched [] bindings first = (bindings, first)"
| "select_matched ((depth, ix, b) # ms) bindings first =
     (if is_no_action (kbd_action b) then
        (if ends_search b then (bindings, first) else select_matched ms bindings first)
      else select_matched ms (bindings @ [b]) (case first of None \<Rightarrow> Some ix | Some f \<Rightarrow> Some f))"

text \<open>The second loop, over \<open>pending_bindings.into_iter().rev()\<close>, with its hash set.\<close>

fun select_pending ::
    "nat option \<Rightarrow> (nat \<times> key_binding) list \<Rightarrow> keybinding_keystroke list set \<Rightarrow>
     keybinding_keystroke list set" where
  "select_pending first [] pending = pending"
| "select_pending first ((ix, b) # ps) pending =
     (if (case first of Some binding_ix \<Rightarrow> ix < binding_ix | None \<Rightarrow> False)
      then select_pending first ps pending
      else if is_no_action (kbd_action b)
      then select_pending first ps (pending - {kbd_keystrokes b})
      else select_pending first ps (insert (kbd_keystrokes b) pending))"

definition bindings_for_input ::
    "target_os \<Rightarrow> keymap \<Rightarrow> keystroke list \<Rightarrow> key_context list \<Rightarrow> key_binding list \<times> bool" where
  "bindings_for_input os km input context_stack =
     (let (bindings, first) =
            select_matched (sort_matched (matched_bindings os km input context_stack)) [] None;
          pending = select_pending first (rev (pending_bindings os km input context_stack)) {}
      in (bindings, pending \<noteq> {}))"


section \<open>What the lookup by input returns\<close>

text \<open>
  The specification side: which bindings match, which prefix-match, and which of two matching
  bindings takes precedence (deeper first, then later first).
\<close>

definition input_match ::
    "target_os \<Rightarrow> keymap \<Rightarrow> keystroke list \<Rightarrow> key_context list \<Rightarrow> bool \<Rightarrow> nat \<Rightarrow> bool" where
  "input_match os km input ctx pending i \<longleftrightarrow>
     i < length (km_bindings km) \<and> binding_enabled (km_bindings km ! i) ctx \<noteq> None \<and>
     match_keystrokes os (km_bindings km ! i) input = Some pending"

definition takes_precedence :: "keymap \<Rightarrow> key_context list \<Rightarrow> nat \<Rightarrow> nat \<Rightarrow> bool" where
  "takes_precedence km ctx i j \<longleftrightarrow>
     (case (binding_enabled (km_bindings km ! i) ctx, binding_enabled (km_bindings km ! j) ctx) of
        (Some di, Some dj) \<Rightarrow> dj < di \<or> (di = dj \<and> j < i)
      | _ \<Rightarrow> False)"

definition unbinds :: "keymap \<Rightarrow> nat \<Rightarrow> bool" where
  "unbinds km j \<longleftrightarrow> is_no_action (kbd_action (km_bindings km ! j)) \<and> ends_search (km_bindings km ! j)"

lemma takes_precedence_asym: "takes_precedence km ctx i j \<Longrightarrow> \<not> takes_precedence km ctx j i"
  by (auto simp: takes_precedence_def split: option.splits)

lemma in_matched_bindings:
  "(d, i, b) \<in> set (matched_bindings os km input ctx) \<longleftrightarrow>
     input_match os km input ctx False i \<and> b = km_bindings km ! i \<and> binding_enabled b ctx = Some d"
  unfolding matched_bindings_def in_set_map_filter input_match_def
  by (auto simp: in_set_enumerated split: option.splits if_splits) (auto simp: in_set_enumerated Bex_def)

lemma ex_matched_bindings:
  "(\<exists>(d, i, b) \<in> set (matched_bindings os km input ctx). Q i b) \<longleftrightarrow>
     (\<exists>i. input_match os km input ctx False i \<and> Q i (km_bindings km ! i))"
proof -
  have "\<exists>d. (d, i, km_bindings km ! i) \<in> set (matched_bindings os km input ctx)"
    if "input_match os km input ctx False i" for i
    using that unfolding in_matched_bindings by (auto simp: input_match_def)
  then show ?thesis by (fastforce simp: in_matched_bindings)
qed

lemma in_pending_bindings:
  "(i, b) \<in> set (pending_bindings os km input ctx) \<longleftrightarrow>
     input_match os km input ctx True i \<and> b = km_bindings km ! i"
  unfolding pending_bindings_def in_set_map_filter input_match_def
  by (auto simp: in_set_enumerated split: option.splits if_splits) (auto simp: in_set_enumerated Bex_def)

lemma rev_enumerated_ordered: "sorted_wrt (\<lambda>a b. fst b < fst a) (rev (enumerated xs))"
  using sorted_wrt_enumerated [of xs] by (simp add: sorted_wrt_rev)

lemma matched_bindings_ordered:
  "sorted_wrt (\<lambda>a b. fst (snd b) < fst (snd a)) (matched_bindings os km input ctx)"
  unfolding matched_bindings_def
  by (rule sorted_wrt_map_filter [OF rev_enumerated_ordered]) (auto split: option.splits if_splits)

lemma pending_bindings_ordered:
  "sorted_wrt (\<lambda>a b. fst a < fst b) (rev (pending_bindings os km input ctx))"
  unfolding pending_bindings_def sorted_wrt_rev
  by (rule sorted_wrt_map_filter [OF rev_enumerated_ordered]) (auto split: option.splits if_splits)

lemma set_sort_matched [simp]: "set (sort_matched ms) = set ms"
  by (simp add: sort_matched_def)

text \<open>After the sort, every entry takes precedence over the ones behind it.\<close>

lemma sort_matched_ordered:
  "sorted_wrt (\<lambda>a b. takes_precedence km ctx (fst (snd a)) (fst (snd b)))
     (sort_matched (matched_bindings os km input ctx))"
proof -
  let ?ms = "matched_bindings os km input ctx"
  let ?key = "\<lambda>(depth, ix, _). (- int depth, - int ix) :: int \<times> int"
  have inj: "inj_on ?key (set ?ms)"
    by (auto simp: inj_on_def in_matched_bindings)
  have "distinct ?ms"
    using matched_bindings_ordered [of os km input ctx]
    by (auto simp: distinct_conv_nth sorted_wrt_iff_nth_less) (metis less_irrefl linorder_neqE_nat)
  then have "distinct (map ?key (sort_matched ?ms))"
    using inj by (simp add: sort_matched_def distinct_map)
  moreover have "sorted (map ?key (sort_matched ?ms))" by (simp add: sort_matched_def)
  ultimately have "sorted_wrt (<) (map ?key (sort_matched ?ms))"
    by (simp add: strict_sorted_iff)
  then have "sorted_wrt (\<lambda>a b. ?key a < ?key b) (sort_matched ?ms)" by (simp add: sorted_wrt_map)
  then show ?thesis
    by (rule sorted_wrt_mono_rel [rotated])
      (auto simp: in_matched_bindings takes_precedence_def less_prod_simp)
qed

lemma select_matched_eq:
  "select_matched ms acc first =
     (let sel = filter (\<lambda>(d, i, b). \<not> is_no_action (kbd_action b))
                  (takeWhile (\<lambda>(d, i, b). \<not> (is_no_action (kbd_action b) \<and> ends_search b)) ms)
      in (acc @ map (\<lambda>(d, i, b). b) sel,
          case first of Some f \<Rightarrow> Some f | None \<Rightarrow> (case sel of [] \<Rightarrow> None | (d, i, b) # _ \<Rightarrow> Some i)))"
  by (induction ms acc first rule: select_matched.induct)
    (auto simp: Let_def split: option.split)

definition result_indices ::
    "target_os \<Rightarrow> keymap \<Rightarrow> keystroke list \<Rightarrow> key_context list \<Rightarrow> nat list" where
  "result_indices os km input ctx =
     map (\<lambda>(d, i, b). i)
       (filter (\<lambda>(d, i, b). \<not> is_no_action (kbd_action b))
         (takeWhile (\<lambda>(d, i, b). \<not> (is_no_action (kbd_action b) \<and> ends_search b))
           (sort_matched (matched_bindings os km input ctx))))"

lemma in_result_indices:
  "i \<in> set (result_indices os km input ctx) \<longleftrightarrow>
     input_match os km input ctx False i \<and> \<not> is_no_action (kbd_action (km_bindings km ! i)) \<and>
     \<not> (\<exists>j. input_match os km input ctx False j \<and> takes_precedence km ctx j i \<and> unbinds km j)"
proof -
  let ?ms = "sort_matched (matched_bindings os km input ctx)"
  let ?P = "\<lambda>(d, i, b). \<not> (is_no_action (kbd_action b) \<and> ends_search b)"
  have taken: "(d, i, b) \<in> set (takeWhile ?P ?ms) \<longleftrightarrow> (d, i, b) \<in> set ?ms \<and> ?P (d, i, b) \<and>
      (\<forall>y \<in> set ?ms. takes_precedence km ctx (fst (snd y)) i \<longrightarrow> ?P y)" for d i b
    using in_set_takeWhile_ordered
      [OF sort_matched_ordered [of km ctx os input] takes_precedence_asym, where x = "(d, i, b)" and P = ?P]
    by simp
  have before: "(\<forall>y \<in> set ?ms. takes_precedence km ctx (fst (snd y)) i \<longrightarrow> ?P y) \<longleftrightarrow>
      \<not> (\<exists>j. input_match os km input ctx False j \<and> takes_precedence km ctx j i \<and> unbinds km j)" for i
    using ex_matched_bindings [of os km input ctx
        "\<lambda>j b. takes_precedence km ctx j i \<and> is_no_action (kbd_action b) \<and> ends_search b"]
    by (auto simp: unbinds_def)
  have "i \<in> set (result_indices os km input ctx) \<longleftrightarrow>
      (\<exists>d b. (d, i, b) \<in> set (takeWhile ?P ?ms) \<and> \<not> is_no_action (kbd_action b))"
    unfolding result_indices_def set_map set_filter by force
  also have "\<dots> \<longleftrightarrow> (\<exists>d b. ((d, i, b) \<in> set ?ms \<and> \<not> is_no_action (kbd_action b)) \<and>
      (\<forall>y \<in> set ?ms. takes_precedence km ctx (fst (snd y)) i \<longrightarrow> ?P y))"
    unfolding taken by blast
  also have "\<dots> \<longleftrightarrow> (\<exists>d b. (d, i, b) \<in> set ?ms \<and> \<not> is_no_action (kbd_action b)) \<and>
      \<not> (\<exists>j. input_match os km input ctx False j \<and> takes_precedence km ctx j i \<and> unbinds km j)"
    unfolding before by blast
  finally show ?thesis by (auto simp: in_matched_bindings input_match_def)
qed

lemma result_indices_ordered: "sorted_wrt (takes_precedence km ctx) (result_indices os km input ctx)"
  unfolding result_indices_def sorted_wrt_map
  using sorted_wrt_filter [OF sorted_wrt_takeWhile [OF sort_matched_ordered]]
  by (rule sorted_wrt_mono_rel [rotated]) (auto split: prod.splits)

lemma bindings_for_input_eq:
  "fst (bindings_for_input os km input ctx) = map (\<lambda>i. km_bindings km ! i) (result_indices os km input ctx)"
  "snd (bindings_for_input os km input ctx) \<longleftrightarrow>
     select_pending (case result_indices os km input ctx of [] \<Rightarrow> None | i # _ \<Rightarrow> Some i)
       (rev (pending_bindings os km input ctx)) {} \<noteq> {}"
proof -
  let ?ms = "sort_matched (matched_bindings os km input ctx)"
  let ?sel = "filter (\<lambda>(d, i, b). \<not> is_no_action (kbd_action b))
      (takeWhile (\<lambda>(d, i, b). \<not> (is_no_action (kbd_action b) \<and> ends_search b)) ?ms)"
  have "\<forall>(d, i, b) \<in> set ?sel. b = km_bindings km ! i"
    by (auto dest!: set_takeWhileD simp: in_matched_bindings)
  then show "fst (bindings_for_input os km input ctx) =
      map (\<lambda>i. km_bindings km ! i) (result_indices os km input ctx)"
    unfolding bindings_for_input_def select_matched_eq result_indices_def
    by (auto simp: Let_def comp_def)
  show "snd (bindings_for_input os km input ctx) \<longleftrightarrow>
     select_pending (case result_indices os km input ctx of [] \<Rightarrow> None | i # _ \<Rightarrow> Some i)
       (rev (pending_bindings os km input ctx)) {} \<noteq> {}"
    unfolding bindings_for_input_def select_matched_eq result_indices_def
    by (auto simp: Let_def split: list.split)
qed

text \<open>
  C1. The bindings returned for an input, in order: a binding is returned exactly when it is
  enabled in the context stack, matches the whole input, is not \<open>NoAction\<close> itself, and no
  unbinding \<open>NoAction\<close> that also matches takes precedence over it; they come in precedence
  order, the deepest context first and among equals the latest added first.
\<close>

theorem bindings_for_input_spec:
  "\<exists>ixs. fst (bindings_for_input os km input ctx) = map (\<lambda>i. km_bindings km ! i) ixs \<and>
     sorted_wrt (takes_precedence km ctx) ixs \<and>
     (\<forall>i. i \<in> set ixs \<longleftrightarrow>
        input_match os km input ctx False i \<and> \<not> is_no_action (kbd_action (km_bindings km ! i)) \<and>
        \<not> (\<exists>j. input_match os km input ctx False j \<and> takes_precedence km ctx j i \<and> unbinds km j))"
  using bindings_for_input_eq(1) result_indices_ordered in_result_indices by blast


text \<open>
  The pending set: a sequence of keystrokes stays in it exactly when the last binding with
  that sequence that is not skipped is no \<open>NoAction\<close>.
\<close>

definition not_overridden :: "nat option \<Rightarrow> nat \<Rightarrow> bool" where
  "not_overridden first i = (case first of Some f \<Rightarrow> f \<le> i | None \<Rightarrow> True)"

lemma in_select_pending:
  "ks \<in> select_pending first ps S \<longleftrightarrow>
     (let rel = filter (\<lambda>(i, b). not_overridden first i \<and> kbd_keystrokes b = ks) ps
      in if rel = [] then ks \<in> S else \<not> is_no_action (kbd_action (snd (last rel))))"
  by (induction first ps S rule: select_pending.induct)
    (auto simp: Let_def not_overridden_def not_less split: option.splits if_splits)

lemma in_select_pending_ordered:
  assumes ord: "sorted_wrt (\<lambda>a b. fst a < fst b) ps"
  shows "ks \<in> select_pending first ps {} \<longleftrightarrow>
    (\<exists>i b. (i, b) \<in> set ps \<and> not_overridden first i \<and> kbd_keystrokes b = ks \<and>
       \<not> is_no_action (kbd_action b) \<and>
       \<not> (\<exists>j c. (j, c) \<in> set ps \<and> i < j \<and> kbd_keystrokes c = ks \<and> is_no_action (kbd_action c)))"
    (is "?l \<longleftrightarrow> ?r")
proof -
  define rel where "rel = filter (\<lambda>(i, b). not_overridden first i \<and> kbd_keystrokes b = ks) ps"
  have l: "?l \<longleftrightarrow> rel \<noteq> [] \<and> \<not> is_no_action (kbd_action (snd (last rel)))"
    unfolding rel_def in_select_pending by (simp add: Let_def)
  have in_rel: "(i, b) \<in> set rel \<longleftrightarrow> (i, b) \<in> set ps \<and> not_overridden first i \<and> kbd_keystrokes b = ks" for i b
    by (auto simp: rel_def)
  have rel_ord: "sorted_wrt (\<lambda>a b. fst a < fst b) rel"
    unfolding rel_def by (rule sorted_wrt_filter [OF ord])
  have later: "not_overridden first j" if "not_overridden first i" "i < j" for i j
    using that by (auto simp: not_overridden_def split: option.splits)
  show ?thesis
  proof
    assume ?l
    with l obtain i b where last: "rel \<noteq> []" "last rel = (i, b)" "\<not> is_no_action (kbd_action b)"
      by (cases "last rel") auto
    have "(i, b) \<in> set rel" using last(1,2) by (metis last_in_set)
    moreover have "\<not> (\<exists>j c. (j, c) \<in> set ps \<and> i < j \<and> kbd_keystrokes c = ks \<and> is_no_action (kbd_action c))"
    proof clarify
      fix j c assume c: "(j, c) \<in> set ps" "i < j" "ks = kbd_keystrokes c" "is_no_action (kbd_action c)"
      with later \<open>(i, b) \<in> set rel\<close> have "(j, c) \<in> set rel" by (auto simp: in_rel)
      from sorted_wrt_last_greatest [OF rel_ord last(1) this] last(2) c(2) show False by auto
    qed
    ultimately show ?r using last(3) in_rel by blast
  next
    assume ?r
    then obtain i b where i: "(i, b) \<in> set rel" "\<not> is_no_action (kbd_action b)"
      "\<not> (\<exists>j c. (j, c) \<in> set ps \<and> i < j \<and> kbd_keystrokes c = ks \<and> is_no_action (kbd_action c))"
      by (auto simp: in_rel)
    then have ne: "rel \<noteq> []" by auto
    then have "last rel \<in> set rel" by simp
    with sorted_wrt_last_greatest [OF rel_ord ne i(1)] i(2,3)
    have "\<not> is_no_action (kbd_action (snd (last rel)))"
      by (cases "last rel") (auto simp: in_rel)
    with l ne show ?l by simp
  qed
qed

definition best_index ::
    "target_os \<Rightarrow> keymap \<Rightarrow> keystroke list \<Rightarrow> key_context list \<Rightarrow> nat option" where
  "best_index os km input ctx = snd (select_matched (sort_matched (matched_bindings os km input ctx)) [] None)"

lemma best_index_eq:
  "best_index os km input ctx =
     (case result_indices os km input ctx of [] \<Rightarrow> None | i # _ \<Rightarrow> Some i)"
  unfolding best_index_def select_matched_eq result_indices_def
  by (auto simp: Let_def split: list.split)

lemma bindings_for_input_pending_index:
  "snd (bindings_for_input os km input ctx) \<longleftrightarrow>
     (\<exists>i. input_match os km input ctx True i \<and>
        not_overridden (best_index os km input ctx) i \<and>
        \<not> is_no_action (kbd_action (km_bindings km ! i)) \<and>
        \<not> (\<exists>j. input_match os km input ctx True j \<and> i < j \<and>
             kbd_keystrokes (km_bindings km ! j) = kbd_keystrokes (km_bindings km ! i) \<and>
             is_no_action (kbd_action (km_bindings km ! j))))"
proof -
  let ?ps = "rev (pending_bindings os km input ctx)"
  have "snd (bindings_for_input os km input ctx) \<longleftrightarrow>
      (\<exists>ks. ks \<in> select_pending (best_index os km input ctx) ?ps {})"
    unfolding bindings_for_input_eq best_index_eq by blast
  then show ?thesis
    unfolding in_select_pending_ordered [OF pending_bindings_ordered] set_rev in_pending_bindings
    by blast
qed

text \<open>
  C36. The pending flag: it is set exactly when some enabled, longer binding starts with the
  input, was not added before the best full match, is not \<open>NoAction\<close>, and is not unbound by
  a later \<open>NoAction\<close> for the same keystrokes that is enabled too.
\<close>

theorem bindings_for_input_pending:
  "snd (bindings_for_input os km input ctx) \<longleftrightarrow>
     (\<exists>i. input_match os km input ctx True i \<and>
        not_overridden (best_index os km input ctx) i \<and>
        \<not> is_no_action (kbd_action (km_bindings km ! i)) \<and>
        \<not> (\<exists>j. input_match os km input ctx True j \<and> i < j \<and>
             kbd_keystrokes (km_bindings km ! j) = kbd_keystrokes (km_bindings km ! i) \<and>
             is_no_action (kbd_action (km_bindings km ! j))))"
  by (rule bindings_for_input_pending_index)

section \<open>The indices\<close>

definition keymap_wf :: "keymap \<Rightarrow> bool" where
  "keymap_wf km \<longleftrightarrow>
     (\<forall>t. (case km_indices km t of None \<Rightarrow> [] | Some ixs \<Rightarrow> ixs) =
        filter (\<lambda>i. act_type (kbd_action (km_bindings km ! i)) = t \<and>
                    \<not> is_no_action (kbd_action (km_bindings km ! i))) [0..<length (km_bindings km)]) \<and>
     km_no_action_indices km =
       filter (\<lambda>i. is_no_action (kbd_action (km_bindings km ! i))) [0..<length (km_bindings km)]"

lemma keymap_wf_default [simp]: "keymap_wf keymap_default"
  by (simp add: keymap_wf_def keymap_default_def)

lemma keymap_wf_clear [simp]: "keymap_wf (keymap_clear km)"
  by (simp add: keymap_wf_def keymap_clear_def)

lemma filter_upt_snoc:
  "filter (\<lambda>i. P ((xs @ [x]) ! i)) [0..<length (xs @ [x])] =
     filter (\<lambda>i. P (xs ! i)) [0..<length xs] @ (if P x then [length xs] else [])"
proof -
  have "filter (\<lambda>i. P ((xs @ [x]) ! i)) [0..<length xs] = filter (\<lambda>i. P (xs ! i)) [0..<length xs]"
    by (rule filter_cong) (auto simp: nth_append)
  then show ?thesis by simp
qed

lemma keymap_wf_add_binding: "keymap_wf km \<Longrightarrow> keymap_wf (add_binding b km)"
  unfolding keymap_wf_def
  by (auto simp: add_binding_def Let_def filter_upt_snoc
      [where P = "\<lambda>b. act_type (kbd_action b) = _ \<and> \<not> is_no_action (kbd_action b)", simplified]
      filter_upt_snoc [where P = "\<lambda>b. is_no_action (kbd_action b)", simplified]
      split: option.splits)

lemma keymap_wf_version [simp]: "keymap_wf (km\<lparr>km_version := v\<rparr>) = keymap_wf km"
  by (simp add: keymap_wf_def)

lemma keymap_wf_add_bindings: "keymap_wf km \<Longrightarrow> keymap_wf (add_bindings bs km)"
proof -
  have "keymap_wf km \<Longrightarrow> keymap_wf (fold add_binding bs km)"
    by (induction bs arbitrary: km) (auto intro: keymap_wf_add_binding)
  then show "keymap_wf km \<Longrightarrow> keymap_wf (add_bindings bs km)"
    by (simp add: add_bindings_def Let_def)
qed

lemma fold_add_binding: "km_bindings (fold add_binding bs km) = km_bindings km @ bs"
  by (induction bs arbitrary: km) (simp_all add: add_binding_def Let_def)

lemma fold_add_version: "km_version (fold add_binding bs km) = km_version km"
  by (induction bs arbitrary: km) (simp_all add: add_binding_def Let_def)

text \<open>
  Every keymap built by adding bindings and clearing keeps its indices exact, appends the
  bindings in order, and changes its version with every operation.
\<close>

theorem keymap_operations:
  assumes "keymap_wf km"
  shows "keymap_wf (keymap_new bs) \<and> keymap_wf (keymap_clear km) \<and> keymap_wf (add_bindings bs km) \<and>
    km_bindings (add_bindings bs km) = km_bindings km @ bs \<and>
    km_version (add_bindings bs km) = Suc (km_version km) \<and>
    km_version (keymap_clear km) = Suc (km_version km)"
  using assms by (auto simp: keymap_new_def keymap_wf_add_bindings)
    (simp_all add: add_bindings_def Let_def fold_add_binding fold_add_version keymap_clear_def)

text \<open>Two bindings of \<open>ctrl-c\<close>, the second a \<open>NoAction\<close> in a deeper context.\<close>

definition example_keystroke :: keybinding_keystroke where
  "example_keystroke = kb_from_keystroke Linux
     \<lparr>ks_modifiers = modifiers_control, ks_key = ''c'', ks_key_char = None\<rparr>"

definition example_bindings :: "key_binding list" where
  "example_bindings =
     [\<lparr>kbd_action = Action ''editor::Copy'' [], kbd_keystrokes = [example_keystroke],
       kbd_context_predicate = Some (Identifier ''Editor''), kbd_meta = None, kbd_action_input = None\<rparr>,
      \<lparr>kbd_action = Action ''zed::NoAction'' [], kbd_keystrokes = [example_keystroke],
       kbd_context_predicate = Some (Identifier ''Pane''), kbd_meta = None, kbd_action_input = None\<rparr>]"

theorem keymap_operations_witness:
  "keymap_wf (add_bindings example_bindings keymap_default) \<and>
   km_version (add_bindings example_bindings keymap_default) = 1"
  using keymap_operations [of keymap_default example_bindings] by (simp add: keymap_default_def [symmetric])
    (simp add: keymap_default_def)

definition disables :: "keymap \<Rightarrow> nat \<Rightarrow> nat \<Rightarrow> bool" where
  "disables km j i \<longleftrightarrow> i < j \<and> j < length (km_bindings km) \<and>
     is_no_action (kbd_action (km_bindings km ! j)) \<and>
     kbd_keystrokes (km_bindings km ! j) = kbd_keystrokes (km_bindings km ! i) \<and>
     null_binding_matches (km_bindings km ! j) (km_bindings km ! i)"

text \<open>
  C29. The lookup by action through the indices returns, in the order they were added, the
  bindings of the whole keymap for that action that no later \<open>NoAction\<close> disables.
\<close>

theorem bindings_for_action_spec:
  assumes "keymap_wf km" and "\<not> is_no_action action"
  shows "bindings_for_action km action =
    map (\<lambda>i. km_bindings km ! i)
      (filter (\<lambda>i. kbd_action (km_bindings km ! i) = action \<and> \<not> (\<exists>j. disables km j i))
        [0..<length (km_bindings km)])"
proof -
  have null: "km_no_action_indices km =
      filter (\<lambda>i. is_no_action (kbd_action (km_bindings km ! i))) [0..<length (km_bindings km)]"
    using assms(1) by (simp add: keymap_wf_def)
  have disabled: "disabled_at km i \<longleftrightarrow> (\<exists>j. disables km j i)" for i
    by (auto simp: disabled_at_def disables_def null list_ex_iff)
  have "(case km_indices km (act_type action) of None \<Rightarrow> [] | Some ixs \<Rightarrow> ixs) =
      filter (\<lambda>i. act_type (kbd_action (km_bindings km ! i)) = act_type action \<and>
         \<not> is_no_action (kbd_action (km_bindings km ! i))) [0..<length (km_bindings km)]"
    using assms(1) by (simp add: keymap_wf_def)
  then show ?thesis
    using assms(2)
    by (auto simp: bindings_for_action_def disabled intro!: arg_cong [where f = "map _"] filter_cong)
qed


theorem bindings_for_action_spec_witness:
  "bindings_for_action (keymap_new example_bindings) (Action ''editor::Copy'' []) =
     [example_bindings ! 0]"
proof -
  have wf: "keymap_wf (keymap_new example_bindings)"
    unfolding keymap_new_def by (rule keymap_wf_add_bindings) simp
  have bs: "km_bindings (keymap_new example_bindings) = example_bindings"
    by (simp add: keymap_new_def add_bindings_def Let_def fold_add_binding keymap_default_def)
  have upt: "[0..<length example_bindings] = [0, 1]" by (simp add: example_bindings_def upt_rec)
  have "\<not> disables (keymap_new example_bindings) j 0" for j
    unfolding disables_def bs
    by (auto simp: example_bindings_def null_binding_matches_def is_superset.simps less_Suc_eq)
  then show ?thesis
    using bindings_for_action_spec [OF wf, of "Action ''editor::Copy'' []"]
    by (simp add: bs upt is_no_action_def no_action_type_def) (simp add: example_bindings_def)
qed

end
