(* ===== verification/Dispatch_Tree.thy ===== *)
theory Dispatch_Tree
  imports Keymap
begin

text \<open>
  The dispatch tree of a frame, from \<open>src/src/key_dispatch.rs\<close>: the node vector with parent
  links, the three stacks kept while elements are painted, and the maps from focus and view
  ids to nodes.  Listeners are values of an abstract type \<open>'l\<close>.  Operations that unwrap or
  index return \<open>None\<close> where the code panics; the climbs along parent links are partial
  functions, total on well-formed trees.
\<close>

section \<open>State\<close>

record 'l dispatch_node =
  dn_key_listeners :: "'l list"
  dn_action_listeners :: "(string \<times> 'l) list"
  dn_modifiers_changed_listeners :: "'l list"
  dn_context :: "key_context option"
  dn_focus_id :: "nat option"
  dn_view_id :: "nat option"
  dn_parent :: "nat option"

record 'l dispatch_tree =
  dt_node_stack :: "nat list"
  dt_context_stack :: "key_context list"
  dt_view_stack :: "nat list"
  dt_nodes :: "'l dispatch_node list"
  dt_focusable_node_ids :: "nat \<rightharpoonup> nat"
  dt_view_node_ids :: "nat \<rightharpoonup> nat"

record reused_subtree =
  rs_old_start :: nat
  rs_old_end :: nat
  rs_new_start :: nat
  rs_contains_focus :: bool

definition node_default :: "'l dispatch_node" where
  "node_default = \<lparr>dn_key_listeners = [], dn_action_listeners = [],
     dn_modifiers_changed_listeners = [], dn_context = None, dn_focus_id = None,
     dn_view_id = None, dn_parent = None\<rparr>"

definition tree_new :: "'l dispatch_tree" where
  "tree_new = \<lparr>dt_node_stack = [], dt_context_stack = [], dt_view_stack = [], dt_nodes = [],
     dt_focusable_node_ids = Map.empty, dt_view_node_ids = Map.empty\<rparr>"

definition tree_clear :: "'l dispatch_tree \<Rightarrow> 'l dispatch_tree" where
  "tree_clear t = t\<lparr>dt_node_stack := [], dt_context_stack := [], dt_view_stack := [], dt_nodes := [],
     dt_focusable_node_ids := Map.empty, dt_view_node_ids := Map.empty\<rparr>"

definition stack_last :: "'a list \<Rightarrow> 'a option" where
  "stack_last xs = (if xs = [] then None else Some (last xs))"

definition active_node_id :: "'l dispatch_tree \<Rightarrow> nat option" where
  "active_node_id t = stack_last (dt_node_stack t)"

section \<open>Operations\<close>

definition push_node :: "'l dispatch_tree \<Rightarrow> nat \<times> 'l dispatch_tree" where
  "push_node t =
     (let parent = stack_last (dt_node_stack t); node_id = length (dt_nodes t)
      in (node_id, t\<lparr>dt_nodes := dt_nodes t @ [node_default\<lparr>dn_parent := parent\<rparr>],
                     dt_node_stack := dt_node_stack t @ [node_id]\<rparr>))"

definition pop_node :: "'l dispatch_tree \<Rightarrow> 'l dispatch_tree option" where
  "pop_node t =
     (case active_node_id t of
        None \<Rightarrow> None
      | Some i \<Rightarrow>
          if i < length (dt_nodes t) then
            (let node = dt_nodes t ! i in Some (t
               \<lparr>dt_context_stack := (if dn_context node \<noteq> None then butlast (dt_context_stack t)
                                    else dt_context_stack t),
                dt_view_stack := (if dn_view_id node \<noteq> None then butlast (dt_view_stack t)
                                  else dt_view_stack t),
                dt_node_stack := butlast (dt_node_stack t)\<rparr>))
          else None)"

text \<open>Writing to the active node; \<open>None\<close> if there is none.\<close>

definition update_active ::
    "('l dispatch_node \<Rightarrow> 'l dispatch_node) \<Rightarrow> 'l dispatch_tree \<Rightarrow> 'l dispatch_tree option" where
  "update_active f t =
     (case active_node_id t of
        None \<Rightarrow> None
      | Some i \<Rightarrow>
          if i < length (dt_nodes t) then Some (t\<lparr>dt_nodes := (dt_nodes t)[i := f (dt_nodes t ! i)]\<rparr>)
          else None)"

definition set_key_context :: "key_context \<Rightarrow> 'l dispatch_tree \<Rightarrow> 'l dispatch_tree option" where
  "set_key_context ctx t =
     (case update_active (\<lambda>n. n\<lparr>dn_context := Some ctx\<rparr>) t of
        None \<Rightarrow> None
      | Some t \<Rightarrow> Some (t\<lparr>dt_context_stack := dt_context_stack t @ [ctx]\<rparr>))"

definition set_focus_id :: "nat \<Rightarrow> 'l dispatch_tree \<Rightarrow> 'l dispatch_tree option" where
  "set_focus_id focus_id t =
     (case active_node_id t of
        None \<Rightarrow> None
      | Some node_id \<Rightarrow>
          (case update_active (\<lambda>n. n\<lparr>dn_focus_id := Some focus_id\<rparr>) t of
             None \<Rightarrow> None
           | Some t \<Rightarrow> Some (t\<lparr>dt_focusable_node_ids := (dt_focusable_node_ids t)(focus_id \<mapsto> node_id)\<rparr>)))"

definition set_view_id :: "nat \<Rightarrow> 'l dispatch_tree \<Rightarrow> 'l dispatch_tree option" where
  "set_view_id view_id t =
     (if stack_last (dt_view_stack t) \<noteq> Some view_id then
        (case active_node_id t of
           None \<Rightarrow> None
         | Some node_id \<Rightarrow>
             (case update_active (\<lambda>n. n\<lparr>dn_view_id := Some view_id\<rparr>) t of
                None \<Rightarrow> None
              | Some t \<Rightarrow> Some (t\<lparr>dt_view_node_ids := (dt_view_node_ids t)(view_id \<mapsto> node_id),
                                 dt_view_stack := dt_view_stack t @ [view_id]\<rparr>)))
      else Some t)"

definition on_key_event :: "'l \<Rightarrow> 'l dispatch_tree \<Rightarrow> 'l dispatch_tree option" where
  "on_key_event l t = update_active (\<lambda>n. n\<lparr>dn_key_listeners := dn_key_listeners n @ [l]\<rparr>) t"

definition on_modifiers_changed :: "'l \<Rightarrow> 'l dispatch_tree \<Rightarrow> 'l dispatch_tree option" where
  "on_modifiers_changed l t =
     update_active (\<lambda>n. n\<lparr>dn_modifiers_changed_listeners := dn_modifiers_changed_listeners n @ [l]\<rparr>) t"

definition on_action :: "string \<Rightarrow> 'l \<Rightarrow> 'l dispatch_tree \<Rightarrow> 'l dispatch_tree option" where
  "on_action action_type l t =
     update_active (\<lambda>n. n\<lparr>dn_action_listeners := dn_action_listeners n @ [(action_type, l)]\<rparr>) t"

lemma pop_node_stack: "pop_node t = Some t' \<Longrightarrow> dt_node_stack t \<noteq> [] \<and> dt_node_stack t' = butlast (dt_node_stack t)"
  by (auto simp: pop_node_def active_node_id_def stack_last_def Let_def split: if_splits option.splits)

function pop_until :: "nat option \<Rightarrow> 'l dispatch_tree \<Rightarrow> 'l dispatch_tree option" where
  "pop_until parent t =
     (if stack_last (dt_node_stack t) \<noteq> parent \<and> dt_node_stack t \<noteq> [] then
        (case pop_node t of None \<Rightarrow> None | Some t' \<Rightarrow> pop_until parent t')
      else Some t)"
  by pat_completeness auto
termination
  by (relation "measure (\<lambda>(parent, t). length (dt_node_stack t))") (auto dest!: pop_node_stack)

declare pop_until.simps [simp del]

text \<open>The climb of \<open>set_active_node\<close>, which indexes \<open>nodes\<close>, and that of \<open>dispatch_path\<close>,
  which uses \<open>get\<close>.\<close>

partial_function (option) climb :: "'l dispatch_node list \<Rightarrow> nat option \<Rightarrow> nat list option" where
  "climb nodes current =
     (case current of
        None \<Rightarrow> Some []
      | Some i \<Rightarrow>
          if i < length nodes
          then Option.bind (climb nodes (dn_parent (nodes ! i))) (\<lambda>path. Some (i # path))
          else None)"

partial_function (option) path_up :: "'l dispatch_node list \<Rightarrow> nat option \<Rightarrow> nat list option" where
  "path_up nodes current =
     (case current of
        None \<Rightarrow> Some []
      | Some i \<Rightarrow>
          Option.bind (path_up nodes (if i < length nodes then dn_parent (nodes ! i) else None))
            (\<lambda>path. Some (i # path)))"

definition set_active_node :: "nat \<Rightarrow> 'l dispatch_tree \<Rightarrow> 'l dispatch_tree option" where
  "set_active_node node_id t =
     (if node_id < length (dt_nodes t) then
        let next_node_parent = dn_parent (dt_nodes t ! node_id) in
        (case pop_until next_node_parent t of
           None \<Rightarrow> None
         | Some t \<Rightarrow>
             if stack_last (dt_node_stack t) = next_node_parent then
               (let active_node = dt_nodes t ! node_id in Some (t
                  \<lparr>dt_node_stack := dt_node_stack t @ [node_id],
                   dt_view_stack := dt_view_stack t @
                     (case dn_view_id active_node of Some v \<Rightarrow> [v] | None \<Rightarrow> []),
                   dt_context_stack := dt_context_stack t @
                     (case dn_context active_node of Some c \<Rightarrow> [c] | None \<Rightarrow> [])\<rparr>))
             else
               (case climb (dt_nodes t) (Some node_id) of
                  None \<Rightarrow> None
                | Some path \<Rightarrow> Some (t
                    \<lparr>dt_context_stack := rev (dt_context_stack t @
                        List.map_filter (\<lambda>i. dn_context (dt_nodes t ! i)) path),
                     dt_view_stack := rev (dt_view_stack t @
                        List.map_filter (\<lambda>i. dn_view_id (dt_nodes t ! i)) path),
                     dt_node_stack := rev (dt_node_stack t @ path)\<rparr>)))
      else None)"

definition dispatch_path :: "'l dispatch_tree \<Rightarrow> nat \<Rightarrow> nat list option" where
  "dispatch_path t target = map_option rev (path_up (dt_nodes t) (Some target))"

definition focus_path :: "'l dispatch_tree \<Rightarrow> nat \<Rightarrow> nat list option" where
  "focus_path t focus_id =
     map_option (\<lambda>path. rev (List.map_filter (\<lambda>i. dn_focus_id (dt_nodes t ! i)) path))
       (climb (dt_nodes t) (dt_focusable_node_ids t focus_id))"

definition view_path_reversed :: "'l dispatch_tree \<Rightarrow> nat \<Rightarrow> nat list option" where
  "view_path_reversed t view_id =
     map_option (List.map_filter (\<lambda>i. dn_view_id (dt_nodes t ! i)))
       (climb (dt_nodes t) (dt_view_node_ids t view_id))"

definition focus_contains :: "'l dispatch_tree \<Rightarrow> nat \<Rightarrow> nat \<Rightarrow> bool option" where
  "focus_contains t parent child =
     (if parent = child then Some True
      else case dt_focusable_node_ids t parent of
        None \<Rightarrow> Some False
      | Some parent_node_id \<Rightarrow>
          map_option (\<lambda>path. parent_node_id \<in> set path)
            (climb (dt_nodes t) (dt_focusable_node_ids t child)))"

definition focusable_node_id :: "'l dispatch_tree \<Rightarrow> nat \<Rightarrow> nat option" where
  "focusable_node_id t target = dt_focusable_node_ids t target"

fun remove_ids :: "'l dispatch_node list \<Rightarrow> 'l dispatch_tree \<Rightarrow> 'l dispatch_tree" where
  "remove_ids [] t = t"
| "remove_ids (node # nodes) t =
     (let t = (case dn_focus_id node of
                 Some f \<Rightarrow> t\<lparr>dt_focusable_node_ids := (dt_focusable_node_ids t)(f := None)\<rparr> | None \<Rightarrow> t);
          t = (case dn_view_id node of
                 Some v \<Rightarrow> t\<lparr>dt_view_node_ids := (dt_view_node_ids t)(v := None)\<rparr> | None \<Rightarrow> t)
      in remove_ids nodes t)"

text \<open>Slicing \<open>nodes[index..]\<close> panics beyond the end.\<close>

definition tree_truncate :: "nat \<Rightarrow> 'l dispatch_tree \<Rightarrow> 'l dispatch_tree option" where
  "tree_truncate index t =
     (if index \<le> length (dt_nodes t)
      then Some ((remove_ids (drop index (dt_nodes t)) t)\<lparr>dt_nodes := take index (dt_nodes t)\<rparr>)
      else None)"

text \<open>\<open>move_node\<close> takes the listeners out of the source node.\<close>

definition move_node ::
    "'l dispatch_node \<Rightarrow> 'l dispatch_tree \<Rightarrow> ('l dispatch_tree \<times> 'l dispatch_node) option" where
  "move_node source t =
     (let t0 = snd (push_node t) in
      Option.bind (case dn_context source of Some c \<Rightarrow> set_key_context c t0 | None \<Rightarrow> Some t0) (\<lambda>t1.
      Option.bind (case dn_focus_id source of Some f \<Rightarrow> set_focus_id f t1 | None \<Rightarrow> Some t1) (\<lambda>t2.
      Option.bind (case dn_view_id source of Some v \<Rightarrow> set_view_id v t2 | None \<Rightarrow> Some t2) (\<lambda>t3.
      Option.bind
        (update_active (\<lambda>n. n
           \<lparr>dn_key_listeners := dn_key_listeners source,
            dn_action_listeners := dn_action_listeners source,
            dn_modifiers_changed_listeners := dn_modifiers_changed_listeners source\<rparr>) t3) (\<lambda>t4.
      Some (t4, source\<lparr>dn_key_listeners := [], dn_action_listeners := [],
                       dn_modifiers_changed_listeners := []\<rparr>))))))"

text \<open>The inner loop of \<open>reuse_subtree\<close>: pop until the top of the source stack is the parent.\<close>

fun unwind_source :: "nat option \<Rightarrow> nat list \<Rightarrow> 'l dispatch_tree \<Rightarrow> (nat list \<times> 'l dispatch_tree) option"
where
  "unwind_source parent [] t = Some ([], t)"
| "unwind_source parent (source_ancestor # stack) t =
     (if parent = Some source_ancestor then Some (source_ancestor # stack, t)
      else case pop_node t of None \<Rightarrow> None | Some t \<Rightarrow> unwind_source parent stack t)"

text \<open>The outer loop over the node ids of the range; the source stack has its top in front.\<close>

fun reuse_loop ::
    "nat option \<Rightarrow> nat list \<Rightarrow> 'l dispatch_tree \<Rightarrow> nat list \<Rightarrow> bool \<Rightarrow> 'l dispatch_tree \<Rightarrow>
     (nat list \<times> bool \<times> 'l dispatch_tree \<times> 'l dispatch_tree) option" where
  "reuse_loop focus [] source stack contains_focus t = Some (stack, contains_focus, source, t)"
| "reuse_loop focus (i # ids) source stack contains_focus t =
     (let source_node = dt_nodes source ! i in
      case unwind_source (dn_parent source_node) stack t of
        None \<Rightarrow> None
      | Some (stack, t) \<Rightarrow>
          (case move_node source_node t of
             None \<Rightarrow> None
           | Some (t, source_node') \<Rightarrow>
               reuse_loop focus ids (source\<lparr>dt_nodes := (dt_nodes source)[i := source_node']\<rparr>)
                 (i # stack)
                 (if dn_focus_id source_node \<noteq> None \<and> dn_focus_id source_node = focus
                  then True else contains_focus) t))"

fun pop_all :: "nat list \<Rightarrow> 'l dispatch_tree \<Rightarrow> 'l dispatch_tree option" where
  "pop_all [] t = Some t"
| "pop_all (_ # stack) t = (case pop_node t of None \<Rightarrow> None | Some t \<Rightarrow> pop_all stack t)"

definition reuse_subtree ::
    "nat \<Rightarrow> nat \<Rightarrow> 'l dispatch_tree \<Rightarrow> nat option \<Rightarrow> 'l dispatch_tree \<Rightarrow>
     (reused_subtree \<times> 'l dispatch_tree \<times> 'l dispatch_tree) option" where
  "reuse_subtree old_start old_end source focus t =
     (let ids = take (old_end - old_start) (drop old_start [0..<length (dt_nodes source)]) in
      case reuse_loop focus ids source [] False t of
        None \<Rightarrow> None
      | Some (stack, contains_focus, source, t') \<Rightarrow>
          (case pop_all stack t' of
             None \<Rightarrow> None
           | Some t'' \<Rightarrow> Some (\<lparr>rs_old_start = old_start, rs_old_end = old_end,
                 rs_new_start = length (dt_nodes t), rs_contains_focus = contains_focus\<rparr>, source, t'')))"

text \<open>
  \<open>refresh_node_id\<close>; a build with debug assertions (\<open>dbg\<close>) panics outside the old range, and in any build the
  subtraction underflows, and panics, below it.
\<close>

definition refresh_node_id :: "bool \<Rightarrow> reused_subtree \<Rightarrow> nat \<Rightarrow> nat option" where
  "refresh_node_id dbg rs node_id =
     (if rs_old_start rs \<le> node_id \<and> (dbg \<longrightarrow> node_id < rs_old_end rs) then Some (node_id - rs_old_start rs + rs_new_start rs) else None)"

section \<open>Chains of parents\<close>

text \<open>\<open>chain nodes path\<close>: \<open>path\<close> leads from its first node up to a root, link by link.\<close>

fun chain :: "'l dispatch_node list \<Rightarrow> nat list \<Rightarrow> bool" where
  "chain nodes [] = True"
| "chain nodes (i # path) =
     (i < length nodes \<and> dn_parent (nodes ! i) = (case path of [] \<Rightarrow> None | p # _ \<Rightarrow> Some p) \<and>
      chain nodes path)"

definition parents_below :: "'l dispatch_node list \<Rightarrow> bool" where
  "parents_below nodes \<longleftrightarrow>
     (\<forall>i < length nodes. case dn_parent (nodes ! i) of Some p \<Rightarrow> p < i | None \<Rightarrow> True)"

lemma chain_exists:
  "parents_below nodes \<Longrightarrow> i < length nodes \<Longrightarrow> \<exists>path. chain nodes (i # path)"
proof (induction i rule: less_induct)
  case (less i)
  show ?case
  proof (cases "dn_parent (nodes ! i)")
    case None
    with less.prems have "chain nodes [i]" by simp
    then show ?thesis by blast
  next
    case (Some p)
    with less.prems have "p < i" by (auto simp: parents_below_def)
    with less obtain path where "chain nodes (p # path)" by force
    with Some less.prems have "chain nodes (i # p # path)" by simp
    then show ?thesis by blast
  qed
qed

lemma chain_unique: "chain nodes (i # p) \<Longrightarrow> chain nodes (i # q) \<Longrightarrow> p = q"
proof (induction p arbitrary: i q)
  case Nil
  then show ?case by (cases q) auto
next
  case (Cons j p)
  then show ?case by (cases q) auto
qed

lemma climb_chain: "chain nodes (i # path) \<Longrightarrow> climb nodes (Some i) = Some (i # path)"
proof (induction path arbitrary: i)
  case Nil
  then show ?case by (subst climb.simps) (simp add: climb.simps)
next
  case (Cons j path)
  then show ?case by (subst climb.simps) simp
qed

lemma path_up_chain: "chain nodes (i # path) \<Longrightarrow> path_up nodes (Some i) = Some (i # path)"
proof (induction path arbitrary: i)
  case Nil
  then show ?case by (subst path_up.simps) (simp add: path_up.simps)
next
  case (Cons j path)
  then show ?case by (subst path_up.simps) simp
qed

lemma chain_decreasing:
  "parents_below nodes \<Longrightarrow> chain nodes path \<Longrightarrow> sorted_wrt (>) path"
proof (induction path)
  case (Cons i path)
  show ?case
  proof (cases path)
    case (Cons p rest)
    with Cons.prems have "p < i" by (auto simp: parents_below_def)
    moreover have "sorted_wrt (>) (p # rest)" using Cons.IH Cons.prems Cons by simp
    ultimately show ?thesis using Cons by auto
  qed simp
qed simp

text \<open>
  C23. In a tree whose parents come before their children, \<open>dispatch_path\<close> of a node returns,
  as the path that starts at a root, follows parent links without repeating a node, and ends
  at the node.
\<close>

theorem dispatch_path_correct:
  assumes "parents_below (dt_nodes t)" and "target < length (dt_nodes t)"
  shows "\<exists>path. dispatch_path t target = Some path \<and> path \<noteq> [] \<and> last path = target \<and>
    dn_parent (dt_nodes t ! hd path) = None \<and> sorted_wrt (<) path \<and>
    \<not> (\<exists>i. Suc i < length path \<and> dn_parent (dt_nodes t ! (path ! Suc i)) \<noteq> Some (path ! i))"
proof -
  obtain up where up: "chain (dt_nodes t) (target # up)" using chain_exists [OF assms] by blast
  have root: "chain nodes p \<Longrightarrow> p \<noteq> [] \<Longrightarrow> dn_parent (nodes ! last p) = None" for nodes :: "'a dispatch_node list" and p
    by (induction p) (auto split: list.splits)
  have link: "chain nodes p \<Longrightarrow> Suc i < length p \<Longrightarrow> dn_parent (nodes ! (p ! i)) = Some (p ! Suc i)"
    for nodes :: "'a dispatch_node list" and p i
    by (induction p arbitrary: i) (auto simp: nth_Cons split: nat.splits list.splits)
  let ?path = "rev (target # up)"
  have "dn_parent (dt_nodes t ! (?path ! Suc i)) = Some (?path ! i)" if "Suc i < length ?path" for i
  proof -
    have "Suc (length up - Suc i) < length (target # up)" "Suc (length up - Suc i) = length up - i"
      using that by auto
    with link [OF up, of "length up - Suc i"] that show ?thesis
      by (simp add: rev_nth del: rev.simps)
  qed
  moreover have "dispatch_path t target = Some ?path"
    using path_up_chain [OF up] by (simp add: dispatch_path_def)
  moreover have "dn_parent (dt_nodes t ! hd ?path) = None"
    using root [OF up] by (simp add: hd_rev del: rev.simps)
  moreover have "sorted_wrt (<) ?path"
    using chain_decreasing [OF assms(1) up] by (simp add: sorted_wrt_rev del: rev.simps)
  ultimately show ?thesis by (intro exI [of _ ?path]) auto
qed

end
