(* ===== verification/Dispatch_Tree_Inv.thy ===== *)
theory Dispatch_Tree_Inv
  imports Dispatch_Tree
begin

text \<open>
  The invariant that ties the three stacks of \<open>DispatchTree\<close> to its nodes: parents precede
  their children, the node stack is the path from a root to the active node, and the context
  and view stacks hold what the nodes on that path carry.  Every operation keeps it when used
  as the element tree uses it (one key context and one view per node), \<open>set_active_node\<close>
  establishes the stacks of any node, and \<open>reuse_subtree\<close> copies a range of another tree.
\<close>

section \<open>The invariant\<close>

definition stack_contexts :: "'l dispatch_node list \<Rightarrow> nat list \<Rightarrow> key_context list" where
  "stack_contexts nodes ids = List.map_filter (\<lambda>i. dn_context (nodes ! i)) ids"

definition stack_views :: "'l dispatch_node list \<Rightarrow> nat list \<Rightarrow> nat list" where
  "stack_views nodes ids = List.map_filter (\<lambda>i. dn_view_id (nodes ! i)) ids"

definition tree_wf :: "'l dispatch_tree \<Rightarrow> bool" where
  "tree_wf t \<longleftrightarrow> parents_below (dt_nodes t) \<and> chain (dt_nodes t) (rev (dt_node_stack t)) \<and>
     dt_context_stack t = stack_contexts (dt_nodes t) (dt_node_stack t) \<and>
     dt_view_stack t = stack_views (dt_nodes t) (dt_node_stack t)"

lemma map_filter_append: "List.map_filter f (xs @ ys) = List.map_filter f xs @ List.map_filter f ys"
  by (induction xs) (simp_all add: List.map_filter_simps split: option.split)

lemma map_filter_rev: "List.map_filter f (rev xs) = rev (List.map_filter f xs)"
  by (induction xs) (simp_all add: List.map_filter_simps map_filter_append split: option.split)

lemma map_filter_cong:
  "(\<And>x. x \<in> set xs \<Longrightarrow> f x = g x) \<Longrightarrow> List.map_filter f xs = List.map_filter g xs"
  by (induction xs) (simp_all add: List.map_filter_simps split: option.split)

lemma node_default_simps [simp]:
  "dn_context node_default = None" "dn_focus_id node_default = None"
  "dn_view_id node_default = None" "dn_parent node_default = None"
  by (simp_all add: node_default_def)

lemma stack_last_simps [simp]:
  "stack_last [] = None" "stack_last (xs @ [x]) = Some x"
  by (simp_all add: stack_last_def)

lemma stack_last_hd_rev: "stack_last xs = (case rev xs of [] \<Rightarrow> None | x # _ \<Rightarrow> Some x)"
  by (cases xs rule: rev_cases) simp_all

lemma chain_bound: "chain nodes path \<Longrightarrow> i \<in> set path \<Longrightarrow> i < length nodes"
  by (induction path) auto

lemma chain_same_parents:
  "length nodes \<le> length nodes' \<Longrightarrow> (\<And>i. i < length nodes \<Longrightarrow> dn_parent (nodes' ! i) = dn_parent (nodes ! i)) \<Longrightarrow>
   chain nodes path \<Longrightarrow> chain nodes' path"
  by (induction path) auto

lemma tree_wf_new [simp]: "tree_wf tree_new"
  by (simp add: tree_wf_def tree_new_def parents_below_def stack_contexts_def stack_views_def
      List.map_filter_simps)

lemma tree_wf_clear [simp]: "tree_wf (tree_clear t)"
  by (simp add: tree_wf_def tree_clear_def parents_below_def stack_contexts_def stack_views_def
      List.map_filter_simps)

section \<open>Operations that keep it\<close>

lemma tree_wf_push_node:
  assumes "tree_wf t"
  shows "tree_wf (snd (push_node t))"
proof -
  let ?n = "length (dt_nodes t)"
  let ?nodes = "dt_nodes t @ [node_default\<lparr>dn_parent := stack_last (dt_node_stack t)\<rparr>]"
  have bound: "i < ?n" if "i \<in> set (dt_node_stack t)" for i
    using assms that chain_bound [of "dt_nodes t" "rev (dt_node_stack t)" i] by (simp add: tree_wf_def)
  have last: "p < ?n" if "stack_last (dt_node_stack t) = Some p" for p
    using bound that by (auto simp: stack_last_def split: if_splits)
  have "parents_below ?nodes"
    using assms last by (auto simp: tree_wf_def parents_below_def nth_append less_Suc_eq split: option.split)
  moreover have "chain ?nodes (rev (dt_node_stack t))"
    using assms by (auto simp: tree_wf_def nth_append intro!: chain_same_parents [of "dt_nodes t"])
  then have "chain ?nodes (?n # rev (dt_node_stack t))"
    by (simp add: nth_append stack_last_hd_rev)
  moreover have "stack_contexts ?nodes (dt_node_stack t) = stack_contexts (dt_nodes t) (dt_node_stack t)"
    "stack_views ?nodes (dt_node_stack t) = stack_views (dt_nodes t) (dt_node_stack t)"
    unfolding stack_contexts_def stack_views_def
    using bound by (auto simp: nth_append intro!: map_filter_cong)
  moreover have "stack_contexts ?nodes [?n] = []" "stack_views ?nodes [?n] = []"
    by (simp_all add: stack_contexts_def stack_views_def List.map_filter_simps)
  moreover have "stack_contexts ?nodes (xs @ ys) = stack_contexts ?nodes xs @ stack_contexts ?nodes ys"
    "stack_views ?nodes (xs @ ys) = stack_views ?nodes xs @ stack_views ?nodes ys" for xs ys
    by (simp_all add: stack_contexts_def stack_views_def map_filter_append)
  moreover have "dt_nodes (snd (push_node t)) = ?nodes" "dt_node_stack (snd (push_node t)) = dt_node_stack t @ [?n]"
    "dt_context_stack (snd (push_node t)) = dt_context_stack t" "dt_view_stack (snd (push_node t)) = dt_view_stack t"
    by (simp_all add: push_node_def Let_def)
  ultimately show ?thesis
    using assms unfolding tree_wf_def by (simp only: rev_append rev.simps append.simps append_Nil2)
qed

lemma tree_wf_active:
  "tree_wf t \<Longrightarrow> dt_node_stack t \<noteq> [] \<Longrightarrow>
   \<exists>ids i. dt_node_stack t = ids @ [i] \<and> i < length (dt_nodes t) \<and> active_node_id t = Some i"
  by (cases "dt_node_stack t" rule: rev_cases) (auto simp: tree_wf_def active_node_id_def)

lemma pop_node_wf:
  assumes "tree_wf t" and "dt_node_stack t \<noteq> []"
  shows "\<exists>t'. pop_node t = Some t' \<and> tree_wf t' \<and> dt_nodes t' = dt_nodes t \<and>
    dt_node_stack t' = butlast (dt_node_stack t) \<and>
    dt_focusable_node_ids t' = dt_focusable_node_ids t \<and> dt_view_node_ids t' = dt_view_node_ids t"
proof -
  obtain ids i where i: "dt_node_stack t = ids @ [i]" "i < length (dt_nodes t)" "active_node_id t = Some i"
    using tree_wf_active [OF assms] by blast
  with assms(1) show ?thesis
    by (auto simp: pop_node_def tree_wf_def Let_def stack_contexts_def stack_views_def
        map_filter_append List.map_filter_simps split: option.splits)
qed

text \<open>Updating the active node without touching its parent.\<close>

lemma update_active_Some:
  assumes "tree_wf t" and "dt_node_stack t = ids @ [i]"
  shows "update_active f t = Some (t\<lparr>dt_nodes := (dt_nodes t)[i := f (dt_nodes t ! i)]\<rparr>)"
  using tree_wf_active [of t] assms by (auto simp: update_active_def active_node_id_def)

lemma not_below_on_stack:
  assumes "tree_wf t" and "dt_node_stack t = ids @ [i]"
  shows "i \<notin> set ids" "i < length (dt_nodes t)"
proof -
  from assms have "chain (dt_nodes t) (i # rev ids)" "parents_below (dt_nodes t)"
    by (simp_all add: tree_wf_def)
  with chain_decreasing [of "dt_nodes t" "i # rev ids"] show "i \<notin> set ids" "i < length (dt_nodes t)"
    by auto
qed

lemma tree_wf_update:
  assumes "tree_wf t" and "dt_node_stack t = ids @ [i]" and "\<And>n. dn_parent (f n) = dn_parent n"
    and "dt_nodes t' = (dt_nodes t)[i := f (dt_nodes t ! i)]" "dt_node_stack t' = dt_node_stack t"
    and "dt_context_stack t' = stack_contexts (dt_nodes t) ids @
        (case dn_context (f (dt_nodes t ! i)) of None \<Rightarrow> [] | Some c \<Rightarrow> [c])"
    and "dt_view_stack t' = stack_views (dt_nodes t) ids @
        (case dn_view_id (f (dt_nodes t ! i)) of None \<Rightarrow> [] | Some v \<Rightarrow> [v])"
  shows "tree_wf t'"
proof -
  note i = not_below_on_stack [OF assms(1,2)]
  let ?nodes = "(dt_nodes t)[i := f (dt_nodes t ! i)]"
  have parents: "dn_parent (?nodes ! j) = dn_parent (dt_nodes t ! j)" if "j < length (dt_nodes t)" for j
    using that by (cases "i = j") (simp_all add: assms(3))
  have "parents_below ?nodes"
    using assms(1) parents by (auto simp: tree_wf_def parents_below_def split: option.splits)
  moreover have "chain ?nodes (rev (dt_node_stack t))"
    using assms(1) by (auto simp: tree_wf_def intro: chain_same_parents [of "dt_nodes t"] parents)
  moreover have "stack_contexts ?nodes ids = stack_contexts (dt_nodes t) ids"
    "stack_views ?nodes ids = stack_views (dt_nodes t) ids"
    unfolding stack_contexts_def stack_views_def
    using i by (auto intro!: map_filter_cong simp: nth_list_update)
  ultimately show ?thesis
    using i(2) assms(2) assms(4-)
    by (simp add: tree_wf_def stack_contexts_def stack_views_def map_filter_append
        List.map_filter_simps split: option.split)
qed

lemma tree_wf_stacks:
  assumes "tree_wf t" and "dt_node_stack t = ids @ [i]"
  shows "dt_context_stack t = stack_contexts (dt_nodes t) ids @
      (case dn_context (dt_nodes t ! i) of None \<Rightarrow> [] | Some c \<Rightarrow> [c])"
    and "dt_view_stack t = stack_views (dt_nodes t) ids @
      (case dn_view_id (dt_nodes t ! i) of None \<Rightarrow> [] | Some v \<Rightarrow> [v])"
  using assms by (auto simp: tree_wf_def stack_contexts_def stack_views_def map_filter_append
      List.map_filter_simps split: option.split)

text \<open>Each operation on the active node, with its precondition.\<close>

lemma tree_wf_listener_update:
  assumes "tree_wf t" and "dt_node_stack t = ids @ [i]"
    and "\<And>n. dn_parent (f n) = dn_parent n" "\<And>n. dn_context (f n) = dn_context n"
      "\<And>n. dn_view_id (f n) = dn_view_id n"
  shows "tree_wf (t\<lparr>dt_nodes := (dt_nodes t)[i := f (dt_nodes t ! i)]\<rparr>)"
  by (rule tree_wf_update [OF assms(1,2), of f])
    (simp_all add: assms(3-) tree_wf_stacks [OF assms(1,2)])

lemma set_key_context_wf:
  assumes "tree_wf t" and "dt_node_stack t = ids @ [i]" and "dn_context (dt_nodes t ! i) = None"
  shows "\<exists>t'. set_key_context c t = Some t' \<and> tree_wf t' \<and> dt_node_stack t' = dt_node_stack t \<and>
    dt_nodes t' = (dt_nodes t)[i := (dt_nodes t ! i)\<lparr>dn_context := Some c\<rparr>] \<and>
    dt_view_stack t' = dt_view_stack t"
proof -
  have "tree_wf (t\<lparr>dt_nodes := (dt_nodes t)[i := (dt_nodes t ! i)\<lparr>dn_context := Some c\<rparr>],
      dt_context_stack := dt_context_stack t @ [c]\<rparr>)"
    by (rule tree_wf_update [OF assms(1,2), of "dn_context_update (\<lambda>_. Some c)"])
      (simp_all add: assms(3) tree_wf_stacks [OF assms(1,2)])
  then show ?thesis by (simp add: set_key_context_def update_active_Some [OF assms(1,2)])
qed

lemma set_focus_id_wf:
  assumes "tree_wf t" and "dt_node_stack t = ids @ [i]"
  shows "\<exists>t'. set_focus_id f t = Some t' \<and> tree_wf t' \<and> dt_node_stack t' = dt_node_stack t \<and>
    dt_nodes t' = (dt_nodes t)[i := (dt_nodes t ! i)\<lparr>dn_focus_id := Some f\<rparr>] \<and>
    dt_focusable_node_ids t' = (dt_focusable_node_ids t)(f \<mapsto> i) \<and> dt_view_stack t' = dt_view_stack t"
proof -
  have "tree_wf (t\<lparr>dt_nodes := (dt_nodes t)[i := (dt_nodes t ! i)\<lparr>dn_focus_id := Some f\<rparr>],
      dt_focusable_node_ids := (dt_focusable_node_ids t)(f \<mapsto> i)\<rparr>)"
    by (rule tree_wf_update [OF assms, of "dn_focus_id_update (\<lambda>_. Some f)"])
      (simp_all add: tree_wf_stacks [OF assms])
  with assms(2) show ?thesis
    by (simp add: set_focus_id_def update_active_Some [OF assms] active_node_id_def)
qed

lemma set_view_id_wf:
  assumes "tree_wf t" and "dt_node_stack t = ids @ [i]" and "dn_view_id (dt_nodes t ! i) = None"
  shows "\<exists>t'. set_view_id v t = Some t' \<and> tree_wf t' \<and> dt_node_stack t' = dt_node_stack t \<and>
    (\<exists>w. dt_nodes t' = (dt_nodes t)[i := (dt_nodes t ! i)\<lparr>dn_view_id := w\<rparr>])"
proof (cases "stack_last (dt_view_stack t) = Some v")
  case True
  have "dt_nodes t = (dt_nodes t)[i := (dt_nodes t ! i)\<lparr>dn_view_id := None\<rparr>]"
    using assms(3) by (metis dispatch_node.surjective dispatch_node.update_convs(6) list_update_id)
  with True assms(1) show ?thesis by (auto simp: set_view_id_def)
next
  case False
  let ?f = "dn_view_id_update (\<lambda>_. Some v)"
  have "tree_wf (t\<lparr>dt_nodes := (dt_nodes t)[i := ?f (dt_nodes t ! i)],
      dt_view_node_ids := (dt_view_node_ids t)(v \<mapsto> i), dt_view_stack := dt_view_stack t @ [v]\<rparr>)"
    by (rule tree_wf_update [OF assms(1,2), of ?f])
      (simp_all add: assms(3) tree_wf_stacks [OF assms(1,2)])
  with False assms(2) show ?thesis
    by (auto simp: set_view_id_def update_active_Some [OF assms(1,2)] active_node_id_def)
qed

section \<open>Returning to a node\<close>

lemma pop_until_wf:
  "tree_wf t \<Longrightarrow> \<exists>t'. pop_until p t = Some t' \<and> tree_wf t' \<and> dt_nodes t' = dt_nodes t \<and>
     (stack_last (dt_node_stack t') = p \<or> dt_node_stack t' = [])"
proof (induction "length (dt_node_stack t)" arbitrary: t rule: less_induct)
  case less
  show ?case
  proof (cases "stack_last (dt_node_stack t) \<noteq> p \<and> dt_node_stack t \<noteq> []")
    case True
    with pop_node_wf [OF less.prems] obtain t' where t': "pop_node t = Some t'" "tree_wf t'"
      "dt_nodes t' = dt_nodes t" "dt_node_stack t' = butlast (dt_node_stack t)"
      by blast
    with True have "length (dt_node_stack t') < length (dt_node_stack t)" by simp
    from less.hyps [OF this t'(2)] obtain t'' where "pop_until p t' = Some t''" "tree_wf t''"
      "dt_nodes t'' = dt_nodes t'" "stack_last (dt_node_stack t'') = p \<or> dt_node_stack t'' = []"
      by blast
    with t' True show ?thesis by (subst pop_until.simps) simp
  next
    case False
    with less.prems show ?thesis by (subst pop_until.simps) auto
  qed
qed

lemma set_active_node_wf:
  assumes "tree_wf t" and "node_id < length (dt_nodes t)"
  shows "\<exists>t'. set_active_node node_id t = Some t' \<and> tree_wf t' \<and> dt_nodes t' = dt_nodes t \<and>
    dispatch_path t' node_id = Some (dt_node_stack t')"
proof -
  let ?parent = "dn_parent (dt_nodes t ! node_id)"
  obtain t1 where t1: "pop_until ?parent t = Some t1" "tree_wf t1" "dt_nodes t1 = dt_nodes t"
    "stack_last (dt_node_stack t1) = ?parent \<or> dt_node_stack t1 = []"
    using pop_until_wf [OF assms(1)] by blast
  have parents: "parents_below (dt_nodes t)" using assms(1) by (simp add: tree_wf_def)
  show ?thesis
  proof (cases "stack_last (dt_node_stack t1) = ?parent")
    case True
    then have "chain (dt_nodes t) (rev (dt_node_stack t1 @ [node_id]))"
      using t1(2,3) assms(2) by (simp add: tree_wf_def stack_last_hd_rev)
    moreover from this have "path_up (dt_nodes t) (Some node_id) = Some (node_id # rev (dt_node_stack t1))"
      by (intro path_up_chain) simp
    ultimately show ?thesis
      using t1 assms(2) True parents
      by (auto simp: set_active_node_def Let_def tree_wf_def dispatch_path_def stack_contexts_def
          stack_views_def map_filter_append List.map_filter_simps split: option.split)
  next
    case False
    with t1(4) have empty: "dt_node_stack t1 = []" by simp
    with t1(2) have empty': "dt_context_stack t1 = []" "dt_view_stack t1 = []"
      by (simp_all add: tree_wf_def stack_contexts_def stack_views_def List.map_filter_simps)
    obtain up where up: "chain (dt_nodes t) (node_id # up)" using chain_exists [OF parents assms(2)] by blast
    show ?thesis
      using t1 False empty empty' assms(2) parents up climb_chain [OF up] path_up_chain [OF up]
      by (simp add: set_active_node_def Let_def tree_wf_def dispatch_path_def stack_contexts_def
          stack_views_def map_filter_rev del: rev.simps chain.simps)
  qed
qed

text \<open>
  C16. From any well-formed tree, \<open>set_active_node\<close> succeeds for every node, keeps the nodes,
  and leaves the node stack equal to the node's dispatch path, with the context and view
  stacks that belong to it.
\<close>

theorem set_active_node_correct:
  assumes "tree_wf t" and "node_id < length (dt_nodes t)"
  shows "\<exists>t'. set_active_node node_id t = Some t' \<and> tree_wf t' \<and> dt_nodes t' = dt_nodes t \<and>
    dispatch_path t' node_id = Some (dt_node_stack t')"
  by (rule set_active_node_wf [OF assms])

section \<open>Moving a node and reusing a subtree\<close>

lemma update_active_wf:
  assumes "tree_wf t" and "dt_node_stack t = ids @ [i]"
    and "\<And>n. dn_parent (f n) = dn_parent n" "\<And>n. dn_context (f n) = dn_context n"
      "\<And>n. dn_view_id (f n) = dn_view_id n"
  shows "\<exists>t'. update_active f t = Some t' \<and> tree_wf t' \<and> dt_node_stack t' = dt_node_stack t \<and>
    dt_nodes t' = (dt_nodes t)[i := f (dt_nodes t ! i)]"
  using tree_wf_listener_update [OF assms] by (simp add: update_active_Some [OF assms(1,2)])

definition without_listeners :: "'l dispatch_node \<Rightarrow> 'l dispatch_node" where
  "without_listeners n = n\<lparr>dn_key_listeners := [], dn_action_listeners := [],
     dn_modifiers_changed_listeners := []\<rparr>"

text \<open>A node's copy: the view is left out if it is the innermost view around the copy.\<close>

definition node_copy :: "nat option \<Rightarrow> nat option \<Rightarrow> 'l dispatch_node \<Rightarrow> 'l dispatch_node" where
  "node_copy parent v source =
     source\<lparr>dn_parent := parent, dn_view_id := (if dn_view_id source = v then None else dn_view_id source)\<rparr>"

definition add_id :: "nat option \<Rightarrow> nat \<Rightarrow> (nat \<rightharpoonup> nat) \<Rightarrow> (nat \<rightharpoonup> nat)" where
  "add_id x i m = (case x of Some f \<Rightarrow> m(f \<mapsto> i) | None \<Rightarrow> m)"

definition list_of_option :: "'x option \<Rightarrow> 'x list" where
  "list_of_option x = (case x of Some y \<Rightarrow> [y] | None \<Rightarrow> [])"

text \<open>What \<open>move_node\<close> does, in one step.\<close>

definition with_node :: "'l dispatch_node \<Rightarrow> 'l dispatch_tree \<Rightarrow> 'l dispatch_tree" where
  "with_node n t = (let i = length (dt_nodes t) in t
     \<lparr>dt_nodes := dt_nodes t @ [n], dt_node_stack := dt_node_stack t @ [i],
      dt_context_stack := dt_context_stack t @ list_of_option (dn_context n),
      dt_view_stack := dt_view_stack t @ list_of_option (dn_view_id n),
      dt_focusable_node_ids := add_id (dn_focus_id n) i (dt_focusable_node_ids t),
      dt_view_node_ids := add_id (dn_view_id n) i (dt_view_node_ids t)\<rparr>)"

lemma move_node_is:
  "move_node source t = Some (with_node (node_copy (stack_last (dt_node_stack t)) (stack_last (dt_view_stack t)) source) t, without_listeners source)"
  by (cases "dn_context source"; cases "dn_focus_id source"; cases "dn_view_id source")
    (auto simp: move_node_def push_node_def set_key_context_def set_focus_id_def set_view_id_def update_active_def active_node_id_def
      with_node_def node_copy_def node_default_def add_id_def list_of_option_def without_listeners_def list_update_append nth_append Let_def
      intro!: dispatch_node.equality dispatch_tree.equality)

lemma tree_wf_with_node:
  assumes "tree_wf t" and "dn_parent n = stack_last (dt_node_stack t)"
  shows "tree_wf (with_node n t)"
proof -
  let ?i = "length (dt_nodes t)" and ?nodes = "dt_nodes t @ [n]"
  have bound: "i < ?i" if "i \<in> set (dt_node_stack t)" for i
    using assms(1) that chain_bound [of "dt_nodes t" "rev (dt_node_stack t)" i] by (simp add: tree_wf_def)
  have below: "p < ?i" if "dn_parent n = Some p" for p
    using bound that assms(2) by (auto simp: stack_last_def split: if_splits)
  have "parents_below ?nodes"
    using assms(1) below by (auto simp: tree_wf_def parents_below_def nth_append less_Suc_eq split: option.split)
  moreover have "chain ?nodes (rev (dt_node_stack t))"
    using assms(1) by (auto simp: tree_wf_def nth_append intro!: chain_same_parents [of "dt_nodes t"])
  then have "chain ?nodes (?i # rev (dt_node_stack t))"
    using assms(2) by (simp add: nth_append stack_last_hd_rev)
  moreover have "stack_contexts ?nodes (dt_node_stack t) = stack_contexts (dt_nodes t) (dt_node_stack t)"
    "stack_views ?nodes (dt_node_stack t) = stack_views (dt_nodes t) (dt_node_stack t)"
    unfolding stack_contexts_def stack_views_def
    using bound by (auto simp: nth_append intro!: map_filter_cong)
  ultimately show ?thesis
    using assms(1) by (simp add: tree_wf_def with_node_def Let_def stack_contexts_def stack_views_def map_filter_append
        List.map_filter_simps list_of_option_def split: option.split)
qed

text \<open>The innermost view around a place below a node, or at the root.\<close>

definition view_around :: "'l dispatch_node list \<Rightarrow> nat option \<Rightarrow> nat option" where
  "view_around nodes parent = Option.bind (climb nodes parent)
     (\<lambda>path. case List.map_filter (\<lambda>i. dn_view_id (nodes ! i)) path of [] \<Rightarrow> None | v # _ \<Rightarrow> Some v)"

lemma climb_rev_stack: "chain nodes (rev ids) \<Longrightarrow> climb nodes (stack_last ids) = Some (rev ids)"
  by (cases ids rule: rev_cases) (simp_all add: climb.simps [of _ None] climb_chain)

lemma view_around_chain:
  "chain nodes (rev ids) \<Longrightarrow> view_around nodes (stack_last ids) = stack_last (stack_views nodes ids)"
  unfolding view_around_def stack_views_def stack_last_hd_rev [of "List.map_filter (\<lambda>i. dn_view_id (nodes ! i)) ids"]
  by (simp add: climb_rev_stack map_filter_rev)

lemma view_around_grown:
  assumes "tree_wf t"
  shows "view_around (dt_nodes t @ ns) (stack_last (dt_node_stack t)) = stack_last (dt_view_stack t)"
proof -
  have chain: "chain (dt_nodes t) (rev (dt_node_stack t))" using assms by (simp add: tree_wf_def)
  then have "chain (dt_nodes t @ ns) (rev (dt_node_stack t))"
    by (rule chain_same_parents [rotated 2]) (simp_all add: nth_append)
  moreover have "stack_views (dt_nodes t @ ns) (dt_node_stack t) = stack_views (dt_nodes t) (dt_node_stack t)"
    unfolding stack_views_def using chain_bound [OF chain] by (intro map_filter_cong) (simp add: nth_append)
  ultimately show ?thesis using assms by (simp add: view_around_chain tree_wf_def)
qed

text \<open>A copy among the nodes of its tree: all data of its source, with the view unless the copy is inside that view.\<close>

definition copy_of :: "'l dispatch_node list \<Rightarrow> 'l dispatch_node \<Rightarrow> 'l dispatch_node \<Rightarrow> bool" where
  "copy_of nodes source n \<longleftrightarrow> n = node_copy (dn_parent n) (view_around nodes (dn_parent n)) source"

text \<open>The ids of nodes that come after the first \<open>i\<close>, in a map from ids to nodes.\<close>

fun add_ids :: "('l dispatch_node \<Rightarrow> nat option) \<Rightarrow> nat \<Rightarrow> 'l dispatch_node list \<Rightarrow> (nat \<rightharpoonup> nat) \<Rightarrow> (nat \<rightharpoonup> nat)" where
  "add_ids sel i [] m = m"
| "add_ids sel i (n # ns) m = add_ids sel (Suc i) ns (add_id (sel n) i m)"

lemma copy_of_moved:
  assumes "tree_wf t" and "dt_nodes t' = (dt_nodes t @ [n]) @ ns"
    and "n = node_copy (stack_last (dt_node_stack t)) (stack_last (dt_view_stack t)) source"
  shows "copy_of (dt_nodes t') source n"
  using view_around_grown [OF assms(1), of "n # ns"] assms(2,3) by (simp add: copy_of_def node_copy_def)

lemma with_node_simps:
  "dt_nodes (with_node n t) = dt_nodes t @ [n]" "dt_node_stack (with_node n t) = dt_node_stack t @ [length (dt_nodes t)]"
  "dt_focusable_node_ids (with_node n t) = add_id (dn_focus_id n) (length (dt_nodes t)) (dt_focusable_node_ids t)"
  "dt_view_node_ids (with_node n t) = add_id (dn_view_id n) (length (dt_nodes t)) (dt_view_node_ids t)"
  by (simp_all add: with_node_def Let_def)

text \<open>Trees with the same nodes and the same maps from ids.\<close>

definition same_nodes :: "'l dispatch_tree \<Rightarrow> 'l dispatch_tree \<Rightarrow> bool" where
  "same_nodes t t' \<longleftrightarrow> dt_nodes t' = dt_nodes t \<and> dt_focusable_node_ids t' = dt_focusable_node_ids t \<and>
     dt_view_node_ids t' = dt_view_node_ids t"

lemma pop_node_top:
  assumes "tree_wf t" and "dt_node_stack t = ids @ [i]"
  obtains t' where "pop_node t = Some t'" "tree_wf t'" "same_nodes t t'" "dt_node_stack t' = ids"
  using pop_node_wf [OF assms(1)] assms(2) by (auto simp: same_nodes_def)

text \<open>
  While a range is copied, the target's stack is the stack found at the call below the copies
  \<open>r x\<close> of the nodes \<open>x\<close> on the source stack.
\<close>

lemma unwind_source_wf:
  "tree_wf t \<Longrightarrow> dt_node_stack t = base @ rev (map r stack) \<Longrightarrow>
   \<exists>t'. unwind_source p stack t = Some (dropWhile (\<lambda>x. p \<noteq> Some x) stack, t') \<and> tree_wf t' \<and>
     same_nodes t t' \<and> dt_node_stack t' = base @ rev (map r (dropWhile (\<lambda>x. p \<noteq> Some x) stack))"
proof (induction stack arbitrary: t)
  case (Cons x stack)
  show ?case
  proof (cases "p = Some x")
    case False
    have "dt_node_stack t = (base @ rev (map r stack)) @ [r x]" using Cons.prems(2) by simp
    from pop_node_top [OF Cons.prems(1) this] obtain t1 where "pop_node t = Some t1" "tree_wf t1"
      "same_nodes t t1" "dt_node_stack t1 = base @ rev (map r stack)" .
    with Cons.IH [of t1] False show ?thesis by (auto simp: same_nodes_def)
  qed (use Cons.prems in \<open>simp add: same_nodes_def\<close>)
qed (simp add: same_nodes_def)

lemma pop_all_wf:
  "tree_wf t \<Longrightarrow> dt_node_stack t = base @ rev (map r stack) \<Longrightarrow>
   \<exists>t'. pop_all stack t = Some t' \<and> tree_wf t' \<and> same_nodes t t' \<and> dt_node_stack t' = base"
proof (induction stack arbitrary: t)
  case (Cons x stack)
  have "dt_node_stack t = (base @ rev (map r stack)) @ [r x]" using Cons.prems(2) by simp
  from pop_node_top [OF Cons.prems(1) this] obtain t1 where "pop_node t = Some t1" "tree_wf t1"
    "same_nodes t t1" "dt_node_stack t1 = base @ rev (map r stack)" .
  with Cons.IH [of t1] show ?case by (auto simp: same_nodes_def)
qed (simp add: same_nodes_def)

text \<open>The parents the copies get: the copy of the nearest node of the source stack that is the
  source's parent, or the node that was active at the call.\<close>

fun copied_parents ::
    "'l dispatch_node list \<Rightarrow> (nat \<Rightarrow> nat) \<Rightarrow> nat option \<Rightarrow> nat list \<Rightarrow> nat list \<Rightarrow> nat option list" where
  "copied_parents nodes r outer stack [] = []"
| "copied_parents nodes r outer stack (i # ids) =
     (let s = dropWhile (\<lambda>x. dn_parent (nodes ! i) \<noteq> Some x) stack
      in (case s of [] \<Rightarrow> outer | x # _ \<Rightarrow> Some (r x)) # copied_parents nodes r outer (i # s) ids)"

lemma copied_parents_cong:
  "(\<And>j. j \<in> set ids \<Longrightarrow> dn_parent (nodes ! j) = dn_parent (nodes' ! j)) \<Longrightarrow>
   copied_parents nodes r outer stack ids = copied_parents nodes' r outer stack ids"
  by (induction ids arbitrary: stack) (simp_all add: Let_def)

definition emptied :: "nat \<Rightarrow> nat \<Rightarrow> 'l dispatch_node list \<Rightarrow> 'l dispatch_node list" where
  "emptied i b nodes = take i nodes @ map without_listeners (take (b - i) (drop i nodes)) @ drop (max i b) nodes"

lemma emptied_step:
  assumes "i < b" "b \<le> length nodes"
  shows "emptied (Suc i) b (nodes[i := without_listeners (nodes ! i)]) = emptied i b nodes"
proof -
  from assms have "drop i nodes = nodes ! i # drop (Suc i) nodes" by (simp add: Cons_nth_drop_Suc)
  moreover from assms have "take (Suc i) (nodes[i := x]) = take i nodes @ [x]" for x
    by (simp add: take_Suc_conv_app_nth)
  moreover from assms have "b - i = Suc (b - Suc i)" by simp
  ultimately show ?thesis using assms by (simp add: emptied_def max_def)
qed

text \<open>The copies of a range, in the tree they are in.\<close>

definition copies_of_range ::
    "'l dispatch_node list \<Rightarrow> nat \<Rightarrow> nat \<Rightarrow> 'l dispatch_tree \<Rightarrow> 'l dispatch_tree \<Rightarrow> 'l dispatch_node list \<Rightarrow> bool" where
  "copies_of_range nodes a b t t' copies \<longleftrightarrow> dt_nodes t' = dt_nodes t @ copies \<and>
     list_all2 (copy_of (dt_nodes t')) (take (b - a) (drop a nodes)) copies \<and>
     dt_focusable_node_ids t' = add_ids dn_focus_id (length (dt_nodes t)) copies (dt_focusable_node_ids t) \<and>
     dt_view_node_ids t' = add_ids dn_view_id (length (dt_nodes t)) copies (dt_view_node_ids t)"

lemma reuse_loop_wf:
  "tree_wf t \<Longrightarrow> dt_node_stack t = base @ rev (map r stack) \<Longrightarrow> i \<le> b \<Longrightarrow> b \<le> length (dt_nodes source) \<Longrightarrow>
   (\<And>j. i \<le> j \<Longrightarrow> r j = j - i + length (dt_nodes t)) \<Longrightarrow>
   \<exists>stack' t' copies. reuse_loop focus [i..<b] source stack c t =
       Some (stack', c \<or> (focus \<noteq> None \<and> focus \<in> set (map dn_focus_id (take (b - i) (drop i (dt_nodes source))))),
         source\<lparr>dt_nodes := emptied i b (dt_nodes source)\<rparr>, t') \<and>
     tree_wf t' \<and> dt_node_stack t' = base @ rev (map r stack') \<and> copies_of_range (dt_nodes source) i b t t' copies \<and>
     map dn_parent copies = copied_parents (dt_nodes source) r (stack_last base) stack [i..<b]"
proof (induction "b - i" arbitrary: i source stack c t)
  case 0
  then have "i = b" by simp
  with 0 show ?case by (simp add: emptied_def copies_of_range_def)
next
  case (Suc n)
  let ?ns = "dt_nodes source" and ?x = "dt_nodes source ! i"
  let ?s = "dropWhile (\<lambda>x. dn_parent ?x \<noteq> Some x) stack"
  have ib: "i < b" using Suc.hyps(2) by simp
  obtain t1 where t1: "unwind_source (dn_parent ?x) stack t = Some (?s, t1)" "tree_wf t1"
    "same_nodes t t1" "dt_node_stack t1 = base @ rev (map r ?s)"
    using unwind_source_wf [OF Suc.prems(1,2)] by blast
  define m where "m = node_copy (stack_last (dt_node_stack t1)) (stack_last (dt_view_stack t1)) ?x"
  define t2 where "t2 = with_node m t1"
  have move: "move_node ?x t1 = Some (t2, without_listeners ?x)" by (simp add: move_node_is m_def t2_def)
  have parent: "dn_parent m = stack_last (dt_node_stack t1)" by (simp add: m_def node_copy_def)
  have t2: "tree_wf t2" unfolding t2_def by (rule tree_wf_with_node [OF t1(2) parent])
  define src2 where "src2 = source\<lparr>dt_nodes := ?ns[i := without_listeners ?x]\<rparr>"
  define c2 where "c2 = (if dn_focus_id ?x \<noteq> None \<and> dn_focus_id ?x = focus then True else c)"
  have stack2: "dt_node_stack t2 = base @ rev (map r (i # ?s))"
    using t1(3,4) Suc.prems(5) [of i] by (simp add: t2_def with_node_simps same_nodes_def)
  have r2: "r j = j - Suc i + length (dt_nodes t2)" if "Suc i \<le> j" for j
    using that Suc.prems(5) [of j] t1(3) by (simp add: t2_def with_node_simps same_nodes_def)
  have drop: "take (b - i) (drop i ?ns) = ?x # take (b - Suc i) (drop (Suc i) ?ns)"
    using ib Suc.prems(4) by (simp add: Cons_nth_drop_Suc [symmetric] take_Cons' diff_Suc split: nat.split)
  obtain stack' t' copies where IH: "reuse_loop focus [Suc i..<b] src2 (i # ?s) c2 t2 =
       Some (stack', c2 \<or> (focus \<noteq> None \<and> focus \<in> set (map dn_focus_id (take (b - Suc i) (drop (Suc i) (dt_nodes src2))))),
         src2\<lparr>dt_nodes := emptied (Suc i) b (dt_nodes src2)\<rparr>, t')"
    "tree_wf t'" "dt_node_stack t' = base @ rev (map r stack')" "copies_of_range (dt_nodes src2) (Suc i) b t2 t' copies"
    "map dn_parent copies = copied_parents (dt_nodes src2) r (stack_last base) (i # ?s) [Suc i..<b]"
    using Suc.hyps(1) [OF _ t2 stack2 _ _ r2, of src2 c2] Suc.hyps(2) ib Suc.prems(4)
    unfolding src2_def by fastforce
  have loop: "reuse_loop focus [i..<b] source stack c t =
       Some (stack', c \<or> (focus \<noteq> None \<and> focus \<in> set (map dn_focus_id (take (b - i) (drop i ?ns)))),
         source\<lparr>dt_nodes := emptied i b ?ns\<rparr>, t')"
    using IH(1) t1(1) move ib Suc.prems(4)
    by (auto simp: upt_conv_Cons Let_def drop src2_def c2_def emptied_step)
  have "dn_parent m = (case ?s of [] \<Rightarrow> stack_last base | x # _ \<Rightarrow> Some (r x))"
    using parent t1(4) by (cases ?s) (simp_all add: stack_last_def del: dropWhile_eq_Nil_conv)
  then have "map dn_parent (m # copies) = copied_parents ?ns r (stack_last base) stack [i..<b]"
    using IH(5) ib copied_parents_cong [of "[Suc i..<b]" ?ns "dt_nodes src2"]
    by (simp add: upt_conv_Cons Let_def src2_def)
  moreover have "copies_of_range ?ns i b t t' (m # copies)"
  proof -
    have grown: "dt_nodes t' = (dt_nodes t1 @ [m]) @ copies" using IH(4) by (simp add: copies_of_range_def t2_def with_node_simps)
    have "copy_of (dt_nodes t') ?x m" by (rule copy_of_moved [OF t1(2) grown m_def])
    with IH(4) grown t1(3) show ?thesis
      by (simp add: copies_of_range_def same_nodes_def drop src2_def t2_def with_node_simps)
  qed
  ultimately show ?case using loop IH(2,3) by blast
qed

lemma copies_of_range_same: "copies_of_range nodes a b t t' copies \<Longrightarrow> same_nodes t' t'' \<Longrightarrow> copies_of_range nodes a b t t'' copies"
  unfolding copies_of_range_def same_nodes_def by metis

text \<open>A range laid out in paint order: each node's parent is on the stack or outside the range.\<close>

fun paint_order :: "'l dispatch_node list \<Rightarrow> nat \<Rightarrow> nat list \<Rightarrow> nat list \<Rightarrow> bool" where
  "paint_order nodes a stack [] = True"
| "paint_order nodes a stack (i # ids) =
     (let s = dropWhile (\<lambda>x. dn_parent (nodes ! i) \<noteq> Some x) stack
      in (s \<noteq> [] \<or> (case dn_parent (nodes ! i) of None \<Rightarrow> True | Some p \<Rightarrow> p < a)) \<and>
         paint_order nodes a (i # s) ids)"

text \<open>The parent of the copy of a node: the copy of its parent, or \<open>outer\<close> if that is not in the range.\<close>

definition moved_parent :: "nat \<Rightarrow> nat \<Rightarrow> nat option \<Rightarrow> 'l dispatch_node \<Rightarrow> nat option" where
  "moved_parent a start outer n = (case dn_parent n of Some p \<Rightarrow> if a \<le> p then Some (p - a + start) else outer | None \<Rightarrow> outer)"

lemma copied_parents_paint_order:
  "paint_order nodes a stack ids \<Longrightarrow> (\<And>x. x \<in> set stack \<union> set ids \<Longrightarrow> a \<le> x) \<Longrightarrow>
   copied_parents nodes (\<lambda>j. j - a + start) outer stack ids = map (\<lambda>i. moved_parent a start outer (nodes ! i)) ids"
proof (induction ids arbitrary: stack)
  case (Cons i ids)
  let ?s = "dropWhile (\<lambda>x. dn_parent (nodes ! i) \<noteq> Some x) stack"
  have sub: "x \<in> set ?s \<Longrightarrow> a \<le> x" for x using Cons.prems(2) set_dropWhileD by fastforce
  have IH: "copied_parents nodes (\<lambda>j. j - a + start) outer (i # ?s) ids = map (\<lambda>i. moved_parent a start outer (nodes ! i)) ids"
    using Cons.prems sub by (intro Cons.IH) (auto simp: Let_def)
  show ?case
  proof (cases ?s)
    case Nil
    with Cons.prems(1) IH show ?thesis
      by (auto simp: Let_def moved_parent_def simp del: dropWhile_eq_Nil_conv split: option.splits)
  next
    case (Cons x s)
    then have "dn_parent (nodes ! i) = Some x" by (simp add: dropWhile_eq_Cons_conv)
    with Cons sub IH show ?thesis by (simp add: Let_def moved_parent_def)
  qed
qed simp

lemma range_nth: "b \<le> length xs \<Longrightarrow> map (\<lambda>i. f (xs ! i)) [a..<b] = map f (take (b - a) (drop a xs))"
  by (rule nth_equalityI) auto

lemma reuse_subtree_wf:
  assumes "tree_wf t" and "a \<le> b" and "b \<le> length (dt_nodes source)"
  shows "\<exists>t' copies. reuse_subtree a b source focus t =
      Some (\<lparr>rs_old_start = a, rs_old_end = b, rs_new_start = length (dt_nodes t),
             rs_contains_focus = (focus \<noteq> None \<and>
               focus \<in> set (map dn_focus_id (take (b - a) (drop a (dt_nodes source)))))\<rparr>,
        source\<lparr>dt_nodes := emptied a b (dt_nodes source)\<rparr>, t') \<and>
    tree_wf t' \<and> dt_node_stack t' = dt_node_stack t \<and> copies_of_range (dt_nodes source) a b t t' copies \<and>
    map dn_parent copies = copied_parents (dt_nodes source) (\<lambda>j. j - a + length (dt_nodes t)) (active_node_id t) [] [a..<b]"
proof -
  let ?r = "\<lambda>j. j - a + length (dt_nodes t)"
  have ids: "take (b - a) (drop a [0..<length (dt_nodes source)]) = [a..<b]"
    using assms(2,3) by (simp add: drop_upt take_upt)
  have "dt_node_stack t = dt_node_stack t @ rev (map ?r [])" by simp
  from reuse_loop_wf [OF assms(1) this assms(2,3), where c = False and focus = focus]
  obtain stack' t' copies where loop: "reuse_loop focus [a..<b] source [] False t =
      Some (stack', focus \<noteq> None \<and> focus \<in> set (map dn_focus_id (take (b - a) (drop a (dt_nodes source)))),
        source\<lparr>dt_nodes := emptied a b (dt_nodes source)\<rparr>, t')"
    and t': "tree_wf t'" "dt_node_stack t' = dt_node_stack t @ rev (map ?r stack')"
      "copies_of_range (dt_nodes source) a b t t' copies"
      "map dn_parent copies = copied_parents (dt_nodes source) ?r (active_node_id t) [] [a..<b]"
    by (auto simp: active_node_id_def)
  from pop_all_wf [OF t'(1,2)] obtain t'' where "pop_all stack' t' = Some t''" "tree_wf t''" "same_nodes t' t''"
    "dt_node_stack t'' = dt_node_stack t" by blast
  with loop t' copies_of_range_same [OF t'(3)] show ?thesis
    by (auto simp: reuse_subtree_def ids simp del: drop_upt)
qed

lemma reuse_subtree_parents:
  assumes "b \<le> length nodes" and "paint_order nodes a [] [a..<b]"
  shows "copied_parents nodes (\<lambda>j. j - a + start) outer [] [a..<b] = map (moved_parent a start outer) (take (b - a) (drop a nodes))"
  using copied_parents_paint_order [OF assms(2)] range_nth [OF assms(1)] by simp

text \<open>
  C17. \<open>reuse_subtree\<close> of any range of another tree returns: the target stays well formed and keeps its stacks and its nodes,
  and one copy of each source node is appended, with the context, focus id and listeners of its source, and the view too unless that
  is the innermost view around the copy.  The maps from focus and view ids lead to the copies.  A copy's parent is found by the search of
  the source stack; if the range is in paint order it is the copy of the parent, or the node that is active at the call if the parent is outside
  the range.  The listeners are taken from the source, and \<open>contains_focus\<close> says whether a copied node has the focused id.
\<close>

theorem reuse_subtree_correct:
  assumes "tree_wf t" and "a \<le> b" and "b \<le> length (dt_nodes source)"
  shows "\<exists>t' copies. reuse_subtree a b source focus t =
      Some (\<lparr>rs_old_start = a, rs_old_end = b, rs_new_start = length (dt_nodes t),
             rs_contains_focus = (focus \<noteq> None \<and>
               focus \<in> set (map dn_focus_id (take (b - a) (drop a (dt_nodes source)))))\<rparr>,
        source\<lparr>dt_nodes := emptied a b (dt_nodes source)\<rparr>, t') \<and>
    tree_wf t' \<and> dt_node_stack t' = dt_node_stack t \<and> dt_nodes t' = dt_nodes t @ copies \<and>
    list_all2 (copy_of (dt_nodes t')) (take (b - a) (drop a (dt_nodes source))) copies \<and>
    dt_focusable_node_ids t' = add_ids dn_focus_id (length (dt_nodes t)) copies (dt_focusable_node_ids t) \<and>
    dt_view_node_ids t' = add_ids dn_view_id (length (dt_nodes t)) copies (dt_view_node_ids t) \<and>
    map dn_parent copies = copied_parents (dt_nodes source) (\<lambda>j. j - a + length (dt_nodes t)) (active_node_id t) [] [a..<b] \<and>
    (paint_order (dt_nodes source) a [] [a..<b] \<longrightarrow> map dn_parent copies =
      map (moved_parent a (length (dt_nodes t)) (active_node_id t)) (take (b - a) (drop a (dt_nodes source))))"
  using reuse_subtree_wf [OF assms] reuse_subtree_parents [OF assms(3)] unfolding copies_of_range_def by metis

section \<open>Painted trees\<close>

lemma remove_ids_stacks [simp]:
  "dt_nodes (remove_ids ns t) = dt_nodes t" "dt_node_stack (remove_ids ns t) = dt_node_stack t"
  "dt_context_stack (remove_ids ns t) = dt_context_stack t" "dt_view_stack (remove_ids ns t) = dt_view_stack t"
  by (induction ns arbitrary: t) (simp_all add: Let_def split: option.split)

lemma tree_truncate_wf:
  assumes "tree_wf t" and "tree_truncate index t = Some t'" and "list_all (\<lambda>i. i < index) (dt_node_stack t)"
  shows "tree_wf t'"
proof -
  have t': "dt_nodes t' = take index (dt_nodes t)" "dt_node_stack t' = dt_node_stack t"
    "dt_context_stack t' = dt_context_stack t" "dt_view_stack t' = dt_view_stack t"
    using assms(2) by (auto simp: tree_truncate_def split: if_splits)
  have chain: "chain nodes path \<Longrightarrow> list_all (\<lambda>i. i < index) path \<Longrightarrow> chain (take index nodes) path"
    for nodes :: "'a dispatch_node list" and path
    by (induction path) auto
  have "stack_contexts (take index ns) (dt_node_stack t) = stack_contexts ns (dt_node_stack t)"
    "stack_views (take index ns) (dt_node_stack t) = stack_views ns (dt_node_stack t)" for ns :: "'a dispatch_node list"
    using assms(3) by (auto simp: stack_contexts_def stack_views_def list_all_iff intro!: map_filter_cong)
  then show ?thesis
    using assms(1,3) chain [of "dt_nodes t" "rev (dt_node_stack t)"]
    by (auto simp: tree_wf_def t' parents_below_def)
qed

text \<open>The trees a frame can hold: built by the operations the window calls, where an element
  sets at most one key context and one view on its node.\<close>

inductive painted :: "'l dispatch_tree \<Rightarrow> bool" where
  new: "painted tree_new"
| cleared: "painted t \<Longrightarrow> painted (tree_clear t)"
| pushed: "painted t \<Longrightarrow> push_node t = (i, t') \<Longrightarrow> painted t'"
| popped: "painted t \<Longrightarrow> pop_node t = Some t' \<Longrightarrow> painted t'"
| keyed: "painted t \<Longrightarrow> active_node_id t = Some i \<Longrightarrow> dn_context (dt_nodes t ! i) = None \<Longrightarrow>
    set_key_context c t = Some t' \<Longrightarrow> painted t'"
| focused: "painted t \<Longrightarrow> set_focus_id f t = Some t' \<Longrightarrow> painted t'"
| viewed: "painted t \<Longrightarrow> active_node_id t = Some i \<Longrightarrow> dn_view_id (dt_nodes t ! i) = None \<Longrightarrow>
    set_view_id v t = Some t' \<Longrightarrow> painted t'"
| key_event: "painted t \<Longrightarrow> on_key_event l t = Some t' \<Longrightarrow> painted t'"
| modifiers_changed: "painted t \<Longrightarrow> on_modifiers_changed l t = Some t' \<Longrightarrow> painted t'"
| action: "painted t \<Longrightarrow> on_action ty l t = Some t' \<Longrightarrow> painted t'"
| activated: "painted t \<Longrightarrow> set_active_node i t = Some t' \<Longrightarrow> painted t'"
| truncated: "painted t \<Longrightarrow> list_all (\<lambda>i. i < index) (dt_node_stack t) \<Longrightarrow>
    tree_truncate index t = Some t' \<Longrightarrow> painted t'"
| reused: "painted t \<Longrightarrow> painted source \<Longrightarrow> a \<le> b \<Longrightarrow> b \<le> length (dt_nodes source) \<Longrightarrow>
    reuse_subtree a b source f t = Some (rs, source', t') \<Longrightarrow> painted t'"

lemma active_stack: "active_node_id t = Some i \<Longrightarrow> \<exists>ids. dt_node_stack t = ids @ [i]"
  by (cases "dt_node_stack t" rule: rev_cases) (auto simp: active_node_id_def)

lemma update_active_active: "update_active f t = Some t' \<Longrightarrow> \<exists>ids i. dt_node_stack t = ids @ [i]"
  by (cases "active_node_id t") (auto simp: update_active_def dest: active_stack)

lemma update_active_keeps:
  assumes "tree_wf t" and "update_active f t = Some t'"
    and "\<And>n. dn_parent (f n) = dn_parent n" "\<And>n. dn_context (f n) = dn_context n"
      "\<And>n. dn_view_id (f n) = dn_view_id n"
  shows "tree_wf t'"
proof -
  obtain ids i where "dt_node_stack t = ids @ [i]" using update_active_active [OF assms(2)] by blast
  from update_active_wf [of t ids i f, OF assms(1) this] assms(2-) show ?thesis by simp
qed

lemma painted_wf: "painted t \<Longrightarrow> tree_wf t"
proof (induction rule: painted.induct)
  case (pushed t i t')
  then show ?case using tree_wf_push_node [of t] by simp
next
  case (popped t t')
  then show ?case using pop_node_wf [of t] pop_node_stack [of t t'] by auto
next
  case (keyed t i c t')
  then obtain ids where "dt_node_stack t = ids @ [i]" using active_stack by blast
  then show ?case using keyed set_key_context_wf [of t ids i c] by auto
next
  case (focused t f t')
  then obtain ids i where "dt_node_stack t = ids @ [i]"
    using active_stack [of t] by (auto simp: set_focus_id_def split: option.splits)
  then show ?case using focused set_focus_id_wf [of t ids i f] by auto
next
  case (viewed t i v t')
  then obtain ids where "dt_node_stack t = ids @ [i]" using active_stack by blast
  then show ?case using viewed set_view_id_wf [of t ids i v] by auto
next
  case (key_event t l t')
  then show ?case by (auto simp: on_key_event_def intro: update_active_keeps)
next
  case (modifiers_changed t l t')
  then show ?case by (auto simp: on_modifiers_changed_def intro: update_active_keeps)
next
  case (action t ty l t')
  then show ?case by (auto simp: on_action_def intro: update_active_keeps)
next
  case (activated t i t')
  then have "i < length (dt_nodes t)" by (auto simp: set_active_node_def split: if_splits)
  with activated show ?case using set_active_node_wf [of t i] by auto
next
  case (truncated t index t')
  then show ?case by (auto intro: tree_truncate_wf)
next
  case (reused t source a b f rs source' t')
  then show ?case using reuse_subtree_wf [of t a b source f] by auto
qed simp_all

text \<open>
  C15. However a frame's tree was painted, as long as an element is open nothing panics: closing it, giving it a context, a focus
  id, a view or a listener; making any node the active one, and finding the path to it; taking back the nodes from
  any mark on; and reusing any range of the nodes of another tree.
\<close>

theorem painted_never_panics:
  assumes "painted t" and "dt_node_stack t \<noteq> []" and "i < length (dt_nodes t)"
    and "mark \<le> length (dt_nodes t)" and "a \<le> b" "b \<le> length (dt_nodes source)"
  shows "pop_node t \<noteq> None \<and> set_key_context c t \<noteq> None \<and> set_focus_id f t \<noteq> None \<and> set_view_id v t \<noteq> None \<and>
    on_key_event l t \<noteq> None \<and> on_modifiers_changed l t \<noteq> None \<and> on_action ty l t \<noteq> None \<and>
    set_active_node i t \<noteq> None \<and> dispatch_path t i \<noteq> None \<and> tree_truncate mark t \<noteq> None \<and> reuse_subtree a b source focus t \<noteq> None"
proof -
  note wf = painted_wf [OF assms(1)]
  obtain ids k where k: "dt_node_stack t = ids @ [k]" using assms(2) by (metis rev_exhaust)
  note update = update_active_Some [OF wf k]
  have "active_node_id t = Some k" using k by (simp add: active_node_id_def)
  with update have "set_key_context c t \<noteq> None" "on_action ty l t \<noteq> None" "on_key_event l t \<noteq> None" "on_modifiers_changed l t \<noteq> None"
    "set_focus_id f t \<noteq> None" "set_view_id v t \<noteq> None"
    by (simp_all add: set_key_context_def set_focus_id_def set_view_id_def on_action_def on_key_event_def on_modifiers_changed_def)
  moreover obtain up where "chain (dt_nodes t) (i # up)"
    using chain_exists [of "dt_nodes t" i] wf assms(3) by (auto simp: tree_wf_def)
  then have "dispatch_path t i \<noteq> None" using path_up_chain [of "dt_nodes t" i up] by (simp add: dispatch_path_def)
  moreover have "tree_truncate mark t \<noteq> None" using assms(4) by (simp add: tree_truncate_def)
  ultimately show ?thesis
    using pop_node_wf [OF wf assms(2)] set_active_node_wf [OF wf assms(3)] reuse_subtree_wf [OF wf assms(5,6), of focus] by auto
qed

section \<open>Instances\<close>

definition sample_tree :: "nat dispatch_tree" where
  "sample_tree = \<lparr>dt_node_stack = [0], dt_context_stack = [], dt_view_stack = [],
     dt_nodes = [node_default\<lparr>dn_focus_id := Some 7\<rparr>,
                 node_default\<lparr>dn_parent := Some 0, dn_key_listeners := [5]\<rparr>],
     dt_focusable_node_ids = [7 \<mapsto> 0], dt_view_node_ids = Map.empty\<rparr>"

lemma sample_tree_wf: "tree_wf sample_tree"
  by (simp add: sample_tree_def tree_wf_def parents_below_def less_Suc_eq stack_contexts_def
      stack_views_def List.map_filter_simps)

lemma sample_tree_simps:
  "dt_node_stack sample_tree = [0]" "length (dt_nodes sample_tree) = 2"
  "parents_below (dt_nodes sample_tree)" "paint_order (dt_nodes sample_tree) 0 [] [0..<2]"
  by (simp_all add: sample_tree_def parents_below_def less_Suc_eq upt_rec)

lemma dispatch_path_correct_witness:
  "\<exists>path. dispatch_path sample_tree 1 = Some path \<and> last path = 1"
  using dispatch_path_correct [of sample_tree 1] by (auto simp: sample_tree_simps)

lemma set_active_node_correct_witness:
  "\<exists>t'. set_active_node 1 sample_tree = Some t' \<and> dispatch_path t' 1 = Some (dt_node_stack t')"
  using set_active_node_correct [OF sample_tree_wf, of 1] by (auto simp: sample_tree_simps)

lemma reuse_subtree_correct_witness:
  "\<exists>t' copies. reuse_subtree 0 2 sample_tree (Some 7) sample_tree =
     Some (\<lparr>rs_old_start = 0, rs_old_end = 2, rs_new_start = 2, rs_contains_focus = True\<rparr>,
       sample_tree\<lparr>dt_nodes := emptied 0 2 (dt_nodes sample_tree)\<rparr>, t') \<and> tree_wf t' \<and>
     dt_nodes t' = dt_nodes sample_tree @ copies \<and> map dn_parent copies = [Some 0, Some 2]"
proof -
  have range: "take (2 - 0) (drop 0 (dt_nodes sample_tree)) = dt_nodes sample_tree" by (simp add: sample_tree_simps)
  have "(Some 7 \<noteq> None \<and> Some 7 \<in> set (map dn_focus_id (dt_nodes sample_tree))) = True" by (simp add: sample_tree_def)
  moreover have "map (moved_parent 0 2 (active_node_id sample_tree)) (dt_nodes sample_tree) = [Some 0, Some 2]"
    by (simp add: sample_tree_def moved_parent_def active_node_id_def stack_last_def)
  ultimately show ?thesis
    using reuse_subtree_correct [OF sample_tree_wf, of 0 2 sample_tree "Some 7"] sample_tree_simps(4) unfolding range sample_tree_simps(2) by auto
qed

lemma painted_never_panics_witness:
  "pop_node (snd (push_node (tree_new :: nat dispatch_tree))) \<noteq> None \<and>
   reuse_subtree 0 2 sample_tree None (snd (push_node tree_new)) \<noteq> None"
proof -
  obtain i t where t: "push_node (tree_new :: nat dispatch_tree) = (i, t)" by fastforce
  then have "painted t" by (rule painted.pushed [OF painted.new])
  moreover from t have "dt_node_stack t \<noteq> []" "0 < length (dt_nodes t)"
    by (auto simp: push_node_def Let_def tree_new_def)
  ultimately show ?thesis using painted_never_panics [of t 0 0 0 2 sample_tree] t by (simp add: sample_tree_simps)
qed

end
