(* ===== verification/Key_Dispatch.thy ===== *)
theory Key_Dispatch
  imports Dispatch_Tree_Inv "HOL-Library.Countable"
begin

text \<open>
  Turning keystrokes into bindings and actions, from \<open>src/src/key_dispatch.rs\<close>: the queries on
  the actions of a dispatch path, the lookups by action, and \<open>dispatch_key\<close>,
  \<open>flush_dispatch\<close> and \<open>replay_prefix\<close>, which resolve pending multi-key input.  The
  three resolution functions take the lookup of bindings as an argument; the locale
  \<open>binding_source\<close> states what they need of it and the keymap is its instance.
\<close>

section \<open>Results\<close>

record replay =
  rp_keystroke :: keystroke
  rp_bindings :: "key_binding list"

record dispatch_result =
  dr_pending :: "keystroke list"
  dr_pending_has_binding :: bool
  dr_bindings :: "key_binding list"
  dr_to_replay :: "replay list"
  dr_context_stack :: "key_context list"

definition dispatch_result_default :: dispatch_result where
  "dispatch_result_default = \<lparr>dr_pending = [], dr_pending_has_binding = False, dr_bindings = [],
     dr_to_replay = [], dr_context_stack = []\<rparr>"

section \<open>Actions on a dispatch path\<close>

text \<open>\<open>nodes[node_id]\<close> panics for an id beyond the tree.\<close>

definition path_nodes :: "'l dispatch_tree \<Rightarrow> nat list \<Rightarrow> 'l dispatch_node list option" where
  "path_nodes t path =
     (if list_all (\<lambda>i. i < length (dt_nodes t)) path then Some (map (\<lambda>i. dt_nodes t ! i) path) else None)"

text \<open>
  \<open>binary_search_by_key\<close> on a slice sorted by the key: the position of the key, or the place
  to insert it.  The order of \<open>TypeId\<close>s is any ranking of them.
\<close>

definition binary_search_by_key :: "('k \<Rightarrow> nat) \<Rightarrow> 'k \<Rightarrow> ('a \<Rightarrow> 'k) \<Rightarrow> 'a list \<Rightarrow> nat + nat" where
  "binary_search_by_key rank key f xs =
     (let ix = length (takeWhile (\<lambda>x. rank (f x) < rank key) xs)
      in if ix < length xs \<and> f (xs ! ix) = key then Inr ix else Inl ix)"

definition insert_at :: "nat \<Rightarrow> 'a \<Rightarrow> 'a list \<Rightarrow> 'a list" where
  "insert_at ix x xs = take ix xs @ x # drop ix xs"

text \<open>The body of the loop over the listeners; \<open>build\<close> is \<open>build_action_type\<close> of the registry.\<close>

definition add_available ::
    "(string \<Rightarrow> nat) \<Rightarrow> (string \<Rightarrow> ('e, action) result) \<Rightarrow> string \<Rightarrow> action list \<Rightarrow> action list" where
  "add_available rank build action_type actions =
     (case binary_search_by_key rank action_type act_type actions of
        Inr _ \<Rightarrow> actions
      | Inl ix \<Rightarrow>
          (case build action_type of Inr action \<Rightarrow> insert_at ix action actions | Inl _ \<Rightarrow> actions))"

definition listener_types :: "'l dispatch_node list \<Rightarrow> string list" where
  "listener_types nodes = concat (map (\<lambda>n. map fst (dn_action_listeners n)) nodes)"

definition available_actions ::
    "(string \<Rightarrow> nat) \<Rightarrow> (string \<Rightarrow> ('e, action) result) \<Rightarrow> 'l dispatch_tree \<Rightarrow> nat \<Rightarrow> action list option" where
  "available_actions rank build t target =
     Option.bind (dispatch_path t target) (\<lambda>path.
       map_option (\<lambda>nodes. fold (add_available rank build) (listener_types nodes) []) (path_nodes t path))"

fun any_action_listener :: "string \<Rightarrow> 'l dispatch_node list \<Rightarrow> bool" where
  "any_action_listener ty [] = False"
| "any_action_listener ty (node # nodes) =
     (if list_ex (\<lambda>listener. fst listener = ty) (dn_action_listeners node) then True
      else any_action_listener ty nodes)"

definition is_action_available :: "'l dispatch_tree \<Rightarrow> action \<Rightarrow> nat \<Rightarrow> bool option" where
  "is_action_available t action target =
     Option.bind (dispatch_path t target) (\<lambda>path.
       map_option (any_action_listener (act_type action)) (path_nodes t path))"

section \<open>Bindings for an action\<close>

text \<open>The keystrokes of a binding, as the lookup compares them with typed ones.\<close>

definition binding_matches_predicate_and_not_shadowed ::
    "target_os \<Rightarrow> keymap \<Rightarrow> key_binding \<Rightarrow> key_context list \<Rightarrow> bool" where
  "binding_matches_predicate_and_not_shadowed os km b context_stack =
     (case fst (bindings_for_input os km (map kb_inner (kbd_keystrokes b)) context_stack) of
        found # _ \<Rightarrow> action_partial_eq (kbd_action found) (kbd_action b)
      | [] \<Rightarrow> False)"

definition tree_bindings_for_action :: "target_os \<Rightarrow> keymap \<Rightarrow> action \<Rightarrow> key_context list \<Rightarrow> key_binding list"
where
  "tree_bindings_for_action os km action context_stack =
     filter (\<lambda>b. binding_matches_predicate_and_not_shadowed os km b context_stack)
       (bindings_for_action km action)"

definition highest_precedence_binding_for_action ::
    "target_os \<Rightarrow> keymap \<Rightarrow> action \<Rightarrow> key_context list \<Rightarrow> key_binding option" where
  "highest_precedence_binding_for_action os km action context_stack =
     List.find (\<lambda>b. binding_matches_predicate_and_not_shadowed os km b context_stack)
       (rev (bindings_for_action km action))"

section \<open>Resolving pending input\<close>

type_synonym lookup = "keystroke list \<Rightarrow> key_binding list \<times> bool"

text \<open>\<open>replay_prefix\<close>: \<open>None\<close> is the panic of \<open>remove(0)\<close> on empty input.\<close>

definition replay_prefix :: "lookup \<Rightarrow> keystroke list \<Rightarrow> (keystroke list \<times> replay list) option" where
  "replay_prefix lookup input =
     (case List.find (\<lambda>n. fst (lookup (take (Suc n) input)) \<noteq> []) (rev [0..<length input]) of
        Some n \<Rightarrow> Some (drop (Suc n) input,
          [\<lparr>rp_keystroke = input ! n, rp_bindings = fst (lookup (take (Suc n) input))\<rparr>])
      | None \<Rightarrow>
          (case input of
             [] \<Rightarrow> None
           | k # rest \<Rightarrow> Some (rest, [\<lparr>rp_keystroke = k, rp_bindings = []\<rparr>])))"

lemma replay_prefix_shorter: "replay_prefix lookup input = Some (suffix, rs) \<Longrightarrow> length suffix < length input"
  by (auto simp: replay_prefix_def find_Some_iff split: option.splits list.splits)

function dispatch_key :: "lookup \<Rightarrow> key_context list \<Rightarrow> keystroke list \<Rightarrow> keystroke \<Rightarrow> dispatch_result option"
where
  "dispatch_key lookup context_stack input keystroke =
     (let input' = input @ [keystroke]; bindings = fst (lookup input'); pending = snd (lookup input') in
      if pending then Some (dispatch_result_default
           \<lparr>dr_pending := input', dr_pending_has_binding := bindings \<noteq> [], dr_context_stack := context_stack\<rparr>)
      else if bindings \<noteq> [] then Some (dispatch_result_default
           \<lparr>dr_bindings := bindings, dr_context_stack := context_stack\<rparr>)
      else if length input' = 1 then Some (dispatch_result_default\<lparr>dr_context_stack := context_stack\<rparr>)
      else (case replay_prefix lookup input of
              None \<Rightarrow> None
            | Some (suffix, to_replay) \<Rightarrow>
                (case dispatch_key lookup context_stack suffix keystroke of
                   None \<Rightarrow> None
                 | Some result \<Rightarrow> Some (result\<lparr>dr_to_replay := to_replay @ dr_to_replay result\<rparr>))))"
  by pat_completeness auto
termination
  by (relation "measure (\<lambda>(_, _, input, _). length input)") (auto dest: replay_prefix_shorter)

declare dispatch_key.simps [simp del]

function flush_dispatch :: "lookup \<Rightarrow> keystroke list \<Rightarrow> replay list option" where
  "flush_dispatch lookup input =
     (case replay_prefix lookup input of
        None \<Rightarrow> None
      | Some (suffix, to_replay) \<Rightarrow>
          if suffix \<noteq> [] then map_option (\<lambda>rs. to_replay @ rs) (flush_dispatch lookup suffix)
          else Some to_replay)"
  by pat_completeness auto
termination
  by (relation "measure (\<lambda>(_, input). length input)") (auto dest: replay_prefix_shorter)

declare flush_dispatch.simps [simp del]

text \<open>On the tree: the contexts of the path, and the lookup they are used with.\<close>

definition path_contexts :: "'l dispatch_tree \<Rightarrow> nat list \<Rightarrow> key_context list option" where
  "path_contexts t path = map_option (List.map_filter dn_context) (path_nodes t path)"

definition tree_bindings_for_input ::
    "target_os \<Rightarrow> keymap \<Rightarrow> 'l dispatch_tree \<Rightarrow> keystroke list \<Rightarrow> nat list \<Rightarrow>
     (key_binding list \<times> bool \<times> key_context list) option" where
  "tree_bindings_for_input os km t input path =
     map_option (\<lambda>context_stack. (fst (bindings_for_input os km input context_stack),
         snd (bindings_for_input os km input context_stack), context_stack)) (path_contexts t path)"

definition tree_dispatch_key ::
    "target_os \<Rightarrow> keymap \<Rightarrow> 'l dispatch_tree \<Rightarrow> keystroke list \<Rightarrow> keystroke \<Rightarrow> nat list \<Rightarrow>
     dispatch_result option" where
  "tree_dispatch_key os km t input keystroke path =
     Option.bind (path_contexts t path) (\<lambda>context_stack.
       dispatch_key (\<lambda>i. bindings_for_input os km i context_stack) context_stack input keystroke)"

definition tree_flush_dispatch ::
    "target_os \<Rightarrow> keymap \<Rightarrow> 'l dispatch_tree \<Rightarrow> keystroke list \<Rightarrow> nat list \<Rightarrow> replay list option" where
  "tree_flush_dispatch os km t input path =
     Option.bind (path_contexts t path) (\<lambda>context_stack.
       flush_dispatch (\<lambda>i. bindings_for_input os km i context_stack) input)"

section \<open>What is replayed\<close>

text \<open>
  \<open>replays lookup stuck input rs rest\<close>: replaying \<open>rs\<close> consumes \<open>input\<close> up to \<open>rest\<close>, each
  step taking the longest prefix that has bindings, or one keystroke without bindings when no
  prefix has any; it only goes on from inputs that are \<open>stuck\<close>.
\<close>

inductive replays ::
    "lookup \<Rightarrow> (keystroke list \<Rightarrow> bool) \<Rightarrow> keystroke list \<Rightarrow> replay list \<Rightarrow> keystroke list \<Rightarrow> bool"
  for lookup stuck where
  stop: "replays lookup stuck input [] input"
| bound: "stuck input \<Longrightarrow> n < length input \<Longrightarrow> fst (lookup (take (Suc n) input)) \<noteq> [] \<Longrightarrow>
    \<not> (\<exists>m. n < m \<and> m < length input \<and> fst (lookup (take (Suc m) input)) \<noteq> []) \<Longrightarrow>
    replays lookup stuck (drop (Suc n) input) rs rest \<Longrightarrow>
    replays lookup stuck input
      (\<lparr>rp_keystroke = input ! n, rp_bindings = fst (lookup (take (Suc n) input))\<rparr> # rs) rest"
| unbound: "stuck (k # input) \<Longrightarrow> \<not> (\<exists>m \<le> length input. fst (lookup (take (Suc m) (k # input))) \<noteq> []) \<Longrightarrow>
    replays lookup stuck input rs rest \<Longrightarrow>
    replays lookup stuck (k # input) (\<lparr>rp_keystroke = k, rp_bindings = []\<rparr> # rs) rest"

inductive_cases replays_NilE: "replays lookup stuck input [] rest"
inductive_cases replays_ConsE: "replays lookup stuck input (r # rs) rest"

lemma replay_prefix_replays:
  assumes "stuck input" and "replay_prefix lookup input = Some (suffix, rs0)"
    and "replays lookup stuck suffix rs rest"
  shows "replays lookup stuck input (rs0 @ rs) rest"
proof (cases "List.find (\<lambda>n. fst (lookup (take (Suc n) input)) \<noteq> []) (rev [0..<length input])")
  case None
  then obtain k where "input = k # suffix" "rs0 = [\<lparr>rp_keystroke = k, rp_bindings = []\<rparr>]"
    using assms(2) by (auto simp: replay_prefix_def split: list.splits)
  with None assms(1,3) show ?thesis
    unfolding find_rev_upt_None by (auto simp: less_Suc_eq_le intro!: replays.unbound)
next
  case (Some n)
  then have "suffix = drop (Suc n) input"
    "rs0 = [\<lparr>rp_keystroke = input ! n, rp_bindings = fst (lookup (take (Suc n) input))\<rparr>]"
    using assms(2) by (auto simp: replay_prefix_def)
  with Some assms(1,3) show ?thesis
    unfolding find_rev_upt_Some by (auto intro!: replays.bound)
qed

lemma replay_prefix_None [simp]: "replay_prefix lookup input = None \<longleftrightarrow> input = []"
  by (auto simp: replay_prefix_def split: option.splits list.splits)

text \<open>The result for the input \<open>rest\<close> that is left and the new keystroke, after replaying \<open>rs\<close>.\<close>

definition outcome :: "lookup \<Rightarrow> key_context list \<Rightarrow> keystroke \<Rightarrow> keystroke list \<Rightarrow> replay list \<Rightarrow> dispatch_result"
where
  "outcome lookup ctx k rest rs =
     \<lparr>dr_pending = (if snd (lookup (rest @ [k])) then rest @ [k] else []),
      dr_pending_has_binding = (snd (lookup (rest @ [k])) \<and> fst (lookup (rest @ [k])) \<noteq> []),
      dr_bindings = (if snd (lookup (rest @ [k])) then [] else fst (lookup (rest @ [k]))),
      dr_to_replay = rs, dr_context_stack = ctx\<rparr>"

lemma outcome_simps [simp]:
  "dr_to_replay (outcome lookup ctx k rest rs) = rs"
  "dr_context_stack (outcome lookup ctx k rest rs) = ctx"
  "outcome lookup ctx k rest rs\<lparr>dr_to_replay := rs'\<rparr> = outcome lookup ctx k rest rs'"
  by (simp_all add: outcome_def)

lemma dispatch_key_outcome:
  "\<exists>rs rest. dispatch_key lookup ctx input k = Some (outcome lookup ctx k rest rs) \<and>
     replays lookup (\<lambda>i. i \<noteq> [] \<and> lookup (i @ [k]) = ([], False)) input rs rest \<and>
     (rest = [] \<or> lookup (rest @ [k]) \<noteq> ([], False))"
proof (induction "length input" arbitrary: input rule: less_induct)
  case less
  let ?stuck = "\<lambda>i. i \<noteq> [] \<and> lookup (i @ [k]) = ([], False)"
  show ?case
  proof (cases "?stuck input")
    case True
    then obtain suffix rs0 where prefix: "replay_prefix lookup input = Some (suffix, rs0)"
      by (cases "replay_prefix lookup input") auto
    from less.hyps [OF replay_prefix_shorter [OF prefix]] obtain rs rest where r:
      "dispatch_key lookup ctx suffix k = Some (outcome lookup ctx k rest rs)"
      "replays lookup ?stuck suffix rs rest" "rest = [] \<or> lookup (rest @ [k]) \<noteq> ([], False)"
      by blast
    have "dispatch_key lookup ctx input k = Some (outcome lookup ctx k rest (rs0 @ rs))"
      using True prefix r(1) by (subst dispatch_key.simps) (simp add: Let_def)
    moreover have "replays lookup ?stuck input (rs0 @ rs) rest"
      by (rule replay_prefix_replays [OF True prefix r(2)])
    ultimately show ?thesis using r(3) by blast
  next
    case False
    then have "dispatch_key lookup ctx input k = Some (outcome lookup ctx k input [])"
      by (subst dispatch_key.simps)
        (cases "lookup (input @ [k])"; auto simp: Let_def dispatch_result_default_def outcome_def)
    with False show ?thesis using replays.stop by blast
  qed
qed

text \<open>
  C2. \<open>dispatch_key\<close> always returns.  It replays parts of the pending input, and only while the
  rest followed by the new keystroke neither is pending nor has bindings; what is then left
  decides the result: the keystrokes stay pending, or their bindings are dispatched, or the
  new keystroke alone is left unhandled.
\<close>

theorem dispatch_key_correct:
  "\<exists>rs rest. dispatch_key lookup ctx input k = Some (outcome lookup ctx k rest rs) \<and>
     replays lookup (\<lambda>i. i \<noteq> [] \<and> lookup (i @ [k]) = ([], False)) input rs rest \<and>
     \<not> (rest \<noteq> [] \<and> lookup (rest @ [k]) = ([], False))"
  using dispatch_key_outcome [of lookup ctx input k] by blast

lemma flush_dispatch_replays:
  "input \<noteq> [] \<Longrightarrow> \<exists>rs. flush_dispatch lookup input = Some rs \<and> replays lookup (\<lambda>_. True) input rs []"
proof (induction "length input" arbitrary: input rule: less_induct)
  case less
  then obtain suffix rs0 where prefix: "replay_prefix lookup input = Some (suffix, rs0)"
    by (cases "replay_prefix lookup input") auto
  show ?case
  proof (cases "suffix = []")
    case True
    then have "flush_dispatch lookup input = Some rs0"
      using prefix by (subst flush_dispatch.simps) simp
    moreover have "replays lookup (\<lambda>_. True) input (rs0 @ []) []"
      using True by (intro replay_prefix_replays [OF _ prefix]) (auto intro: replays.stop)
    ultimately show ?thesis by simp
  next
    case False
    from less.hyps [OF replay_prefix_shorter [OF prefix] False] obtain rs where
      rs: "flush_dispatch lookup suffix = Some rs" "replays lookup (\<lambda>_. True) suffix rs []" by blast
    have "flush_dispatch lookup input = Some (rs0 @ rs)"
      using prefix rs(1) False by (subst flush_dispatch.simps) simp
    with replay_prefix_replays [OF _ prefix rs(2)] show ?thesis by simp
  qed
qed

text \<open>
  C16. \<open>flush_dispatch\<close> replays the whole of any non-empty input, longest bound prefix first,
  and panics exactly on empty input.
\<close>

theorem flush_dispatch_correct:
  "case flush_dispatch lookup input of
     Some rs \<Rightarrow> replays lookup (\<lambda>_. True) input rs [] \<and> input \<noteq> []
   | None \<Rightarrow> input = []"
proof (cases "input = []")
  case True
  then have "flush_dispatch lookup input = None"
    by (subst flush_dispatch.simps) (simp add: replay_prefix_def)
  with True show ?thesis by simp
next
  case False
  with flush_dispatch_replays [OF False, of lookup] show ?thesis by auto
qed

section \<open>What the functions need of the lookup\<close>

locale binding_source =
  fixes lookup :: lookup and limit :: nat
  assumes pending_short: "snd (lookup input) \<Longrightarrow> length input < limit"
    and full_match: "b \<in> set (fst (lookup input)) \<Longrightarrow> length (kbd_keystrokes b) = length input"
    and no_no_action: "b \<in> set (fst (lookup input)) \<Longrightarrow> \<not> is_no_action (kbd_action b)"
begin

lemma replays_suffix: "replays lookup stuck input rs rest \<Longrightarrow> \<exists>pre. input = pre @ rest"
proof (induction rule: replays.induct)
  case (bound input n rs rest)
  then show ?case by (metis append.assoc append_take_drop_id)
qed auto

lemma pending_bound:
  assumes "dispatch_key lookup ctx input k = Some r"
  shows "length (dr_pending r) \<le> limit - 1"
proof -
  obtain rs rest where "r = outcome lookup ctx k rest rs"
    using dispatch_key_outcome [of lookup ctx input k] assms by auto
  with pending_short [of "rest @ [k]"] show ?thesis by (auto simp: outcome_def)
qed

lemma replayed_actions:
  "replays lookup stuck input rs rest \<Longrightarrow> r \<in> set rs \<Longrightarrow> b \<in> set (rp_bindings r) \<Longrightarrow>
   \<not> is_no_action (kbd_action b)"
proof (induction rule: replays.induct)
  case (bound input n rs rest)
  then show ?case using no_no_action [of b "take (Suc n) input"] by auto
qed auto

text \<open>The number of keystrokes a replay stands for.\<close>

lemma replays_account:
  "replays lookup stuck input rs rest \<Longrightarrow>
   length input = sum_list (map (\<lambda>r. case rp_bindings r of [] \<Rightarrow> 1 | b # _ \<Rightarrow> length (kbd_keystrokes b)) rs) +
     length rest"
proof (induction rule: replays.induct)
  case (bound input n rs rest)
  then obtain b bs where b: "fst (lookup (take (Suc n) input)) = b # bs" by (cases "fst (lookup (take (Suc n) input))") auto
  with full_match [of b "take (Suc n) input"] bound(2) have "length (kbd_keystrokes b) = Suc n" by simp
  with bound b show ?case by simp
qed simp_all

end

text \<open>The longest binding of a keymap bounds the input that can be pending on it.\<close>

definition longest_binding :: "keymap \<Rightarrow> nat" where
  "longest_binding km = Max (insert 0 (set (map (\<lambda>b. length (kbd_keystrokes b)) (km_bindings km))))"

lemma longest_binding_ge: "i < length (km_bindings km) \<Longrightarrow> length (kbd_keystrokes (km_bindings km ! i)) \<le> longest_binding km"
  unfolding longest_binding_def by (rule Max_ge) auto

interpretation keymap_source: binding_source "\<lambda>input. bindings_for_input os km input ctx" "longest_binding km"
  for os km ctx
proof
  fix input
  assume "snd (bindings_for_input os km input ctx)"
  then obtain i where "input_match os km input ctx True i" unfolding bindings_for_input_pending_index by blast
  with longest_binding_ge [of i km] show "length input < longest_binding km"
    by (auto simp: input_match_def match_keystrokes_iff)
next
  fix b input
  assume "b \<in> set (fst (bindings_for_input os km input ctx))"
  then obtain i where i: "i \<in> set (result_indices os km input ctx)" "b = km_bindings km ! i"
    unfolding bindings_for_input_eq(1) by auto
  then show "length (kbd_keystrokes b) = length input" "\<not> is_no_action (kbd_action b)"
    unfolding in_result_indices by (auto simp: input_match_def match_keystrokes_iff)
qed

text \<open>
  C37. What \<open>dispatch_key\<close> keeps pending is a suffix of the keystrokes given to it, shorter than
  the longest binding of the keymap, and a keystroke that is kept or dispatched is never
  replayed: the replayed keystrokes and the ones that are left add up to the pending input.
\<close>

theorem tree_dispatch_key_account:
  assumes "path_contexts t path = Some ctx"
  shows "\<exists>r rest. tree_dispatch_key os km t input k path = Some r \<and> dr_context_stack r = ctx \<and>
    length (dr_pending r) \<le> longest_binding km - 1 \<and> (dr_pending r = [] \<or> dr_pending r = rest @ [k]) \<and>
    (\<exists>pre. input = pre @ rest) \<and>
    length input = length rest +
      sum_list (map (\<lambda>r. case rp_bindings r of [] \<Rightarrow> 1 | b # _ \<Rightarrow> length (kbd_keystrokes b)) (dr_to_replay r))"
proof -
  let ?lookup = "\<lambda>i. bindings_for_input os km i ctx"
  obtain rs rest where key: "dispatch_key ?lookup ctx input k = Some (outcome ?lookup ctx k rest rs)"
    and replays: "replays ?lookup (\<lambda>i. i \<noteq> [] \<and> ?lookup (i @ [k]) = ([], False)) input rs rest"
    using dispatch_key_outcome by blast
  show ?thesis
    using key assms keymap_source.pending_bound [OF key] keymap_source.replays_suffix [OF replays]
      keymap_source.replays_account [OF replays]
    by (intro exI [of _ "outcome ?lookup ctx k rest rs"] exI [of _ rest])
      (simp add: tree_dispatch_key_def, simp add: outcome_def)
qed

text \<open>
  C21. No key binding that \<open>dispatch_key\<close> returns or replays invokes \<open>NoAction\<close>.
\<close>

theorem dispatch_key_no_no_action:
  assumes "tree_dispatch_key os km t input k path = Some r"
    and "b \<in> set (dr_bindings r) \<or> (\<exists>p. p \<in> set (dr_to_replay r) \<and> b \<in> set (rp_bindings p))"
  shows "\<not> is_no_action (kbd_action b)"
proof -
  from assms(1) obtain ctx where ctx: "path_contexts t path = Some ctx"
    "dispatch_key (\<lambda>i. bindings_for_input os km i ctx) ctx input k = Some r"
    by (auto simp: tree_dispatch_key_def bind_eq_Some_conv)
  let ?lookup = "\<lambda>i. bindings_for_input os km i ctx"
  obtain rs rest where "r = outcome ?lookup ctx k rest rs"
    and replays: "replays ?lookup (\<lambda>i. i \<noteq> [] \<and> ?lookup (i @ [k]) = ([], False)) input rs rest"
    using dispatch_key_outcome [of ?lookup ctx input k] ctx(2) by auto
  with assms(2) show ?thesis
    using keymap_source.replayed_actions [OF replays] keymap_source.no_no_action [of b os km "rest @ [k]" ctx]
    by (auto simp: outcome_def split: if_splits)
qed

section \<open>Lookups by action\<close>

lemma find_rev_last:
  "List.find P (rev xs) = (if filter P xs = [] then None else Some (last (filter P xs)))"
  by (induction xs rule: rev_induct) auto

text \<open>
  C27. The highest-precedence binding of an action is the last one that \<open>bindings_for_action\<close> of
  the tree returns, and none if it returns none.
\<close>

theorem highest_precedence_is_last:
  "highest_precedence_binding_for_action os km action ctx =
     (if tree_bindings_for_action os km action ctx = [] then None
      else Some (last (tree_bindings_for_action os km action ctx)))"
  by (simp add: highest_precedence_binding_for_action_def tree_bindings_for_action_def find_rev_last)

section \<open>Available actions\<close>

lemma any_action_listener_iff: "any_action_listener ty nodes \<longleftrightarrow> ty \<in> set (listener_types nodes)"
  by (induction nodes) (auto simp: listener_types_def list_ex_iff)

lemma binary_search_sorted:
  assumes "sorted_wrt (\<lambda>a b. rank (f a) < rank (f b)) xs" and "inj rank"
  shows "case binary_search_by_key rank key f xs of
      Inr ix \<Rightarrow> key \<in> f ` set xs
    | Inl ix \<Rightarrow> key \<notin> f ` set xs \<and> ix \<le> length xs \<and>
        (\<forall>x \<in> set (take ix xs). rank (f x) < rank key) \<and> (\<forall>x \<in> set (drop ix xs). rank key < rank (f x))"
proof -
  let ?lt = "\<lambda>x. rank (f x) < rank key"
  let ?ix = "length (takeWhile ?lt xs)"
  have split: "take ?ix xs = takeWhile ?lt xs" "drop ?ix xs = dropWhile ?lt xs"
    by (simp_all add: takeWhile_eq_take [symmetric] dropWhile_eq_drop [symmetric])
  show ?thesis
  proof (cases "dropWhile ?lt xs")
    case Nil
    then have "\<forall>x \<in> set xs. ?lt x" by simp
    then have "key \<notin> f ` set xs" by auto
    moreover have "?ix = length xs" using Nil by (metis append_Nil2 takeWhile_dropWhile_id)
    ultimately show ?thesis using \<open>\<forall>x \<in> set xs. ?lt x\<close> by (simp add: binary_search_by_key_def Let_def)
  next
    case (Cons y ys)
    then have y: "\<not> ?lt y" and xs: "xs = takeWhile ?lt xs @ y # ys"
      by (auto simp: dropWhile_eq_Cons_conv)
    then have ix: "?ix < length xs" "xs ! ?ix = y" by (metis length_append length_Cons less_add_same_cancel1 zero_less_Suc, metis nth_append_length)
    have after: "rank (f y) < rank (f z)" if "z \<in> set ys" for z
      using assms(1) that by (subst (asm) xs) (simp add: sorted_wrt_append)
    have before: "?lt z" if "z \<in> set (takeWhile ?lt xs)" for z using that by (auto dest: set_takeWhileD)
    show ?thesis
    proof (cases "f y = key")
      case True
      then have "key \<in> f ` set xs" by (metis in_set_conv_decomp image_eqI xs)
      with ix True show ?thesis by (simp add: binary_search_by_key_def Let_def)
    next
      case False
      with assms(2) y have lt: "rank key < rank (f y)" by (metis injD linorder_neqE_nat)
      have "key \<notin> f ` set xs"
      proof
        assume "key \<in> f ` set xs"
        then obtain z where "z \<in> set (takeWhile ?lt xs @ y # ys)" "f z = key" using xs by auto
        with before [of z] after [of z] False y show False by auto
      qed
      moreover have "rank key < rank (f z)" if "z \<in> set ys" for z
        using after [OF that] lt by simp
      ultimately show ?thesis
        using False ix lt before by (auto simp: binary_search_by_key_def Let_def split Cons)
    qed
  qed
qed

lemma add_available_step:
  assumes "inj rank" and "\<And>ty a. build ty = Inr a \<Longrightarrow> act_type a = ty"
    and "sorted_wrt (\<lambda>a b. rank (act_type a) < rank (act_type b)) actions"
    and "\<forall>a \<in> set actions. build (act_type a) = Inr a"
  shows "sorted_wrt (\<lambda>a b. rank (act_type a) < rank (act_type b)) (add_available rank build ty actions)"
    and "set (add_available rank build ty actions) = set actions \<union> {a. build ty = Inr a}"
proof -
  note search = binary_search_sorted [OF assms(3,1), of ty]
  have both: "sorted_wrt (\<lambda>a b. rank (act_type a) < rank (act_type b)) (add_available rank build ty actions) \<and>
      set (add_available rank build ty actions) = set actions \<union> {a. build ty = Inr a}"
  proof (cases "binary_search_by_key rank ty act_type actions")
    case (Inr ix)
    with search assms(4) have "{a. build ty = Inr a} \<subseteq> set actions" by auto
    with Inr assms(3) show ?thesis by (auto simp: add_available_def)
  next
    case (Inl ix)
    show ?thesis
    proof (cases "build ty")
      case (Inr a)
      have "sorted_wrt (\<lambda>a b. rank (act_type a) < rank (act_type b)) (take ix actions @ drop ix actions)"
        using assms(3) by simp
      then have "sorted_wrt (\<lambda>a b. rank (act_type a) < rank (act_type b)) (insert_at ix a actions)"
        using search Inl assms(2) [OF Inr] unfolding insert_at_def sorted_wrt_append by auto
      moreover have "set (insert_at ix a actions) = insert a (set actions)"
        unfolding insert_at_def by (metis append_take_drop_id set_append Un_insert_right list.simps(15))
      ultimately show ?thesis using Inr Inl by (auto simp: add_available_def)
    qed (use Inl assms(3) in \<open>auto simp: add_available_def\<close>)
  qed
  from both show "sorted_wrt (\<lambda>a b. rank (act_type a) < rank (act_type b)) (add_available rank build ty actions)"
    "set (add_available rank build ty actions) = set actions \<union> {a. build ty = Inr a}" by simp_all
qed

lemma fold_add_available:
  assumes "inj rank" and "\<And>ty a. build ty = Inr a \<Longrightarrow> act_type a = ty"
  shows "sorted_wrt (\<lambda>a b. rank (act_type a) < rank (act_type b)) actions \<Longrightarrow>
    \<forall>a \<in> set actions. build (act_type a) = Inr a \<Longrightarrow>
    sorted_wrt (\<lambda>a b. rank (act_type a) < rank (act_type b)) (fold (add_available rank build) tys actions) \<and>
    set (fold (add_available rank build) tys actions) = set actions \<union> {a. \<exists>ty \<in> set tys. build ty = Inr a}"
proof (induction tys arbitrary: actions)
  case (Cons ty tys)
  note step = add_available_step [OF assms Cons.prems, of ty, simplified]
  have "\<forall>a \<in> set (add_available rank build ty actions). build (act_type a) = Inr a"
    using Cons.prems(2) assms(2) by (auto simp: step(2))
  from Cons.IH [OF step(1) this] show ?case by (auto simp: step(2))
qed simp

text \<open>
  C24. For a node of a well-formed tree, \<open>available_actions\<close> is the list, without duplicates and
  ordered by type, of the actions that can be built for the listeners on its dispatch path; an
  action in it is reported by \<open>is_action_available\<close>.
\<close>

theorem available_actions_spec:
  assumes "inj rank" and "\<And>ty a. build ty = Inr a \<Longrightarrow> act_type a = ty"
    and "parents_below (dt_nodes t)" and "target < length (dt_nodes t)"
  shows "\<exists>path actions. dispatch_path t target = Some path \<and>
    available_actions rank build t target = Some actions \<and>
    sorted_wrt (\<lambda>a b. rank (act_type a) < rank (act_type b)) actions \<and>
    set actions = {a. \<exists>i listener. i \<in> set path \<and>
      listener \<in> set (dn_action_listeners (dt_nodes t ! i)) \<and> build (fst listener) = Inr a} \<and>
    list_all (\<lambda>a. is_action_available t a target = Some True) actions"
proof -
  obtain up where up: "chain (dt_nodes t) (target # up)" using chain_exists [OF assms(3,4)] by blast
  define path where "path = rev (target # up)"
  define nodes where "nodes = map (\<lambda>i. dt_nodes t ! i) path"
  define actions where "actions = fold (add_available rank build) (listener_types nodes) []"
  have path: "dispatch_path t target = Some path"
    using path_up_chain [OF up] by (simp add: dispatch_path_def path_def)
  have nodes: "path_nodes t path = Some nodes"
    using chain_bound [OF up] by (auto simp: path_nodes_def list_all_iff nodes_def path_def)
  have actions: "sorted_wrt (\<lambda>a b. rank (act_type a) < rank (act_type b)) actions"
    "set actions = {a. \<exists>ty \<in> set (listener_types nodes). build ty = Inr a}"
    using fold_add_available [of rank build "[]" "listener_types nodes"] assms(1,2)
    by (simp_all add: actions_def)
  have types: "set (listener_types nodes) = {ty. \<exists>i \<in> set path. ty \<in> fst ` set (dn_action_listeners (dt_nodes t ! i))}"
    by (auto simp: listener_types_def nodes_def)
  have "is_action_available t a target = Some True" if "a \<in> set actions" for a
    using that actions(2) assms(2) by (auto simp: is_action_available_def path nodes any_action_listener_iff)
  moreover have "set actions = {a. \<exists>i listener. i \<in> set path \<and>
      listener \<in> set (dn_action_listeners (dt_nodes t ! i)) \<and> build (fst listener) = Inr a}"
    unfolding actions(2) types by force
  ultimately show ?thesis
    using path nodes actions(1)
    by (intro exI [of _ path] exI [of _ actions])
      (simp add: available_actions_def list_all_iff flip: actions_def)
qed

section \<open>Instances\<close>

lemma tree_dispatch_key_account_witness:
  "path_contexts sample_tree [0, 1] = Some [] \<and>
   (\<exists>r. tree_dispatch_key Linux (keymap_new example_bindings) sample_tree [] (kb_inner example_keystroke) [0, 1]
     = Some r \<and> length (dr_pending r) \<le> longest_binding (keymap_new example_bindings) - 1)"
proof -
  have "path_contexts sample_tree [0, 1] = Some []"
    by (simp add: path_contexts_def path_nodes_def sample_tree_def List.map_filter_simps)
  with tree_dispatch_key_account [OF this] show ?thesis by blast
qed

definition copy_binding :: key_binding where
  "copy_binding = \<lparr>kbd_action = Action ''editor::Copy'' [], kbd_keystrokes = [example_keystroke],
     kbd_context_predicate = None, kbd_meta = None, kbd_action_input = None\<rparr>"

lemma copy_keymap_lookup:
  "bindings_for_input Linux (keymap_new [copy_binding]) [kb_inner example_keystroke] [] = ([copy_binding], False)"
  by code_simp

lemma dispatch_key_no_no_action_witness:
  "\<exists>r. tree_dispatch_key Linux (keymap_new [copy_binding]) sample_tree [] (kb_inner example_keystroke) [0, 1]
      = Some r \<and> dr_bindings r = [copy_binding] \<and> \<not> is_no_action (kbd_action copy_binding)"
proof -
  let ?key = "tree_dispatch_key Linux (keymap_new [copy_binding]) sample_tree [] (kb_inner example_keystroke) [0, 1]"
  have "path_contexts sample_tree [0, 1] = Some []"
    by (simp add: path_contexts_def path_nodes_def sample_tree_def List.map_filter_simps)
  then have "?key = Some (dispatch_result_default\<lparr>dr_bindings := [copy_binding]\<rparr>)"
    by (simp add: tree_dispatch_key_def dispatch_key.simps copy_keymap_lookup dispatch_result_default_def)
  with dispatch_key_no_no_action [OF this, of copy_binding] show ?thesis
    by (simp add: dispatch_result_default_def)
qed

lemma available_actions_spec_witness:
  "\<exists>actions. available_actions (\<lambda>ty. to_nat ty) (\<lambda>ty. Inr (Action ty []) :: (string, action) result) sample_tree 1
     = Some actions"
  using available_actions_spec [of to_nat "\<lambda>ty. Inr (Action ty []) :: (string, action) result" sample_tree 1]
  by (auto simp: sample_tree_simps)

end
