(* ===== verification/Subscription.thy ===== *)
theory Subscription
  imports Prelude
begin

text \<open>
  Subscriber sets, from \<open>src/src/subscription.rs\<close>: callbacks registered per emitter, whose
  handles unsubscribe when they are dropped.  The set is shared and callbacks can use it while
  \<open>retain\<close> iterates over an emitter, so a callback is a function on the whole state.  The
  shared \<open>active\<close> cell of a subscriber is an entry of \<open>ss_active\<close>, named by its id.
\<close>

section \<open>Ordered maps\<close>

text \<open>A \<open>BTreeMap\<close> as the list of its entries in key order.\<close>

fun bt_insert :: "'k::linorder \<Rightarrow> 'v \<Rightarrow> ('k \<times> 'v) list \<Rightarrow> ('k \<times> 'v) list" where
  "bt_insert k v [] = [(k, v)]"
| "bt_insert k v ((k', v') # m) =
     (if k < k' then (k, v) # (k', v') # m
      else if k = k' then (k, v) # m
      else (k', v') # bt_insert k v m)"

definition bt_remove :: "'k \<Rightarrow> ('k \<times> 'v) list \<Rightarrow> ('k \<times> 'v) list" where
  "bt_remove k m = filter (\<lambda>(k', _). k' \<noteq> k) m"

definition bt_extend :: "('k::linorder \<times> 'v) list \<Rightarrow> ('k \<times> 'v) list \<Rightarrow> ('k \<times> 'v) list" where
  "bt_extend m new = fold (\<lambda>(k, v). bt_insert k v) new m"

abbreviation bt_ok :: "('k::linorder \<times> 'v) list \<Rightarrow> bool" where
  "bt_ok m \<equiv> sorted_wrt (<) (map fst m)"

lemma bt_insert_greatest: "(\<And>k'. k' \<in> fst ` set m \<Longrightarrow> k' < k) \<Longrightarrow> bt_insert k v m = m @ [(k, v)]"
  by (induction m) (auto simp: less_imp_not_less less_imp_not_eq2)

lemma bt_extend_greater:
  "bt_ok new \<Longrightarrow> (\<And>k k'. k \<in> fst ` set m \<Longrightarrow> k' \<in> fst ` set new \<Longrightarrow> k < k') \<Longrightarrow>
   bt_extend m new = m @ new"
proof (induction new arbitrary: m)
  case (Cons x new)
  obtain k v where x: "x = (k, v)" by (cases x)
  have "bt_insert k v m = m @ [(k, v)]" using Cons.prems(2) x by (intro bt_insert_greatest) auto
  moreover have "bt_extend (m @ [(k, v)]) new = (m @ [(k, v)]) @ new"
    using Cons.prems x by (intro Cons.IH) auto
  ultimately show ?case using x by (simp add: bt_extend_def)
qed (simp add: bt_extend_def)

lemma bt_remove_keys [simp]: "fst ` set (bt_remove k m) = fst ` set m - {k}"
  by (force simp: bt_remove_def)

lemma bt_ok_filter: "bt_ok m \<Longrightarrow> bt_ok (filter P m)"
  by (simp add: sorted_wrt_map sorted_wrt_filter)

lemma bt_ok_remove [simp]: "bt_ok m \<Longrightarrow> bt_ok (bt_remove k m)"
  by (simp add: bt_remove_def bt_ok_filter)

section \<open>State\<close>

text \<open>\<open>Some None\<close> marks an emitter whose subscribers \<open>retain\<close> has taken out.\<close>

record ('k, 'c) subscriber_set =
  ss_subscribers :: "'k \<rightharpoonup> (nat \<times> 'c) list option"
  ss_dropped :: "('k \<times> nat) set"
  ss_next_id :: nat
  ss_active :: "nat set"

definition subscriber_set_new :: "('k, 'c) subscriber_set" where
  "subscriber_set_new = \<lparr>ss_subscribers = Map.empty, ss_dropped = {}, ss_next_id = 0, ss_active = {}\<rparr>"

section \<open>Operations\<close>

definition subscriber_insert :: "'k \<Rightarrow> 'c \<Rightarrow> ('k, 'c) subscriber_set \<Rightarrow> nat \<times> ('k, 'c) subscriber_set" where
  "subscriber_insert emitter_key callback s =
     (let subscriber_id = ss_next_id s;
          subscribers = (case ss_subscribers s emitter_key of Some (Some m) \<Rightarrow> m | _ \<Rightarrow> [])
      in (subscriber_id, s
        \<lparr>ss_next_id := ss_next_id s + 1,
         ss_subscribers := (ss_subscribers s)(emitter_key \<mapsto> Some (bt_insert subscriber_id callback subscribers)),
         ss_active := ss_active s - {subscriber_id}\<rparr>))"

text \<open>The closure \<open>insert\<close> returns beside the subscription.\<close>

definition activate :: "nat \<Rightarrow> ('k, 'c) subscriber_set \<Rightarrow> ('k, 'c) subscriber_set" where
  "activate subscriber_id s = s\<lparr>ss_active := insert subscriber_id (ss_active s)\<rparr>"

text \<open>The closure held by the subscription.\<close>

definition unsubscribe :: "'k \<Rightarrow> nat \<Rightarrow> ('k, 'c) subscriber_set \<Rightarrow> ('k, 'c) subscriber_set" where
  "unsubscribe emitter_key subscriber_id s =
     (case ss_subscribers s emitter_key of
        None \<Rightarrow> s
      | Some (Some subscribers) \<Rightarrow>
          (let subscribers' = bt_remove subscriber_id subscribers
           in if subscribers' = [] then s\<lparr>ss_subscribers := (ss_subscribers s)(emitter_key := None)\<rparr>
              else s\<lparr>ss_subscribers := (ss_subscribers s)(emitter_key \<mapsto> Some subscribers')\<rparr>)
      | Some None \<Rightarrow> s\<lparr>ss_dropped := insert (emitter_key, subscriber_id) (ss_dropped s)\<rparr>)"

text \<open>The returned iterator checks the \<open>active\<close> cells as it is consumed, which the callers do at
  once; the model checks them at the call.\<close>

definition subscriber_remove :: "'k \<Rightarrow> ('k, 'c) subscriber_set \<Rightarrow> 'c list \<times> ('k, 'c) subscriber_set" where
  "subscriber_remove emitter s =
     (let subscribers = (case ss_subscribers s emitter of Some (Some m) \<Rightarrow> m | _ \<Rightarrow> [])
      in (map snd (filter (\<lambda>(i, _). i \<in> ss_active s) subscribers),
          s\<lparr>ss_subscribers := (ss_subscribers s)(emitter := None)\<rparr>))"

text \<open>A callback's run: whether to keep it, the callback it leaves, and the state after it.\<close>

type_synonym ('k, 'c) runner = "'c \<Rightarrow> ('k, 'c) subscriber_set \<Rightarrow> bool \<times> 'c \<times> ('k, 'c) subscriber_set"

fun retain_loop ::
    "('k, 'c) runner \<Rightarrow> (nat \<times> 'c) list \<Rightarrow> ('k, 'c) subscriber_set \<Rightarrow> (nat \<times> 'c) list \<times> ('k, 'c) subscriber_set"
where
  "retain_loop f [] s = ([], s)"
| "retain_loop f ((i, callback) # m) s =
     (if i \<in> ss_active s then
        (let (keep, callback', s) = f callback s; (m', s) = retain_loop f m s
         in (if keep then (i, callback') # m' else m', s))
      else (let (m', s) = retain_loop f m s in ((i, callback) # m', s)))"

text \<open>
  \<open>retain\<close>.  With debug assertions on, a dropped subscription of another emitter panics
  (\<open>None\<close>); in a release build it is only forgotten.
\<close>

definition subscriber_retain ::
    "bool \<Rightarrow> 'k \<Rightarrow> ('k, 'c) runner \<Rightarrow> ('k, 'c) subscriber_set \<Rightarrow> ('k, 'c) subscriber_set option" where
  "subscriber_retain debug_assertions emitter f s =
     (case ss_subscribers s emitter of
        Some (Some subscribers) \<Rightarrow>
          (let (subscribers, s) =
                 retain_loop f subscribers (s\<lparr>ss_subscribers := (ss_subscribers s)(emitter \<mapsto> None)\<rparr>);
               subscribers = (case ss_subscribers s emitter of
                                Some (Some new_subscribers) \<Rightarrow> bt_extend subscribers new_subscribers
                              | _ \<Rightarrow> subscribers);
               dropped = ss_dropped s;
               subscribers = filter (\<lambda>(i, _). i \<notin> snd ` dropped) subscribers;
               s = s\<lparr>ss_subscribers := (ss_subscribers s)(emitter := None), ss_dropped := {}\<rparr>
           in if debug_assertions \<and> \<not> fst ` dropped \<subseteq> {emitter} then None
              else if subscribers \<noteq> []
              then Some (s\<lparr>ss_subscribers := (ss_subscribers s)(emitter \<mapsto> Some subscribers)\<rparr>)
              else Some s)
      | _ \<Rightarrow> Some s)"

text \<open>Handles: the closure a subscription still holds.\<close>

type_synonym 's subscription = "('s \<Rightarrow> 's) option"

definition subscription_new :: "('s \<Rightarrow> 's) \<Rightarrow> 's subscription" where
  "subscription_new f = Some f"

definition subscription_drop :: "'s subscription \<Rightarrow> 's \<Rightarrow> 's" where
  "subscription_drop sub s = (case sub of Some f \<Rightarrow> f s | None \<Rightarrow> s)"

text \<open>\<open>detach\<close> takes the closure out, then the handle is dropped.\<close>

definition subscription_detach :: "'s subscription \<Rightarrow> 's \<Rightarrow> 's" where
  "subscription_detach sub s = subscription_drop None s"

definition subscription_join :: "'s subscription \<Rightarrow> 's subscription \<Rightarrow> 's subscription" where
  "subscription_join a b =
     subscription_new (\<lambda>s. let s = (case a of Some f \<Rightarrow> f s | None \<Rightarrow> s)
                           in case b of Some g \<Rightarrow> g s | None \<Rightarrow> s)"

section \<open>The invariant\<close>

definition listed_ids :: "('k, 'c) subscriber_set \<Rightarrow> 'k \<Rightarrow> nat set" where
  "listed_ids s k = (case ss_subscribers s k of Some (Some m) \<Rightarrow> fst ` set m | _ \<Rightarrow> {})"

definition subs_wf :: "('k, 'c) subscriber_set \<Rightarrow> bool" where
  "subs_wf s \<longleftrightarrow>
     (\<forall>k m. ss_subscribers s k = Some (Some m) \<longrightarrow> m \<noteq> [] \<and> bt_ok m) \<and>
     (\<forall>k. listed_ids s k \<subseteq> {..<ss_next_id s}) \<and>
     (\<forall>k k'. k \<noteq> k' \<longrightarrow> listed_ids s k \<inter> listed_ids s k' = {})"

text \<open>What any use of the set keeps: ids grow, and no id is listed anew.\<close>

definition evolves :: "('k, 'c) subscriber_set \<Rightarrow> ('k, 'c) subscriber_set \<Rightarrow> bool" where
  "evolves s s' \<longleftrightarrow> ss_next_id s \<le> ss_next_id s' \<and>
     (\<forall>k i. i \<in> listed_ids s' k \<longrightarrow> i < ss_next_id s \<longrightarrow> i \<in> listed_ids s k)"

lemma evolves_refl [simp]: "evolves s s"
  by (simp add: evolves_def)

lemma evolves_trans: "evolves s s' \<Longrightarrow> evolves s' s'' \<Longrightarrow> evolves s s''"
  unfolding evolves_def by (meson order.strict_trans2 order.trans)

lemma subs_wf_new [simp]: "subs_wf subscriber_set_new"
  by (simp add: subs_wf_def subscriber_set_new_def listed_ids_def)

lemma insert_ids:
  assumes "subs_wf s"
  shows "bt_insert (ss_next_id s) c (case ss_subscribers s k of Some (Some m) \<Rightarrow> m | _ \<Rightarrow> []) =
    (case ss_subscribers s k of Some (Some m) \<Rightarrow> m | _ \<Rightarrow> []) @ [(ss_next_id s, c)]"
proof -
  have "fst ` set (case ss_subscribers s k of Some (Some m) \<Rightarrow> m | _ \<Rightarrow> []) = listed_ids s k"
    by (auto simp: listed_ids_def split: option.split)
  then show ?thesis using assms by (intro bt_insert_greatest) (auto simp: subs_wf_def)
qed

lemma insert_wf:
  assumes "subs_wf s" and "subscriber_insert k c s = (i, s')"
  shows "subs_wf s'" and "evolves s s'" and "i \<in> listed_ids s' k" and "i = ss_next_id s"
proof -
  let ?m = "case ss_subscribers s k of Some (Some m) \<Rightarrow> m | _ \<Rightarrow> []"
  have s': "i = ss_next_id s" "ss_next_id s' = Suc (ss_next_id s)"
    "ss_subscribers s' = (ss_subscribers s)(k \<mapsto> Some (?m @ [(i, c)]))"
    using assms(2) insert_ids [OF assms(1), of c k] by (auto simp: subscriber_insert_def Let_def)
  have ids: "listed_ids s' k' = (if k' = k then insert i (listed_ids s k) else listed_ids s k')" for k'
    by (auto simp: listed_ids_def s'(3) split: option.split)
  have bound: "j < ss_next_id s" if "j \<in> listed_ids s k'" for j k' using assms(1) that by (auto simp: subs_wf_def)
  have "fst ` set ?m = listed_ids s k" by (auto simp: listed_ids_def split: option.split)
  then have "j < i" if "j \<in> set (map fst ?m)" for j
    using bound [of j k] that unfolding s'(1) set_map by blast
  moreover have "bt_ok ?m" using assms(1) by (auto simp: subs_wf_def split: option.split)
  ultimately have "bt_ok (?m @ [(i, c)])" by (simp add: sorted_wrt_append)
  then show "subs_wf s'"
    using assms(1) bound unfolding subs_wf_def ids s'(2,3)
    by (auto simp: s'(1) dest: bound less_imp_le intro: less_SucI)
  show "evolves s s'" "i \<in> listed_ids s' k" "i = ss_next_id s"
    using s'(1,2) by (auto simp: evolves_def ids)
qed

lemma unsubscribe_ids:
  "listed_ids (unsubscribe k i s) k' =
     (if k' = k \<and> ss_subscribers s k \<noteq> Some None then listed_ids s k - {i} else listed_ids s k')"
proof (cases "ss_subscribers s k")
  case (Some o')
  then show ?thesis
  proof (cases o')
    case (Some m)
    have "bt_remove i m = [] \<Longrightarrow> fst ` set m - {i} = {}" using bt_remove_keys [of i m] by auto
    with \<open>ss_subscribers s k = Some o'\<close> Some show ?thesis
      by (auto simp: unsubscribe_def listed_ids_def Let_def)
  qed (simp add: unsubscribe_def listed_ids_def)
qed (simp add: unsubscribe_def listed_ids_def)

lemma unsubscribe_wf:
  assumes "subs_wf s"
  shows "subs_wf (unsubscribe k i s)" and "evolves s (unsubscribe k i s)"
proof -
  have next_id: "ss_next_id (unsubscribe k i s) = ss_next_id s"
    by (simp add: unsubscribe_def Let_def split: option.split)
  have sub: "listed_ids (unsubscribe k i s) k' \<subseteq> listed_ids s k'" for k'
    by (auto simp: unsubscribe_ids)
  have "m \<noteq> [] \<and> bt_ok m" if "ss_subscribers (unsubscribe k i s) k' = Some (Some m)" for k' m
    using that assms by (auto simp: unsubscribe_def Let_def subs_wf_def split: option.splits if_splits)
  then show "subs_wf (unsubscribe k i s)"
    using assms sub unfolding subs_wf_def next_id by blast
  show "evolves s (unsubscribe k i s)"
    using sub by (auto simp: evolves_def next_id)
qed

lemma subscriber_remove_wf:
  assumes "subs_wf s"
  shows "subs_wf (snd (subscriber_remove k s))" and "evolves s (snd (subscriber_remove k s))"
    and "listed_ids (snd (subscriber_remove k s)) k = {}"
  using assms by (auto simp: subscriber_remove_def Let_def subs_wf_def listed_ids_def evolves_def)

lemma activate_wf [simp]: "subs_wf (activate i s) = subs_wf s" "evolves s (activate i s)"
  by (simp_all add: activate_def subs_wf_def listed_ids_def evolves_def)

text \<open>A callback's run is well behaved if it keeps the invariant and evolves the state.\<close>

definition well_behaved :: "('k, 'c) runner \<Rightarrow> bool" where
  "well_behaved f \<longleftrightarrow>
     (\<forall>c s. subs_wf s \<longrightarrow> subs_wf (snd (snd (f c s))) \<and> evolves s (snd (snd (f c s))))"

lemma kept_entry:
  assumes "set (map fst m2) \<subseteq> set (map fst m)" and "bt_ok m \<Longrightarrow> bt_ok m2" and "bt_ok ((i, c) # m)"
  shows "bt_ok ((i, c') # m2)"
proof -
  have "i < x" if "x \<in> set (map fst m2)" for x
    using assms(1,3) that by (auto simp del: set_map dest!: subsetD)
  then show ?thesis using assms(2,3) by (simp del: set_map)
qed
lemma kept_step:
  assumes "fst ` set m2 \<subseteq> fst ` set m" and "bt_ok m \<longrightarrow> bt_ok m2" 
  shows "fst ` set (if keep then (i, c') # m2 else m2) \<subseteq> fst ` set ((i, c) # m) \<and>
     (bt_ok ((i, c) # m) \<longrightarrow> bt_ok (if keep then (i, c') # m2 else m2))"
  using assms kept_entry [of m2 m i c c'] by auto

lemma retain_loop_wf:
  assumes "well_behaved f"
  shows "subs_wf s \<Longrightarrow> retain_loop f m s = (m', s') \<Longrightarrow>
    subs_wf s' \<and> evolves s s' \<and> fst ` set m' \<subseteq> fst ` set m \<and> (bt_ok m \<longrightarrow> bt_ok m')"
proof (induction m arbitrary: s m' s')
  case (Cons x m)
  obtain i c where x: "x = (i, c)" by (cases x)
  show ?case
  proof (cases "i \<in> ss_active s")
    case True
    obtain keep c' s1 where f: "f c s = (keep, c', s1)" by (cases "f c s") auto
    obtain m2 where loop: "retain_loop f m s1 = (m2, s')" and m': "m' = (if keep then (i, c') # m2 else m2)"
      using Cons.prems(2) True by (auto simp: x f split: prod.splits)
    have "subs_wf (snd (snd (f c s))) \<and> evolves s (snd (snd (f c s)))"
      using assms Cons.prems(1) unfolding well_behaved_def by blast
    then have s1: "subs_wf s1" "evolves s s1" by (simp_all add: f)
    from Cons.IH [OF s1(1) loop] have IH: "subs_wf s'" "evolves s1 s'" "fst ` set m2 \<subseteq> fst ` set m"
      "bt_ok m \<longrightarrow> bt_ok m2" by simp_all
    from evolves_trans [OF s1(2) IH(2)] IH(1) kept_step [OF IH(3,4), of keep i c' c] show ?thesis
      unfolding m' x by blast
  next
    case False
    then obtain m2 where loop: "retain_loop f m s = (m2, s')" and m': "m' = (i, c) # m2"
      using Cons.prems(2) by (auto simp: x split: prod.splits)
    from Cons.IH [OF Cons.prems(1) loop] have IH: "subs_wf s'" "evolves s s'" "fst ` set m2 \<subseteq> fst ` set m"
      "bt_ok m \<longrightarrow> bt_ok m2" by simp_all
    from IH(1,2) kept_step [OF IH(3,4), of True i c c] show ?thesis
      unfolding m' x by simp
  qed
qed auto

text \<open>What \<open>retain\<close> does with the subscribers it took out and the state its callbacks left.\<close>

lemma subscriber_retain_eq:
  assumes "ss_subscribers s k = Some (Some m)"
    and "retain_loop f m (s\<lparr>ss_subscribers := (ss_subscribers s)(k \<mapsto> None)\<rparr>) = (m1, s1)"
    and "subscriber_retain dbg k f s = Some s'"
    and "m2 = filter (\<lambda>(i, _). i \<notin> snd ` ss_dropped s1)
        (case ss_subscribers s1 k of Some (Some new) \<Rightarrow> bt_extend m1 new | _ \<Rightarrow> m1)"
  shows "ss_subscribers s' = (ss_subscribers s1)(k := if m2 = [] then None else Some (Some m2))"
    "ss_next_id s' = ss_next_id s1" "ss_dropped s' = {}" "ss_active s' = ss_active s1"
  using assms(3) by (auto simp: subscriber_retain_def assms(1,2,4) Let_def split: if_splits)

lemma subscriber_retain_wf:
  assumes "well_behaved f" and "subs_wf s" and "subscriber_retain dbg k f s = Some s'"
  shows "subs_wf s' \<and> evolves s s'"
proof (cases "\<exists>m. ss_subscribers s k = Some (Some m)")
  case False
  with assms(2,3) show ?thesis by (auto simp: subscriber_retain_def split: option.splits)
next
  case True
  then obtain m where m: "ss_subscribers s k = Some (Some m)" by blast
  let ?s0 = "s\<lparr>ss_subscribers := (ss_subscribers s)(k \<mapsto> None)\<rparr>"
  have ids0: "listed_ids ?s0 k' = (if k' = k then {} else listed_ids s k')" for k'
    by (simp add: listed_ids_def)
  have s0: "subs_wf ?s0" using assms(2) unfolding subs_wf_def ids0 by (auto simp: ids0)
  have mok: "bt_ok m" "fst ` set m = listed_ids s k" using assms(2) m by (auto simp: subs_wf_def listed_ids_def)
  obtain m1 s1 where loop: "retain_loop f m ?s0 = (m1, s1)" by fastforce
  from retain_loop_wf [OF assms(1) s0 loop] mok have
    s1: "subs_wf s1" "evolves ?s0 s1" "fst ` set m1 \<subseteq> listed_ids s k" "bt_ok m1" by auto
  let ?new = "case ss_subscribers s1 k of Some (Some new) \<Rightarrow> new | _ \<Rightarrow> []"
  define m2 where "m2 = filter (\<lambda>(i, _). i \<notin> snd ` ss_dropped s1)
      (case ss_subscribers s1 k of Some (Some new) \<Rightarrow> bt_extend m1 new | _ \<Rightarrow> m1)"
  have new: "fst ` set ?new = listed_ids s1 k" "bt_ok ?new"
    using s1(1) by (auto simp: listed_ids_def subs_wf_def split: option.split)
  have old: "i < ss_next_id s" if "i \<in> listed_ids s k'" for i k' using assms(2) that by (auto simp: subs_wf_def)
  have fresh: "ss_next_id s \<le> i" if "i \<in> listed_ids s1 k" for i
  proof (rule ccontr)
    assume "\<not> ss_next_id s \<le> i"
    with s1(2) that have "i \<in> listed_ids ?s0 k" by (simp add: evolves_def)
    then show False by (simp add: ids0)
  qed
  have less: "i < j" if "i \<in> fst ` set m1" "j \<in> fst ` set ?new" for i j
  proof -
    from that(1) s1(3) have "i < ss_next_id s" by (intro old [of i k]) blast
    also from that(2) have "ss_next_id s \<le> j" unfolding new(1) by (rule fresh)
    finally show ?thesis .
  qed
  have "(case ss_subscribers s1 k of Some (Some new) \<Rightarrow> bt_extend m1 new | _ \<Rightarrow> m1) = bt_extend m1 ?new"
    by (simp add: bt_extend_def split: option.split)
  then have "(case ss_subscribers s1 k of Some (Some new) \<Rightarrow> bt_extend m1 new | _ \<Rightarrow> m1) = m1 @ ?new"
    by (rule trans [OF _ bt_extend_greater [OF new(2) less]])
  then have m2: "m2 = filter (\<lambda>(i, _). i \<notin> snd ` ss_dropped s1) (m1 @ ?new)" by (simp add: m2_def)
  have m2ok: "bt_ok m2"
    unfolding m2 using s1(4) new(2) less by (intro bt_ok_filter) (auto simp: sorted_wrt_append)
  have m2ids: "fst ` set m2 \<subseteq> listed_ids s k \<union> listed_ids s1 k"
  proof -
    have "set m2 \<subseteq> set m1 \<union> set ?new" unfolding m2 set_append [symmetric] by (rule filter_is_subset)
    then have "fst ` set m2 \<subseteq> fst ` set m1 \<union> fst ` set ?new" unfolding image_Un [symmetric] by (rule image_mono)
    then show ?thesis using s1(3) unfolding new(1) by blast
  qed
  note s' = subscriber_retain_eq [OF m loop assms(3) m2_def]
  have ids: "listed_ids s' k' = (if k' = k then fst ` set m2 else listed_ids s1 k')" for k'
    by (simp add: listed_ids_def s'(1))
  have next_id: "ss_next_id s \<le> ss_next_id s1" using s1(2) by (simp add: evolves_def)
  have others: "i \<notin> listed_ids s1 k'" if "k' \<noteq> k" "i \<in> fst ` set m2" for i k'
  proof
    assume i: "i \<in> listed_ids s1 k'"
    have "listed_ids s1 k \<inter> listed_ids s1 k' = {}" "listed_ids s k \<inter> listed_ids s k' = {}"
      using s1(1) assms(2) that(1) unfolding subs_wf_def by blast+
    moreover from this that(2) m2ids i have "i \<in> listed_ids s k" by blast
    moreover from this i s1(2) old [of i k] have "i \<in> listed_ids ?s0 k'" by (simp add: evolves_def)
    then have "i \<in> listed_ids s k'" using that(1) by (simp add: ids0)
    ultimately show False by blast
  qed
  have below: "i < ss_next_id s1" if "i \<in> listed_ids s1 k'" for i k'
    using s1(1) that by (auto simp: subs_wf_def)
  have in_s': "i \<in> listed_ids s1 k' \<or> (k' = k \<and> i \<in> listed_ids s k)" if "i \<in> listed_ids s' k'" for i k'
    using that m2ids unfolding ids by (cases "k' = k") auto
  have bound: "i < ss_next_id s'" if "i \<in> listed_ids s' k'" for i k'
    using in_s' [OF that] below [of i k'] old [of i k] next_id unfolding s'(2) by auto
  have "subs_wf s'"
    unfolding subs_wf_def
  proof (intro conjI)
    show "\<forall>k' m'. ss_subscribers s' k' = Some (Some m') \<longrightarrow> m' \<noteq> [] \<and> bt_ok m'"
      using s1(1) m2ok unfolding s'(1) subs_wf_def by (auto split: if_splits)
    show "\<forall>k'. listed_ids s' k' \<subseteq> {..<ss_next_id s'}" using bound by auto
    have "listed_ids s' k1 \<inter> listed_ids s' k2 = {}" if "k1 \<noteq> k2" for k1 k2
      using that others s1(1) by (cases "k1 = k \<or> k2 = k") (auto simp: ids subs_wf_def)
    then show "\<forall>k1 k2. k1 \<noteq> k2 \<longrightarrow> listed_ids s' k1 \<inter> listed_ids s' k2 = {}" by blast
  qed
  moreover have "evolves s s'"
    unfolding evolves_def s'(2)
  proof (intro conjI allI impI next_id)
    fix k' i assume "i \<in> listed_ids s' k'" and i: "i < ss_next_id s"
    from in_s' [OF this(1)] show "i \<in> listed_ids s k'"
    proof
      assume "i \<in> listed_ids s1 k'"
      with s1(2) i have "i \<in> listed_ids ?s0 k'" by (simp add: evolves_def)
      then show ?thesis by (simp add: ids0 split: if_splits)
    qed simp
  qed
  ultimately show ?thesis ..
qed

section \<open>Any use of a set\<close>

text \<open>Sequences of operations, where the callbacks of \<open>retain\<close> use the set in the same way.\<close>

inductive uses :: "bool \<Rightarrow> ('k, 'c) subscriber_set \<Rightarrow> ('k, 'c) subscriber_set \<Rightarrow> bool" for dbg where
  nothing: "uses dbg s s"
| inserts: "uses dbg s s1 \<Longrightarrow> subscriber_insert k c s1 = (i, s2) \<Longrightarrow> uses dbg s s2"
| activates: "uses dbg s s1 \<Longrightarrow> uses dbg s (activate i s1)"
| unsubscribes: "uses dbg s s1 \<Longrightarrow> uses dbg s (unsubscribe k i s1)"
| removes: "uses dbg s s1 \<Longrightarrow> uses dbg s (snd (subscriber_remove k s1))"
| retains: "uses dbg s s1 \<Longrightarrow> (\<And>c t. uses dbg t (snd (snd (f c t)))) \<Longrightarrow>
    subscriber_retain dbg k f s1 = Some s2 \<Longrightarrow> uses dbg s s2"

lemma uses_wf_evolves: "uses dbg s s' \<Longrightarrow> subs_wf s \<Longrightarrow> subs_wf s' \<and> evolves s s'"
proof (induction rule: uses.induct)
  case (inserts s s1 k c i s2)
  then have "subs_wf s1" "evolves s s1" by simp_all
  then show ?case using insert_wf [OF _ inserts(2)] by (auto intro: evolves_trans)
next
  case (activates s s1 i)
  then show ?case by (auto intro: evolves_trans)
next
  case (unsubscribes s s1 k i)
  then show ?case using unsubscribe_wf [of s1 k i] by (auto intro: evolves_trans)
next
  case (removes s s1 k)
  then show ?case using subscriber_remove_wf [of s1 k] by (auto intro: evolves_trans)
next
  case (retains s s1 f k s2)
  have "well_behaved f" using retains.IH(2) by (simp add: well_behaved_def)
  moreover have s1: "subs_wf s1" "evolves s s1" using retains.IH(1) retains.prems by simp_all
  ultimately have "subs_wf s2 \<and> evolves s1 s2" using retains.hyps(3) by (intro subscriber_retain_wf)
  with s1 show ?case by (auto intro: evolves_trans)
qed auto

text \<open>
  C33. Whatever is done with a fresh subscriber set, in whatever order and however deeply
  callbacks use it again: the subscribers of each emitter stay ordered by id, no id is listed
  for two emitters, every id was handed out by \<open>insert\<close>, and none is handed out twice.
\<close>

theorem subscriber_set_invariant:
  assumes "uses dbg subscriber_set_new s"
  shows "subs_wf s \<and> (\<forall>k c. fst (subscriber_insert k c s) = ss_next_id s) \<and>
    \<not> (\<exists>k. ss_next_id s \<in> listed_ids s k)"
proof -
  have wf: "subs_wf s" using uses_wf_evolves [OF assms] by simp
  then have "ss_next_id s \<notin> listed_ids s k" for k by (auto simp: subs_wf_def)
  with wf show ?thesis by (simp add: subscriber_insert_def Let_def)
qed

text \<open>
  C29. A subscription dropped while its emitter is not being notified is gone for good: no
  further use of the set lists it again, so neither \<open>retain\<close> nor \<open>remove\<close> yields its callback.
\<close>

theorem unsubscribed_stays_off:
  assumes "subs_wf s" and "i \<in> listed_ids s k" and "uses dbg (unsubscribe k i s) s'"
  shows "i \<notin> listed_ids s' k"
proof -
  from assms(2) have listed: "ss_subscribers s k \<noteq> Some None" by (auto simp: listed_ids_def)
  note wf = unsubscribe_wf [OF assms(1), of k i]
  from assms(1,2) have "i < ss_next_id s" by (auto simp: subs_wf_def)
  with wf(2) have "i < ss_next_id (unsubscribe k i s)" by (simp add: evolves_def)
  moreover have "evolves (unsubscribe k i s) s'" using uses_wf_evolves [OF assms(3) wf(1)] by simp
  ultimately have "i \<in> listed_ids s' k \<Longrightarrow> i \<in> listed_ids (unsubscribe k i s) k" by (auto simp: evolves_def)
  with listed show ?thesis by (auto simp: unsubscribe_ids)
qed

section \<open>Notifying\<close>

text \<open>A callback that drops some subscriptions of the emitter being notified, and nothing else.\<close>

definition dropping :: "'k \<Rightarrow> ('c \<Rightarrow> bool) \<Rightarrow> ('c \<Rightarrow> nat list) \<Rightarrow> ('k, 'c) runner" where
  "dropping k keep drops c s = (keep c, c, fold (unsubscribe k) (drops c) s)"

lemma fold_unsubscribe_taken:
  "ss_subscribers s k = Some None \<Longrightarrow>
   fold (unsubscribe k) ids s = s\<lparr>ss_dropped := Pair k ` set ids \<union> ss_dropped s\<rparr>"
  by (induction ids arbitrary: s) (auto simp: unsubscribe_def)

lemma retain_loop_dropping:
  "ss_subscribers s k = Some None \<Longrightarrow>
   retain_loop (dropping k keep drops) m s =
     (filter (\<lambda>(i, c). i \<in> ss_active s \<longrightarrow> keep c) m,
      s\<lparr>ss_dropped := Pair k ` {j. \<exists>i c. (i, c) \<in> set m \<and> i \<in> ss_active s \<and> j \<in> set (drops c)} \<union> ss_dropped s\<rparr>)"
proof (induction m arbitrary: s)
  case (Cons x m)
  obtain i c where x: "x = (i, c)" by (cases x)
  let ?s = "s\<lparr>ss_dropped := Pair k ` set (drops c) \<union> ss_dropped s\<rparr>"
  show ?case
  proof (cases "i \<in> ss_active s")
    case True
    have "fold (unsubscribe k) (drops c) s = ?s" by (rule fold_unsubscribe_taken [OF Cons.prems])
    moreover have "ss_subscribers ?s k = Some None" using Cons.prems by simp
    ultimately show ?thesis
      using True Cons.IH [of ?s] by (auto simp: x dropping_def Let_def intro!: arg_cong [where f = "\<lambda>d. s\<lparr>ss_dropped := d\<rparr>"])
  next
    case False
    then show ?thesis using Cons by (auto simp: x intro!: arg_cong [where f = "\<lambda>d. s\<lparr>ss_dropped := d\<rparr>"])
  qed
qed simp

text \<open>
  Notifying an emitter whose callbacks at most drop its subscriptions: afterwards exactly
  those subscribers are listed, in the same order, that were inactive or asked to stay, and
  that no notified callback dropped; all other emitters are untouched.
\<close>

theorem retain_dropping:
  assumes "ss_subscribers s k = Some (Some m)" and "ss_dropped s = {}"
  shows "\<exists>s'. subscriber_retain dbg k (dropping k keep drops) s = Some s' \<and> ss_dropped s' = {} \<and>
    (case ss_subscribers s' k of Some (Some m') \<Rightarrow> m' | _ \<Rightarrow> []) =
      filter (\<lambda>(i, c). (i \<in> ss_active s \<longrightarrow> keep c) \<and>
        \<not> (\<exists>j d. (j, d) \<in> set m \<and> j \<in> ss_active s \<and> i \<in> set (drops d))) m \<and>
    \<not> (\<exists>k'. k' \<noteq> k \<and> ss_subscribers s' k' \<noteq> ss_subscribers s k')"
proof -
  let ?s0 = "s\<lparr>ss_subscribers := (ss_subscribers s)(k \<mapsto> None)\<rparr>"
  let ?gone = "{j. \<exists>i c. (i, c) \<in> set m \<and> i \<in> ss_active s \<and> j \<in> set (drops c)}"
  have loop: "retain_loop (dropping k keep drops) m ?s0 =
      (filter (\<lambda>(i, c). i \<in> ss_active s \<longrightarrow> keep c) m, ?s0\<lparr>ss_dropped := Pair k ` ?gone\<rparr>)"
    using retain_loop_dropping [of ?s0 k keep drops m] assms(2) by simp
  have gone: "snd ` Pair k ` ?gone = ?gone" "fst ` Pair k ` ?gone \<subseteq> {k}" by (auto simp: image_image)
  have "filter (\<lambda>(i, _). i \<notin> ?gone) (filter (\<lambda>(i, c). i \<in> ss_active s \<longrightarrow> keep c) m) =
      filter (\<lambda>(i, c). (i \<in> ss_active s \<longrightarrow> keep c) \<and>
        \<not> (\<exists>j d. (j, d) \<in> set m \<and> j \<in> ss_active s \<and> i \<in> set (drops d))) m"
    unfolding filter_filter by (rule filter_cong) auto
  then show ?thesis
    using gone(2) by (simp add: subscriber_retain_def assms(1) loop gone(1) Let_def)
qed

section \<open>Dropping a subscription while its emitter is notified\<close>

text \<open>Two active subscribers, of the emitters 0 and 1.\<close>

definition two_subscribers :: "(nat, nat) subscriber_set" where
  "two_subscribers = activate 0 (activate 1
     (snd (subscriber_insert 1 0 (snd (subscriber_insert 0 0 subscriber_set_new)))))"

text \<open>Callbacks that subscribe anew, or notify another emitter, and drop their own subscription.\<close>

definition resubscribing :: "(nat, nat) runner" where
  "resubscribing c s = (True, c, unsubscribe 0 0 (snd (subscriber_insert 0 1 s)))"

definition notifying :: "bool \<Rightarrow> (nat, nat) runner" where
  "notifying dbg c s = (True, c,
     case subscriber_retain dbg 1 (\<lambda>c s. (True, c, s)) (unsubscribe 0 0 s) of Some s' \<Rightarrow> s' | None \<Rightarrow> s)"

text \<open>
  A subscription that its own callback drops can survive, and is then notified again: when
  the callback has subscribed to the same emitter first, or, in a release build, when it then
  notifies another emitter.  In a build with debug assertions the nested notification panics.
\<close>

theorem dropped_subscription_survives:
  "(\<exists>s'. subscriber_retain True 0 resubscribing two_subscribers = Some s' \<and> 0 \<in> listed_ids s' 0) \<and>
   (\<exists>s'. subscriber_retain False 0 (notifying False) two_subscribers = Some s' \<and> 0 \<in> listed_ids s' 0) \<and>
   subscriber_retain True 1 (\<lambda>c s. (True, c, s)) (unsubscribe 0 0
     (two_subscribers\<lparr>ss_subscribers := (ss_subscribers two_subscribers)(0 \<mapsto> None)\<rparr>)) = None"
  by (simp add: subscriber_retain_def two_subscribers_def resubscribing_def notifying_def
      subscriber_insert_def unsubscribe_def activate_def subscriber_set_new_def listed_ids_def
      bt_remove_def bt_extend_def Let_def)

section \<open>Handles\<close>

lemma subscription_join_drop:
  "subscription_drop (subscription_join a b) s = subscription_drop b (subscription_drop a s)"
  by (simp add: subscription_drop_def subscription_join_def subscription_new_def Let_def split: option.split)

section \<open>Instances\<close>

lemma two_subscribers_wf: "subs_wf two_subscribers"
  by (auto simp: two_subscribers_def subscriber_insert_def activate_def subscriber_set_new_def
      subs_wf_def listed_ids_def Let_def split: if_splits)

lemma subscriber_set_invariant_witness:
  "subs_wf (activate 0 (snd (subscriber_insert (5::nat) (1::nat) subscriber_set_new)))"
proof -
  obtain i s where s: "subscriber_insert (5::nat) (1::nat) subscriber_set_new = (i, s)" by fastforce
  have "uses True subscriber_set_new (activate 0 s)"
    by (rule uses.activates [OF uses.inserts [OF uses.nothing s]])
  from subscriber_set_invariant [OF this] s show ?thesis by simp
qed

lemma unsubscribed_stays_off_witness:
  "0 \<in> listed_ids two_subscribers 0 \<and> 0 \<notin> listed_ids (activate 0 (unsubscribe 0 0 two_subscribers)) 0"
proof -
  have listed: "0 \<in> listed_ids two_subscribers 0"
    by (simp add: two_subscribers_def subscriber_insert_def activate_def subscriber_set_new_def listed_ids_def Let_def)
  from unsubscribed_stays_off [OF two_subscribers_wf this uses.activates [OF uses.nothing]] listed
  show ?thesis by blast
qed

lemma retain_dropping_witness:
  "\<exists>s'. subscriber_retain True 0 (dropping 0 (\<lambda>_. True) (\<lambda>_. [0])) two_subscribers = Some s' \<and>
     (case ss_subscribers s' 0 of Some (Some m') \<Rightarrow> m' | _ \<Rightarrow> []) = []"
proof -
  have "ss_subscribers two_subscribers 0 = Some (Some [(0, 0)])" "ss_dropped two_subscribers = {}"
    "0 \<in> ss_active two_subscribers"
    by (simp_all add: two_subscribers_def subscriber_insert_def activate_def subscriber_set_new_def Let_def)
  with retain_dropping [OF this(1,2), of True "\<lambda>_. True" "\<lambda>_. [0]"] show ?thesis by auto
qed

end
