(* ===== verification/Arena.thy ===== *)
theory Arena
  imports Prelude
begin

text \<open>
  The element arena, from \<open>src/src/arena.rs\<close>: bump allocation in chunks, the list of values to
  drop, and the validity cell that arena boxes check before they are dereferenced.  Addresses
  are natural numbers; the answers of the system allocator are an argument.  A value is known
  by its layout, which determines its drop function.  The state holds every validity cell ever
  made, since boxes keep old ones alive.
\<close>

section \<open>State\<close>

record layout =
  l_size :: nat
  l_align :: nat

record chunk =
  ch_start :: nat
  ch_end :: nat
  ch_offset :: nat

record arena_element =
  el_value :: nat
  el_layout :: layout

record arena =
  ar_chunks :: "chunk list"
  ar_elements :: "arena_element list"
  ar_valid :: nat
  ar_current :: nat
  ar_chunk_size :: nat
  ar_cells :: "bool list"

record arena_box =
  bx_ptr :: nat
  bx_valid :: nat

section \<open>Chunks\<close>

definition chunk_new :: "nat \<Rightarrow> nat \<Rightarrow> chunk" where
  "chunk_new start chunk_size = \<lparr>ch_start = start, ch_end = start + chunk_size, ch_offset = start\<rparr>"

text \<open>\<open>align_offset\<close> of a byte pointer: the distance to the next multiple.\<close>

definition align_offset :: "nat \<Rightarrow> nat \<Rightarrow> nat" where
  "align_offset ptr align = (align - ptr mod align) mod align"

definition chunk_allocate :: "layout \<Rightarrow> chunk \<Rightarrow> (nat \<times> chunk) option" where
  "chunk_allocate layout c =
     (let aligned = ch_offset c + align_offset (ch_offset c) (l_align layout);
          next = aligned + l_size layout
      in if next \<le> ch_end c then
           if aligned \<noteq> 0 then Some (aligned, c\<lparr>ch_offset := next\<rparr>) else None
         else None)"

definition chunk_reset :: "chunk \<Rightarrow> chunk" where
  "chunk_reset c = c\<lparr>ch_offset := ch_start c\<rparr>"

section \<open>The arena\<close>

text \<open>\<open>None\<close> is the panic on a chunk size of zero.\<close>

definition arena_new :: "nat \<Rightarrow> nat \<Rightarrow> arena option" where
  "arena_new start chunk_size =
     (if chunk_size = 0 then None
      else Some \<lparr>ar_chunks = [chunk_new start chunk_size], ar_elements = [], ar_valid = 0,
                 ar_current = 0, ar_chunk_size = chunk_size, ar_cells = [True]\<rparr>)"

definition arena_capacity :: "arena \<Rightarrow> nat" where
  "arena_capacity a = length (ar_chunks a) * ar_chunk_size a"

text \<open>\<open>clear\<close> returns the values it drops, in order.\<close>

definition arena_clear :: "arena \<Rightarrow> arena_element list \<times> arena" where
  "arena_clear a =
     (ar_elements a, a
        \<lparr>ar_cells := (ar_cells a)[ar_valid a := False] @ [True],
         ar_valid := length (ar_cells a),
         ar_elements := [],
         ar_chunks := map chunk_reset (take (Suc (ar_current a)) (ar_chunks a)) @
                      drop (Suc (ar_current a)) (ar_chunks a),
         ar_current := 0\<rparr>)"

text \<open>
  Finding the place of a value; \<open>start\<close> is the system allocator's answer if a new chunk is
  needed, and \<open>None\<close> the panic when even an empty chunk is too small.
\<close>

definition arena_place :: "nat \<Rightarrow> layout \<Rightarrow> arena \<Rightarrow> (nat \<times> arena) option" where
  "arena_place start layout a =
     (case chunk_allocate layout (ar_chunks a ! ar_current a) of
        Some (ptr, c) \<Rightarrow> Some (ptr, a\<lparr>ar_chunks := (ar_chunks a)[ar_current a := c]\<rparr>)
      | None \<Rightarrow>
          (let current = ar_current a + 1;
               chunks = (if length (ar_chunks a) \<le> current
                         then ar_chunks a @ [chunk_new start (ar_chunk_size a)] else ar_chunks a)
           in case chunk_allocate layout (chunks ! current) of
                Some (ptr, c) \<Rightarrow> Some (ptr, a\<lparr>ar_chunks := chunks[current := c], ar_current := current\<rparr>)
              | None \<Rightarrow> None))"

definition arena_alloc :: "nat \<Rightarrow> layout \<Rightarrow> arena \<Rightarrow> (arena_box \<times> arena) option" where
  "arena_alloc start layout a =
     (case arena_place start layout a of
        None \<Rightarrow> None
      | Some (ptr, a) \<Rightarrow> Some (\<lparr>bx_ptr = ptr, bx_valid = ar_valid a\<rparr>,
          a\<lparr>ar_elements := ar_elements a @ [\<lparr>el_value = ptr, el_layout = layout\<rparr>]\<rparr>))"

text \<open>Dropping the arena clears it, then frees its chunks.\<close>

definition arena_drop :: "arena \<Rightarrow> arena_element list \<times> (nat \<times> nat) list" where
  "arena_drop a = (case arena_clear a of (dropped, a) \<Rightarrow>
     (dropped, map (\<lambda>c. (ch_start c, ch_end c - ch_start c)) (ar_chunks a)))"

text \<open>\<open>ArenaBox\<close>: dereferencing returns the pointer, or panics (\<open>None\<close>).\<close>

definition box_map :: "(nat \<Rightarrow> nat) \<Rightarrow> arena_box \<Rightarrow> arena \<Rightarrow> arena_box option" where
  "box_map f b a = (if ar_cells a ! bx_valid b then Some (b\<lparr>bx_ptr := f (bx_ptr b)\<rparr>) else None)"

definition box_deref :: "arena_box \<Rightarrow> arena \<Rightarrow> nat option" where
  "box_deref b a = (if ar_cells a ! bx_valid b then Some (bx_ptr b) else None)"

section \<open>Regions\<close>

definition region :: "arena_element \<Rightarrow> nat set" where
  "region e = {el_value e..<el_value e + l_size (el_layout e)}"

definition chunk_region :: "chunk \<Rightarrow> nat set" where
  "chunk_region c = {ch_start c..<ch_end c}"

definition chunk_ok :: "nat \<Rightarrow> chunk \<Rightarrow> bool" where
  "chunk_ok n c \<longleftrightarrow> 0 < ch_start c \<and> ch_start c \<le> ch_offset c \<and> ch_offset c \<le> ch_end c \<and>
     ch_end c = ch_start c + n"

definition placed :: "arena \<Rightarrow> arena_element \<Rightarrow> nat \<Rightarrow> bool" where
  "placed a e i \<longleftrightarrow> i < length (ar_chunks a) \<and> ch_start (ar_chunks a ! i) \<le> el_value e \<and>
     el_value e + l_size (el_layout e) \<le> ch_offset (ar_chunks a ! i)"

text \<open>Values live inside the used parts of chunks, aligned and apart from each other.\<close>

definition arena_wf :: "arena \<Rightarrow> bool" where
  "arena_wf a \<longleftrightarrow>
     0 < ar_chunk_size a \<and> ar_current a < length (ar_chunks a) \<and>
     list_all (chunk_ok (ar_chunk_size a)) (ar_chunks a) \<and>
     sorted_wrt (\<lambda>c d. chunk_region c \<inter> chunk_region d = {}) (ar_chunks a) \<and>
     list_all (\<lambda>c. ch_offset c = ch_start c) (drop (Suc (ar_current a)) (ar_chunks a)) \<and>
     (\<forall>e \<in> set (ar_elements a). el_value e mod l_align (el_layout e) = 0 \<and> (\<exists>i. placed a e i)) \<and>
     sorted_wrt (\<lambda>e f. region e \<inter> region f = {}) (ar_elements a) \<and>
     ar_valid a < length (ar_cells a) \<and>
     (\<forall>i < length (ar_cells a). ar_cells a ! i \<longleftrightarrow> i = ar_valid a)"

lemma align_offset_aligns: "0 < align \<Longrightarrow> (ptr + align_offset ptr align) mod align = 0"
proof -
  assume "0 < align"
  then have "ptr mod align + (align - ptr mod align) = align" by (simp add: mod_less_divisor less_imp_le)
  then show ?thesis
    unfolding align_offset_def by (metis mod_add_left_eq mod_add_right_eq mod_self)
qed

lemma align_offset_less: "0 < align \<Longrightarrow> align_offset ptr align < align"
  by (simp add: align_offset_def)

lemma align_offset_zero: "0 < align \<Longrightarrow> ptr mod align = 0 \<Longrightarrow> align_offset ptr align = 0"
  by (simp add: align_offset_def)

lemma chunk_allocate_spec:
  assumes "chunk_ok n c" and "0 < l_align layout" and "chunk_allocate layout c = Some (ptr, c')"
  shows "chunk_ok n c'" "ptr mod l_align layout = 0" "ch_offset c \<le> ptr"
    "ptr + l_size layout = ch_offset c'" "ch_start c' = ch_start c" "ch_end c' = ch_end c"
  using assms align_offset_aligns [OF assms(2), of "ch_offset c"]
  by (auto simp: chunk_allocate_def chunk_ok_def Let_def split: if_splits)

lemma chunk_allocate_fits:
  assumes "chunk_ok n c" and "0 < l_align layout"
    and "ch_offset c + align_offset (ch_offset c) (l_align layout) + l_size layout \<le> ch_end c"
  shows "\<exists>ptr c'. chunk_allocate layout c = Some (ptr, c')"
  using assms by (auto simp: chunk_allocate_def chunk_ok_def Let_def)

lemma arena_wfD:
  assumes "arena_wf a"
  shows "0 < ar_chunk_size a" "ar_current a < length (ar_chunks a)"
    "\<And>i. i < length (ar_chunks a) \<Longrightarrow> chunk_ok (ar_chunk_size a) (ar_chunks a ! i)"
    "sorted_wrt (\<lambda>c d. chunk_region c \<inter> chunk_region d = {}) (ar_chunks a)"
    "\<And>i. ar_current a < i \<Longrightarrow> i < length (ar_chunks a) \<Longrightarrow> ch_offset (ar_chunks a ! i) = ch_start (ar_chunks a ! i)"
    "\<And>e. e \<in> set (ar_elements a) \<Longrightarrow> el_value e mod l_align (el_layout e) = 0"
    "\<And>e. e \<in> set (ar_elements a) \<Longrightarrow> \<exists>i. placed a e i"
    "sorted_wrt (\<lambda>e f. region e \<inter> region f = {}) (ar_elements a)"
    "ar_valid a < length (ar_cells a)"
    "\<And>i. i < length (ar_cells a) \<Longrightarrow> ar_cells a ! i \<longleftrightarrow> i = ar_valid a"
proof -
  show "ch_offset (ar_chunks a ! i) = ch_start (ar_chunks a ! i)"
    if "ar_current a < i" "i < length (ar_chunks a)" for i
  proof -
    have "drop (Suc (ar_current a)) (ar_chunks a) ! (i - Suc (ar_current a)) = ar_chunks a ! i"
      using that by simp
    moreover have "i - Suc (ar_current a) < length (drop (Suc (ar_current a)) (ar_chunks a))"
      using that by simp
    ultimately have "ar_chunks a ! i \<in> set (drop (Suc (ar_current a)) (ar_chunks a))" by (metis nth_mem)
    with assms show ?thesis by (simp add: arena_wf_def list_all_iff)
  qed
qed (use assms in \<open>simp_all add: arena_wf_def list_all_length\<close>)

lemma chunk_regions_apart:
  assumes "arena_wf a" and "i < length (ar_chunks a)" and "j < length (ar_chunks a)" and "i \<noteq> j"
  shows "chunk_region (ar_chunks a ! i) \<inter> chunk_region (ar_chunks a ! j) = {}"
proof (cases "i < j")
  case True
  with assms show ?thesis using sorted_wrt_nth_less [OF arena_wfD(4) [OF assms(1)]] by blast
next
  case False
  with assms have "j < i" by simp
  with assms show ?thesis using sorted_wrt_nth_less [OF arena_wfD(4) [OF assms(1)]] by blast
qed

lemma placed_region: "arena_wf a \<Longrightarrow> placed a e i \<Longrightarrow> region e \<subseteq> chunk_region (ar_chunks a ! i)"
  using arena_wfD(3) [of a i] by (auto simp: placed_def region_def chunk_region_def chunk_ok_def)

text \<open>Allocating in the current chunk of a well-formed arena.\<close>

lemma alloc_in_current:
  assumes wf: "arena_wf a" and align: "0 < l_align layout"
    and alloc: "chunk_allocate layout (ar_chunks a ! ar_current a) = Some (ptr, c')"
  defines "e' \<equiv> \<lparr>el_value = ptr, el_layout = layout\<rparr>"
  defines "a' \<equiv> a\<lparr>ar_chunks := (ar_chunks a)[ar_current a := c'], ar_elements := ar_elements a @ [e']\<rparr>"
  shows "arena_wf a'" and "\<forall>e \<in> set (ar_elements a). region e \<inter> region e' = {}"
proof -
  let ?i = "ar_current a" and ?cs = "ar_chunks a"
  let ?c = "?cs ! ?i"
  have i: "?i < length ?cs" and ok: "chunk_ok (ar_chunk_size a) ?c"
    using arena_wfD(2,3) [OF wf] by auto
  note c' = chunk_allocate_spec [OF ok align alloc]
  have region': "chunk_region c' = chunk_region ?c" using c'(5,6) by (simp add: chunk_region_def)
  have new: "region e' \<subseteq> chunk_region ?c"
    using c' ok by (auto simp: e'_def region_def chunk_region_def chunk_ok_def)
  show apart: "\<forall>e \<in> set (ar_elements a). region e \<inter> region e' = {}"
  proof
    fix e assume "e \<in> set (ar_elements a)"
    then obtain j where j: "placed a e j" using arena_wfD(7) [OF wf] by blast
    show "region e \<inter> region e' = {}"
    proof (cases "j = ?i")
      case True
      with j c'(3) show ?thesis by (auto simp: placed_def region_def e'_def)
    next
      case False
      with chunk_regions_apart [OF wf _ i] j new placed_region [OF wf j] show ?thesis
        by (auto simp: placed_def)
    qed
  qed
  have chunks': "ar_chunks a' = ?cs[?i := c']" and elements': "ar_elements a' = ar_elements a @ [e']"
    by (simp_all add: a'_def)
  have placed': "placed a' e j" if "placed a e j" for e j
    using that c'(4,5,3) by (cases "j = ?i") (auto simp: placed_def chunks')
  have here: "placed a' e' ?i" using i c'(3,4,5) ok by (auto simp: placed_def chunks' e'_def chunk_ok_def)
  have elements: "el_value e mod l_align (el_layout e) = 0 \<and> (\<exists>i. placed a' e i)"
    if "e \<in> set (ar_elements a')" for e
  proof (cases "e = e'")
    case True
    with here c'(2) show ?thesis by (auto simp: e'_def)
  next
    case False
    with that have "e \<in> set (ar_elements a)" by (simp add: elements')
    with arena_wfD(6,7) [OF wf this] placed' show ?thesis by blast
  qed
  have chunks: "chunk_ok (ar_chunk_size a) (?cs[?i := c'] ! j)" if "j < length ?cs" for j
    using arena_wfD(3) [OF wf that] c'(1) that by (cases "j = ?i") simp_all
  have "chunk_region (?cs[?i := c'] ! j) = chunk_region (?cs ! j)" if "j < length ?cs" for j
    using that region' by (cases "j = ?i") simp_all
  then have "sorted_wrt (\<lambda>c d. chunk_region c \<inter> chunk_region d = {}) (?cs[?i := c'])"
    using arena_wfD(4) [OF wf] by (simp add: sorted_wrt_iff_nth_less)
  moreover have "sorted_wrt (\<lambda>e f. region e \<inter> region f = {}) (ar_elements a @ [e'])"
    using arena_wfD(8) [OF wf] apart by (simp add: sorted_wrt_append)
  moreover have "list_all (\<lambda>c. ch_offset c = ch_start c) (drop (Suc ?i) (?cs[?i := c']))"
    using wf by (simp add: arena_wf_def)
  ultimately show "arena_wf a'"
    using elements chunks i arena_wfD(1,9,10) [OF wf]
    unfolding arena_wf_def by (simp add: a'_def list_all_length)
qed

text \<open>Moving on to the next chunk, an old empty one or a new one from the system allocator.\<close>

definition fresh_region :: "nat \<Rightarrow> arena \<Rightarrow> bool" where
  "fresh_region start a \<longleftrightarrow> 0 < start \<and>
     list_all (\<lambda>c. chunk_region c \<inter> {start..<start + ar_chunk_size a} = {}) (ar_chunks a)"

definition advance :: "nat \<Rightarrow> arena \<Rightarrow> arena" where
  "advance start a = a\<lparr>ar_chunks := (if length (ar_chunks a) \<le> ar_current a + 1
       then ar_chunks a @ [chunk_new start (ar_chunk_size a)] else ar_chunks a),
     ar_current := ar_current a + 1\<rparr>"

lemma advance_wf:
  assumes "arena_wf a" and "fresh_region start a"
  shows "arena_wf (advance start a)"
    and "ch_offset (ar_chunks (advance start a) ! ar_current (advance start a)) =
      ch_start (ar_chunks (advance start a) ! ar_current (advance start a))"
proof -
  let ?n = "chunk_new start (ar_chunk_size a)"
  have new: "chunk_ok (ar_chunk_size a) ?n" "ch_offset ?n = ch_start ?n"
    "chunk_region ?n = {start..<start + ar_chunk_size a}"
    using assms(2) by (simp_all add: chunk_ok_def chunk_new_def fresh_region_def chunk_region_def)
  have *: "arena_wf (advance start a) \<and> ch_offset (ar_chunks (advance start a) ! ar_current (advance start a)) =
      ch_start (ar_chunks (advance start a) ! ar_current (advance start a))"
  proof (cases "length (ar_chunks a) \<le> ar_current a + 1")
    case True
    then have len: "length (ar_chunks a) = Suc (ar_current a)" using arena_wfD(2) [OF assms(1)] by simp
    have placed': "placed (advance start a) e i" if "placed a e i" for e i
      using that True by (simp add: placed_def advance_def nth_append)
    then have "\<exists>i. placed (advance start a) e i" if "e \<in> set (ar_elements a)" for e
      using that arena_wfD(7) [OF assms(1)] by blast
    then have elements: "\<forall>e \<in> set (ar_elements a). el_value e mod l_align (el_layout e) = 0 \<and>
        (\<exists>i. placed (advance start a) e i)"
      using arena_wfD(6) [OF assms(1)] by blast
    have "sorted_wrt (\<lambda>c d. chunk_region c \<inter> chunk_region d = {}) (ar_chunks a @ [?n])"
      using arena_wfD(4) [OF assms(1)] assms(2) by (auto simp: sorted_wrt_append new(3) fresh_region_def list_all_iff)
    moreover have "list_all (chunk_ok (ar_chunk_size a)) (ar_chunks a @ [?n])"
      using assms(1) new(1) by (simp add: arena_wf_def)
    ultimately show ?thesis
      using arena_wfD(1,8-10) [OF assms(1)] elements len True new(2)
      unfolding arena_wf_def by (auto simp: advance_def nth_append)
  next
    case False
    have placed': "placed (advance start a) e i" if "placed a e i" for e i
      using that False by (simp add: placed_def advance_def)
    then have "\<exists>i. placed (advance start a) e i" if "e \<in> set (ar_elements a)" for e
      using that arena_wfD(7) [OF assms(1)] by blast
    then have elements: "\<forall>e \<in> set (ar_elements a). el_value e mod l_align (el_layout e) = 0 \<and>
        (\<exists>i. placed (advance start a) e i)"
      using arena_wfD(6) [OF assms(1)] by blast
    have "list_all (\<lambda>c. ch_offset c = ch_start c) (drop (Suc (Suc (ar_current a))) (ar_chunks a))"
      using arena_wfD(5) [OF assms(1)] by (auto simp: list_all_length)
    moreover have "list_all (chunk_ok (ar_chunk_size a)) (ar_chunks a)"
      using assms(1) by (simp add: arena_wf_def)
    ultimately show ?thesis
      using arena_wfD(1,4,8-10) [OF assms(1)] elements False arena_wfD(5) [OF assms(1), of "Suc (ar_current a)"]
      unfolding arena_wf_def by (auto simp: advance_def)
  qed
  from * show "arena_wf (advance start a)" "ch_offset (ar_chunks (advance start a) ! ar_current (advance start a)) =
      ch_start (ar_chunks (advance start a) ! ar_current (advance start a))" by simp_all
qed

section \<open>Allocation is safe\<close>

lemma arena_alloc_eq:
  "arena_alloc start layout a =
     (let use = (\<lambda>a. case chunk_allocate layout (ar_chunks a ! ar_current a) of
          None \<Rightarrow> None
        | Some (ptr, c) \<Rightarrow> Some (\<lparr>bx_ptr = ptr, bx_valid = ar_valid a\<rparr>,
            a\<lparr>ar_chunks := (ar_chunks a)[ar_current a := c],
              ar_elements := ar_elements a @ [\<lparr>el_value = ptr, el_layout = layout\<rparr>]\<rparr>))
      in if chunk_allocate layout (ar_chunks a ! ar_current a) = None then use (advance start a) else use a)"
  by (auto simp: arena_alloc_def arena_place_def advance_def Let_def split: option.split)

lemma alloc_keeps_wf:
  assumes wf: "arena_wf a" and fresh: "fresh_region start a" and align: "0 < l_align layout"
    and alloc: "arena_alloc start layout a = Some (b, a')"
  shows "arena_wf a'" and "bx_ptr b mod l_align layout = 0"
    and "\<forall>e \<in> set (ar_elements a). region e \<inter> {bx_ptr b..<bx_ptr b + l_size layout} = {}"
    and "ar_elements a' = ar_elements a @ [\<lparr>el_value = bx_ptr b, el_layout = layout\<rparr>]"
    and "ar_cells a' = ar_cells a" "ar_valid a' = ar_valid a" "bx_valid b = ar_valid a"
proof -
  define a1 where "a1 = (if chunk_allocate layout (ar_chunks a ! ar_current a) = None then advance start a else a)"
  have wf1: "arena_wf a1" using advance_wf(1) [OF wf fresh] wf by (simp add: a1_def)
  have same: "ar_elements a1 = ar_elements a" "ar_cells a1 = ar_cells a" "ar_valid a1 = ar_valid a"
    by (simp_all add: a1_def advance_def)
  from alloc obtain ptr c where place: "chunk_allocate layout (ar_chunks a1 ! ar_current a1) = Some (ptr, c)"
    and b: "b = \<lparr>bx_ptr = ptr, bx_valid = ar_valid a1\<rparr>"
    and a': "a' = a1\<lparr>ar_chunks := (ar_chunks a1)[ar_current a1 := c],
      ar_elements := ar_elements a1 @ [\<lparr>el_value = ptr, el_layout = layout\<rparr>]\<rparr>"
    by (auto simp: arena_alloc_eq a1_def Let_def split: option.splits if_splits)
  note current = alloc_in_current [OF wf1 align place]
  show "arena_wf a'" using current(1) a' by simp
  have "chunk_ok (ar_chunk_size a1) (ar_chunks a1 ! ar_current a1)" using arena_wfD(2,3) [OF wf1] by blast
  from chunk_allocate_spec(2) [OF this align place] show "bx_ptr b mod l_align layout = 0" by (simp add: b)
  show "\<forall>e \<in> set (ar_elements a). region e \<inter> {bx_ptr b..<bx_ptr b + l_size layout} = {}"
    using current(2) by (simp add: b same region_def)
  show "ar_elements a' = ar_elements a @ [\<lparr>el_value = bx_ptr b, el_layout = layout\<rparr>]"
    "ar_cells a' = ar_cells a" "ar_valid a' = ar_valid a" "bx_valid b = ar_valid a"
    by (simp_all add: a' b same)
qed

text \<open>
  A value allocated in a well-formed arena is aligned for its type and overlaps no value
  that is still to be dropped; the arena stays well formed and will drop the value after the
  ones allocated before it.
\<close>

theorem arena_alloc_safe:
  assumes "arena_wf a" and "fresh_region start a" and "0 < l_align layout"
    and "arena_alloc start layout a = Some (b, a')"
  shows "arena_wf a' \<and> bx_ptr b mod l_align layout = 0 \<and>
    (\<forall>e \<in> set (ar_elements a). region e \<inter> {bx_ptr b..<bx_ptr b + l_size layout} = {}) \<and>
    ar_elements a' = ar_elements a @ [\<lparr>el_value = bx_ptr b, el_layout = layout\<rparr>] \<and>
    box_deref b a' = Some (bx_ptr b)"
  using alloc_keeps_wf [OF assms] arena_wfD(9,10) [OF assms(1)] by (simp add: box_deref_def)

text \<open>
  Allocation never panics for a value that fits in a chunk with the worst padding for its
  alignment; a chunk has no alignment of its own.
\<close>

theorem arena_alloc_returns:
  assumes "arena_wf a" and "fresh_region start a" and "0 < l_align layout"
    and "l_size layout + (l_align layout - 1) \<le> ar_chunk_size a"
  shows "arena_alloc start layout a \<noteq> None"
proof (cases "chunk_allocate layout (ar_chunks a ! ar_current a)")
  case None
  let ?a = "advance start a"
  let ?c = "ar_chunks ?a ! ar_current ?a"
  note wf = advance_wf(1) [OF assms(1,2)]
  have ok: "chunk_ok (ar_chunk_size a) ?c"
    using arena_wfD(2,3) [OF wf] by (simp add: advance_def)
  have "align_offset (ch_offset ?c) (l_align layout) \<le> l_align layout - 1"
    using align_offset_less [OF assms(3), of "ch_offset ?c"] by simp
  with ok assms(4) advance_wf(2) [OF assms(1,2)]
  have "ch_offset ?c + align_offset (ch_offset ?c) (l_align layout) + l_size layout \<le> ch_end ?c"
    by (simp add: chunk_ok_def)
  from chunk_allocate_fits [OF ok assms(3) this] None show ?thesis
    by (auto simp: arena_alloc_eq Let_def)
next
  case (Some p)
  then show ?thesis by (cases p) (simp add: arena_alloc_eq Let_def)
qed

section \<open>Clearing invalidates boxes\<close>

lemma clear_keeps_wf:
  assumes "arena_wf a"
  shows "arena_wf (snd (arena_clear a))" and "fst (arena_clear a) = ar_elements a"
proof -
  let ?a = "snd (arena_clear a)"
  let ?cs = "ar_chunks a"
  have len: "length (ar_chunks ?a) = length ?cs"
    using arena_wfD(2) [OF assms] by (simp add: arena_clear_def)
  have nth: "ar_chunks ?a ! i = chunk_reset (?cs ! i)" if "i < length ?cs" for i
  proof (cases "i \<le> ar_current a")
    case True
    with that show ?thesis by (simp add: arena_clear_def nth_append)
  next
    case False
    with that arena_wfD(5) [OF assms, of i] show ?thesis
      by (simp add: arena_clear_def nth_append chunk_reset_def)
  qed
  have "chunk_ok (ar_chunk_size a) (ar_chunks ?a ! i)" if "i < length ?cs" for i
    using arena_wfD(3) [OF assms that] by (simp add: nth [OF that] chunk_ok_def chunk_reset_def)
  then have "list_all (chunk_ok (ar_chunk_size a)) (ar_chunks ?a)"
    by (simp add: list_all_length len)
  moreover have "sorted_wrt (\<lambda>c d. chunk_region c \<inter> chunk_region d = {}) (ar_chunks ?a)"
    using arena_wfD(4) [OF assms] len nth
    by (simp add: sorted_wrt_iff_nth_less chunk_reset_def chunk_region_def)
  moreover have "list_all (\<lambda>c. ch_offset c = ch_start c) (ar_chunks ?a)"
    using nth by (simp add: list_all_length len chunk_reset_def)
  then have "list_all (\<lambda>c. ch_offset c = ch_start c) (drop (Suc 0) (ar_chunks ?a))"
    by (auto simp: list_all_iff dest: in_set_dropD)
  moreover have "ar_elements ?a = []" "ar_chunk_size ?a = ar_chunk_size a" "ar_current ?a = 0"
    "ar_valid ?a = length (ar_cells a)" "ar_cells ?a = (ar_cells a)[ar_valid a := False] @ [True]"
    by (simp_all add: arena_clear_def)
  moreover have "(ar_cells a)[ar_valid a := False] ! i \<longleftrightarrow> False" if "i < length (ar_cells a)" for i
    using that arena_wfD(10) [OF assms that] by (cases "i = ar_valid a") simp_all
  ultimately show "arena_wf ?a"
    using arena_wfD(1,2,9) [OF assms] len
    unfolding arena_wf_def by (auto simp: nth_append less_Suc_eq)
  show "fst (arena_clear a) = ar_elements a" by (simp add: arena_clear_def)
qed

text \<open>Sequences of allocations and clears.\<close>

inductive arena_runs :: "arena \<Rightarrow> arena \<Rightarrow> bool" where
  idle: "arena_runs a a"
| allocs: "arena_runs a a1 \<Longrightarrow> fresh_region start a1 \<Longrightarrow> 0 < l_align layout \<Longrightarrow>
    arena_alloc start layout a1 = Some (b, a2) \<Longrightarrow> arena_runs a a2"
| clears: "arena_runs a a1 \<Longrightarrow> arena_runs a (snd (arena_clear a1))"

lemma nth_update_False: "i < length xs \<Longrightarrow> xs[j := False] ! i \<longleftrightarrow> i \<noteq> j \<and> xs ! i"
  by (cases "i = j") simp_all

lemma arena_runs_cells:
  "arena_runs a a' \<Longrightarrow> arena_wf a \<Longrightarrow> arena_wf a' \<and> length (ar_cells a) \<le> length (ar_cells a') \<and>
     (\<forall>i < length (ar_cells a). ar_cells a' ! i \<longrightarrow> ar_cells a ! i)"
proof (induction rule: arena_runs.induct)
  case (allocs a a1 start layout b a2)
  then show ?case using alloc_keeps_wf [OF _ allocs(2,3,4)] by simp
next
  case (clears a a1)
  then have IH: "arena_wf a1" "length (ar_cells a) \<le> length (ar_cells a1)"
    "\<forall>i < length (ar_cells a). ar_cells a1 ! i \<longrightarrow> ar_cells a ! i" by simp_all
  have "ar_cells (snd (arena_clear a1)) = (ar_cells a1)[ar_valid a1 := False] @ [True]"
    by (simp add: arena_clear_def)
  with IH clear_keeps_wf(1) [OF IH(1)] show ?case
    by (auto simp: nth_append nth_update_False)
qed simp

text \<open>
  After the arena is cleared, which drops every value in allocation order, every box made
  before panics when it is dereferenced, whatever is allocated or cleared afterwards.
\<close>

theorem arena_boxes_invalidated:
  assumes "arena_wf a" and "bx_valid b < length (ar_cells a)"
    and "arena_clear a = (dropped, a1)" and "arena_runs a1 a2"
  shows "dropped = ar_elements a \<and> arena_wf a2 \<and> box_deref b a2 = None"
proof -
  have a1: "a1 = snd (arena_clear a)" using assms(3) by simp
  have "ar_cells a1 = (ar_cells a)[ar_valid a := False] @ [True]" by (simp add: a1 arena_clear_def)
  then have "\<not> ar_cells a1 ! bx_valid b" "bx_valid b < length (ar_cells a1)"
    using assms(2) arena_wfD(10) [OF assms(1,2)] by (simp_all add: nth_append nth_update_False)
  moreover have wf: "arena_wf a1" using clear_keeps_wf(1) [OF assms(1)] by (simp only: a1)
  from arena_runs_cells [OF assms(4) this] have "arena_wf a2"
    "\<forall>i < length (ar_cells a1). ar_cells a2 ! i \<longrightarrow> ar_cells a1 ! i" by simp_all
  moreover have "dropped = ar_elements a" using clear_keeps_wf(2) [OF assms(1)] by (simp add: assms(3))
  ultimately show ?thesis by (auto simp: box_deref_def)
qed

section \<open>Instances\<close>

definition small_arena :: arena where
  "small_arena = the (arena_new 100 64)"

definition word_layout :: layout where
  "word_layout = \<lparr>l_size = 8, l_align = 8\<rparr>"

lemma small_arena_wf: "arena_wf small_arena" "fresh_region 1000 small_arena"
  by (simp_all add: small_arena_def arena_new_def chunk_new_def arena_wf_def chunk_ok_def
      fresh_region_def chunk_region_def)

lemma arena_alloc_safe_witness:
  "\<exists>a'. arena_alloc 1000 word_layout small_arena = Some (\<lparr>bx_ptr = 104, bx_valid = 0\<rparr>, a') \<and> arena_wf a'"
proof -
  obtain a' where "arena_alloc 1000 word_layout small_arena = Some (\<lparr>bx_ptr = 104, bx_valid = 0\<rparr>, a')"
    by (simp add: arena_alloc_def arena_place_def small_arena_def arena_new_def chunk_new_def
        chunk_allocate_def align_offset_def word_layout_def Let_def)
  with arena_alloc_safe [OF small_arena_wf _ this] show ?thesis by (simp add: word_layout_def)
qed

lemma arena_alloc_returns_witness: "arena_alloc 1000 word_layout small_arena \<noteq> None"
  by (rule arena_alloc_returns [OF small_arena_wf])
    (simp_all add: word_layout_def small_arena_def arena_new_def)

lemma arena_boxes_invalidated_witness:
  "box_deref \<lparr>bx_ptr = 104, bx_valid = 0\<rparr> (snd (arena_clear small_arena)) = None"
proof -
  have "arena_clear small_arena = (fst (arena_clear small_arena), snd (arena_clear small_arena))" by simp
  from arena_boxes_invalidated [OF small_arena_wf(1) _ this arena_runs.idle, of "\<lparr>bx_ptr = 104, bx_valid = 0\<rparr>"]
  show ?thesis by (simp add: small_arena_def arena_new_def)
qed

end
