(* ===== verification/Priority_Queue.thy ===== *)
theory Priority_Queue
  imports Prelude "HOL-Library.Multiset"
begin

text \<open>
  The priority queue of the executors, from \<open>src/src/queue.rs\<close>, with the priorities of
  \<open>src/src/executor.rs\<close>.  The random number generator is an argument: \<open>rand r n d\<close> is the
  answer of \<open>random_ratio(n, d)\<close> and the generator's next state.  Threads interleave at the
  mutex: each operation is one step, and a blocking receive is two, the part before it waits
  on the condition variable and the part after it is woken.
\<close>

section \<open>Priorities and queues\<close>

datatype realtime_priority = Audio | RealtimeOther

datatype priority = Realtime realtime_priority | High | Medium | Low

fun probability :: "priority \<Rightarrow> nat" where
  "probability (Realtime _) = 0"
| "probability High = 60"
| "probability Medium = 30"
| "probability Low = 10"

record 't queues =
  q_high :: "'t list"
  q_medium :: "'t list"
  q_low :: "'t list"

definition queues_is_empty :: "'t queues \<Rightarrow> bool" where
  "queues_is_empty q \<longleftrightarrow> q_high q = [] \<and> q_medium q = [] \<and> q_low q = []"

record 't pq_state =
  pq_queues :: "'t queues"
  pq_receivers :: nat
  pq_senders :: nat
  pq_waiting :: nat
  pq_woken :: nat

definition pq_new :: "'t pq_state" where
  "pq_new = \<lparr>pq_queues = \<lparr>q_high = [], q_medium = [], q_low = []\<rparr>, pq_receivers = 1, pq_senders = 1,
     pq_waiting = 0, pq_woken = 0\<rparr>"

section \<open>Sending\<close>

definition notify_one :: "'t pq_state \<Rightarrow> 't pq_state" where
  "notify_one s = (if 0 < pq_waiting s
     then s\<lparr>pq_waiting := pq_waiting s - 1, pq_woken := pq_woken s + 1\<rparr> else s)"

text \<open>\<open>None\<close> is the panic of \<open>unreachable!\<close>; the error returns the item.\<close>

definition pq_send :: "priority \<Rightarrow> 't \<Rightarrow> 't pq_state \<Rightarrow> ('t, 't pq_state) result option" where
  "pq_send priority item s =
     (if pq_receivers s = 0 then Some (Inl item)
      else let q = pq_queues s in
        map_option (\<lambda>q. Inr (notify_one (s\<lparr>pq_queues := q\<rparr>)))
          (case priority of
             Realtime _ \<Rightarrow> None
           | High \<Rightarrow> Some (q\<lparr>q_high := q_high q @ [item]\<rparr>)
           | Medium \<Rightarrow> Some (q\<lparr>q_medium := q_medium q @ [item]\<rparr>)
           | Low \<Rightarrow> Some (q\<lparr>q_low := q_low q @ [item]\<rparr>)))"

section \<open>Receiving\<close>

text \<open>\<open>random_ratio\<close> panics on a zero denominator or a ratio above one.\<close>

type_synonym 'r rng = "'r \<Rightarrow> nat \<Rightarrow> nat \<Rightarrow> bool \<times> 'r"

definition random_ratio :: "'r rng \<Rightarrow> nat \<Rightarrow> nat \<Rightarrow> 'r \<Rightarrow> (bool \<times> 'r) option" where
  "random_ratio rand n d r = (if d = 0 \<or> d < n then None else Some (rand r n d))"

definition of_bool_nat :: "bool \<Rightarrow> nat" where
  "of_bool_nat b = (if b then 1 else 0)"

text \<open>The part of \<open>pop_inner\<close> after the queues are locked.\<close>

definition pop_low :: "'r rng \<Rightarrow> nat \<Rightarrow> 'r \<Rightarrow> 't queues \<Rightarrow> ('t option \<times> 't queues \<times> 'r) option" where
  "pop_low rand mass r q =
     (if q_low q \<noteq> [] then
        Option.bind (random_ratio rand (probability Low) mass r) (\<lambda>(flip, r).
          if flip then Some (Some (last (q_low q)), q\<lparr>q_low := butlast (q_low q)\<rparr>, r)
          else Some (None, q, r))
      else Some (None, q, r))"

definition pop_medium :: "'r rng \<Rightarrow> nat \<Rightarrow> 'r \<Rightarrow> 't queues \<Rightarrow> ('t option \<times> 't queues \<times> 'r) option" where
  "pop_medium rand mass r q =
     (if q_medium q \<noteq> [] then
        Option.bind (random_ratio rand (probability Medium) mass r) (\<lambda>(flip, r).
          if flip then Some (Some (last (q_medium q)), q\<lparr>q_medium := butlast (q_medium q)\<rparr>, r)
          else pop_low rand (mass - probability Medium) r q)
      else pop_low rand mass r q)"

definition pop_locked :: "'r rng \<Rightarrow> 'r \<Rightarrow> 't queues \<Rightarrow> ('t option \<times> 't queues \<times> 'r) option" where
  "pop_locked rand r q =
     (let high = probability High * of_bool_nat (q_high q \<noteq> []);
          medium = probability Medium * of_bool_nat (q_medium q \<noteq> []);
          low = probability Low * of_bool_nat (q_low q \<noteq> []);
          mass = high + medium + low
      in if q_high q \<noteq> [] then
           Option.bind (random_ratio rand (probability High) mass r) (\<lambda>(flip, r).
             if flip then Some (Some (last (q_high q)), q\<lparr>q_high := butlast (q_high q)\<rparr>, r)
             else pop_medium rand (mass - probability High) r q)
         else pop_medium rand mass r q)"

datatype recv_error = RecvError

text \<open>\<open>try_recv\<close> and the start of \<open>recv\<close>: an error, or whether there is something to take.\<close>

definition try_recv :: "'t pq_state \<Rightarrow> (recv_error, bool) result" where
  "try_recv s = (if queues_is_empty (pq_queues s) \<and> pq_senders s = 0 then Inl RecvError
                 else Inr (\<not> queues_is_empty (pq_queues s)))"

definition recv_start :: "'t pq_state \<Rightarrow> (recv_error, bool) result \<times> 't pq_state" where
  "recv_start s =
     (if queues_is_empty (pq_queues s) \<and> pq_senders s = 0 then (Inl RecvError, s)
      else if queues_is_empty (pq_queues s) then (Inr False, s\<lparr>pq_waiting := pq_waiting s + 1\<rparr>)
      else (Inr True, s))"

definition take_item :: "'r rng \<Rightarrow> 'r \<Rightarrow> 't pq_state \<Rightarrow> ('t option \<times> 't pq_state \<times> 'r) option" where
  "take_item rand r s =
     map_option (\<lambda>(x, q, r). (x, s\<lparr>pq_queues := q\<rparr>, r)) (pop_locked rand r (pq_queues s))"

text \<open>\<open>pop_inner(false)\<close>, which is \<open>try_pop\<close>.\<close>

definition try_pop :: "'r rng \<Rightarrow> 'r \<Rightarrow> 't pq_state \<Rightarrow> ((recv_error, 't option) result \<times> 't pq_state \<times> 'r) option"
where
  "try_pop rand r s =
     (case try_recv s of
        Inl e \<Rightarrow> Some (Inl e, s, r)
      | Inr False \<Rightarrow> Some (Inr None, s, r)
      | Inr True \<Rightarrow> map_option (\<lambda>(x, s, r). (Inr x, s, r)) (take_item rand r s))"

text \<open>The start of \<open>pop_inner(true)\<close>: \<open>None\<close> inside the pair while the thread waits.\<close>

definition pop_start ::
    "'r rng \<Rightarrow> 'r \<Rightarrow> 't pq_state \<Rightarrow> ((recv_error, 't option) result option \<times> 't pq_state \<times> 'r) option" where
  "pop_start rand r s =
     (case recv_start s of
        (Inl e, s) \<Rightarrow> Some (Some (Inl e), s, r)
      | (Inr False, s) \<Rightarrow> Some (None, s, r)
      | (Inr True, s) \<Rightarrow> map_option (\<lambda>(x, s, r). (Some (Inr x), s, r)) (take_item rand r s))"

text \<open>The rest of it, run by a thread that was woken.\<close>

definition pop_resume :: "'r rng \<Rightarrow> 'r \<Rightarrow> 't pq_state \<Rightarrow> ('t option \<times> 't pq_state \<times> 'r) option" where
  "pop_resume rand r s = take_item rand r (s\<lparr>pq_woken := pq_woken s - 1\<rparr>)"

text \<open>What \<open>pop\<close> and the iterators make of an answer of \<open>pop_inner\<close>.\<close>

definition pop_result :: "(recv_error, 't option) result \<Rightarrow> (recv_error, 't) result option" where
  "pop_result res = (case res of Inl e \<Rightarrow> Some (Inl e) | Inr (Some x) \<Rightarrow> Some (Inr x) | Inr None \<Rightarrow> None)"

definition iter_next :: "(recv_error, 't option) result \<Rightarrow> 't option" where
  "iter_next res = (case res of Inl e \<Rightarrow> None | Inr x \<Rightarrow> x)"

definition try_iter_next ::
    "'r rng \<Rightarrow> bool \<Rightarrow> 'r \<Rightarrow> 't pq_state \<Rightarrow> ((recv_error, 't) result option \<times> bool \<times> 't pq_state \<times> 'r) option"
where
  "try_iter_next rand ended r s =
     (if ended then Some (None, ended, s, r)
      else map_option (\<lambda>(res, s, r).
          ((case res of Inl e \<Rightarrow> Some (Inl e) | Inr None \<Rightarrow> None | Inr (Some x) \<Rightarrow> Some (Inr x)),
           (case res of Inl _ \<Rightarrow> True | Inr _ \<Rightarrow> False), s, r)) (try_pop rand r s))"

section \<open>Handles\<close>

definition sender_drop :: "'t pq_state \<Rightarrow> 't pq_state" where
  "sender_drop s = s\<lparr>pq_senders := pq_senders s - 1\<rparr>"

definition receiver_clone :: "'t pq_state \<Rightarrow> 't pq_state" where
  "receiver_clone s = s\<lparr>pq_receivers := pq_receivers s + 1\<rparr>"

definition receiver_drop :: "'t pq_state \<Rightarrow> 't pq_state" where
  "receiver_drop s = s\<lparr>pq_receivers := pq_receivers s - 1\<rparr>"

section \<open>Taking an item\<close>

definition queued :: "'t queues \<Rightarrow> 't multiset" where
  "queued q = mset (q_high q) + mset (q_medium q) + mset (q_low q)"

lemma queued_empty [simp]: "queued q = {#} \<longleftrightarrow> queues_is_empty q"
  by (auto simp: queued_def queues_is_empty_def)

lemma mset_butlast: "xs \<noteq> [] \<Longrightarrow> mset xs = add_mset (last xs) (mset (butlast xs))"
  by (cases xs rule: rev_cases) simp_all

text \<open>\<open>x\<close> is the most recently sent item of some priority, and \<open>q'\<close> the queues without it.\<close>

definition takes :: "'t queues \<Rightarrow> 't \<Rightarrow> 't queues \<Rightarrow> bool" where
  "takes q x q' \<longleftrightarrow> queued q = add_mset x (queued q') \<and>
     (q_high q \<noteq> [] \<and> x = last (q_high q) \<or> q_medium q \<noteq> [] \<and> x = last (q_medium q) \<or>
      q_low q \<noteq> [] \<and> x = last (q_low q))"

lemma takes_last:
  "q_high q \<noteq> [] \<Longrightarrow> takes q (last (q_high q)) (q\<lparr>q_high := butlast (q_high q)\<rparr>)"
  "q_medium q \<noteq> [] \<Longrightarrow> takes q (last (q_medium q)) (q\<lparr>q_medium := butlast (q_medium q)\<rparr>)"
  "q_low q \<noteq> [] \<Longrightarrow> takes q (last (q_low q)) (q\<lparr>q_low := butlast (q_low q)\<rparr>)"
  using mset_butlast [of "q_high q"] mset_butlast [of "q_medium q"] mset_butlast [of "q_low q"]
  by (auto simp: takes_def queued_def)

definition certain :: "'r rng \<Rightarrow> bool" where
  "certain rand \<longleftrightarrow> (\<forall>r n. fst (rand r n n))"

lemma certainD: "certain rand \<Longrightarrow> \<exists>r'. rand r n n = (True, r')"
  by (simp add: certain_def prod_eq_iff)

lemma pop_low_takes:
  assumes "certain rand" and "q_low q \<noteq> []"
  shows "\<exists>x q' r'. pop_low rand 10 r q = Some (Some x, q', r') \<and> takes q x q'"
proof -
  obtain r' where "rand r 10 10 = (True, r')" using certainD [OF assms(1)] by blast
  with assms(2) takes_last(3) [OF assms(2)] show ?thesis by (simp add: pop_low_def random_ratio_def)
qed

lemma pop_medium_takes:
  assumes "certain rand" and "q_medium q \<noteq> [] \<or> q_low q \<noteq> []"
    and "mass = 30 * of_bool_nat (q_medium q \<noteq> []) + 10 * of_bool_nat (q_low q \<noteq> [])"
  shows "\<exists>x q' r'. pop_medium rand mass r q = Some (Some x, q', r') \<and> takes q x q'"
proof (cases "q_medium q = []")
  case True
  with assms pop_low_takes [OF assms(1), of q r] show ?thesis
    by (simp add: pop_medium_def of_bool_nat_def)
next
  case False
  obtain flip r1 where flip: "rand r 30 mass = (flip, r1)" by fastforce
  have mass: "30 \<le> mass" "0 < mass" using False assms(3) by (simp_all add: of_bool_nat_def)
  show ?thesis
  proof (cases flip)
    case True
    with False flip mass takes_last(2) [OF False] show ?thesis
      by (simp add: pop_medium_def random_ratio_def)
  next
    case nflip: False
    have "q_low q \<noteq> []"
    proof
      assume "q_low q = []"
      with False assms(3) have "mass = 30" by (simp add: of_bool_nat_def)
      with flip nflip certainD [OF assms(1), of r 30] show False by auto
    qed
    with False flip nflip mass assms(3) pop_low_takes [OF assms(1), of q r1] show ?thesis
      by (simp add: pop_medium_def random_ratio_def of_bool_nat_def)
  qed
qed

lemma pop_locked_takes:
  assumes "certain rand" and "\<not> queues_is_empty q"
  shows "\<exists>x q' r'. pop_locked rand r q = Some (Some x, q', r') \<and> takes q x q'"
proof -
  let ?rest = "30 * of_bool_nat (q_medium q \<noteq> []) + 10 * of_bool_nat (q_low q \<noteq> [])"
  show ?thesis
  proof (cases "q_high q = []")
    case True
    with assms(2) have "q_medium q \<noteq> [] \<or> q_low q \<noteq> []" by (simp add: queues_is_empty_def)
    from pop_medium_takes [OF assms(1) this refl, of r] True show ?thesis
      by (simp add: pop_locked_def Let_def of_bool_nat_def [of False])
  next
    case False
    obtain flip r1 where flip: "rand r 60 (60 + ?rest) = (flip, r1)" by fastforce
    show ?thesis
    proof (cases flip)
      case True
      with False flip takes_last(1) [OF False] show ?thesis
        by (simp add: pop_locked_def Let_def random_ratio_def of_bool_nat_def [of True] add.assoc)
    next
      case nflip: False
      have "q_medium q \<noteq> [] \<or> q_low q \<noteq> []"
      proof (rule ccontr)
        assume "\<not> (q_medium q \<noteq> [] \<or> q_low q \<noteq> [])"
        then have "60 + ?rest = 60" by (simp add: of_bool_nat_def)
        with flip nflip certainD [OF assms(1), of r 60] show False by auto
      qed
      from pop_medium_takes [OF assms(1) this refl, of r1] False flip nflip show ?thesis
        by (simp add: pop_locked_def Let_def random_ratio_def of_bool_nat_def [of True] add.assoc)
    qed
  qed
qed

lemma pop_locked_empty: "queues_is_empty q \<Longrightarrow> pop_locked rand r q = Some (None, q, r)"
  by (simp add: pop_locked_def pop_medium_def pop_low_def queues_is_empty_def)

text \<open>
  Taking an item from non-empty queues never panics and yields an item, the most recently
  sent one of some priority, and exactly that item leaves the queues.  All this needs of the
  generator is that an event with ratio one happens.
\<close>

theorem pop_takes_one:
  assumes "certain rand" and "\<not> queues_is_empty q"
  shows "\<exists>x q' r'. pop_locked rand r q = Some (Some x, q', r') \<and> queued q = add_mset x (queued q') \<and>
    (q_high q \<noteq> [] \<and> x = last (q_high q) \<or> q_medium q \<noteq> [] \<and> x = last (q_medium q) \<or>
     q_low q \<noteq> [] \<and> x = last (q_low q))"
  using pop_locked_takes [OF assms, of r] unfolding takes_def by blast

section \<open>Runs of a queue\<close>

text \<open>
  One step of a sender or receiver; \<open>sent\<close> and \<open>got\<close> record what went in and came out, and a
  blocking receive answers \<open>Inr None\<close> when it wakes up and finds nothing.
\<close>

inductive pq_runs :: "'r rng \<Rightarrow> 't pq_state \<Rightarrow> 't multiset \<Rightarrow> 't multiset \<Rightarrow> 't pq_state \<Rightarrow> bool" for rand s0 where
  start: "pq_runs rand s0 {#} {#} s0"
| sends: "pq_runs rand s0 sent got s \<Longrightarrow> pq_send p x s = Some (Inr s') \<Longrightarrow>
    pq_runs rand s0 (add_mset x sent) got s'"
| refuses: "pq_runs rand s0 sent got s \<Longrightarrow> pq_send p x s = Some (Inl y) \<Longrightarrow> pq_runs rand s0 sent got s"
| tries: "pq_runs rand s0 sent got s \<Longrightarrow> try_pop rand r s = Some (res, s', r') \<Longrightarrow>
    pq_runs rand s0 sent (got + (case res of Inr (Some x) \<Rightarrow> {#x#} | _ \<Rightarrow> {#})) s'"
| blocks: "pq_runs rand s0 sent got s \<Longrightarrow> pop_start rand r s = Some (res, s', r') \<Longrightarrow>
    pq_runs rand s0 sent (got + (case res of Some (Inr (Some x)) \<Rightarrow> {#x#} | _ \<Rightarrow> {#})) s'"
| wakes: "pq_runs rand s0 sent got s \<Longrightarrow> 0 < pq_woken s \<Longrightarrow> pop_resume rand r s = Some (x, s', r') \<Longrightarrow>
    pq_runs rand s0 sent (got + (case x of Some x \<Rightarrow> {#x#} | None \<Rightarrow> {#})) s'"
| drops_sender: "pq_runs rand s0 sent got s \<Longrightarrow> pq_runs rand s0 sent got (sender_drop s)"
| clones: "pq_runs rand s0 sent got s \<Longrightarrow> pq_runs rand s0 sent got (receiver_clone s)"
| drops_receiver: "pq_runs rand s0 sent got s \<Longrightarrow> pq_runs rand s0 sent got (receiver_drop s)"

lemma take_item_conserves:
  assumes "certain rand" and "take_item rand r s = Some (x, s', r')"
  shows "queued (pq_queues s) = queued (pq_queues s') + (case x of Some x \<Rightarrow> {#x#} | None \<Rightarrow> {#})"
proof (cases "queues_is_empty (pq_queues s)")
  case True
  with assms(2) show ?thesis by (auto simp: take_item_def pop_locked_empty)
next
  case False
  with pop_locked_takes [OF assms(1) False, of r] assms(2) show ?thesis
    by (auto simp: take_item_def takes_def)
qed

lemma pq_send_conserves:
  "pq_send p x s = Some (Inr s') \<Longrightarrow> queued (pq_queues s') = add_mset x (queued (pq_queues s))"
  by (cases p) (auto simp: pq_send_def queued_def notify_one_def Let_def split: if_splits)

lemma pq_runs_conserve:
  assumes "certain rand"
  shows "pq_runs rand s0 sent got s \<Longrightarrow> queued (pq_queues s0) + sent = queued (pq_queues s) + got"
proof (induction rule: pq_runs.induct)
  case (tries sent got s r res s' r')
  then show ?case
    using take_item_conserves [OF assms, of r s]
    by (auto simp: try_pop_def try_recv_def split: if_splits sum.splits option.splits bool.splits)
next
  case (blocks sent got s r res s' r')
  then show ?case
    using take_item_conserves [OF assms, of r s]
    by (auto simp: pop_start_def recv_start_def split: if_splits sum.splits option.splits bool.splits)
next
  case (wakes sent got s r x s' r')
  then show ?case
    using take_item_conserves [OF assms, of r "s\<lparr>pq_woken := pq_woken s - 1\<rparr>" x s' r']
    by (simp add: pop_resume_def)
qed (auto simp: pq_send_conserves sender_drop_def receiver_clone_def receiver_drop_def)

text \<open>
  C32. However sends, receives, waits and wake-ups of any number of receivers interleave, the
  items sent so far are, with their multiplicities, the ones received and the ones still queued.
\<close>

theorem queue_conserves_items:
  assumes "certain rand" and "pq_runs rand pq_new sent got s"
  shows "sent = got + queued (pq_queues s)"
  using pq_runs_conserve [OF assms] by (simp add: pq_new_def queued_def)

section \<open>Waking up to an empty queue\<close>

text \<open>
  C36. With two receivers, one waiting, an item sent to the queue can be taken by the other one
  before the first, which was woken for it, runs again: the blocking receive then answers
  \<open>Ok(None)\<close> although the sender is alive, so that \<open>pop\<close> panics and \<open>Iter\<close> ends.
\<close>

theorem blocking_pop_wakes_to_nothing:
  assumes "certain rand"
  shows "\<exists>s r s'. pq_runs rand (pq_new :: nat pq_state) {#7#} {#7#} s \<and> 0 < pq_woken s \<and> pq_senders s = 1 \<and>
    pop_resume rand r s = Some (None, s', r) \<and> pop_result (Inr (None :: nat option)) = None \<and>
    iter_next (Inr (None :: nat option)) = None"
proof -
  let ?s1 = "receiver_clone pq_new :: nat pq_state"
  have "pop_start rand r ?s1 = Some (None, ?s1\<lparr>pq_waiting := 1\<rparr>, r)" for r
    by (simp add: pop_start_def recv_start_def receiver_clone_def pq_new_def queues_is_empty_def)
  from pq_runs.blocks [OF pq_runs.clones [OF pq_runs.start] this]
  have 1: "pq_runs rand pq_new {#} {#} (?s1\<lparr>pq_waiting := 1\<rparr>)" by simp
  define s2 :: "nat pq_state" where "s2 = ?s1\<lparr>pq_queues := \<lparr>q_high = [7], q_medium = [], q_low = []\<rparr>, pq_woken := 1\<rparr>"
  have "pq_send High 7 (?s1\<lparr>pq_waiting := 1\<rparr>) = Some (Inr s2)"
    by (simp add: pq_send_def s2_def receiver_clone_def pq_new_def notify_one_def Let_def)
  from pq_runs.sends [OF 1 this] have 2: "pq_runs rand pq_new {#7#} {#} s2" .
  have "\<not> queues_is_empty (pq_queues s2)" by (simp add: s2_def queues_is_empty_def)
  from pop_locked_takes [OF assms this, of "undefined :: 'a"] obtain x q' r' where
    pop: "pop_locked rand undefined (pq_queues s2) = Some (Some x, q', r')" "takes (pq_queues s2) x q'" by blast
  then have x: "x = 7" "queues_is_empty q'"
    by (auto simp: takes_def s2_def queued_def queued_empty [symmetric] simp del: queued_empty)
  have "try_pop rand undefined s2 = Some (Inr (Some x), s2\<lparr>pq_queues := q'\<rparr>, r')"
    using pop(1) \<open>\<not> queues_is_empty (pq_queues s2)\<close> by (simp add: try_pop_def try_recv_def take_item_def)
  from pq_runs.tries [OF 2 this] x(1) have "pq_runs rand pq_new {#7#} {#7#} (s2\<lparr>pq_queues := q'\<rparr>)" by simp
  moreover have "pop_resume rand r (s2\<lparr>pq_queues := q'\<rparr>) = Some (None, s2\<lparr>pq_queues := q', pq_woken := 0\<rparr>, r)" for r
    using x(2) by (simp add: pop_resume_def take_item_def pop_locked_empty s2_def)
  moreover have "0 < pq_woken (s2\<lparr>pq_queues := q'\<rparr>)" "pq_senders (s2\<lparr>pq_queues := q'\<rparr>) = 1"
    by (simp_all add: s2_def receiver_clone_def pq_new_def)
  ultimately show ?thesis by (auto simp: pop_result_def iter_next_def)
qed

section \<open>Instances\<close>

definition heads :: "unit rng" where
  "heads r n d = (True, r)"

lemma certain_heads: "certain heads"
  by (simp add: certain_def heads_def)

lemma pop_takes_one_witness:
  "pop_locked heads () \<lparr>q_high = [], q_medium = [1, 2], q_low = [3::nat]\<rparr> \<noteq> None"
  using pop_takes_one [OF certain_heads, of "\<lparr>q_high = [], q_medium = [1, 2], q_low = [3::nat]\<rparr>" "()"]
  by (auto simp: queues_is_empty_def)

lemma queue_conserves_items_witness:
  "pq_runs heads (pq_new :: nat pq_state) {#} {#} (receiver_clone pq_new) \<and>
   queued (pq_queues (receiver_clone (pq_new :: nat pq_state))) = {#}"
proof -
  have runs: "pq_runs heads (pq_new :: nat pq_state) {#} {#} (receiver_clone pq_new)"
    by (rule pq_runs.clones [OF pq_runs.start])
  from queue_conserves_items [OF certain_heads this] runs show ?thesis by simp
qed

lemma blocking_pop_wakes_to_nothing_witness:
  "\<exists>s s'. 0 < pq_woken s \<and> pop_resume heads () s = Some (None :: nat option, s', ())"
  using blocking_pop_wakes_to_nothing [OF certain_heads] by auto

end
