(* ===== verification/Geometry.thy ===== *)
theory Geometry
  imports Prelude
begin

text \<open>
  The generic geometry types of \<open>src/src/geometry.rs\<close>: points, sizes, bounds, edges and corners
  over any coordinate type.  Coordinates are elements of a linearly ordered group, so the
  arithmetic is exact: the overflow of \<open>i32\<close> and the rounding and NaNs of \<open>f32\<close> are outside
  the model.  Halving, multiplication and division by a scalar are arguments where the code
  takes them from a trait.
\<close>

section \<open>Axes, points and sizes\<close>

datatype axis = Vertical | Horizontal

definition axis_invert :: "axis \<Rightarrow> axis" where
  "axis_invert a = (case a of Vertical \<Rightarrow> Horizontal | Horizontal \<Rightarrow> Vertical)"

datatype 'a point = Point (pt_x: 'a) (pt_y: 'a)

datatype 'a size2 = Size (sz_width: 'a) (sz_height: 'a)

instantiation point :: (ab_group_add) ab_group_add
begin

definition "0 = Point 0 0"
definition "p + q = Point (pt_x p + pt_x q) (pt_y p + pt_y q)"
definition "p - q = Point (pt_x p - pt_x q) (pt_y p - pt_y q)"
definition "- p = Point (- pt_x p) (- pt_y p)"

instance
  by standard (simp_all add: zero_point_def plus_point_def minus_point_def uminus_point_def algebra_simps)

end

instantiation size2 :: (ab_group_add) ab_group_add
begin

definition "0 = Size 0 0"
definition "p + q = Size (sz_width p + sz_width q) (sz_height p + sz_height q)"
definition "p - q = Size (sz_width p - sz_width q) (sz_height p - sz_height q)"
definition "- p = Size (- sz_width p) (- sz_height p)"

instance
  by standard (simp_all add: zero_size2_def plus_size2_def minus_size2_def uminus_size2_def algebra_simps)

end

lemmas point_ops = zero_point_def plus_point_def minus_point_def uminus_point_def
lemmas size_ops = zero_size2_def plus_size2_def minus_size2_def uminus_size2_def

definition point_map :: "('a \<Rightarrow> 'b) \<Rightarrow> 'a point \<Rightarrow> 'b point" where
  "point_map f p = Point (f (pt_x p)) (f (pt_y p))"

definition point_along :: "axis \<Rightarrow> 'a point \<Rightarrow> 'a" where
  "point_along a p = (case a of Horizontal \<Rightarrow> pt_x p | Vertical \<Rightarrow> pt_y p)"

definition point_apply_along :: "axis \<Rightarrow> ('a \<Rightarrow> 'a) \<Rightarrow> 'a point \<Rightarrow> 'a point" where
  "point_apply_along a f p =
     (case a of Horizontal \<Rightarrow> Point (f (pt_x p)) (pt_y p) | Vertical \<Rightarrow> Point (pt_x p) (f (pt_y p)))"

definition point_relative_to :: "'a::ab_group_add point \<Rightarrow> 'a point \<Rightarrow> 'a point" where
  "point_relative_to p origin = Point (pt_x p - pt_x origin) (pt_y p - pt_y origin)"

definition point_mul :: "('a \<Rightarrow> 's \<Rightarrow> 'a) \<Rightarrow> 'a point \<Rightarrow> 's \<Rightarrow> 'a point" where
  "point_mul mult p rhs = Point (mult (pt_x p) rhs) (mult (pt_y p) rhs)"

definition point_max :: "'a::linorder point \<Rightarrow> 'a point \<Rightarrow> 'a point" where
  "point_max p q = Point (if pt_x p > pt_x q then pt_x p else pt_x q)
                         (if pt_y p > pt_y q then pt_y p else pt_y q)"

definition point_min :: "'a::linorder point \<Rightarrow> 'a point \<Rightarrow> 'a point" where
  "point_min p q = Point (if pt_x p \<le> pt_x q then pt_x p else pt_x q)
                         (if pt_y p \<le> pt_y q then pt_y p else pt_y q)"

definition point_clamp :: "'a::linorder point \<Rightarrow> 'a point \<Rightarrow> 'a point \<Rightarrow> 'a point" where
  "point_clamp p lo hi = point_min (point_max p lo) hi"

definition size_map :: "('a \<Rightarrow> 'b) \<Rightarrow> 'a size2 \<Rightarrow> 'b size2" where
  "size_map f s = Size (f (sz_width s)) (f (sz_height s))"

definition size_center :: "('a \<Rightarrow> 'a) \<Rightarrow> 'a size2 \<Rightarrow> 'a point" where
  "size_center half s = Point (half (sz_width s)) (half (sz_height s))"

definition size_along :: "axis \<Rightarrow> 'a size2 \<Rightarrow> 'a" where
  "size_along a s = (case a of Horizontal \<Rightarrow> sz_width s | Vertical \<Rightarrow> sz_height s)"

definition size_apply_along :: "axis \<Rightarrow> ('a \<Rightarrow> 'a) \<Rightarrow> 'a size2 \<Rightarrow> 'a size2" where
  "size_apply_along a f s =
     (case a of Horizontal \<Rightarrow> Size (f (sz_width s)) (sz_height s)
              | Vertical \<Rightarrow> Size (sz_width s) (f (sz_height s)))"

definition size_max :: "'a::linorder size2 \<Rightarrow> 'a size2 \<Rightarrow> 'a size2" where
  "size_max s t = Size (if sz_width s \<ge> sz_width t then sz_width s else sz_width t)
                       (if sz_height s \<ge> sz_height t then sz_height s else sz_height t)"

definition size_min :: "'a::linorder size2 \<Rightarrow> 'a size2 \<Rightarrow> 'a size2" where
  "size_min s t = Size (if sz_width s \<ge> sz_width t then sz_width t else sz_width s)
                       (if sz_height s \<ge> sz_height t then sz_height t else sz_height s)"

definition size_mul :: "('a \<Rightarrow> 's \<Rightarrow> 's) \<Rightarrow> 'a size2 \<Rightarrow> 's \<Rightarrow> 's size2" where
  "size_mul mult s rhs = Size (mult (sz_width s) rhs) (mult (sz_height s) rhs)"

definition size_from_point :: "'a point \<Rightarrow> 'a size2" where
  "size_from_point p = Size (pt_x p) (pt_y p)"

section \<open>Edges and corners\<close>

datatype 'a edges = Edges (e_top: 'a) (e_right: 'a) (e_bottom: 'a) (e_left: 'a)

definition edges_all :: "'a \<Rightarrow> 'a edges" where
  "edges_all v = Edges v v v v"

definition edges_map :: "('a \<Rightarrow> 'b) \<Rightarrow> 'a edges \<Rightarrow> 'b edges" where
  "edges_map f e = Edges (f (e_top e)) (f (e_right e)) (f (e_bottom e)) (f (e_left e))"

definition edges_any :: "('a \<Rightarrow> bool) \<Rightarrow> 'a edges \<Rightarrow> bool" where
  "edges_any P e \<longleftrightarrow> P (e_top e) \<or> P (e_right e) \<or> P (e_bottom e) \<or> P (e_left e)"

definition edges_mul :: "'a::times edges \<Rightarrow> 'a edges \<Rightarrow> 'a edges" where
  "edges_mul e f = Edges (e_top e * e_top f) (e_right e * e_right f) (e_bottom e * e_bottom f) (e_left e * e_left f)"

definition edges_max :: "'a::linorder edges \<Rightarrow> 'a" where
  "edges_max e = max (max (max (e_top e) (e_right e)) (e_bottom e)) (e_left e)"

datatype corner = TopLeft | TopRight | BottomLeft | BottomRight

fun opposite_corner :: "corner \<Rightarrow> corner" where
  "opposite_corner TopLeft = BottomRight"
| "opposite_corner TopRight = BottomLeft"
| "opposite_corner BottomLeft = TopRight"
| "opposite_corner BottomRight = TopLeft"

fun other_side_corner_along :: "axis \<Rightarrow> corner \<Rightarrow> corner" where
  "other_side_corner_along Vertical TopLeft = BottomLeft"
| "other_side_corner_along Vertical TopRight = BottomRight"
| "other_side_corner_along Vertical BottomLeft = TopLeft"
| "other_side_corner_along Vertical BottomRight = TopRight"
| "other_side_corner_along Horizontal TopLeft = TopRight"
| "other_side_corner_along Horizontal TopRight = TopLeft"
| "other_side_corner_along Horizontal BottomLeft = BottomRight"
| "other_side_corner_along Horizontal BottomRight = BottomLeft"

datatype 'a corners = Corners (c_top_left: 'a) (c_top_right: 'a) (c_bottom_right: 'a) (c_bottom_left: 'a)

definition corners_all :: "'a \<Rightarrow> 'a corners" where
  "corners_all v = Corners v v v v"

definition corners_corner :: "'a corners \<Rightarrow> corner \<Rightarrow> 'a" where
  "corners_corner c k = (case k of TopLeft \<Rightarrow> c_top_left c | TopRight \<Rightarrow> c_top_right c
     | BottomLeft \<Rightarrow> c_bottom_left c | BottomRight \<Rightarrow> c_bottom_right c)"

definition corners_map :: "('a \<Rightarrow> 'b) \<Rightarrow> 'a corners \<Rightarrow> 'b corners" where
  "corners_map f c = Corners (f (c_top_left c)) (f (c_top_right c)) (f (c_bottom_right c)) (f (c_bottom_left c))"

definition corners_mul :: "'a::times corners \<Rightarrow> 'a corners \<Rightarrow> 'a corners" where
  "corners_mul c d = Corners (c_top_left c * c_top_left d) (c_top_right c * c_top_right d)
     (c_bottom_right c * c_bottom_right d) (c_bottom_left c * c_bottom_left d)"

definition corners_max :: "'a::linorder corners \<Rightarrow> 'a" where
  "corners_max c = max (max (max (c_top_left c) (c_top_right c)) (c_bottom_right c)) (c_bottom_left c)"

definition clamp_radii_for_quad_size :: "('a::linorder \<Rightarrow> 'a) \<Rightarrow> 'a size2 \<Rightarrow> 'a corners \<Rightarrow> 'a corners" where
  "clamp_radii_for_quad_size half sz c =
     (let m = half (min (sz_width sz) (sz_height sz))
      in Corners (min (c_top_left c) m) (min (c_top_right c) m) (min (c_bottom_right c) m) (min (c_bottom_left c) m))"

section \<open>Bounds\<close>

datatype 'a bounds = Bounds (bd_origin: "'a point") (bd_size: "'a size2")

definition from_corners :: "'a::ab_group_add point \<Rightarrow> 'a point \<Rightarrow> 'a bounds" where
  "from_corners ul br = Bounds (Point (pt_x ul) (pt_y ul)) (Size (pt_x br - pt_x ul) (pt_y br - pt_y ul))"

definition from_corner_and_size :: "corner \<Rightarrow> 'a::ab_group_add point \<Rightarrow> 'a size2 \<Rightarrow> 'a bounds" where
  "from_corner_and_size k origin s =
     (let origin = (case k of
            TopLeft \<Rightarrow> origin
          | TopRight \<Rightarrow> Point (pt_x origin - sz_width s) (pt_y origin)
          | BottomLeft \<Rightarrow> Point (pt_x origin) (pt_y origin - sz_height s)
          | BottomRight \<Rightarrow> Point (pt_x origin - sz_width s) (pt_y origin - sz_height s))
      in Bounds origin s)"

definition centered_at :: "('a::ab_group_add \<Rightarrow> 'a) \<Rightarrow> 'a point \<Rightarrow> 'a size2 \<Rightarrow> 'a bounds" where
  "centered_at half c s = Bounds (Point (pt_x c - half (sz_width s)) (pt_y c - half (sz_height s))) s"

definition b_top :: "'a::ab_group_add bounds \<Rightarrow> 'a" where
  "b_top b = pt_y (bd_origin b)"
definition b_bottom :: "'a::ab_group_add bounds \<Rightarrow> 'a" where
  "b_bottom b = pt_y (bd_origin b) + sz_height (bd_size b)"
definition b_left :: "'a::ab_group_add bounds \<Rightarrow> 'a" where
  "b_left b = pt_x (bd_origin b)"
definition b_right :: "'a::ab_group_add bounds \<Rightarrow> 'a" where
  "b_right b = pt_x (bd_origin b) + sz_width (bd_size b)"

definition top_right :: "'a::ab_group_add bounds \<Rightarrow> 'a point" where
  "top_right b = Point (pt_x (bd_origin b) + sz_width (bd_size b)) (pt_y (bd_origin b))"
definition bottom_right :: "'a::ab_group_add bounds \<Rightarrow> 'a point" where
  "bottom_right b = Point (pt_x (bd_origin b) + sz_width (bd_size b)) (pt_y (bd_origin b) + sz_height (bd_size b))"
definition bottom_left :: "'a::ab_group_add bounds \<Rightarrow> 'a point" where
  "bottom_left b = Point (pt_x (bd_origin b)) (pt_y (bd_origin b) + sz_height (bd_size b))"

definition bounds_corner :: "'a::ab_group_add bounds \<Rightarrow> corner \<Rightarrow> 'a point" where
  "bounds_corner b k = (case k of TopLeft \<Rightarrow> bd_origin b | TopRight \<Rightarrow> top_right b
     | BottomLeft \<Rightarrow> bottom_left b | BottomRight \<Rightarrow> bottom_right b)"

definition intersects :: "'a::linordered_ab_group_add bounds \<Rightarrow> 'a bounds \<Rightarrow> bool" where
  "intersects a b \<longleftrightarrow>
     pt_x (bd_origin a) < pt_x (bottom_right b) \<and> pt_x (bottom_right a) > pt_x (bd_origin b) \<and>
     pt_y (bd_origin a) < pt_y (bottom_right b) \<and> pt_y (bottom_right a) > pt_y (bd_origin b)"

definition bounds_center :: "('a::ab_group_add \<Rightarrow> 'a) \<Rightarrow> 'a bounds \<Rightarrow> 'a point" where
  "bounds_center half b = Point (pt_x (bd_origin b) + half (sz_width (bd_size b)))
                                (pt_y (bd_origin b) + half (sz_height (bd_size b)))"

definition half_perimeter :: "'a::ab_group_add bounds \<Rightarrow> 'a" where
  "half_perimeter b = sz_width (bd_size b) + sz_height (bd_size b)"

definition dilate :: "'a::ab_group_add \<Rightarrow> 'a bounds \<Rightarrow> 'a bounds" where
  "dilate amount b = (let d = amount + amount
     in Bounds (bd_origin b - Point amount amount) (bd_size b + Size d d))"

definition bounds_extend :: "'a::ab_group_add edges \<Rightarrow> 'a bounds \<Rightarrow> 'a bounds" where
  "bounds_extend e b = Bounds (bd_origin b - Point (e_left e) (e_top e))
     (bd_size b + Size (e_left e + e_right e) (e_top e + e_bottom e))"

definition inset :: "'a::ab_group_add \<Rightarrow> 'a bounds \<Rightarrow> 'a bounds" where
  "inset amount b = dilate (- amount) b"

definition bounds_intersect :: "'a::linordered_ab_group_add bounds \<Rightarrow> 'a bounds \<Rightarrow> 'a bounds" where
  "bounds_intersect a b = from_corners (point_max (bd_origin a) (bd_origin b))
                                       (point_min (bottom_right a) (bottom_right b))"

definition bounds_union :: "'a::linordered_ab_group_add bounds \<Rightarrow> 'a bounds \<Rightarrow> 'a bounds" where
  "bounds_union a b = from_corners (point_min (bd_origin a) (bd_origin b))
                                   (point_max (bottom_right a) (bottom_right b))"

definition space_within :: "'a::ab_group_add bounds \<Rightarrow> 'a bounds \<Rightarrow> 'a edges" where
  "space_within b outer = Edges (b_top b - b_top outer) (b_right outer - b_right b)
                                (b_bottom outer - b_bottom b) (b_left b - b_left outer)"

definition bounds_add :: "'a::ab_group_add bounds \<Rightarrow> 'a point \<Rightarrow> 'a bounds" where
  "bounds_add b p = Bounds (bd_origin b + p) (bd_size b)"

definition bounds_sub :: "'a::ab_group_add bounds \<Rightarrow> 'a point \<Rightarrow> 'a bounds" where
  "bounds_sub b p = Bounds (bd_origin b - p) (bd_size b)"

definition bounds_contains :: "'a::linordered_ab_group_add bounds \<Rightarrow> 'a point \<Rightarrow> bool" where
  "bounds_contains b p \<longleftrightarrow>
     pt_x p \<ge> pt_x (bd_origin b) \<and> pt_x p < pt_x (bd_origin b) + sz_width (bd_size b) \<and>
     pt_y p \<ge> pt_y (bd_origin b) \<and> pt_y p < pt_y (bd_origin b) + sz_height (bd_size b)"

definition is_contained_within :: "'a::linordered_ab_group_add bounds \<Rightarrow> 'a bounds \<Rightarrow> bool" where
  "is_contained_within b other \<longleftrightarrow> bounds_contains other (bd_origin b) \<and> bounds_contains other (bottom_right b)"

definition bounds_map :: "('a \<Rightarrow> 'b) \<Rightarrow> 'a bounds \<Rightarrow> 'b bounds" where
  "bounds_map f b = Bounds (point_map f (bd_origin b)) (size_map f (bd_size b))"

definition bounds_map_origin :: "('a \<Rightarrow> 'a) \<Rightarrow> 'a bounds \<Rightarrow> 'a bounds" where
  "bounds_map_origin f b = Bounds (point_map f (bd_origin b)) (bd_size b)"

definition bounds_map_size :: "('a \<Rightarrow> 'a) \<Rightarrow> 'a bounds \<Rightarrow> 'a bounds" where
  "bounds_map_size f b = Bounds (bd_origin b) (size_map f (bd_size b))"

definition localize :: "'a::linordered_ab_group_add bounds \<Rightarrow> 'a point \<Rightarrow> 'a point option" where
  "localize b p = (if bounds_contains b p then Some (point_relative_to p (bd_origin b)) else None)"

definition bounds_is_empty :: "'a::linordered_ab_group_add bounds \<Rightarrow> bool" where
  "bounds_is_empty b \<longleftrightarrow> sz_width (bd_size b) \<le> 0 \<or> sz_height (bd_size b) \<le> 0"

section \<open>Regions of the plane\<close>

lemma from_corners_simps [simp]:
  "bd_origin (from_corners ul br) = ul" "bottom_right (from_corners ul br) = br"
  by (simp_all add: from_corners_def bottom_right_def)

lemma bounds_contains_corners:
  "bounds_contains b p \<longleftrightarrow> pt_x (bd_origin b) \<le> pt_x p \<and> pt_x p < pt_x (bottom_right b) \<and>
     pt_y (bd_origin b) \<le> pt_y p \<and> pt_y p < pt_y (bottom_right b)"
  by (simp add: bounds_contains_def bottom_right_def)

lemma bounds_is_empty_corners:
  "bounds_is_empty b \<longleftrightarrow> pt_x (bottom_right b) \<le> pt_x (bd_origin b) \<or> pt_y (bottom_right b) \<le> pt_y (bd_origin b)"
  by (simp add: bounds_is_empty_def bottom_right_def)

lemma bounds_is_empty_iff:
  "bounds_is_empty b \<longleftrightarrow> \<not> (\<exists>p. bounds_contains b p)"
proof -
  have "bounds_contains b (bd_origin b)" if "\<not> bounds_is_empty b"
    using that by (simp add: bounds_is_empty_corners bounds_contains_corners not_le)
  moreover have "\<not> bounds_is_empty b" if "bounds_contains b p" for p
    using that by (auto simp: bounds_is_empty_corners bounds_contains_corners)
  ultimately show ?thesis by blast
qed

lemma point_max_sel [simp]:
  "pt_x (point_max p q) = max (pt_x p) (pt_x q)" "pt_y (point_max p q) = max (pt_y p) (pt_y q)"
  by (auto simp: point_max_def max_def)

lemma point_min_sel [simp]:
  "pt_x (point_min p q) = min (pt_x p) (pt_x q)" "pt_y (point_min p q) = min (pt_y p) (pt_y q)"
  by (auto simp: point_min_def min_def)

lemma bounds_intersect_contains:
  "bounds_contains (bounds_intersect a b) p \<longleftrightarrow> bounds_contains a p \<and> bounds_contains b p"
  by (auto simp: bounds_contains_corners bounds_intersect_def)

lemma bounds_union_contains: "bounds_contains a p \<or> bounds_contains b p \<Longrightarrow> bounds_contains (bounds_union a b) p"
  by (auto simp: bounds_contains_corners bounds_union_def min_le_iff_disj less_max_iff_disj)

lemma intersects_sym: "intersects a b \<longleftrightarrow> intersects b a"
  by (auto simp: intersects_def)

text \<open>
  For bounds of coordinates without rounding: a point is in the intersection exactly when it is
  in both, the union covers both, and two bounds that are not empty intersect exactly when
  they share a point.
\<close>

theorem bounds_operations_regions:
  "(bounds_contains (bounds_intersect a b) p \<longleftrightarrow> bounds_contains a p \<and> bounds_contains b p) \<and>
   \<not> ((bounds_contains a p \<or> bounds_contains b p) \<and> \<not> bounds_contains (bounds_union a b) p) \<and>
   (intersects a b \<and> \<not> bounds_is_empty a \<and> \<not> bounds_is_empty b \<longleftrightarrow>
    (\<exists>q. bounds_contains a q \<and> bounds_contains b q))"
proof -
  have "intersects a b \<and> \<not> bounds_is_empty a \<and> \<not> bounds_is_empty b \<longleftrightarrow> \<not> bounds_is_empty (bounds_intersect a b)"
    by (auto simp: intersects_def bounds_is_empty_corners bounds_intersect_def not_le)
  then show ?thesis
    using bounds_union_contains [of a p b] by (auto simp: bounds_is_empty_iff bounds_intersect_contains)
qed

text \<open>The edges on the right and at the bottom are outside, and an intersection can have a
  negative size.\<close>

lemma bounds_exclude_far_edges:
  "\<not> bounds_contains (Bounds (Point 0 0) (Size 10 10)) (Point (10::int) 5)"
  "\<not> is_contained_within b b"
  "bd_size (bounds_intersect (Bounds (Point 0 0) (Size 1 1)) (Bounds (Point (5::int) 5) (Size 1 1))) = Size (-4) (-4)"
  by (simp_all add: bounds_contains_def is_contained_within_def bottom_right_def bounds_intersect_def
      from_corners_def point_max_def point_min_def)

lemma opposite_corner_involution: "opposite_corner (opposite_corner k) = k"
  by (cases k) simp_all

lemma other_side_opposite:
  "other_side_corner_along Vertical (other_side_corner_along Horizontal k) = opposite_corner k"
  by (cases k) simp_all

text \<open>Placing a size at a corner puts that corner where it was asked for.\<close>

lemma from_corner_and_size_corner: "bounds_corner (from_corner_and_size k p s) k = p"
  by (cases k; cases p)
    (simp_all add: from_corner_and_size_def bounds_corner_def top_right_def bottom_left_def bottom_right_def)

lemma inset_dilate: "inset a (dilate a b) = b"
  by (cases b) (simp add: inset_def dilate_def Let_def point_ops size_ops)

section \<open>Covering\<close>

text \<open>\<open>covers b c\<close>: whatever intersects \<open>c\<close> intersects \<open>b\<close>.\<close>

definition covers :: "'a::linordered_ab_group_add bounds \<Rightarrow> 'a bounds \<Rightarrow> bool" where
  "covers b c \<longleftrightarrow> pt_x (bd_origin b) \<le> pt_x (bd_origin c) \<and> pt_y (bd_origin b) \<le> pt_y (bd_origin c) \<and>
     pt_x (bottom_right c) \<le> pt_x (bottom_right b) \<and> pt_y (bottom_right c) \<le> pt_y (bottom_right b)"

lemma covers_refl [simp]: "covers b b"
  by (simp add: covers_def)

lemma covers_intersects: "covers b c \<Longrightarrow> intersects x c \<Longrightarrow> intersects x b"
  by (auto simp: covers_def intersects_def intro: less_le_trans le_less_trans)

lemma covers_union:
  "covers b c \<Longrightarrow> covers (bounds_union b x) c" "covers x c \<Longrightarrow> covers (bounds_union b x) c"
  "covers b c \<Longrightarrow> covers (bounds_union b x) (bounds_union c x)"
  by (auto simp: covers_def bounds_union_def min_le_iff_disj le_max_iff_disj)

end
