(* ===== verification/Bounds_Tree.thy ===== *)
theory Bounds_Tree
  imports Geometry "HOL-Library.Multiset"
begin

text \<open>
  The bounds tree of a scene, from \<open>src/src/bounds_tree.rs\<close>: an R-tree in a node vector that
  gives every inserted rectangle a drawing order above those of all earlier rectangles it
  intersects.  Indexing beyond the vector and \<open>unreachable!\<close> are the panics (\<open>None\<close>); the descent
  and the search are partial functions, since nothing but the shape of the tree stops them.
  Orders are natural numbers: an order never exceeds the number of insertions.
\<close>

section \<open>State\<close>

datatype 'a bnode =
    Leaf_node (bn_bounds: "'a bounds") nat
  | Internal_node nat nat (bn_bounds: "'a bounds") nat

record 'a bounds_tree =
  bt_root :: "nat option"
  bt_nodes :: "'a bnode list"
  bt_stack :: "nat list"

definition bounds_tree_new :: "'a bounds_tree" where
  "bounds_tree_new = \<lparr>bt_root = None, bt_nodes = [], bt_stack = []\<rparr>"

definition bounds_tree_clear :: "'a bounds_tree \<Rightarrow> 'a bounds_tree" where
  "bounds_tree_clear t = t\<lparr>bt_root := None, bt_nodes := [], bt_stack := []\<rparr>"

fun max_ordering :: "'a bnode \<Rightarrow> nat" where
  "max_ordering (Leaf_node _ order) = order"
| "max_ordering (Internal_node _ _ _ max_order) = max_order"

definition node_at :: "'a bnode list \<Rightarrow> nat \<Rightarrow> 'a bnode option" where
  "node_at nodes i = (if i < length nodes then Some (nodes ! i) else None)"

section \<open>Searching\<close>

partial_function (option) find_max_ordering ::
    "'a::linordered_ab_group_add bnode list \<Rightarrow> nat \<Rightarrow> 'a bounds \<Rightarrow> nat \<Rightarrow> nat option" where
  "find_max_ordering nodes index b m =
     (case node_at nodes index of
        None \<Rightarrow> None
      | Some (Leaf_node node_bounds order) \<Rightarrow> Some (if intersects b node_bounds then max order m else m)
      | Some (Internal_node left right node_bounds node_max) \<Rightarrow>
          if intersects b node_bounds \<and> m < node_max then
            Option.bind (node_at nodes left) (\<lambda>l.
            Option.bind (node_at nodes right) (\<lambda>r.
              if max_ordering l > max_ordering r then
                Option.bind (find_max_ordering nodes left b m) (find_max_ordering nodes right b)
              else
                Option.bind (find_max_ordering nodes right b m) (find_max_ordering nodes left b)))
          else Some m)"

section \<open>Insertion\<close>

text \<open>The search for the sibling: it grows the bounds on its way and keeps the way on the stack.\<close>

partial_function (option) descend ::
    "'a::linordered_ab_group_add bounds \<Rightarrow> 'a bnode list \<Rightarrow> nat list \<Rightarrow> nat \<Rightarrow> nat \<Rightarrow>
     ('a bnode list \<times> nat list \<times> nat \<times> nat) option" where
  "descend new_bounds nodes stack index m =
     (case node_at nodes index of
        None \<Rightarrow> None
      | Some (Leaf_node _ _) \<Rightarrow> Some (nodes, stack, index, m)
      | Some (Internal_node left right node_bounds node_max) \<Rightarrow>
          (let nodes = nodes[index := Internal_node left right (bounds_union node_bounds new_bounds) node_max];
               stack = stack @ [index] in
           Option.bind (node_at nodes left) (\<lambda>l.
           Option.bind (node_at nodes right) (\<lambda>r.
             (let left_cost = half_perimeter (bounds_union new_bounds (bn_bounds l));
                  right_cost = half_perimeter (bounds_union new_bounds (bn_bounds r)) in
              if left_cost < right_cost then
                Option.bind (find_max_ordering nodes right new_bounds m) (descend new_bounds nodes stack left)
              else
                Option.bind (find_max_ordering nodes left new_bounds m) (descend new_bounds nodes stack right))))))"

definition push_leaf :: "'a bounds \<Rightarrow> nat \<Rightarrow> 'a bnode list \<Rightarrow> nat \<times> 'a bnode list" where
  "push_leaf b order nodes = (length nodes, nodes @ [Leaf_node b order])"

definition push_internal ::
    "nat \<Rightarrow> nat \<Rightarrow> 'a::linordered_ab_group_add bnode list \<Rightarrow> (nat \<times> 'a bnode list) option" where
  "push_internal left right nodes =
     Option.bind (node_at nodes left) (\<lambda>l.
     Option.bind (node_at nodes right) (\<lambda>r.
       Some (length nodes, nodes @ [Internal_node left right (bounds_union (bn_bounds l) (bn_bounds r))
                                     (max (max_ordering l) (max_ordering r))])))"

text \<open>Hanging the new parent where the sibling was.\<close>

definition replace_child :: "nat \<Rightarrow> nat \<Rightarrow> nat \<Rightarrow> 'a bnode list \<Rightarrow> 'a bnode list option" where
  "replace_child old_parent sibling new_parent nodes =
     (case node_at nodes old_parent of
        Some (Internal_node left right b m) \<Rightarrow>
          Some (nodes[old_parent := (if left = sibling then Internal_node new_parent right b m
                                     else Internal_node left new_parent b m)])
      | _ \<Rightarrow> None)"

text \<open>Raising the maxima on the way back, until one is high enough.\<close>

fun raise_orders :: "nat \<Rightarrow> nat list \<Rightarrow> 'a bnode list \<Rightarrow> 'a bnode list option" where
  "raise_orders new_order [] nodes = Some nodes"
| "raise_orders new_order (i # is) nodes =
     (case node_at nodes i of
        Some (Internal_node left right b m) \<Rightarrow>
          if m \<ge> new_order then Some nodes
          else raise_orders new_order is (nodes[i := Internal_node left right b new_order])
      | _ \<Rightarrow> None)"

definition bounds_tree_insert ::
    "'a::linordered_ab_group_add bounds \<Rightarrow> 'a bounds_tree \<Rightarrow> (nat \<times> 'a bounds_tree) option" where
  "bounds_tree_insert new_bounds t =
     (case bt_root t of
        None \<Rightarrow>
          (let (new_node, nodes) = push_leaf new_bounds 1 (bt_nodes t)
           in Some (1, t\<lparr>bt_nodes := nodes, bt_root := Some new_node\<rparr>))
      | Some index \<Rightarrow>
          Option.bind (descend new_bounds (bt_nodes t) (bt_stack t) index 0) (\<lambda>(nodes, stack, sibling, m).
          (case node_at nodes sibling of
             Some (Leaf_node sibling_bounds sibling_ordering) \<Rightarrow>
               (let m = (if intersects sibling_bounds new_bounds then max m sibling_ordering else m);
                    new_order = m + 1;
                    (new_node, nodes) = push_leaf new_bounds new_order nodes in
                Option.bind (push_internal sibling new_node nodes) (\<lambda>(new_parent, nodes).
                Option.bind
                  (if stack = [] then Some (nodes, Some new_parent)
                   else map_option (\<lambda>nodes. (nodes, Some index))
                          (replace_child (last stack) sibling new_parent nodes)) (\<lambda>(nodes, root).
                Option.bind (raise_orders new_order (rev stack) nodes) (\<lambda>nodes.
                  Some (new_order, t\<lparr>bt_root := root, bt_nodes := nodes, bt_stack := []\<rparr>)))))
           | _ \<Rightarrow> None)))"

section \<open>The tree in the node vector\<close>

datatype 'a btree =
    BLeaf nat "'a bounds" nat
  | BNode nat "'a btree" "'a btree" "'a bounds" nat

primrec b_idx :: "'a btree \<Rightarrow> nat" where
  "b_idx (BLeaf i _ _) = i"
| "b_idx (BNode i _ _ _ _) = i"

primrec b_bounds :: "'a btree \<Rightarrow> 'a bounds" where
  "b_bounds (BLeaf _ b _) = b"
| "b_bounds (BNode _ _ _ b _) = b"

primrec b_max :: "'a btree \<Rightarrow> nat" where
  "b_max (BLeaf _ _ order) = order"
| "b_max (BNode _ _ _ _ m) = m"

primrec b_ids :: "'a btree \<Rightarrow> nat list" where
  "b_ids (BLeaf i _ _) = [i]"
| "b_ids (BNode i l r _ _) = i # b_ids l @ b_ids r"

primrec b_leaves :: "'a btree \<Rightarrow> ('a bounds \<times> nat) list" where
  "b_leaves (BLeaf _ b order) = [(b, order)]"
| "b_leaves (BNode _ l r _ _) = b_leaves l @ b_leaves r"

primrec b_valid :: "'a::linordered_ab_group_add btree \<Rightarrow> bool" where
  "b_valid (BLeaf _ _ _) = True"
| "b_valid (BNode i l r b m) \<longleftrightarrow> b_valid l \<and> b_valid r \<and> covers b (b_bounds l) \<and> covers b (b_bounds r) \<and>
     m = max (b_max l) (b_max r)"

primrec represents :: "'a bnode list \<Rightarrow> 'a btree \<Rightarrow> bool" where
  "represents nodes (BLeaf i b order) \<longleftrightarrow> i < length nodes \<and> nodes ! i = Leaf_node b order"
| "represents nodes (BNode i l r b m) \<longleftrightarrow> i < length nodes \<and>
     nodes ! i = Internal_node (b_idx l) (b_idx r) b m \<and> represents nodes l \<and> represents nodes r"

text \<open>The greatest order of a leaf that intersects \<open>b\<close>.\<close>

definition highest :: "'a::linordered_ab_group_add bounds \<Rightarrow> ('a bounds \<times> nat) list \<Rightarrow> nat" where
  "highest b leaves = foldr (\<lambda>(c, order) m. if intersects b c then max order m else m) leaves 0"

lemma highest_simps [simp]:
  "highest b [] = 0"
  "highest b ((c, order) # leaves) = (if intersects b c then max order (highest b leaves) else highest b leaves)"
  by (simp_all add: highest_def)

lemma highest_append [simp]: "highest b (xs @ ys) = max (highest b xs) (highest b ys)"
  by (induction xs) (auto simp: max.assoc)

lemma highest_le_max: "b_valid t \<Longrightarrow> highest b (b_leaves t) \<le> b_max t"
  by (induction t) auto

lemma highest_outside:
  "b_valid t \<Longrightarrow> \<not> intersects b (b_bounds t) \<Longrightarrow> highest b (b_leaves t) = 0"
  by (induction t) (auto dest: covers_intersects)

lemma represents_at: "represents nodes t \<Longrightarrow>
  node_at nodes (b_idx t) = Some (nodes ! b_idx t) \<and> bn_bounds (nodes ! b_idx t) = b_bounds t \<and>
  max_ordering (nodes ! b_idx t) = b_max t \<and> b_idx t \<in> set (b_ids t)"
  by (cases t) (simp_all add: node_at_def)

lemma represents_same:
  "represents nodes t \<Longrightarrow> length nodes \<le> length nodes' \<Longrightarrow> (\<And>i. i \<in> set (b_ids t) \<Longrightarrow> nodes' ! i = nodes ! i) \<Longrightarrow>
   represents nodes' t"
  by (induction t) auto

lemma find_max_ordering_highest:
  "represents nodes t \<Longrightarrow> b_valid t \<Longrightarrow>
   find_max_ordering nodes (b_idx t) b m = Some (max m (highest b (b_leaves t)))"
proof (induction t arbitrary: m)
  case (BLeaf i c order)
  then show ?case by (subst find_max_ordering.simps) (simp add: node_at_def max.commute)
next
  case (BNode i l r c mx)
  note l = represents_at [of nodes l] and r = represents_at [of nodes r]
  have reps: "represents nodes l" "represents nodes r" and valid: "b_valid l" "b_valid r" using BNode.prems by simp_all
  show ?case
  proof (cases "intersects b c \<and> m < mx")
    case True
    then show ?thesis
      using BNode.prems l r BNode.IH(1) [OF reps(1) valid(1)] BNode.IH(2) [OF reps(2) valid(2)]
      by (subst find_max_ordering.simps) (simp add: node_at_def ac_simps)
  next
    case False
    have "highest b (b_leaves (BNode i l r c mx)) \<le> m"
    proof (cases "intersects b c")
      case True
      with False highest_le_max [OF BNode.prems(2), of b] show ?thesis by simp
    next
      case False
      with highest_outside [OF BNode.prems(2), of b] show ?thesis by simp
    qed
    then have "max m (highest b (b_leaves (BNode i l r c mx))) = m" by (rule max_absorb1)
    moreover have "find_max_ordering nodes (b_idx (BNode i l r c mx)) b m = Some m"
      using False BNode.prems by (subst find_max_ordering.simps) (auto simp: node_at_def)
    ultimately show ?thesis by simp
  qed
qed

section \<open>The way down\<close>

datatype 'a tree_frame =
  Frame (f_idx: nat) (f_left: bool) (f_other: "'a btree") (f_bounds: "'a bounds") (f_max: nat)

definition frame_node :: "'a tree_frame \<Rightarrow> nat \<Rightarrow> 'a bnode" where
  "frame_node F k = (if f_left F then Internal_node k (b_idx (f_other F)) (f_bounds F) (f_max F)
                     else Internal_node (b_idx (f_other F)) k (f_bounds F) (f_max F))"

fun plug :: "'a tree_frame list \<Rightarrow> 'a btree \<Rightarrow> 'a btree" where
  "plug [] t = t"
| "plug (F # Fs) t = (if f_left F then BNode (f_idx F) (plug Fs t) (f_other F) (f_bounds F) (f_max F)
                      else BNode (f_idx F) (f_other F) (plug Fs t) (f_bounds F) (f_max F))"

definition hd_idx :: "'a tree_frame list \<Rightarrow> nat \<Rightarrow> nat" where
  "hd_idx Fs k = (case Fs of [] \<Rightarrow> k | F # _ \<Rightarrow> f_idx F)"

fun frames_ok :: "'a bnode list \<Rightarrow> 'a tree_frame list \<Rightarrow> nat \<Rightarrow> bool" where
  "frames_ok nodes [] k = True"
| "frames_ok nodes (F # Fs) k \<longleftrightarrow> f_idx F < length nodes \<and> nodes ! f_idx F = frame_node F (hd_idx Fs k) \<and>
     represents nodes (f_other F) \<and> frames_ok nodes Fs k"

definition frame_ids :: "'a tree_frame list \<Rightarrow> nat list" where
  "frame_ids Fs = concat (map (\<lambda>F. f_idx F # b_ids (f_other F)) Fs)"

definition grow :: "'a::linordered_ab_group_add bounds \<Rightarrow> 'a tree_frame \<Rightarrow> 'a tree_frame" where
  "grow b F = Frame (f_idx F) (f_left F) (f_other F) (bounds_union (f_bounds F) b) (f_max F)"

definition lift_max :: "nat \<Rightarrow> 'a tree_frame \<Rightarrow> 'a tree_frame" where
  "lift_max k F = Frame (f_idx F) (f_left F) (f_other F) (f_bounds F) (max (f_max F) k)"

lemma grow_sel [simp]:
  "f_idx (grow b F) = f_idx F" "f_left (grow b F) = f_left F" "f_other (grow b F) = f_other F"
  "f_max (grow b F) = f_max F" "f_bounds (grow b F) = bounds_union (f_bounds F) b"
  by (simp_all add: grow_def)

lemma lift_max_sel [simp]:
  "f_idx (lift_max k F) = f_idx F" "f_left (lift_max k F) = f_left F" "f_other (lift_max k F) = f_other F"
  "f_bounds (lift_max k F) = f_bounds F" "f_max (lift_max k F) = max (f_max F) k"
  by (simp_all add: lift_max_def)

lemma hd_idx_simps [simp]:
  "hd_idx [] k = k" "hd_idx (F # Fs) k = f_idx F" "hd_idx (Fs @ [F]) k = hd_idx Fs (f_idx F)"
  "hd_idx (map (lift_max j) Fs) k = hd_idx Fs k"
  by (simp_all add: hd_idx_def split: list.split)

lemma hd_idx_grow [simp]: "hd_idx (map (grow b) Fs) k = hd_idx Fs k"
  by (simp add: hd_idx_def split: list.split)

lemma frame_ids_simps [simp]:
  "frame_ids [] = []" "frame_ids (F # Fs) = f_idx F # b_ids (f_other F) @ frame_ids Fs"
  "frame_ids (Fs @ Gs) = frame_ids Fs @ frame_ids Gs" "frame_ids (map (lift_max k) Fs) = frame_ids Fs"
  by (simp_all add: frame_ids_def comp_def)

lemma frame_ids_grow [simp]: "frame_ids (map (grow b) Fs) = frame_ids Fs"
  by (simp add: frame_ids_def comp_def)

lemma b_idx_plug: "b_idx (plug Fs t) = hd_idx Fs (b_idx t)"
  by (cases Fs) simp_all

lemma represents_plug: "represents nodes (plug Fs t) \<longleftrightarrow> frames_ok nodes Fs (b_idx t) \<and> represents nodes t"
  by (induction Fs) (auto simp: frame_node_def b_idx_plug)

lemma mset_ids_plug: "mset (b_ids (plug Fs t)) = mset (frame_ids Fs) + mset (b_ids t)"
  by (induction Fs) simp_all

lemma leaves_plug: "mset (b_leaves (plug Fs t)) = mset (concat (map (\<lambda>F. b_leaves (f_other F)) Fs)) + mset (b_leaves t)"
  by (induction Fs) simp_all

lemma frames_ok_snoc:
  "frames_ok nodes (Fs @ [F]) k \<longleftrightarrow> frames_ok nodes Fs (f_idx F) \<and> f_idx F < length nodes \<and>
     nodes ! f_idx F = frame_node F k \<and> represents nodes (f_other F)"
  by (induction Fs) (auto split: list.split)

lemma frames_ok_same:
  "frames_ok nodes Fs k \<Longrightarrow> length nodes \<le> length nodes' \<Longrightarrow>
   (\<And>i. i \<in> set (frame_ids Fs) \<Longrightarrow> nodes' ! i = nodes ! i) \<Longrightarrow> frames_ok nodes' Fs k"
  by (induction Fs) (auto intro: represents_same)

lemma plug_Cons_left: "BNode i (plug Fs t) r b m = plug (Frame i True r b m # Fs) t"
  and plug_Cons_right: "BNode i l (plug Fs t) b m = plug (Frame i False l b m # Fs) t"
  by simp_all

lemma represents_update:
  "represents nodes t \<Longrightarrow> i \<notin> set (b_ids t) \<Longrightarrow> represents (nodes[i := x]) t"
  by (rule represents_same [of nodes]) (simp_all, metis nth_list_update_neq)

text \<open>The descent ends in a leaf, grows the frames above it, and has looked at all other leaves.\<close>

lemma descend_plug:
  "represents nodes t \<Longrightarrow> b_valid t \<Longrightarrow> distinct (b_ids t) \<Longrightarrow>
   \<exists>Fs j c k nodes1 m1. t = plug Fs (BLeaf j c k) \<and>
     descend b nodes stack (b_idx t) m = Some (nodes1, stack @ map f_idx Fs, j, m1) \<and>
     max m1 (if intersects b c then k else 0) = max m (highest b (b_leaves t)) \<and>
     length nodes1 = length nodes \<and> represents nodes1 (plug (map (grow b) Fs) (BLeaf j c k)) \<and>
     (\<forall>i. i \<notin> set (b_ids t) \<longrightarrow> nodes1 ! i = nodes ! i)"
proof (induction t arbitrary: nodes stack m)
  case (BLeaf j c k)
  then have "descend b nodes stack j m = Some (nodes, stack, j, m)"
    by (subst descend.simps) (simp add: node_at_def)
  with BLeaf show ?case
    by (intro exI [of _ "[]"] exI [of _ j] exI [of _ c] exI [of _ k] exI [of _ nodes] exI [of _ m]) simp
next
  case (BNode i l r c mx)
  define nodes0 where "nodes0 = nodes[i := Internal_node (b_idx l) (b_idx r) (bounds_union c b) mx]"
  have i: "i < length nodes" "nodes ! i = Internal_node (b_idx l) (b_idx r) c mx"
    and disj: "i \<notin> set (b_ids l)" "i \<notin> set (b_ids r)" "set (b_ids l) \<inter> set (b_ids r) = {}"
      "distinct (b_ids l)" "distinct (b_ids r)" and valid: "b_valid l" "b_valid r"
    using BNode.prems by auto
  have reps: "represents nodes0 l" "represents nodes0 r"
    using BNode.prems(1) disj by (simp_all add: nodes0_def represents_update)
  note lr = represents_at [OF reps(1)] represents_at [OF reps(2)]
  have at: "node_at nodes i = Some (Internal_node (b_idx l) (b_idx r) c mx)" using i by (simp add: node_at_def)
  have root: "nodes0 ! i = Internal_node (b_idx l) (b_idx r) (bounds_union c b) mx" "length nodes0 = length nodes"
    using i by (simp_all add: nodes0_def)
  show ?case
  proof (cases "half_perimeter (bounds_union b (b_bounds l)) < half_perimeter (bounds_union b (b_bounds r))")
    case True
    let ?m = "max m (highest b (b_leaves r))"
    obtain Fs j c' k nodes1 m1 where IH: "l = plug Fs (BLeaf j c' k)"
      "descend b nodes0 (stack @ [i]) (b_idx l) ?m = Some (nodes1, (stack @ [i]) @ map f_idx Fs, j, m1)"
      "max m1 (if intersects b c' then k else 0) = max ?m (highest b (b_leaves l))"
      "length nodes1 = length nodes0" "represents nodes1 (plug (map (grow b) Fs) (BLeaf j c' k))"
      "\<forall>i. i \<notin> set (b_ids l) \<longrightarrow> nodes1 ! i = nodes0 ! i"
      using BNode.IH(1) [OF reps(1) valid(1) disj(4), of "stack @ [i]" ?m] by blast
    have "descend b nodes stack i m = Some (nodes1, stack @ map f_idx (Frame i True r c mx # Fs), j, m1)"
      using True at lr IH(2) find_max_ordering_highest [OF reps(2) valid(2), of b m]
      by (subst descend.simps) (simp add: Let_def nodes0_def [symmetric])
    moreover have "represents nodes1 r"
      by (rule represents_same [OF reps(2)]) (use IH(4,6) disj in auto)
    then have "represents nodes1 (plug (map (grow b) (Frame i True r c mx # Fs)) (BLeaf j c' k))"
      using IH(1,4,5,6) root i(1) disj(1) by (auto simp: represents_plug b_idx_plug)
    moreover have "nodes1 ! i' = nodes ! i'" if "i' \<notin> set (b_ids (BNode i l r c mx))" for i'
      using that IH(6) by (simp add: nodes0_def)
    ultimately show ?thesis
      using IH(1,3,4) root(2)
      by (intro exI [of _ "Frame i True r c mx # Fs"] exI [of _ j] exI [of _ c'] exI [of _ k]
          exI [of _ nodes1] exI [of _ m1]) (auto simp: ac_simps)
  next
    case False
    let ?m = "max m (highest b (b_leaves l))"
    obtain Fs j c' k nodes1 m1 where IH: "r = plug Fs (BLeaf j c' k)"
      "descend b nodes0 (stack @ [i]) (b_idx r) ?m = Some (nodes1, (stack @ [i]) @ map f_idx Fs, j, m1)"
      "max m1 (if intersects b c' then k else 0) = max ?m (highest b (b_leaves r))"
      "length nodes1 = length nodes0" "represents nodes1 (plug (map (grow b) Fs) (BLeaf j c' k))"
      "\<forall>i. i \<notin> set (b_ids r) \<longrightarrow> nodes1 ! i = nodes0 ! i"
      using BNode.IH(2) [OF reps(2) valid(2) disj(5), of "stack @ [i]" ?m] by blast
    have "descend b nodes stack i m = Some (nodes1, stack @ map f_idx (Frame i False l c mx # Fs), j, m1)"
      using False at lr IH(2) find_max_ordering_highest [OF reps(1) valid(1), of b m]
      by (subst descend.simps) (simp add: Let_def nodes0_def [symmetric])
    moreover have "represents nodes1 l"
      by (rule represents_same [OF reps(1)]) (use IH(4,6) disj in auto)
    then have "represents nodes1 (plug (map (grow b) (Frame i False l c mx # Fs)) (BLeaf j c' k))"
      using IH(1,4,5,6) root i(1) disj(2) by (auto simp: represents_plug b_idx_plug)
    moreover have "nodes1 ! i' = nodes ! i'" if "i' \<notin> set (b_ids (BNode i l r c mx))" for i'
      using that IH(6) by (simp add: nodes0_def)
    ultimately show ?thesis
      using IH(1,3,4) root(2)
      by (intro exI [of _ "Frame i False l c mx # Fs"] exI [of _ j] exI [of _ c'] exI [of _ k]
          exI [of _ nodes1] exI [of _ m1]) (auto simp: ac_simps)
  qed
qed

section \<open>The way back\<close>

lemma frames_ok_update:
  assumes "frames_ok nodes Fs k" and "i \<notin> set (frame_ids Fs)"
  shows "frames_ok (nodes[i := x]) Fs k"
proof (rule frames_ok_same [OF assms(1)])
  show "nodes[i := x] ! j = nodes ! j" if "j \<in> set (frame_ids Fs)" for j
    using that assms(2) by (metis nth_list_update_neq)
qed simp

lemma replace_child_frames:
  assumes "frames_ok nodes (Fs @ [F]) k" and "distinct (frame_ids (Fs @ [F]))" and "b_idx (f_other F) \<noteq> k"
  shows "replace_child (f_idx F) k k' nodes = Some (nodes[f_idx F := frame_node F k'])"
    and "frames_ok (nodes[f_idx F := frame_node F k']) (Fs @ [F]) k'"
proof -
  have F: "f_idx F < length nodes" "nodes ! f_idx F = frame_node F k" "represents nodes (f_other F)"
    "frames_ok nodes Fs (f_idx F)" using assms(1) by (simp_all add: frames_ok_snoc)
  show "replace_child (f_idx F) k k' nodes = Some (nodes[f_idx F := frame_node F k'])"
    using F(1,2) assms(3) by (auto simp: replace_child_def node_at_def frame_node_def)
  have "frames_ok (nodes[f_idx F := frame_node F k']) Fs (f_idx F)"
    using assms(2) by (intro frames_ok_update F(4)) auto
  then show "frames_ok (nodes[f_idx F := frame_node F k']) (Fs @ [F]) k'"
    using F(1,3) assms(2) by (simp add: frames_ok_snoc represents_update)
qed

lemma frame_node_cases: "\<exists>l r. frame_node F k = Internal_node l r (f_bounds F) (f_max F) \<and>
    frame_node (lift_max o' F) k = Internal_node l r (f_bounds F) (max (f_max F) o')"
  by (simp add: frame_node_def)

lemma lift_max_id: "\<forall>F \<in> set Fs. k \<le> f_max F \<Longrightarrow> map (lift_max k) Fs = Fs"
  by (induction Fs) (auto simp: lift_max_def max_absorb1)

lemma raise_orders_frames:
  "frames_ok nodes Fs j \<Longrightarrow> distinct (frame_ids Fs) \<Longrightarrow> sorted_wrt (\<lambda>F G. f_max G \<le> f_max F) Fs \<Longrightarrow>
   \<exists>nodes'. raise_orders k (rev (map f_idx Fs)) nodes = Some nodes' \<and> frames_ok nodes' (map (lift_max k) Fs) j \<and>
     length nodes' = length nodes \<and> (\<forall>i. i \<notin> set (map f_idx Fs) \<longrightarrow> nodes' ! i = nodes ! i)"
proof (induction Fs arbitrary: nodes j rule: rev_induct)
  case (snoc F Fs)
  have F: "f_idx F < length nodes" "nodes ! f_idx F = frame_node F j" "represents nodes (f_other F)"
    "frames_ok nodes Fs (f_idx F)" using snoc.prems(1) by (simp_all add: frames_ok_snoc)
  obtain l r where node: "frame_node F j = Internal_node l r (f_bounds F) (f_max F)"
    "frame_node (lift_max k F) j = Internal_node l r (f_bounds F) (max (f_max F) k)"
    using frame_node_cases by blast
  show ?case
  proof (cases "k \<le> f_max F")
    case True
    with snoc.prems(3) have "\<forall>G \<in> set (Fs @ [F]). k \<le> f_max G" by (auto simp: sorted_wrt_append)
    then have "map (lift_max k) (Fs @ [F]) = Fs @ [F]" by (rule lift_max_id)
    with True F node snoc.prems(1) show ?thesis by (simp add: node_at_def)
  next
    case False
    let ?nodes = "nodes[f_idx F := frame_node (lift_max k F) j]"
    have "frames_ok ?nodes Fs (f_idx F)"
      using snoc.prems(2) by (intro frames_ok_update F(4)) auto
    moreover have "distinct (frame_ids Fs)" "sorted_wrt (\<lambda>F G. f_max G \<le> f_max F) Fs"
      using snoc.prems(2,3) by (simp_all add: sorted_wrt_append)
    ultimately obtain nodes' where IH: "raise_orders k (rev (map f_idx Fs)) ?nodes = Some nodes'"
      "frames_ok nodes' (map (lift_max k) Fs) (f_idx F)" "length nodes' = length ?nodes"
      "\<forall>i. i \<notin> set (map f_idx Fs) \<longrightarrow> nodes' ! i = ?nodes ! i"
      using snoc.IH by blast
    have notin: "i \<notin> set (map f_idx Fs)" if "i \<in> set (f_idx F # b_ids (f_other F))" for i
      using that snoc.prems(2) by (auto simp: frame_ids_def)
    have "represents nodes' (f_other F)"
    proof (rule represents_same [OF F(3)])
      show "nodes' ! i = nodes ! i" if "i \<in> set (b_ids (f_other F))" for i
      proof -
        have "i \<noteq> f_idx F" using that snoc.prems(2) by auto
        with IH(4) notin [of i] that show ?thesis by simp
      qed
    qed (use IH(3) in simp)
    moreover have "nodes' ! f_idx F = frame_node (lift_max k F) j"
      using IH(4) notin [of "f_idx F"] F(1) by simp
    moreover have "raise_orders k (rev (map f_idx (Fs @ [F]))) nodes = Some nodes'"
      using False F(1,2) node IH(1) by (simp add: node_at_def max_absorb2)
    ultimately show ?thesis
      using IH(2,3,4) F(1) by (intro exI [of _ nodes']) (simp add: frames_ok_snoc)
  qed
qed simp

lemma valid_plug_sorted:
  "b_valid (plug Fs t) \<Longrightarrow> sorted_wrt (\<lambda>F G. f_max G \<le> f_max F) Fs \<and> (\<forall>F \<in> set Fs. f_max F \<le> b_max (plug Fs t)) \<and> b_valid t"
  by (induction Fs) (auto split: if_splits)

lemma valid_plug_insert:
  assumes "b_valid t'" and "b_bounds t' = bounds_union (b_bounds t) b" and "b_max t' = max (b_max t) k"
  shows "b_valid (plug Fs t) \<Longrightarrow>
    b_valid (plug (map (lift_max k) (map (grow b) Fs)) t') \<and>
    b_bounds (plug (map (lift_max k) (map (grow b) Fs)) t') = bounds_union (b_bounds (plug Fs t)) b \<and>
    b_max (plug (map (lift_max k) (map (grow b) Fs)) t') = max (b_max (plug Fs t)) k"
  using assms by (induction Fs) (auto simp: covers_union ac_simps split: if_splits)

section \<open>Insertion is correct\<close>

definition leaves_of :: "'a bnode list \<Rightarrow> ('a bounds \<times> nat) list" where
  "leaves_of nodes = List.map_filter (\<lambda>n. case n of Leaf_node b k \<Rightarrow> Some (b, k) | _ \<Rightarrow> None) nodes"

definition tree_in :: "'a::linordered_ab_group_add bnode list \<Rightarrow> nat \<Rightarrow> 'a btree \<Rightarrow> bool" where
  "tree_in nodes i tr \<longleftrightarrow> b_idx tr = i \<and> represents nodes tr \<and> b_valid tr \<and> mset (b_ids tr) = mset [0..<length nodes]"

definition bounds_tree_wf :: "'a::linordered_ab_group_add bounds_tree \<Rightarrow> bool" where
  "bounds_tree_wf t \<longleftrightarrow> bt_stack t = [] \<and>
     (case bt_root t of None \<Rightarrow> bt_nodes t = [] | Some i \<Rightarrow> \<exists>tr. tree_in (bt_nodes t) i tr)"

definition leaf_at :: "'a bnode list \<Rightarrow> nat \<Rightarrow> ('a bounds \<times> nat) option" where
  "leaf_at nodes i = (case nodes ! i of Leaf_node b k \<Rightarrow> Some (b, k) | _ \<Rightarrow> None)"

lemma map_filter_append': "List.map_filter f (xs @ ys) = List.map_filter f xs @ List.map_filter f ys"
  by (simp add: List.map_filter_def)

lemma represents_leaves: "represents nodes tr \<Longrightarrow> b_leaves tr = List.map_filter (leaf_at nodes) (b_ids tr)"
  by (induction tr) (simp_all add: List.map_filter_simps leaf_at_def map_filter_append')

lemma mset_map_filter: "mset xs = mset ys \<Longrightarrow> mset (List.map_filter f xs) = mset (List.map_filter f ys)"
  by (simp add: List.map_filter_def mset_map mset_filter)

lemma leaves_of_upt: "leaves_of nodes = List.map_filter (leaf_at nodes) [0..<length nodes]"
proof -
  have "map (\<lambda>i. nodes ! i) [0..<length nodes] = nodes" by (rule map_nth)
  then have "leaves_of nodes = List.map_filter (\<lambda>n. case n of Leaf_node b k \<Rightarrow> Some (b, k) | _ \<Rightarrow> None)
      (map (\<lambda>i. nodes ! i) [0..<length nodes])"
    by (simp add: leaves_of_def)
  then show ?thesis by (simp add: List.map_filter_def leaf_at_def [abs_def] filter_map comp_def)
qed

lemma tree_in_leaves: "tree_in nodes i tr \<Longrightarrow> mset (leaves_of nodes) = mset (b_leaves tr)"
proof -
  assume "tree_in nodes i tr"
  then have "mset [0..<length nodes] = mset (b_ids tr)" "represents nodes tr" by (simp_all add: tree_in_def)
  from mset_map_filter [OF this(1), of "leaf_at nodes"] this(2) show ?thesis
    by (simp only: leaves_of_upt represents_leaves)
qed

lemma highest_Max: "highest b xs = Max (insert 0 {k. \<exists>c. (c, k) \<in> set xs \<and> intersects b c})"
proof (induction xs)
  case (Cons x xs)
  obtain c k where x: "x = (c, k)" by (cases x)
  let ?S = "{k. \<exists>c. (c, k) \<in> set xs \<and> intersects b c}"
  have fin: "finite (insert 0 ?S)" by (rule finite_subset [of _ "insert 0 (snd ` set xs)"]) force+
  have S: "{k'. \<exists>c'. (c', k') \<in> set (x # xs) \<and> intersects b c'} = (if intersects b c then insert k ?S else ?S)"
    by (auto simp: x)
  have "Max (insert k (insert 0 ?S)) = max k (Max (insert 0 ?S))" using fin by (rule Max_insert) simp
  then have "Max (insert 0 (insert k ?S)) = max k (Max (insert 0 ?S))" by (simp only: insert_commute)
  then show ?case unfolding S using Cons by (simp only: x highest_simps split: if_split) simp
qed simp

lemma highest_mset: "mset xs = mset ys \<Longrightarrow> highest b xs = highest b ys"
  unfolding highest_Max by (metis mset_eq_setD)

lemma tree_in_distinct: "tree_in nodes i tr \<Longrightarrow> distinct (b_ids tr) \<and> set (b_ids tr) = {0..<length nodes}"
proof -
  assume "tree_in nodes i tr"
  then have "mset [0..<length nodes] = mset (b_ids tr)" by (simp only: tree_in_def)
  then show ?thesis by (metis distinct_upt mset_eq_imp_distinct_iff mset_eq_setD set_upt)
qed

lemma leaves_of_snoc [simp]:
  "leaves_of (nodes @ [Leaf_node b k]) = leaves_of nodes @ [(b, k)]"
  "leaves_of (nodes @ [Internal_node l r b k]) = leaves_of nodes"
  by (simp_all add: leaves_of_def map_filter_append' List.map_filter_simps)

text \<open>The new parent of the leaf found by the descent, and the tree around it.\<close>

definition grown_tree :: "'a::linordered_ab_group_add tree_frame list \<Rightarrow> nat \<Rightarrow> 'a bounds \<Rightarrow> nat \<Rightarrow> nat \<Rightarrow> 'a bounds \<Rightarrow> nat \<Rightarrow> 'a btree" where
  "grown_tree Fs j c k n b order =
     plug (map (lift_max order) (map (grow b) Fs))
       (BNode (Suc n) (BLeaf j c k) (BLeaf n b order) (bounds_union c b) (max k order))"

lemma grown_tree_valid:
  "b_valid (plug Fs (BLeaf j c k)) \<Longrightarrow> b_valid (grown_tree Fs j c k n b order)"
  unfolding grown_tree_def
  by (rule valid_plug_insert [THEN conjunct1, of _ "BLeaf j c k"]) (simp_all add: covers_union)

lemma grown_tree_ids:
  "mset (b_ids (grown_tree Fs j c k n b order)) = mset (b_ids (plug Fs (BLeaf j c k))) + {#n, Suc n#}"
  by (simp add: grown_tree_def mset_ids_plug del: map_map)

lemma grown_tree_leaves:
  "mset (b_leaves (grown_tree Fs j c k n b order)) = add_mset (b, order) (mset (b_leaves (plug Fs (BLeaf j c k))))"
  by (simp add: grown_tree_def leaves_plug comp_def)

lemma attach_frames:
  assumes "frames_ok nodes Fs j" and "distinct (frame_ids Fs)" and "j \<notin> set (frame_ids Fs)"
    and "sorted_wrt (\<lambda>F G. f_max G \<le> f_max F) Fs"
  shows "\<exists>nodes1 nodes2.
    (if map f_idx Fs = [] then Some (nodes, Some k)
     else map_option (\<lambda>nodes. (nodes, Some (hd_idx Fs j))) (replace_child (last (map f_idx Fs)) j k nodes)) =
      Some (nodes1, Some (hd_idx Fs k)) \<and>
    raise_orders order (rev (map f_idx Fs)) nodes1 = Some nodes2 \<and>
    frames_ok nodes2 (map (lift_max order) Fs) k \<and> length nodes2 = length nodes \<and>
    (\<forall>i. i \<notin> set (frame_ids Fs) \<longrightarrow> nodes2 ! i = nodes ! i)"
proof (cases Fs rule: rev_cases)
  case Nil
  then show ?thesis by simp
next
  case (snoc Gs F)
  let ?nodes = "nodes[f_idx F := frame_node F k]"
  have "b_idx (f_other F) \<in> set (b_ids (f_other F))" by (cases "f_other F") simp_all
  with assms(3) have "b_idx (f_other F) \<noteq> j" by (auto simp: snoc)
  note rc = replace_child_frames [OF assms(1,2) [unfolded snoc] this, of k]
  have ids: "set (map f_idx Fs) \<subseteq> set (frame_ids Fs)" by (auto simp: frame_ids_def)
  obtain nodes2 where r: "raise_orders order (rev (map f_idx Fs)) ?nodes = Some nodes2"
    "frames_ok nodes2 (map (lift_max order) Fs) k" "length nodes2 = length ?nodes"
    "\<forall>i. i \<notin> set (map f_idx Fs) \<longrightarrow> nodes2 ! i = ?nodes ! i"
    using raise_orders_frames [OF rc(2) assms(2,4) [unfolded snoc], of order] unfolding snoc by blast
  have "nodes2 ! i = nodes ! i" if "i \<notin> set (frame_ids Fs)" for i
  proof -
    have "i \<notin> set (map f_idx Fs)" "i \<noteq> f_idx F" using that ids by (auto simp: snoc)
    then show ?thesis using r(4) by simp
  qed
  moreover have "hd_idx Fs k = hd_idx Fs j" by (cases Gs) (simp_all add: snoc hd_idx_def)
  ultimately show ?thesis
    using r(1-3) rc(1) by (intro exI [of _ ?nodes] exI [of _ nodes2]) (simp add: snoc)
qed

text \<open>Insertion into a tree that is not empty builds the grown tree.\<close>

lemma bounds_tree_insert_grown:
  assumes "bt_stack t = []" and "bt_root t = Some i" and tree: "tree_in (bt_nodes t) i tr"
  shows "\<exists>t' tr' order. bounds_tree_insert b t = Some (order, t') \<and> order = Suc (highest b (b_leaves tr)) \<and>
    bt_stack t' = [] \<and> (\<exists>i'. bt_root t' = Some i' \<and> tree_in (bt_nodes t') i' tr') \<and>
    mset (b_leaves tr') = add_mset (b, order) (mset (b_leaves tr))"
proof -
  let ?nodes = "bt_nodes t" and ?n = "length (bt_nodes t)"
  have wf: "represents ?nodes tr" "b_valid tr" "b_idx tr = i" and ids: "distinct (b_ids tr)" "set (b_ids tr) = {0..<?n}"
    using tree tree_in_distinct [OF tree] by (simp_all add: tree_in_def)
  obtain Fs j c k nodes1 m1 where d: "tr = plug Fs (BLeaf j c k)"
    "descend b ?nodes [] i 0 = Some (nodes1, map f_idx Fs, j, m1)"
    "max m1 (if intersects b c then k else 0) = highest b (b_leaves tr)"
    "length nodes1 = ?n" "represents nodes1 (plug (map (grow b) Fs) (BLeaf j c k))"
    using descend_plug [OF wf(1,2) ids(1), of b "[]" 0] wf(3) by auto
  define order where "order = Suc (highest b (b_leaves tr))"
  let ?Gs = "map (grow b) Fs"
  let ?nodes2 = "(nodes1 @ [Leaf_node b order]) @ [Internal_node j ?n (bounds_union c b) (max k order)]"
  have fr: "frames_ok nodes1 ?Gs j" and leaf: "j < ?n" "nodes1 ! j = Leaf_node c k"
    using d(4,5) by (simp_all add: represents_plug)
  have "mset (b_ids tr) = mset (frame_ids Fs @ [j])" by (simp add: d(1) mset_ids_plug)
  with ids(1) have "distinct (frame_ids Fs @ [j])" by (metis mset_eq_imp_distinct_iff)
  then have dist: "distinct (frame_ids ?Gs)" "j \<notin> set (frame_ids ?Gs)" by simp_all
  have "set (b_ids tr) = set (frame_ids Fs @ [j])"
    using \<open>mset (b_ids tr) = mset (frame_ids Fs @ [j])\<close> by (rule mset_eq_setD)
  then have below: "\<forall>i \<in> set (frame_ids ?Gs). i < ?n" using ids(2) by auto
  have "frames_ok ?nodes2 ?Gs j"
    by (rule frames_ok_same [OF fr]) (use below d(4) in \<open>simp_all add: nth_append\<close>)
  moreover have "sorted_wrt (\<lambda>F G. f_max G \<le> f_max F) ?Gs"
    using valid_plug_sorted [of Fs "BLeaf j c k"] wf(2) d(1) by (simp add: sorted_wrt_map)
  ultimately obtain nodes3 nodes4 where att:
    "(if map f_idx ?Gs = [] then Some (?nodes2, Some (Suc ?n))
      else map_option (\<lambda>nodes. (nodes, Some (hd_idx ?Gs j))) (replace_child (last (map f_idx ?Gs)) j (Suc ?n) ?nodes2)) =
       Some (nodes3, Some (hd_idx ?Gs (Suc ?n)))"
    "raise_orders order (rev (map f_idx ?Gs)) nodes3 = Some nodes4"
    "frames_ok nodes4 (map (lift_max order) ?Gs) (Suc ?n)" "length nodes4 = length ?nodes2"
    "\<forall>i. i \<notin> set (frame_ids ?Gs) \<longrightarrow> nodes4 ! i = ?nodes2 ! i"
    using attach_frames [OF _ dist, of ?nodes2 "Suc ?n" order] by blast
  define tr' where "tr' = grown_tree Fs j c k ?n b order"
  let ?t' = "t\<lparr>bt_root := Some (hd_idx ?Gs (Suc ?n)), bt_nodes := nodes4, bt_stack := []\<rparr>"
  have "?n \<notin> set (frame_ids ?Gs)" "Suc ?n \<notin> set (frame_ids ?Gs)" using below by fastforce+
  then have "nodes4 ! j = Leaf_node c k" "nodes4 ! ?n = Leaf_node b order"
    "nodes4 ! Suc ?n = Internal_node j ?n (bounds_union c b) (max k order)"
    using att(5) dist(2) leaf d(4) by (simp_all add: nth_append)
  then have "represents nodes4 tr'"
    using att(3,4) leaf d(4) by (simp add: tr'_def grown_tree_def represents_plug)
  moreover have "b_idx tr' = hd_idx ?Gs (Suc ?n)"
    by (simp add: tr'_def grown_tree_def b_idx_plug del: map_map)
  moreover have "b_valid tr'" using wf(2) d(1) by (simp add: tr'_def grown_tree_valid)
  moreover have "mset (b_ids tr') = mset [0..<length nodes4]"
  proof -
    have "mset (b_ids tr) = mset [0..<?n]" using tree by (simp only: tree_in_def)
    then have "mset (b_ids tr') = mset ([0..<?n] @ [?n, Suc ?n])" by (simp only: tr'_def grown_tree_ids d(1) mset_append) simp
    also have "[0..<?n] @ [?n, Suc ?n] = [0..<length nodes4]" using att(4) d(4) by simp
    finally show ?thesis .
  qed
  ultimately have tree': "tree_in nodes4 (hd_idx ?Gs (Suc ?n)) tr'" by (simp only: tree_in_def)
  have m: "Suc (if intersects c b then max m1 k else m1) = order"
    using d(3) by (simp add: order_def intersects_sym split: if_splits)
  have hd: "hd_idx ?Gs j = i" using wf(3) d(1) by (simp add: b_idx_plug)
  have idx: "map f_idx ?Gs = map f_idx Fs" by simp
  note att' = att(1,2) [unfolded idx hd append_assoc append_Cons append_Nil]
  have ins: "bounds_tree_insert b t = Some (order, ?t')"
    using assms(1,2) d(2) leaf d(4) m att'
    by (cases "Fs = []") (auto simp: bounds_tree_insert_def node_at_def push_leaf_def push_internal_def nth_append
        split del: if_split)
  show ?thesis
    using ins tree' grown_tree_leaves [of Fs j c k ?n b order] d(1) order_def
    by (intro exI [of _ ?t'] exI [of _ tr'] exI [of _ order]) (simp add: tr'_def)
qed

lemma bounds_tree_wf_new: "bounds_tree_wf bounds_tree_new" "bounds_tree_wf (bounds_tree_clear t)"
  by (simp_all add: bounds_tree_wf_def bounds_tree_new_def bounds_tree_clear_def)

lemma bounds_tree_insert_correct:
  assumes "bounds_tree_wf t"
  shows "\<exists>t'. bounds_tree_insert b t = Some (Suc (highest b (leaves_of (bt_nodes t))), t') \<and> bounds_tree_wf t' \<and>
    mset (leaves_of (bt_nodes t')) =
      add_mset (b, Suc (highest b (leaves_of (bt_nodes t)))) (mset (leaves_of (bt_nodes t)))"
proof (cases "bt_root t")
  case None
  let ?t' = "t\<lparr>bt_nodes := [Leaf_node b 1], bt_root := Some 0\<rparr>"
  have empty: "bt_nodes t = []" "bt_stack t = []" using assms None by (simp_all add: bounds_tree_wf_def)
  have "tree_in (bt_nodes ?t') 0 (BLeaf 0 b 1)" by (simp add: tree_in_def)
  then have "bounds_tree_wf ?t'" using empty by (auto simp: bounds_tree_wf_def)
  with None empty show ?thesis
    by (intro exI [of _ ?t'])
      (simp add: bounds_tree_insert_def push_leaf_def leaves_of_def List.map_filter_simps)
next
  case (Some i)
  with assms obtain tr where tr: "bt_stack t = []" "tree_in (bt_nodes t) i tr" by (auto simp: bounds_tree_wf_def)
  obtain t' tr' order i' where ins: "bounds_tree_insert b t = Some (order, t')" "order = Suc (highest b (b_leaves tr))"
    "bt_stack t' = []" "bt_root t' = Some i'" "tree_in (bt_nodes t') i' tr'"
    "mset (b_leaves tr') = add_mset (b, order) (mset (b_leaves tr))"
    using bounds_tree_insert_grown [OF tr(1) Some tr(2)] by metis
  have "bounds_tree_wf t'" using ins(3,4,5) by (auto simp: bounds_tree_wf_def)
  with ins tree_in_leaves [OF tr(2)] tree_in_leaves [OF ins(5)] highest_mset [OF tree_in_leaves [OF tr(2)], of b]
  show ?thesis by simp
qed

text \<open>
  C24. Inserting into a well-formed tree succeeds and keeps it well-formed; the new rectangle becomes a
  leaf beside those there were, and its order is one more than the greatest order of the
  rectangles it intersects.
\<close>

theorem bounds_tree_insert_order:
  assumes "bounds_tree_wf t"
  shows "\<exists>order t'. bounds_tree_insert b t = Some (order, t') \<and> bounds_tree_wf t' \<and>
    mset (leaves_of (bt_nodes t')) = add_mset (b, order) (mset (leaves_of (bt_nodes t))) \<and>
    order = Suc (Max (insert 0 {k. \<exists>c. (c, k) \<in> set (leaves_of (bt_nodes t)) \<and> intersects b c}))"
  using bounds_tree_insert_correct [OF assms, of b] unfolding highest_Max by blast

lemma bounds_tree_insert_order_witness:
  "\<exists>order t'. bounds_tree_insert (Bounds (Point (0::int) 0) (Size 1 1)) bounds_tree_new = Some (order, t') \<and>
     bounds_tree_wf t'"
  using bounds_tree_insert_order [OF bounds_tree_wf_new(1), of "Bounds (Point (0::int) 0) (Size 1 1)"] by blast

section \<open>A whole scene\<close>

fun insert_all :: "'a::linordered_ab_group_add bounds list \<Rightarrow> 'a bounds_tree \<Rightarrow> (nat list \<times> 'a bounds_tree) option" where
  "insert_all [] t = Some ([], t)"
| "insert_all (b # bs) t =
     Option.bind (bounds_tree_insert b t) (\<lambda>(order, t').
     map_option (\<lambda>(orders, t'). (order # orders, t')) (insert_all bs t'))"

lemma highest_ge: "(c, k) \<in> set xs \<Longrightarrow> intersects b c \<Longrightarrow> k \<le> highest b xs"
  by (induction xs) auto

lemma highest_bound: "list_all (\<lambda>(c, k). k \<le> n) xs \<Longrightarrow> highest b xs \<le> n"
  by (induction xs) auto

lemma insert_all_orders:
  assumes "bounds_tree_wf t" and "list_all (\<lambda>(c, k). k \<le> n) (leaves_of (bt_nodes t))"
  shows "\<exists>orders t'. insert_all bs t = Some (orders, t') \<and> bounds_tree_wf t' \<and> length orders = length bs \<and>
    list_all (\<lambda>k. k \<le> n + length bs) orders \<and>
    (\<forall>(c, k) \<in> set (leaves_of (bt_nodes t)). list_all (\<lambda>(b, l). \<not> (intersects c b \<and> l \<le> k)) (zip bs orders)) \<and>
    sorted_wrt (\<lambda>(b, k) (c, l). \<not> (intersects b c \<and> l \<le> k)) (zip bs orders)"
  using assms
proof (induction bs arbitrary: t n)
  case (Cons b bs)
  let ?L = "leaves_of (bt_nodes t)" and ?k = "Suc (highest b (leaves_of (bt_nodes t)))"
  obtain t1 where t1: "bounds_tree_insert b t = Some (?k, t1)" "bounds_tree_wf t1"
    "mset (leaves_of (bt_nodes t1)) = add_mset (b, ?k) (mset ?L)"
    using bounds_tree_insert_correct [OF Cons.prems(1)] by blast
  have leaves: "set (leaves_of (bt_nodes t1)) = insert (b, ?k) (set ?L)"
    using t1(3) by (metis set_mset_add_mset_insert set_mset_mset)
  have k: "?k \<le> Suc n" using highest_bound [OF Cons.prems(2), of b] by simp
  have "list_all (\<lambda>(c, k). k \<le> Suc n) (leaves_of (bt_nodes t1))"
    using Cons.prems(2) k by (auto simp: list_all_iff leaves)
  from Cons.IH [OF t1(2) this] obtain orders t' where IH:
    "insert_all bs t1 = Some (orders, t')" "bounds_tree_wf t'" "length orders = length bs"
    "list_all (\<lambda>k. k \<le> Suc n + length bs) orders"
    "\<forall>(c, k) \<in> set (leaves_of (bt_nodes t1)). list_all (\<lambda>(b, l). \<not> (intersects c b \<and> l \<le> k)) (zip bs orders)"
    "sorted_wrt (\<lambda>(b, k) (c, l). \<not> (intersects b c \<and> l \<le> k)) (zip bs orders)"
    by blast
  have new: "\<not> (intersects c b \<and> ?k \<le> l)" if "(c, l) \<in> set ?L" for c l
    using highest_ge [OF that, of b] intersects_sym [of c b] by auto
  have later: "\<forall>(c, k) \<in> insert (b, ?k) (set ?L). list_all (\<lambda>(b, l). \<not> (intersects c b \<and> l \<le> k)) (zip bs orders)"
    using IH(5) by (simp only: leaves)
  have "insert_all (b # bs) t = Some (?k # orders, t')" using t1(1) IH(1) by simp
  moreover have "list_all (\<lambda>k. k \<le> n + length (b # bs)) (?k # orders)" using IH(4) k by simp
  moreover have "\<forall>(c, k) \<in> set ?L. list_all (\<lambda>(b, l). \<not> (intersects c b \<and> l \<le> k)) (zip (b # bs) (?k # orders))"
    using later new by fastforce
  moreover have "sorted_wrt (\<lambda>(b, k) (c, l). \<not> (intersects b c \<and> l \<le> k)) (zip (b # bs) (?k # orders))"
    using later IH(6) by (simp add: list_all_iff case_prod_beta)
  ultimately show ?case using IH(2,3) by (intro exI [of _ "?k # orders"] exI [of _ t']) simp
qed simp

text \<open>
  C29. A scene drawn from an empty tree gets an order for every rectangle; of two that intersect the
  later one has the greater order, and no order exceeds the number of rectangles, so that
  \<open>u32\<close> suffices for fewer than \<open>2 ^ 32\<close> of them.
\<close>

theorem bounds_tree_draw_order:
  "\<exists>orders t. insert_all bs bounds_tree_new = Some (orders, t) \<and> length orders = length bs \<and>
     sorted_wrt (\<lambda>(b, k) (c, l). \<not> (intersects b c \<and> l \<le> k)) (zip bs orders) \<and>
     list_all (\<lambda>k. k \<le> length bs) orders"
proof -
  have "list_all (\<lambda>(c, k). k \<le> 0) (leaves_of (bt_nodes bounds_tree_new))"
    by (simp add: bounds_tree_new_def leaves_of_def List.map_filter_simps)
  from insert_all_orders [OF bounds_tree_wf_new(1) this, of bs] show ?thesis by force
qed

end
