(* ===== verification/Ref_Count.thy ===== *)
theory Ref_Count
  imports Prelude "HOL-Library.Multiset"
begin

text \<open>
  Counted handles.  Focus handles and entity handles are both clones of a counted reference: a
  table holds one count per id, cloning a handle raises it and dropping one lowers it.  The
  locale states what a table promises; its lemmas relate the counts to the multiset of the
  handles that are alive.
\<close>

text \<open>
  \<open>atomic_incr_if_not_zero\<close> of \<open>src/src/util.rs\<close>: the values the failing exchanges load are an
  argument; the result is the value returned and the value written, if any.  An operation that
  no other thread disturbs has no failing exchange.
\<close>

fun atomic_incr_if_not_zero :: "nat \<Rightarrow> nat list \<Rightarrow> nat \<times> nat option" where
  "atomic_incr_if_not_zero loaded [] = (if loaded = 0 then (0, None) else (Suc loaded, Some (Suc loaded)))"
| "atomic_incr_if_not_zero loaded (actual # later) =
     (if loaded = 0 then (0, None) else atomic_incr_if_not_zero actual later)"

lemma atomic_incr_if_not_zero_returns:
  "fst (atomic_incr_if_not_zero n later) = 0 \<longleftrightarrow> 0 \<in> set (n # later)"
  "snd (atomic_incr_if_not_zero n later) = (if 0 \<in> set (n # later) then None else Some (Suc (last (n # later))))"
  by (induction n later rule: atomic_incr_if_not_zero.induct) auto

definition counted :: "('s \<Rightarrow> 'id \<Rightarrow> nat option) \<Rightarrow> 's \<Rightarrow> 'id multiset \<Rightarrow> bool" where
  "counted refs s live \<longleftrightarrow> (\<forall>i. count live i = (case refs s i of None \<Rightarrow> 0 | Some n \<Rightarrow> n))"

lemma counted_live: "counted refs s live \<Longrightarrow> i \<in># live \<Longrightarrow> \<exists>n. refs s i = Some (Suc n) \<and> count live i = Suc n"
  unfolding counted_def count_greater_zero_iff [symmetric]
  by (metis (no_types, lifting) not0_implies_Suc less_numeral_extra(3) option.case(1) option.case(2) option.exhaust)

lemma counted_iff_live:
  "counted refs s live \<Longrightarrow> refs s i = Some n \<Longrightarrow> 0 < n \<longleftrightarrow> i \<in># live"
  unfolding counted_def count_greater_zero_iff [symmetric] by (metis option.case(2))

lemma counted_table:
  "counted refs s live \<Longrightarrow> (\<And>j. refs' t j = refs s j) \<Longrightarrow> counted refs' t live"
  by (simp add: counted_def)

lemma counted_add:
  assumes "counted refs s live" and "\<And>j. refs t j = (if j = i then Some (Suc (count live i)) else refs s j)"
  shows "counted refs t (add_mset i live)"
  using assms by (auto simp: counted_def)

lemma counted_sub:
  assumes "counted refs s live" and "i \<in># live"
    and "\<And>j. refs t j = (if j = i then Some (count live i - 1) else refs s j)"
  shows "counted refs t (live - {#i#})"
  using assms by (auto simp: counted_def)

text \<open>Forgetting ids whose count is zero.\<close>

lemma counted_release:
  assumes "counted refs s live"
    and "\<And>j. refs t j = (if P j then None else refs s j)" and "\<And>j. P j \<Longrightarrow> refs s j = Some 0 \<or> refs s j = None"
  shows "counted refs t live"
  unfolding counted_def
proof
  fix i
  have "count live i = (case refs s i of None \<Rightarrow> 0 | Some n \<Rightarrow> n)" using assms(1) by (simp add: counted_def)
  then show "count live i = (case refs t i of None \<Rightarrow> 0 | Some n \<Rightarrow> n)"
    using assms(2,3) [of i] by (cases "P i") auto
qed

locale ref_table =
  fixes refs :: "'s \<Rightarrow> 'id \<Rightarrow> nat option"
    and clone_ref :: "'id \<Rightarrow> 's \<Rightarrow> 's option"
    and drop_ref :: "'id \<Rightarrow> 's \<Rightarrow> 's option"
    and upgrade_ref :: "'id \<Rightarrow> 's \<Rightarrow> 's option"
  assumes clone_some: "refs s i = Some (Suc n) \<Longrightarrow>
      \<exists>t. clone_ref i s = Some t \<and> (\<forall>j. refs t j = (if j = i then Some (Suc (Suc n)) else refs s j))"
    and drop_some: "refs s i = Some (Suc n) \<Longrightarrow>
      \<exists>t. drop_ref i s = Some t \<and> (\<forall>j. refs t j = (if j = i then Some n else refs s j))"
    and upgrade_eq: "upgrade_ref i s =
      (case refs s i of Some (Suc n) \<Rightarrow> clone_ref i s | _ \<Rightarrow> None)"
begin

lemma clone_counted:
  assumes "counted refs s live" and "i \<in># live"
  shows "\<exists>t. clone_ref i s = Some t \<and> counted refs t (add_mset i live)"
proof -
  obtain n where n: "refs s i = Some (Suc n)" "count live i = Suc n" using counted_live [OF assms] by blast
  obtain t where t: "clone_ref i s = Some t" "\<forall>j. refs t j = (if j = i then Some (Suc (Suc n)) else refs s j)"
    using clone_some [OF n(1)] by blast
  have "counted refs t (add_mset i live)" by (rule counted_add [OF assms(1)]) (use t(2) n(2) in simp)
  with t(1) show ?thesis by blast
qed

lemma drop_counted:
  assumes "counted refs s live" and "i \<in># live"
  shows "\<exists>t. drop_ref i s = Some t \<and> counted refs t (live - {#i#}) \<and>
    (\<forall>j. refs t j = (if j = i then Some (count live i - 1) else refs s j))"
proof -
  obtain n where n: "refs s i = Some (Suc n)" "count live i = Suc n" using counted_live [OF assms] by blast
  obtain t where t: "drop_ref i s = Some t" "\<forall>j. refs t j = (if j = i then Some n else refs s j)"
    using drop_some [OF n(1)] by blast
  have "counted refs t (live - {#i#})" by (rule counted_sub [OF assms]) (use t(2) n(2) in simp)
  with t n(2) show ?thesis by auto
qed

text \<open>A weak handle becomes a strong one exactly while a strong one is alive.\<close>

lemma upgrade_iff_live:
  assumes "counted refs s live"
  shows "upgrade_ref i s \<noteq> None \<longleftrightarrow> i \<in># live"
proof
  assume "upgrade_ref i s \<noteq> None"
  then obtain n where "refs s i = Some (Suc n)" by (auto simp: upgrade_eq split: option.splits nat.splits)
  with counted_iff_live [OF assms this] show "i \<in># live" by simp
next
  assume "i \<in># live"
  then obtain n where "refs s i = Some (Suc n)" using counted_live [OF assms] by blast
  with clone_some [OF this] show "upgrade_ref i s \<noteq> None" by (auto simp: upgrade_eq)
qed

lemma upgrade_counted:
  assumes "counted refs s live" and "upgrade_ref i s = Some t"
  shows "counted refs t (add_mset i live)"
proof -
  have live: "i \<in># live" using upgrade_iff_live [OF assms(1), of i] assms(2) by simp
  then obtain n where "refs s i = Some (Suc n)" using counted_live [OF assms(1)] by blast
  with assms(2) have "clone_ref i s = Some t" by (simp add: upgrade_eq)
  with clone_counted [OF assms(1) live] show ?thesis by auto
qed

end

end
