(* ===== verification/Entity_Map.thy ===== *)
theory Entity_Map
  imports Ref_Count
begin

text \<open>
  The entity map of \<open>src/src/app/entity_map.rs\<close>: entities in a table, strong handles counted per
  id, weak handles, leases that move an entity out of the map while it is updated, and the list
  of ids whose last handle was dropped.  The slot map that makes ids is a library: the id it
  returns is an argument, and it is one never returned before.  A value is paired with the
  number of its type, for the downcasts.  Panics are \<open>None\<close>; counts do not overflow.
\<close>

section \<open>State\<close>

record entity_ref_counts =
  rc_counts :: "nat \<Rightarrow> nat option"
  rc_dropped :: "nat list"

record 'e entity_map =
  em_entities :: "nat \<Rightarrow> (nat \<times> 'e) option"
  em_accessed :: "nat set"
  em_identity :: nat
  em_refs :: entity_ref_counts

record any_entity =
  ae_id :: nat
  ae_type :: nat
  ae_map :: nat

record any_weak_entity =
  we_id :: nat
  we_type :: nat
  we_map :: "nat option"

record 'e lease =
  le_entity :: "(nat \<times> 'e) option"
  le_id :: nat

definition em_new :: "nat \<Rightarrow> 'e entity_map" where
  "em_new identity = \<lparr>em_entities = Map.empty, em_accessed = {}, em_identity = identity,
     em_refs = \<lparr>rc_counts = Map.empty, rc_dropped = []\<rparr>\<rparr>"

section \<open>Handles\<close>

text \<open>The counting part of \<open>Clone\<close>, \<open>Drop\<close> and \<open>upgrade\<close>, on a table that still exists.\<close>

definition incr_ref :: "nat \<Rightarrow> entity_ref_counts \<Rightarrow> entity_ref_counts option" where
  "incr_ref i rc = (case rc_counts rc i of
     None \<Rightarrow> None
   | Some prev \<Rightarrow>
       (let rc = rc\<lparr>rc_counts := (rc_counts rc)(i \<mapsto> Suc prev)\<rparr> in if prev = 0 then None else Some rc))"

definition decr_ref :: "nat \<Rightarrow> entity_ref_counts \<Rightarrow> entity_ref_counts option" where
  "decr_ref i rc = (case rc_counts rc i of
     None \<Rightarrow> None
   | Some prev \<Rightarrow>
       if prev = 0 then None
       else (let rc = rc\<lparr>rc_counts := (rc_counts rc)(i \<mapsto> prev - 1)\<rparr>
             in Some (if prev = 1 then rc\<lparr>rc_dropped := rc_dropped rc @ [i]\<rparr> else rc)))"

definition upgrade_ref_count :: "nat \<Rightarrow> entity_ref_counts \<Rightarrow> entity_ref_counts option" where
  "upgrade_ref_count i rc = (case rc_counts rc i of
     None \<Rightarrow> None
   | Some n \<Rightarrow> (case atomic_incr_if_not_zero n [] of
       (0, _) \<Rightarrow> None
     | (_, written) \<Rightarrow> Some (rc\<lparr>rc_counts := (rc_counts rc)(i := written)\<rparr>)))"

text \<open>A table is \<open>None\<close> once the application has dropped it.\<close>

definition entity_clone :: "any_entity \<Rightarrow> entity_ref_counts option \<Rightarrow> (any_entity \<times> entity_ref_counts option) option" where
  "entity_clone e table = (case table of
     None \<Rightarrow> Some (e, None)
   | Some rc \<Rightarrow> map_option (\<lambda>rc. (e, Some rc)) (incr_ref (ae_id e) rc))"

definition entity_drop :: "any_entity \<Rightarrow> entity_ref_counts option \<Rightarrow> entity_ref_counts option option" where
  "entity_drop e table = (case table of
     None \<Rightarrow> Some None
   | Some rc \<Rightarrow> map_option Some (decr_ref (ae_id e) rc))"

definition entity_downgrade :: "any_entity \<Rightarrow> any_weak_entity" where
  "entity_downgrade e = \<lparr>we_id = ae_id e, we_type = ae_type e, we_map = Some (ae_map e)\<rparr>"

definition entity_downcast :: "nat \<Rightarrow> any_entity \<Rightarrow> (any_entity, any_entity) result" where
  "entity_downcast T e = (if T = ae_type e then Inr e else Inl e)"

definition is_upgradable :: "any_weak_entity \<Rightarrow> entity_ref_counts option \<Rightarrow> bool" where
  "is_upgradable w table = (0 < (case table of None \<Rightarrow> 0 | Some rc \<Rightarrow> (case rc_counts rc (we_id w) of None \<Rightarrow> 0 | Some n \<Rightarrow> n)))"

definition weak_upgrade :: "any_weak_entity \<Rightarrow> entity_ref_counts option \<Rightarrow> (any_entity \<times> entity_ref_counts) option" where
  "weak_upgrade w table = (case (we_map w, table) of
     (Some m, Some rc) \<Rightarrow>
       map_option (\<lambda>rc. (\<lparr>ae_id = we_id w, ae_type = we_type w, ae_map = m\<rparr>, rc)) (upgrade_ref_count (we_id w) rc)
   | _ \<Rightarrow> None)"

definition weak_new_invalid :: "64 word \<Rightarrow> any_weak_entity \<times> 64 word" where
  "weak_new_invalid generator = (\<lparr>we_id = unat generator, we_type = 0, we_map = None\<rparr>, generator - 1)"

section \<open>Operations of the map\<close>

definition em_reserve :: "nat \<Rightarrow> nat \<Rightarrow> 'e entity_map \<Rightarrow> any_entity \<times> 'e entity_map" where
  "em_reserve fresh T m =
     (\<lparr>ae_id = fresh, ae_type = T, ae_map = em_identity m\<rparr>,
      m\<lparr>em_refs := (em_refs m)\<lparr>rc_counts := (rc_counts (em_refs m))(fresh \<mapsto> 1)\<rparr>\<rparr>)"

definition em_insert :: "any_entity \<Rightarrow> 'e \<Rightarrow> 'e entity_map \<Rightarrow> any_entity \<times> 'e entity_map" where
  "em_insert slot v m =
     (slot, m\<lparr>em_accessed := insert (ae_id slot) (em_accessed m),
              em_entities := (em_entities m)(ae_id slot \<mapsto> (ae_type slot, v))\<rparr>)"

definition assert_valid_context :: "bool \<Rightarrow> any_entity \<Rightarrow> 'e entity_map \<Rightarrow> unit option" where
  "assert_valid_context debug_assertions e m =
     (if debug_assertions \<and> ae_map e \<noteq> em_identity m then None else Some ())"

definition em_lease :: "bool \<Rightarrow> any_entity \<Rightarrow> 'e entity_map \<Rightarrow> ('e lease \<times> 'e entity_map) option" where
  "em_lease debug_assertions e m =
     Option.bind (assert_valid_context debug_assertions e m) (\<lambda>_.
       (let m = m\<lparr>em_accessed := insert (ae_id e) (em_accessed m)\<rparr> in
        case em_entities m (ae_id e) of
          None \<Rightarrow> None
        | Some v \<Rightarrow> Some (\<lparr>le_entity = Some v, le_id = ae_id e\<rparr>,
                          m\<lparr>em_entities := (em_entities m)(ae_id e := None)\<rparr>)))"

definition em_end_lease :: "'e lease \<Rightarrow> 'e entity_map \<Rightarrow> ('e lease \<times> 'e entity_map) option" where
  "em_end_lease l m = (case le_entity l of
     None \<Rightarrow> None
   | Some v \<Rightarrow> Some (l\<lparr>le_entity := None\<rparr>, m\<lparr>em_entities := (em_entities m)(le_id l \<mapsto> v)\<rparr>))"

definition lease_deref :: "nat \<Rightarrow> 'e lease \<Rightarrow> 'e option" where
  "lease_deref T l = Option.bind (le_entity l) (\<lambda>(t, v). if t = T then Some v else None)"

definition lease_deref_mut :: "nat \<Rightarrow> ('e \<Rightarrow> 'e) \<Rightarrow> 'e lease \<Rightarrow> 'e lease option" where
  "lease_deref_mut T f l =
     Option.bind (le_entity l) (\<lambda>(t, v). if t = T then Some (l\<lparr>le_entity := Some (t, f v)\<rparr>) else None)"

definition lease_drop :: "bool \<Rightarrow> 'e lease \<Rightarrow> unit option" where
  "lease_drop panicking l = (if le_entity l \<noteq> None \<and> \<not> panicking then None else Some ())"

definition em_read :: "bool \<Rightarrow> any_entity \<Rightarrow> 'e entity_map \<Rightarrow> ('e \<times> 'e entity_map) option" where
  "em_read debug_assertions e m =
     Option.bind (assert_valid_context debug_assertions e m) (\<lambda>_.
       (let m = m\<lparr>em_accessed := insert (ae_id e) (em_accessed m)\<rparr> in
        case em_entities m (ae_id e) of
          None \<Rightarrow> None
        | Some (t, v) \<Rightarrow> if t = ae_type e then Some (v, m) else None))"

definition extend_accessed :: "nat set \<Rightarrow> 'e entity_map \<Rightarrow> 'e entity_map" where
  "extend_accessed ids m = m\<lparr>em_accessed := em_accessed m \<union> ids\<rparr>"

definition clear_accessed :: "'e entity_map \<Rightarrow> 'e entity_map" where
  "clear_accessed m = m\<lparr>em_accessed := {}\<rparr>"

fun take_each :: "bool \<Rightarrow> nat list \<Rightarrow> 'e entity_map \<Rightarrow> ((nat \<times> (nat \<times> 'e)) list \<times> 'e entity_map) option" where
  "take_each debug_assertions [] m = Some ([], m)"
| "take_each debug_assertions (i # is) m =
     (case rc_counts (em_refs m) i of
        None \<Rightarrow> None
      | Some n \<Rightarrow>
          (let m = m\<lparr>em_refs := (em_refs m)\<lparr>rc_counts := (rc_counts (em_refs m))(i := None)\<rparr>\<rparr> in
           if debug_assertions \<and> n \<noteq> 0 then None
           else (let m = m\<lparr>em_accessed := em_accessed m - {i}\<rparr> in
                 case em_entities m i of
                   None \<Rightarrow> take_each debug_assertions is m
                 | Some v \<Rightarrow>
                     map_option (\<lambda>(taken, m). ((i, v) # taken, m))
                       (take_each debug_assertions is (m\<lparr>em_entities := (em_entities m)(i := None)\<rparr>)))))"

definition take_dropped :: "bool \<Rightarrow> 'e entity_map \<Rightarrow> ((nat \<times> (nat \<times> 'e)) list \<times> 'e entity_map) option" where
  "take_dropped debug_assertions m =
     take_each debug_assertions (rc_dropped (em_refs m)) (m\<lparr>em_refs := (em_refs m)\<lparr>rc_dropped := []\<rparr>\<rparr>)"

text \<open>The table of counts keeps the contract of counted handles.\<close>

interpretation entity_refs: ref_table rc_counts incr_ref decr_ref upgrade_ref_count
proof
  fix rc i n
  show "rc_counts rc i = Some (Suc n) \<Longrightarrow>
      \<exists>t. incr_ref i rc = Some t \<and> (\<forall>j. rc_counts t j = (if j = i then Some (Suc (Suc n)) else rc_counts rc j))"
    by (simp add: incr_ref_def)
  show "rc_counts rc i = Some (Suc n) \<Longrightarrow>
      \<exists>t. decr_ref i rc = Some t \<and> (\<forall>j. rc_counts t j = (if j = i then Some n else rc_counts rc j))"
    by (simp add: decr_ref_def Let_def)
  show "upgrade_ref_count i rc = (case rc_counts rc i of Some (Suc n) \<Rightarrow> incr_ref i rc | _ \<Rightarrow> None)"
    by (simp add: upgrade_ref_count_def incr_ref_def split: option.split nat.split)
qed

section \<open>The leak detector\<close>

text \<open>Compiled for tests: it names every handle and remembers the ones not yet released.\<close>

record leak_detector =
  ld_next_handle_id :: nat
  ld_entity_handles :: "nat \<Rightarrow> nat set option"

definition handles_or_default :: "nat \<Rightarrow> leak_detector \<Rightarrow> nat set" where
  "handles_or_default i d = (case ld_entity_handles d i of None \<Rightarrow> {} | Some hs \<Rightarrow> hs)"

definition handle_created :: "nat \<Rightarrow> leak_detector \<Rightarrow> nat \<times> leak_detector" where
  "handle_created i d =
     (let h = ld_next_handle_id d; d = d\<lparr>ld_next_handle_id := Suc h\<rparr>
      in (h, d\<lparr>ld_entity_handles := (ld_entity_handles d)(i \<mapsto> insert h (handles_or_default i d))\<rparr>))"

definition handle_released :: "nat \<Rightarrow> nat \<Rightarrow> leak_detector \<Rightarrow> leak_detector" where
  "handle_released i h d =
     d\<lparr>ld_entity_handles := (ld_entity_handles d)(i \<mapsto> handles_or_default i d - {h})\<rparr>"

definition leak_assert_released :: "nat \<Rightarrow> leak_detector \<Rightarrow> leak_detector option" where
  "leak_assert_released i d =
     (if handles_or_default i d \<noteq> {} then None
      else Some (d\<lparr>ld_entity_handles := (ld_entity_handles d)(i \<mapsto> {})\<rparr>))"

definition leak_detector_ok :: "leak_detector \<Rightarrow> bool" where
  "leak_detector_ok d \<longleftrightarrow> (\<forall>i. handles_or_default i d \<subseteq> {..<ld_next_handle_id d})"

lemma leak_detector_handles [simp]:
  "handles_or_default j (snd (handle_created i d)) =
     (if j = i then insert (ld_next_handle_id d) (handles_or_default i d) else handles_or_default j d)"
  "handles_or_default j (handle_released i h d) = (if j = i then handles_or_default i d - {h} else handles_or_default j d)"
  by (simp_all add: handles_or_default_def handle_created_def handle_released_def Let_def)

text \<open>A new handle is none of those remembered, so releasing it restores what was remembered.\<close>

lemma leak_detector_fresh:
  assumes "leak_detector_ok d"
  shows "handles_or_default i (handle_released i (fst (handle_created i d)) (snd (handle_created i d))) = handles_or_default i d"
    and "leak_detector_ok (snd (handle_created i d))" and "leak_detector_ok (handle_released i h d)"
proof -
  have "ld_next_handle_id d \<notin> handles_or_default i d" using assms by (auto simp: leak_detector_ok_def)
  then show "handles_or_default i (handle_released i (fst (handle_created i d)) (snd (handle_created i d))) = handles_or_default i d"
    by (simp add: handle_created_def [of i d] Let_def handles_or_default_def handle_released_def)
  have "ld_next_handle_id (snd (handle_created i d)) = Suc (ld_next_handle_id d)"
    by (simp add: handle_created_def Let_def)
  then show "leak_detector_ok (snd (handle_created i d))"
    using assms unfolding leak_detector_ok_def by (simp add: less_Suc_eq subset_iff)
  have "ld_next_handle_id (handle_released i h d) = ld_next_handle_id d" by (simp add: handle_released_def)
  then show "leak_detector_ok (handle_released i h d)"
    using assms by (auto simp: leak_detector_ok_def)
qed

section \<open>Uses of the map\<close>

text \<open>
  A use of the map, with what the program holds: the multiset of the ids of the strong handles
  that are alive, the slots, the leases, and the ids ever made.  Two rules are Rust's: a slot is
  used once, and the handle an entity is leased through outlives the lease.
\<close>

record 'e entity_use =
  eu_map :: "'e entity_map"
  eu_live :: "nat multiset"
  eu_slots :: "nat set"
  eu_inserted :: "nat set"
  eu_leases :: "nat \<Rightarrow> 'e lease option"
  eu_used :: "nat set"
  eu_type :: "nat \<Rightarrow> nat"

definition eu_start :: "nat \<Rightarrow> 'e entity_use" where
  "eu_start identity = \<lparr>eu_map = em_new identity, eu_live = {#}, eu_slots = {}, eu_inserted = {},
     eu_leases = Map.empty, eu_used = {}, eu_type = (\<lambda>_. 0)\<rparr>"

definition handle_of :: "'e entity_use \<Rightarrow> nat \<Rightarrow> any_entity" where
  "handle_of u i = \<lparr>ae_id = i, ae_type = eu_type u i, ae_map = em_identity (eu_map u)\<rparr>"

definition with_refs :: "'e entity_use \<Rightarrow> entity_ref_counts \<Rightarrow> nat multiset \<Rightarrow> 'e entity_use" where
  "with_refs u rc live = u\<lparr>eu_map := (eu_map u)\<lparr>em_refs := rc\<rparr>, eu_live := live\<rparr>"

inductive entity_step :: "bool \<Rightarrow> 'e entity_use \<Rightarrow> 'e entity_use \<Rightarrow> bool" for debug_assertions where
  reserve: "i \<notin> eu_used u \<Longrightarrow> em_reserve i T (eu_map u) = (slot, m) \<Longrightarrow>
    entity_step debug_assertions u (u\<lparr>eu_map := m, eu_live := add_mset i (eu_live u), eu_slots := insert i (eu_slots u),
      eu_used := insert i (eu_used u), eu_type := (eu_type u)(i := T)\<rparr>)"
| insert_slot: "i \<in> eu_slots u \<Longrightarrow> em_insert (handle_of u i) v (eu_map u) = (e, m) \<Longrightarrow>
    entity_step debug_assertions u (u\<lparr>eu_map := m, eu_slots := eu_slots u - {i}, eu_inserted := insert i (eu_inserted u)\<rparr>)"
| clone: "i \<in># eu_live u \<Longrightarrow> entity_clone (handle_of u i) (Some (em_refs (eu_map u))) = Some (e, Some rc) \<Longrightarrow>
    entity_step debug_assertions u (with_refs u rc (add_mset i (eu_live u)))"
| drop: "count (eu_live u) i > (if i \<in> eu_slots u \<or> eu_leases u i \<noteq> None then 1 else 0) \<Longrightarrow>
    entity_drop (handle_of u i) (Some (em_refs (eu_map u))) = Some (Some rc) \<Longrightarrow>
    entity_step debug_assertions u (with_refs u rc (eu_live u - {#i#}))"
| drop_slot: "i \<in> eu_slots u \<Longrightarrow> entity_drop (handle_of u i) (Some (em_refs (eu_map u))) = Some (Some rc) \<Longrightarrow>
    entity_step debug_assertions u ((with_refs u rc (eu_live u - {#i#}))\<lparr>eu_slots := eu_slots u - {i}\<rparr>)"
| upgrade: "weak_upgrade (entity_downgrade (handle_of u i)) (Some (em_refs (eu_map u))) = Some (e, rc) \<Longrightarrow>
    entity_step debug_assertions u (with_refs u rc (add_mset i (eu_live u)))"
| lease: "i \<in># eu_live u \<Longrightarrow> em_lease debug_assertions (handle_of u i) (eu_map u) = Some (l, m) \<Longrightarrow>
    entity_step debug_assertions u (u\<lparr>eu_map := m, eu_leases := (eu_leases u)(i \<mapsto> l)\<rparr>)"
| update: "eu_leases u i = Some l \<Longrightarrow> lease_deref_mut (eu_type u i) f l = Some l' \<Longrightarrow>
    entity_step debug_assertions u (u\<lparr>eu_leases := (eu_leases u)(i \<mapsto> l')\<rparr>)"
| end_lease: "eu_leases u i = Some l \<Longrightarrow> em_end_lease l (eu_map u) = Some (l', m) \<Longrightarrow>
    entity_step debug_assertions u (u\<lparr>eu_map := m, eu_leases := (eu_leases u)(i := None)\<rparr>)"
| read: "i \<in># eu_live u \<Longrightarrow> em_read debug_assertions (handle_of u i) (eu_map u) = Some (v, m) \<Longrightarrow>
    entity_step debug_assertions u (u\<lparr>eu_map := m\<rparr>)"
| take: "take_dropped debug_assertions (eu_map u) = Some (taken, m) \<Longrightarrow>
    entity_step debug_assertions u (u\<lparr>eu_map := m\<rparr>)"
| accessed: "entity_step debug_assertions u (u\<lparr>eu_map := extend_accessed ids (eu_map u)\<rparr>)"
| forget_accessed: "entity_step debug_assertions u (u\<lparr>eu_map := clear_accessed (eu_map u)\<rparr>)"

inductive entity_reachable :: "bool \<Rightarrow> 'e entity_use \<Rightarrow> bool" for debug_assertions where
  start: "entity_reachable debug_assertions (eu_start identity)"
| step: "entity_reachable debug_assertions u \<Longrightarrow> entity_step debug_assertions u w \<Longrightarrow> entity_reachable debug_assertions w"

text \<open>
  The invariant: counts are the numbers of live handles; the list of dropped ids holds each id
  whose count is zero once; an entity that was inserted and is still counted is in the map or
  leased, never both, with the type its handles have.
\<close>

abbreviation em_counts :: "'e entity_map \<Rightarrow> nat \<Rightarrow> nat option" where
  "em_counts m \<equiv> rc_counts (em_refs m)"

definition lease_ok :: "(nat \<Rightarrow> nat) \<Rightarrow> nat \<Rightarrow> 'e lease \<Rightarrow> bool" where
  "lease_ok ty i l \<longleftrightarrow> le_id l = i \<and> (\<exists>v. le_entity l = Some (ty i, v))"

definition entity_inv :: "'e entity_use \<Rightarrow> bool" where
  "entity_inv u \<longleftrightarrow>
     counted rc_counts (em_refs (eu_map u)) (eu_live u) \<and>
     distinct (rc_dropped (em_refs (eu_map u))) \<and>
     set (rc_dropped (em_refs (eu_map u))) = {i. em_counts (eu_map u) i = Some 0} \<and>
     dom (em_counts (eu_map u)) \<subseteq> eu_used u \<and>
     dom (em_entities (eu_map u)) = eu_inserted u \<inter> dom (em_counts (eu_map u)) - dom (eu_leases u) \<and>
     dom (eu_leases u) \<subseteq> eu_inserted u \<inter> set_mset (eu_live u) \<and>
     eu_slots u \<subseteq> set_mset (eu_live u) - eu_inserted u \<and> eu_inserted u \<subseteq> eu_used u \<and>
     (\<forall>i t v. em_entities (eu_map u) i = Some (t, v) \<longrightarrow> t = eu_type u i) \<and>
     (\<forall>i l. eu_leases u i = Some l \<longrightarrow> lease_ok (eu_type u) i l)"

subsection \<open>Every step keeps it\<close>

definition cut :: "nat set \<Rightarrow> (nat \<Rightarrow> 'b option) \<Rightarrow> nat \<Rightarrow> 'b option" where
  "cut A f = (\<lambda>j. if j \<in> A then None else f j)"

lemma cut_apply: "cut A f j = (if j \<in> A then None else f j)"
  by (simp add: cut_def)

lemma cut_simps [simp]: "cut {} f = f" "cut A (f(i := None)) = cut (insert i A) f"
  "cut A (\<lambda>j. if j = i then None else f j) = cut (insert i A) f"
  by (auto simp: cut_def)

lemma take_each_zero:
  "distinct is \<Longrightarrow> \<forall>i \<in> set is. em_counts m i = Some 0 \<Longrightarrow>
   take_each dbg is m =
     Some (List.map_filter (\<lambda>i. map_option (Pair i) (em_entities m i)) is,
           m\<lparr>em_refs := (em_refs m)\<lparr>rc_counts := cut (set is) (em_counts m)\<rparr>,
             em_accessed := em_accessed m - set is, em_entities := cut (set is) (em_entities m)\<rparr>)"
proof (induction "is" arbitrary: m)
  case (Cons i "is")
  define m1 where "m1 = m\<lparr>em_refs := (em_refs m)\<lparr>rc_counts := (em_counts m)(i := None)\<rparr>,
    em_accessed := em_accessed m - {i}\<rparr>"
  define m2 where "m2 = m1\<lparr>em_entities := (em_entities m1)(i := None)\<rparr>"
  have same: "List.map_filter (\<lambda>j. map_option (Pair j) (((em_entities m)(i := None)) j)) is =
      List.map_filter (\<lambda>j. map_option (Pair j) (em_entities m j)) is"
    using Cons.prems(1) by (induction "is") (auto simp: List.map_filter_simps split: option.split)
  have head: "em_counts m i = Some 0" using Cons.prems(2) by simp
  have acc: "em_accessed m - {i} - set is = em_accessed m - insert i (set is)" by blast
  show ?case
  proof (cases "em_entities m i")
    case None
    have "\<forall>j \<in> set is. em_counts m1 j = Some 0" using Cons.prems by (auto simp: m1_def)
    note IH = Cons.IH [OF _ this]
    have "cut (set is) (em_entities m) = cut (insert i (set is)) (em_entities m)"
      using None by (auto simp: cut_def fun_eq_iff)
    with None Cons.prems(1) head acc show ?thesis
      using IH by (simp add: m1_def Let_def List.map_filter_simps)
  next
    case (Some v)
    have "\<forall>j \<in> set is. em_counts m2 j = Some 0" using Cons.prems by (auto simp: m1_def m2_def)
    note IH = Cons.IH [OF _ this]
    from Some Cons.prems(1) head acc same show ?thesis
      using IH by (simp add: m1_def m2_def Let_def List.map_filter_simps)
  qed
qed (simp add: List.map_filter_simps)

lemma entity_invD:
  assumes "entity_inv u"
  shows "counted rc_counts (em_refs (eu_map u)) (eu_live u)" "distinct (rc_dropped (em_refs (eu_map u)))"
    "set (rc_dropped (em_refs (eu_map u))) = {i. em_counts (eu_map u) i = Some 0}"
    "dom (em_counts (eu_map u)) \<subseteq> eu_used u"
    "dom (em_entities (eu_map u)) = eu_inserted u \<inter> dom (em_counts (eu_map u)) - dom (eu_leases u)"
    "dom (eu_leases u) \<subseteq> eu_inserted u \<inter> set_mset (eu_live u)"
    "eu_slots u \<subseteq> set_mset (eu_live u) - eu_inserted u" "eu_inserted u \<subseteq> eu_used u"
    "em_entities (eu_map u) i = Some (t, v) \<Longrightarrow> t = eu_type u i"
    "eu_leases u i = Some l \<Longrightarrow> lease_ok (eu_type u) i l"
  using assms by (simp_all add: entity_inv_def)

lemma entity_invI:
  assumes "counted rc_counts (em_refs (eu_map u)) (eu_live u)" "distinct (rc_dropped (em_refs (eu_map u)))"
    "set (rc_dropped (em_refs (eu_map u))) = {i. em_counts (eu_map u) i = Some 0}"
    "dom (em_counts (eu_map u)) \<subseteq> eu_used u"
    "dom (em_entities (eu_map u)) = eu_inserted u \<inter> dom (em_counts (eu_map u)) - dom (eu_leases u)"
    "dom (eu_leases u) \<subseteq> eu_inserted u \<inter> set_mset (eu_live u)"
    "eu_slots u \<subseteq> set_mset (eu_live u) - eu_inserted u" "eu_inserted u \<subseteq> eu_used u"
    "\<And>i t v. em_entities (eu_map u) i = Some (t, v) \<Longrightarrow> t = eu_type u i"
    "\<And>i l. eu_leases u i = Some l \<Longrightarrow> lease_ok (eu_type u) i l"
  shows "entity_inv u"
  using assms by (simp add: entity_inv_def)

lemma live_counted: "entity_inv u \<Longrightarrow> i \<in># eu_live u \<Longrightarrow> i \<in> dom (em_counts (eu_map u))"
  using counted_live [OF entity_invD(1)] by blast

lemma take_dropped_eq:
  assumes "entity_inv u"
  shows "take_dropped dbg (eu_map u) =
    (let m = eu_map u; gone = rc_dropped (em_refs m) in
     Some (List.map_filter (\<lambda>i. map_option (Pair i) (em_entities m i)) gone,
           m\<lparr>em_refs := \<lparr>rc_counts = cut (set gone) (em_counts m), rc_dropped = []\<rparr>,
             em_accessed := em_accessed m - set gone, em_entities := cut (set gone) (em_entities m)\<rparr>))"
proof -
  let ?m = "(eu_map u)\<lparr>em_refs := (em_refs (eu_map u))\<lparr>rc_dropped := []\<rparr>\<rparr>"
  have "\<forall>i \<in> set (rc_dropped (em_refs (eu_map u))). em_counts ?m i = Some 0"
    using entity_invD(3) [OF assms] by auto
  from take_each_zero [OF entity_invD(2) [OF assms] this, of dbg] show ?thesis
    by (simp add: take_dropped_def Let_def)
qed

text \<open>Changing counts only: the handle operations.\<close>

lemma entity_inv_refs:
  assumes inv: "entity_inv u" and "counted rc_counts rc live"
    and "distinct (rc_dropped rc)" and "set (rc_dropped rc) = {i. rc_counts rc i = Some 0}"
    and "dom (rc_counts rc) = dom (em_counts (eu_map u))"
    and "dom (eu_leases u) \<subseteq> set_mset live" and "slots \<subseteq> eu_slots u" and "slots \<subseteq> set_mset live"
  shows "entity_inv ((with_refs u rc live)\<lparr>eu_slots := slots\<rparr>)"
  using assms by (auto simp: entity_inv_def with_refs_def)

lemma with_refs_slots: "(with_refs u rc live)\<lparr>eu_slots := eu_slots u\<rparr> = with_refs u rc live"
  by (simp add: with_refs_def)

lemma incr_ref_cases:
  "incr_ref i rc = Some rc' \<Longrightarrow> \<exists>n. rc_counts rc i = Some (Suc n) \<and> rc' = rc\<lparr>rc_counts := (rc_counts rc)(i \<mapsto> Suc (Suc n))\<rparr>"
  by (auto simp: incr_ref_def Let_def gr0_conv_Suc split: option.splits if_splits)

lemma upgrade_incr: "upgrade_ref_count i rc = Some rc' \<Longrightarrow> incr_ref i rc = Some rc'"
  by (auto simp: entity_refs.upgrade_eq split: option.splits nat.splits)

lemma decr_ref_cases:
  "decr_ref i rc = Some rc' \<Longrightarrow> \<exists>n. rc_counts rc i = Some (Suc n) \<and> rc_counts rc' = (rc_counts rc)(i \<mapsto> n) \<and>
    rc_dropped rc' = (if n = 0 then rc_dropped rc @ [i] else rc_dropped rc)"
proof (cases "rc_counts rc i")
  case (Some p)
  then show "decr_ref i rc = Some rc' \<Longrightarrow> ?thesis" by (cases p) (auto simp: decr_ref_def Let_def)
qed (simp add: decr_ref_def)

lemma entity_inv_incr:
  assumes inv: "entity_inv u" and incr: "incr_ref i (em_refs (eu_map u)) = Some rc"
  shows "entity_inv (with_refs u rc (add_mset i (eu_live u)))"
proof -
  obtain n where n: "em_counts (eu_map u) i = Some (Suc n)"
    "rc = (em_refs (eu_map u))\<lparr>rc_counts := (em_counts (eu_map u))(i \<mapsto> Suc (Suc n))\<rparr>"
    using incr_ref_cases [OF incr] by blast
  note D = entity_invD [OF inv]
  have "i \<in># eu_live u" using counted_iff_live [OF D(1) n(1)] by simp
  from entity_refs.clone_counted [OF D(1) this] incr
  have "counted rc_counts rc (add_mset i (eu_live u))" by auto
  moreover have "dom (rc_counts rc) = dom (em_counts (eu_map u))"
    using n by (auto simp: dom_def)
  moreover have "dom (eu_leases u) \<subseteq> set_mset (add_mset i (eu_live u))" "eu_slots u \<subseteq> set_mset (add_mset i (eu_live u))"
    using inv by (auto simp: entity_inv_def)
  ultimately have "entity_inv ((with_refs u rc (add_mset i (eu_live u)))\<lparr>eu_slots := eu_slots u\<rparr>)"
    using D(2,3) n by (intro entity_inv_refs [OF inv]) auto
  then show ?thesis by (simp add: with_refs_slots)
qed

lemma entity_inv_decr:
  assumes inv: "entity_inv u" and decr: "decr_ref i (em_refs (eu_map u)) = Some rc"
    and "dom (eu_leases u) \<subseteq> set_mset (eu_live u - {#i#})" and "slots \<subseteq> eu_slots u"
    and "slots \<subseteq> set_mset (eu_live u - {#i#})"
  shows "entity_inv ((with_refs u rc (eu_live u - {#i#}))\<lparr>eu_slots := slots\<rparr>)"
proof -
  obtain n where n: "em_counts (eu_map u) i = Some (Suc n)" "rc_counts rc = (em_counts (eu_map u))(i \<mapsto> n)"
    "rc_dropped rc = (if n = 0 then rc_dropped (em_refs (eu_map u)) @ [i] else rc_dropped (em_refs (eu_map u)))"
    using decr_ref_cases [OF decr] by blast
  note D = entity_invD [OF inv]
  have "i \<in># eu_live u" using counted_iff_live [OF D(1) n(1)] by simp
  from entity_refs.drop_counted [OF D(1) this] decr
  have "counted rc_counts rc (eu_live u - {#i#})" by auto
  moreover have "dom (rc_counts rc) = dom (em_counts (eu_map u))" using n by (auto simp: dom_def)
  moreover have "i \<notin> set (rc_dropped (em_refs (eu_map u)))" using D(3) n(1) by simp
  then have "distinct (rc_dropped rc)" "set (rc_dropped rc) = {j. rc_counts rc j = Some 0}"
    using D(2,3) n by (auto split: if_splits)
  ultimately show ?thesis using assms(3,4,5) by (intro entity_inv_refs [OF inv]) auto
qed

lemma entity_inv_reserve:
  assumes inv: "entity_inv u" and fresh: "i \<notin> eu_used u"
  shows "entity_inv (u\<lparr>eu_map := snd (em_reserve i T (eu_map u)), eu_live := add_mset i (eu_live u),
    eu_slots := insert i (eu_slots u), eu_used := insert i (eu_used u), eu_type := (eu_type u)(i := T)\<rparr>)"
proof -
  note D = entity_invD [OF inv]
  have none: "em_counts (eu_map u) i = None" "i \<notin> eu_inserted u" using D(4,8) fresh by blast+
  then have "count (eu_live u) i = 0" using D(1) by (simp add: counted_def)
  then have cnt: "counted rc_counts ((em_refs (eu_map u))\<lparr>rc_counts := (em_counts (eu_map u))(i \<mapsto> 1)\<rparr>) (add_mset i (eu_live u))"
    by (intro counted_add [OF D(1)]) simp
  have out: "i \<notin> dom (em_entities (eu_map u))" "i \<notin> dom (eu_leases u)"
    using D(5,6) none by blast+
  have leases: "lease_ok ((eu_type u)(i := T)) j l" if "eu_leases u j = Some l" for j l
    using D(10) [OF that] that out by (auto simp: lease_ok_def)
  show ?thesis
    by (rule entity_invI) (use cnt D none out leases in \<open>auto simp: em_reserve_def\<close>)
qed

lemma entity_inv_insert:
  assumes inv: "entity_inv u" and slot: "i \<in> eu_slots u"
  shows "entity_inv (u\<lparr>eu_map := snd (em_insert (handle_of u i) v (eu_map u)), eu_slots := eu_slots u - {i},
    eu_inserted := insert i (eu_inserted u)\<rparr>)"
proof -
  note D = entity_invD [OF inv]
  have i: "i \<in># eu_live u" "i \<notin> eu_inserted u" using D(7) slot by blast+
  then have "i \<in> dom (em_counts (eu_map u))" "i \<notin> dom (eu_leases u)" "i \<in> eu_used u"
    using live_counted [OF inv] D(4,6) by blast+
  with D i show ?thesis
    by (intro entity_invI) (auto simp: em_insert_def handle_of_def split: if_splits)
qed

lemma entity_inv_lease:
  assumes inv: "entity_inv u" and live: "i \<in># eu_live u" and l: "em_lease dbg (handle_of u i) (eu_map u) = Some (l, m)"
  shows "entity_inv (u\<lparr>eu_map := m, eu_leases := (eu_leases u)(i \<mapsto> l)\<rparr>)"
proof -
  note D = entity_invD [OF inv]
  obtain t v where tv: "em_entities (eu_map u) i = Some (t, v)" "l = \<lparr>le_entity = Some (t, v), le_id = i\<rparr>"
    "m = (eu_map u)\<lparr>em_accessed := insert i (em_accessed (eu_map u)), em_entities := (em_entities (eu_map u))(i := None)\<rparr>"
    using l by (auto simp: em_lease_def handle_of_def Let_def assert_valid_context_def split: option.splits if_splits)
  have i: "i \<in> eu_inserted u" "t = eu_type u i" "lease_ok (eu_type u) i l"
    using D(5) D(9) [OF tv(1)] tv(1,2) by (auto simp: lease_ok_def)
  show ?thesis
  proof (rule entity_invI)
    show "\<And>j l'. eu_leases (u\<lparr>eu_map := m, eu_leases := (eu_leases u)(i \<mapsto> l)\<rparr>) j = Some l' \<Longrightarrow>
        lease_ok (eu_type (u\<lparr>eu_map := m, eu_leases := (eu_leases u)(i \<mapsto> l)\<rparr>)) j l'"
      using i(3) D(10) by (auto split: if_splits)
  qed (use D i live in \<open>auto simp: tv(3) split: if_splits\<close>)
qed

lemma entity_inv_end_lease:
  assumes inv: "entity_inv u" and l: "eu_leases u i = Some l" and e: "em_end_lease l (eu_map u) = Some (l', m)"
  shows "entity_inv (u\<lparr>eu_map := m, eu_leases := (eu_leases u)(i := None)\<rparr>)"
proof -
  note D = entity_invD [OF inv]
  have "lease_ok (eu_type u) i l" using D(10) l by blast
  then obtain v where v: "m = (eu_map u)\<lparr>em_entities := (em_entities (eu_map u))(i \<mapsto> (eu_type u i, v))\<rparr>"
    using e by (auto simp: lease_ok_def em_end_lease_def)
  have i: "i \<in># eu_live u" "i \<in> eu_inserted u" using D(6) l by blast+
  then have c: "i \<in> dom (em_counts (eu_map u))" using live_counted [OF inv] by blast
  show ?thesis unfolding v
    by (intro entity_invI) (use D i c in \<open>auto split: if_splits\<close>)
qed

lemma entity_inv_take:
  assumes inv: "entity_inv u" and t: "take_dropped dbg (eu_map u) = Some (taken, m)"
  shows "entity_inv (u\<lparr>eu_map := m\<rparr>)"
proof -
  note D = entity_invD [OF inv]
  define gone where "gone = set (rc_dropped (em_refs (eu_map u)))"
  have m: "m = (eu_map u)\<lparr>em_refs := \<lparr>rc_counts = cut gone (em_counts (eu_map u)), rc_dropped = []\<rparr>,
      em_accessed := em_accessed (eu_map u) - gone, em_entities := cut gone (em_entities (eu_map u))\<rparr>"
    using t by (simp add: take_dropped_eq [OF inv] Let_def gone_def)
  have g: "gone = {i. em_counts (eu_map u) i = Some 0}" using D(3) by (simp add: gone_def)
  have cnt: "counted rc_counts (em_refs m) (eu_live u)"
    by (rule counted_release [OF D(1), of _ "\<lambda>j. j \<in> gone"]) (simp_all add: m cut_apply g)
  have none: "\<not> (\<exists>i. cut gone (em_counts (eu_map u)) i = Some 0)" by (simp add: cut_apply g)
  have counts: "dom (cut gone (em_counts (eu_map u))) = dom (em_counts (eu_map u)) - gone"
    and entities: "dom (cut gone (em_entities (eu_map u))) = dom (em_entities (eu_map u)) - gone"
    by (auto simp: cut_apply dom_def)
  show ?thesis
  proof (rule entity_invI, goal_cases)
    case 4
    show ?case using D(4) counts by (simp add: m) blast
  next
    case 5
    show ?case using D(5) counts entities by (simp add: m) blast
  qed (use D cnt none in \<open>simp_all add: m cut_apply split: if_splits\<close>)
qed

lemma entity_inv_start: "entity_inv (eu_start identity)"
  by (rule entity_invI) (simp_all add: eu_start_def em_new_def counted_def)

lemma entity_step_inv: "entity_step dbg u w \<Longrightarrow> entity_inv u \<Longrightarrow> entity_inv w"
proof (induction rule: entity_step.induct)
  case (reserve i u T slot m)
  from entity_inv_reserve [OF reserve.prems reserve.hyps(1), of T] reserve.hyps(2) show ?case by simp
next
  case (insert_slot i u v e m)
  from entity_inv_insert [OF insert_slot.prems insert_slot.hyps(1), of v] insert_slot.hyps(2) show ?case by simp
next
  case (clone i u e rc)
  then have "incr_ref i (em_refs (eu_map u)) = Some rc" by (auto simp: entity_clone_def handle_of_def)
  with clone.prems show ?case by (rule entity_inv_incr)
next
  case (drop u i rc)
  then have decr: "decr_ref i (em_refs (eu_map u)) = Some rc" by (auto simp: entity_drop_def handle_of_def)
  note D = entity_invD [OF drop.prems]
  have "j \<in># eu_live u - {#i#}" if "j \<in># eu_live u" "j = i \<Longrightarrow> 1 < count (eu_live u) i" for j
    using that by (cases "j = i") (simp_all add: in_diff_count)
  moreover have "1 < count (eu_live u) i" if "i \<in> eu_slots u \<or> eu_leases u i \<noteq> None"
    using drop.hyps(1) that by simp
  ultimately have "dom (eu_leases u) \<subseteq> set_mset (eu_live u - {#i#})" "eu_slots u \<subseteq> set_mset (eu_live u - {#i#})"
    using D(6,7) by blast+
  from entity_inv_decr [OF drop.prems decr this(1) subset_refl this(2)] show ?case by (simp only: with_refs_slots)
next
  case (drop_slot i u rc)
  then have decr: "decr_ref i (em_refs (eu_map u)) = Some rc" by (auto simp: entity_drop_def handle_of_def)
  note D = entity_invD [OF drop_slot.prems]
  have "j \<in># eu_live u - {#i#}" if "j \<in># eu_live u" "j \<noteq> i" for j
    using that by (simp add: in_diff_count)
  moreover have "i \<notin> dom (eu_leases u)" using D(6,7) drop_slot.hyps(1) by blast
  ultimately have "dom (eu_leases u) \<subseteq> set_mset (eu_live u - {#i#})" "eu_slots u - {i} \<subseteq> set_mset (eu_live u - {#i#})"
    using D(6,7) by blast+
  from entity_inv_decr [OF drop_slot.prems decr this(1) _ this(2)] show ?case by blast
next
  case (upgrade u i e rc)
  then have "upgrade_ref_count i (em_refs (eu_map u)) = Some rc"
    by (auto simp: weak_upgrade_def entity_downgrade_def handle_of_def)
  from entity_inv_incr [OF upgrade.prems upgrade_incr [OF this]] show ?case .
next
  case (lease i u l m)
  from entity_inv_lease [OF lease.prems lease.hyps] show ?case .
next
  case (update u i l f l')
  note D = entity_invD [OF update.prems]
  have "lease_ok (eu_type u) i l'"
    using D(10) [OF update.hyps(1)] update.hyps(2) by (auto simp: lease_ok_def lease_deref_mut_def)
  with D update.hyps(1) show ?case by (intro entity_invI) (auto split: if_splits)
next
  case (end_lease u i l l' m)
  from entity_inv_end_lease [OF end_lease.prems end_lease.hyps] show ?case .
next
  case (read i u v m)
  then have "m = (eu_map u)\<lparr>em_accessed := insert i (em_accessed (eu_map u))\<rparr>"
    by (auto simp: em_read_def handle_of_def Let_def assert_valid_context_def split: option.splits if_splits)
  with read.prems show ?case by (simp add: entity_inv_def)
next
  case (take u taken m)
  from entity_inv_take [OF take.prems take.hyps] show ?case .
qed (simp_all add: entity_inv_def extend_accessed_def clear_accessed_def)

lemma entity_reachable_inv: "entity_reachable dbg u \<Longrightarrow> entity_inv u"
  by (induction rule: entity_reachable.induct) (blast intro: entity_inv_start entity_step_inv)+

section \<open>Properties\<close>

text \<open>An entity that was made and inserted, as a use that is reachable.\<close>

definition entity_example :: "nat entity_use" where
  "entity_example = \<lparr>eu_map = \<lparr>em_entities = [7 \<mapsto> (3, 42)], em_accessed = {7}, em_identity = 0,
       em_refs = \<lparr>rc_counts = [7 \<mapsto> 1], rc_dropped = []\<rparr>\<rparr>,
     eu_live = {#7#}, eu_slots = {}, eu_inserted = {7}, eu_leases = Map.empty, eu_used = {7}, eu_type = (\<lambda>_. 0)(7 := 3)\<rparr>"

lemma entity_example_reachable: "entity_reachable dbg entity_example"
proof -
  let ?u = "eu_start 0 :: nat entity_use"
  let ?w = "?u\<lparr>eu_map := snd (em_reserve 7 3 (eu_map ?u)), eu_live := add_mset 7 (eu_live ?u), eu_slots := insert 7 (eu_slots ?u),
      eu_used := insert 7 (eu_used ?u), eu_type := (eu_type ?u)(7 := 3)\<rparr>"
  have "entity_step dbg ?u ?w"
    by (rule entity_step.reserve [where slot = "fst (em_reserve 7 3 (eu_map ?u))"]) (simp_all add: eu_start_def)
  then have w: "entity_reachable dbg ?w" by (rule entity_reachable.step [OF entity_reachable.start])
  let ?v = "?w\<lparr>eu_map := snd (em_insert (handle_of ?w 7) 42 (eu_map ?w)), eu_slots := eu_slots ?w - {7},
        eu_inserted := insert 7 (eu_inserted ?w)\<rparr>"
  have "7 \<in> eu_slots ?w" by simp
  then have "entity_step dbg ?w ?v"
    by (rule entity_step.insert_slot [where e = "fst (em_insert (handle_of ?w 7) 42 (eu_map ?w))"]) simp
  moreover have "?v = entity_example"
    by (simp add: entity_example_def eu_start_def em_new_def em_reserve_def em_insert_def handle_of_def)
  ultimately have "entity_step dbg ?w entity_example" by (simp only:)
  with w show ?thesis by (rule entity_reachable.step)
qed

text \<open>
  C14. However entities are reserved, inserted, cloned, dropped, upgraded, leased, updated, read and
  released, every count is the number of live handles of the id, an id is listed as dropped
  once and exactly when its count is zero, and an inserted entity that is still counted is in
  the map or leased, never both, under the type of its handles.
\<close>

theorem entity_map_invariant:
  assumes "entity_reachable debug_assertions u"
  shows "entity_inv u"
  using assms by (rule entity_reachable_inv)

lemma entity_map_invariant_witness: "entity_inv entity_example"
  by (rule entity_map_invariant [OF entity_example_reachable [of True]])

text \<open>
  A live handle can be cloned and dropped without a panic, dropped entities can be taken
  without one, and leasing or reading panics exactly when the entity is leased already or was
  never inserted.
\<close>

theorem entity_ops_no_panic:
  assumes "entity_reachable debug_assertions u" and "i \<in># eu_live u"
  shows "entity_clone (handle_of u i) (Some (em_refs (eu_map u))) \<noteq> None \<and>
    entity_drop (handle_of u i) (Some (em_refs (eu_map u))) \<noteq> None \<and>
    take_dropped debug_assertions (eu_map u) \<noteq> None \<and>
    (em_lease debug_assertions (handle_of u i) (eu_map u) = None \<longleftrightarrow> i \<in> dom (eu_leases u) \<or> i \<notin> eu_inserted u) \<and>
    (em_read debug_assertions (handle_of u i) (eu_map u) = None \<longleftrightarrow> i \<in> dom (eu_leases u) \<or> i \<notin> eu_inserted u)"
proof -
  note inv = entity_reachable_inv [OF assms(1)]
  note D = entity_invD [OF inv]
  have "incr_ref i (em_refs (eu_map u)) \<noteq> None" "decr_ref i (em_refs (eu_map u)) \<noteq> None"
    using entity_refs.clone_counted [OF D(1) assms(2)] entity_refs.drop_counted [OF D(1) assms(2)] by auto
  then have "entity_clone (handle_of u i) (Some (em_refs (eu_map u))) \<noteq> None"
    "entity_drop (handle_of u i) (Some (em_refs (eu_map u))) \<noteq> None"
    by (simp_all add: entity_clone_def entity_drop_def handle_of_def)
  moreover have "take_dropped debug_assertions (eu_map u) \<noteq> None"
    by (simp add: take_dropped_eq [OF inv] Let_def)
  moreover have "em_entities (eu_map u) i = None \<longleftrightarrow> i \<in> dom (eu_leases u) \<or> i \<notin> eu_inserted u"
    using D(5) live_counted [OF inv assms(2)] by blast
  then have "em_lease debug_assertions (handle_of u i) (eu_map u) = None \<longleftrightarrow> i \<in> dom (eu_leases u) \<or> i \<notin> eu_inserted u"
    "em_read debug_assertions (handle_of u i) (eu_map u) = None \<longleftrightarrow> i \<in> dom (eu_leases u) \<or> i \<notin> eu_inserted u"
    using D(9) by (auto simp: em_lease_def em_read_def handle_of_def assert_valid_context_def Let_def split: option.splits)
  ultimately show ?thesis by blast
qed

lemma entity_ops_no_panic_witness:
  "em_lease True (handle_of entity_example 7) (eu_map entity_example) \<noteq> None"
  using entity_ops_no_panic [OF entity_example_reachable [of True], of 7]
  by (simp add: entity_example_def)

text \<open>
  C35. A weak handle can be upgraded exactly while a strong handle of the entity is alive, and
  \<open>is_upgradable\<close> says so.
\<close>

theorem weak_upgrade_iff_live:
  assumes "entity_reachable debug_assertions u"
  shows "(weak_upgrade (entity_downgrade (handle_of u i)) (Some (em_refs (eu_map u))) \<noteq> None \<longleftrightarrow> i \<in># eu_live u) \<and>
    (is_upgradable (entity_downgrade (handle_of u i)) (Some (em_refs (eu_map u))) \<longleftrightarrow> i \<in># eu_live u)"
proof -
  note D = entity_invD [OF entity_reachable_inv [OF assms]]
  have "count (eu_live u) i = (case em_counts (eu_map u) i of None \<Rightarrow> 0 | Some n \<Rightarrow> n)"
    using D(1) by (simp add: counted_def)
  then have "is_upgradable (entity_downgrade (handle_of u i)) (Some (em_refs (eu_map u))) \<longleftrightarrow> i \<in># eu_live u"
    by (simp add: is_upgradable_def entity_downgrade_def handle_of_def flip: count_greater_zero_iff)
  moreover have "weak_upgrade (entity_downgrade (handle_of u i)) (Some (em_refs (eu_map u))) \<noteq> None \<longleftrightarrow> i \<in># eu_live u"
    using entity_refs.upgrade_iff_live [OF D(1), of i]
    by (simp add: weak_upgrade_def entity_downgrade_def handle_of_def)
  ultimately show ?thesis by blast
qed

lemma weak_upgrade_iff_live_witness:
  "weak_upgrade (entity_downgrade (handle_of entity_example 7)) (Some (em_refs (eu_map entity_example))) \<noteq> None"
  using weak_upgrade_iff_live [OF entity_example_reachable [of True], of 7] by (simp add: entity_example_def)

text \<open>
  Taking the dropped entities hands out each entity without a live handle, once; afterwards the
  map holds exactly the entities it held that have one, and only ids with a live handle are
  counted, so no weak handle of a released entity can ever be upgraded again.
\<close>

theorem take_dropped_releases:
  assumes "entity_reachable debug_assertions u"
  shows "\<exists>taken m. take_dropped debug_assertions (eu_map u) = Some (taken, m) \<and> distinct (map fst taken) \<and>
    (\<forall>i v. (i, v) \<in> set taken \<longleftrightarrow> em_entities (eu_map u) i = Some v \<and> i \<notin># eu_live u) \<and>
    (\<forall>i. em_entities m i = (if i \<in># eu_live u then em_entities (eu_map u) i else None)) \<and>
    dom (em_counts m) = set_mset (eu_live u) \<and> rc_dropped (em_refs m) = []"
proof -
  note inv = entity_reachable_inv [OF assms]
  note D = entity_invD [OF inv]
  define gone where "gone = rc_dropped (em_refs (eu_map u))"
  define taken where "taken = List.map_filter (\<lambda>i. map_option (Pair i) (em_entities (eu_map u) i)) gone"
  define m where "m = (eu_map u)\<lparr>em_refs := \<lparr>rc_counts = cut (set gone) (em_counts (eu_map u)), rc_dropped = []\<rparr>,
             em_accessed := em_accessed (eu_map u) - set gone, em_entities := cut (set gone) (em_entities (eu_map u))\<rparr>"
  have t: "take_dropped debug_assertions (eu_map u) = Some (taken, m)"
    by (simp add: take_dropped_eq [OF inv] Let_def taken_def m_def gone_def)
  have gone: "i \<in> set gone \<longleftrightarrow> i \<notin># eu_live u \<and> i \<in> dom (em_counts (eu_map u))" for i
    using D(3) counted_iff_live [OF D(1), of i] by (auto simp: gone_def)
  have entities: "i \<in> dom (em_counts (eu_map u))" if "em_entities (eu_map u) i = Some v" for i v
    using D(5) that by blast
  have "distinct (map fst (List.map_filter (\<lambda>i. map_option (Pair i) (f i)) xs))" if "distinct xs"
    for xs :: "nat list" and f :: "nat \<Rightarrow> (nat \<times> 'a) option"
    using that by (induction xs) (auto simp: List.map_filter_simps in_set_map_filter split: option.split)
  then have "distinct (map fst taken)" using D(2) by (simp add: taken_def gone_def)
  moreover have "(i, v) \<in> set taken \<longleftrightarrow> em_entities (eu_map u) i = Some v \<and> i \<notin># eu_live u" for i v
    using gone [of i] entities [of i v] by (cases v) (auto simp: taken_def in_set_map_filter)
  moreover have "em_entities m i = (if i \<in># eu_live u then em_entities (eu_map u) i else None)" for i
    using gone [of i] entities [of i] by (cases "em_entities (eu_map u) i") (auto simp: m_def cut_apply)
  moreover have "dom (em_counts m) = set_mset (eu_live u)"
  proof (rule set_eqI)
    fix i
    have "i \<in> dom (em_counts m) \<longleftrightarrow> i \<in> dom (em_counts (eu_map u)) \<and> i \<notin> set gone"
      by (auto simp: m_def cut_apply dom_def)
    then show "i \<in> dom (em_counts m) \<longleftrightarrow> i \<in># eu_live u"
      using gone [of i] live_counted [OF inv, of i] by blast
  qed
  ultimately show ?thesis using t by (intro exI [of _ taken] exI [of _ m]) (simp add: m_def)
qed

lemma take_dropped_releases_witness:
  "\<exists>taken m. take_dropped True (eu_map entity_example) = Some (taken, m) \<and> distinct (map fst taken)"
  using take_dropped_releases [OF entity_example_reachable [of True]] by blast

end
