(* ===== verification/Focus.thy ===== *)
theory Focus
  imports Ref_Count
begin

text \<open>
  Focus handles, from \<open>src/src/window.rs\<close> and \<open>src/src/app.rs\<close>: a table of counted references
  with the tab index and tab stop of each, strong and weak handles, and the release of the
  references whose count is zero, which takes the focus away from the windows that had it.  The
  slot map that makes ids is a library: the id is an argument, one never returned before.
  A panic is \<open>None\<close>; a count is a \<open>usize\<close>: lowering zero wraps around, raising does not overflow.
\<close>

section \<open>State\<close>

record focus_ref =
  fr_ref_count :: nat
  fr_tab_index :: int
  fr_tab_stop :: bool

type_synonym focus_map = "nat \<Rightarrow> focus_ref option"

record focus_handle =
  fh_id :: nat
  fh_tab_index :: int
  fh_tab_stop :: bool

datatype draw_phase = Phase_none | Phase_prepaint | Phase_paint | Phase_focus

record window_invalidator =
  wi_dirty :: bool
  wi_draw_phase :: draw_phase
  wi_dirty_views :: "nat set"

text \<open>The part of \<open>Window\<close> that focus and invalidation use; frame requests are counted.\<close>

record 'p focus_window =
  fw_focus :: "nat option"
  fw_focus_enabled :: bool
  fw_pending_input :: "'p option"
  fw_invalidator :: window_invalidator
  fw_refreshing :: bool
  fw_request_frame_immediately :: bool
  fw_frames_requested :: nat

section \<open>Handles\<close>

definition focus_handle_new :: "nat \<Rightarrow> focus_map \<Rightarrow> focus_handle \<times> focus_map" where
  "focus_handle_new fresh fm =
     (\<lparr>fh_id = fresh, fh_tab_index = 0, fh_tab_stop = False\<rparr>,
      fm(fresh \<mapsto> \<lparr>fr_ref_count = 1, fr_tab_index = 0, fr_tab_stop = False\<rparr>))"

definition focus_handle_for_id :: "nat \<Rightarrow> focus_map \<Rightarrow> (focus_handle \<times> focus_map) option" where
  "focus_handle_for_id i fm = (case fm i of
     None \<Rightarrow> None
   | Some r \<Rightarrow> (case atomic_incr_if_not_zero (fr_ref_count r) [] of
       (0, _) \<Rightarrow> None
     | (_, written) \<Rightarrow>
         Some (\<lparr>fh_id = i, fh_tab_index = fr_tab_index r, fh_tab_stop = fr_tab_stop r\<rparr>,
               fm(i \<mapsto> r\<lparr>fr_ref_count := the written\<rparr>))))"

text \<open>\<open>Clone\<close> unwraps.\<close>

definition focus_handle_clone :: "focus_handle \<Rightarrow> focus_map \<Rightarrow> (focus_handle \<times> focus_map) option" where
  "focus_handle_clone h fm = focus_handle_for_id (fh_id h) fm"

definition set_tab_index :: "int \<Rightarrow> focus_handle \<Rightarrow> focus_map \<Rightarrow> focus_handle \<times> focus_map" where
  "set_tab_index index h fm =
     (h\<lparr>fh_tab_index := index\<rparr>,
      (case fm (fh_id h) of None \<Rightarrow> fm | Some r \<Rightarrow> fm(fh_id h \<mapsto> r\<lparr>fr_tab_index := index\<rparr>)))"

definition set_tab_stop :: "bool \<Rightarrow> focus_handle \<Rightarrow> focus_map \<Rightarrow> focus_handle \<times> focus_map" where
  "set_tab_stop stop h fm =
     (h\<lparr>fh_tab_stop := stop\<rparr>,
      (case fm (fh_id h) of None \<Rightarrow> fm | Some r \<Rightarrow> fm(fh_id h \<mapsto> r\<lparr>fr_tab_stop := stop\<rparr>)))"

definition focus_handle_drop :: "nat \<Rightarrow> focus_map \<Rightarrow> focus_map option" where
  "focus_handle_drop i fm = (case fm i of
     None \<Rightarrow> None
   | Some r \<Rightarrow> Some (fm(i \<mapsto> r\<lparr>fr_ref_count := (if fr_ref_count r = 0 then 2 ^ 64 - 1 else fr_ref_count r - 1)\<rparr>)))"

text \<open>A weak handle finds the table gone once the application has dropped it.\<close>

definition weak_focus_upgrade :: "nat \<Rightarrow> focus_map option \<Rightarrow> (focus_handle \<times> focus_map) option" where
  "weak_focus_upgrade i handles = Option.bind handles (focus_handle_for_id i)"

section \<open>Invalidation\<close>

definition invalidator_new :: window_invalidator where
  "invalidator_new = \<lparr>wi_dirty = True, wi_draw_phase = Phase_none, wi_dirty_views = {}\<rparr>"

definition not_drawing :: "window_invalidator \<Rightarrow> bool" where
  "not_drawing iv \<longleftrightarrow> wi_draw_phase iv = Phase_none"

text \<open>The second result tells whether a \<open>Notify\<close> effect for the view was pushed.\<close>

definition invalidate_view :: "nat \<Rightarrow> window_invalidator \<Rightarrow> window_invalidator \<times> bool" where
  "invalidate_view entity iv =
     (let iv = iv\<lparr>wi_dirty_views := insert entity (wi_dirty_views iv)\<rparr> in
      if wi_draw_phase iv = Phase_none then (iv\<lparr>wi_dirty := True\<rparr>, True) else (iv, False))"

definition set_dirty :: "bool \<Rightarrow> window_invalidator \<Rightarrow> window_invalidator" where
  "set_dirty dirty iv = iv\<lparr>wi_dirty := dirty\<rparr>"

definition set_phase :: "draw_phase \<Rightarrow> window_invalidator \<Rightarrow> window_invalidator" where
  "set_phase phase iv = iv\<lparr>wi_draw_phase := phase\<rparr>"

definition take_views :: "window_invalidator \<Rightarrow> nat set \<times> window_invalidator" where
  "take_views iv = (wi_dirty_views iv, iv\<lparr>wi_dirty_views := {}\<rparr>)"

definition replace_views :: "nat set \<Rightarrow> window_invalidator \<Rightarrow> window_invalidator" where
  "replace_views views iv = iv\<lparr>wi_dirty_views := views\<rparr>"

definition debug_assert_paint :: "bool \<Rightarrow> window_invalidator \<Rightarrow> unit option" where
  "debug_assert_paint debug_assertions iv =
     (if debug_assertions \<and> wi_draw_phase iv \<noteq> Phase_paint then None else Some ())"

definition debug_assert_prepaint :: "bool \<Rightarrow> window_invalidator \<Rightarrow> unit option" where
  "debug_assert_prepaint debug_assertions iv =
     (if debug_assertions \<and> wi_draw_phase iv \<noteq> Phase_prepaint then None else Some ())"

definition debug_assert_paint_or_prepaint :: "bool \<Rightarrow> window_invalidator \<Rightarrow> unit option" where
  "debug_assert_paint_or_prepaint debug_assertions iv =
     (if debug_assertions \<and> wi_draw_phase iv \<notin> {Phase_paint, Phase_prepaint} then None else Some ())"

section \<open>Windows\<close>

definition window_refresh :: "'p focus_window \<Rightarrow> 'p focus_window" where
  "window_refresh w =
     (if not_drawing (fw_invalidator w) then
        (let w = w\<lparr>fw_refreshing := True, fw_invalidator := set_dirty True (fw_invalidator w)\<rparr>
         in if fw_request_frame_immediately w then w\<lparr>fw_frames_requested := Suc (fw_frames_requested w)\<rparr> else w)
      else w)"

definition clear_pending_keystrokes :: "'p focus_window \<Rightarrow> 'p focus_window" where
  "clear_pending_keystrokes w = w\<lparr>fw_pending_input := None\<rparr>"

definition window_focus :: "focus_handle \<Rightarrow> 'p focus_window \<Rightarrow> 'p focus_window" where
  "window_focus h w =
     (if \<not> fw_focus_enabled w \<or> fw_focus w = Some (fh_id h) then w
      else window_refresh (clear_pending_keystrokes (w\<lparr>fw_focus := Some (fh_id h)\<rparr>)))"

definition window_blur :: "'p focus_window \<Rightarrow> 'p focus_window" where
  "window_blur w = (if \<not> fw_focus_enabled w then w else window_refresh (w\<lparr>fw_focus := None\<rparr>))"

definition window_disable_focus :: "'p focus_window \<Rightarrow> 'p focus_window" where
  "window_disable_focus w = (window_blur w)\<lparr>fw_focus_enabled := False\<rparr>"

text \<open>Releasing the references whose count is zero, which are given as \<open>keys\<close> in the order of the
  table; a window that is being updated is \<open>None\<close>, and updating it again panics.\<close>

definition blur_all :: "nat \<Rightarrow> 'p focus_window option list \<Rightarrow> 'p focus_window option list option" where
  "blur_all i windows =
     (if None \<in> set windows then None
      else Some (map (map_option (\<lambda>w. if fw_focus w = Some i then window_blur w else w)) windows))"

fun release_dropped_focus_handles ::
    "nat list \<Rightarrow> focus_map \<Rightarrow> 'p focus_window option list \<Rightarrow> (focus_map \<times> 'p focus_window option list) option" where
  "release_dropped_focus_handles [] fm windows = Some (fm, windows)"
| "release_dropped_focus_handles (i # keys) fm windows =
     (case fm i of
        Some r \<Rightarrow>
          if fr_ref_count r = 0
          then Option.bind (blur_all i windows) (release_dropped_focus_handles keys (fm(i := None)))
          else release_dropped_focus_handles keys fm windows
      | None \<Rightarrow> release_dropped_focus_handles keys fm windows)"

section \<open>Counting\<close>

definition focus_count :: "focus_map \<Rightarrow> nat \<Rightarrow> nat option" where
  "focus_count fm i = map_option fr_ref_count (fm i)"

interpretation focus_refs: ref_table focus_count
  "\<lambda>i fm. map_option snd (focus_handle_for_id i fm)" focus_handle_drop "\<lambda>i fm. map_option snd (focus_handle_for_id i fm)"
proof
  fix fm i n
  show "focus_count fm i = Some (Suc n) \<Longrightarrow>
      \<exists>t. map_option snd (focus_handle_for_id i fm) = Some t \<and>
        (\<forall>j. focus_count t j = (if j = i then Some (Suc (Suc n)) else focus_count fm j))"
    by (auto simp: focus_count_def focus_handle_for_id_def)
  show "focus_count fm i = Some (Suc n) \<Longrightarrow>
      \<exists>t. focus_handle_drop i fm = Some t \<and> (\<forall>j. focus_count t j = (if j = i then Some n else focus_count fm j))"
    by (auto simp: focus_count_def focus_handle_drop_def)
  show "map_option snd (focus_handle_for_id i fm) =
      (case focus_count fm i of Some (Suc n) \<Rightarrow> map_option snd (focus_handle_for_id i fm) | _ \<Rightarrow> None)"
    by (auto simp: focus_count_def focus_handle_for_id_def split: option.split nat.split)
qed

text \<open>Setting the tab index or tab stop leaves the counts alone.\<close>

lemma focus_count_set [simp]:
  "focus_count (snd (set_tab_index index h fm)) = focus_count fm"
  "focus_count (snd (set_tab_stop stop h fm)) = focus_count fm"
  by (auto simp: focus_count_def set_tab_index_def set_tab_stop_def split: option.split)

section \<open>Uses of the table\<close>

record 'p focus_use =
  fu_map :: focus_map
  fu_live :: "nat multiset"
  fu_used :: "nat set"
  fu_windows :: "'p focus_window list"

inductive focus_step :: "'p focus_use \<Rightarrow> 'p focus_use \<Rightarrow> bool" where
  new: "i \<notin> fu_used u \<Longrightarrow> focus_handle_new i (fu_map u) = (h, fm) \<Longrightarrow>
    focus_step u (u\<lparr>fu_map := fm, fu_live := add_mset i (fu_live u), fu_used := insert i (fu_used u)\<rparr>)"
| for_id: "focus_handle_for_id i (fu_map u) = Some (h, fm) \<Longrightarrow>
    focus_step u (u\<lparr>fu_map := fm, fu_live := add_mset i (fu_live u)\<rparr>)"
| tab_index: "fh_id h \<in># fu_live u \<Longrightarrow> focus_step u (u\<lparr>fu_map := snd (set_tab_index index h (fu_map u))\<rparr>)"
| tab_stop: "fh_id h \<in># fu_live u \<Longrightarrow> focus_step u (u\<lparr>fu_map := snd (set_tab_stop stop h (fu_map u))\<rparr>)"
| drop: "i \<in># fu_live u \<Longrightarrow> focus_handle_drop i (fu_map u) = Some fm \<Longrightarrow>
    focus_step u (u\<lparr>fu_map := fm, fu_live := fu_live u - {#i#}\<rparr>)"
| focus: "fh_id h \<in># fu_live u \<Longrightarrow> k < length (fu_windows u) \<Longrightarrow>
    focus_step u (u\<lparr>fu_windows := (fu_windows u)[k := window_focus h (fu_windows u ! k)]\<rparr>)"
| blur: "k < length (fu_windows u) \<Longrightarrow>
    focus_step u (u\<lparr>fu_windows := (fu_windows u)[k := window_blur (fu_windows u ! k)]\<rparr>)"
| disable: "k < length (fu_windows u) \<Longrightarrow>
    focus_step u (u\<lparr>fu_windows := (fu_windows u)[k := window_disable_focus (fu_windows u ! k)]\<rparr>)"
| open_window: "focus_step u (u\<lparr>fu_windows := fu_windows u @
    [\<lparr>fw_focus = None, fw_focus_enabled = True, fw_pending_input = None, fw_invalidator = invalidator_new,
      fw_refreshing = False, fw_request_frame_immediately = immediately, fw_frames_requested = 0\<rparr>]\<rparr>)"
| release: "distinct keys \<Longrightarrow> set keys = dom (fu_map u) \<Longrightarrow>
    release_dropped_focus_handles keys (fu_map u) (map Some (fu_windows u)) = Some (fm, windows) \<Longrightarrow>
    focus_step u (u\<lparr>fu_map := fm, fu_windows := map the windows\<rparr>)"

inductive focus_reachable :: "'p focus_use \<Rightarrow> bool" where
  start: "focus_reachable \<lparr>fu_map = Map.empty, fu_live = {#}, fu_used = {}, fu_windows = []\<rparr>"
| step: "focus_reachable u \<Longrightarrow> focus_step u v \<Longrightarrow> focus_reachable v"

text \<open>The focus of a window is always a reference that has not been released.\<close>

definition window_inv :: "focus_map \<Rightarrow> 'p focus_window \<Rightarrow> bool" where
  "window_inv fm w \<longleftrightarrow> (case fw_focus w of None \<Rightarrow> True | Some i \<Rightarrow> i \<in> dom fm \<and> fw_focus_enabled w)"

definition focus_inv :: "'p focus_use \<Rightarrow> bool" where
  "focus_inv u \<longleftrightarrow> counted focus_count (fu_map u) (fu_live u) \<and> dom (fu_map u) \<subseteq> fu_used u \<and>
     list_all (window_inv (fu_map u)) (fu_windows u)"

lemma window_refresh_focus [simp]:
  "fw_focus (window_refresh w) = fw_focus w" "fw_focus_enabled (window_refresh w) = fw_focus_enabled w"
  by (simp_all add: window_refresh_def Let_def)

lemma window_inv_ops:
  "window_inv fm w \<Longrightarrow> fh_id h \<in> dom fm \<Longrightarrow> window_inv fm (window_focus h w)"
  "window_inv fm w \<Longrightarrow> window_inv fm (window_blur w)"
  "window_inv fm w \<Longrightarrow> window_inv fm (window_disable_focus w)"
  by (auto simp: window_inv_def window_focus_def window_blur_def window_disable_focus_def clear_pending_keystrokes_def
      split: option.splits)

lemma list_all_update: "list_all P xs \<Longrightarrow> (k < length xs \<Longrightarrow> P x) \<Longrightarrow> list_all P (xs[k := x])"
  by (cases "k < length xs") (auto simp: list_all_length nth_list_update)

lemma windows_inv_update:
  "list_all (window_inv fm) ws \<Longrightarrow> (\<And>w. window_inv fm w \<Longrightarrow> window_inv fm (f w)) \<Longrightarrow> k < length ws \<Longrightarrow>
   list_all (window_inv fm) (ws[k := f (ws ! k)])"
  by (rule list_all_update) (simp_all add: list_all_length)

lemma focus_live_dom: "counted focus_count fm live \<Longrightarrow> i \<in># live \<Longrightarrow> i \<in> dom fm"
  using counted_live [of focus_count fm live i] by (auto simp: focus_count_def)

definition released :: "nat set \<Rightarrow> focus_map \<Rightarrow> focus_map" where
  "released A fm = (\<lambda>i. if i \<in> A \<and> focus_count fm i = Some 0 then None else fm i)"

lemma window_inv_blurred:
  "window_inv fm w \<Longrightarrow> window_inv (fm(i := None)) (if fw_focus w = Some i then window_blur w else w)"
  by (auto simp: window_inv_def window_blur_def split: option.splits)

text \<open>The focus of a window once only the references in \<open>fm\<close> are left.\<close>

definition kept_focus :: "focus_map \<Rightarrow> 'p focus_window \<Rightarrow> nat option" where
  "kept_focus fm w = (case fw_focus w of None \<Rightarrow> None | Some i \<Rightarrow> if i \<in> dom fm then Some i else None)"

lemma kept_focus_blurred:
  "window_inv fm w \<Longrightarrow> i \<notin> dom fm' \<Longrightarrow> kept_focus fm' (if fw_focus w = Some i then window_blur w else w) = kept_focus fm' w"
  by (auto simp: kept_focus_def window_inv_def window_blur_def split: option.split)

lemma kept_focus_inv: "window_inv fm w \<Longrightarrow> kept_focus fm w = fw_focus w"
  by (auto simp: kept_focus_def window_inv_def split: option.splits)

lemma release_dropped_released:
  "distinct keys \<Longrightarrow> list_all (window_inv fm) windows \<Longrightarrow>
   \<exists>windows'. release_dropped_focus_handles keys fm (map Some windows) =
       Some (released (set keys) fm, map Some windows') \<and>
     map fw_focus windows' = map (kept_focus (released (set keys) fm)) windows \<and>
     list_all (window_inv (released (set keys) fm)) windows'"
proof (induction keys arbitrary: fm windows)
  case (Cons i keys)
  show ?case
  proof (cases "focus_count fm i = Some 0")
    case True
    then obtain r where r: "fm i = Some r" "fr_ref_count r = 0" by (auto simp: focus_count_def)
    let ?ws = "map (\<lambda>w. if fw_focus w = Some i then window_blur w else w) windows"
    have blur: "blur_all i (map Some windows) = Some (map Some ?ws)" by (auto simp: blur_all_def)
    have "window_inv (fm(i := None)) (if fw_focus w = Some i then window_blur w else w)" if "w \<in> set windows" for w
      by (rule window_inv_blurred) (use that Cons.prems(2) in \<open>simp add: list_all_iff\<close>)
    then have "list_all (window_inv (fm(i := None))) ?ws" unfolding list_all_iff set_map by blast
    moreover have "distinct keys" using Cons.prems(1) by simp
    ultimately obtain windows' where IH:
      "release_dropped_focus_handles keys (fm(i := None)) (map Some ?ws) = Some (released (set keys) (fm(i := None)), map Some windows')"
      "map fw_focus windows' = map (kept_focus (released (set keys) (fm(i := None)))) ?ws"
      "list_all (window_inv (released (set keys) (fm(i := None)))) windows'"
      using Cons.IH by blast
    have "released (set keys) (fm(i := None)) = released (set (i # keys)) fm"
      using True by (auto simp: released_def focus_count_def fun_eq_iff)
    moreover have "i \<notin> dom (released (set keys) (fm(i := None)))" by (simp add: released_def dom_def)
    then have "map (kept_focus (released (set keys) (fm(i := None)))) ?ws = map (kept_focus (released (set keys) (fm(i := None)))) windows"
      using Cons.prems(2) by (simp add: list_all_iff kept_focus_blurred [of fm] split del: if_split)
    ultimately show ?thesis using IH r blur by (intro exI [of _ windows']) (simp del: map_map)
  next
    case False
    then have "release_dropped_focus_handles (i # keys) fm (map Some windows) = release_dropped_focus_handles keys fm (map Some windows)"
      by (auto simp: focus_count_def split: option.split)
    moreover have "released (set (i # keys)) fm = released (set keys) fm"
      using False by (auto simp: released_def fun_eq_iff)
    ultimately show ?thesis using Cons.IH [OF _ Cons.prems(2)] Cons.prems(1) by simp
  qed
next
  case Nil
  then show ?case by (auto simp: released_def list_all_iff kept_focus_inv intro!: exI [of _ windows])
qed

lemma window_inv_dom: "window_inv fm w \<Longrightarrow> dom fm \<subseteq> dom fm' \<Longrightarrow> window_inv fm' w"
  by (auto simp: window_inv_def split: option.splits)

lemma windows_inv_dom: "list_all (window_inv fm) ws \<Longrightarrow> dom fm \<subseteq> dom fm' \<Longrightarrow> list_all (window_inv fm') ws"
  unfolding list_all_iff using window_inv_dom by blast

lemma focus_step_inv: "focus_step u v \<Longrightarrow> focus_inv u \<Longrightarrow> focus_inv v"
proof (induction rule: focus_step.induct)
  case (new i u h fm)
  then have C: "counted focus_count (fu_map u) (fu_live u)" and none: "fu_map u i = None"
    by (auto simp: focus_inv_def)
  then have "count (fu_live u) i = 0" by (simp add: counted_def focus_count_def)
  then have "counted focus_count fm (add_mset i (fu_live u))"
    using new.hyps(2) by (intro counted_add [OF C]) (auto simp: focus_handle_new_def focus_count_def)
  moreover have "dom fm = insert i (dom (fu_map u))" using new.hyps(2) by (auto simp: focus_handle_new_def)
  ultimately show ?case using new.prems windows_inv_dom [of "fu_map u" _ fm] by (auto simp: focus_inv_def)
next
  case (for_id i u h fm)
  then have C: "counted focus_count (fu_map u) (fu_live u)" by (simp add: focus_inv_def)
  have "counted focus_count fm (add_mset i (fu_live u))"
    by (rule focus_refs.upgrade_counted [OF C]) (simp add: for_id.hyps)
  moreover have "dom fm = dom (fu_map u)"
    using for_id.hyps by (auto simp: focus_handle_for_id_def split: option.splits if_splits)
  ultimately show ?case using for_id.prems windows_inv_dom [of "fu_map u" _ fm] by (auto simp: focus_inv_def)
next
  case (tab_index h u index)
  have "dom (snd (set_tab_index index h (fu_map u))) = dom (fu_map u)"
    by (auto simp: set_tab_index_def split: option.split)
  with tab_index.prems windows_inv_dom [of "fu_map u" _ "snd (set_tab_index index h (fu_map u))"]
  show ?case by (auto simp: focus_inv_def counted_def)
next
  case (tab_stop h u stop)
  have "dom (snd (set_tab_stop stop h (fu_map u))) = dom (fu_map u)"
    by (auto simp: set_tab_stop_def split: option.split)
  with tab_stop.prems windows_inv_dom [of "fu_map u" _ "snd (set_tab_stop stop h (fu_map u))"]
  show ?case by (auto simp: focus_inv_def counted_def)
next
  case (drop i u fm)
  then have C: "counted focus_count (fu_map u) (fu_live u)" by (simp add: focus_inv_def)
  have "counted focus_count fm (fu_live u - {#i#})"
    using focus_refs.drop_counted [OF C drop.hyps(1)] drop.hyps(2) by auto
  moreover have "dom fm = dom (fu_map u)"
    using drop.hyps(2) by (auto simp: focus_handle_drop_def split: option.splits if_splits)
  ultimately show ?case using drop.prems windows_inv_dom [of "fu_map u" _ fm] by (auto simp: focus_inv_def)
next
  case (focus h u k)
  then have "fh_id h \<in> dom (fu_map u)" using focus_live_dom by (auto simp: focus_inv_def)
  with focus.prems focus.hyps(2) show ?case
    by (simp add: focus_inv_def windows_inv_update window_inv_ops)
next
  case (blur k u)
  then show ?case by (simp add: focus_inv_def windows_inv_update window_inv_ops)
next
  case (disable k u)
  then show ?case by (simp add: focus_inv_def windows_inv_update window_inv_ops)
next
  case (open_window u immediately)
  then show ?case by (simp add: focus_inv_def window_inv_def)
next
  case (release keys u fm windows)
  then have C: "counted focus_count (fu_map u) (fu_live u)" "list_all (window_inv (fu_map u)) (fu_windows u)"
    by (simp_all add: focus_inv_def)
  obtain windows' where w: "fm = released (set keys) (fu_map u)" "windows = map Some windows'"
    "list_all (window_inv fm) windows'"
    using release_dropped_released [OF release.hyps(1) C(2)] release.hyps(3) by auto
  have "counted focus_count fm (fu_live u)"
    by (rule counted_release [OF C(1), of _ "\<lambda>i. i \<in> set keys \<and> focus_count (fu_map u) i = Some 0"])
      (auto simp: w(1) released_def focus_count_def)
  moreover have "dom fm \<subseteq> dom (fu_map u)" by (auto simp: w(1) released_def split: if_splits)
  ultimately show ?case using release.prems w by (auto simp: focus_inv_def comp_def)
qed

lemma focus_reachable_inv: "focus_reachable u \<Longrightarrow> focus_inv u"
proof (induction rule: focus_reachable.induct)
  case start
  show ?case by (simp add: focus_inv_def counted_def focus_count_def)
qed (blast intro: focus_step_inv)

section \<open>Properties\<close>

definition focus_example :: "unit focus_use" where
  "focus_example = \<lparr>fu_map = [7 \<mapsto> \<lparr>fr_ref_count = 1, fr_tab_index = 0, fr_tab_stop = False\<rparr>],
     fu_live = {#7#}, fu_used = {7}, fu_windows = []\<rparr>"

lemma focus_example_reachable: "focus_reachable focus_example"
proof -
  let ?s = "\<lparr>fu_map = Map.empty, fu_live = {#}, fu_used = {}, fu_windows = []\<rparr> :: unit focus_use"
  have "focus_step ?s (?s\<lparr>fu_map := snd (focus_handle_new 7 Map.empty), fu_live := add_mset 7 {#}, fu_used := insert 7 {}\<rparr>)"
    using focus_step.new [of 7 ?s "fst (focus_handle_new 7 Map.empty)" "snd (focus_handle_new 7 Map.empty)"] by simp
  from focus_reachable.step [OF focus_reachable.start this] show ?thesis
    by (simp add: focus_example_def focus_handle_new_def)
qed

text \<open>
  C34. In every use of focus handles, the count of a reference is the number of live handles to it;
  so a live handle can be cloned and dropped without a panic, a weak one can be upgraded exactly
  while a strong one is alive, and the focus of a window is never a released reference.
\<close>

theorem focus_handles_counted:
  assumes "focus_reachable u"
  shows "(focus_handle_for_id i (fu_map u) = None \<longleftrightarrow> i \<notin># fu_live u) \<and>
    (\<exists>fm. i \<notin># fu_live u \<or> focus_handle_drop i (fu_map u) = Some fm) \<and>
    (case fu_map u i of None \<Rightarrow> 0 | Some r \<Rightarrow> fr_ref_count r) = count (fu_live u) i \<and>
    list_all (\<lambda>w. case fw_focus w of None \<Rightarrow> True | Some i \<Rightarrow> fu_map u i \<noteq> None) (fu_windows u)"
proof -
  have iv: "focus_inv u" using focus_reachable_inv [OF assms] .
  then have C: "counted focus_count (fu_map u) (fu_live u)" by (simp add: focus_inv_def)
  have "focus_handle_for_id i (fu_map u) = None \<longleftrightarrow> i \<notin># fu_live u"
    using focus_refs.upgrade_iff_live [OF C, of i] by (cases "focus_handle_for_id i (fu_map u)") auto
  moreover have "\<exists>fm. i \<notin># fu_live u \<or> focus_handle_drop i (fu_map u) = Some fm"
    using focus_refs.drop_counted [OF C, of i] by blast
  moreover have "(case fu_map u i of None \<Rightarrow> 0 | Some r \<Rightarrow> fr_ref_count r) = count (fu_live u) i"
    using C by (simp add: counted_def focus_count_def split: option.split)
  moreover have "list_all (\<lambda>w. case fw_focus w of None \<Rightarrow> True | Some i \<Rightarrow> fu_map u i \<noteq> None) (fu_windows u)"
    using iv by (auto simp: focus_inv_def window_inv_def list_all_iff split: option.splits)
  ultimately show ?thesis by blast
qed

lemma focus_handles_counted_witness:
  "focus_handle_for_id 7 (fu_map focus_example) \<noteq> None"
  using focus_handles_counted [OF focus_example_reachable, of 7] by (simp add: focus_example_def)

text \<open>
  Releasing the dropped references, with no window being updated, keeps exactly the references with
  a live handle, and takes the focus from every window whose focus was released and from no
  other.
\<close>

theorem release_focus_exact:
  assumes "focus_reachable u" and "distinct keys" and "set keys = dom (fu_map u)"
  shows "\<exists>fm windows. release_dropped_focus_handles keys (fu_map u) (map Some (fu_windows u)) = Some (fm, map Some windows) \<and>
    dom fm = set_mset (fu_live u) \<and>
    map fw_focus windows = map (\<lambda>w. case fw_focus w of None \<Rightarrow> None | Some i \<Rightarrow> if i \<in># fu_live u then Some i else None) (fu_windows u)"
proof -
  have iv: "counted focus_count (fu_map u) (fu_live u)" "list_all (window_inv (fu_map u)) (fu_windows u)"
    using focus_reachable_inv [OF assms(1)] by (simp_all add: focus_inv_def)
  obtain windows where w:
    "release_dropped_focus_handles keys (fu_map u) (map Some (fu_windows u)) = Some (released (set keys) (fu_map u), map Some windows)"
    "map fw_focus windows = map (kept_focus (released (set keys) (fu_map u))) (fu_windows u)"
    using release_dropped_released [OF assms(2) iv(2)] by blast
  have "i \<in> dom (released (set keys) (fu_map u)) \<longleftrightarrow> i \<in># fu_live u" for i
  proof -
    have "i \<in> dom (released (set keys) (fu_map u)) \<longleftrightarrow> (\<exists>n. focus_count (fu_map u) i = Some n \<and> 0 < n)"
      using assms(3) by (auto simp: released_def focus_count_def split: if_splits)
    then show ?thesis using counted_iff_live [OF iv(1), of i] counted_live [OF iv(1), of i] by blast
  qed
  then have dom: "dom (released (set keys) (fu_map u)) = set_mset (fu_live u)" by blast
  with w show ?thesis by (intro exI [of _ "released (set keys) (fu_map u)"] exI [of _ windows]) (simp add: kept_focus_def set_eq_iff cong: option.case_cong)
qed

lemma release_focus_exact_witness:
  "\<exists>fm windows. release_dropped_focus_handles [7] (fu_map focus_example) (map Some (fu_windows focus_example)) =
     Some (fm, map Some windows) \<and> dom fm = {7}"
  using release_focus_exact [OF focus_example_reachable, of "[7]"] by (auto simp: focus_example_def)

end
