(* ===== verification/Tab_Stop.thy ===== *)
theory Tab_Stop
  imports Focus "HOL-Library.List_Lexorder" "HOL-Library.Product_Lexorder"
begin

text \<open>
  The tab order, from \<open>src/src/tab_stop.rs\<close>: focus handles are inserted while a frame is
  painted, inside nested groups, and are visited in the order of their index paths, then of
  insertion.  The ordered tree (\<open>SumTree\<close>) is a library: its operations are the parameter \<open>T\<close>,
  and what is used of it is stated in \<open>sum_tree_ok\<close>.  Cloning and dropping handles counts
  references in the focus map, which is passed along.  Panics are \<open>None\<close>.
\<close>

section \<open>State\<close>

datatype tab_operation =
    Tab_insert focus_handle
  | Tab_group int
  | Tab_group_end

record tab_node =
  tn_path :: "int list"
  tn_index :: nat
  tn_stop :: bool

record ('t, 'c) sum_tree =
  st_new :: 't
  st_insert_or_replace :: "tab_node \<Rightarrow> 't \<Rightarrow> 't"
  st_first :: "'t \<Rightarrow> tab_node option"
  st_last :: "'t \<Rightarrow> tab_node option"
  st_seek_left :: "'t \<Rightarrow> tab_node \<Rightarrow> 'c"
  st_next :: "'c \<Rightarrow> 'c"
  st_prev :: "'c \<Rightarrow> 'c"
  st_item :: "'c \<Rightarrow> tab_node option"

record 't tab_stop_map =
  ts_current_path :: "int list"
  ts_history :: "tab_operation list"
  ts_by_id :: "nat \<Rightarrow> tab_node option"
  ts_order :: 't

text \<open>\<open>Ord\<close> of a node: its path, then its insertion index.\<close>

definition node_key :: "tab_node \<Rightarrow> int list \<times> nat" where
  "node_key n = (tn_path n, tn_index n)"

definition operation_handle :: "tab_operation \<Rightarrow> focus_handle option" where
  "operation_handle op = (case op of Tab_insert h \<Rightarrow> Some h | _ \<Rightarrow> None)"

definition tab_map_new :: "('t, 'c) sum_tree \<Rightarrow> 't tab_stop_map" where
  "tab_map_new T = \<lparr>ts_current_path = [], ts_history = [], ts_by_id = Map.empty, ts_order = st_new T\<rparr>"

section \<open>Building the order\<close>

definition tab_insert :: "('t, 'c) sum_tree \<Rightarrow> focus_handle \<Rightarrow> focus_map \<times> 't tab_stop_map \<Rightarrow>
    (focus_map \<times> 't tab_stop_map) option" where
  "tab_insert T h = (\<lambda>(fm, m).
     Option.bind (focus_handle_clone h fm) (\<lambda>(h', fm).
       (let m = m\<lparr>ts_history := ts_history m @ [Tab_insert h']\<rparr>;
            order = \<lparr>tn_path = ts_current_path m @ [fh_tab_index h], tn_index = length (ts_history m) - 1,
                     tn_stop = fh_tab_stop h\<rparr> in
        Some (fm, m\<lparr>ts_by_id := (ts_by_id m)(fh_id h \<mapsto> order),
                    ts_order := st_insert_or_replace T order (ts_order m)\<rparr>))))"

definition begin_group :: "int \<Rightarrow> 't tab_stop_map \<Rightarrow> 't tab_stop_map" where
  "begin_group tab_index m =
     m\<lparr>ts_history := ts_history m @ [Tab_group tab_index], ts_current_path := ts_current_path m @ [tab_index]\<rparr>"

definition end_group :: "'t tab_stop_map \<Rightarrow> 't tab_stop_map" where
  "end_group m = m\<lparr>ts_history := ts_history m @ [Tab_group_end], ts_current_path := butlast (ts_current_path m)\<rparr>"

text \<open>Clearing drops the handles of the history.\<close>

fun drop_operations :: "tab_operation list \<Rightarrow> focus_map \<Rightarrow> focus_map option" where
  "drop_operations [] fm = Some fm"
| "drop_operations (op # ops) fm = (case operation_handle op of
     None \<Rightarrow> drop_operations ops fm
   | Some h \<Rightarrow> Option.bind (focus_handle_drop (fh_id h) fm) (drop_operations ops))"

definition tab_clear :: "('t, 'c) sum_tree \<Rightarrow> focus_map \<times> 't tab_stop_map \<Rightarrow> (focus_map \<times> 't tab_stop_map) option" where
  "tab_clear T = (\<lambda>(fm, m). map_option (\<lambda>fm. (fm, tab_map_new T)) (drop_operations (ts_history m) fm))"

fun tab_replay :: "('t, 'c) sum_tree \<Rightarrow> tab_operation list \<Rightarrow> focus_map \<times> 't tab_stop_map \<Rightarrow>
    (focus_map \<times> 't tab_stop_map) option" where
  "tab_replay T [] s = Some s"
| "tab_replay T (Tab_insert h # ops) s = Option.bind (tab_insert T h s) (tab_replay T ops)"
| "tab_replay T (Tab_group i # ops) s = tab_replay T ops (fst s, begin_group i (snd s))"
| "tab_replay T (Tab_group_end # ops) s = tab_replay T ops (fst s, end_group (snd s))"

definition paint_index :: "'t tab_stop_map \<Rightarrow> nat" where
  "paint_index m = length (ts_history m)"

section \<open>Moving along it\<close>

partial_function (option) seek_stop ::
    "('t, 'c) sum_tree \<Rightarrow> ('c \<Rightarrow> 'c) \<Rightarrow> 'c \<Rightarrow> tab_node option option" where
  "seek_stop T move c = (case st_item T c of
     None \<Rightarrow> Some None
   | Some n \<Rightarrow> if tn_stop n then Some (Some n) else seek_stop T move (move c))"

definition next_inner :: "('t, 'c) sum_tree \<Rightarrow> 't tab_stop_map \<Rightarrow> tab_node \<Rightarrow> tab_node option option" where
  "next_inner T m n = seek_stop T (st_next T) (st_next T (st_seek_left T (ts_order m) n))"

definition prev_inner :: "('t, 'c) sum_tree \<Rightarrow> 't tab_stop_map \<Rightarrow> tab_node \<Rightarrow> tab_node option option" where
  "prev_inner T m n = seek_stop T (st_prev T) (st_prev T (st_seek_left T (ts_order m) n))"

text \<open>The handle of a node is cloned, which can panic; a node without one trips a debug assertion.\<close>

definition focus_handle_for_order :: "bool \<Rightarrow> focus_map \<Rightarrow> 't tab_stop_map \<Rightarrow> tab_node \<Rightarrow>
    (focus_handle option \<times> focus_map) option" where
  "focus_handle_for_order debug_assertions fm m n =
     (if tn_index n < length (ts_history m) then
        (case operation_handle (ts_history m ! tn_index n) of
           None \<Rightarrow> if debug_assertions then None else Some (None, fm)
         | Some h \<Rightarrow> map_option (\<lambda>(h, fm). (Some h, fm)) (focus_handle_clone h fm))
      else None)"

definition handle_for_item :: "bool \<Rightarrow> focus_map \<Rightarrow> 't tab_stop_map \<Rightarrow> tab_node option \<Rightarrow>
    (focus_handle option \<times> focus_map) option" where
  "handle_for_item debug_assertions fm m item = (case item of
     None \<Rightarrow> Some (None, fm)
   | Some n \<Rightarrow> focus_handle_for_order debug_assertions fm m n)"

definition tab_next_from_start :: "bool \<Rightarrow> ('t, 'c) sum_tree \<Rightarrow> focus_map \<Rightarrow> 't tab_stop_map \<Rightarrow>
    (focus_handle option \<times> focus_map) option" where
  "tab_next_from_start debug_assertions T fm m = (case st_first T (ts_order m) of
     None \<Rightarrow> Some (None, fm)
   | Some first \<Rightarrow>
       if tn_stop first then focus_handle_for_order debug_assertions fm m first
       else Option.bind (next_inner T m first) (handle_for_item debug_assertions fm m))"

definition tab_next :: "bool \<Rightarrow> ('t, 'c) sum_tree \<Rightarrow> focus_map \<Rightarrow> 't tab_stop_map \<Rightarrow> nat option \<Rightarrow>
    (focus_handle option \<times> focus_map) option" where
  "tab_next debug_assertions T fm m focused = (case focused of
     None \<Rightarrow> tab_next_from_start debug_assertions T fm m
   | Some i \<Rightarrow> (case ts_by_id m i of
       None \<Rightarrow> tab_next_from_start debug_assertions T fm m
     | Some n \<Rightarrow> Option.bind (next_inner T m n) (\<lambda>item. case item of
         Some item \<Rightarrow> focus_handle_for_order debug_assertions fm m item
       | None \<Rightarrow> tab_next_from_start debug_assertions T fm m)))"

definition tab_prev_from_end :: "bool \<Rightarrow> ('t, 'c) sum_tree \<Rightarrow> focus_map \<Rightarrow> 't tab_stop_map \<Rightarrow>
    (focus_handle option \<times> focus_map) option" where
  "tab_prev_from_end debug_assertions T fm m = (case st_last T (ts_order m) of
     None \<Rightarrow> Some (None, fm)
   | Some final \<Rightarrow>
       if tn_stop final then focus_handle_for_order debug_assertions fm m final
       else Option.bind (prev_inner T m final) (handle_for_item debug_assertions fm m))"

definition tab_prev :: "bool \<Rightarrow> ('t, 'c) sum_tree \<Rightarrow> focus_map \<Rightarrow> 't tab_stop_map \<Rightarrow> nat option \<Rightarrow>
    (focus_handle option \<times> focus_map) option" where
  "tab_prev debug_assertions T fm m focused = (case focused of
     None \<Rightarrow> tab_prev_from_end debug_assertions T fm m
   | Some i \<Rightarrow> (case ts_by_id m i of
       None \<Rightarrow> tab_prev_from_end debug_assertions T fm m
     | Some n \<Rightarrow> Option.bind (prev_inner T m n) (\<lambda>item. case item of
         Some item \<Rightarrow> focus_handle_for_order debug_assertions fm m item
       | None \<Rightarrow> tab_prev_from_end debug_assertions T fm m)))"

section \<open>What is used of the ordered tree\<close>

text \<open>
  \<open>items\<close> lists the tree; \<open>spot\<close> gives the items a cursor walks over and its position, \<open>-1\<close> before
  the first.  Inserting keeps the items ordered by key and replaces an item of the same key;
  seeking with \<open>Bias::Left\<close> stops at the first item that is not below the target.
\<close>

definition sum_tree_ok :: "('t, 'c) sum_tree \<Rightarrow> ('t \<Rightarrow> tab_node list) \<Rightarrow> ('c \<Rightarrow> tab_node list \<times> int) \<Rightarrow> bool" where
  "sum_tree_ok T items spot \<longleftrightarrow>
     items (st_new T) = [] \<and>
     (\<forall>t n. items (st_insert_or_replace T n t) =
        insort_key node_key n (filter (\<lambda>x. node_key x \<noteq> node_key n) (items t))) \<and>
     (\<forall>t. st_first T t = (case items t of [] \<Rightarrow> None | x # _ \<Rightarrow> Some x)) \<and>
     (\<forall>t. st_last T t = (case items t of [] \<Rightarrow> None | xs \<Rightarrow> Some (last xs))) \<and>
     (\<forall>t n. spot (st_seek_left T t n) =
        (items t, int (length (takeWhile (\<lambda>x. node_key x < node_key n) (items t))))) \<and>
     (\<forall>c xs k. spot c = (xs, k) \<longrightarrow> st_item T c = (if 0 \<le> k \<and> k < int (length xs) then Some (xs ! nat k) else None)) \<and>
     (\<forall>c xs k. spot c = (xs, k) \<and> 0 \<le> k \<and> k < int (length xs) \<longrightarrow> spot (st_next T c) = (xs, k + 1)) \<and>
     (\<forall>c xs k. spot c = (xs, k) \<and> 0 \<le> k \<and> k \<le> int (length xs) \<longrightarrow> spot (st_prev T c) = (xs, k - 1))"

text \<open>A list with a position is such a tree.\<close>

definition list_tree :: "(tab_node list, tab_node list \<times> int) sum_tree" where
  "list_tree = \<lparr>st_new = [],
     st_insert_or_replace = (\<lambda>n t. insort_key node_key n (filter (\<lambda>x. node_key x \<noteq> node_key n) t)),
     st_first = (\<lambda>t. case t of [] \<Rightarrow> None | x # _ \<Rightarrow> Some x),
     st_last = (\<lambda>t. case t of [] \<Rightarrow> None | xs \<Rightarrow> Some (last xs)),
     st_seek_left = (\<lambda>t n. (t, int (length (takeWhile (\<lambda>x. node_key x < node_key n) t)))),
     st_next = (\<lambda>(t, k). (t, k + 1)),
     st_prev = (\<lambda>(t, k). (t, k - 1)),
     st_item = (\<lambda>(t, k). if 0 \<le> k \<and> k < int (length t) then Some (t ! nat k) else None)\<rparr>"

lemma list_tree_ok: "sum_tree_ok list_tree (\<lambda>t. t) (\<lambda>c. c)"
  by (simp add: sum_tree_ok_def list_tree_def)

section \<open>The order that painting makes\<close>

fun op_path :: "int list \<Rightarrow> tab_operation \<Rightarrow> int list" where
  "op_path p (Tab_insert h) = p"
| "op_path p (Tab_group i) = p @ [i]"
| "op_path p Tab_group_end = butlast p"

text \<open>The nodes of a sequence of operations, in the order of insertion.\<close>

fun op_nodes :: "int list \<Rightarrow> nat \<Rightarrow> tab_operation list \<Rightarrow> tab_node list" where
  "op_nodes p k [] = []"
| "op_nodes p k (op # ops) = (case op of
       Tab_insert h \<Rightarrow> [\<lparr>tn_path = p @ [fh_tab_index h], tn_index = k, tn_stop = fh_tab_stop h\<rparr>]
     | _ \<Rightarrow> []) @ op_nodes (op_path p op) (Suc k) ops"

definition op_id :: "tab_operation \<Rightarrow> nat option" where
  "op_id op = map_option fh_id (operation_handle op)"

definition op_ids :: "tab_operation list \<Rightarrow> nat list" where
  "op_ids ops = List.map_filter op_id ops"

text \<open>The id of the handle a node was made for.\<close>

definition node_id :: "tab_operation list \<Rightarrow> tab_node \<Rightarrow> nat" where
  "node_id ops n = the (op_id (ops ! tn_index n))"

definition tab_order :: "tab_operation list \<Rightarrow> tab_node list" where
  "tab_order ops = sort_key node_key (op_nodes [] 0 ops)"

text \<open>The tab stops of a frame, in order.\<close>

definition tab_stops :: "tab_operation list \<Rightarrow> nat list" where
  "tab_stops ops = map (node_id ops) (filter tn_stop (tab_order ops))"

lemma op_nodes_append:
  "op_nodes p k (ops @ ops') = op_nodes p k ops @ op_nodes (foldl op_path p ops) (k + length ops) ops'"
  by (induction ops arbitrary: p k) simp_all

lemma op_ids_simps [simp]:
  "op_ids [] = []" "op_ids (Tab_insert h # ops) = fh_id h # op_ids ops" "op_ids (Tab_group i # ops) = op_ids ops"
  "op_ids (Tab_group_end # ops) = op_ids ops" "op_ids (ops @ ops') = op_ids ops @ op_ids ops'"
  by (simp_all add: op_ids_def op_id_def operation_handle_def List.map_filter_def)

lemma op_nodes_index:
  "n \<in> set (op_nodes p k ops) \<Longrightarrow> k \<le> tn_index n \<and> tn_index n < k + length ops \<and>
     (\<exists>h. ops ! (tn_index n - k) = Tab_insert h \<and> tn_stop n = fh_tab_stop h)"
proof (induction ops arbitrary: p k)
  case (Cons op ops)
  show ?case
  proof (cases "n \<in> set (op_nodes (op_path p op) (Suc k) ops)")
    case True
    from Cons.IH [OF this] show ?thesis by (auto simp: Suc_diff_le [symmetric] nth_Cons' Suc_diff_Suc)
  next
    case False
    with Cons.prems show ?thesis by (auto split: tab_operation.splits)
  qed
qed simp

lemma op_nodes_indices: "sorted_wrt (\<lambda>a b. tn_index a < tn_index b) (op_nodes p k ops)"
proof (induction ops arbitrary: p k)
  case (Cons op ops)
  have "k < tn_index n" if "n \<in> set (op_nodes (op_path p op) (Suc k) ops)" for n
    using op_nodes_index [OF that] by simp
  with Cons show ?case by (auto split: tab_operation.split)
qed simp

lemma op_nodes_distinct: "distinct (map node_key (op_nodes p k ops))"
proof -
  have "sorted_wrt (<) (map tn_index (op_nodes p k ops))"
    using op_nodes_indices [of p k ops] by (simp add: sorted_wrt_map)
  then have "distinct (map tn_index (op_nodes p k ops))" by (simp add: strict_sorted_iff)
  moreover have "map tn_index (op_nodes p k ops) = map snd (map node_key (op_nodes p k ops))"
    by (simp add: node_key_def)
  ultimately show ?thesis by (metis distinct_map)
qed

lemma insort_sort_snoc:
  assumes "distinct (map f (xs @ [x]))"
  shows "insort_key f x (sort_key f xs) = sort_key f (xs @ [x])"
proof (rule map_sorted_distinct_set_unique [of f])
  have "inj_on f (set (xs @ [x]))" using assms unfolding distinct_map by blast
  then show "inj_on f (set (insort_key f x (sort_key f xs)) \<union> set (sort_key f (xs @ [x])))"
    by (simp add: set_insort_key)
  show "distinct (map f (insort_key f x (sort_key f xs)))" "distinct (map f (sort_key f (xs @ [x])))"
  proof -
    have "mset (map f (insort_key f x (sort_key f xs))) = mset (map f (xs @ [x]))" by simp
    then show "distinct (map f (insort_key f x (sort_key f xs)))" using assms by (metis mset_eq_imp_distinct_iff)
    have "mset (map f (sort_key f (xs @ [x]))) = mset (map f (xs @ [x]))" by simp
    then show "distinct (map f (sort_key f (xs @ [x])))" using assms by (metis mset_eq_imp_distinct_iff)
  qed
qed (simp_all add: sorted_insort_key set_insort_key)

lemma tab_order_facts:
  "set (tab_order ops) = set (op_nodes [] 0 ops)" "sorted (map node_key (tab_order ops))"
  "distinct (map node_key (tab_order ops))"
proof -
  show "set (tab_order ops) = set (op_nodes [] 0 ops)" "sorted (map node_key (tab_order ops))"
    by (simp_all add: tab_order_def)
  have "mset (map node_key (tab_order ops)) = mset (map node_key (op_nodes [] 0 ops))"
    by (simp add: tab_order_def)
  then show "distinct (map node_key (tab_order ops))"
    using op_nodes_distinct [of "[]" 0 ops] by (metis mset_eq_imp_distinct_iff)
qed

section \<open>Replaying operations\<close>

definition alive :: "focus_map \<Rightarrow> nat \<Rightarrow> bool" where
  "alive fm i \<longleftrightarrow> (\<exists>n. focus_count fm i = Some (Suc n))"

lemma clone_alive:
  assumes "alive fm (fh_id h)"
  shows "\<exists>h' fm'. focus_handle_clone h fm = Some (h', fm') \<and> fh_id h' = fh_id h \<and> (\<forall>j. alive fm j \<longrightarrow> alive fm' j)"
proof -
  obtain n where n: "focus_count fm (fh_id h) = Some (Suc n)" using assms by (auto simp: alive_def)
  obtain t where t: "map_option snd (focus_handle_for_id (fh_id h) fm) = Some t"
    "\<forall>j. focus_count t j = (if j = fh_id h then Some (Suc (Suc n)) else focus_count fm j)"
    using focus_refs.clone_some [OF n] by blast
  then obtain h' where "focus_handle_for_id (fh_id h) fm = Some (h', t)" by auto
  moreover from this have "fh_id h' = fh_id h"
    by (auto simp: focus_handle_for_id_def split: option.splits if_splits)
  moreover have "\<forall>j. alive fm j \<longrightarrow> alive t j" using t(2) by (auto simp: alive_def)
  ultimately show ?thesis by (auto simp: focus_handle_clone_def)
qed

definition tab_map_ok :: "('t \<Rightarrow> tab_node list) \<Rightarrow> tab_operation list \<Rightarrow> 't tab_stop_map \<Rightarrow> bool" where
  "tab_map_ok items ops m \<longleftrightarrow> ts_current_path m = foldl op_path [] ops \<and> length (ts_history m) = length ops \<and>
     map op_id (ts_history m) = map op_id ops \<and> items (ts_order m) = tab_order ops \<and>
     (\<forall>i. ts_by_id m i = None \<longleftrightarrow> i \<notin> set (op_ids ops)) \<and>
     (\<forall>i n. ts_by_id m i = Some n \<longrightarrow> n \<in> set (tab_order ops) \<and> node_id ops n = i)"

lemma tab_replay_append: "tab_replay T (ops @ ops') s = Option.bind (tab_replay T ops s) (tab_replay T ops')"
proof (induction ops arbitrary: s)
  case (Cons op ops)
  then show ?case by (cases op) (simp_all split: bind_splits)
qed simp

lemma node_id_append: "tn_index n < length ops \<Longrightarrow> node_id (ops @ ops') n = node_id ops n"
  by (simp add: node_id_def nth_append)

lemma tab_order_index: "n \<in> set (tab_order ops) \<Longrightarrow> tn_index n < length ops"
  using op_nodes_index [of n "[]" 0 ops] by (simp add: tab_order_facts)

lemma tab_order_group:
  "tab_order (ops @ [Tab_group i]) = tab_order ops" "tab_order (ops @ [Tab_group_end]) = tab_order ops"
  by (simp_all add: tab_order_def op_nodes_append)

lemma tab_insert_ok:
  assumes T: "sum_tree_ok T items spot" and m: "tab_map_ok items ops m" and h: "alive fm (fh_id h)"
  shows "\<exists>fm' m'. tab_insert T h (fm, m) = Some (fm', m') \<and> tab_map_ok items (ops @ [Tab_insert h]) m' \<and>
    (\<forall>j. alive fm j \<longrightarrow> alive fm' j)"
proof -
  obtain h' fm' where c: "focus_handle_clone h fm = Some (h', fm')" "fh_id h' = fh_id h" "\<forall>j. alive fm j \<longrightarrow> alive fm' j"
    using clone_alive [OF h] by blast
  let ?n = "\<lparr>tn_path = foldl op_path [] ops @ [fh_tab_index h], tn_index = length ops, tn_stop = fh_tab_stop h\<rparr>"
  define m' where "m' = m\<lparr>ts_history := ts_history m @ [Tab_insert h'], ts_by_id := (ts_by_id m)(fh_id h \<mapsto> ?n),
      ts_order := st_insert_or_replace T ?n (ts_order m)\<rparr>"
  have ins: "tab_insert T h (fm, m) = Some (fm', m')"
    using c(1) m by (simp add: tab_insert_def m'_def tab_map_ok_def Let_def)
  have nodes: "op_nodes [] 0 (ops @ [Tab_insert h]) = op_nodes [] 0 ops @ [?n]" by (simp add: op_nodes_append)
  have "\<forall>x \<in> set (tab_order ops). node_key x \<noteq> node_key ?n"
    using tab_order_index [of _ ops] by (fastforce simp: node_key_def)
  then have "items (ts_order m') = insort_key node_key ?n (tab_order ops)"
    using T m by (simp add: sum_tree_ok_def tab_map_ok_def m'_def filter_id_conv)
  also have "\<dots> = tab_order (ops @ [Tab_insert h])"
    unfolding tab_order_def nodes using op_nodes_distinct [of "[]" 0 "ops @ [Tab_insert h]"] unfolding nodes
    by (rule insort_sort_snoc)
  finally have items: "items (ts_order m') = tab_order (ops @ [Tab_insert h])" .
  have set: "set (tab_order (ops @ [Tab_insert h])) = insert ?n (set (tab_order ops))"
    unfolding tab_order_facts(1) nodes by simp
  have by_id: "n \<in> set (tab_order (ops @ [Tab_insert h])) \<and> node_id (ops @ [Tab_insert h]) n = i"
    if "ts_by_id m' i = Some n" for i n
  proof (cases "i = fh_id h")
    case True
    with that have "n = ?n" by (simp add: m'_def)
    with True set show ?thesis by (simp add: node_id_def op_id_def operation_handle_def)
  next
    case False
    with that m have "n \<in> set (tab_order ops)" "node_id ops n = i" by (auto simp: m'_def tab_map_ok_def)
    with set tab_order_index show ?thesis by (simp add: node_id_append)
  qed
  have "tab_map_ok items (ops @ [Tab_insert h]) m'"
    unfolding tab_map_ok_def using m items by_id c(2)
    by (simp add: tab_map_ok_def m'_def op_id_def operation_handle_def)
  with ins c(3) show ?thesis by blast
qed

lemma tab_replay_ok:
  assumes T: "sum_tree_ok T items spot"
  shows "list_all (alive fm) (op_ids ops) \<Longrightarrow>
    \<exists>fm' m. tab_replay T ops (fm, tab_map_new T) = Some (fm', m) \<and> tab_map_ok items ops m \<and> (\<forall>j. alive fm j \<longrightarrow> alive fm' j)"
proof (induction ops rule: rev_induct)
  case Nil
  then show ?case using T by (simp add: tab_map_ok_def tab_map_new_def sum_tree_ok_def tab_order_def)
next
  case (snoc op ops)
  then obtain fm1 m1 where IH: "tab_replay T ops (fm, tab_map_new T) = Some (fm1, m1)" "tab_map_ok items ops m1"
    "\<forall>j. alive fm j \<longrightarrow> alive fm1 j" by auto
  show ?case
  proof (cases op)
    case (Tab_insert h)
    with snoc.prems IH(3) have "alive fm1 (fh_id h)" by simp
    from tab_insert_ok [OF T IH(2) this] Tab_insert IH(1,3) show ?thesis by (auto simp: tab_replay_append)
  next
    case (Tab_group i)
    have "tab_map_ok items (ops @ [Tab_group i]) (begin_group i m1)"
      using IH(2) tab_order_index node_id_append
      by (simp add: tab_map_ok_def begin_group_def tab_order_group op_id_def operation_handle_def)
    with Tab_group IH(1,3) show ?thesis by (simp add: tab_replay_append)
  next
    case Tab_group_end
    have "tab_map_ok items (ops @ [Tab_group_end]) (end_group m1)"
      using IH(2) tab_order_index node_id_append
      by (simp add: tab_map_ok_def end_group_def tab_order_group op_id_def operation_handle_def)
    with Tab_group_end IH(1,3) show ?thesis by (simp add: tab_replay_append)
  qed
qed

section \<open>Moving in the order\<close>

lemma find_filter: "List.find P xs = (case filter P xs of [] \<Rightarrow> None | x # _ \<Rightarrow> Some x)"
  by (induction xs) auto

lemma sum_tree_moves:
  assumes "sum_tree_ok T items spot" and "spot c = (xs, k)" and "0 \<le> k"
  shows "k < int (length xs) \<Longrightarrow> spot (st_next T c) = (xs, k + 1)"
    and "k \<le> int (length xs) \<Longrightarrow> spot (st_prev T c) = (xs, k - 1)"
  using assms by (simp_all add: sum_tree_ok_def)

lemma seek_stop_next:
  assumes T: "sum_tree_ok T items spot"
  shows "spot c = (xs, int k) \<Longrightarrow> seek_stop T (st_next T) c = Some (List.find tn_stop (drop k xs))"
proof (induction "length xs - k" arbitrary: c k)
  case 0
  then have "st_item T c = None" using T by (simp add: sum_tree_ok_def)
  with 0 show ?case by (subst seek_stop.simps) simp
next
  case (Suc l)
  then have k: "k < length xs" by simp
  then have item: "st_item T c = Some (xs ! k)" using T Suc.prems by (simp add: sum_tree_ok_def)
  have spot: "spot (st_next T c) = (xs, int k + 1)"
    using sum_tree_moves(1) [OF T Suc.prems] k by simp
  then have "spot (st_next T c) = (xs, int (Suc k))" by simp
  from Suc.hyps(1) [OF _ this] Suc.hyps(2)
  have IH: "seek_stop T (st_next T) (st_next T c) = Some (List.find tn_stop (drop (Suc k) xs))" by simp
  have "drop k xs = xs ! k # drop (Suc k) xs" using k by (rule Cons_nth_drop_Suc [symmetric])
  with item IH show ?case by (subst seek_stop.simps) simp
qed

lemma seek_stop_prev:
  assumes T: "sum_tree_ok T items spot"
  shows "spot c = (xs, int k - 1) \<Longrightarrow> k \<le> length xs \<Longrightarrow>
    seek_stop T (st_prev T) c = Some (List.find tn_stop (rev (take k xs)))"
proof (induction k arbitrary: c)
  case 0
  then have "st_item T c = None" using T by (simp add: sum_tree_ok_def)
  with 0 show ?case by (subst seek_stop.simps) simp
next
  case (Suc k)
  then have k: "k < length xs" and c: "spot c = (xs, int k)" by simp_all
  then have item: "st_item T c = Some (xs ! k)" using T by (simp add: sum_tree_ok_def)
  have "spot (st_prev T c) = (xs, int k - 1)"
    using sum_tree_moves(2) [OF T c] k by simp
  from Suc.IH [OF this] k
  have IH: "seek_stop T (st_prev T) (st_prev T c) = Some (List.find tn_stop (rev (take k xs)))" by simp
  have "rev (take (Suc k) xs) = xs ! k # rev (take k xs)" using k by (simp add: take_Suc_conv_app_nth)
  with item IH show ?case by (subst seek_stop.simps) simp
qed

text \<open>The neighbours of a node of the order.\<close>

lemma inner_neighbours:
  assumes T: "sum_tree_ok T items spot" and split: "items (ts_order m) = xs @ n # ys"
    and sorted: "sorted (map node_key (items (ts_order m)))" and dist: "distinct (map node_key (items (ts_order m)))"
  shows "next_inner T m n = Some (List.find tn_stop ys)" and "prev_inner T m n = Some (List.find tn_stop (rev xs))"
proof -
  have "\<forall>x \<in> set xs. node_key x < node_key n"
    using sorted dist unfolding split by (auto simp: sorted_append less_le) (metis imageI)
  then have "takeWhile (\<lambda>x. node_key x < node_key n) (items (ts_order m)) = xs"
    unfolding split by (simp add: takeWhile_all_append)
  then have seek: "spot (st_seek_left T (ts_order m) n) = (xs @ n # ys, int (length xs))"
    using T split by (simp add: sum_tree_ok_def)
  have "spot (st_next T (st_seek_left T (ts_order m) n)) = (xs @ n # ys, int (Suc (length xs)))"
    using sum_tree_moves(1) [OF T seek] by simp
  from seek_stop_next [OF T this] show "next_inner T m n = Some (List.find tn_stop ys)"
    by (simp add: next_inner_def)
  have "spot (st_prev T (st_seek_left T (ts_order m) n)) = (xs @ n # ys, int (length xs) - 1)"
    using sum_tree_moves(2) [OF T seek] by simp
  from seek_stop_prev [OF T this] show "prev_inner T m n = Some (List.find tn_stop (rev xs))"
    by (simp add: prev_inner_def)
qed

text \<open>The handle of a node of the order.\<close>

lemma handle_for_order_id:
  assumes m: "tab_map_ok items ops m" and n: "n \<in> set (tab_order ops)" and fm: "list_all (alive fm) (op_ids ops)"
  shows "\<exists>h fm'. focus_handle_for_order dbg fm m n = Some (Some h, fm') \<and> fh_id h = node_id ops n"
proof -
  have i: "tn_index n < length ops" using tab_order_index [OF n] .
  obtain h where h: "ops ! tn_index n = Tab_insert h"
    using op_nodes_index [of n "[]" 0 ops] n by (auto simp: tab_order_facts)
  have "op_id (ts_history m ! tn_index n) = op_id (ops ! tn_index n)"
    using m i unfolding tab_map_ok_def by (metis length_map nth_map)
  then obtain h' where h': "operation_handle (ts_history m ! tn_index n) = Some h'" "fh_id h' = fh_id h"
    by (auto simp: h op_id_def operation_handle_def split: tab_operation.splits)
  have "fh_id h \<in> set (op_ids ops)"
    using i h nth_mem [OF i] by (auto simp: op_ids_def in_set_map_filter op_id_def operation_handle_def intro!: bexI)
  then have "alive fm (fh_id h')" using fm h'(2) by (simp add: list_all_iff)
  from clone_alive [OF this] obtain h2 fm2 where "focus_handle_clone h' fm = Some (h2, fm2)" "fh_id h2 = fh_id h'" by blast
  then show ?thesis
    using m i h h' by (simp add: focus_handle_for_order_def tab_map_ok_def node_id_def op_id_def operation_handle_def)
qed

lemma from_start_item:
  assumes T: "sum_tree_ok T items spot" and m: "tab_map_ok items ops m"
  shows "tab_next_from_start dbg T fm m = handle_for_item dbg fm m (List.find tn_stop (tab_order ops))"
    and "tab_prev_from_end dbg T fm m = handle_for_item dbg fm m (List.find tn_stop (rev (tab_order ops)))"
proof -
  have items: "items (ts_order m) = tab_order ops" using m by (simp add: tab_map_ok_def)
  have first: "st_first T (ts_order m) = (case tab_order ops of [] \<Rightarrow> None | x # _ \<Rightarrow> Some x)"
    and final: "st_last T (ts_order m) = (case tab_order ops of [] \<Rightarrow> None | xs \<Rightarrow> Some (last xs))"
    using T by (simp_all add: sum_tree_ok_def items)
  note facts = tab_order_facts(2,3) [of ops]
  show "tab_next_from_start dbg T fm m = handle_for_item dbg fm m (List.find tn_stop (tab_order ops))"
  proof (cases "tab_order ops")
    case (Cons n ys)
    have "next_inner T m n = Some (List.find tn_stop ys)"
      by (rule inner_neighbours(1) [OF T, of m "[]"]) (use facts Cons in \<open>simp_all add: items\<close>)
    with first Cons show ?thesis by (simp add: tab_next_from_start_def handle_for_item_def)
  qed (simp add: tab_next_from_start_def handle_for_item_def first)
  show "tab_prev_from_end dbg T fm m = handle_for_item dbg fm m (List.find tn_stop (rev (tab_order ops)))"
  proof (cases "tab_order ops" rule: rev_cases)
    case (snoc xs n)
    have "prev_inner T m n = Some (List.find tn_stop (rev xs))"
      by (rule inner_neighbours(2) [OF T, of m _ _ "[]"]) (use facts snoc in \<open>simp_all add: items\<close>)
    moreover have "st_last T (ts_order m) = Some n" using final snoc by (cases xs) simp_all
    ultimately show ?thesis using snoc by (simp add: tab_prev_from_end_def handle_for_item_def)
  qed (simp add: tab_prev_from_end_def handle_for_item_def final)
qed

lemma by_id_item:
  assumes T: "sum_tree_ok T items spot" and m: "tab_map_ok items ops m" and i: "ts_by_id m i = Some n"
    and split: "tab_order ops = xs @ n # ys"
  shows "tab_next dbg T fm m (Some i) = handle_for_item dbg fm m
      (case List.find tn_stop ys of Some x \<Rightarrow> Some x | None \<Rightarrow> List.find tn_stop (tab_order ops))"
    and "tab_prev dbg T fm m (Some i) = handle_for_item dbg fm m
      (case List.find tn_stop (rev xs) of Some x \<Rightarrow> Some x | None \<Rightarrow> List.find tn_stop (rev (tab_order ops)))"
proof -
  have items: "items (ts_order m) = tab_order ops" using m by (simp add: tab_map_ok_def)
  note facts = tab_order_facts(2,3) [of ops]
  have "next_inner T m n = Some (List.find tn_stop ys)" "prev_inner T m n = Some (List.find tn_stop (rev xs))"
    using inner_neighbours [OF T, of m xs n ys] facts split by (simp_all add: items)
  then show "tab_next dbg T fm m (Some i) = handle_for_item dbg fm m
      (case List.find tn_stop ys of Some x \<Rightarrow> Some x | None \<Rightarrow> List.find tn_stop (tab_order ops))"
    "tab_prev dbg T fm m (Some i) = handle_for_item dbg fm m
      (case List.find tn_stop (rev xs) of Some x \<Rightarrow> Some x | None \<Rightarrow> List.find tn_stop (rev (tab_order ops)))"
    using i by (simp_all add: tab_next_def tab_prev_def from_start_item [OF T m] handle_for_item_def split: option.split)
qed

text \<open>With one insertion per handle, the node found by id is the node of the order.\<close>

lemma op_nodes_ids:
  assumes "n \<in> set (op_nodes p k ops)"
  shows "the (op_id (ops ! (tn_index n - k))) \<in> set (op_ids ops)"
proof -
  obtain h where h: "ops ! (tn_index n - k) = Tab_insert h" and i: "k \<le> tn_index n" "tn_index n < k + length ops"
    using op_nodes_index [OF assms] by blast
  then have "Tab_insert h \<in> set ops" using nth_mem [of "tn_index n - k" ops] by simp
  then show ?thesis unfolding h
    by (auto simp: op_ids_def in_set_map_filter op_id_def operation_handle_def intro!: bexI)
qed

lemma op_nodes_ids_distinct:
  "distinct (op_ids ops) \<Longrightarrow> distinct (map (\<lambda>n. the (op_id (ops ! (tn_index n - k)))) (op_nodes p k ops))"
proof (induction ops arbitrary: p k)
  case (Cons op ops)
  have shift: "tn_index n - k = Suc (tn_index n - Suc k)" if "n \<in> set (op_nodes (op_path p op) (Suc k) ops)" for n
  proof -
    have "Suc k \<le> tn_index n" using op_nodes_index [OF that] by blast
    then show ?thesis by arith
  qed
  then have same: "map (\<lambda>n. the (op_id ((op # ops) ! (tn_index n - k)))) (op_nodes (op_path p op) (Suc k) ops) =
      map (\<lambda>n. the (op_id (ops ! (tn_index n - Suc k)))) (op_nodes (op_path p op) (Suc k) ops)"
    by (intro map_cong) simp_all
  have "distinct (op_ids ops)" using Cons.prems by (cases op) simp_all
  note IH = Cons.IH [OF this, of "Suc k" "op_path p op"]
  show ?case
  proof (cases op)
    case (Tab_insert h)
    have "fh_id h \<noteq> the (op_id (ops ! (tn_index n - Suc k)))" if "n \<in> set (op_nodes p (Suc k) ops)" for n
      using op_nodes_ids [OF that] Cons.prems Tab_insert by auto
    then have out: "fh_id h \<notin> (\<lambda>n. the (op_id (ops ! (tn_index n - Suc k)))) ` set (op_nodes p (Suc k) ops)" by blast
    have eq: "map (\<lambda>n. the (op_id ((op # ops) ! (tn_index n - k)))) (op_nodes p k (op # ops)) =
        fh_id h # map (\<lambda>n. the (op_id (ops ! (tn_index n - Suc k)))) (op_nodes p (Suc k) ops)"
      using same by (simp add: Tab_insert op_id_def operation_handle_def)
    show ?thesis unfolding eq using IH Tab_insert out by simp
  next
    case (Tab_group i)
    then have "op_nodes p k (op # ops) = op_nodes (op_path p op) (Suc k) ops" by simp
    then show ?thesis using IH same by (simp only:)
  next
    case Tab_group_end
    then have "op_nodes p k (op # ops) = op_nodes (op_path p op) (Suc k) ops" by simp
    then show ?thesis using IH same by (simp only:)
  qed
qed simp

lemma node_id_inj:
  assumes "distinct (op_ids ops)"
  shows "inj_on (node_id ops) (set (tab_order ops))"
proof -
  have "distinct (map (node_id ops) (op_nodes [] 0 ops))"
    using op_nodes_ids_distinct [OF assms, of 0 "[]"] by (simp add: node_id_def [abs_def])
  then show ?thesis unfolding tab_order_facts(1) distinct_map by blast
qed

lemma by_id_node:
  assumes m: "tab_map_ok items ops m" and dist: "distinct (op_ids ops)" and n: "n \<in> set (tab_order ops)"
  shows "ts_by_id m (node_id ops n) = Some n"
proof -
  have "node_id ops n \<in> set (op_ids ops)"
    using op_nodes_ids [of n "[]" 0 ops] n by (simp add: tab_order_facts node_id_def)
  then obtain n' where n': "ts_by_id m (node_id ops n) = Some n'" using m by (auto simp: tab_map_ok_def)
  with m have "n' \<in> set (tab_order ops)" "node_id ops n' = node_id ops n" by (auto simp: tab_map_ok_def)
  with node_id_inj [OF dist] n have "n' = n" by (meson inj_onD)
  with n' show ?thesis by simp
qed

section \<open>Properties\<close>



lemma filter_nth_split:
  "i < length (filter P zs) \<Longrightarrow> \<exists>xs n ys. zs = xs @ n # ys \<and> P n \<and> n = filter P zs ! i \<and> i = length (filter P xs)"
proof (induction zs arbitrary: i)
  case (Cons z zs)
  show ?case
  proof (cases "P z \<and> i = 0")
    case True
    then show ?thesis by (intro exI [of _ "[]"] exI [of _ z] exI [of _ zs]) simp
  next
    case False
    let ?j = "if P z then i - 1 else i"
    from Cons.prems False have "?j < length (filter P zs)" by (auto split: if_splits)
    from Cons.IH [OF this] obtain xs n ys where "zs = xs @ n # ys" "P n" "n = filter P zs ! ?j" "?j = length (filter P xs)"
      by blast
    with False show ?thesis by (intro exI [of _ "z # xs"] exI [of _ n] exI [of _ ys]) (auto simp: nth_Cons' split: if_splits)
  qed
qed simp

text \<open>The next and the previous element that satisfies a predicate, in a cycle.\<close>

lemma find_after_cyclic:
  fixes P and xs ys :: "'a list" and n
  defines "s \<equiv> filter P (xs @ n # ys)"
  assumes "P n" and "i = length (filter P xs)"
  shows "(case List.find P ys of Some x \<Rightarrow> Some x | None \<Rightarrow> List.find P (xs @ n # ys)) = Some (s ! (Suc i mod length s))"
proof -
  have s: "s = filter P xs @ n # filter P ys" using assms(2) by (simp add: s_def)
  show ?thesis
  proof (cases "filter P ys")
    case Nil
    then have "Suc i mod length s = 0" by (simp add: s assms(3))
    moreover have "List.find P (xs @ n # ys) = Some (s ! 0)"
      unfolding find_filter s_def [symmetric] by (cases s) (simp_all add: s)
    ultimately show ?thesis using Nil by (simp add: find_filter [of _ ys])
  next
    case (Cons b bs)
    then have "Suc i mod length s = Suc i" by (simp add: s assms(3))
    then show ?thesis using Cons assms(3) by (simp add: find_filter [of _ ys] s nth_append)
  qed
qed

lemma find_before_cyclic:
  fixes P and xs ys :: "'a list" and n
  defines "s \<equiv> filter P (xs @ n # ys)"
  assumes "P n" and "i = length (filter P xs)"
  shows "(case List.find P (rev xs) of Some x \<Rightarrow> Some x | None \<Rightarrow> List.find P (rev (xs @ n # ys))) =
    Some (s ! ((i + length s - 1) mod length s))"
proof -
  have s: "s = filter P xs @ n # filter P ys" using assms(2) by (simp add: s_def)
  show ?thesis
  proof (cases "filter P xs" rule: rev_cases)
    case Nil
    then have "(i + length s - 1) mod length s = length s - 1" by (simp add: s assms(3))
    moreover have "List.find P (rev (xs @ n # ys)) = Some (s ! (length s - 1))"
      unfolding find_filter rev_filter [symmetric] s_def [symmetric]
      by (cases s rule: rev_cases) (simp_all add: s)
    ultimately show ?thesis using Nil by (simp add: find_filter [of _ "rev xs"] rev_filter [symmetric])
  next
    case (snoc bs b)
    then have "i + length s - 1 = length bs + length s" "length bs < length s" by (simp_all add: s assms(3))
    then have "(i + length s - 1) mod length s = length bs" by simp
    then show ?thesis using snoc by (simp add: find_filter [of _ "rev xs"] rev_filter [symmetric] s nth_append)
  qed
qed
text \<open>
  With every handle inserted once and alive, the tab key goes from each tab stop to the next one in
  the order and from the last to the first, and back the other way; so repeating it visits
  every tab stop.
\<close>

theorem tab_next_prev_cycle:
  assumes "sum_tree_ok T items spot" and "list_all (alive fm) (op_ids ops)" and "distinct (op_ids ops)"
    and "i < length (tab_stops ops)"
  shows "\<exists>fm' m h fm1 h' fm2. tab_replay T ops (fm, tab_map_new T) = Some (fm', m) \<and>
    tab_next debug_assertions T fm' m (Some (tab_stops ops ! i)) = Some (Some h, fm1) \<and>
    fh_id h = tab_stops ops ! (Suc i mod length (tab_stops ops)) \<and>
    tab_prev debug_assertions T fm' m (Some (tab_stops ops ! i)) = Some (Some h', fm2) \<and>
    fh_id h' = tab_stops ops ! ((i + length (tab_stops ops) - 1) mod length (tab_stops ops))"
proof -
  obtain fm' m where m: "tab_replay T ops (fm, tab_map_new T) = Some (fm', m)" "tab_map_ok items ops m"
    "\<forall>j. alive fm j \<longrightarrow> alive fm' j" using tab_replay_ok [OF assms(1,2)] by blast
  have fm': "list_all (alive fm') (op_ids ops)" using assms(2) m(3) by (simp add: list_all_iff)
  have "i < length (filter tn_stop (tab_order ops))" using assms(4) by (simp add: tab_stops_def)
  from filter_nth_split [OF this] obtain xs n ys where split: "tab_order ops = xs @ n # ys" "tn_stop n"
    "n = filter tn_stop (tab_order ops) ! i" "i = length (filter tn_stop xs)" by blast
  have id: "node_id ops n = tab_stops ops ! i" using assms(4) by (simp add: split(3) tab_stops_def)
  have "n \<in> set (tab_order ops)" using split(1) by simp
  from by_id_node [OF m(2) assms(3) this] have by_id: "ts_by_id m (tab_stops ops ! i) = Some n" by (simp add: id)
  let ?s = "filter tn_stop (tab_order ops)" and ?l = "length (tab_stops ops)"
  have len: "length ?s = ?l" "0 < ?l" using assms(4) by (auto simp: tab_stops_def)
  have item: "\<exists>h fm1. handle_for_item debug_assertions fm' m (Some (?s ! k)) = Some (Some h, fm1) \<and> fh_id h = tab_stops ops ! k"
    if "k < ?l" for k
  proof -
    have "?s ! k \<in> set (tab_order ops)" using that len nth_mem [of k ?s] by simp
    from handle_for_order_id [OF m(2) this fm', of debug_assertions] obtain h fm1 where
      "focus_handle_for_order debug_assertions fm' m (?s ! k) = Some (Some h, fm1)" "fh_id h = node_id ops (?s ! k)" by blast
    moreover have "node_id ops (?s ! k) = tab_stops ops ! k" using that by (simp add: tab_stops_def)
    ultimately show ?thesis unfolding handle_for_item_def option.case by metis
  qed
  have nxt: "(case List.find tn_stop ys of Some x \<Rightarrow> Some x | None \<Rightarrow> List.find tn_stop (tab_order ops)) = Some (?s ! (Suc i mod ?l))"
    using find_after_cyclic [OF split(2,4), of ys] unfolding split(1) [symmetric] len(1) .
  have prv: "(case List.find tn_stop (rev xs) of Some x \<Rightarrow> Some x | None \<Rightarrow> List.find tn_stop (rev (tab_order ops))) =
      Some (?s ! ((i + ?l - 1) mod ?l))"
    using find_before_cyclic [OF split(2,4), of ys] unfolding split(1) [symmetric] len(1) .
  have "Suc i mod ?l < ?l" "(i + ?l - 1) mod ?l < ?l" using len(2) by simp_all
  from item [OF this(1)] item [OF this(2)] obtain h fm1 h' fm2 where
    ids: "fh_id h = tab_stops ops ! (Suc i mod ?l)" "fh_id h' = tab_stops ops ! ((i + ?l - 1) mod ?l)"
    and "handle_for_item debug_assertions fm' m (Some (?s ! (Suc i mod ?l))) = Some (Some h, fm1)"
    "handle_for_item debug_assertions fm' m (Some (?s ! ((i + ?l - 1) mod ?l))) = Some (Some h', fm2)" by blast
  moreover have "tab_next debug_assertions T fm' m (Some (tab_stops ops ! i)) =
      handle_for_item debug_assertions fm' m (Some (?s ! (Suc i mod ?l)))"
    by (rule trans [OF by_id_item(1) [OF assms(1) m(2) by_id split(1)]]) (simp only: nxt)
  moreover have "tab_prev debug_assertions T fm' m (Some (tab_stops ops ! i)) =
      handle_for_item debug_assertions fm' m (Some (?s ! ((i + ?l - 1) mod ?l)))"
    by (rule trans [OF by_id_item(2) [OF assms(1) m(2) by_id split(1)]]) (simp only: prv)
  ultimately have "tab_next debug_assertions T fm' m (Some (tab_stops ops ! i)) = Some (Some h, fm1)"
    "tab_prev debug_assertions T fm' m (Some (tab_stops ops ! i)) = Some (Some h', fm2)"
    by (simp_all only:)
  with m(1) ids show ?thesis by blast
qed

lemma tab_next_prev_cycle_witness:
  "\<exists>fm' m h fm1. tab_replay list_tree [Tab_insert \<lparr>fh_id = 7, fh_tab_index = 1, fh_tab_stop = True\<rparr>]
     (Map.empty(7 \<mapsto> \<lparr>fr_ref_count = 1, fr_tab_index = 1, fr_tab_stop = True\<rparr>), tab_map_new list_tree) = Some (fm', m) \<and>
   tab_next True list_tree fm' m (Some 7) = Some (Some h, fm1) \<and> fh_id h = 7"
proof -
  let ?h = "\<lparr>fh_id = 7, fh_tab_index = 1, fh_tab_stop = True\<rparr>"
  let ?fm = "Map.empty(7 \<mapsto> \<lparr>fr_ref_count = 1, fr_tab_index = 1, fr_tab_stop = True\<rparr>)"
  have stops: "tab_stops [Tab_insert ?h] = [7]"
    by (simp add: tab_stops_def tab_order_def node_id_def op_id_def operation_handle_def)
  from tab_next_prev_cycle [OF list_tree_ok, of ?fm "[Tab_insert ?h]" 0 True] show ?thesis
    unfolding stops by (fastforce simp: alive_def focus_count_def)
qed

end
