(* ===== verification/Lengths.thy ===== *)
theory Lengths
  imports Geometry Complex_Main
begin

text \<open>
  Units of \<open>src/src/geometry.rs\<close>: logical, scaled and device pixels, rems, and the lengths that
  resolve to pixels against a parent size and the root font size.  \<open>Pixels\<close>, \<open>ScaledPixels\<close>
  and \<open>Rems\<close> wrap an \<open>f32\<close>; here they are elements of an ordered field, so scaling is
  exact.  Device pixels are integers: rounding is to the nearest, ties away from zero, and the
  cast to \<open>i32\<close> saturates.
\<close>

section \<open>Scaling\<close>

definition point_scale :: "'a::linordered_field \<Rightarrow> 'a point \<Rightarrow> 'a point" where
  "point_scale factor p = Point (pt_x p * factor) (pt_y p * factor)"

definition size_scale :: "'a::linordered_field \<Rightarrow> 'a size2 \<Rightarrow> 'a size2" where
  "size_scale factor s = Size (sz_width s * factor) (sz_height s * factor)"

definition bounds_scale :: "'a::linordered_field \<Rightarrow> 'a bounds \<Rightarrow> 'a bounds" where
  "bounds_scale factor b = Bounds (point_scale factor (bd_origin b)) (size_scale factor (bd_size b))"

definition edges_scale :: "'a::linordered_field \<Rightarrow> 'a edges \<Rightarrow> 'a edges" where
  "edges_scale factor e = Edges (e_top e * factor) (e_right e * factor) (e_bottom e * factor) (e_left e * factor)"

definition corners_scale :: "'a::linordered_field \<Rightarrow> 'a corners \<Rightarrow> 'a corners" where
  "corners_scale factor c = Corners (c_top_left c * factor) (c_top_right c * factor)
     (c_bottom_right c * factor) (c_bottom_left c * factor)"

definition point_div :: "'a::linordered_field point \<Rightarrow> 'a \<Rightarrow> 'a point" where
  "point_div p rhs = Point (pt_x p / rhs) (pt_y p / rhs)"

definition bounds_mul :: "'a::linordered_field bounds \<Rightarrow> 'a \<Rightarrow> 'a bounds" where
  "bounds_mul b rhs = Bounds (Point (pt_x (bd_origin b) * rhs) (pt_y (bd_origin b) * rhs))
     (Size (sz_width (bd_size b) * rhs) (sz_height (bd_size b) * rhs))"

definition half :: "'a::linordered_field \<Rightarrow> 'a" where
  "half x = x / 2"

text \<open>Scaling by a positive factor commutes with the operations on bounds.\<close>

lemma bounds_scale_corners:
  "bd_origin (bounds_scale f b) = point_scale f (bd_origin b)"
  "bottom_right (bounds_scale f b) = point_scale f (bottom_right b)"
  by (simp_all add: bounds_scale_def bottom_right_def point_scale_def size_scale_def distrib_right)

lemma point_scale_min_max:
  assumes "0 < f"
  shows "point_scale f (point_min p q) = point_min (point_scale f p) (point_scale f q)"
    and "point_scale f (point_max p q) = point_max (point_scale f p) (point_scale f q)"
  using assms by (simp_all add: point_scale_def point_min_def point_max_def)

lemma from_corners_scale: "bounds_scale f (from_corners p q) = from_corners (point_scale f p) (point_scale f q)"
  by (simp add: bounds_scale_def from_corners_def point_scale_def size_scale_def left_diff_distrib)

lemma bounds_scale_ops:
  assumes "0 < f"
  shows "bounds_scale f (bounds_intersect a b) = bounds_intersect (bounds_scale f a) (bounds_scale f b)"
    and "bounds_scale f (bounds_union a b) = bounds_union (bounds_scale f a) (bounds_scale f b)"
    and "bounds_is_empty (bounds_scale f a) = bounds_is_empty a"
proof -
  show "bounds_scale f (bounds_intersect a b) = bounds_intersect (bounds_scale f a) (bounds_scale f b)"
    "bounds_scale f (bounds_union a b) = bounds_union (bounds_scale f a) (bounds_scale f b)"
    unfolding bounds_intersect_def bounds_union_def from_corners_scale bounds_scale_corners
    by (simp_all add: point_scale_min_max [OF assms])
  show "bounds_is_empty (bounds_scale f a) = bounds_is_empty a"
    using assms by (auto simp: bounds_is_empty_def bounds_scale_def size_scale_def mult_le_0_iff)
qed

section \<open>Device pixels\<close>

definition round_away :: "'a::floor_ceiling \<Rightarrow> int" where
  "round_away x = (if 0 \<le> x then \<lfloor>x + 1 / 2\<rfloor> else - \<lfloor>1 / 2 - x\<rfloor>)"

definition as_i32 :: "int \<Rightarrow> int" where
  "as_i32 k = max (- (2 ^ 31)) (min (2 ^ 31 - 1) k)"

definition size_to_device_pixels :: "'a::floor_ceiling \<Rightarrow> 'a size2 \<Rightarrow> int size2" where
  "size_to_device_pixels factor s =
     Size (as_i32 (round_away (sz_width s * factor))) (as_i32 (round_away (sz_height s * factor)))"

definition size_to_pixels :: "'a::floor_ceiling \<Rightarrow> int size2 \<Rightarrow> 'a size2" where
  "size_to_pixels factor s = Size (of_int (sz_width s) / factor) (of_int (sz_height s) / factor)"

definition bounds_to_device_pixels :: "'a::floor_ceiling \<Rightarrow> 'a bounds \<Rightarrow> int bounds" where
  "bounds_to_device_pixels factor b =
     Bounds (Point (as_i32 (round_away (pt_x (bd_origin b) * factor))) (as_i32 (round_away (pt_y (bd_origin b) * factor))))
            (size_to_device_pixels factor (bd_size b))"

definition bounds_to_pixels :: "'a::floor_ceiling \<Rightarrow> int bounds \<Rightarrow> 'a bounds" where
  "bounds_to_pixels factor b =
     Bounds (Point (of_int (pt_x (bd_origin b)) / factor) (of_int (pt_y (bd_origin b)) / factor))
            (size_to_pixels factor (bd_size b))"

definition scaled_to_device :: "'a::floor_ceiling \<Rightarrow> int" where
  "scaled_to_device x = as_i32 \<lceil>x\<rceil>"

definition fits_i32 :: "int \<Rightarrow> bool" where
  "fits_i32 k \<longleftrightarrow> - (2 ^ 31) \<le> k \<and> k \<le> 2 ^ 31 - 1"

lemma as_i32_fits [simp]: "fits_i32 k \<Longrightarrow> as_i32 k = k" "fits_i32 (as_i32 k)"
  by (auto simp: as_i32_def fits_i32_def)

lemma round_away_of_int [simp]: "round_away (of_int k) = k"
proof -
  have "\<lfloor>of_int j + 1 / 2 :: 'a\<rfloor> = j" for j by (simp add: floor_eq_iff)
  from this [of k] this [of "- k"] show ?thesis by (simp add: round_away_def add.commute)
qed

lemma round_away_near: "\<bar>of_int (round_away x) - x\<bar> \<le> 1 / 2"
proof -
  have near: "\<bar>of_int \<lfloor>y + 1 / 2\<rfloor> - y\<bar> \<le> 1 / 2" for y :: 'a
    using of_int_floor_le [of "y + 1 / 2"] floor_less_iff [of "y + 1 / 2" "\<lfloor>y + 1 / 2\<rfloor> + 1"]
    unfolding abs_le_iff of_int_add of_int_1 by linarith
  show ?thesis
  proof (cases "0 \<le> x")
    case True
    then show ?thesis using near [of x] by (simp add: round_away_def)
  next
    case False
    then show ?thesis using near [of "- x"] by (simp add: round_away_def abs_minus_commute add.commute)
  qed
qed

definition int_fits :: "int bounds \<Rightarrow> bool" where
  "int_fits b \<longleftrightarrow> fits_i32 (pt_x (bd_origin b)) \<and> fits_i32 (pt_y (bd_origin b)) \<and>
     fits_i32 (sz_width (bd_size b)) \<and> fits_i32 (sz_height (bd_size b))"

text \<open>
  C35. Bounds in device pixels that fit \<open>i32\<close> survive the way to logical pixels and back, at any
  nonzero scale factor.
\<close>

theorem device_pixels_round_trip:
  assumes "factor \<noteq> 0" and "int_fits b"
  shows "bounds_to_device_pixels factor (bounds_to_pixels factor b) = b"
  using assms by (cases b; cases "bd_origin b"; cases "bd_size b")
    (simp add: bounds_to_device_pixels_def bounds_to_pixels_def size_to_device_pixels_def size_to_pixels_def int_fits_def)

lemma device_pixels_round_trip_witness:
  "bounds_to_device_pixels (3 / 2 :: rat) (bounds_to_pixels (3 / 2) (Bounds (Point (- 5) 7) (Size 11 13))) =
     Bounds (Point (- 5) 7) (Size 11 13)"
  by (rule device_pixels_round_trip) (simp_all add: int_fits_def fits_i32_def)

section \<open>Lengths\<close>

datatype 'a absolute_length = Px 'a | Rem 'a
datatype 'a definite_length = Absolute "'a absolute_length" | Fraction 'a
datatype 'a length2 = Definite "'a definite_length" | Auto

definition rems_to_pixels :: "'a::linordered_field \<Rightarrow> 'a \<Rightarrow> 'a" where
  "rems_to_pixels rems rem_size = rems * rem_size"

fun absolute_to_pixels :: "'a::linordered_field \<Rightarrow> 'a absolute_length \<Rightarrow> 'a" where
  "absolute_to_pixels rem_size (Px p) = p"
| "absolute_to_pixels rem_size (Rem r) = rems_to_pixels r rem_size"

fun absolute_to_rems :: "'a::linordered_field \<Rightarrow> 'a absolute_length \<Rightarrow> 'a" where
  "absolute_to_rems rem_size (Px p) = p / rem_size"
| "absolute_to_rems rem_size (Rem r) = r"

fun definite_to_pixels :: "'a::linordered_field absolute_length \<Rightarrow> 'a \<Rightarrow> 'a definite_length \<Rightarrow> 'a" where
  "definite_to_pixels base rem_size (Absolute s) = absolute_to_pixels rem_size s"
| "definite_to_pixels base rem_size (Fraction f) =
     (case base of Px p \<Rightarrow> p * f | Rem r \<Rightarrow> r * rem_size * f)"

fun absolute_is_zero :: "'a::linordered_field absolute_length \<Rightarrow> bool" where
  "absolute_is_zero (Px p) \<longleftrightarrow> p = 0"
| "absolute_is_zero (Rem r) \<longleftrightarrow> r = 0"

fun definite_is_zero :: "'a::linordered_field definite_length \<Rightarrow> bool" where
  "definite_is_zero (Absolute l) \<longleftrightarrow> absolute_is_zero l"
| "definite_is_zero (Fraction f) \<longleftrightarrow> f = 0"

fun length_is_zero :: "'a::linordered_field length2 \<Rightarrow> bool" where
  "length_is_zero (Definite l) \<longleftrightarrow> definite_is_zero l"
| "length_is_zero Auto \<longleftrightarrow> False"

definition edges_definite_to_pixels ::
    "'a::linordered_field absolute_length size2 \<Rightarrow> 'a \<Rightarrow> 'a definite_length edges \<Rightarrow> 'a edges" where
  "edges_definite_to_pixels parent rem_size e =
     Edges (definite_to_pixels (sz_height parent) rem_size (e_top e)) (definite_to_pixels (sz_width parent) rem_size (e_right e))
           (definite_to_pixels (sz_height parent) rem_size (e_bottom e)) (definite_to_pixels (sz_width parent) rem_size (e_left e))"

definition edges_absolute_to_pixels :: "'a::linordered_field \<Rightarrow> 'a absolute_length edges \<Rightarrow> 'a edges" where
  "edges_absolute_to_pixels rem_size e =
     Edges (absolute_to_pixels rem_size (e_top e)) (absolute_to_pixels rem_size (e_right e))
           (absolute_to_pixels rem_size (e_bottom e)) (absolute_to_pixels rem_size (e_left e))"

definition corners_to_pixels :: "'a::linordered_field \<Rightarrow> 'a absolute_length corners \<Rightarrow> 'a corners" where
  "corners_to_pixels rem_size c =
     Corners (absolute_to_pixels rem_size (c_top_left c)) (absolute_to_pixels rem_size (c_top_right c))
             (absolute_to_pixels rem_size (c_bottom_right c)) (absolute_to_pixels rem_size (c_bottom_left c))"

definition size_full :: "'a::linordered_field length2 size2" where
  "size_full = Size (Definite (Fraction 1)) (Definite (Fraction 1))"

definition size_auto :: "'a length2 size2" where
  "size_auto = Size Auto Auto"

definition edges_auto :: "'a length2 edges" where
  "edges_auto = Edges Auto Auto Auto Auto"

definition edges_length_zero :: "'a::linordered_field length2 edges" where
  "edges_length_zero = (let z = Definite (Absolute (Px 0)) in Edges z z z z)"

definition edges_definite_zero :: "'a::linordered_field definite_length edges" where
  "edges_definite_zero = (let z = Absolute (Px 0) in Edges z z z z)"

definition edges_absolute_zero :: "'a::linordered_field absolute_length edges" where
  "edges_absolute_zero = (let z = Px 0 in Edges z z z z)"

text \<open>A length in rems denotes the pixels it came from, and a zero length no pixels.\<close>

lemma rems_pixels_round_trip: "rem_size \<noteq> 0 \<Longrightarrow> rems_to_pixels (absolute_to_rems rem_size l) rem_size = absolute_to_pixels rem_size l"
  by (cases l) (simp_all add: rems_to_pixels_def)

lemma zero_length_pixels: "definite_is_zero l \<Longrightarrow> definite_to_pixels base rem_size l = 0"
  by (cases l rule: definite_is_zero.cases; cases base)
    (auto simp: rems_to_pixels_def elim!: absolute_is_zero.elims)

lemma edges_zero_pixels:
  "edges_definite_to_pixels parent rem_size edges_definite_zero = edges_all 0"
  "edges_absolute_to_pixels rem_size edges_absolute_zero = edges_all 0"
  by (simp_all add: edges_definite_to_pixels_def edges_absolute_to_pixels_def edges_definite_zero_def
      edges_absolute_zero_def Let_def edges_all_def)

section \<open>Zero tests\<close>

definition point_is_zero :: "('a \<Rightarrow> bool) \<Rightarrow> 'a point \<Rightarrow> bool" where
  "point_is_zero is_zero p \<longleftrightarrow> is_zero (pt_x p) \<and> is_zero (pt_y p)"

definition size_is_zero :: "('a \<Rightarrow> bool) \<Rightarrow> 'a size2 \<Rightarrow> bool" where
  "size_is_zero is_zero s \<longleftrightarrow> is_zero (sz_width s) \<or> is_zero (sz_height s)"

definition bounds_is_zero :: "('a \<Rightarrow> bool) \<Rightarrow> 'a bounds \<Rightarrow> bool" where
  "bounds_is_zero is_zero b \<longleftrightarrow> size_is_zero is_zero (bd_size b)"

definition corners_is_zero :: "('a \<Rightarrow> bool) \<Rightarrow> 'a corners \<Rightarrow> bool" where
  "corners_is_zero is_zero c \<longleftrightarrow> is_zero (c_top_left c) \<and> is_zero (c_top_right c) \<and>
     is_zero (c_bottom_right c) \<and> is_zero (c_bottom_left c)"

end
