(* ===== verification/Scene_Types.thy ===== *)
theory Scene_Types
  imports Lengths
begin

text \<open>
  What a scene is made of, from \<open>src/src/scene.rs\<close>: transformation matrices, content masks,
  paths of triangles, and the kinds of primitives.  Coordinates are elements of an ordered
  field.  Colors, backgrounds and images are values of the type \<open>'x\<close>, which the scene only
  carries along.  The padding fields of the structures are left out.
\<close>

section \<open>Transformations\<close>

record 'a transformation =
  tm_rotation_scale :: "('a \<times> 'a) \<times> ('a \<times> 'a)"
  tm_translation :: "'a \<times> 'a"

definition tm_unit :: "'a::linordered_field transformation" where
  "tm_unit = \<lparr>tm_rotation_scale = ((1, 0), (0, 1)), tm_translation = (0, 0)\<rparr>"

definition tm_compose :: "'a::linordered_field transformation \<Rightarrow> 'a transformation \<Rightarrow> 'a transformation" where
  "tm_compose s t =
     (if t = tm_unit then s
      else case (tm_rotation_scale s, tm_rotation_scale t, tm_translation s, tm_translation t) of
        (((s00, s01), (s10, s11)), ((t00, t01), (t10, t11)), (sx, sy), (tx, ty)) \<Rightarrow>
          \<lparr>tm_rotation_scale = ((s00 * t00 + s01 * t10, s00 * t01 + s01 * t11),
                                (s10 * t00 + s11 * t10, s10 * t01 + s11 * t11)),
           tm_translation = (sx + s00 * tx + s01 * ty, sy + s10 * tx + s11 * ty)\<rparr>)"

definition tm_translate :: "'a::linordered_field point \<Rightarrow> 'a transformation \<Rightarrow> 'a transformation" where
  "tm_translate p s = tm_compose s \<lparr>tm_rotation_scale = ((1, 0), (0, 1)), tm_translation = (pt_x p, pt_y p)\<rparr>"

text \<open>The sine and cosine of the angle are arguments.\<close>

definition tm_rotate :: "('r \<Rightarrow> 'a::linordered_field) \<Rightarrow> ('r \<Rightarrow> 'a) \<Rightarrow> 'r \<Rightarrow> 'a transformation \<Rightarrow> 'a transformation" where
  "tm_rotate sine cosine angle s =
     tm_compose s \<lparr>tm_rotation_scale = ((cosine angle, - sine angle), (sine angle, cosine angle)), tm_translation = (0, 0)\<rparr>"

definition tm_scale :: "'a::linordered_field size2 \<Rightarrow> 'a transformation \<Rightarrow> 'a transformation" where
  "tm_scale sz s =
     tm_compose s \<lparr>tm_rotation_scale = ((sz_width sz, 0), (0, sz_height sz)), tm_translation = (0, 0)\<rparr>"

definition tm_apply :: "'a::linordered_field transformation \<Rightarrow> 'a point \<Rightarrow> 'a point" where
  "tm_apply s p = (case (tm_rotation_scale s, tm_translation s) of
     (((s00, s01), (s10, s11)), (sx, sy)) \<Rightarrow>
       Point (sx + s00 * pt_x p + s01 * pt_y p) (sy + s10 * pt_x p + s11 * pt_y p))"

lemma tm_apply_unit [simp]: "tm_apply tm_unit p = p"
  by (simp add: tm_apply_def tm_unit_def)

lemma tm_apply_compose: "tm_apply (tm_compose s t) p = tm_apply s (tm_apply t p)"
proof (cases "t = tm_unit")
  case True
  then show ?thesis by (simp add: tm_compose_def)
next
  case False
  then show ?thesis
    by (simp add: tm_compose_def tm_apply_def case_prod_beta algebra_simps)
qed

section \<open>Masks and affine moves of bounds\<close>

record 'a content_mask =
  cm_bounds :: "'a bounds"

definition content_mask_default :: "'a::linordered_field content_mask" where
  "content_mask_default = \<lparr>cm_bounds = Bounds (Point 0 0) (Size 0 0)\<rparr>"

definition content_mask_scale :: "'a::linordered_field \<Rightarrow> 'a content_mask \<Rightarrow> 'a content_mask" where
  "content_mask_scale factor m = \<lparr>cm_bounds = bounds_scale factor (cm_bounds m)\<rparr>"

definition content_mask_intersect :: "'a::linordered_field content_mask \<Rightarrow> 'a content_mask \<Rightarrow> 'a content_mask" where
  "content_mask_intersect m other = \<lparr>cm_bounds = bounds_intersect (cm_bounds m) (cm_bounds other)\<rparr>"

definition transform_point :: "'a::linordered_field \<Rightarrow> 'a point \<Rightarrow> 'a point \<Rightarrow> 'a point" where
  "transform_point scale translation p =
     Point (pt_x p * scale + pt_x translation) (pt_y p * scale + pt_y translation)"

definition transform_bounds :: "'a::linordered_field \<Rightarrow> 'a point \<Rightarrow> 'a bounds \<Rightarrow> 'a bounds" where
  "transform_bounds scale translation b =
     Bounds (transform_point scale translation (bd_origin b))
            (Size (sz_width (bd_size b) * scale) (sz_height (bd_size b) * scale))"

definition transform_mask :: "'a::linordered_field \<Rightarrow> 'a point \<Rightarrow> 'a content_mask \<Rightarrow> 'a content_mask" where
  "transform_mask scale translation m = m\<lparr>cm_bounds := transform_bounds scale translation (cm_bounds m)\<rparr>"

definition conjugate :: "'a::linordered_field \<Rightarrow> 'a point \<Rightarrow> 'a transformation \<Rightarrow> 'a transformation" where
  "conjugate scale translation m =
     (let global = \<lparr>tm_rotation_scale = ((scale, 0), (0, scale)), tm_translation = (pt_x translation, pt_y translation)\<rparr>;
          inverse_scale = 1 / scale;
          inverse = \<lparr>tm_rotation_scale = ((inverse_scale, 0), (0, inverse_scale)),
                     tm_translation = (- pt_x translation * inverse_scale, - pt_y translation * inverse_scale)\<rparr>
      in tm_compose (tm_compose global m) inverse)"

text \<open>The conjugate does to a moved point what the matrix does to the point, moved.\<close>

lemma conjugate_apply:
  assumes "scale \<noteq> 0"
  shows "tm_apply (conjugate scale translation m) (transform_point scale translation p) =
    transform_point scale translation (tm_apply m p)"
  using assms by (simp add: conjugate_def Let_def tm_apply_compose)
    (simp add: tm_apply_def transform_point_def case_prod_beta field_simps)

section \<open>Paths\<close>

record 'a path_vertex =
  pv_xy :: "'a point"
  pv_st :: "'a point"
  pv_mask :: "'a content_mask"

record ('a, 'x) path =
  path_id :: nat
  path_order :: nat
  path_bounds :: "'a bounds"
  path_mask :: "'a content_mask"
  path_vertices :: "'a path_vertex list"
  path_color :: 'x
  path_start :: "'a point"
  path_current :: "'a point"
  path_contour_count :: nat

text \<open>\<open>Background::default()\<close> is an argument.\<close>

definition path_new :: "'x \<Rightarrow> 'a::linordered_field point \<Rightarrow> ('a, 'x) path" where
  "path_new default_color start =
     \<lparr>path_id = 0, path_order = 0, path_bounds = Bounds start (Size 0 0), path_mask = content_mask_default,
      path_vertices = [], path_color = default_color, path_start = start, path_current = start, path_contour_count = 0\<rparr>"

definition vertex_scale :: "'a::linordered_field \<Rightarrow> 'a path_vertex \<Rightarrow> 'a path_vertex" where
  "vertex_scale factor v = v\<lparr>pv_xy := point_scale factor (pv_xy v), pv_mask := content_mask_scale factor (pv_mask v)\<rparr>"

definition path_scale :: "'a::linordered_field \<Rightarrow> ('a, 'x) path \<Rightarrow> ('a, 'x) path" where
  "path_scale factor p =
     \<lparr>path_id = path_id p, path_order = path_order p, path_bounds = bounds_scale factor (path_bounds p),
      path_mask = content_mask_scale factor (path_mask p),
      path_vertices = map (vertex_scale factor) (path_vertices p), path_color = path_color p,
      path_start = point_map (\<lambda>x. x * factor) (path_start p), path_current = point_scale factor (path_current p),
      path_contour_count = path_contour_count p\<rparr>"

definition path_move_to :: "'a::linordered_field point \<Rightarrow> ('a, 'x) path \<Rightarrow> ('a, 'x) path" where
  "path_move_to to p = p\<lparr>path_contour_count := Suc (path_contour_count p), path_start := to, path_current := to\<rparr>"

definition push_triangle :: "'a::linordered_field point \<times> 'a point \<times> 'a point \<Rightarrow> 'a point \<times> 'a point \<times> 'a point \<Rightarrow>
    ('a, 'x) path \<Rightarrow> ('a, 'x) path" where
  "push_triangle xy st p = (case (xy, st) of ((a, b, c), (sa, sb, sc)) \<Rightarrow>
     p\<lparr>path_bounds := bounds_union (bounds_union (bounds_union (path_bounds p) (Bounds a (Size 0 0)))
                         (Bounds b (Size 0 0))) (Bounds c (Size 0 0)),
       path_vertices := path_vertices p @
         [\<lparr>pv_xy = a, pv_st = sa, pv_mask = content_mask_default\<rparr>,
          \<lparr>pv_xy = b, pv_st = sb, pv_mask = content_mask_default\<rparr>,
          \<lparr>pv_xy = c, pv_st = sc, pv_mask = content_mask_default\<rparr>]\<rparr>)"

definition filled :: "'a::linordered_field point" where
  "filled = Point 0 1"

definition path_line_to :: "'a::linordered_field point \<Rightarrow> ('a, 'x) path \<Rightarrow> ('a, 'x) path" where
  "path_line_to to p =
     (let p = p\<lparr>path_contour_count := Suc (path_contour_count p)\<rparr>;
          p = (if path_contour_count p > 1
               then push_triangle (path_start p, path_current p, to) (filled, filled, filled) p else p)
      in p\<lparr>path_current := to\<rparr>)"

definition path_curve_to :: "'a::linordered_field point \<Rightarrow> 'a point \<Rightarrow> ('a, 'x) path \<Rightarrow> ('a, 'x) path" where
  "path_curve_to to ctrl p =
     (let p = p\<lparr>path_contour_count := Suc (path_contour_count p)\<rparr>;
          p = (if path_contour_count p > 1
               then push_triangle (path_start p, path_current p, to) (filled, filled, filled) p else p);
          p = push_triangle (path_current p, ctrl, to) (Point 0 0, Point (1 / 2) 0, Point 1 1) p
      in p\<lparr>path_current := to\<rparr>)"

definition path_clipped_bounds :: "('a::linordered_field, 'x) path \<Rightarrow> 'a bounds" where
  "path_clipped_bounds p = bounds_intersect (path_bounds p) (cm_bounds (path_mask p))"

definition filled_triangles ::
    "'a::linordered_field point list \<Rightarrow> 'a \<Rightarrow> 'a content_mask \<Rightarrow> 'x \<Rightarrow> ('a, 'x) path option" where
  "filled_triangles vertices factor cmask color =
     (let vertices = take (length vertices - length vertices mod 3) vertices in
      case vertices of
        [] \<Rightarrow> None
      | first # _ \<Rightarrow>
          (let top_left = foldl point_min first vertices;
               bottom_right = foldl point_max first vertices;
               scaled = map (\<lambda>v. \<lparr>pv_xy = point_scale factor v, pv_st = filled, pv_mask = content_mask_default\<rparr>) vertices;
               start = point_scale factor first in
           Some \<lparr>path_id = 0, path_order = 0, path_bounds = bounds_scale factor (from_corners top_left bottom_right),
                 path_mask = content_mask_scale factor cmask, path_vertices = scaled, path_color = color,
                 path_start = start, path_current = start, path_contour_count = 0\<rparr>))"

text \<open>Pushing the triangles of a list of vertices one by one.\<close>

fun push_triangles :: "'a::linordered_field point list \<Rightarrow> ('a, 'x) path \<Rightarrow> ('a, 'x) path" where
  "push_triangles (a # b # c # vs) p = push_triangles vs (push_triangle (a, b, c) (filled, filled, filled) p)"
| "push_triangles _ p = p"

lemma bounds_union_point:
  "bounds_union (from_corners p q) (Bounds a (Size 0 0)) = from_corners (point_min p a) (point_max q a)"
  by (simp add: bounds_union_def bottom_right_def from_corners_def)

lemma content_mask_default_scale [simp]: "content_mask_scale factor content_mask_default = content_mask_default"
  by (simp add: content_mask_scale_def content_mask_default_def bounds_scale_def point_scale_def size_scale_def)

lemma vertex_scale_filled:
  "vertex_scale factor \<lparr>pv_xy = v, pv_st = st, pv_mask = content_mask_default\<rparr> =
     \<lparr>pv_xy = point_scale factor v, pv_st = st, pv_mask = content_mask_default\<rparr>"
  by (simp add: vertex_scale_def)

lemma push_triangles_eq:
  "length vs mod 3 = 0 \<Longrightarrow> path_bounds p = from_corners ul br \<Longrightarrow>
   push_triangles vs p =
     p\<lparr>path_bounds := from_corners (foldl point_min ul vs) (foldl point_max br vs),
       path_vertices := path_vertices p @ map (\<lambda>v. \<lparr>pv_xy = v, pv_st = filled, pv_mask = content_mask_default\<rparr>) vs\<rparr>"
proof (induction vs p arbitrary: ul br rule: push_triangles.induct)
  case (1 a b c vs p)
  let ?q = "push_triangle (a, b, c) (filled, filled, filled) p"
  have "path_bounds ?q = from_corners (point_min (point_min (point_min ul a) b) c) (point_max (point_max (point_max br a) b) c)"
    using 1(3) by (simp add: push_triangle_def bounds_union_point)
  moreover have "length vs mod 3 = 0" using 1(2) by simp
  ultimately have "push_triangles vs ?q =
     ?q\<lparr>path_bounds := from_corners (foldl point_min (point_min (point_min (point_min ul a) b) c) vs)
                                     (foldl point_max (point_max (point_max (point_max br a) b) c) vs),
       path_vertices := path_vertices ?q @ map (\<lambda>v. \<lparr>pv_xy = v, pv_st = filled, pv_mask = content_mask_default\<rparr>) vs\<rparr>"
    by (intro 1(1))
  then show ?case by (simp add: push_triangle_def)
qed (simp_all)

text \<open>
  C38. In exact arithmetic, the path made of triangles in one pass is the path that \<open>push_triangle\<close>
  builds from them, scaled; an incomplete last triangle is dropped, and there is no path without
  a triangle.
\<close>

theorem filled_triangles_push:
  "filled_triangles vertices factor cmask color =
    (let complete = take (length vertices - length vertices mod 3) vertices in
     if length vertices < 3 then None
     else Some (path_scale factor ((push_triangles complete (path_new color (hd vertices)))\<lparr>path_mask := cmask\<rparr>)))"
proof (cases "length vertices < 3")
  case True
  then have "length vertices mod 3 = length vertices" by simp
  with True show ?thesis by (simp add: filled_triangles_def)
next
  case False
  define vs where "vs = take (length vertices - length vertices mod 3) vertices"
  have "length vertices - length vertices mod 3 > 0" using False by (simp add: less_le_trans [OF mod_less_divisor])
  then have "hd vs = hd vertices" "vs \<noteq> []" using False unfolding vs_def by (auto simp: hd_take)
  then obtain ws where ws: "vs = hd vertices # ws" by (cases vs) simp_all
  have "length vs = length vertices - length vertices mod 3" by (simp add: vs_def)
  then have len: "length vs mod 3 = 0" by (simp add: minus_mod_eq_mult_div)
  let ?first = "hd vertices"
  have bounds: "path_bounds (path_new color ?first) = from_corners ?first ?first"
    by (simp add: path_new_def from_corners_def)
  note push = push_triangles_eq [OF len bounds]
  have "filled_triangles vertices factor cmask color = Some (path_scale factor ((push_triangles vs (path_new color ?first))\<lparr>path_mask := cmask\<rparr>))"
    unfolding push
    by (simp add: filled_triangles_def vs_def [symmetric] Let_def ws path_scale_def path_new_def
        vertex_scale_filled comp_def point_map_def point_scale_def)
  with False show ?thesis by (simp add: vs_def [symmetric] Let_def)
qed

end
