(* ===== verification/Scene.thy ===== *)
theory Scene
  imports Scene_Types Bounds_Tree "HOL-Library.Product_Lexorder"
begin

text \<open>
  The scene of a window, from \<open>src/src/scene.rs\<close>: primitives are clipped, given a drawing
  order by the layer stack or the bounds tree, and kept per kind; the log of paint operations
  is replayed into later scenes.  A panic (of the bounds tree, of a slice out of range or of
  \<open>unreachable!\<close>) is \<open>None\<close>.  What only carries data for the raster cache is of type \<open>'u\<close>; the
  fields of the feature \<open>frame-trace\<close> are left out.  Orders are natural numbers, with the
  greatest \<open>u32\<close> as \<open>max_draw_order\<close>.
\<close>

section \<open>Primitives\<close>

datatype border_style = Solid | Dashed

datatype atlas_texture_kind = Monochrome | Polychrome

record atlas_tile =
  at_texture_id :: "nat \<times> atlas_texture_kind"
  at_tile_id :: nat
  at_padding :: nat
  at_bounds :: "int bounds"

record ('a, 'x) shadow =
  shadow_order :: nat
  shadow_blur_radius :: 'a
  shadow_bounds :: "'a bounds"
  shadow_corner_radii :: "'a corners"
  shadow_mask :: "'a content_mask"
  shadow_color :: 'x
  shadow_transformation :: "'a transformation"

record ('a, 'x) quad =
  quad_order :: nat
  quad_border_style :: border_style
  quad_bounds :: "'a bounds"
  quad_mask :: "'a content_mask"
  quad_background :: 'x
  quad_border_color :: 'x
  quad_corner_radii :: "'a corners"
  quad_border_widths :: "'a edges"
  quad_transformation :: "'a transformation"

record ('a, 'x) underline =
  underline_order :: nat
  underline_bounds :: "'a bounds"
  underline_mask :: "'a content_mask"
  underline_color :: 'x
  underline_thickness :: 'a
  underline_wavy :: nat

record ('a, 'x) mono_sprite =
  mono_order :: nat
  mono_bounds :: "'a bounds"
  mono_mask :: "'a content_mask"
  mono_color :: 'x
  mono_tile :: atlas_tile
  mono_transformation :: "'a transformation"

record 'a poly_sprite =
  poly_order :: nat
  poly_grayscale :: bool
  poly_opacity :: 'a
  poly_bounds :: "'a bounds"
  poly_mask :: "'a content_mask"
  poly_corner_radii :: "'a corners"
  poly_tile :: atlas_tile
  poly_transformation :: "'a transformation"

record ('a, 'x) paint_surface =
  surface_order :: nat
  surface_bounds :: "'a bounds"
  surface_mask :: "'a content_mask"
  surface_image_buffer :: 'x

record 'a raster_tile =
  raster_tile_order :: nat
  raster_tile_bounds :: "'a bounds"
  raster_tile_mask :: "'a content_mask"
  raster_tile_cache_id :: nat
  raster_tile_key :: nat
  raster_tile_revision :: nat
  raster_tile_gutter :: nat

datatype ('a, 'x) primitive =
    P_shadow "('a, 'x) shadow"
  | P_quad "('a, 'x) quad"
  | P_path "('a, 'x) path"
  | P_underline "('a, 'x) underline"
  | P_mono "('a, 'x) mono_sprite"
  | P_poly "'a poly_sprite"
  | P_surface "('a, 'x) paint_surface"
  | P_raster_tile "'a raster_tile"

datatype ('a, 'x) paint_operation =
    Op_primitive "('a, 'x) primitive"
  | Start_layer "'a bounds"
  | End_layer

fun prim_bounds :: "('a, 'x) primitive \<Rightarrow> 'a bounds" where
  "prim_bounds (P_shadow p) = shadow_bounds p"
| "prim_bounds (P_quad p) = quad_bounds p"
| "prim_bounds (P_path p) = path_bounds p"
| "prim_bounds (P_underline p) = underline_bounds p"
| "prim_bounds (P_mono p) = mono_bounds p"
| "prim_bounds (P_poly p) = poly_bounds p"
| "prim_bounds (P_surface p) = surface_bounds p"
| "prim_bounds (P_raster_tile p) = raster_tile_bounds p"

fun prim_mask :: "('a, 'x) primitive \<Rightarrow> 'a content_mask" where
  "prim_mask (P_shadow p) = shadow_mask p"
| "prim_mask (P_quad p) = quad_mask p"
| "prim_mask (P_path p) = path_mask p"
| "prim_mask (P_underline p) = underline_mask p"
| "prim_mask (P_mono p) = mono_mask p"
| "prim_mask (P_poly p) = poly_mask p"
| "prim_mask (P_surface p) = surface_mask p"
| "prim_mask (P_raster_tile p) = raster_tile_mask p"

fun prim_order :: "('a, 'x) primitive \<Rightarrow> nat" where
  "prim_order (P_shadow p) = shadow_order p"
| "prim_order (P_quad p) = quad_order p"
| "prim_order (P_path p) = path_order p"
| "prim_order (P_underline p) = underline_order p"
| "prim_order (P_mono p) = mono_order p"
| "prim_order (P_poly p) = poly_order p"
| "prim_order (P_surface p) = surface_order p"
| "prim_order (P_raster_tile p) = raster_tile_order p"

fun prim_with_order :: "nat \<Rightarrow> ('a, 'x) primitive \<Rightarrow> ('a, 'x) primitive" where
  "prim_with_order order (P_shadow p) = P_shadow (p\<lparr>shadow_order := order\<rparr>)"
| "prim_with_order order (P_quad p) = P_quad (p\<lparr>quad_order := order\<rparr>)"
| "prim_with_order order (P_path p) = P_path (p\<lparr>path_order := order\<rparr>)"
| "prim_with_order order (P_underline p) = P_underline (p\<lparr>underline_order := order\<rparr>)"
| "prim_with_order order (P_mono p) = P_mono (p\<lparr>mono_order := order\<rparr>)"
| "prim_with_order order (P_poly p) = P_poly (p\<lparr>poly_order := order\<rparr>)"
| "prim_with_order order (P_surface p) = P_surface (p\<lparr>surface_order := order\<rparr>)"
| "prim_with_order order (P_raster_tile p) = P_raster_tile (p\<lparr>raster_tile_order := order\<rparr>)"

definition transform_corners :: "'a::linordered_field \<Rightarrow> 'a corners \<Rightarrow> 'a corners" where
  "transform_corners scale c = Corners (c_top_left c * scale) (c_top_right c * scale)
     (c_bottom_right c * scale) (c_bottom_left c * scale)"

definition transform_vertex :: "'a::linordered_field \<Rightarrow> 'a point \<Rightarrow> 'a path_vertex \<Rightarrow> 'a path_vertex" where
  "transform_vertex scale translation v =
     v\<lparr>pv_xy := transform_point scale translation (pv_xy v), pv_mask := transform_mask scale translation (pv_mask v)\<rparr>"

fun prim_transformed :: "'a::linordered_field \<Rightarrow> 'a point \<Rightarrow> ('a, 'x) primitive \<Rightarrow> ('a, 'x) primitive" where
  "prim_transformed scale translation (P_shadow p) = P_shadow
     (p\<lparr>shadow_bounds := transform_bounds scale translation (shadow_bounds p),
       shadow_blur_radius := shadow_blur_radius p * scale,
       shadow_corner_radii := transform_corners scale (shadow_corner_radii p),
       shadow_mask := transform_mask scale translation (shadow_mask p),
       shadow_transformation := conjugate scale translation (shadow_transformation p)\<rparr>)"
| "prim_transformed scale translation (P_quad p) = P_quad
     (p\<lparr>quad_bounds := transform_bounds scale translation (quad_bounds p),
       quad_mask := transform_mask scale translation (quad_mask p),
       quad_corner_radii := transform_corners scale (quad_corner_radii p),
       quad_border_widths := Edges (e_top (quad_border_widths p) * scale) (e_right (quad_border_widths p) * scale)
         (e_bottom (quad_border_widths p) * scale) (e_left (quad_border_widths p) * scale),
       quad_transformation := conjugate scale translation (quad_transformation p)\<rparr>)"
| "prim_transformed scale translation (P_path p) = P_path
     (p\<lparr>path_bounds := transform_bounds scale translation (path_bounds p),
       path_mask := transform_mask scale translation (path_mask p),
       path_start := transform_point scale translation (path_start p),
       path_current := transform_point scale translation (path_current p),
       path_vertices := map (transform_vertex scale translation) (path_vertices p)\<rparr>)"
| "prim_transformed scale translation (P_underline p) = P_underline
     (p\<lparr>underline_bounds := transform_bounds scale translation (underline_bounds p),
       underline_mask := transform_mask scale translation (underline_mask p),
       underline_thickness := underline_thickness p * scale\<rparr>)"
| "prim_transformed scale translation (P_mono p) = P_mono
     (p\<lparr>mono_bounds := transform_bounds scale translation (mono_bounds p),
       mono_mask := transform_mask scale translation (mono_mask p),
       mono_transformation := conjugate scale translation (mono_transformation p)\<rparr>)"
| "prim_transformed scale translation (P_poly p) = P_poly
     (p\<lparr>poly_bounds := transform_bounds scale translation (poly_bounds p),
       poly_mask := transform_mask scale translation (poly_mask p),
       poly_corner_radii := transform_corners scale (poly_corner_radii p),
       poly_transformation := conjugate scale translation (poly_transformation p)\<rparr>)"
| "prim_transformed scale translation (P_surface p) = P_surface
     (p\<lparr>surface_bounds := transform_bounds scale translation (surface_bounds p),
       surface_mask := transform_mask scale translation (surface_mask p)\<rparr>)"
| "prim_transformed scale translation (P_raster_tile p) = P_raster_tile
     (p\<lparr>raster_tile_bounds := transform_bounds scale translation (raster_tile_bounds p),
       raster_tile_mask := transform_mask scale translation (raster_tile_mask p)\<rparr>)"

section \<open>Scenes\<close>

record ('a, 'x, 'u) scene =
  sc_paint_operations :: "('a, 'x) paint_operation list"
  sc_primitive_bounds :: "'a bounds_tree"
  sc_layer_stack :: "nat list"
  sc_shadows :: "('a, 'x) shadow list"
  sc_quads :: "('a, 'x) quad list"
  sc_paths :: "('a, 'x) path list"
  sc_underlines :: "('a, 'x) underline list"
  sc_mono_sprites :: "('a, 'x) mono_sprite list"
  sc_poly_sprites :: "'a poly_sprite list"
  sc_surfaces :: "('a, 'x) paint_surface list"
  sc_raster_tiles :: "'a raster_tile list"
  sc_raster_tile_updates :: "'u list"
  sc_raster_tile_update_batches :: "'u list"
  sc_raster_compositor_surfaces :: "'u list"

definition scene_new :: "('a, 'x, 'u) scene" where
  "scene_new = \<lparr>sc_paint_operations = [], sc_primitive_bounds = bounds_tree_new, sc_layer_stack = [], sc_shadows = [],
     sc_quads = [], sc_paths = [], sc_underlines = [], sc_mono_sprites = [], sc_poly_sprites = [], sc_surfaces = [],
     sc_raster_tiles = [], sc_raster_tile_updates = [], sc_raster_tile_update_batches = [], sc_raster_compositor_surfaces = []\<rparr>"

definition scene_clear :: "('a, 'x, 'u) scene \<Rightarrow> ('a, 'x, 'u) scene" where
  "scene_clear sc = sc\<lparr>sc_paint_operations := [], sc_primitive_bounds := bounds_tree_clear (sc_primitive_bounds sc),
     sc_layer_stack := [], sc_paths := [], sc_shadows := [], sc_quads := [], sc_underlines := [], sc_mono_sprites := [],
     sc_poly_sprites := [], sc_surfaces := [], sc_raster_tiles := [], sc_raster_tile_updates := [], sc_raster_tile_update_batches := [],
     sc_raster_compositor_surfaces := []\<rparr>"

definition scene_len :: "('a, 'x, 'u) scene \<Rightarrow> nat" where
  "scene_len sc = length (sc_paint_operations sc)"

definition push_layer :: "'a::linordered_field bounds \<Rightarrow> ('a, 'x, 'u) scene \<Rightarrow> ('a, 'x, 'u) scene option" where
  "push_layer b sc = map_option (\<lambda>(order, tree).
     sc\<lparr>sc_primitive_bounds := tree, sc_layer_stack := sc_layer_stack sc @ [order],
        sc_paint_operations := sc_paint_operations sc @ [Start_layer b]\<rparr>)
     (bounds_tree_insert b (sc_primitive_bounds sc))"

definition pop_layer :: "('a, 'x, 'u) scene \<Rightarrow> ('a, 'x, 'u) scene" where
  "pop_layer sc = sc\<lparr>sc_layer_stack := butlast (sc_layer_stack sc),
     sc_paint_operations := sc_paint_operations sc @ [End_layer]\<rparr>"

definition clipped_bounds :: "('a::linordered_field, 'x) primitive \<Rightarrow> 'a bounds" where
  "clipped_bounds p = bounds_intersect (prim_bounds p) (cm_bounds (prim_mask p))"

text \<open>\<open>layer_stack.last().copied().unwrap_or_else(|| primitive_bounds.insert(..))\<close>\<close>

definition next_order :: "'a::linordered_field bounds \<Rightarrow> ('a, 'x, 'u) scene \<Rightarrow> (nat \<times> ('a, 'x, 'u) scene) option" where
  "next_order b sc =
     (if sc_layer_stack sc \<noteq> [] then Some (last (sc_layer_stack sc), sc)
      else map_option (\<lambda>(order, tree). (order, sc\<lparr>sc_primitive_bounds := tree\<rparr>))
             (bounds_tree_insert b (sc_primitive_bounds sc)))"

fun store_primitive :: "nat \<Rightarrow> ('a, 'x) primitive \<Rightarrow> ('a, 'x, 'u) scene \<Rightarrow> ('a, 'x) primitive \<times> ('a, 'x, 'u) scene" where
  "store_primitive order (P_shadow p) sc = (let p = p\<lparr>shadow_order := order\<rparr> in (P_shadow p, sc\<lparr>sc_shadows := sc_shadows sc @ [p]\<rparr>))"
| "store_primitive order (P_quad p) sc = (let p = p\<lparr>quad_order := order\<rparr> in (P_quad p, sc\<lparr>sc_quads := sc_quads sc @ [p]\<rparr>))"
| "store_primitive order (P_path p) sc = (let p = p\<lparr>path_order := order, path_id := length (sc_paths sc)\<rparr> in (P_path p, sc\<lparr>sc_paths := sc_paths sc @ [p]\<rparr>))"
| "store_primitive order (P_underline p) sc = (let p = p\<lparr>underline_order := order\<rparr> in (P_underline p, sc\<lparr>sc_underlines := sc_underlines sc @ [p]\<rparr>))"
| "store_primitive order (P_mono p) sc = (let p = p\<lparr>mono_order := order\<rparr> in (P_mono p, sc\<lparr>sc_mono_sprites := sc_mono_sprites sc @ [p]\<rparr>))"
| "store_primitive order (P_poly p) sc = (let p = p\<lparr>poly_order := order\<rparr> in (P_poly p, sc\<lparr>sc_poly_sprites := sc_poly_sprites sc @ [p]\<rparr>))"
| "store_primitive order (P_surface p) sc = (let p = p\<lparr>surface_order := order\<rparr> in (P_surface p, sc\<lparr>sc_surfaces := sc_surfaces sc @ [p]\<rparr>))"
| "store_primitive order (P_raster_tile p) sc = (let p = p\<lparr>raster_tile_order := order\<rparr> in (P_raster_tile p, sc\<lparr>sc_raster_tiles := sc_raster_tiles sc @ [p]\<rparr>))"

definition insert_primitive :: "('a::linordered_field, 'x) primitive \<Rightarrow> ('a, 'x, 'u) scene \<Rightarrow> ('a, 'x, 'u) scene option" where
  "insert_primitive p sc =
     (if bounds_is_empty (clipped_bounds p) then Some sc
      else map_option (\<lambda>(order, sc).
             (let (p, sc) = store_primitive order p sc
              in sc\<lparr>sc_paint_operations := sc_paint_operations sc @ [Op_primitive p]\<rparr>))
             (next_order (clipped_bounds p) sc))"

text \<open>A slice of the paint operations; a range that is not inside panics.\<close>

definition op_range :: "nat \<Rightarrow> nat \<Rightarrow> ('a, 'x, 'u) scene \<Rightarrow> ('a, 'x) paint_operation list option" where
  "op_range s e sc =
     (if s \<le> e \<and> e \<le> length (sc_paint_operations sc) then Some (drop s (take e (sc_paint_operations sc))) else None)"

fun replay_operations :: "('a::linordered_field, 'x) paint_operation list \<Rightarrow> ('a, 'x, 'u) scene \<Rightarrow> ('a, 'x, 'u) scene option" where
  "replay_operations [] sc = Some sc"
| "replay_operations (Op_primitive p # ops) sc = Option.bind (insert_primitive p sc) (replay_operations ops)"
| "replay_operations (Start_layer b # ops) sc = Option.bind (push_layer b sc) (replay_operations ops)"
| "replay_operations (End_layer # ops) sc = replay_operations ops (pop_layer sc)"

definition scene_replay :: "nat \<Rightarrow> nat \<Rightarrow> ('a::linordered_field, 'x, 'u) scene \<Rightarrow> ('a, 'x, 'u) scene \<Rightarrow> ('a, 'x, 'u) scene option" where
  "scene_replay s e prev sc = Option.bind (op_range s e prev) (\<lambda>ops. replay_operations ops sc)"

text \<open>The outer option is the panic of the slice, the inner one the result.\<close>

definition is_vector_op :: "('a, 'x) paint_operation \<Rightarrow> bool" where
  "is_vector_op op = (case op of Op_primitive (P_surface _) \<Rightarrow> False | Op_primitive (P_raster_tile _) \<Rightarrow> False | _ \<Rightarrow> True)"

definition clone_vector_paint :: "nat \<Rightarrow> nat \<Rightarrow> ('a, 'x, 'u) scene \<Rightarrow> ('a, 'x) paint_operation list option option" where
  "clone_vector_paint s e sc = map_option (\<lambda>ops. if list_all is_vector_op ops then Some ops else None) (op_range s e sc)"

definition is_text_op :: "('a, 'x) paint_operation \<Rightarrow> bool" where
  "is_text_op op = (case op of Op_primitive (P_mono _) \<Rightarrow> True | Op_primitive (P_poly _) \<Rightarrow> True
     | Op_primitive _ \<Rightarrow> False | _ \<Rightarrow> True)"

definition clone_text_paint :: "nat \<Rightarrow> nat \<Rightarrow> ('a, 'x, 'u) scene \<Rightarrow> ('a, 'x) paint_operation list option option" where
  "clone_text_paint s e sc = map_option (\<lambda>ops. if list_all is_text_op ops then Some ops else None) (op_range s e sc)"

fun replay_vector_transform :: "'a::linordered_field \<Rightarrow> 'a point \<Rightarrow> ('a, 'x) paint_operation list \<Rightarrow>
    ('a, 'x, 'u) scene \<Rightarrow> ('a, 'x, 'u) scene option" where
  "replay_vector_transform scale translation [] sc = Some sc"
| "replay_vector_transform scale translation (Op_primitive p # ops) sc =
     Option.bind (insert_primitive (prim_transformed scale translation p) sc) (replay_vector_transform scale translation ops)"
| "replay_vector_transform scale translation (Start_layer b # ops) sc =
     Option.bind (push_layer (transform_bounds scale translation b) sc) (replay_vector_transform scale translation ops)"
| "replay_vector_transform scale translation (End_layer # ops) sc =
     replay_vector_transform scale translation ops (pop_layer sc)"

definition max_draw_order :: nat where
  "max_draw_order = 2 ^ 32 - 1"

text \<open>Cached text is not logged; a layer that is clipped away gets the order above it, or the greatest.\<close>

definition cached_layer :: "'a::linordered_field point \<Rightarrow> 'a content_mask \<Rightarrow> 'a bounds \<Rightarrow> ('a, 'x, 'u) scene \<Rightarrow>
    ('a, 'x, 'u) scene option" where
  "cached_layer delta cmask b sc =
     (let clipped = bounds_intersect (bounds_add b delta) (cm_bounds cmask) in
      if bounds_is_empty clipped
      then Some (sc\<lparr>sc_layer_stack := sc_layer_stack sc @
                   [if sc_layer_stack sc \<noteq> [] then last (sc_layer_stack sc) else max_draw_order]\<rparr>)
      else map_option (\<lambda>(order, tree). sc\<lparr>sc_primitive_bounds := tree, sc_layer_stack := sc_layer_stack sc @ [order]\<rparr>)
             (bounds_tree_insert clipped (sc_primitive_bounds sc)))"

fun replay_cached_text :: "'a::linordered_field point \<Rightarrow> 'a content_mask \<Rightarrow> 'a transformation \<Rightarrow>
    ('a, 'x) paint_operation list \<Rightarrow> ('a, 'x, 'u) scene \<Rightarrow> ('a, 'x, 'u) scene option" where
  "replay_cached_text delta cmask tm [] sc = Some sc"
| "replay_cached_text delta cmask tm (op # ops) sc = Option.bind
     (case op of
        Start_layer b \<Rightarrow> cached_layer delta cmask b sc
      | End_layer \<Rightarrow> Some (sc\<lparr>sc_layer_stack := butlast (sc_layer_stack sc)\<rparr>)
      | Op_primitive (P_mono template) \<Rightarrow>
          (let sprite = template\<lparr>mono_bounds := bounds_add (mono_bounds template) delta, mono_mask := cmask,
                                mono_transformation := tm\<rparr> in
           map_option (\<lambda>(order, sc). sc\<lparr>sc_mono_sprites := sc_mono_sprites sc @ [sprite\<lparr>mono_order := order\<rparr>]\<rparr>)
             (next_order (mono_bounds sprite) sc))
      | Op_primitive (P_poly template) \<Rightarrow>
          (let sprite = template\<lparr>poly_bounds := bounds_add (poly_bounds template) delta, poly_mask := cmask,
                                poly_transformation := tm\<rparr> in
           map_option (\<lambda>(order, sc). sc\<lparr>sc_poly_sprites := sc_poly_sprites sc @ [sprite\<lparr>poly_order := order\<rparr>]\<rparr>)
             (next_order (poly_bounds sprite) sc))
      | Op_primitive _ \<Rightarrow> None)
     (replay_cached_text delta cmask tm ops)"

definition scene_finish :: "('a, 'x, 'u) scene \<Rightarrow> ('a, 'x, 'u) scene" where
  "scene_finish sc = sc\<lparr>sc_shadows := sort_key shadow_order (sc_shadows sc), sc_quads := sort_key quad_order (sc_quads sc),
     sc_paths := sort_key path_order (sc_paths sc), sc_underlines := sort_key underline_order (sc_underlines sc),
     sc_mono_sprites := sort_key (\<lambda>s. (mono_order s, at_tile_id (mono_tile s))) (sc_mono_sprites sc),
     sc_poly_sprites := sort_key (\<lambda>s. (poly_order s, at_tile_id (poly_tile s))) (sc_poly_sprites sc),
     sc_surfaces := sort_key surface_order (sc_surfaces sc),
     sc_raster_tiles := sort_key raster_tile_order (sc_raster_tiles sc)\<rparr>"

section \<open>Batches\<close>

datatype primitive_kind =
    Kind_shadow | Kind_quad | Kind_path | Kind_underline | Kind_mono | Kind_poly | Kind_surface | Kind_raster_tile

text \<open>The derived order is that of the declaration.\<close>

primrec kind_rank :: "primitive_kind \<Rightarrow> nat" where
  "kind_rank Kind_shadow = 0"
| "kind_rank Kind_quad = 1"
| "kind_rank Kind_path = 2"
| "kind_rank Kind_underline = 3"
| "kind_rank Kind_mono = 4"
| "kind_rank Kind_poly = 5"
| "kind_rank Kind_surface = 6"
| "kind_rank Kind_raster_tile = 7"

instantiation primitive_kind :: linorder
begin

definition "k \<le> l \<longleftrightarrow> kind_rank k \<le> kind_rank l"
definition "k < l \<longleftrightarrow> kind_rank k < kind_rank l"

instance
proof
  have "kind_rank k = kind_rank l \<Longrightarrow> k = l" for k l
    by (cases k; cases l) simp_all
  then show "k \<le> l \<Longrightarrow> l \<le> k \<Longrightarrow> k = l" for k l :: primitive_kind
    by (simp add: less_eq_primitive_kind_def)
qed (auto simp: less_eq_primitive_kind_def less_primitive_kind_def)

end

text \<open>
  The iterator holds, per kind, what it has not handed out; the slice of a batch is what it has
  taken from one of them.
\<close>

record ('a, 'x) batch_iterator =
  bi_shadows :: "('a, 'x) shadow list"
  bi_quads :: "('a, 'x) quad list"
  bi_paths :: "('a, 'x) path list"
  bi_underlines :: "('a, 'x) underline list"
  bi_mono_sprites :: "('a, 'x) mono_sprite list"
  bi_poly_sprites :: "'a poly_sprite list"
  bi_surfaces :: "('a, 'x) paint_surface list"
  bi_raster_tiles :: "'a raster_tile list"

datatype ('a, 'x) primitive_batch =
    Batch_shadows "('a, 'x) shadow list"
  | Batch_quads "('a, 'x) quad list"
  | Batch_paths "('a, 'x) path list"
  | Batch_underlines "('a, 'x) underline list"
  | Batch_mono "nat \<times> atlas_texture_kind" "('a, 'x) mono_sprite list"
  | Batch_poly "nat \<times> atlas_texture_kind" "'a poly_sprite list"
  | Batch_surfaces "('a, 'x) paint_surface list"
  | Batch_raster_tiles "'a raster_tile list"

definition scene_batches :: "('a, 'x, 'u) scene \<Rightarrow> ('a, 'x) batch_iterator" where
  "scene_batches sc = \<lparr>bi_shadows = sc_shadows sc, bi_quads = sc_quads sc, bi_paths = sc_paths sc,
     bi_underlines = sc_underlines sc, bi_mono_sprites = sc_mono_sprites sc, bi_poly_sprites = sc_poly_sprites sc,
     bi_surfaces = sc_surfaces sc, bi_raster_tiles = sc_raster_tiles sc\<rparr>"

definition peek_order :: "('b \<Rightarrow> nat) \<Rightarrow> 'b list \<Rightarrow> nat option" where
  "peek_order ord xs = (case xs of [] \<Rightarrow> None | x # _ \<Rightarrow> Some (ord x))"

definition order_or_max :: "nat option \<Rightarrow> nat" where
  "order_or_max order = (case order of None \<Rightarrow> max_draw_order | Some k \<Rightarrow> k)"

definition orders_and_kinds :: "('a, 'x) batch_iterator \<Rightarrow> (nat option \<times> primitive_kind) list" where
  "orders_and_kinds it = sort_key (\<lambda>(order, kind). (order_or_max order, kind))
     [(peek_order shadow_order (bi_shadows it), Kind_shadow), (peek_order quad_order (bi_quads it), Kind_quad),
      (peek_order path_order (bi_paths it), Kind_path), (peek_order underline_order (bi_underlines it), Kind_underline),
      (peek_order mono_order (bi_mono_sprites it), Kind_mono), (peek_order poly_order (bi_poly_sprites it), Kind_poly),
      (peek_order surface_order (bi_surfaces it), Kind_surface),
      (peek_order raster_tile_order (bi_raster_tiles it), Kind_raster_tile)]"

text \<open>Taking the first item and then those that satisfy \<open>P\<close>: what \<open>next\<close> and \<open>next_if\<close> do.\<close>

definition take_batch :: "('b \<Rightarrow> bool) \<Rightarrow> 'b list \<Rightarrow> 'b list \<times> 'b list" where
  "take_batch P xs = (case xs of [] \<Rightarrow> ([], []) | x # xs \<Rightarrow> (x # takeWhile P xs, dropWhile P xs))"

definition batch_next :: "('a, 'x) batch_iterator \<Rightarrow> (('a, 'x) primitive_batch \<times> ('a, 'x) batch_iterator) option" where
  "batch_next it =
     (let first = orders_and_kinds it ! 0; second = orders_and_kinds it ! 1;
          limit = (order_or_max (fst second), snd second); kind = snd first in
      if fst first = None then None
      else Some (case kind of
        Kind_shadow \<Rightarrow>
          (let (b, rest) = take_batch (\<lambda>p. (shadow_order p, kind) < limit) (bi_shadows it)
           in (Batch_shadows b, it\<lparr>bi_shadows := rest\<rparr>))
      | Kind_quad \<Rightarrow>
          (let (b, rest) = take_batch (\<lambda>p. (quad_order p, kind) < limit) (bi_quads it)
           in (Batch_quads b, it\<lparr>bi_quads := rest\<rparr>))
      | Kind_path \<Rightarrow>
          (let (b, rest) = take_batch (\<lambda>p. (path_order p, kind) < limit) (bi_paths it)
           in (Batch_paths b, it\<lparr>bi_paths := rest\<rparr>))
      | Kind_underline \<Rightarrow>
          (let (b, rest) = take_batch (\<lambda>p. (underline_order p, kind) < limit) (bi_underlines it)
           in (Batch_underlines b, it\<lparr>bi_underlines := rest\<rparr>))
      | Kind_mono \<Rightarrow>
          (let texture = at_texture_id (mono_tile (hd (bi_mono_sprites it)));
               (b, rest) = take_batch (\<lambda>p. (mono_order p, kind) < limit \<and> at_texture_id (mono_tile p) = texture)
                             (bi_mono_sprites it)
           in (Batch_mono texture b, it\<lparr>bi_mono_sprites := rest\<rparr>))
      | Kind_poly \<Rightarrow>
          (let texture = at_texture_id (poly_tile (hd (bi_poly_sprites it)));
               (b, rest) = take_batch (\<lambda>p. (poly_order p, kind) < limit \<and> at_texture_id (poly_tile p) = texture)
                             (bi_poly_sprites it)
           in (Batch_poly texture b, it\<lparr>bi_poly_sprites := rest\<rparr>))
      | Kind_surface \<Rightarrow>
          (let (b, rest) = take_batch (\<lambda>p. (surface_order p, kind) < limit) (bi_surfaces it)
           in (Batch_surfaces b, it\<lparr>bi_surfaces := rest\<rparr>))
      | Kind_raster_tile \<Rightarrow>
          (let (b, rest) = take_batch (\<lambda>p. (raster_tile_order p, kind) < limit) (bi_raster_tiles it)
           in (Batch_raster_tiles b, it\<lparr>bi_raster_tiles := rest\<rparr>))))"

end
