(* ===== verification/Scene_Batches.thy ===== *)
theory Scene_Batches
  imports Scene
begin

text \<open>
  The batches of a scene (\<open>BatchIterator\<close> of src/src/scene.rs): seen as eight sorted streams, the
  iterator ends, hands out every primitive once, and in the order of drawing.
\<close>

section \<open>One view of the eight streams\<close>

fun prim_kind :: "('a, 'x) primitive \<Rightarrow> primitive_kind" where
  "prim_kind (P_shadow p) = Kind_shadow"
| "prim_kind (P_quad p) = Kind_quad"
| "prim_kind (P_path p) = Kind_path"
| "prim_kind (P_underline p) = Kind_underline"
| "prim_kind (P_mono p) = Kind_mono"
| "prim_kind (P_poly p) = Kind_poly"
| "prim_kind (P_surface p) = Kind_surface"
| "prim_kind (P_raster_tile p) = Kind_raster_tile"

definition draw_key :: "('a, 'x) primitive \<Rightarrow> nat \<times> primitive_kind" where
  "draw_key p = (prim_order p, prim_kind p)"

fun stream :: "('a, 'x) batch_iterator \<Rightarrow> primitive_kind \<Rightarrow> ('a, 'x) primitive list" where
  "stream it Kind_shadow = map P_shadow (bi_shadows it)"
| "stream it Kind_quad = map P_quad (bi_quads it)"
| "stream it Kind_path = map P_path (bi_paths it)"
| "stream it Kind_underline = map P_underline (bi_underlines it)"
| "stream it Kind_mono = map P_mono (bi_mono_sprites it)"
| "stream it Kind_poly = map P_poly (bi_poly_sprites it)"
| "stream it Kind_surface = map P_surface (bi_surfaces it)"
| "stream it Kind_raster_tile = map P_raster_tile (bi_raster_tiles it)"

fun batch_items :: "('a, 'x) primitive_batch \<Rightarrow> ('a, 'x) primitive list" where
  "batch_items (Batch_shadows b) = map P_shadow b"
| "batch_items (Batch_quads b) = map P_quad b"
| "batch_items (Batch_paths b) = map P_path b"
| "batch_items (Batch_underlines b) = map P_underline b"
| "batch_items (Batch_mono t b) = map P_mono b"
| "batch_items (Batch_poly t b) = map P_poly b"
| "batch_items (Batch_surfaces b) = map P_surface b"
| "batch_items (Batch_raster_tiles b) = map P_raster_tile b"

definition all_kinds :: "primitive_kind list" where
  "all_kinds = [Kind_shadow, Kind_quad, Kind_path, Kind_underline, Kind_mono, Kind_poly, Kind_surface, Kind_raster_tile]"

lemma all_kinds_set [simp]: "set all_kinds = UNIV" "distinct all_kinds" "length all_kinds = 8"
proof -
  have "k \<in> set all_kinds" for k by (cases k) (simp_all add: all_kinds_def)
  then show "set all_kinds = UNIV" by blast
qed (simp_all add: all_kinds_def)

definition head_order :: "('a, 'x) batch_iterator \<Rightarrow> primitive_kind \<Rightarrow> nat option" where
  "head_order it k = peek_order prim_order (stream it k)"

definition head_key :: "('a, 'x) batch_iterator \<Rightarrow> primitive_kind \<Rightarrow> nat \<times> primitive_kind" where
  "head_key it k = (order_or_max (head_order it k), k)"

lemma peek_order_map: "peek_order f (map g xs) = peek_order (\<lambda>x. f (g x)) xs"
  by (cases xs) (simp_all add: peek_order_def)

lemma orders_and_kinds_heads:
  "orders_and_kinds it = sort_key (\<lambda>(order, kind). (order_or_max order, kind)) (map (\<lambda>k. (head_order it k, k)) all_kinds)"
  by (simp add: orders_and_kinds_def all_kinds_def head_order_def peek_order_map)

lemma stream_kind: "p \<in> set (stream it k) \<Longrightarrow> prim_kind p = k"
  by (cases k) auto

section \<open>One batch\<close>

lemma take_batch_facts:
  assumes "xs \<noteq> []" and "take_batch P xs = (b, rest)"
  shows "xs = b @ rest" "b \<noteq> []" "\<forall>x \<in> set (tl b). P x"
  using assms by (cases xs; auto simp: take_batch_def dest: set_takeWhileD)+

text \<open>The first entry has the least head, and no other head is below the second entry.\<close>

lemma first_and_second:
  obtains k1 k2 where "orders_and_kinds it ! 0 = (head_order it k1, k1)" "orders_and_kinds it ! 1 = (head_order it k2, k2)"
    "k1 \<noteq> k2" "\<And>k. head_key it k1 \<le> head_key it k" "\<And>k. k \<noteq> k1 \<Longrightarrow> head_key it k2 \<le> head_key it k"
proof -
  let ?f = "\<lambda>(order, kind). (order_or_max order, kind) :: nat \<times> primitive_kind"
  let ?L = "orders_and_kinds it"
  have mset: "mset ?L = mset (map (\<lambda>k. (head_order it k, k)) all_kinds)" by (simp add: orders_and_kinds_heads)
  then have len: "length ?L = 8" and set: "set ?L = (\<lambda>k. (head_order it k, k)) ` UNIV"
    by (metis all_kinds_set(3) length_map mset_eq_length, metis all_kinds_set(1) list.set_map mset_eq_setD)
  have "distinct (map (\<lambda>k. (head_order it k, k)) all_kinds)" by (simp add: distinct_map inj_on_def)
  with mset have dist: "distinct ?L" by (metis mset_eq_imp_distinct_iff)
  have sorted: "sorted (map ?f ?L)" by (simp add: orders_and_kinds_heads)
  obtain x y L where L: "?L = x # y # L" using len by (cases ?L; cases "tl ?L") auto
  obtain k1 k2 where k: "x = (head_order it k1, k1)" "y = (head_order it k2, k2)" 
  proof -
    have "x \<in> range (\<lambda>k. (head_order it k, k))" "y \<in> range (\<lambda>k. (head_order it k, k))"
      unfolding set [symmetric] L by simp_all
    then show ?thesis using that by blast
  qed
  have key: "?f (head_order it k, k) = head_key it k" for k by (simp add: head_key_def)
  have in_L: "(head_order it k, k) \<in> set (x # y # L)" for k using set L by auto
  have "head_key it k1 \<le> head_key it k" for k
    using in_L [of k] sorted unfolding L k by (auto simp: head_key_def)
  moreover have "head_key it k2 \<le> head_key it k" if "k \<noteq> k1" for k
    using in_L [of k] sorted that unfolding L k by (auto simp: head_key_def)
  moreover have "k1 \<noteq> k2" using dist unfolding L k by auto
  ultimately show ?thesis using that [of k1 k2] by (simp add: L k)
qed

text \<open>A batch is a prefix of the stream with the least head; after its first item come only items
  below every other head.\<close>

definition takes_batch :: "('a, 'x) batch_iterator \<Rightarrow> primitive_kind \<Rightarrow> nat \<times> primitive_kind \<Rightarrow>
    ('a, 'x) primitive_batch \<times> ('a, 'x) batch_iterator \<Rightarrow> bool" where
  "takes_batch it k limit r \<longleftrightarrow> (case r of (b, it') \<Rightarrow>
     (\<forall>j. j \<noteq> k \<longrightarrow> stream it' j = stream it j) \<and> stream it k = batch_items b @ stream it' k \<and>
     batch_items b \<noteq> [] \<and> (\<forall>p \<in> set (tl (batch_items b)). draw_key p < limit))"

lemma takes_batchI:
  assumes taken: "take_batch P xs = (b, rest)" and own: "stream it k = map C xs" "stream it k \<noteq> []"
    and limit: "\<And>x. P x \<Longrightarrow> draw_key (C x) < limit"
    and result: "batch_items bt = map C b" "stream it' k = map C rest" "\<And>j. j \<noteq> k \<Longrightarrow> stream it' j = stream it j"
  shows "takes_batch it k limit (bt, it')"
proof -
  have "xs \<noteq> []" using own by auto
  note facts = take_batch_facts [OF this taken]
  have "draw_key p < limit" if "p \<in> set (tl (batch_items bt))" for p
    using that facts(3) limit by (auto simp: result map_tl [symmetric])
  with facts result own show ?thesis by (simp add: takes_batch_def)
qed

text \<open>The arms of \<open>next\<close>, one kind each.\<close>

lemma take_shadow:
  assumes "stream it k \<noteq> []" and "k = Kind_shadow"
  shows "takes_batch it k limit (let (b, rest) = take_batch (\<lambda>p. (shadow_order p, k) < limit) (bi_shadows it)
    in (Batch_shadows b, it\<lparr>bi_shadows := rest\<rparr>))"
proof (cases "take_batch (\<lambda>p. (shadow_order p, k) < limit) (bi_shadows it)")
  case (Pair b rest)
  have "stream (it\<lparr>bi_shadows := rest\<rparr>) j = stream it j" if "j \<noteq> k" for j using that assms(2) by (cases j) simp_all
  with Pair show ?thesis
    using assms by (auto intro!: takes_batchI [where C = P_shadow] simp: draw_key_def)
qed

lemma take_quad:
  assumes "stream it k \<noteq> []" and "k = Kind_quad"
  shows "takes_batch it k limit (let (b, rest) = take_batch (\<lambda>p. (quad_order p, k) < limit) (bi_quads it)
    in (Batch_quads b, it\<lparr>bi_quads := rest\<rparr>))"
proof (cases "take_batch (\<lambda>p. (quad_order p, k) < limit) (bi_quads it)")
  case (Pair b rest)
  have "stream (it\<lparr>bi_quads := rest\<rparr>) j = stream it j" if "j \<noteq> k" for j using that assms(2) by (cases j) simp_all
  with Pair show ?thesis
    using assms by (auto intro!: takes_batchI [where C = P_quad] simp: draw_key_def)
qed

lemma take_path:
  assumes "stream it k \<noteq> []" and "k = Kind_path"
  shows "takes_batch it k limit (let (b, rest) = take_batch (\<lambda>p. (path_order p, k) < limit) (bi_paths it)
    in (Batch_paths b, it\<lparr>bi_paths := rest\<rparr>))"
proof (cases "take_batch (\<lambda>p. (path_order p, k) < limit) (bi_paths it)")
  case (Pair b rest)
  have "stream (it\<lparr>bi_paths := rest\<rparr>) j = stream it j" if "j \<noteq> k" for j using that assms(2) by (cases j) simp_all
  with Pair show ?thesis
    using assms by (auto intro!: takes_batchI [where C = P_path] simp: draw_key_def)
qed

lemma take_underline:
  assumes "stream it k \<noteq> []" and "k = Kind_underline"
  shows "takes_batch it k limit (let (b, rest) = take_batch (\<lambda>p. (underline_order p, k) < limit) (bi_underlines it)
    in (Batch_underlines b, it\<lparr>bi_underlines := rest\<rparr>))"
proof (cases "take_batch (\<lambda>p. (underline_order p, k) < limit) (bi_underlines it)")
  case (Pair b rest)
  have "stream (it\<lparr>bi_underlines := rest\<rparr>) j = stream it j" if "j \<noteq> k" for j using that assms(2) by (cases j) simp_all
  with Pair show ?thesis
    using assms by (auto intro!: takes_batchI [where C = P_underline] simp: draw_key_def)
qed

lemma take_mono:
  assumes "stream it k \<noteq> []" and "k = Kind_mono"
  shows "takes_batch it k limit (let (b, rest) = take_batch (\<lambda>p. (mono_order p, k) < limit \<and> at_texture_id (mono_tile p) = texture) (bi_mono_sprites it)
    in (Batch_mono texture b, it\<lparr>bi_mono_sprites := rest\<rparr>))"
proof (cases "take_batch (\<lambda>p. (mono_order p, k) < limit \<and> at_texture_id (mono_tile p) = texture) (bi_mono_sprites it)")
  case (Pair b rest)
  have "stream (it\<lparr>bi_mono_sprites := rest\<rparr>) j = stream it j" if "j \<noteq> k" for j using that assms(2) by (cases j) simp_all
  with Pair show ?thesis
    using assms by (auto intro!: takes_batchI [where C = P_mono] simp: draw_key_def)
qed

lemma take_poly:
  assumes "stream it k \<noteq> []" and "k = Kind_poly"
  shows "takes_batch it k limit (let (b, rest) = take_batch (\<lambda>p. (poly_order p, k) < limit \<and> at_texture_id (poly_tile p) = texture) (bi_poly_sprites it)
    in (Batch_poly texture b, it\<lparr>bi_poly_sprites := rest\<rparr>))"
proof (cases "take_batch (\<lambda>p. (poly_order p, k) < limit \<and> at_texture_id (poly_tile p) = texture) (bi_poly_sprites it)")
  case (Pair b rest)
  have "stream (it\<lparr>bi_poly_sprites := rest\<rparr>) j = stream it j" if "j \<noteq> k" for j using that assms(2) by (cases j) simp_all
  with Pair show ?thesis
    using assms by (auto intro!: takes_batchI [where C = P_poly] simp: draw_key_def)
qed

lemma take_surface:
  assumes "stream it k \<noteq> []" and "k = Kind_surface"
  shows "takes_batch it k limit (let (b, rest) = take_batch (\<lambda>p. (surface_order p, k) < limit) (bi_surfaces it)
    in (Batch_surfaces b, it\<lparr>bi_surfaces := rest\<rparr>))"
proof (cases "take_batch (\<lambda>p. (surface_order p, k) < limit) (bi_surfaces it)")
  case (Pair b rest)
  have "stream (it\<lparr>bi_surfaces := rest\<rparr>) j = stream it j" if "j \<noteq> k" for j using that assms(2) by (cases j) simp_all
  with Pair show ?thesis
    using assms by (auto intro!: takes_batchI [where C = P_surface] simp: draw_key_def)
qed

lemma take_raster_tile:
  assumes "stream it k \<noteq> []" and "k = Kind_raster_tile"
  shows "takes_batch it k limit (let (b, rest) = take_batch (\<lambda>p. (raster_tile_order p, k) < limit) (bi_raster_tiles it)
    in (Batch_raster_tiles b, it\<lparr>bi_raster_tiles := rest\<rparr>))"
proof (cases "take_batch (\<lambda>p. (raster_tile_order p, k) < limit) (bi_raster_tiles it)")
  case (Pair b rest)
  have "stream (it\<lparr>bi_raster_tiles := rest\<rparr>) j = stream it j" if "j \<noteq> k" for j using that assms(2) by (cases j) simp_all
  with Pair show ?thesis
    using assms by (auto intro!: takes_batchI [where C = P_raster_tile] simp: draw_key_def)
qed

lemmas take_kinds = take_shadow take_quad take_path take_underline take_surface take_raster_tile

lemma batch_next_cases:
  assumes first: "orders_and_kinds it ! 0 = (head_order it k1, k1)"
    and second: "orders_and_kinds it ! 1 = (head_order it k2, k2)"
  shows "batch_next it = None \<longleftrightarrow> stream it k1 = []"
    and "batch_next it = Some r \<Longrightarrow> takes_batch it k1 (head_key it k2) r"
proof -
  show "batch_next it = None \<longleftrightarrow> stream it k1 = []"
    unfolding batch_next_def Let_def first by (simp add: head_order_def peek_order_def split: list.split)
next
  assume r: "batch_next it = Some r"
  then have ne: "stream it k1 \<noteq> []"
    unfolding batch_next_def Let_def first by (auto simp: head_order_def peek_order_def split: if_splits)
  note r = r [unfolded batch_next_def first second Let_def fst_conv snd_conv head_key_def [symmetric]]
  show "takes_batch it k1 (head_key it k2) r"
    using r take_kinds [OF ne, where limit = "head_key it k2", unfolded Let_def]
      take_mono [OF ne, where limit = "head_key it k2" and texture = "at_texture_id (mono_tile (hd (bi_mono_sprites it)))"]
      take_poly [OF ne, where limit = "head_key it k2" and texture = "at_texture_id (poly_tile (hd (bi_poly_sprites it)))"]
    by (cases k1) (simp_all split: if_splits)
qed

lemma head_None [simp]: "head_order it k = None \<longleftrightarrow> stream it k = []"
  by (simp add: head_order_def peek_order_def split: list.split)

definition remaining :: "('a, 'x) batch_iterator \<Rightarrow> nat" where
  "remaining it = (\<Sum>k\<leftarrow>all_kinds. length (stream it k))"

lemma remaining_less:
  assumes "\<And>k. k \<noteq> k1 \<Longrightarrow> stream it' k = stream it k" and "length (stream it' k1) < length (stream it k1)"
  shows "remaining it' < remaining it"
proof -
  have sum: "remaining i = (\<Sum>k\<in>UNIV. length (stream i k))" for i :: "('a, 'x) batch_iterator"
    by (simp add: remaining_def sum_list_distinct_conv_sum_set)
  have "(\<Sum>k\<in>UNIV. length (stream it' k)) < (\<Sum>k\<in>UNIV. length (stream it k))"
  proof (rule sum_strict_mono_ex1)
    show "finite (UNIV :: primitive_kind set)" using all_kinds_set(1) by (metis List.finite_set)
    show "\<forall>k\<in>UNIV. length (stream it' k) \<le> length (stream it k)"
      using assms by (metis le_refl less_imp_le)
  qed (use assms(2) in blast)
  then show ?thesis by (simp add: sum)
qed

lemma batch_next_step:
  assumes "batch_next it = Some (b, it')"
  obtains k1 k2 where "takes_batch it k1 (head_key it k2) (b, it')" "k1 \<noteq> k2"
    "\<And>k. head_key it k1 \<le> head_key it k" "\<And>k. k \<noteq> k1 \<Longrightarrow> head_key it k2 \<le> head_key it k"
  using first_and_second [of it] batch_next_cases(2) [OF _ _ assms] by metis

lemma batch_next_remaining: "batch_next it = Some (b, it') \<Longrightarrow> remaining it' < remaining it"
proof -
  assume "batch_next it = Some (b, it')"
  then obtain k1 limit where "takes_batch it k1 limit (b, it')" by (rule batch_next_step)
  then show ?thesis by (intro remaining_less [of k1]) (auto simp: takes_batch_def)
qed

text \<open>Running the iterator to its end.\<close>

function all_batches :: "('a, 'x) batch_iterator \<Rightarrow> ('a, 'x) primitive_batch list" where
  "all_batches it = (case batch_next it of None \<Rightarrow> [] | Some (b, it') \<Rightarrow> b # all_batches it')"
  by pat_completeness auto
termination
  by (relation "measure remaining") (auto simp: batch_next_remaining)

declare all_batches.simps [simp del]

section \<open>All batches\<close>

definition drawn :: "('a, 'x) batch_iterator \<Rightarrow> ('a, 'x) primitive list" where
  "drawn it = concat (map batch_items (all_batches it))"

definition stream_items :: "('a, 'x) batch_iterator \<Rightarrow> ('a, 'x) primitive list" where
  "stream_items it = concat (map (stream it) all_kinds)"

definition streams_ok :: "('a, 'x) batch_iterator \<Rightarrow> bool" where
  "streams_ok it \<longleftrightarrow> (\<forall>k. sorted (map prim_order (stream it k)) \<and> (\<forall>p \<in> set (stream it k). prim_order p < max_draw_order))"

lemma mset_stream_items: "mset (stream_items it) = (\<Sum>k\<in>UNIV. mset (stream it k))"
proof -
  have "mset (stream_items it) = (\<Sum>k\<leftarrow>all_kinds. mset (stream it k))"
    by (simp add: stream_items_def mset_concat comp_def)
  also have "\<dots> = (\<Sum>k\<in>set all_kinds. mset (stream it k))"
    by (rule sum_list_distinct_conv_sum_set) simp
  finally show ?thesis by simp
qed

lemma head_key_le:
  assumes "streams_ok it" and "p \<in> set (stream it k)"
  shows "head_key it k \<le> draw_key p"
proof -
  have "sorted (map prim_order (stream it k))" using assms(1) by (simp add: streams_ok_def)
  with assms(2) have "order_or_max (head_order it k) \<le> prim_order p"
    by (cases "stream it k") (auto simp: head_order_def peek_order_def order_or_max_def)
  with stream_kind [OF assms(2)] show ?thesis by (simp add: head_key_def draw_key_def less_eq_prod_def)
qed

lemma sorted_same_kind: "sorted (map f xs) \<Longrightarrow> sorted (map (\<lambda>p. (f p :: nat, k :: primitive_kind)) xs)"
  by (induction xs) auto

lemma batch_next_streams:
  assumes ok: "streams_ok it" and next_eq: "batch_next it = Some (b, it')"
  shows "streams_ok it'" and "mset (stream_items it) = mset (batch_items b) + mset (stream_items it')"
    and "sorted (map draw_key (batch_items b))"
    and "\<forall>p \<in> set (batch_items b). \<forall>q \<in> set (stream_items it'). draw_key p \<le> draw_key q"
proof -
  obtain k1 k2 where step: "takes_batch it k1 (head_key it k2) (b, it')" and k: "k1 \<noteq> k2"
    "\<And>k. head_key it k1 \<le> head_key it k" "\<And>k. k \<noteq> k1 \<Longrightarrow> head_key it k2 \<le> head_key it k"
    using next_eq by (rule batch_next_step) blast
  have others: "stream it' k = stream it k" if "k \<noteq> k1" for k
    using step that by (simp add: takes_batch_def)
  have own: "stream it k1 = batch_items b @ stream it' k1" and ne: "batch_items b \<noteq> []"
    and limit: "\<forall>p \<in> set (tl (batch_items b)). draw_key p < head_key it k2"
    using step by (simp_all add: takes_batch_def)
  have sub: "set (stream it' k) \<subseteq> set (stream it k)" for k
    using own others by (cases "k = k1") auto
  have sorted_own: "sorted (map prim_order (batch_items b @ stream it' k1))"
    using ok unfolding own [symmetric] by (simp add: streams_ok_def)
  show ok': "streams_ok it'"
    unfolding streams_ok_def
  proof (intro allI conjI)
    fix k
    show "sorted (map prim_order (stream it' k))"
      using sorted_own ok others by (cases "k = k1") (simp_all add: sorted_append streams_ok_def)
    show "\<forall>p \<in> set (stream it' k). prim_order p < max_draw_order" using ok sub by (fastforce simp: streams_ok_def)
  qed
  have "(\<Sum>k\<in>UNIV. mset (stream it k)) = mset (batch_items b) + (\<Sum>k\<in>UNIV. mset (stream it' k))"
  proof -
    have fin: "finite (UNIV :: primitive_kind set)" using all_kinds_set(1) by (metis List.finite_set)
    have remove: "(\<Sum>k\<in>UNIV. mset (stream i k)) = mset (stream i k1) + (\<Sum>k\<in>UNIV - {k1}. mset (stream i k))"
      for i :: "('a, 'x) batch_iterator"
      using fin by (rule sum.remove) simp
    have rest: "(\<Sum>k\<in>UNIV - {k1}. mset (stream it' k)) = (\<Sum>k\<in>UNIV - {k1}. mset (stream it k))"
      using others by (intro sum.cong) auto
    show ?thesis by (simp only: remove [of it] remove [of it'] rest own mset_append add.assoc)
  qed
  then show "mset (stream_items it) = mset (batch_items b) + mset (stream_items it')"
    by (simp only: mset_stream_items)
  have kind: "prim_kind p = k1" if "p \<in> set (batch_items b)" for p
    using stream_kind [of p it k1] that own by simp
  have keys: "map draw_key (batch_items b) = map (\<lambda>p. (prim_order p, k1)) (batch_items b)"
    using kind by (simp add: draw_key_def)
  have "sorted (map prim_order (batch_items b))" using sorted_own by (simp add: sorted_append)
  then show "sorted (map draw_key (batch_items b))" unfolding keys by (rule sorted_same_kind)
  show "\<forall>p \<in> set (batch_items b). \<forall>q \<in> set (stream_items it'). draw_key p \<le> draw_key q"
  proof (intro ballI)
    fix p q assume p: "p \<in> set (batch_items b)" and "q \<in> set (stream_items it')"
    then obtain j where q: "q \<in> set (stream it' j)" by (auto simp: stream_items_def)
    show "draw_key p \<le> draw_key q"
    proof (cases "j = k1")
      case True
      then have "prim_order p \<le> prim_order q" using sorted_own p q by (simp add: sorted_append)
      moreover have "prim_kind q = k1" using stream_kind [of q it' j] q True by simp
      ultimately show ?thesis using kind [OF p] by (simp add: draw_key_def less_eq_prod_def) 
    next
      case False
      have "q \<in> set (stream it j)" using q sub by blast
      then have tail: "head_key it j \<le> draw_key q" by (rule head_key_le [OF ok])
      show ?thesis
      proof (cases "p = hd (batch_items b)")
        case True
        then have "draw_key p = head_key it k1"
          using kind [OF p] ne own by (cases "batch_items b") (auto simp: draw_key_def head_key_def head_order_def peek_order_def order_or_max_def)
        with k(2) [of j] tail show ?thesis by (metis order_trans)
      next
        case False
        with p ne have "p \<in> set (tl (batch_items b))" by (cases "batch_items b") auto
        then have "draw_key p < head_key it k2" using limit by blast
        with k(3) [OF \<open>j \<noteq> k1\<close>] tail show ?thesis by (metis less_imp_le order_trans)
      qed
    qed
  qed
qed

lemma batch_next_end:
  assumes "streams_ok it" and "batch_next it = None"
  shows "stream_items it = []"
proof -
  obtain k1 k2 where k: "orders_and_kinds it ! 0 = (head_order it k1, k1)" "orders_and_kinds it ! 1 = (head_order it k2, k2)"
    "\<And>k. head_key it k1 \<le> head_key it k"
    using first_and_second by metis
  then have "head_order it k1 = None" using batch_next_cases(1) [OF k(1,2)] assms(2) by simp
  then have "stream it k = []" for k
  proof -
    assume none: "head_order it k1 = None"
    have "(max_draw_order, k1) \<le> head_key it k" using k(3) [of k] none by (simp add: head_key_def order_or_max_def)
    then have "max_draw_order \<le> order_or_max (head_order it k)" by (auto simp: head_key_def less_eq_prod_def)
    moreover have "\<forall>p \<in> set (stream it k). prim_order p < max_draw_order" using assms(1) by (simp add: streams_ok_def)
    ultimately show ?thesis by (cases "stream it k") (simp_all add: head_order_def peek_order_def order_or_max_def)
  qed
  then show ?thesis by (simp add: stream_items_def)
qed

lemma drawn_sorted:
  "streams_ok it \<Longrightarrow> mset (drawn it) = mset (stream_items it) \<and> sorted (map draw_key (drawn it))"
proof (induction it rule: all_batches.induct)
  case (1 it)
  show ?case
  proof (cases "batch_next it")
    case None
    with batch_next_end [OF 1(2)] show ?thesis by (simp add: drawn_def all_batches.simps [of it])
  next
    case (Some r)
    obtain b it' where r: "r = (b, it')" by (cases r)
    note step = batch_next_streams [OF 1(2) Some [unfolded r]]
    have IH: "mset (drawn it') = mset (stream_items it')" "sorted (map draw_key (drawn it'))"
      using 1(1) [OF Some r [symmetric] step(1)] by simp_all
    have "drawn it = batch_items b @ drawn it'" by (simp add: drawn_def all_batches.simps [of it] Some r)
    moreover have "set (drawn it') = set (stream_items it')" using IH(1) by (rule mset_eq_setD)
    ultimately show ?thesis using IH step(2,3,4) by (auto simp: sorted_append)
  qed
qed

end
