(* ===== verification/Scene_Drawing.thy ===== *)
theory Scene_Drawing
  imports Scene_Batches
begin

text \<open>
  Painting a scene and drawing it (src/src/scene.rs): a sequence of paint operations never panics,
  the batches of the finished scene hand out what was painted, each primitive once and in draw
  order, and primitives that overlap and are painted without layers are drawn in paint order.
\<close>

section \<open>What was painted\<close>

definition painted :: "('a, 'x, 'u) scene \<Rightarrow> ('a, 'x) primitive list" where
  "painted sc = List.map_filter (\<lambda>op. case op of Op_primitive p \<Rightarrow> Some p | _ \<Rightarrow> None) (sc_paint_operations sc)"

text \<open>The primitive apart from what the scene fills in: the order, and the id of a path.\<close>

fun paint_of :: "('a, 'x) primitive \<Rightarrow> ('a, 'x) primitive" where
  "paint_of (P_path p) = P_path (p\<lparr>path_order := 0, path_id := 0\<rparr>)"
| "paint_of p = prim_with_order 0 p"

fun op_paint :: "('a::linordered_field, 'x) paint_operation \<Rightarrow> ('a, 'x) primitive list" where
  "op_paint (Op_primitive p) = (if bounds_is_empty (clipped_bounds p) then [] else [paint_of p])"
| "op_paint _ = []"

definition scene_drawn :: "('a, 'x, 'u) scene \<Rightarrow> ('a, 'x) primitive list" where
  "scene_drawn sc = drawn (scene_batches (scene_finish sc))"

lemma painted_simps [simp]:
  "painted scene_new = []" "sc_primitive_bounds scene_new = bounds_tree_new" "sc_layer_stack scene_new = []"
  "leaves_of (bt_nodes bounds_tree_new) = []"
  "painted (sc\<lparr>sc_primitive_bounds := t\<rparr>) = painted sc"
  "painted (sc\<lparr>sc_layer_stack := st, sc_paint_operations := sc_paint_operations sc @ [Start_layer b]\<rparr>) = painted sc"
  "painted (pop_layer sc) = painted sc"
  by (simp_all add: painted_def scene_new_def pop_layer_def bounds_tree_new_def leaves_of_def map_filter_append'
      List.map_filter_simps)

lemma store_primitive_facts:
  assumes "store_primitive order p sc = (q, sc')"
  shows "prim_order q = order" "prim_kind q = prim_kind p" "clipped_bounds q = clipped_bounds p" "paint_of q = paint_of p"
    "sc_paint_operations sc' = sc_paint_operations sc" "sc_primitive_bounds sc' = sc_primitive_bounds sc"
    "sc_layer_stack sc' = sc_layer_stack sc"
    "stream (scene_batches sc') k = stream (scene_batches sc) k @ (if k = prim_kind q then [q] else [])"
  using assms by (cases p; cases k; auto simp: Let_def clipped_bounds_def scene_batches_def)+

section \<open>Painting\<close>

text \<open>The scene after at most \<open>n\<close> operations.\<close>

definition paint_inv :: "nat \<Rightarrow> ('a::linordered_field, 'x, 'u) scene \<Rightarrow> bool" where
  "paint_inv n sc \<longleftrightarrow> bounds_tree_wf (sc_primitive_bounds sc) \<and>
     list_all (\<lambda>(b, k). k \<le> n) (leaves_of (bt_nodes (sc_primitive_bounds sc))) \<and>
     list_all (\<lambda>k. k \<le> n) (sc_layer_stack sc) \<and> list_all (\<lambda>p. prim_order p \<le> n) (painted sc) \<and>
     (\<forall>k. stream (scene_batches sc) k = filter (\<lambda>p. prim_kind p = k) (painted sc))"

lemma paint_inv_new: "paint_inv 0 (scene_new :: ('a::linordered_field, 'x, 'u) scene)"
proof -
  have "stream (scene_batches (scene_new :: ('a, 'x, 'u) scene)) k = []" for k
    by (cases k) (simp_all add: scene_batches_def scene_new_def)
  then show ?thesis by (simp add: paint_inv_def bounds_tree_wf_new)
qed

lemma paint_inv_mono: "paint_inv n sc \<Longrightarrow> n \<le> m \<Longrightarrow> paint_inv m sc"
  unfolding paint_inv_def by (fastforce simp: list_all_iff)

text \<open>An insertion into the bounds tree, with the leaf it adds.\<close>

lemma tree_step:
  assumes "bounds_tree_wf t" and "list_all (\<lambda>(b, k). k \<le> n) (leaves_of (bt_nodes t))"
  obtains t' where
    "bounds_tree_insert b t = Some (Suc (highest b (leaves_of (bt_nodes t))), t')" "bounds_tree_wf t'"
    "set (leaves_of (bt_nodes t')) = insert (b, Suc (highest b (leaves_of (bt_nodes t)))) (set (leaves_of (bt_nodes t)))"
    "Suc (highest b (leaves_of (bt_nodes t))) \<le> Suc n"
    "list_all (\<lambda>(b, k). k \<le> Suc n) (leaves_of (bt_nodes t'))"
proof -
  let ?L = "leaves_of (bt_nodes t)" and ?k = "Suc (highest b (leaves_of (bt_nodes t)))"
  obtain t' where t': "bounds_tree_insert b t = Some (?k, t')" "bounds_tree_wf t'"
    "mset (leaves_of (bt_nodes t')) = add_mset (b, ?k) (mset ?L)"
    using bounds_tree_insert_correct [OF assms(1)] by blast
  have leaves: "set (leaves_of (bt_nodes t')) = insert (b, ?k) (set ?L)"
    using t'(3) by (metis set_mset_add_mset_insert set_mset_mset)
  have k: "?k \<le> Suc n" using highest_bound [OF assms(2), of b] by simp
  have "list_all (\<lambda>(b, k). k \<le> Suc n) (leaves_of (bt_nodes t'))"
    using assms(2) k by (auto simp: list_all_iff leaves)
  with t'(1,2) leaves k show ?thesis using that by blast
qed

lemma push_layer_inv:
  assumes "paint_inv n sc"
  obtains sc' where "push_layer b sc = Some sc'" "paint_inv (Suc n) sc'" "painted sc' = painted sc"
proof -
  from assms have "bounds_tree_wf (sc_primitive_bounds sc)"
    "list_all (\<lambda>(b, k). k \<le> n) (leaves_of (bt_nodes (sc_primitive_bounds sc)))" by (simp_all add: paint_inv_def)
  then obtain k t' where t': "bounds_tree_insert b (sc_primitive_bounds sc) = Some (k, t')" "bounds_tree_wf t'" "k \<le> Suc n"
    "list_all (\<lambda>(b, k). k \<le> Suc n) (leaves_of (bt_nodes t'))"
    by (rule tree_step) blast
  let ?sc = "sc\<lparr>sc_primitive_bounds := t', sc_layer_stack := sc_layer_stack sc @ [k],
    sc_paint_operations := sc_paint_operations sc @ [Start_layer b]\<rparr>"
  have painted: "painted ?sc = painted sc" by (simp add: painted_def map_filter_append' List.map_filter_simps)
  have streams: "stream (scene_batches ?sc) j = stream (scene_batches sc) j" for j
    by (cases j) (simp_all add: scene_batches_def)
  have "paint_inv (Suc n) ?sc"
    using paint_inv_mono [OF assms, of "Suc n"] t' unfolding paint_inv_def painted streams by simp
  with t'(1) painted show ?thesis using that [of ?sc] by (simp add: push_layer_def)
qed

lemma pop_layer_inv: "paint_inv n sc \<Longrightarrow> paint_inv (Suc n) (pop_layer sc)"
proof -
  assume inv: "paint_inv n sc"
  have streams: "stream (scene_batches (pop_layer sc)) j = stream (scene_batches sc) j" for j
    by (cases j) (simp_all add: scene_batches_def pop_layer_def)
  have fields: "sc_primitive_bounds (pop_layer sc) = sc_primitive_bounds sc"
    "sc_layer_stack (pop_layer sc) = butlast (sc_layer_stack sc)" by (simp_all add: pop_layer_def)
  from paint_inv_mono [OF inv, of "Suc n"] show ?thesis
    unfolding paint_inv_def painted_simps streams fields by (auto simp: list_all_iff dest: in_set_butlastD)
qed

lemma next_order_inv:
  assumes "paint_inv n sc"
  obtains k sc' where "next_order b sc = Some (k, sc')" "paint_inv (Suc n) sc'" "k \<le> Suc n" "painted sc' = painted sc"
proof (cases "sc_layer_stack sc = []")
  case True
  from assms have "bounds_tree_wf (sc_primitive_bounds sc)"
    "list_all (\<lambda>(b, k). k \<le> n) (leaves_of (bt_nodes (sc_primitive_bounds sc)))" by (simp_all add: paint_inv_def)
  then obtain k t' where t': "bounds_tree_insert b (sc_primitive_bounds sc) = Some (k, t')" "bounds_tree_wf t'" "k \<le> Suc n"
    "list_all (\<lambda>(b, k). k \<le> Suc n) (leaves_of (bt_nodes t'))"
    by (rule tree_step) blast
  let ?sc = "sc\<lparr>sc_primitive_bounds := t'\<rparr>"
  have streams: "stream (scene_batches ?sc) j = stream (scene_batches sc) j" for j
    by (cases j) (simp_all add: scene_batches_def)
  have "paint_inv (Suc n) ?sc"
    using paint_inv_mono [OF assms, of "Suc n"] t' unfolding paint_inv_def painted_simps streams by simp
  with t'(1,3) True show ?thesis using that [of k ?sc] by (simp add: next_order_def)
next
  case False
  then have "last (sc_layer_stack sc) \<in> set (sc_layer_stack sc)" by simp
  with assms have "last (sc_layer_stack sc) \<le> n" by (auto simp: paint_inv_def list_all_iff)
  with False paint_inv_mono [OF assms, of "Suc n"] show ?thesis using that by (simp add: next_order_def)
qed

lemma log_primitive_inv:
  assumes "paint_inv n sc" and "k \<le> n" and "store_primitive k p sc = (q, sc')"
  defines "sc'' \<equiv> sc'\<lparr>sc_paint_operations := sc_paint_operations sc' @ [Op_primitive q]\<rparr>"
  shows "paint_inv n sc''" "painted sc'' = painted sc @ [q]"
proof -
  note facts = store_primitive_facts [OF assms(3)]
  show painted: "painted sc'' = painted sc @ [q]"
    by (simp add: painted_def sc''_def facts map_filter_append' List.map_filter_simps)
  have "stream (scene_batches sc'') j = stream (scene_batches sc') j" for j
    by (cases j) (simp_all add: scene_batches_def sc''_def)
  with assms(1,2) show "paint_inv n sc''"
    unfolding paint_inv_def painted by (simp add: sc''_def facts)
qed

lemma insert_primitive_inv:
  assumes "paint_inv n sc"
  obtains sc' where "insert_primitive p sc = Some sc'" "paint_inv (Suc n) sc'"
    "map paint_of (painted sc') = map paint_of (painted sc) @ op_paint (Op_primitive p)"
proof (cases "bounds_is_empty (clipped_bounds p)")
  case True
  with paint_inv_mono [OF assms, of "Suc n"] show ?thesis using that by (simp add: insert_primitive_def)
next
  case False
  obtain k sc1 where step: "next_order (clipped_bounds p) sc = Some (k, sc1)" "paint_inv (Suc n) sc1" "k \<le> Suc n"
    "painted sc1 = painted sc"
    using assms by (rule next_order_inv)
  obtain q sc2 where store: "store_primitive k p sc1 = (q, sc2)" by (cases "store_primitive k p sc1")
  note log = log_primitive_inv [OF step(2,3) store]
  show ?thesis
    using that [OF _ log(1)] False step log(2) store store_primitive_facts(4) [OF store]
    by (simp add: insert_primitive_def)
qed

lemma replay_operations_inv:
  "paint_inv n sc \<Longrightarrow> \<exists>sc'. replay_operations ops sc = Some sc' \<and> paint_inv (n + length ops) sc' \<and>
     map paint_of (painted sc') = map paint_of (painted sc) @ concat (map op_paint ops)"
proof (induction ops arbitrary: n sc)
  case (Cons op ops)
  show ?case
  proof (cases op)
    case (Op_primitive p)
    obtain sc1 where "insert_primitive p sc = Some sc1" "paint_inv (Suc n) sc1"
      "map paint_of (painted sc1) = map paint_of (painted sc) @ op_paint (Op_primitive p)"
      using Cons.prems by (rule insert_primitive_inv)
    with Cons.IH [of "Suc n" sc1] Op_primitive show ?thesis by simp
  next
    case (Start_layer b)
    obtain sc1 where "push_layer b sc = Some sc1" "paint_inv (Suc n) sc1" "painted sc1 = painted sc"
      using Cons.prems by (rule push_layer_inv)
    with Cons.IH [of "Suc n" sc1] Start_layer show ?thesis by simp
  next
    case End_layer
    with Cons.IH [OF pop_layer_inv [OF Cons.prems]] show ?thesis by simp
  qed
qed simp

section \<open>Finishing and drawing\<close>

lemma sorted_map_mono_fst: "sorted (map (\<lambda>s. (f s :: nat, g s :: nat)) xs) \<Longrightarrow> sorted (map f xs)"
  by (induction xs) auto

lemma finish_streams:
  "mset (stream (scene_batches (scene_finish sc)) k) = mset (stream (scene_batches sc) k)"
  "sorted (map prim_order (stream (scene_batches (scene_finish sc)) k))"
proof -
  show "mset (stream (scene_batches (scene_finish sc)) k) = mset (stream (scene_batches sc) k)"
    by (cases k) (simp_all add: scene_batches_def scene_finish_def)
  have pairs: "sorted (map f (sort_key (\<lambda>s. (f s :: nat, g s :: nat)) xs))" for f g and xs :: "'z list"
  proof -
    have "sorted (map (\<lambda>s. (f s, g s)) (sort_key (\<lambda>s. (f s, g s)) xs))" by simp
    then show ?thesis by (rule sorted_map_mono_fst)
  qed
  show "sorted (map prim_order (stream (scene_batches (scene_finish sc)) k))"
    by (cases k) (simp_all add: scene_batches_def scene_finish_def comp_def pairs)
qed

lemma mset_by_kind: "(\<Sum>k\<in>UNIV. mset (filter (\<lambda>p. prim_kind p = k) xs)) = mset xs"
proof (induction xs)
  case (Cons p xs)
  have fin: "finite (UNIV :: primitive_kind set)" using all_kinds_set(1) by (metis List.finite_set)
  have "(\<Sum>k\<in>UNIV. mset (filter (\<lambda>p. prim_kind p = k) (p # xs))) =
      (\<Sum>k\<in>UNIV. (if k = prim_kind p then {#p#} else {#}) + mset (filter (\<lambda>p. prim_kind p = k) xs))"
    by (intro sum.cong) auto
  also have "\<dots> = add_mset p (mset xs)" using fin by (simp only: sum.distrib Cons.IH) simp
  finally show ?case by simp
qed simp

lemma scene_drawn_painted:
  assumes "paint_inv n sc" and "n < max_draw_order"
  shows "mset (scene_drawn sc) = mset (painted sc)" "sorted (map draw_key (scene_drawn sc))"
proof -
  let ?it = "scene_batches (scene_finish sc)"
  have streams: "stream (scene_batches sc) k = filter (\<lambda>p. prim_kind p = k) (painted sc)" for k
    using assms(1) by (simp add: paint_inv_def)
  have "prim_order p < max_draw_order" if "p \<in> set (stream ?it k)" for p k
  proof -
    have "p \<in> set (painted sc)" using that streams mset_eq_setD [OF finish_streams(1) [of sc k]] by simp
    with assms show ?thesis by (auto simp: paint_inv_def list_all_iff)
  qed
  then have "streams_ok ?it" by (simp add: streams_ok_def finish_streams(2))
  from drawn_sorted [OF this] have drawn: "mset (scene_drawn sc) = mset (stream_items ?it)"
    "sorted (map draw_key (scene_drawn sc))" by (simp_all add: scene_drawn_def)
  have "mset (stream_items ?it) = (\<Sum>k\<in>UNIV. mset (filter (\<lambda>p. prim_kind p = k) (painted sc)))"
    by (simp add: mset_stream_items finish_streams(1) streams)
  also have "\<dots> = mset (painted sc)"
    by (rule mset_by_kind)
  finally show "mset (scene_drawn sc) = mset (painted sc)" using drawn(1) by simp
  show "sorted (map draw_key (scene_drawn sc))" by (rule drawn(2))
qed

text \<open>
  C9. Painting any sequence of primitives and layers into a new scene never panics; the scene has
  logged exactly the primitives that are not clipped away, in paint order and up to the order and path
  id the scene fills in. When there are fewer than \<open>u32::MAX\<close> operations, the batches of the finished
  scene hand out each logged primitive exactly once, in ascending order of draw order and kind.
\<close>

theorem scene_draws_what_was_painted:
  assumes "length ops < max_draw_order"
  shows "\<exists>sc :: ('a::linordered_field, 'x, 'u) scene. replay_operations ops scene_new = Some sc \<and>
    map paint_of (painted sc) = concat (map op_paint ops) \<and>
    mset (scene_drawn sc) = mset (painted sc) \<and> sorted (map draw_key (scene_drawn sc))"
proof -
  obtain sc :: "('a, 'x, 'u) scene" where sc: "replay_operations ops scene_new = Some sc" "paint_inv (length ops) sc"
    "map paint_of (painted sc) = concat (map op_paint ops)"
    using replay_operations_inv [OF paint_inv_new, of ops] by auto
  with scene_drawn_painted [OF sc(2) assms] show ?thesis by blast
qed

definition unit_surface :: "(rat, unit) primitive" where
  "unit_surface = P_surface \<lparr>surface_order = 7, surface_bounds = Bounds (Point 0 0) (Size 1 1),
     surface_mask = \<lparr>cm_bounds = Bounds (Point 0 0) (Size 2 2)\<rparr>, surface_image_buffer = ()\<rparr>"

lemma scene_draws_what_was_painted_witness:
  "\<exists>sc :: (rat, unit, unit) scene. replay_operations [Start_layer (Bounds (Point 0 0) (Size 1 1)), Op_primitive unit_surface, End_layer] scene_new = Some sc \<and>
     map paint_of (painted sc) = [prim_with_order 0 unit_surface] \<and> length (scene_drawn sc) = 1"
proof -
  let ?ops = "[Start_layer (Bounds (Point 0 0) (Size 1 1)), Op_primitive unit_surface, End_layer]"
  have few: "length ?ops < max_draw_order" by (simp add: max_draw_order_def)
  have paint: "concat (map op_paint ?ops) = [prim_with_order 0 unit_surface]"
    by (simp add: unit_surface_def clipped_bounds_def bounds_intersect_def bounds_is_empty_def from_corners_def
        point_max_def point_min_def bottom_right_def)
  obtain sc :: "(rat, unit, unit) scene" where sc: "replay_operations ?ops scene_new = Some sc"
    "map paint_of (painted sc) = concat (map op_paint ?ops)" "mset (scene_drawn sc) = mset (painted sc)"
    using scene_draws_what_was_painted [OF few] by blast
  have "length (scene_drawn sc) = length (map paint_of (painted sc))" using sc(3) by (metis length_map mset_eq_length)
  with sc paint show ?thesis by auto
qed

section \<open>The painter's order\<close>

definition painter_inv :: "('a::linordered_field, 'x, 'u) scene \<Rightarrow> bool" where
  "painter_inv sc \<longleftrightarrow> sc_layer_stack sc = [] \<and> bounds_tree_wf (sc_primitive_bounds sc) \<and>
     set (leaves_of (bt_nodes (sc_primitive_bounds sc))) = (\<lambda>p. (clipped_bounds p, prim_order p)) ` set (painted sc) \<and>
     sorted_wrt (\<lambda>p q. \<not> (intersects (clipped_bounds p) (clipped_bounds q) \<and> prim_order q \<le> prim_order p)) (painted sc)"

lemma insert_primitive_painter:
  assumes inv: "painter_inv sc"
  shows "\<exists>sc'. insert_primitive p sc = Some sc' \<and> painter_inv sc'"
proof (cases "bounds_is_empty (clipped_bounds p)")
  case True
  with inv show ?thesis by (simp add: insert_primitive_def)
next
  case False
  let ?b = "clipped_bounds p" and ?L = "leaves_of (bt_nodes (sc_primitive_bounds sc))"
  let ?k = "Suc (highest ?b ?L)"
  have wf: "bounds_tree_wf (sc_primitive_bounds sc)" using inv by (simp add: painter_inv_def)
  have below_max: "list_all (\<lambda>(b, k). k \<le> Max (insert 0 (snd ` set ?L))) ?L"
    by (force simp: list_all_iff intro: Max_ge)
  obtain t where t: "bounds_tree_insert ?b (sc_primitive_bounds sc) = Some (?k, t)" "bounds_tree_wf t"
    "set (leaves_of (bt_nodes t)) = insert (?b, ?k) (set ?L)"
    using tree_step [of "sc_primitive_bounds sc" "Max (insert 0 (snd ` set ?L))" ?b] wf below_max by blast
  let ?sc1 = "sc\<lparr>sc_primitive_bounds := t\<rparr>"
  obtain q sc2 where store: "store_primitive ?k p ?sc1 = (q, sc2)" by (cases "store_primitive ?k p ?sc1")
  note facts = store_primitive_facts [OF store]
  let ?sc3 = "sc2\<lparr>sc_paint_operations := sc_paint_operations sc2 @ [Op_primitive q]\<rparr>"
  have step: "insert_primitive p sc = Some ?sc3"
    using inv False t(1) store by (simp add: insert_primitive_def next_order_def painter_inv_def)
  have painted: "painted ?sc3 = painted sc @ [q]"
    by (simp add: painted_def facts map_filter_append' List.map_filter_simps)
  have below: "\<not> (intersects (clipped_bounds r) (clipped_bounds q) \<and> prim_order q \<le> prim_order r)"
    if "r \<in> set (painted sc)" for r
  proof -
    have "(clipped_bounds r, prim_order r) \<in> set ?L" using that inv by (auto simp: painter_inv_def)
    from highest_ge [OF this, of ?b] show ?thesis using facts(1,3) intersects_sym [of ?b] by auto
  qed
  have fields: "sc_layer_stack ?sc3 = sc_layer_stack sc" "sc_primitive_bounds ?sc3 = t" by (simp_all add: facts)
  have leaves: "set (leaves_of (bt_nodes t)) = (\<lambda>p. (clipped_bounds p, prim_order p)) ` set (painted sc @ [q])"
    using inv t(3) facts(1,3) by (simp add: painter_inv_def)
  have sorted: "sorted_wrt (\<lambda>p q. \<not> (intersects (clipped_bounds p) (clipped_bounds q) \<and> prim_order q \<le> prim_order p))
      (painted sc @ [q])"
    using inv below unfolding sorted_wrt_append painter_inv_def by simp
  have "painter_inv ?sc3"
    unfolding painter_inv_def painted fields using inv t(2) leaves sorted by (simp only: painter_inv_def)
  with step show ?thesis by blast
qed

lemma replay_primitives_painter:
  "painter_inv sc \<Longrightarrow> \<exists>sc'. replay_operations (map Op_primitive ps) sc = Some sc' \<and> painter_inv sc'"
proof (induction ps arbitrary: sc)
  case (Cons p ps)
  obtain sc1 where "insert_primitive p sc = Some sc1" "painter_inv sc1"
    using insert_primitive_painter [OF Cons.prems] by blast
  with Cons.IH show ?case by simp
qed simp

text \<open>
  C10. When primitives are painted outside of layers, of two whose clipped bounds intersect the one
  painted later has the greater draw order, so that it is drawn over the earlier one.
\<close>

theorem later_paint_on_top:
  "\<exists>sc :: ('a::linordered_field, 'x, 'u) scene. replay_operations (map Op_primitive ps) scene_new = Some sc \<and>
     sorted_wrt (\<lambda>p q. \<not> (intersects (clipped_bounds p) (clipped_bounds q) \<and> draw_key q \<le> draw_key p)) (painted sc)"
proof -
  have "painter_inv (scene_new :: ('a, 'x, 'u) scene)" by (simp add: painter_inv_def bounds_tree_wf_new)
  then obtain sc :: "('a, 'x, 'u) scene" where sc: "replay_operations (map Op_primitive ps) scene_new = Some sc" "painter_inv sc"
    using replay_primitives_painter by blast
  have "sorted_wrt (\<lambda>p q. \<not> (intersects (clipped_bounds p) (clipped_bounds q) \<and> draw_key q \<le> draw_key p)) (painted sc)"
    by (rule sorted_wrt_mono_rel [OF _ sc(2) [unfolded painter_inv_def, THEN conjunct2, THEN conjunct2, THEN conjunct2]])
      (auto simp: draw_key_def)
  with sc(1) show ?thesis by blast
qed

end
