(* ===== verification/Line_Wrapper.thy ===== *)
theory Line_Wrapper
  imports Complex_Main Prelude
begin

text \<open>
  The line wrapper, from \<open>src/src/text_system/line_wrapper.rs\<close>: wrapping a line of text and
  inline elements to a width, truncating a line, and the cache of character widths.  A character
  is its code point, a text the list of them; byte indices count their UTF-8 lengths.  Widths are
  elements of an ordered field.  The platform's \<open>layout_line\<close> is the argument \<open>layout_width\<close>,
  which gives the width of one character in a font and size.
\<close>

section \<open>Characters\<close>

type_synonym uchar = nat

definition char_len_utf8 :: "uchar \<Rightarrow> nat" where
  "char_len_utf8 c = (if c < 0x80 then 1 else if c < 0x800 then 2 else if c < 0x10000 then 3 else 4)"

definition text_len :: "uchar list \<Rightarrow> nat" where
  "text_len cs = sum_list (map char_len_utf8 cs)"

text \<open>The characters \<open>-\<close> \<open>_\<close> \<open>.\<close> \<open>'\<close> \<open>$\<close> \<open>%\<close> \<open>@\<close> \<open>#\<close> \<open>^\<close> \<open>~\<close> \<open>,\<close> \<open>=\<close> \<open>:\<close> and the midline ellipsis.\<close>

definition is_word_char :: "uchar \<Rightarrow> bool" where
  "is_word_char c \<longleftrightarrow>
     (48 \<le> c \<and> c \<le> 57 \<or> 65 \<le> c \<and> c \<le> 90 \<or> 97 \<le> c \<and> c \<le> 122) \<or>
     (0xC0 \<le> c \<and> c \<le> 0xFF) \<or> (0x100 \<le> c \<and> c \<le> 0x17F) \<or> (0x180 \<le> c \<and> c \<le> 0x24F) \<or>
     (0x400 \<le> c \<and> c \<le> 0x4FF) \<or>
     c \<in> {45, 95, 46, 39, 36, 37, 64, 35, 94, 126, 44, 61, 58} \<or> c = 0x22EF"

lemma char_len_utf8_pos [simp]: "0 < char_len_utf8 c"
  by (simp add: char_len_utf8_def)

section \<open>The cache of widths\<close>

record ('f, 'a) line_wrapper =
  lw_font_id :: 'f
  lw_font_size :: 'a
  lw_ascii_widths :: "nat \<Rightarrow> 'a option"
  lw_other_widths :: "uchar \<Rightarrow> 'a option"

definition line_wrapper_new :: "'f \<Rightarrow> 'a \<Rightarrow> ('f, 'a) line_wrapper" where
  "line_wrapper_new font_id font_size =
     \<lparr>lw_font_id = font_id, lw_font_size = font_size, lw_ascii_widths = (\<lambda>_. None), lw_other_widths = Map.empty\<rparr>"

definition compute_width_for_char :: "('f \<Rightarrow> 'a \<Rightarrow> uchar \<Rightarrow> 'a) \<Rightarrow> ('f, 'a) line_wrapper \<Rightarrow> uchar \<Rightarrow> 'a" where
  "compute_width_for_char layout_width w c = layout_width (lw_font_id w) (lw_font_size w) c"

definition width_for_char :: "('f \<Rightarrow> 'a \<Rightarrow> uchar \<Rightarrow> 'a) \<Rightarrow> uchar \<Rightarrow> ('f, 'a) line_wrapper \<Rightarrow> 'a \<times> ('f, 'a) line_wrapper" where
  "width_for_char layout_width c w =
     (if c < 128 then
        (case lw_ascii_widths w c of
           Some cached \<Rightarrow> (cached, w)
         | None \<Rightarrow> let width = compute_width_for_char layout_width w c in
             (width, w\<lparr>lw_ascii_widths := (lw_ascii_widths w)(c := Some width)\<rparr>))
      else
        (case lw_other_widths w c of
           Some cached \<Rightarrow> (cached, w)
         | None \<Rightarrow> let width = compute_width_for_char layout_width w c in
             (width, w\<lparr>lw_other_widths := (lw_other_widths w)(c := Some width)\<rparr>)))"

definition cache_ok :: "('f \<Rightarrow> 'a \<Rightarrow> uchar \<Rightarrow> 'a) \<Rightarrow> (uchar \<Rightarrow> 'a) \<Rightarrow> ('f, 'a) line_wrapper \<Rightarrow> bool" where
  "cache_ok layout_width W w \<longleftrightarrow>
     (\<forall>c. W c = compute_width_for_char layout_width w c) \<and>
     (\<forall>c x. lw_ascii_widths w c = Some x \<longrightarrow> x = W c) \<and> (\<forall>c x. lw_other_widths w c = Some x \<longrightarrow> x = W c)"

lemma cache_ok_new: "cache_ok layout_width (layout_width f sz) (line_wrapper_new f sz)"
  by (simp add: cache_ok_def line_wrapper_new_def compute_width_for_char_def)

lemma width_for_char_cached:
  assumes "cache_ok layout_width W w"
  shows "fst (width_for_char layout_width c w) = W c" "cache_ok layout_width W (snd (width_for_char layout_width c w))"
  using assms unfolding width_for_char_def cache_ok_def
  by (auto simp: Let_def compute_width_for_char_def split: option.splits)

section \<open>Fragments\<close>

datatype 'a line_fragment = Text_fragment "uchar list" | Element_fragment 'a nat

datatype 'a wrap_candidate = Char_candidate uchar | Element_candidate 'a nat

record boundary =
  bnd_ix :: nat
  bnd_next_indent :: nat

fun wrap_boundary_candidates :: "'a line_fragment \<Rightarrow> 'a wrap_candidate list" where
  "wrap_boundary_candidates (Text_fragment cs) = map Char_candidate cs"
| "wrap_boundary_candidates (Element_fragment width len) = [Element_candidate width len]"

fun candidate_len :: "'a wrap_candidate \<Rightarrow> nat" where
  "candidate_len (Char_candidate c) = char_len_utf8 c"
| "candidate_len (Element_candidate _ len) = len"

section \<open>Wrapping\<close>

definition max_indent :: nat where
  "max_indent = 256"

abbreviation space :: uchar where "space \<equiv> 32"

text \<open>What the closure of the iterator has captured.\<close>

record 'a wrap_state =
  ws_width :: 'a
  ws_first_non_whitespace_ix :: "nat option"
  ws_indent :: "nat option"
  ws_last_candidate_ix :: nat
  ws_last_candidate_width :: 'a
  ws_last_wrap_ix :: nat
  ws_prev_c :: uchar
  ws_index :: nat

definition wrap_start :: "'a::zero wrap_state" where
  "wrap_start = \<lparr>ws_width = 0, ws_first_non_whitespace_ix = None, ws_indent = None, ws_last_candidate_ix = 0,
     ws_last_candidate_width = 0, ws_last_wrap_ix = 0, ws_prev_c = 0, ws_index = 0\<rparr>"

definition mark_candidate :: "bool \<Rightarrow> nat \<Rightarrow> 'a wrap_state \<Rightarrow> 'a wrap_state" where
  "mark_candidate b ix s =
     (if b \<and> ws_first_non_whitespace_ix s \<noteq> None
      then s\<lparr>ws_last_candidate_ix := ix, ws_last_candidate_width := ws_width s\<rparr> else s)"

definition mark_non_whitespace :: "bool \<Rightarrow> nat \<Rightarrow> 'a wrap_state \<Rightarrow> 'a wrap_state" where
  "mark_non_whitespace b ix s =
     (if b \<and> ws_first_non_whitespace_ix s = None then s\<lparr>ws_first_non_whitespace_ix := Some ix\<rparr> else s)"

definition candidate_char :: "uchar \<Rightarrow> uchar \<Rightarrow> bool" where
  "candidate_char prev c \<longleftrightarrow> (if is_word_char c then prev = space \<and> c \<noteq> space else c \<noteq> space)"

text \<open>The tail of the loop body: the new item of width \<open>item\<close> at \<open>ix\<close> is added, and the line wrapped when
  it is too long.\<close>

definition wrap_item :: "('f \<Rightarrow> 'a::linordered_field \<Rightarrow> uchar \<Rightarrow> 'a) \<Rightarrow> 'a \<Rightarrow> nat \<Rightarrow> 'a \<Rightarrow> uchar \<Rightarrow>
    'a wrap_state \<times> ('f, 'a) line_wrapper \<Rightarrow> boundary option \<times> 'a wrap_state \<times> ('f, 'a) line_wrapper" where
  "wrap_item layout_width wrap_width ix item new_prev_c = (\<lambda>(s, w).
     (let s = s\<lparr>ws_width := ws_width s + item\<rparr> in
      if wrap_width < ws_width s \<and> ws_last_wrap_ix s < ix then
        (let s = (case (ws_indent s, ws_first_non_whitespace_ix s) of
                    (None, Some first) \<Rightarrow> s\<lparr>ws_indent := Some (min max_indent (first - ws_last_wrap_ix s))\<rparr>
                  | _ \<Rightarrow> s);
             s = (if 0 < ws_last_candidate_ix s
                  then s\<lparr>ws_last_wrap_ix := ws_last_candidate_ix s, ws_width := ws_width s - ws_last_candidate_width s,
                         ws_last_candidate_ix := 0\<rparr>
                  else s\<lparr>ws_last_wrap_ix := ix, ws_width := item\<rparr>);
             (s, w) = (case ws_indent s of
                         None \<Rightarrow> (s, w)
                       | Some indent \<Rightarrow>
                           (let (space_width, w) = width_for_char layout_width space w
                            in (s\<lparr>ws_width := ws_width s + space_width * of_nat indent\<rparr>, w)))
         in (Some \<lparr>bnd_ix = ws_last_wrap_ix s, bnd_next_indent = case_option 0 id (ws_indent s)\<rparr>, s, w))
      else (None, s\<lparr>ws_prev_c := new_prev_c\<rparr>, w)))"

definition wrap_step :: "('f \<Rightarrow> 'a::linordered_field \<Rightarrow> uchar \<Rightarrow> 'a) \<Rightarrow> 'a \<Rightarrow> 'a wrap_candidate \<Rightarrow>
    'a wrap_state \<times> ('f, 'a) line_wrapper \<Rightarrow> boundary option \<times> 'a wrap_state \<times> ('f, 'a) line_wrapper" where
  "wrap_step layout_width wrap_width candidate = (\<lambda>(s, w).
     (let ix = ws_index s; s = s\<lparr>ws_index := ix + candidate_len candidate\<rparr> in
      case candidate of
        Char_candidate c \<Rightarrow>
          (if c = 10 then (None, s, w)
           else let s = mark_non_whitespace (c \<noteq> space) ix (mark_candidate (candidate_char (ws_prev_c s) c) ix s);
                    (item, w) = width_for_char layout_width c w
                in wrap_item layout_width wrap_width ix item c (s, w))
      | Element_candidate width _ \<Rightarrow>
          wrap_item layout_width wrap_width ix width (ws_prev_c s)
            (mark_non_whitespace True ix (mark_candidate (ws_prev_c s = space) ix s), w)))"

fun wrap_candidates :: "('f \<Rightarrow> 'a::linordered_field \<Rightarrow> uchar \<Rightarrow> 'a) \<Rightarrow> 'a \<Rightarrow> 'a wrap_candidate list \<Rightarrow>
    'a wrap_state \<times> ('f, 'a) line_wrapper \<Rightarrow> boundary list \<times> ('f, 'a) line_wrapper" where
  "wrap_candidates layout_width wrap_width [] (s, w) = ([], w)"
| "wrap_candidates layout_width wrap_width (c # cs) (s, w) =
     (let (b, s, w) = wrap_step layout_width wrap_width c (s, w);
          (bs, w) = wrap_candidates layout_width wrap_width cs (s, w)
      in (case b of None \<Rightarrow> bs | Some b \<Rightarrow> b # bs, w))"

text \<open>All boundaries that the iterator gives.\<close>

definition wrap_line :: "('f \<Rightarrow> 'a::linordered_field \<Rightarrow> uchar \<Rightarrow> 'a) \<Rightarrow> 'a line_fragment list \<Rightarrow> 'a \<Rightarrow>
    ('f, 'a) line_wrapper \<Rightarrow> boundary list \<times> ('f, 'a) line_wrapper" where
  "wrap_line layout_width fragments wrap_width w =
     wrap_candidates layout_width wrap_width (concat (map wrap_boundary_candidates fragments)) (wrap_start, w)"

section \<open>The cache does not show\<close>

text \<open>The same loop body with a function for the widths.\<close>

definition wrap_item_pure :: "(uchar \<Rightarrow> 'a::linordered_field) \<Rightarrow> 'a \<Rightarrow> nat \<Rightarrow> 'a \<Rightarrow> uchar \<Rightarrow>
    'a wrap_state \<Rightarrow> boundary option \<times> 'a wrap_state" where
  "wrap_item_pure W wrap_width ix item new_prev_c s =
     (if wrap_width < ws_width s + item \<and> ws_last_wrap_ix s < ix then
        (let indent = (case (ws_indent s, ws_first_non_whitespace_ix s) of
               (None, Some first) \<Rightarrow> Some (min max_indent (first - ws_last_wrap_ix s)) | _ \<Rightarrow> ws_indent s);
             by_candidate = (0 < ws_last_candidate_ix s);
             wrap_ix = (if by_candidate then ws_last_candidate_ix s else ix);
             rest = (if by_candidate then ws_width s + item - ws_last_candidate_width s else item)
         in (Some \<lparr>bnd_ix = wrap_ix, bnd_next_indent = case_option 0 id indent\<rparr>,
             s\<lparr>ws_indent := indent, ws_last_wrap_ix := wrap_ix, ws_last_candidate_ix := 0,
               ws_width := rest + W space * of_nat (case_option 0 id indent)\<rparr>))
      else (None, s\<lparr>ws_width := ws_width s + item, ws_prev_c := new_prev_c\<rparr>))"

lemma wrap_item_pure:
  assumes "cache_ok layout_width W w"
  shows "\<exists>w'. wrap_item layout_width wrap_width ix item c (s, w) =
      (fst (wrap_item_pure W wrap_width ix item c s), snd (wrap_item_pure W wrap_width ix item c s), w') \<and>
    cache_ok layout_width W w'"
proof -
  obtain w' where w': "width_for_char layout_width space w = (W space, w')" "cache_ok layout_width W w'"
    using width_for_char_cached [OF assms, of space] by (metis prod.collapse)
  with assms show ?thesis
    by (auto simp: wrap_item_def wrap_item_pure_def Let_def split: option.splits)
qed

definition wrap_step_pure :: "(uchar \<Rightarrow> 'a::linordered_field) \<Rightarrow> 'a \<Rightarrow> 'a wrap_candidate \<Rightarrow> 'a wrap_state \<Rightarrow>
    boundary option \<times> 'a wrap_state" where
  "wrap_step_pure W wrap_width candidate s =
     (let ix = ws_index s; s = s\<lparr>ws_index := ix + candidate_len candidate\<rparr> in
      case candidate of
        Char_candidate c \<Rightarrow>
          (if c = 10 then (None, s)
           else wrap_item_pure W wrap_width ix (W c) c
                  (mark_non_whitespace (c \<noteq> space) ix (mark_candidate (candidate_char (ws_prev_c s) c) ix s)))
      | Element_candidate width _ \<Rightarrow>
          wrap_item_pure W wrap_width ix width (ws_prev_c s)
            (mark_non_whitespace True ix (mark_candidate (ws_prev_c s = space) ix s)))"

lemma wrap_step_pure:
  assumes "cache_ok layout_width W w"
  shows "\<exists>w'. wrap_step layout_width wrap_width c (s, w) =
      (fst (wrap_step_pure W wrap_width c s), snd (wrap_step_pure W wrap_width c s), w') \<and> cache_ok layout_width W w'"
proof (cases c)
  case (Char_candidate x)
  obtain w1 where w1: "width_for_char layout_width x w = (W x, w1)" "cache_ok layout_width W w1"
    using width_for_char_cached [OF assms, of x] by (metis prod.collapse)
  then show ?thesis
    using assms wrap_item_pure [OF w1(2)] by (simp add: Char_candidate wrap_step_def wrap_step_pure_def Let_def)
next
  case (Element_candidate width len)
  then show ?thesis
    using wrap_item_pure [OF assms] by (simp add: wrap_step_def wrap_step_pure_def Let_def)
qed

fun wrap_pure :: "(uchar \<Rightarrow> 'a::linordered_field) \<Rightarrow> 'a \<Rightarrow> 'a wrap_candidate list \<Rightarrow> 'a wrap_state \<Rightarrow> boundary list" where
  "wrap_pure W wrap_width [] s = []"
| "wrap_pure W wrap_width (c # cs) s =
     (case wrap_step_pure W wrap_width c s of
        (None, s) \<Rightarrow> wrap_pure W wrap_width cs s
      | (Some b, s) \<Rightarrow> b # wrap_pure W wrap_width cs s)"

lemma wrap_candidates_pure:
  "cache_ok layout_width W w \<Longrightarrow>
   fst (wrap_candidates layout_width wrap_width cs (s, w)) = wrap_pure W wrap_width cs s \<and>
   cache_ok layout_width W (snd (wrap_candidates layout_width wrap_width cs (s, w)))"
proof (induction cs arbitrary: s w)
  case (Cons c cs)
  obtain w1 where "wrap_step layout_width wrap_width c (s, w) =
      (fst (wrap_step_pure W wrap_width c s), snd (wrap_step_pure W wrap_width c s), w1)" "cache_ok layout_width W w1"
    using wrap_step_pure [OF Cons.prems] by metis
  with Cons.IH show ?case
    by (cases "wrap_step_pure W wrap_width c s") (simp add: case_prod_beta split: option.split)
qed simp

section \<open>Wrapped lines fit\<close>

fun candidate_width :: "(uchar \<Rightarrow> 'a) \<Rightarrow> 'a wrap_candidate \<Rightarrow> 'a" where
  "candidate_width W (Char_candidate c) = W c"
| "candidate_width W (Element_candidate width _) = width"

definition items_width :: "(uchar \<Rightarrow> 'a::linordered_field) \<Rightarrow> 'a wrap_candidate list \<Rightarrow> 'a" where
  "items_width W cs = sum_list (map (candidate_width W) cs)"

definition items_len :: "'a wrap_candidate list \<Rightarrow> nat" where
  "items_len cs = sum_list (map candidate_len cs)"

text \<open>No newline, no empty element, no negative width.\<close>

fun plain_item :: "'a::linordered_field wrap_candidate \<Rightarrow> bool" where
  "plain_item (Char_candidate c) \<longleftrightarrow> c \<noteq> 10"
| "plain_item (Element_candidate width len) \<longleftrightarrow> 0 \<le> width \<and> 0 < len"

text \<open>A line that starts with an indent fits, its last item excepted.\<close>

definition line_fits :: "(uchar \<Rightarrow> 'a::linordered_field) \<Rightarrow> 'a \<Rightarrow> 'a \<Rightarrow> 'a wrap_candidate list \<Rightarrow> bool" where
  "line_fits W wrap_width indent l \<longleftrightarrow> length l \<le> 1 \<or> indent + items_width W (butlast l) \<le> wrap_width"

text \<open>The boundaries cut the items into nonempty lines that fit.\<close>

fun lines_ok :: "(uchar \<Rightarrow> 'a::linordered_field) \<Rightarrow> 'a \<Rightarrow> nat \<Rightarrow> 'a \<Rightarrow> boundary list \<Rightarrow> 'a wrap_candidate list \<Rightarrow> bool" where
  "lines_ok W wrap_width start indent [] items \<longleftrightarrow> line_fits W wrap_width indent items"
| "lines_ok W wrap_width start indent (b # bs) items \<longleftrightarrow>
     (\<exists>line rest. items = line @ rest \<and> line \<noteq> [] \<and> line_fits W wrap_width indent line \<and>
        bnd_ix b = start + items_len line \<and>
        lines_ok W wrap_width (bnd_ix b) (W space * of_nat (bnd_next_indent b)) bs rest)"

lemma items_simps [simp]:
  "items_width W [] = 0" "items_width W (c # cs) = candidate_width W c + items_width W cs"
  "items_width W (cs @ ds) = items_width W cs + items_width W ds"
  "items_len [] = 0" "items_len (c # cs) = candidate_len c + items_len cs" "items_len (cs @ ds) = items_len cs + items_len ds"
  by (simp_all add: items_width_def items_len_def)

lemma plain_item_facts:
  assumes "plain_item c" and "\<And>x. 0 \<le> W x"
  shows "0 \<le> candidate_width W c" "0 < candidate_len c"
  using assms by (cases c; simp)+

lemma items_width_nonneg:
  assumes "list_all plain_item cs" and "\<And>x. 0 \<le> W x"
  shows "0 \<le> items_width W cs"
  using assms(1) by (induction cs) (simp_all add: plain_item_facts(1) [OF _ assms(2)])

definition indent_of :: "(uchar \<Rightarrow> 'a::linordered_field) \<Rightarrow> nat option \<Rightarrow> 'a" where
  "indent_of W indent = W space * of_nat (case_option 0 id indent)"

text \<open>The indent that a wrap now would give the next line.\<close>

definition next_indent :: "'a wrap_state \<Rightarrow> nat option" where
  "next_indent s = (case (ws_indent s, ws_first_non_whitespace_ix s) of
     (None, Some first) \<Rightarrow> Some (min max_indent (first - ws_last_wrap_ix s)) | _ \<Rightarrow> ws_indent s)"

text \<open>The white space that opens the indent; a candidate splits the line, and lies after the indent.\<close>

definition spaces_open :: "'a wrap_candidate list \<Rightarrow> 'a wrap_state \<Rightarrow> bool" where
  "spaces_open l s \<longleftrightarrow>
     (case ws_first_non_whitespace_ix s of
        None \<Rightarrow> list_all (\<lambda>c. c = Char_candidate space) l \<and> ws_last_candidate_ix s = 0 \<and> ws_indent s = None
      | Some first \<Rightarrow> l \<noteq> [] \<and> (ws_indent s = None \<longrightarrow>
          (\<exists>n rest. l = replicate n (Char_candidate space) @ rest \<and> rest \<noteq> [] \<and> first = ws_last_wrap_ix s + n)))"

definition candidate_at :: "(uchar \<Rightarrow> 'a::linordered_field) \<Rightarrow> 'a wrap_candidate list \<Rightarrow> 'a wrap_candidate list \<Rightarrow>
    'a wrap_state \<Rightarrow> bool" where
  "candidate_at W l1 l2 s \<longleftrightarrow> l1 \<noteq> [] \<and> l2 \<noteq> [] \<and> ws_last_candidate_ix s = ws_last_wrap_ix s + items_len l1 \<and>
     ws_last_candidate_width s = indent_of W (ws_indent s) + items_width W l1 \<and>
     indent_of W (next_indent s) \<le> ws_last_candidate_width s"

definition line_inv :: "(uchar \<Rightarrow> 'a::linordered_field) \<Rightarrow> 'a \<Rightarrow> 'a wrap_candidate list \<Rightarrow> 'a wrap_state \<Rightarrow> bool" where
  "line_inv W wrap_width l s \<longleftrightarrow> list_all plain_item l \<and>
     ws_width s = indent_of W (ws_indent s) + items_width W l \<and>
     line_fits W wrap_width (indent_of W (ws_indent s)) l"

text \<open>The state when \<open>l\<close> is the current line so far, and when item \<open>c\<close> is about to be added to it.\<close>

definition wrap_inv :: "(uchar \<Rightarrow> 'a::linordered_field) \<Rightarrow> 'a \<Rightarrow> 'a wrap_candidate list \<Rightarrow> 'a wrap_state \<Rightarrow> bool" where
  "wrap_inv W wrap_width l s \<longleftrightarrow> line_inv W wrap_width l s \<and> ws_index s = ws_last_wrap_ix s + items_len l \<and>
     spaces_open l s \<and>
     (0 < ws_last_candidate_ix s \<longrightarrow> ws_width s \<le> wrap_width \<and> (\<exists>l1 l2. l = l1 @ l2 \<and> candidate_at W l1 l2 s))"

definition item_inv :: "(uchar \<Rightarrow> 'a::linordered_field) \<Rightarrow> 'a \<Rightarrow> 'a wrap_candidate list \<Rightarrow> 'a wrap_candidate \<Rightarrow>
    'a wrap_state \<Rightarrow> bool" where
  "item_inv W wrap_width l c s \<longleftrightarrow> line_inv W wrap_width l s \<and> ws_index s = ws_last_wrap_ix s + items_len (l @ [c]) \<and>
     spaces_open (l @ [c]) s \<and>
     (0 < ws_last_candidate_ix s \<longrightarrow>
        (\<exists>l1 l2. l @ [c] = l1 @ l2 \<and> candidate_at W l1 l2 s \<and> (l2 = [c] \<or> ws_width s \<le> wrap_width)))"

lemma wrap_inv_start: "wrap_inv W wrap_width [] wrap_start"
  by (simp add: wrap_inv_def line_inv_def spaces_open_def wrap_start_def indent_of_def line_fits_def)

lemma items_len_pos: "list_all plain_item l \<Longrightarrow> items_len l = 0 \<longleftrightarrow> l = []"
  using plain_item_facts(2) [where W = "\<lambda>_. 0"] by (cases l) force+

lemma add_item:
  assumes inv: "item_inv W wrap_width l c s" and c: "plain_item c" and W: "\<And>x. 0 \<le> W x"
    and ix: "ix = ws_last_wrap_ix s + items_len l"
    and step: "wrap_item_pure W wrap_width ix (candidate_width W c) p s = (None, s')"
  shows "wrap_inv W wrap_width (l @ [c]) s'" "ws_last_wrap_ix s' = ws_last_wrap_ix s" "ws_indent s' = ws_indent s"
proof -
  let ?w = "candidate_width W c"
  have s': "s' = s\<lparr>ws_width := ws_width s + ?w, ws_prev_c := p\<rparr>"
    and stay: "\<not> (wrap_width < ws_width s + ?w \<and> ws_last_wrap_ix s < ix)"
    using step by (auto simp: wrap_item_pure_def Let_def split: if_splits)
  then show "ws_last_wrap_ix s' = ws_last_wrap_ix s" "ws_indent s' = ws_indent s" by simp_all
  have w: "0 \<le> ?w" using plain_item_facts(1) [where W = W] c W by blast
  have line: "line_inv W wrap_width l s" using inv by (simp add: item_inv_def)
  have short: "l = [] \<or> ws_width s + ?w \<le> wrap_width"
    using stay ix items_len_pos [of l] line by (auto simp: line_inv_def)
  then have fits: "line_fits W wrap_width (indent_of W (ws_indent s)) (l @ [c])"
    using line w by (auto simp: line_inv_def line_fits_def)
  have nexts: "next_indent s' = next_indent s" by (simp add: s' next_indent_def split: option.splits)
  have line': "line_inv W wrap_width (l @ [c]) s'"
    using line c fits by (simp add: line_inv_def s')
  have "spaces_open (l @ [c]) s" using inv by (simp add: item_inv_def)
  then have spaces': "spaces_open (l @ [c]) s'" unfolding spaces_open_def by (simp add: s' split: option.splits)
  have index': "ws_index s' = ws_last_wrap_ix s' + items_len (l @ [c])" using inv by (simp add: item_inv_def s')
  have "ws_width s' \<le> wrap_width \<and> (\<exists>l1 l2. l @ [c] = l1 @ l2 \<and> candidate_at W l1 l2 s')"
    if marked: "0 < ws_last_candidate_ix s'"
  proof -
    obtain l1 l2 where split: "l @ [c] = l1 @ l2" "candidate_at W l1 l2 s"
      using marked inv by (auto simp: item_inv_def s')
    then have "l \<noteq> []" by (cases l) (auto simp: candidate_at_def Cons_eq_append_conv)
    moreover have "candidate_at W l1 l2 s'" using split(2) unfolding candidate_at_def nexts by (simp add: s')
    ultimately show ?thesis using short split(1) by (auto simp: s')
  qed
  with line' spaces' index' show "wrap_inv W wrap_width (l @ [c]) s'" unfolding wrap_inv_def by blast
qed

lemma wrap_at_item:
  assumes inv: "item_inv W wrap_width l c s" and c: "plain_item c" and W: "\<And>x. 0 \<le> W x"
    and ix: "ix = ws_last_wrap_ix s + items_len l"
    and step: "wrap_item_pure W wrap_width ix (candidate_width W c) p s = (Some b, s')"
  shows "\<exists>l1 l2. l @ [c] = l1 @ l2 \<and> l1 \<noteq> [] \<and> line_fits W wrap_width (indent_of W (ws_indent s)) l1 \<and>
    bnd_ix b = ws_last_wrap_ix s + items_len l1 \<and> ws_last_wrap_ix s' = bnd_ix b \<and>
    W space * of_nat (bnd_next_indent b) = indent_of W (ws_indent s') \<and> wrap_inv W wrap_width l2 s'"
proof -
  let ?w = "candidate_width W c"
  have over: "ws_last_wrap_ix s < ix" and b: "bnd_next_indent b = case_option 0 id (next_indent s)" "bnd_ix b = ws_last_wrap_ix s'"
    and s': "ws_indent s' = next_indent s" "ws_last_candidate_ix s' = 0" "ws_index s' = ws_index s"
      "ws_first_non_whitespace_ix s' = ws_first_non_whitespace_ix s"
    using step by (auto simp: wrap_item_pure_def next_indent_def Let_def split: if_splits)
  have line: "line_inv W wrap_width l s" using inv by (simp add: item_inv_def)
  then have plain: "list_all plain_item l" and width: "ws_width s = indent_of W (ws_indent s) + items_width W l"
    and fits: "line_fits W wrap_width (indent_of W (ws_indent s)) l" by (simp_all add: line_inv_def)
  have l: "l \<noteq> []" using over ix by auto
  have spaces: "spaces_open l2 s'" if "l @ [c] = l1 @ l2" "l2 \<noteq> []" for l1 l2
  proof (cases "ws_first_non_whitespace_ix s")
    case None
    then have "list_all (\<lambda>c. c = Char_candidate space) (l @ [c])" "ws_indent s = None"
      using inv by (simp_all add: item_inv_def spaces_open_def)
    then show ?thesis using None s' that by (simp add: spaces_open_def next_indent_def)
  next
    case (Some f)
    then show ?thesis using s' that(2) by (cases "ws_indent s") (simp_all add: spaces_open_def next_indent_def)
  qed
  have "\<exists>l1 l2. l @ [c] = l1 @ l2 \<and> l1 \<noteq> [] \<and> l2 \<noteq> [] \<and> line_fits W wrap_width (indent_of W (ws_indent s)) l1 \<and>
    ws_last_wrap_ix s' = ws_last_wrap_ix s + items_len l1 \<and> ws_width s' = indent_of W (next_indent s) + items_width W l2 \<and>
    line_fits W wrap_width (indent_of W (next_indent s)) l2"
  proof (cases "0 < ws_last_candidate_ix s")
    case True
    with inv obtain l1 l2 where split: "l @ [c] = l1 @ l2" and at: "candidate_at W l1 l2 s"
      and two: "l2 = [c] \<or> ws_width s \<le> wrap_width"
      by (auto simp: item_inv_def)
    obtain l3 where l3: "l = l1 @ l3" "l2 = l3 @ [c]"
      using split at by (cases l2 rule: rev_cases) (auto simp: candidate_at_def)
    have s'_width: "ws_width s' = ws_width s + ?w - ws_last_candidate_width s + indent_of W (next_indent s)"
      "ws_last_wrap_ix s' = ws_last_candidate_ix s"
      using step True by (auto simp: wrap_item_pure_def next_indent_def indent_of_def Let_def split: if_splits)
    have fits1: "line_fits W wrap_width (indent_of W (ws_indent s)) l1"
    proof (cases "l3 = []")
      case True
      with fits l3 show ?thesis by simp
    next
      case False
      have "list_all plain_item l3" "list_all plain_item [last l1]"
        using plain l3 at by (auto simp: candidate_at_def list_all_iff)
      then have "0 \<le> items_width W l3" "0 \<le> items_width W [last l1]"
        by (simp_all only: items_width_nonneg [OF _ W])
      moreover have "items_width W l1 = items_width W (butlast l1) + items_width W [last l1]"
        using at unfolding items_simps(3) [symmetric] by (simp add: candidate_at_def)
      moreover have "ws_width s \<le> wrap_width" using two False l3 by simp
      ultimately show ?thesis using width l3 by (simp add: line_fits_def)
    qed
    have "line_fits W wrap_width (indent_of W (next_indent s)) l2"
      using two l3 width at by (auto simp: line_fits_def candidate_at_def)
    with fits1 split at s'_width l3 width show ?thesis
      by (intro exI [of _ l1] exI [of _ l2]) (simp add: candidate_at_def)
  next
    case False
    then have "ws_width s' = ?w + indent_of W (next_indent s)" "ws_last_wrap_ix s' = ix"
      using step by (auto simp: wrap_item_pure_def next_indent_def indent_of_def Let_def split: if_splits)
    with l fits ix show ?thesis
      by (intro exI [of _ l] exI [of _ "[c]"]) (simp add: line_fits_def)
  qed
  then obtain l1 l2 where l12: "l @ [c] = l1 @ l2" "l1 \<noteq> []" "l2 \<noteq> []" "line_fits W wrap_width (indent_of W (ws_indent s)) l1"
    "ws_last_wrap_ix s' = ws_last_wrap_ix s + items_len l1" "ws_width s' = indent_of W (next_indent s) + items_width W l2"
    "line_fits W wrap_width (indent_of W (next_indent s)) l2" by blast
  have "list_all plain_item (l1 @ l2)" using plain c unfolding l12(1) [symmetric] by simp
  moreover have "ws_index s = ws_last_wrap_ix s + items_len (l1 @ l2)"
    using inv unfolding item_inv_def l12(1) [symmetric] by blast
  ultimately have "wrap_inv W wrap_width l2 s'"
    using l12(5,6,7) s' spaces [OF l12(1,3)] by (simp add: wrap_inv_def line_inv_def)
  with l12(1,2,4,5) b s'(1) show ?thesis
    by (intro exI [of _ l1] exI [of _ l2]) (simp add: indent_of_def)
qed

text \<open>Before an item is added, candidates are marked.\<close>

lemma mark_inv:
  assumes inv: "wrap_inv W wrap_width l s" and c: "plain_item c" and W: "\<And>x. 0 \<le> W x" and ix: "ix = ws_index s"
    and white: "non_white \<or> c = Char_candidate space" and cand: "cand \<longrightarrow> non_white"
  defines "s' \<equiv> mark_non_whitespace non_white ix (mark_candidate cand ix (s\<lparr>ws_index := ix + candidate_len c\<rparr>))"
  shows "item_inv W wrap_width l c s'" "ix = ws_last_wrap_ix s' + items_len l" "ws_last_wrap_ix s' = ws_last_wrap_ix s"
    "ws_indent s' = ws_indent s"
proof -
  let ?s1 = "mark_candidate cand ix (s\<lparr>ws_index := ix + candidate_len c\<rparr>)"
  have line: "line_inv W wrap_width l s" and spaces: "spaces_open l s" and index: "ix = ws_last_wrap_ix s + items_len l"
    using inv ix by (simp_all add: wrap_inv_def)
  have same: "ws_last_wrap_ix s' = ws_last_wrap_ix s" "ws_indent s' = ws_indent s" "ws_width s' = ws_width s"
    "ws_index s' = ix + candidate_len c"
    "ws_first_non_whitespace_ix s \<noteq> None \<Longrightarrow> ws_first_non_whitespace_ix s' = ws_first_non_whitespace_ix s"
    by (simp_all add: s'_def mark_non_whitespace_def mark_candidate_def)
  show "ws_last_wrap_ix s' = ws_last_wrap_ix s" "ws_indent s' = ws_indent s" by (rule same)+
  show "ix = ws_last_wrap_ix s' + items_len l" using index same by simp
  have line': "line_inv W wrap_width l s'" using line by (simp add: line_inv_def same)
  have spaces': "spaces_open (l @ [c]) s'"
  proof (cases "ws_first_non_whitespace_ix s")
    case None
    then have l: "list_all (\<lambda>c. c = Char_candidate space) l" "ws_last_candidate_ix s = 0" "ws_indent s = None"
      using spaces by (simp_all add: spaces_open_def)
    then have reps: "l = replicate (length l) (Char_candidate space)" by (simp add: list_all_iff replicate_length_same)
    have len: "items_len l = length l" using l(1) by (induction l) (simp_all add: char_len_utf8_def)
    show ?thesis
    proof (cases non_white)
      case True
      then have "ws_first_non_whitespace_ix s' = Some ix" using None by (simp add: s'_def mark_non_whitespace_def mark_candidate_def)
      then show ?thesis unfolding spaces_open_def using reps len index same l(3) by auto
    next
      case False
      with l white None show ?thesis
        by (simp add: spaces_open_def s'_def mark_non_whitespace_def mark_candidate_def)
    qed
  next
    case (Some f)
    then have "ws_first_non_whitespace_ix s' = Some f" using same(5) by simp
    then show ?thesis using spaces Some same(1,2) by (fastforce simp: spaces_open_def)
  qed
  have nexts: "next_indent s' = next_indent s" if "ws_first_non_whitespace_ix s \<noteq> None"
    using that same by (auto simp: next_indent_def split: option.split)
  have "\<exists>l1 l2. l @ [c] = l1 @ l2 \<and> candidate_at W l1 l2 s' \<and> (l2 = [c] \<or> ws_width s' \<le> wrap_width)"
    if marked: "0 < ws_last_candidate_ix s'"
  proof (cases "cand \<and> ws_first_non_whitespace_ix s \<noteq> None")
    case True
    then obtain f where f: "ws_first_non_whitespace_ix s = Some f" by auto
    have at: "ws_last_candidate_ix s' = ix" "ws_last_candidate_width s' = ws_width s"
      using True by (simp_all add: s'_def mark_non_whitespace_def mark_candidate_def)
    have "l \<noteq> []" using spaces f by (simp add: spaces_open_def)
    moreover have "indent_of W (next_indent s) \<le> ws_width s"
    proof (cases "ws_indent s")
      case None
      then obtain n rest where l: "l = replicate n (Char_candidate space) @ rest" "f = ws_last_wrap_ix s + n"
        using spaces f by (auto simp: spaces_open_def)
      have "items_width W (replicate n (Char_candidate space)) = of_nat n * W space"
        by (induction n) (simp_all add: distrib_right)
      moreover have "0 \<le> items_width W rest"
        using line l by (intro items_width_nonneg W) (simp add: line_inv_def)
      ultimately have "of_nat n * W space \<le> ws_width s" using line l None by (simp add: line_inv_def indent_of_def)
      moreover have "W space * of_nat (min max_indent n) \<le> of_nat n * W space"
        by (simp add: mult.commute [of _ "W space"] W mult_left_mono del: of_nat_min)
      ultimately show ?thesis using None f l by (simp add: next_indent_def indent_of_def)
    next
      case (Some i)
      have "0 \<le> items_width W l" using line by (intro items_width_nonneg W) (simp add: line_inv_def)
      with Some line show ?thesis by (simp add: next_indent_def line_inv_def)
    qed
    ultimately have "candidate_at W l [c] s'"
      using at index same nexts f line by (simp add: candidate_at_def line_inv_def)
    then show ?thesis by blast
  next
    case False
    then have at: "ws_last_candidate_ix s' = ws_last_candidate_ix s" "ws_last_candidate_width s' = ws_last_candidate_width s"
      by (auto simp: s'_def mark_non_whitespace_def mark_candidate_def)
    then obtain l1 l2 where "l = l1 @ l2" "candidate_at W l1 l2 s" "ws_width s \<le> wrap_width"
      using marked inv by (auto simp: wrap_inv_def)
    moreover have "ws_first_non_whitespace_ix s \<noteq> None" using marked at spaces by (auto simp: spaces_open_def split: option.splits)
    ultimately show ?thesis
      using at same nexts by (intro exI [of _ l1] exI [of _ "l2 @ [c]"]) (simp add: candidate_at_def)
  qed
  then show "item_inv W wrap_width l c s'"
    unfolding item_inv_def using line' spaces' index same by simp
qed

lemma wrap_step_line:
  assumes inv: "wrap_inv W wrap_width l s" and c: "plain_item c" and W: "\<And>x. 0 \<le> W x"
  shows "case wrap_step_pure W wrap_width c s of
      (None, s') \<Rightarrow> wrap_inv W wrap_width (l @ [c]) s' \<and> ws_last_wrap_ix s' = ws_last_wrap_ix s \<and> ws_indent s' = ws_indent s
    | (Some b, s') \<Rightarrow> \<exists>l1 l2. l @ [c] = l1 @ l2 \<and> l1 \<noteq> [] \<and> line_fits W wrap_width (indent_of W (ws_indent s)) l1 \<and>
        bnd_ix b = ws_last_wrap_ix s + items_len l1 \<and> ws_last_wrap_ix s' = bnd_ix b \<and>
        W space * of_nat (bnd_next_indent b) = indent_of W (ws_indent s') \<and> wrap_inv W wrap_width l2 s'"
proof -
  obtain cand non_white p where step: "wrap_step_pure W wrap_width c s =
      wrap_item_pure W wrap_width (ws_index s) (candidate_width W c) p
        (mark_non_whitespace non_white (ws_index s) (mark_candidate cand (ws_index s) (s\<lparr>ws_index := ws_index s + candidate_len c\<rparr>)))"
    and white: "non_white \<or> c = Char_candidate space" "cand \<longrightarrow> non_white"
  proof (cases c)
    case (Char_candidate x)
    show ?thesis
      by (rule that [of x "x \<noteq> space" "candidate_char (ws_prev_c s) x"])
        (use Char_candidate c in \<open>auto simp: wrap_step_pure_def candidate_char_def is_word_char_def Let_def\<close>)
  next
    case (Element_candidate w n)
    show ?thesis
      by (rule that [of "ws_prev_c s" True "ws_prev_c s = space"])
        (use Element_candidate in \<open>simp_all add: wrap_step_pure_def Let_def\<close>)
  qed
  note mark = mark_inv [OF inv c W refl white]
  show ?thesis
    using add_item [OF mark(1) c W mark(2)] wrap_at_item [OF mark(1) c W mark(2)] unfolding step mark(3,4)
    by (auto split: option.splits prod.splits simp del: items_simps)
qed

lemma wrap_pure_lines:
  assumes W: "\<And>x. 0 \<le> W x"
  shows "wrap_inv W wrap_width l s \<Longrightarrow> list_all plain_item cs \<Longrightarrow>
    lines_ok W wrap_width (ws_last_wrap_ix s) (indent_of W (ws_indent s)) (wrap_pure W wrap_width cs s) (l @ cs)"
proof (induction cs arbitrary: l s)
  case Nil
  then show ?case by (simp add: wrap_inv_def line_inv_def)
next
  case (Cons c cs)
  then have c: "plain_item c" and cs: "list_all plain_item cs" by simp_all
  note step = wrap_step_line [OF Cons.prems(1) c W]
  obtain ob s' where r: "wrap_step_pure W wrap_width c s = (ob, s')" by (cases "wrap_step_pure W wrap_width c s")
  show ?case
  proof (cases ob)
    case None
    with step r Cons.IH [of "l @ [c]" s'] cs show ?thesis by simp
  next
    case (Some b)
    with step r obtain l1 l2 where l12: "l @ [c] = l1 @ l2" "l1 \<noteq> []" "line_fits W wrap_width (indent_of W (ws_indent s)) l1"
      "bnd_ix b = ws_last_wrap_ix s + items_len l1" "ws_last_wrap_ix s' = bnd_ix b"
      "W space * of_nat (bnd_next_indent b) = indent_of W (ws_indent s')" "wrap_inv W wrap_width l2 s'" by auto
    have "l @ c # cs = l1 @ (l2 @ cs)" using arg_cong [OF l12(1), of "\<lambda>x. x @ cs"] by simp
    with Cons.IH [OF l12(7) cs] l12(2-6) show ?thesis
      by (simp add: r Some) (intro exI [of _ l1] exI [of _ "l2 @ cs"], simp)
  qed
qed

text \<open>
  Wrapping a line without newlines cuts its characters and inline elements into nonempty
  lines: each boundary is the byte index where a line starts, and every line, with the indent the
  boundary announces, fits the width except possibly for its last item.  The cache of widths stays
  correct, and the boundaries are those of uncached widths.
\<close>

theorem wrap_line_fits:
  assumes "cache_ok layout_width W w" and "\<And>c. 0 \<le> W c"
    and "list_all plain_item (concat (map wrap_boundary_candidates fragments))"
  shows "\<exists>bs w'. wrap_line layout_width fragments wrap_width w = (bs, w') \<and> cache_ok layout_width W w' \<and>
    lines_ok W wrap_width 0 0 bs (concat (map wrap_boundary_candidates fragments))"
proof -
  let ?cs = "concat (map wrap_boundary_candidates fragments)"
  have "lines_ok W wrap_width 0 0 (wrap_pure W wrap_width ?cs wrap_start) ?cs"
    using wrap_pure_lines [OF assms(2) wrap_inv_start assms(3)] by (simp add: wrap_start_def indent_of_def)
  with wrap_candidates_pure [OF assms(1), of wrap_width ?cs wrap_start] show ?thesis
    by (metis prod.collapse wrap_line_def)
qed

definition hello_words :: "rat line_fragment list" where
  "hello_words = [Text_fragment [32, 97, 98, 32, 99, 100, 101], Element_fragment 2 1, Text_fragment [102]]"

lemma wrap_line_fits_witness:
  "\<exists>bs w'. wrap_line (\<lambda>_ _ _. 1) hello_words 4 (line_wrapper_new () 16) = (bs, w') \<and>
     cache_ok (\<lambda>_ _ _. 1) (\<lambda>_. 1) w' \<and>
     lines_ok (\<lambda>_. 1) 4 0 0 bs (concat (map wrap_boundary_candidates hello_words))"
  by (rule wrap_line_fits) (simp_all add: cache_ok_def line_wrapper_new_def compute_width_for_char_def hello_words_def)

section \<open>Truncation\<close>

record 'x text_run =
  tr_len :: nat
  tr_style :: 'x

fun char_indices_from :: "nat \<Rightarrow> uchar list \<Rightarrow> (nat \<times> uchar) list" where
  "char_indices_from ix [] = []"
| "char_indices_from ix (c # cs) = (ix, c) # char_indices_from (ix + char_len_utf8 c) cs"

text \<open>The slice up to a byte index; an index inside a character panics.\<close>

fun slice_to :: "nat \<Rightarrow> uchar list \<Rightarrow> uchar list option" where
  "slice_to 0 cs = Some []"
| "slice_to (Suc n) [] = None"
| "slice_to (Suc n) (c # cs) =
     (if char_len_utf8 c \<le> Suc n then map_option (Cons c) (slice_to (Suc n - char_len_utf8 c) cs) else None)"

fun widths_sum :: "('f \<Rightarrow> 'a::linordered_field \<Rightarrow> uchar \<Rightarrow> 'a) \<Rightarrow> 'a \<Rightarrow> uchar list \<Rightarrow> ('f, 'a) line_wrapper \<Rightarrow>
    'a \<times> ('f, 'a) line_wrapper" where
  "widths_sum layout_width acc [] w = (acc, w)"
| "widths_sum layout_width acc (c # cs) w =
     (let (x, w) = width_for_char layout_width c w in widths_sum layout_width (acc + x) cs w)"

text \<open>The loop that looks for the place to cut: the index when the line is too long.\<close>

fun truncate_at :: "('f \<Rightarrow> 'a::floor_ceiling \<Rightarrow> uchar \<Rightarrow> 'a) \<Rightarrow> 'a \<Rightarrow> 'a \<Rightarrow> (nat \<times> uchar) list \<Rightarrow> nat \<Rightarrow> 'a \<Rightarrow>
    ('f, 'a) line_wrapper \<Rightarrow> nat option \<times> ('f, 'a) line_wrapper" where
  "truncate_at layout_width truncate_width suffix_width [] truncate_ix width w = (None, w)"
| "truncate_at layout_width truncate_width suffix_width ((ix, c) # cs) truncate_ix width w =
     (let truncate_ix = (if width + suffix_width < truncate_width then ix else truncate_ix);
          (char_width, w) = width_for_char layout_width c w;
          width = width + char_width
      in if truncate_width < of_int \<lfloor>width\<rfloor> then (Some truncate_ix, w)
         else truncate_at layout_width truncate_width suffix_width cs truncate_ix width w)"

fun cut_runs :: "nat \<Rightarrow> nat \<Rightarrow> 'x text_run list \<Rightarrow> 'x text_run list" where
  "cut_runs n ellipsis [] = []"
| "cut_runs n ellipsis (run # runs) =
     (if tr_len run \<le> n then run # cut_runs (n - tr_len run) ellipsis runs
      else [run\<lparr>tr_len := n + ellipsis\<rparr>])"

definition update_runs_after_truncation :: "uchar list \<Rightarrow> uchar list \<Rightarrow> 'x text_run list \<Rightarrow> 'x text_run list" where
  "update_runs_after_truncation result ellipsis runs = cut_runs (text_len result - text_len ellipsis) (text_len ellipsis) runs"

definition truncate_line :: "('f \<Rightarrow> 'a::floor_ceiling \<Rightarrow> uchar \<Rightarrow> 'a) \<Rightarrow> uchar list \<Rightarrow> 'a \<Rightarrow> uchar list \<Rightarrow> 'x text_run list \<Rightarrow>
    ('f, 'a) line_wrapper \<Rightarrow> ((uchar list \<times> 'x text_run list) \<times> ('f, 'a) line_wrapper) option" where
  "truncate_line layout_width line truncate_width truncation_suffix runs w =
     (let (suffix_width, w) = widths_sum layout_width 0 truncation_suffix w;
          (cut, w) = truncate_at layout_width truncate_width suffix_width (char_indices_from 0 line) 0 0 w
      in case cut of
           None \<Rightarrow> Some ((line, runs), w)
         | Some truncate_ix \<Rightarrow> map_option
             (\<lambda>prefix. (let result = prefix @ truncation_suffix
                        in ((result, update_runs_after_truncation result truncation_suffix runs), w)))
             (slice_to truncate_ix line))"

definition text_width :: "(uchar \<Rightarrow> 'a::linordered_field) \<Rightarrow> uchar list \<Rightarrow> 'a" where
  "text_width W cs = sum_list (map W cs)"

definition runs_len :: "'x text_run list \<Rightarrow> nat" where
  "runs_len runs = sum_list (map tr_len runs)"

lemma text_simps [simp]:
  "text_len [] = 0" "text_len (c # cs) = char_len_utf8 c + text_len cs" "text_len (cs @ ds) = text_len cs + text_len ds"
  "text_width W [] = 0" "text_width W (c # cs) = W c + text_width W cs" "text_width W (cs @ ds) = text_width W cs + text_width W ds"
  "runs_len [] = 0" "runs_len (r # rs) = tr_len r + runs_len rs"
  by (simp_all add: text_len_def text_width_def runs_len_def)

lemma slice_to_append: "slice_to (text_len cs) (cs @ ds) = Some cs"
proof (induction cs)
  case (Cons c cs)
  obtain n where n: "text_len (c # cs) = Suc n" by (metis add_is_0 char_len_utf8_pos not0_implies_Suc not_gr_zero text_simps(2))
  then have "Suc n - char_len_utf8 c = text_len cs" "char_len_utf8 c \<le> Suc n" by simp_all
  with Cons n show ?case by (simp del: text_simps)
qed simp

lemma cut_runs_len: "n < runs_len runs \<Longrightarrow> runs_len (cut_runs n e runs) = n + e"
  by (induction n e runs rule: cut_runs.induct) auto

lemma widths_sum_cached:
  "cache_ok layout_width W w \<Longrightarrow> \<exists>w'. widths_sum layout_width acc cs w = (acc + text_width W cs, w') \<and> cache_ok layout_width W w'"
proof (induction cs arbitrary: acc w)
  case (Cons c cs)
  obtain w1 where "width_for_char layout_width c w = (W c, w1)" "cache_ok layout_width W w1"
    using width_for_char_cached [OF Cons.prems, of c] by (metis prod.collapse)
  with Cons.IH [of w1 "acc + W c"] show ?case by (auto simp: add.assoc)
qed simp

text \<open>The cut is after a prefix that leaves room for the suffix, or at the start.\<close>

definition cut_ok :: "(uchar \<Rightarrow> 'a::floor_ceiling) \<Rightarrow> 'a \<Rightarrow> 'a \<Rightarrow> uchar list \<Rightarrow> nat option \<Rightarrow> bool" where
  "cut_ok W sw tw line r \<longleftrightarrow> (case r of
     None \<Rightarrow> line = [] \<or> of_int \<lfloor>text_width W line\<rfloor> \<le> tw
   | Some k \<Rightarrow> \<exists>p q. line = p @ q \<and> q \<noteq> [] \<and> k = text_len p \<and> (p = [] \<or> text_width W p + sw < tw))"

lemma truncate_at_cut:
  assumes "cache_ok layout_width W w" and "front = pre @ mid" "width = text_width W front" "ix = text_len pre"
    and "pre = [] \<or> text_width W pre + sw < tw" "front = [] \<or> of_int \<lfloor>width\<rfloor> \<le> tw"
  shows "\<exists>r w'. truncate_at layout_width tw sw (char_indices_from (text_len front) cs) ix width w = (r, w') \<and>
    cache_ok layout_width W w' \<and> cut_ok W sw tw (front @ cs) r"
  using assms
proof (induction cs arbitrary: w front pre mid width ix)
  case (Cons c cs)
  obtain w1 where w1: "width_for_char layout_width c w = (W c, w1)" "cache_ok layout_width W w1"
    using width_for_char_cached [OF Cons.prems(1), of c] by (metis prod.collapse)
  define ix' where "ix' = (if width + sw < tw then text_len front else ix)"
  define pre' where "pre' = (if width + sw < tw then front else pre)"
  obtain mid' where mid': "front @ [c] = pre' @ mid'" "mid' \<noteq> []"
    using Cons.prems(2) by (cases "width + sw < tw") (auto simp: pre'_def)
  have pre': "ix' = text_len pre'" "pre' = [] \<or> text_width W pre' + sw < tw"
    using Cons.prems(3,4,5) by (auto simp: ix'_def pre'_def)
  have width': "width + W c = text_width W (front @ [c])" using Cons.prems(3) by simp
  have line: "front @ c # cs = (front @ [c]) @ cs" by simp
  let ?run = "truncate_at layout_width tw sw (char_indices_from (text_len front) (c # cs)) ix width w"
  show ?case
  proof (cases "tw < of_int \<lfloor>width + W c\<rfloor>")
    case True
    then have "?run = (Some ix', w1)" using w1(1) by (simp add: ix'_def Let_def)
    moreover have "cut_ok W sw tw (front @ c # cs) (Some ix')"
      unfolding cut_ok_def line mid'(1) option.case using pre' mid'(2) by (intro exI [of _ pre'] exI [of _ "mid' @ cs"]) simp
    ultimately show ?thesis using w1(2) by blast
  next
    case False
    have "?run = truncate_at layout_width tw sw (char_indices_from (text_len (front @ [c])) cs) ix' (width + W c) w1"
      using False w1(1) by (simp add: ix'_def Let_def)
    moreover have "front @ [c] = [] \<or> of_int \<lfloor>width + W c\<rfloor> \<le> tw" using False by simp
    ultimately show ?thesis using Cons.IH [OF w1(2) mid'(1) width' pre'] unfolding line by presburger
  qed
qed (simp add: cut_ok_def)

text \<open>
  Truncating never panics.  The result is the line itself, with a width that rounds down to
  within the limit, or a proper prefix of the line with the suffix, which fits unless the prefix is
  empty; the text runs, cut likewise, cover exactly the result.
\<close>

theorem truncate_line_fits:
  assumes "cache_ok layout_width W w" and "runs_len runs = text_len line"
  shows "\<exists>result runs' w'. truncate_line layout_width line truncate_width suffix runs w = Some ((result, runs'), w') \<and>
    cache_ok layout_width W w' \<and> runs_len runs' = text_len result \<and>
    (result = line \<and> runs' = runs \<and> (line = [] \<or> of_int \<lfloor>text_width W line\<rfloor> \<le> truncate_width) \<or>
     (\<exists>p q. line = p @ q \<and> q \<noteq> [] \<and> result = p @ suffix \<and> (p = [] \<or> text_width W result < truncate_width)))"
proof -
  obtain w1 where w1: "widths_sum layout_width 0 suffix w = (text_width W suffix, w1)" "cache_ok layout_width W w1"
    using widths_sum_cached [OF assms(1), of 0 suffix] by auto
  obtain r w2 where r: "truncate_at layout_width truncate_width (text_width W suffix) (char_indices_from 0 line) 0 0 w1 = (r, w2)"
    "cache_ok layout_width W w2" "cut_ok W (text_width W suffix) truncate_width line r"
    using truncate_at_cut [OF w1(2), of "[]" "[]" "[]" 0 0 "text_width W suffix" truncate_width line] by auto
  show ?thesis
  proof (cases r)
    case None
    with r w1 assms(2) show ?thesis by (auto simp: truncate_line_def cut_ok_def)
  next
    case (Some k)
    then obtain p q where pq: "line = p @ q" "q \<noteq> []" "k = text_len p" "p = [] \<or> text_width W p + text_width W suffix < truncate_width"
      using r(3) by (auto simp: cut_ok_def)
    have "text_len p < runs_len runs" using pq(1,2) assms(2) by (cases q) simp_all
    then have "runs_len (update_runs_after_truncation (p @ suffix) suffix runs) = text_len (p @ suffix)"
      by (simp add: update_runs_after_truncation_def cut_runs_len)
    moreover have "truncate_line layout_width line truncate_width suffix runs w =
        Some ((p @ suffix, update_runs_after_truncation (p @ suffix) suffix runs), w2)"
      using w1(1) r(1) Some pq(1,3) by (simp add: truncate_line_def Let_def slice_to_append)
    ultimately show ?thesis using r(2) pq by (intro exI [of _ "p @ suffix"]) auto
  qed
qed

lemma truncate_line_fits_witness:
  "\<exists>result runs' w'. truncate_line (\<lambda>_ _ _. 1 :: rat) [97, 98, 99, 100] 3 [46] [\<lparr>tr_len = 4, tr_style = ()\<rparr>]
       (line_wrapper_new () 16) = Some ((result, runs'), w') \<and> cache_ok (\<lambda>_ _ _. 1) (\<lambda>_. 1) w' \<and> runs_len runs' = text_len result"
proof -
  have cache: "cache_ok (\<lambda>_ _ _. 1 :: rat) (\<lambda>_. 1) (line_wrapper_new () 16)"
    by (simp add: cache_ok_def line_wrapper_new_def compute_width_for_char_def)
  have runs: "runs_len [\<lparr>tr_len = 4, tr_style = ()\<rparr>] = text_len [97, 98, 99, 100]" by (simp add: char_len_utf8_def)
  show ?thesis
    by (rule exE [OF truncate_line_fits [OF cache runs, of 3 "[46]"]], elim exE conjE, intro exI conjI)
qed

end
