(* ===== verification/Line_Layout.thy ===== *)
theory Line_Layout
  imports Line_Wrapper Geometry "HOL-Library.Product_Lexorder"
begin

text \<open>
  Laid out lines, from \<open>src/src/text_system/line_layout.rs\<close>: the positions of the glyphs of a line,
  where the line wraps, and the way between byte indices and positions, on the line and on its
  wrapped form.  Coordinates are elements of an ordered field; the index of a run or glyph out of
  range, and \<open>unwrap\<close> of \<open>None\<close>, are panics.
\<close>

section \<open>Lines\<close>

record 'a shaped_glyph =
  sg_id :: nat
  sg_position :: "'a point"
  sg_index :: nat
  sg_is_emoji :: bool

record ('f, 'a) shaped_run =
  sr_font_id :: 'f
  sr_glyphs :: "'a shaped_glyph list"

record ('f, 'a) line_layout =
  ll_font_size :: 'a
  ll_width :: 'a
  ll_ascent :: 'a
  ll_descent :: 'a
  ll_runs :: "('f, 'a) shaped_run list"
  ll_len :: nat

abbreviation glyph_x :: "'a shaped_glyph \<Rightarrow> 'a" where
  "glyph_x g \<equiv> pt_x (sg_position g)"

text \<open>The glyphs, in the order of the two nested loops.\<close>

definition glyphs :: "('f, 'a) line_layout \<Rightarrow> 'a shaped_glyph list" where
  "glyphs l = concat (map sr_glyphs (ll_runs l))"

definition index_for_x :: "'a::linordered_field \<Rightarrow> ('f, 'a) line_layout \<Rightarrow> nat option" where
  "index_for_x x l =
     (if ll_width l \<le> x then None
      else case List.find (\<lambda>g. glyph_x g \<le> x) (concat (map (\<lambda>r. rev (sr_glyphs r)) (rev (ll_runs l)))) of
             Some g \<Rightarrow> Some (sg_index g)
           | None \<Rightarrow> Some 0)"

fun closest_loop :: "'a::linordered_field \<Rightarrow> 'a shaped_glyph list \<Rightarrow> nat \<Rightarrow> 'a \<Rightarrow> nat option" where
  "closest_loop x [] prev_index prev_x = None"
| "closest_loop x (g # gs) prev_index prev_x =
     (if x \<le> glyph_x g then Some (if glyph_x g - x < x - prev_x then sg_index g else prev_index)
      else closest_loop x gs (sg_index g) (glyph_x g))"

definition closest_index_for_x :: "'a::linordered_field \<Rightarrow> ('f, 'a) line_layout \<Rightarrow> nat" where
  "closest_index_for_x x l =
     (case closest_loop x (glyphs l) 0 0 of
        Some i \<Rightarrow> i
      | None \<Rightarrow> if ll_len l = 1 then (if ll_width l / 2 < x then 1 else 0) else ll_len l)"

definition x_for_index :: "nat \<Rightarrow> ('f, 'a) line_layout \<Rightarrow> 'a" where
  "x_for_index index l = (case List.find (\<lambda>g. index \<le> sg_index g) (glyphs l) of
     Some g \<Rightarrow> glyph_x g | None \<Rightarrow> ll_width l)"

definition font_id_for_index :: "nat \<Rightarrow> ('f, 'a) line_layout \<Rightarrow> 'f option" where
  "font_id_for_index index l =
     map_option fst (List.find (\<lambda>(f, g). index \<le> sg_index g)
       (concat (map (\<lambda>r. map (Pair (sr_font_id r)) (sr_glyphs r)) (ll_runs l))))"

lemma rev_glyphs: "concat (map (\<lambda>r. rev (sr_glyphs r)) (rev (ll_runs l))) = rev (glyphs l)"
  by (simp add: glyphs_def rev_concat rev_map comp_def)

section \<open>Where a line wraps\<close>

text \<open>A wrap boundary is a pair of a run and a glyph in it, ordered lexicographically.\<close>

type_synonym wrap_boundary = "nat \<times> nat"

text \<open>\<open>text[i..].chars().next().unwrap()\<close>\<close>

fun char_at :: "uchar list \<Rightarrow> nat \<Rightarrow> uchar option" where
  "char_at [] i = None"
| "char_at (c # cs) i = (if i = 0 then Some c else if char_len_utf8 c \<le> i then char_at cs (i - char_len_utf8 c) else None)"

definition glyph_items :: "('f, 'a) line_layout \<Rightarrow> (wrap_boundary \<times> nat \<times> 'a) list" where
  "glyph_items l = concat (map (\<lambda>(run_ix, run).
     map (\<lambda>(glyph_ix, g). ((run_ix, glyph_ix), sg_index g, glyph_x g)) (List.enumerate 0 (sr_glyphs run)))
     (List.enumerate 0 (ll_runs l)))"

record 'a boundary_state =
  bs_boundaries :: "wrap_boundary list"
  bs_non_white :: bool
  bs_last_candidate :: "wrap_boundary option"
  bs_last_candidate_x :: 'a
  bs_last_boundary :: wrap_boundary
  bs_last_boundary_x :: 'a
  bs_prev_ch :: uchar

definition boundary_start :: "'a::zero boundary_state" where
  "boundary_start = \<lparr>bs_boundaries = [], bs_non_white = False, bs_last_candidate = None, bs_last_candidate_x = 0,
     bs_last_boundary = (0, 0), bs_last_boundary_x = 0, bs_prev_ch = 0\<rparr>"

text \<open>The body of the loop for a glyph whose character is not a newline: \<open>None\<close> breaks it.\<close>

definition note_candidate :: "wrap_boundary \<Rightarrow> uchar \<Rightarrow> 'a \<Rightarrow> 'a boundary_state \<Rightarrow> 'a boundary_state" where
  "note_candidate b ch x s =
     (let s = (if candidate_char (bs_prev_ch s) ch \<and> bs_non_white s
               then s\<lparr>bs_last_candidate := Some b, bs_last_candidate_x := x\<rparr> else s)
      in if ch \<noteq> space \<and> \<not> bs_non_white s then s\<lparr>bs_non_white := True\<rparr> else s)"

definition boundary_step :: "'a::linordered_field \<Rightarrow> nat option \<Rightarrow> wrap_boundary \<Rightarrow> uchar \<Rightarrow> 'a \<Rightarrow> 'a \<Rightarrow>
    'a boundary_state \<Rightarrow> 'a boundary_state option" where
  "boundary_step wrap_width max_lines b ch x next_x s =
     (let s = note_candidate b ch x s in
      if wrap_width < next_x - bs_last_boundary_x s \<and> bs_last_boundary s < b then
        if (case max_lines of Some n \<Rightarrow> n - 1 \<le> length (bs_boundaries s) | None \<Rightarrow> False) then None
        else
          (let s = (case bs_last_candidate s of
                 Some c \<Rightarrow> s\<lparr>bs_last_candidate := None, bs_last_boundary := c, bs_last_boundary_x := bs_last_candidate_x s\<rparr>
               | None \<Rightarrow> s\<lparr>bs_last_boundary := b, bs_last_boundary_x := x\<rparr>)
           in Some (s\<lparr>bs_boundaries := bs_boundaries s @ [bs_last_boundary s], bs_prev_ch := ch\<rparr>))
      else Some (s\<lparr>bs_prev_ch := ch\<rparr>))"

text \<open>The character of a glyph is read when the glyph is taken or looked at ahead.  \<open>max_lines - 1\<close> with
  no lines panics where overflow is checked.\<close>

fun boundary_loop :: "uchar list \<Rightarrow> 'a::linordered_field \<Rightarrow> 'a \<Rightarrow> nat option \<Rightarrow> (wrap_boundary \<times> nat \<times> 'a) list \<Rightarrow>
    'a boundary_state \<Rightarrow> wrap_boundary list option" where
  "boundary_loop text width wrap_width max_lines [] s = Some (bs_boundaries s)"
| "boundary_loop text width wrap_width max_lines ((b, i, x) # gs) s =
     (case char_at text i of
        None \<Rightarrow> None
      | Some ch \<Rightarrow>
          if ch = 10 then boundary_loop text width wrap_width max_lines gs s
          else
            (case (case gs of [] \<Rightarrow> Some width | (_, j, x') # _ \<Rightarrow> map_option (\<lambda>_. x') (char_at text j)) of
               None \<Rightarrow> None
             | Some next_x \<Rightarrow>
                 if max_lines = Some 0 \<and> wrap_width < next_x - bs_last_boundary_x s \<and> bs_last_boundary s < b then None
                 else (case boundary_step wrap_width max_lines b ch x next_x s of
                         None \<Rightarrow> Some (bs_boundaries s)
                       | Some s \<Rightarrow> boundary_loop text width wrap_width max_lines gs s)))"

definition compute_wrap_boundaries :: "uchar list \<Rightarrow> 'a::linordered_field \<Rightarrow> nat option \<Rightarrow> ('f, 'a) line_layout \<Rightarrow>
    wrap_boundary list option" where
  "compute_wrap_boundaries text wrap_width max_lines l =
     boundary_loop text (ll_width l) wrap_width max_lines (glyph_items l) boundary_start"

section \<open>Wrapped lines\<close>

record ('f, 'a) wrapped_line_layout =
  wl_unwrapped_layout :: "('f, 'a) line_layout"
  wl_wrap_boundaries :: "wrap_boundary list"
  wl_wrap_width :: "'a option"

definition wrapped_len :: "('f, 'a) wrapped_line_layout \<Rightarrow> nat" where
  "wrapped_len w = ll_len (wl_unwrapped_layout w)"

text \<open>\<open>Pixels::MAX\<close> is above the width of every line.\<close>

definition wrapped_width :: "('f, 'a::linorder) wrapped_line_layout \<Rightarrow> 'a" where
  "wrapped_width w = (case wl_wrap_width w of
     None \<Rightarrow> ll_width (wl_unwrapped_layout w) | Some ww \<Rightarrow> min ww (ll_width (wl_unwrapped_layout w)))"

definition wrapped_size :: "'a::linordered_field \<Rightarrow> ('f, 'a) wrapped_line_layout \<Rightarrow> 'a size2" where
  "wrapped_size line_height w = Size (wrapped_width w) (line_height * of_nat (length (wl_wrap_boundaries w) + 1))"

definition boundary_glyph :: "('f, 'a) wrapped_line_layout \<Rightarrow> wrap_boundary \<Rightarrow> 'a shaped_glyph option" where
  "boundary_glyph w b =
     (let runs = ll_runs (wl_unwrapped_layout w) in
      if fst b < length runs \<and> snd b < length (sr_glyphs (runs ! fst b)) then Some (sr_glyphs (runs ! fst b) ! snd b)
      else None)"

text \<open>\<open>(y / line_height) as usize\<close> truncates, and saturates at 0.\<close>

definition raw_index_for_position :: "bool \<Rightarrow> 'a::floor_ceiling point \<Rightarrow> 'a \<Rightarrow> ('f, 'a) wrapped_line_layout \<Rightarrow>
    (nat, nat) result option" where
  "raw_index_for_position closest position line_height w =
     (let line_ix = nat \<lfloor>pt_y position / line_height\<rfloor>; boundaries = wl_wrap_boundaries w; l = wl_unwrapped_layout w in
      if 0 < line_ix \<and> length boundaries \<le> line_ix - 1 then Some (Inl 0)
      else
        Option.bind
          (if 0 < line_ix then map_option (\<lambda>g. (sg_index g, glyph_x g)) (boundary_glyph w (boundaries ! (line_ix - 1)))
           else Some (0, 0)) (\<lambda>(start_index, start_x).
        Option.bind
          (if line_ix < length boundaries then map_option (\<lambda>g. (sg_index g, glyph_x g)) (boundary_glyph w (boundaries ! line_ix))
           else Some (ll_len l, ll_width l)) (\<lambda>(end_index, end_x).
          (let x = pt_x position + start_x in
           if x < start_x then Some (Inl start_index)
           else if end_x \<le> x then Some (Inl end_index)
           else if closest then Some (Inr (closest_index_for_x x l))
           else map_option Inr (index_for_x x l)))))"

definition index_for_position :: "'a::floor_ceiling point \<Rightarrow> 'a \<Rightarrow> ('f, 'a) wrapped_line_layout \<Rightarrow> (nat, nat) result option" where
  "index_for_position = raw_index_for_position False"

definition closest_index_for_position :: "'a::floor_ceiling point \<Rightarrow> 'a \<Rightarrow> ('f, 'a) wrapped_line_layout \<Rightarrow> (nat, nat) result option" where
  "closest_index_for_position = raw_index_for_position True"

text \<open>The loop over the ends of the wrapped lines; an end that is out of range panics when it is reached.\<close>

fun position_loop :: "nat \<Rightarrow> 'a::linordered_field \<Rightarrow> ('f, 'a) line_layout \<Rightarrow> nat \<Rightarrow> nat \<Rightarrow> nat option list \<Rightarrow> 'a point option option" where
  "position_loop index line_height l ix line_start [] = Some None"
| "position_loop index line_height l ix line_start (None # ends) = None"
| "position_loop index line_height l ix line_start (Some line_end # ends) =
     (if index < line_start then Some None
      else if line_end < index then position_loop index line_height l (Suc ix) line_end ends
      else Some (Some (Point (x_for_index index l - x_for_index line_start l) (of_nat ix * line_height))))"

definition position_for_index :: "nat \<Rightarrow> 'a::linordered_field \<Rightarrow> ('f, 'a) wrapped_line_layout \<Rightarrow> 'a point option option" where
  "position_for_index index line_height w =
     position_loop index line_height (wl_unwrapped_layout w) 0 0
       (map (\<lambda>b. map_option sg_index (boundary_glyph w b)) (wl_wrap_boundaries w) @ [Some (wrapped_len w)])"

section \<open>Between indices and positions\<close>

text \<open>Glyphs that advance, as in a line of left-to-right text without zero-width glyphs.\<close>

definition advancing :: "('f, 'a::linordered_field) line_layout \<Rightarrow> bool" where
  "advancing l \<longleftrightarrow>
     sorted_wrt (\<lambda>g h. glyph_x g < glyph_x h \<and> sg_index g < sg_index h) (glyphs l) \<and>
     list_all (\<lambda>g. glyph_x g < ll_width l \<and> sg_index g < ll_len l) (glyphs l)"

lemma find_sorted:
  assumes "sorted_wrt R xs" and "x \<in> set xs" and "P x" and "\<And>y. R y x \<Longrightarrow> \<not> P y"
  shows "List.find P xs = Some x"
  using assms(1,2)
proof (induction xs)
  case (Cons y ys)
  then show ?case using assms(3,4) by auto
qed simp

lemma x_for_glyph: "advancing l \<Longrightarrow> g \<in> set (glyphs l) \<Longrightarrow> x_for_index (sg_index g) l = glyph_x g"
  unfolding x_for_index_def advancing_def
  by (subst find_sorted [where x = g and R = "\<lambda>g h. glyph_x g < glyph_x h \<and> sg_index g < sg_index h"]) auto

lemma index_for_glyph: "advancing l \<Longrightarrow> g \<in> set (glyphs l) \<Longrightarrow> index_for_x (glyph_x g) l = Some (sg_index g)"
proof -
  assume l: "advancing l" and g: "g \<in> set (glyphs l)"
  have "sorted_wrt (\<lambda>h g. glyph_x g < glyph_x h \<and> sg_index g < sg_index h) (rev (glyphs l))"
    using l by (simp add: advancing_def sorted_wrt_rev)
  then have "List.find (\<lambda>h. glyph_x h \<le> glyph_x g) (rev (glyphs l)) = Some g"
    using find_sorted [of _ "rev (glyphs l)" g "\<lambda>h. glyph_x h \<le> glyph_x g"] g by auto
  moreover have "glyph_x g < ll_width l" using l g by (auto simp: advancing_def list_all_iff)
  ultimately show ?thesis by (simp add: index_for_x_def rev_glyphs)
qed

lemma x_for_len: "advancing l \<Longrightarrow> x_for_index (ll_len l) l = ll_width l"
proof -
  assume "advancing l"
  then have "List.find (\<lambda>g. ll_len l \<le> sg_index g) (glyphs l) = None"
    by (fastforce simp: find_None_iff advancing_def list_all_iff)
  then show ?thesis by (simp add: x_for_index_def)
qed

text \<open>An advancing line that starts at 0 and wraps at some of its glyphs, in order.\<close>

definition wrapped_ok :: "('f, 'a::linordered_field) wrapped_line_layout \<Rightarrow> bool" where
  "wrapped_ok w \<longleftrightarrow> (let l = wl_unwrapped_layout w in
     advancing l \<and> glyphs l \<noteq> [] \<and> glyph_x (hd (glyphs l)) = 0 \<and>
     (\<exists>gs. map (boundary_glyph w) (wl_wrap_boundaries w) = map Some gs \<and>
        sorted_wrt (\<lambda>g h. sg_index g < sg_index h) gs \<and> set gs \<subseteq> set (glyphs l)))"

lemma position_loop_spec:
  assumes "sorted_wrt (<) es" and "es \<noteq> []" and "index \<le> last es" and "line_start \<le> index"
  shows "\<exists>k < length es. position_loop index lh l ix line_start (map Some es) =
      Some (Some (Point (x_for_index index l - x_for_index (if k = 0 then line_start else es ! (k - 1)) l) (of_nat (ix + k) * lh))) \<and>
    index \<le> es ! k \<and> (k = 0 \<or> es ! (k - 1) < index)"
  using assms
proof (induction es arbitrary: ix line_start)
  case (Cons e es)
  show ?case
  proof (cases "index \<le> e")
    case True
    with Cons.prems show ?thesis by (intro exI [of _ 0]) simp
  next
    case False
    with Cons.prems have es: "es \<noteq> []" "index \<le> last es" "sorted_wrt (<) es" "e \<le> index" by (auto split: if_splits)
    obtain k where k: "k < length es" "position_loop index lh l (Suc ix) e (map Some es) =
      Some (Some (Point (x_for_index index l - x_for_index (if k = 0 then e else es ! (k - 1)) l) (of_nat (Suc ix + k) * lh)))"
      "index \<le> es ! k" "k = 0 \<or> es ! (k - 1) < index"
      using Cons.IH [OF es(3,1,2,4), of "Suc ix"] by blast
    have "(e # es) ! (Suc k - 1) = (if k = 0 then e else es ! (k - 1))" by (simp add: nth_Cons')
    with k False Cons.prems(4) show ?thesis by (intro exI [of _ "Suc k"]) auto
  qed
qed simp

lemma x_strict:
  assumes "advancing l" and "g \<in> set (glyphs l)" and "h \<in> set (glyphs l)" and "sg_index g < sg_index h"
  shows "glyph_x g < glyph_x h"
proof -
  obtain i j where ij: "i < length (glyphs l)" "g = glyphs l ! i" "j < length (glyphs l)" "h = glyphs l ! j"
    using assms(2,3) by (auto simp: in_set_conv_nth)
  have mono: "\<And>i j. i < j \<Longrightarrow> j < length (glyphs l) \<Longrightarrow> glyph_x (glyphs l ! i) < glyph_x (glyphs l ! j) \<and>
      sg_index (glyphs l ! i) < sg_index (glyphs l ! j)"
    using assms(1) sorted_wrt_nth_less [of "\<lambda>g h. glyph_x g < glyph_x h \<and> sg_index g < sg_index h" "glyphs l"]
    unfolding advancing_def by blast
  have "i < j"
  proof (rule ccontr)
    assume "\<not> i < j"
    then have "j = i \<or> j < i" by auto
    with mono [of j i] ij assms(4) show False by auto
  qed
  with mono ij show ?thesis by blast
qed

lemma wrappedE:
  assumes "wrapped_ok w"
  obtains gs where "advancing (wl_unwrapped_layout w)" "glyphs (wl_unwrapped_layout w) \<noteq> []"
    "glyph_x (hd (glyphs (wl_unwrapped_layout w))) = 0"
    "map (boundary_glyph w) (wl_wrap_boundaries w) = map Some gs"
    "sorted_wrt (\<lambda>g h. sg_index g < sg_index h) gs" "set gs \<subseteq> set (glyphs (wl_unwrapped_layout w))"
  using assms by (auto simp: wrapped_ok_def Let_def)

text \<open>Start and end of the wrapped line \<open>k\<close>, when the line wraps at the glyphs \<open>gs\<close>.\<close>

definition part_start :: "'a::zero shaped_glyph list \<Rightarrow> nat \<Rightarrow> nat \<times> 'a" where
  "part_start gs k = (if k = 0 then (0, 0) else (sg_index (gs ! (k - 1)), glyph_x (gs ! (k - 1))))"

definition part_end :: "('f, 'a) line_layout \<Rightarrow> 'a shaped_glyph list \<Rightarrow> nat \<Rightarrow> nat \<times> 'a" where
  "part_end l gs k = (if k < length gs then (sg_index (gs ! k), glyph_x (gs ! k)) else (ll_len l, ll_width l))"

lemma glyph_below:
  assumes "advancing l" and "g \<in> set (glyphs l)"
  shows "sg_index g < ll_len l" "glyph_x g < ll_width l"
  using assms by (auto simp: advancing_def list_all_iff)

lemma glyph_from_first:
  assumes "advancing l" and "g \<in> set (glyphs l)"
  shows "glyph_x (hd (glyphs l)) \<le> glyph_x g"
  using assms by (cases "glyphs l") (auto simp: advancing_def)

lemma glyph_in_part:
  assumes adv: "advancing l" and first: "glyph_x (hd (glyphs l)) = 0" and gs: "set gs \<subseteq> set (glyphs l)"
    and g: "g \<in> set (glyphs l)" and k: "k \<le> length gs"
    and bound: "k < length gs \<Longrightarrow> sg_index g \<le> sg_index (gs ! k)" "k \<noteq> 0 \<Longrightarrow> sg_index (gs ! (k - 1)) < sg_index g"
  shows "snd (part_start gs k) \<le> glyph_x g"
    "(sg_index g, glyph_x g) = part_end l gs k \<or> sg_index g < fst (part_end l gs k) \<and> glyph_x g < snd (part_end l gs k)"
proof -
  have in_glyphs: "j < length gs \<Longrightarrow> gs ! j \<in> set (glyphs l)" for j using gs by (meson nth_mem subsetD)
  show "snd (part_start gs k) \<le> glyph_x g"
  proof (cases "k = 0")
    case True
    with glyph_from_first [OF adv g] first show ?thesis by (simp add: part_start_def)
  next
    case False
    then have "k - 1 < length gs" using k by simp
    from x_strict [OF adv in_glyphs [OF this] g bound(2)] False show ?thesis by (simp add: part_start_def)
  qed
  show "(sg_index g, glyph_x g) = part_end l gs k \<or> sg_index g < fst (part_end l gs k) \<and> glyph_x g < snd (part_end l gs k)"
  proof (cases "k < length gs")
    case True
    have "glyph_x g = glyph_x (gs ! k)" if "sg_index g = sg_index (gs ! k)"
      using x_for_glyph [OF adv in_glyphs [OF True]] x_for_glyph [OF adv g] that by simp
    then show ?thesis
      using x_strict [OF adv g in_glyphs [OF True]] bound(1) True
      by (cases "sg_index g = sg_index (gs ! k)") (auto simp: part_end_def)
  next
    case False
    then show ?thesis using glyph_below [OF adv g] by (simp add: part_end_def)
  qed
qed

lemma line_end_in_part:
  assumes adv: "advancing l" and first: "glyph_x (hd (glyphs l)) = 0" "glyphs l \<noteq> []" and gs: "set gs \<subseteq> set (glyphs l)"
  shows "snd (part_start gs (length gs)) \<le> ll_width l" "part_end l gs (length gs) = (ll_len l, ll_width l)"
proof -
  have "hd (glyphs l) \<in> set (glyphs l)" using first(2) by simp
  from glyph_below(2) [OF adv this] have "0 \<le> ll_width l" using first(1) by simp
  moreover have "glyph_x (gs ! (length gs - 1)) < ll_width l" if "gs \<noteq> []"
    using glyph_below(2) [OF adv] gs that by (meson diff_less length_greater_0_conv nth_mem subsetD zero_less_one)
  ultimately show "snd (part_start gs (length gs)) \<le> ll_width l" by (auto simp: part_start_def less_imp_le)
qed (simp add: part_end_def)

text \<open>The wrapped line of a position, and where the index is sought on it.\<close>

lemma index_in_part:
  assumes gs: "map (boundary_glyph w) (wl_wrap_boundaries w) = map Some gs" and k: "k \<le> length gs"
    and x: "pt_x p + snd (part_start gs k) = x" and y: "nat \<lfloor>pt_y p / line_height\<rfloor> = k"
    and start: "snd (part_start gs k) \<le> x"
  shows "index_for_position p line_height w =
    (if snd (part_end (wl_unwrapped_layout w) gs k) \<le> x then Some (Inl (fst (part_end (wl_unwrapped_layout w) gs k)))
     else map_option Inr (index_for_x x (wl_unwrapped_layout w)))"
proof -
  have len: "length (wl_wrap_boundaries w) = length gs" using arg_cong [OF gs, of length] by simp
  have glyph_at: "boundary_glyph w (wl_wrap_boundaries w ! j) = Some (gs ! j)" if "j < length gs" for j
    using arg_cong [OF gs, of "\<lambda>x. x ! j"] that len by simp
  have s: "(if 0 < k then map_option (\<lambda>g. (sg_index g, glyph_x g)) (boundary_glyph w (wl_wrap_boundaries w ! (k - 1)))
      else Some (0, 0)) = Some (part_start gs k)" using glyph_at [of "k - 1"] k by (auto simp: part_start_def)
  have e: "(if k < length (wl_wrap_boundaries w) then map_option (\<lambda>g. (sg_index g, glyph_x g)) (boundary_glyph w (wl_wrap_boundaries w ! k))
      else Some (ll_len (wl_unwrapped_layout w), ll_width (wl_unwrapped_layout w))) = Some (part_end (wl_unwrapped_layout w) gs k)"
    using glyph_at [of k] len by (auto simp: part_end_def)
  show ?thesis
    unfolding index_for_position_def raw_index_for_position_def Let_def y s e
    using x start k len by (cases "part_start gs k"; cases "part_end (wl_unwrapped_layout w) gs k") auto
qed

text \<open>The wrapped line that the position of an index is on.\<close>

lemma position_in_part:
  assumes ok: "advancing (wl_unwrapped_layout w)" "glyphs (wl_unwrapped_layout w) \<noteq> []" "glyph_x (hd (glyphs (wl_unwrapped_layout w))) = 0"
    and gs: "map (boundary_glyph w) (wl_wrap_boundaries w) = map Some gs" "sorted_wrt (\<lambda>g h. sg_index g < sg_index h) gs"
      "set gs \<subseteq> set (glyphs (wl_unwrapped_layout w))"
    and index: "index \<le> wrapped_len w"
  obtains k where "k \<le> length gs" "position_for_index index line_height w =
      Some (Some (Point (x_for_index index (wl_unwrapped_layout w) - snd (part_start gs k)) (of_nat k * line_height)))"
    "k < length gs \<Longrightarrow> index \<le> sg_index (gs ! k)" "k \<noteq> 0 \<Longrightarrow> sg_index (gs ! (k - 1)) < index"
proof -
  let ?l = "wl_unwrapped_layout w"
  let ?es = "map sg_index gs @ [ll_len ?l]"
  have es: "sorted_wrt (<) ?es" using gs(2,3) glyph_below [OF ok(1)] by (auto simp: sorted_wrt_append sorted_wrt_map)
  have ends: "map (\<lambda>b. map_option sg_index (boundary_glyph w b)) (wl_wrap_boundaries w) = map Some (map sg_index gs)"
    using arg_cong [OF gs(1), of "map (map_option sg_index)"] by (simp add: comp_def)
  obtain k where k: "k < length ?es" "position_for_index index line_height w =
      Some (Some (Point (x_for_index index ?l - x_for_index (if k = 0 then 0 else ?es ! (k - 1)) ?l) (of_nat k * line_height)))"
    "index \<le> ?es ! k" "k = 0 \<or> ?es ! (k - 1) < index"
    using position_loop_spec [OF es, of index 0 line_height ?l 0] index
    by (auto simp: position_for_index_def ends wrapped_len_def)
  have k_len: "k \<le> length gs" using k(1) by simp
  have start: "x_for_index (if k = 0 then 0 else ?es ! (k - 1)) ?l = snd (part_start gs k)"
  proof (cases k)
    case 0
    then show ?thesis using ok(2,3) by (cases "glyphs ?l") (simp_all add: part_start_def x_for_index_def)
  next
    case (Suc j)
    then have "gs ! j \<in> set (glyphs ?l)" using gs(3) k_len by (meson Suc_le_lessD nth_mem subsetD)
    from x_for_glyph [OF ok(1) this] Suc k_len show ?thesis by (simp add: part_start_def nth_append)
  qed
  have "k < length gs \<Longrightarrow> index \<le> sg_index (gs ! k)" "k \<noteq> 0 \<Longrightarrow> sg_index (gs ! (k - 1)) < index"
    using k(3,4) k_len by (auto simp: nth_append split: if_splits)
  with that [OF k_len] k(2) start show ?thesis by simp
qed

text \<open>
  On an advancing line that wraps at its glyphs, the position of the byte index of a glyph, or
  of the end of the line, leads back to that index, either as an index of the line or as the end of
  a wrapped line.
\<close>

theorem wrapped_position_round_trip:
  assumes "wrapped_ok w" and "0 < line_height"
    and "index \<in> insert (wrapped_len w) (sg_index ` set (glyphs (wl_unwrapped_layout w)))"
  shows "\<exists>p r. position_for_index index line_height w = Some (Some p) \<and>
    index_for_position p line_height w = Some r \<and> (r = Inr index \<or> r = Inl index)"
proof -
  let ?l = "wl_unwrapped_layout w" and ?x = "x_for_index index (wl_unwrapped_layout w)"
  obtain gs where ok: "advancing ?l" "glyphs ?l \<noteq> []" "glyph_x (hd (glyphs ?l)) = 0"
    and gs: "map (boundary_glyph w) (wl_wrap_boundaries w) = map Some gs" "sorted_wrt (\<lambda>g h. sg_index g < sg_index h) gs"
      "set gs \<subseteq> set (glyphs ?l)" using assms(1) by (rule wrappedE)
  have "index \<le> wrapped_len w" using assms(3) glyph_below(1) [OF ok(1)] by (auto simp: wrapped_len_def intro: less_imp_le)
  from position_in_part [OF ok gs this, of line_height] obtain k where k: "k \<le> length gs"
    "position_for_index index line_height w = Some (Some (Point (?x - snd (part_start gs k)) (of_nat k * line_height)))"
    "k < length gs \<Longrightarrow> index \<le> sg_index (gs ! k)" "k \<noteq> 0 \<Longrightarrow> sg_index (gs ! (k - 1)) < index" by blast
  let ?p = "Point (?x - snd (part_start gs k)) (of_nat k * line_height)"
  have "snd (part_start gs k) \<le> ?x \<and> ((index, ?x) = part_end ?l gs k \<or>
      ?x < snd (part_end ?l gs k) \<and> index_for_x ?x ?l = Some index)"
  proof (cases "index = wrapped_len w")
    case True
    have "\<not> k < length gs"
    proof
      assume k_less: "k < length gs"
      then have "gs ! k \<in> set (glyphs ?l)" using gs(3) by (meson nth_mem subsetD)
      from glyph_below(1) [OF ok(1) this] k(3) [OF k_less] True show False by (simp add: wrapped_len_def)
    qed
    then show ?thesis using True k(1) line_end_in_part [OF ok(1,3,2) gs(3)] x_for_len [OF ok(1)] by (simp add: wrapped_len_def)
  next
    case False
    then obtain g where g: "g \<in> set (glyphs ?l)" "index = sg_index g" using assms(3) by blast
    from glyph_in_part [OF ok(1,3) gs(3) g(1) k(1)] k(3,4) x_for_glyph [OF ok(1) g(1)] index_for_glyph [OF ok(1) g(1)] g(2)
    show ?thesis by auto
  qed
  then have "index_for_position ?p line_height w = Some (Inr index) \<or> index_for_position ?p line_height w = Some (Inl index)"
    using index_in_part [OF gs(1) k(1), of ?p ?x line_height] assms(2) by (cases "part_end ?l gs k") auto
  with k(2) show ?thesis by blast
qed

definition two_words :: "(nat, rat) wrapped_line_layout" where
  "two_words = \<lparr>wl_unwrapped_layout = \<lparr>ll_font_size = 16, ll_width = 20, ll_ascent = 8, ll_descent = 2,
       ll_runs = [\<lparr>sr_font_id = 0, sr_glyphs = [\<lparr>sg_id = 5, sg_position = Point 0 0, sg_index = 0, sg_is_emoji = False\<rparr>,
         \<lparr>sg_id = 7, sg_position = Point 10 0, sg_index = 1, sg_is_emoji = False\<rparr>]\<rparr>], ll_len = 2\<rparr>,
     wl_wrap_boundaries = [(0, 1)], wl_wrap_width = Some 12\<rparr>"

lemma wrapped_position_round_trip_witness:
  "\<exists>p r. position_for_index 1 18 two_words = Some (Some p) \<and> index_for_position p 18 two_words = Some r \<and>
     (r = Inr 1 \<or> r = Inl 1)"
proof (rule wrapped_position_round_trip)
  have "map (boundary_glyph two_words) (wl_wrap_boundaries two_words) =
      map Some [\<lparr>sg_id = 7, sg_position = Point 10 0, sg_index = 1, sg_is_emoji = False\<rparr>]"
    by (simp add: two_words_def boundary_glyph_def)
  moreover have "set [\<lparr>sg_id = 7, sg_position = Point 10 0, sg_index = 1, sg_is_emoji = False\<rparr>] \<subseteq>
      set (glyphs (wl_unwrapped_layout two_words))" by (simp add: two_words_def glyphs_def)
  ultimately show "wrapped_ok two_words"
    unfolding wrapped_ok_def Let_def
    by (intro conjI exI) (assumption | simp add: two_words_def advancing_def glyphs_def)+
qed (simp_all add: two_words_def glyphs_def)

section \<open>The closest index\<close>

text \<open>The index found has the position closest to \<open>x\<close> among the glyphs.\<close>

lemma closest_loop_spec:
  assumes "sorted (map glyph_x (p # gs))" and "glyph_x p < x" and "x \<le> glyph_x (last (p # gs))"
  shows "\<exists>g \<in> set (p # gs). closest_loop x gs (sg_index p) (glyph_x p) = Some (sg_index g) \<and>
    (\<forall>h \<in> set (p # gs). \<bar>glyph_x g - x\<bar> \<le> \<bar>glyph_x h - x\<bar>)"
  using assms
proof (induction gs arbitrary: p)
  case (Cons q gs)
  show ?case
  proof (cases "x \<le> glyph_x q")
    case True
    define g where "g = (if glyph_x q - x < x - glyph_x p then q else p)"
    have "\<bar>glyph_x g - x\<bar> \<le> \<bar>glyph_x h - x\<bar>" if "h \<in> set (p # q # gs)" for h
    proof -
      have "h = p \<or> glyph_x q \<le> glyph_x h" using that Cons.prems(1) by auto
      then show ?thesis using True Cons.prems(2) by (auto simp: g_def)
    qed
    moreover have "closest_loop x (q # gs) (sg_index p) (glyph_x p) = Some (sg_index g)" using True by (simp add: g_def)
    moreover have "g \<in> set (p # q # gs)" by (simp add: g_def)
    ultimately show ?thesis by blast
  next
    case False
    then have q: "glyph_x q < x" by simp
    from Cons.IH [OF _ q] Cons.prems obtain g where g: "g \<in> set (q # gs)"
      "closest_loop x gs (sg_index q) (glyph_x q) = Some (sg_index g)"
      "\<forall>h \<in> set (q # gs). \<bar>glyph_x g - x\<bar> \<le> \<bar>glyph_x h - x\<bar>" by auto
    have "\<bar>glyph_x q - x\<bar> \<le> \<bar>glyph_x p - x\<bar>" using q Cons.prems(1) by auto
    with g have "\<forall>h \<in> set (p # q # gs). \<bar>glyph_x g - x\<bar> \<le> \<bar>glyph_x h - x\<bar>"
      by (metis list.set_intros(1) order_trans set_ConsD)
    with g(1,2) False show ?thesis by (intro bexI [of _ g]) simp_all
  qed
qed simp

lemma sorted_last_greatest: "sorted (map f xs) \<Longrightarrow> x \<in> set xs \<Longrightarrow> f x \<le> f (last xs)"
  by (induction xs) auto

text \<open>
  C1. For a line that starts at 0 with glyphs in order, \<open>closest_index_for_x\<close> gives the glyph closest
  to a coordinate up to the last glyph; past the start of the last glyph of a line of several bytes
  it gives the end of the line, however close the last glyph is.
\<close>

theorem closest_index_spec:
  assumes "sorted (map glyph_x (glyphs l))" and "glyphs l \<noteq> []" and "sg_index (hd (glyphs l)) = 0"
    and "glyph_x (hd (glyphs l)) = 0" and "0 \<le> x"
  shows "if x \<le> glyph_x (last (glyphs l))
    then \<exists>g \<in> set (glyphs l). closest_index_for_x x l = sg_index g \<and> (\<forall>h \<in> set (glyphs l). \<bar>glyph_x g - x\<bar> \<le> \<bar>glyph_x h - x\<bar>)
    else ll_len l \<noteq> 1 \<longrightarrow> closest_index_for_x x l = ll_len l"
proof -
  obtain p gs where gs: "glyphs l = p # gs" using assms(2) by (cases "glyphs l") auto
  have after: "closest_loop x hs i y = None" if "\<forall>h \<in> set hs. glyph_x h < x" for hs i y
    using that by (induction hs arbitrary: i y) auto
  show ?thesis
  proof (cases "x \<le> glyph_x (last (glyphs l))")
    case True
    show ?thesis
    proof (cases "x = 0")
      case True
      have "closest_index_for_x x l = sg_index p" using assms(3,4) True by (simp add: closest_index_for_x_def gs)
      moreover have "\<bar>glyph_x p - x\<bar> \<le> \<bar>glyph_x h - x\<bar>" for h using assms(4) True by (simp add: gs)
      ultimately show ?thesis using \<open>x \<le> glyph_x (last (glyphs l))\<close> by (auto simp: gs)
    next
      case False
      then have "glyph_x p < x" using assms(4,5) by (simp add: gs)
      from closest_loop_spec [of p gs x] this True assms(1) obtain g where g: "g \<in> set (p # gs)"
        "closest_loop x gs (sg_index p) (glyph_x p) = Some (sg_index g)"
        "\<forall>h \<in> set (p # gs). \<bar>glyph_x g - x\<bar> \<le> \<bar>glyph_x h - x\<bar>" unfolding gs by blast
      have "closest_index_for_x x l = sg_index g" using g(2) \<open>glyph_x p < x\<close> by (simp add: closest_index_for_x_def gs)
      with g(1,3) True show ?thesis by (simp only: gs if_True) blast
    qed
  next
    case False
    have "glyph_x h < x" if "h \<in> set (glyphs l)" for h
      using sorted_last_greatest [OF assms(1) that] False by simp
    then show ?thesis using False after [of "glyphs l"] by (simp add: closest_index_for_x_def)
  qed
qed

section \<open>Wrap boundaries fit\<close>

type_synonym 'a glyph_item = "wrap_boundary \<times> nat \<times> 'a"

abbreviation item_x :: "'a glyph_item \<Rightarrow> 'a" where "item_x g \<equiv> snd (snd g)"

text \<open>A part of the line from \<open>start_x\<close> on fits, its last glyph excepted.\<close>

definition part_fits :: "'a::linordered_field \<Rightarrow> 'a \<Rightarrow> 'a glyph_item list \<Rightarrow> bool" where
  "part_fits wrap_width start_x part \<longleftrightarrow> length part \<le> 1 \<or> item_x (last part) - start_x \<le> wrap_width"

fun parts_ok :: "'a::linordered_field \<Rightarrow> bool \<Rightarrow> 'a \<Rightarrow> wrap_boundary list \<Rightarrow> 'a glyph_item list \<Rightarrow> bool" where
  "parts_ok wrap_width all start_x [] items \<longleftrightarrow> \<not> (all \<and> \<not> part_fits wrap_width start_x items)"
| "parts_ok wrap_width all start_x (b # bs) items \<longleftrightarrow>
     (\<exists>part g rest. items = part @ g # rest \<and> part \<noteq> [] \<and> part_fits wrap_width start_x part \<and> fst g = b \<and>
        parts_ok wrap_width all (item_x g) bs (g # rest))"

text \<open>Glyphs with characters that are not newlines, in order, up to the width of the line.\<close>

definition items_ok :: "uchar list \<Rightarrow> 'a::linordered_field \<Rightarrow> 'a glyph_item list \<Rightarrow> bool" where
  "items_ok text width gs \<longleftrightarrow>
     sorted_wrt (\<lambda>g h. fst g < fst h \<and> item_x g \<le> item_x h) gs \<and> list_all (\<lambda>g. item_x g \<le> width) gs \<and>
     list_all (\<lambda>g. char_at text (fst (snd g)) \<notin> {None, Some 10}) gs"

definition next_x :: "'a \<Rightarrow> 'a glyph_item list \<Rightarrow> 'a" where
  "next_x width gs = (case gs of [] \<Rightarrow> width | g # _ \<Rightarrow> item_x g)"

text \<open>The state when \<open>P\<close> is the current part and \<open>gs\<close> the glyphs ahead.\<close>

definition part_inv :: "'a::linordered_field \<Rightarrow> 'a \<Rightarrow> 'a glyph_item list \<Rightarrow> 'a glyph_item list \<Rightarrow> 'a boundary_state \<Rightarrow> bool" where
  "part_inv wrap_width width P gs s \<longleftrightarrow>
     (P = [] \<longrightarrow> \<not> bs_non_white s \<and> bs_last_candidate s = None \<and> (gs = [] \<or> fst (hd gs) = bs_last_boundary s)) \<and>
     (P \<noteq> [] \<longrightarrow> fst (hd P) = bs_last_boundary s) \<and> part_fits wrap_width (bs_last_boundary_x s) P \<and>
     (\<forall>c. bs_last_candidate s = Some c \<longrightarrow> next_x width gs - bs_last_boundary_x s \<le> wrap_width \<and>
        (\<exists>P1 g P2. P = P1 @ g # P2 \<and> P1 \<noteq> [] \<and> c = fst g \<and> bs_last_candidate_x s = item_x g \<and> bs_last_boundary_x s \<le> item_x g))"

lemma boundary_part:
  assumes inv: "part_inv wrap_width width P ((b, i, x) # gs) s"
    and ordered: "sorted_wrt (\<lambda>g h. fst g < fst h \<and> item_x g \<le> item_x h) (P @ (b, i, x) # gs)" "x \<le> next_x width gs"
    and start: "bs_last_boundary_x s \<le> x" "P = [] \<or> bs_last_boundary_x s \<le> item_x (hd P)"
    and few: "case max_lines of Some n \<Rightarrow> length (bs_boundaries s) \<le> n - 1 | None \<Rightarrow> True"
    and step: "boundary_step wrap_width max_lines b ch x (next_x width gs) s = Some s'"
  shows "(bs_boundaries s' = bs_boundaries s \<and> bs_last_boundary_x s' = bs_last_boundary_x s \<and> part_inv wrap_width width (P @ [(b, i, x)]) gs s') \<or>
    (\<exists>P1 g P2. P @ [(b, i, x)] = P1 @ g # P2 \<and> P1 \<noteq> [] \<and> part_fits wrap_width (bs_last_boundary_x s) P1 \<and>
       bs_boundaries s' = bs_boundaries s @ [fst g] \<and> bs_last_boundary_x s' = item_x g \<and>
       (case max_lines of Some n \<Rightarrow> length (bs_boundaries s') \<le> n - 1 | None \<Rightarrow> True) \<and>
       part_inv wrap_width width (g # P2) gs s')"
proof -
  let ?g = "(b, i, x)"
  let ?s = "note_candidate b ch x s"
  let ?new = "candidate_char (bs_prev_ch s) ch \<and> bs_non_white s"
  have same: "bs_boundaries ?s = bs_boundaries s" "bs_last_boundary ?s = bs_last_boundary s" "bs_last_boundary_x ?s = bs_last_boundary_x s"
    by (simp_all add: note_candidate_def Let_def)
  have white: "P = [] \<Longrightarrow> bs_last_candidate ?s = None" using inv by (auto simp: part_inv_def note_candidate_def Let_def)
  have cand: "\<exists>P1 g P2. P @ [?g] = P1 @ g # P2 \<and> P1 \<noteq> [] \<and> c = fst g \<and> bs_last_candidate_x ?s = item_x g \<and>
      bs_last_boundary_x s \<le> item_x g \<and> (P2 = [] \<and> P1 = P \<or> x - bs_last_boundary_x s \<le> wrap_width)"
    if c: "bs_last_candidate ?s = Some c" for c
  proof (cases ?new)
    case True
    then have "P \<noteq> []" "c = b" "bs_last_candidate_x ?s = x" using inv c by (auto simp: part_inv_def note_candidate_def Let_def)
    then show ?thesis using start(1) by (intro exI [of _ P] exI [of _ ?g] exI [of _ "[]"]) simp
  next
    case False
    then have old: "bs_last_candidate s = Some c" "bs_last_candidate_x ?s = bs_last_candidate_x s"
      using c by (auto simp: note_candidate_def Let_def split: if_splits)
    have "x - bs_last_boundary_x s \<le> wrap_width \<and>
        (\<exists>P1 g P2. P = P1 @ g # P2 \<and> P1 \<noteq> [] \<and> c = fst g \<and> bs_last_candidate_x s = item_x g \<and> bs_last_boundary_x s \<le> item_x g)"
      using inv old(1) by (simp add: part_inv_def next_x_def)
    then obtain P1 g P2 where "P = P1 @ g # P2" "P1 \<noteq> []" "c = fst g" "bs_last_candidate_x s = item_x g"
      "bs_last_boundary_x s \<le> item_x g" "x - bs_last_boundary_x s \<le> wrap_width" by blast
    with old(2) show ?thesis by (intro exI [of _ P1] exI [of _ g] exI [of _ "P2 @ [?g]"]) simp
  qed
  show ?thesis
  proof (cases "wrap_width < next_x width gs - bs_last_boundary_x s \<and> bs_last_boundary s < b")
    case False
    then have s': "s' = ?s\<lparr>bs_prev_ch := ch\<rparr>" using step same by (auto simp: boundary_step_def Let_def split: if_splits)
    have "P = [] \<or> bs_last_boundary s < b" using inv ordered(1) by (cases P) (auto simp: part_inv_def)
    then have short: "P = [] \<or> next_x width gs - bs_last_boundary_x s \<le> wrap_width" using False by auto
    then have fits: "part_fits wrap_width (bs_last_boundary_x s) (P @ [?g])" using ordered(2) by (auto simp: part_fits_def)
    have hd: "fst (hd (P @ [?g])) = bs_last_boundary s" using inv by (cases P) (simp_all add: part_inv_def)
    have "next_x width gs - bs_last_boundary_x s \<le> wrap_width \<and>
        (\<exists>P1 g P2. P @ [?g] = P1 @ g # P2 \<and> P1 \<noteq> [] \<and> c = fst g \<and> bs_last_candidate_x ?s = item_x g \<and> bs_last_boundary_x s \<le> item_x g)"
      if "bs_last_candidate ?s = Some c" for c
      using cand [OF that] white short that by (metis option.distinct(1))
    then have "part_inv wrap_width width (P @ [?g]) gs s'"
      unfolding part_inv_def s' using fits hd by (simp add: same)
    then show ?thesis using s' same by simp
  next
    case True
    have P: "P \<noteq> []" using inv True by (auto simp: part_inv_def)
    have room: "\<not> (case max_lines of Some n \<Rightarrow> n - 1 \<le> length (bs_boundaries s) | None \<Rightarrow> False)"
      using step True same by (cases max_lines) (auto simp: boundary_step_def Let_def split: if_splits)
    have step': "s' = (let s = (case bs_last_candidate ?s of
                 Some c \<Rightarrow> ?s\<lparr>bs_last_candidate := None, bs_last_boundary := c, bs_last_boundary_x := bs_last_candidate_x ?s\<rparr>
               | None \<Rightarrow> ?s\<lparr>bs_last_boundary := b, bs_last_boundary_x := x\<rparr>)
           in s\<lparr>bs_boundaries := bs_boundaries s @ [bs_last_boundary s], bs_prev_ch := ch\<rparr>)"
      using step True same room unfolding boundary_step_def Let_def by (cases max_lines) auto
    have room': "case max_lines of Some n \<Rightarrow> length (bs_boundaries s @ [c]) \<le> n - 1 | None \<Rightarrow> True" for c
      using room by (cases max_lines) simp_all
    show ?thesis
    proof (cases "bs_last_candidate ?s")
      case None
      then have s': "bs_boundaries s' = bs_boundaries s @ [b]" "bs_last_boundary_x s' = x" "bs_last_boundary s' = b" "bs_last_candidate s' = None"
        using step' same by simp_all
      have "part_inv wrap_width width [?g] gs s'" by (simp add: part_inv_def s' part_fits_def)
      moreover have "part_fits wrap_width (bs_last_boundary_x s) P" using inv by (simp add: part_inv_def)
      ultimately show ?thesis using P s' room' [of b]
        by (cases max_lines) (intro disjI2 exI [of _ P] exI [of _ ?g] exI [of _ "[]"], simp)+
    next
      case (Some c)
      then have s': "bs_boundaries s' = bs_boundaries s @ [c]" "bs_last_boundary_x s' = bs_last_candidate_x ?s" "bs_last_boundary s' = c"
        "bs_last_candidate s' = None" using step' same by simp_all
      obtain P1 g P2 where c: "P @ [?g] = P1 @ g # P2" "P1 \<noteq> []" "c = fst g" "bs_last_candidate_x ?s = item_x g"
        "bs_last_boundary_x s \<le> item_x g" "P2 = [] \<and> P1 = P \<or> x - bs_last_boundary_x s \<le> wrap_width"
        using cand [OF Some] by blast
      have all: "sorted_wrt (\<lambda>g h. fst g < fst h \<and> item_x g \<le> item_x h) (P1 @ g # P2)"
        using ordered(1) unfolding c(1) [symmetric] by (simp add: sorted_wrt_append)
      have last: "last (g # P2) = ?g" using arg_cong [OF c(1), of last] by simp
      have "item_x (last P1) \<le> item_x g" using all c(2) by (simp add: sorted_wrt_append)
      moreover have "item_x g \<le> x" using all last last_in_set [of P2] by (cases "P2 = []") (auto simp: sorted_wrt_append)
      ultimately have "part_fits wrap_width (bs_last_boundary_x s) P1"
        using c(6) inv by (auto simp: part_fits_def part_inv_def)
      moreover have "part_fits wrap_width (item_x g) (g # P2)" using c(5,6) last by (auto simp: part_fits_def)
      then have "part_inv wrap_width width (g # P2) gs s'" by (simp add: part_inv_def s' c(3,4))
      ultimately show ?thesis using c(1-4) s' room' [of c]
        by (cases max_lines) (intro disjI2 exI [of _ P1] exI [of _ g] exI [of _ P2], simp)+
    qed
  qed
qed

lemma boundary_loop_parts:
  assumes "part_inv wrap_width width P gs s" and "items_ok text width (P @ gs)"
    and "P = [] \<Longrightarrow> gs \<noteq> [] \<Longrightarrow> bs_last_boundary_x s \<le> item_x (hd gs)" "P = [] \<or> bs_last_boundary_x s \<le> item_x (hd P)"
    and "max_lines \<noteq> Some 0" "case max_lines of Some n \<Rightarrow> length (bs_boundaries s) \<le> n - 1 | None \<Rightarrow> True"
  shows "\<exists>bs. boundary_loop text width wrap_width max_lines gs s = Some (bs_boundaries s @ bs) \<and>
    parts_ok wrap_width (max_lines = None) (bs_last_boundary_x s) bs (P @ gs) \<and>
    (case max_lines of Some n \<Rightarrow> length (bs_boundaries s @ bs) \<le> n - 1 | None \<Rightarrow> True)"
  using assms
proof (induction gs arbitrary: P s)
  case Nil
  then show ?case by (intro exI [of _ "[]"]) (cases max_lines; simp add: part_inv_def)
next
  case (Cons g gs)
  obtain b i x where g: "g = (b, i, x)" by (cases g) auto
  have ok: "sorted_wrt (\<lambda>g h. fst g < fst h \<and> item_x g \<le> item_x h) (P @ g # gs)" "list_all (\<lambda>g. item_x g \<le> width) (P @ g # gs)"
    and chars: "list_all (\<lambda>g. char_at text (fst (snd g)) \<notin> {None, Some 10}) (P @ g # gs)"
    using Cons.prems(2) by (simp_all add: items_ok_def)
  obtain ch where ch: "char_at text i = Some ch" "ch \<noteq> 10" using chars g by auto
  have ahead: "(case gs of [] \<Rightarrow> Some width | (_, j, x') # _ \<Rightarrow> map_option (\<lambda>_. x') (char_at text j)) = Some (next_x width gs)"
    using chars by (cases gs) (auto simp: next_x_def)
  have prefix: "sorted_wrt (\<lambda>g h. fst g < fst h \<and> item_x g \<le> item_x h) (P @ [g])" using ok(1) by (simp add: sorted_wrt_append)
  have x: "x \<le> next_x width gs" using ok g by (cases gs) (auto simp: next_x_def sorted_wrt_append)
  have start: "bs_last_boundary_x s \<le> x"
  proof (cases P)
    case Nil
    then show ?thesis using Cons.prems(3) g by simp
  next
    case (Cons p P')
    then show ?thesis using Cons.prems(4) ok(1) g by (fastforce simp: sorted_wrt_append)
  qed
  have run: "boundary_loop text width wrap_width max_lines (g # gs) s =
      (case boundary_step wrap_width max_lines b ch x (next_x width gs) s of
         None \<Rightarrow> Some (bs_boundaries s) | Some s \<Rightarrow> boundary_loop text width wrap_width max_lines gs s)"
    using ch ahead Cons.prems(5) by (simp add: g)
  show ?case
  proof (cases "boundary_step wrap_width max_lines b ch x (next_x width gs) s")
    case None
    then have "max_lines \<noteq> None" by (auto simp: boundary_step_def Let_def split: if_splits option.splits)
    with run None Cons.prems(6) show ?thesis by (intro exI [of _ "[]"]) (cases max_lines; simp)
  next
    case (Some s')
    then have run': "boundary_loop text width wrap_width max_lines (g # gs) s = boundary_loop text width wrap_width max_lines gs s'"
      using run by simp
    from boundary_part [OF Cons.prems(1) [unfolded g] ok(1) [unfolded g] x start Cons.prems(4,6) Some]
    show ?thesis
    proof (elim disjE exE conjE)
      assume same: "bs_boundaries s' = bs_boundaries s" "bs_last_boundary_x s' = bs_last_boundary_x s"
        and inv: "part_inv wrap_width width (P @ [(b, i, x)]) gs s'"
      have "items_ok text width ((P @ [(b, i, x)]) @ gs)" using Cons.prems(2) g by simp
      moreover have "bs_last_boundary_x s' \<le> item_x (hd (P @ [(b, i, x)]))" using Cons.prems(4) start same by (cases P) simp_all
      moreover have "P @ g # gs = (P @ [(b, i, x)]) @ gs" using g by simp
      ultimately show ?thesis
        unfolding run' using Cons.IH [OF inv] Cons.prems(5,6) unfolding same by simp
    next
      fix P1 h P2
      assume cut: "P @ [(b, i, x)] = P1 @ h # P2" "P1 \<noteq> []" "part_fits wrap_width (bs_last_boundary_x s) P1"
        "bs_boundaries s' = bs_boundaries s @ [fst h]" "bs_last_boundary_x s' = item_x h"
        "case max_lines of Some n \<Rightarrow> length (bs_boundaries s') \<le> n - 1 | None \<Rightarrow> True"
        and inv: "part_inv wrap_width width (h # P2) gs s'"
      have line: "P @ g # gs = P1 @ h # (P2 @ gs)" using arg_cong [OF cut(1), of "\<lambda>x. x @ gs"] g by simp
      have "items_ok text width ((h # P2) @ gs)"
        using Cons.prems(2) unfolding line by (simp add: items_ok_def sorted_wrt_append)
      from Cons.IH [OF inv this] cut(5,6) Cons.prems(5) obtain bs where bs:
        "boundary_loop text width wrap_width max_lines gs s' = Some (bs_boundaries s' @ bs)"
        "parts_ok wrap_width (max_lines = None) (item_x h) bs (h # (P2 @ gs))"
        "case max_lines of Some n \<Rightarrow> length (bs_boundaries s' @ bs) \<le> n - 1 | None \<Rightarrow> True" by auto
      show ?thesis
        unfolding run' line
      proof (intro exI [of _ "fst h # bs"] conjI)
        show "parts_ok wrap_width (max_lines = None) (bs_last_boundary_x s) (fst h # bs) (P1 @ h # P2 @ gs)"
          unfolding parts_ok.simps using bs(2) cut(2,3) by blast
      qed (use bs(1,3) cut(4) in \<open>cases max_lines; simp\<close>)+
    qed
  qed
qed

lemma map_snd_items:
  "map snd (map (\<lambda>(glyph_ix, g). ((n, glyph_ix), sg_index g, glyph_x g)) (List.enumerate k gs)) = map (\<lambda>g. (sg_index g, glyph_x g)) gs"
  by (induction gs arbitrary: k) simp_all

lemma glyph_items_snd: "map snd (glyph_items l) = map (\<lambda>g. (sg_index g, glyph_x g)) (glyphs l)"
proof -
  have "map snd (concat (map (\<lambda>(run_ix, run).
     map (\<lambda>(glyph_ix, g). ((run_ix, glyph_ix), sg_index g, glyph_x g)) (List.enumerate 0 (sr_glyphs run)))
     (List.enumerate n rs))) = map (\<lambda>g. (sg_index g, glyph_x g)) (concat (map sr_glyphs rs))" for n and rs :: "('f, 'a) shaped_run list"
    by (induction rs arbitrary: n) (simp_all add: map_snd_items del: map_map)
  then show ?thesis by (simp add: glyph_items_def glyphs_def)
qed

lemma glyph_items_sorted:
  assumes "sorted (map glyph_x (glyphs l))"
  shows "sorted_wrt (\<lambda>g h. fst g < fst h \<and> item_x g \<le> item_x h) (glyph_items l)"
proof -
  have row: "sorted_wrt (\<lambda>g h. fst g < fst h) (map (\<lambda>(glyph_ix, g). ((n, glyph_ix), sg_index g, glyph_x g)) (List.enumerate k gs))"
    for n k :: nat and gs :: "'a shaped_glyph list"
    by (induction gs arbitrary: k) (auto simp: in_set_enumerate_eq)
  have "sorted_wrt (\<lambda>g h. fst g < fst h) (concat (map (\<lambda>(run_ix, run).
     map (\<lambda>(glyph_ix, g). ((run_ix, glyph_ix), sg_index g, glyph_x g)) (List.enumerate 0 (sr_glyphs run)))
     (List.enumerate n rs)))" for n and rs :: "('f, 'a) shaped_run list"
  proof (induction rs arbitrary: n)
    case (Cons r rs)
    from Cons.IH [of "Suc n"] row [of n 0 "sr_glyphs r"] show ?case
      by (auto simp: sorted_wrt_append in_set_enumerate_eq)
  qed simp
  then have fst: "sorted_wrt (\<lambda>g h. fst g < fst h) (glyph_items l)" by (simp add: glyph_items_def)
  have "map item_x (glyph_items l) = map glyph_x (glyphs l)"
    using arg_cong [OF glyph_items_snd [of l], of "map snd"] by (simp add: comp_def)
  with assms have "sorted_wrt (\<lambda>g h. item_x g \<le> item_x h) (glyph_items l)" by (metis sorted_map)
  with fst show ?thesis by (simp add: sorted_wrt_iff_nth_less)
qed

text \<open>
  For a line whose glyphs are in order and stand for characters other than newlines, with a
  glyph in the first run, the wrap boundaries are computed without a panic, they cut the glyphs into
  nonempty parts that fit the wrap width except possibly for their last glyph, and with a limit
  there are fewer boundaries than lines allowed (the rest of the line then is not cut).
\<close>

theorem wrap_boundaries_fit:
  assumes "sorted (map glyph_x (glyphs l))" and "list_all (\<lambda>g. 0 \<le> glyph_x g \<and> glyph_x g \<le> ll_width l) (glyphs l)"
    and "list_all (\<lambda>g. char_at text (sg_index g) \<notin> {None, Some 10}) (glyphs l)"
    and "ll_runs l = [] \<or> sr_glyphs (hd (ll_runs l)) \<noteq> []" and "max_lines \<noteq> Some 0"
  shows "\<exists>bs. compute_wrap_boundaries text wrap_width max_lines l = Some bs \<and>
    parts_ok wrap_width (max_lines = None) 0 bs (glyph_items l) \<and>
    (case max_lines of Some n \<Rightarrow> length bs < n | None \<Rightarrow> True)"
proof -
  have "snd ` set (glyph_items l) = (\<lambda>g. (sg_index g, glyph_x g)) ` set (glyphs l)"
    using arg_cong [OF glyph_items_snd [of l], of set] by simp
  then have member: "\<exists>g \<in> set (glyphs l). snd h = (sg_index g, glyph_x g)" if "h \<in> set (glyph_items l)" for h
    using that by (metis (no_types, lifting) image_iff)
  have ok: "items_ok text (ll_width l) (glyph_items l)"
    unfolding items_ok_def using glyph_items_sorted [OF assms(1)] assms(2,3) member
    by (simp add: list_all_iff) (metis fst_conv snd_conv)
  have first: "glyph_items l \<noteq> [] \<Longrightarrow> fst (hd (glyph_items l)) = (0, 0) \<and> 0 \<le> item_x (hd (glyph_items l))"
  proof -
    assume ne: "glyph_items l \<noteq> []"
    then obtain r rs g gs where r: "ll_runs l = r # rs" "sr_glyphs r = g # gs"
      using assms(4) by (cases "ll_runs l"; cases "sr_glyphs (hd (ll_runs l))") (auto simp: glyph_items_def)
    then show ?thesis using assms(2) by (simp add: glyph_items_def glyphs_def)
  qed
  have inv: "part_inv wrap_width (ll_width l) [] (glyph_items l) boundary_start"
    using first by (auto simp: part_inv_def boundary_start_def part_fits_def)
  let ?s = "boundary_start :: 'a boundary_state"
  have start: "bs_boundaries ?s = []" "bs_last_boundary_x ?s = 0" by (simp_all add: boundary_start_def)
  obtain bs where "boundary_loop text (ll_width l) wrap_width max_lines (glyph_items l) ?s = Some bs"
    "parts_ok wrap_width (max_lines = None) 0 bs (glyph_items l)"
    "case max_lines of Some n \<Rightarrow> length bs \<le> n - 1 | None \<Rightarrow> True"
    using boundary_loop_parts [OF inv, of "text" max_lines] ok first assms(5) unfolding start by (cases max_lines) auto
  then show ?thesis using assms(5) by (cases max_lines) (auto simp: compute_wrap_boundaries_def)
qed

lemma wrap_boundaries_fit_witness:
  "\<exists>bs. compute_wrap_boundaries [97, 98] 12 (Some 3) (wl_unwrapped_layout two_words) = Some bs \<and>
    parts_ok 12 False 0 bs (glyph_items (wl_unwrapped_layout two_words)) \<and> length bs < 3"
  using wrap_boundaries_fit [of "wl_unwrapped_layout two_words" "[97, 98]" "Some 3" 12]
  by (simp add: two_words_def glyphs_def char_len_utf8_def)

text \<open>A limit of no lines underflows as soon as the line would wrap.\<close>

lemma no_lines_panics:
  "compute_wrap_boundaries [97, 98] 12 (Some 0) (wl_unwrapped_layout two_words) = None"
  by (simp add: compute_wrap_boundaries_def two_words_def glyph_items_def boundary_start_def boundary_step_def
      note_candidate_def candidate_char_def is_word_char_def char_len_utf8_def Let_def)

text \<open>Just past the last glyph, at 10, the closest boundary is not the end of the line at 20.\<close>

lemma closest_past_last_glyph: "closest_index_for_x 11 (wl_unwrapped_layout two_words) = 2"
  by (simp add: closest_index_for_x_def two_words_def glyphs_def)

end
