(* ===== verification/Layout_Cache.thy ===== *)
theory Layout_Cache
  imports Line_Layout
begin

text \<open>
  The cache of line layouts, from \<open>src/src/text_system/line_layout.rs\<close>: two frames of laid out
  and wrapped lines, with the keys used in the order of their use.  The platform's \<open>layout_line\<close>
  is the argument \<open>plat\<close>.  Locks and shared pointers are left out: one thread holds the cache.
\<close>

section \<open>The cache\<close>

record 'f font_run =
  fr_len :: nat
  fr_font_id :: 'f

record ('f, 'a) cache_key =
  ck_text :: "uchar list"
  ck_font_size :: 'a
  ck_runs :: "'f font_run list"
  ck_wrap_width :: "'a option"
  ck_force_width :: "'a option"

type_synonym ('f, 'a) platform_layout = "uchar list \<Rightarrow> 'a \<Rightarrow> 'f font_run list \<Rightarrow> ('f, 'a) line_layout"

record ('f, 'a) frame_cache =
  fc_lines :: "('f, 'a) cache_key \<Rightarrow> ('f, 'a) line_layout option"
  fc_wrapped_lines :: "('f, 'a) cache_key \<Rightarrow> ('f, 'a) wrapped_line_layout option"
  fc_used_lines :: "('f, 'a) cache_key list"
  fc_used_wrapped_lines :: "('f, 'a) cache_key list"

record ('f, 'a) layout_cache =
  lc_previous_frame :: "('f, 'a) frame_cache"
  lc_current_frame :: "('f, 'a) frame_cache"

record layout_index =
  li_lines_index :: nat
  li_wrapped_lines_index :: nat

definition frame_cache_empty :: "('f, 'a) frame_cache" where
  "frame_cache_empty = \<lparr>fc_lines = Map.empty, fc_wrapped_lines = Map.empty, fc_used_lines = [], fc_used_wrapped_lines = []\<rparr>"

definition layout_cache_new :: "('f, 'a) layout_cache" where
  "layout_cache_new = \<lparr>lc_previous_frame = frame_cache_empty, lc_current_frame = frame_cache_empty\<rparr>"

definition layout_index_of :: "('f, 'a) layout_cache \<Rightarrow> layout_index" where
  "layout_index_of c = \<lparr>li_lines_index = length (fc_used_lines (lc_current_frame c)),
     li_wrapped_lines_index = length (fc_used_wrapped_lines (lc_current_frame c))\<rparr>"

text \<open>The slice \<open>xs[s..e]\<close>, which panics out of range.\<close>

definition key_range :: "nat \<Rightarrow> nat \<Rightarrow> 'k list \<Rightarrow> 'k list option" where
  "key_range s e xs = (if s \<le> e \<and> e \<le> length xs then Some (drop s (take e xs)) else None)"

text \<open>Moving the entries of keys from one map to another.\<close>

fun move_entries :: "'k list \<Rightarrow> ('k \<Rightarrow> 'v option) \<Rightarrow> ('k \<Rightarrow> 'v option) \<Rightarrow> ('k \<Rightarrow> 'v option) \<times> ('k \<Rightarrow> 'v option)" where
  "move_entries [] prev cur = (prev, cur)"
| "move_entries (k # ks) prev cur =
     (case prev k of
        Some v \<Rightarrow> move_entries ks (prev(k := None)) (cur(k := Some v))
      | None \<Rightarrow> move_entries ks prev cur)"

definition reuse_layouts :: "layout_index \<Rightarrow> layout_index \<Rightarrow> ('f, 'a) layout_cache \<Rightarrow> ('f, 'a) layout_cache option" where
  "reuse_layouts s e c =
     (let p = lc_previous_frame c; f = lc_current_frame c in
      Option.bind (key_range (li_lines_index s) (li_lines_index e) (fc_used_lines p)) (\<lambda>ks.
      Option.bind (key_range (li_wrapped_lines_index s) (li_wrapped_lines_index e) (fc_used_wrapped_lines p)) (\<lambda>ws.
        (let (p_lines, f_lines) = move_entries ks (fc_lines p) (fc_lines f);
             (p_wrapped, f_wrapped) = move_entries ws (fc_wrapped_lines p) (fc_wrapped_lines f)
         in Some \<lparr>lc_previous_frame = p\<lparr>fc_lines := p_lines, fc_wrapped_lines := p_wrapped\<rparr>,
                  lc_current_frame = f\<lparr>fc_lines := f_lines, fc_wrapped_lines := f_wrapped,
                    fc_used_lines := fc_used_lines f @ ks, fc_used_wrapped_lines := fc_used_wrapped_lines f @ ws\<rparr>\<rparr>))))"

definition truncate_layouts :: "layout_index \<Rightarrow> ('f, 'a) layout_cache \<Rightarrow> ('f, 'a) layout_cache" where
  "truncate_layouts i c = c\<lparr>lc_current_frame := (lc_current_frame c)
     \<lparr>fc_used_lines := take (li_lines_index i) (fc_used_lines (lc_current_frame c)),
      fc_used_wrapped_lines := take (li_wrapped_lines_index i) (fc_used_wrapped_lines (lc_current_frame c))\<rparr>\<rparr>"

definition finish_frame :: "('f, 'a) layout_cache \<Rightarrow> ('f, 'a) layout_cache" where
  "finish_frame c = \<lparr>lc_previous_frame = lc_current_frame c, lc_current_frame = frame_cache_empty\<rparr>"

section \<open>Laying out\<close>

text \<open>Glyphs that are more than a pixel off the grid of \<open>force_width\<close> are put on it.\<close>

fun force_glyphs :: "'a::linordered_field \<Rightarrow> nat \<Rightarrow> 'a shaped_glyph list \<Rightarrow> 'a shaped_glyph list" where
  "force_glyphs fw n [] = []"
| "force_glyphs fw n (g # gs) =
     (if 1 < \<bar>glyph_x g - of_nat n * fw\<bar>
      then g\<lparr>sg_position := Point (of_nat n * fw) (pt_y (sg_position g))\<rparr> else g) # force_glyphs fw (Suc n) gs"

fun force_runs :: "'a::linordered_field \<Rightarrow> nat \<Rightarrow> ('f, 'a) shaped_run list \<Rightarrow> ('f, 'a) shaped_run list" where
  "force_runs fw n [] = []"
| "force_runs fw n (r # rs) =
     r\<lparr>sr_glyphs := force_glyphs fw n (sr_glyphs r)\<rparr> # force_runs fw (n + length (sr_glyphs r)) rs"

definition force_layout :: "'a::linordered_field option \<Rightarrow> ('f, 'a) line_layout \<Rightarrow> ('f, 'a) line_layout" where
  "force_layout force_width l = (case force_width of None \<Rightarrow> l | Some fw \<Rightarrow> l\<lparr>ll_runs := force_runs fw 0 (ll_runs l)\<rparr>)"

definition cache_layout_line :: "('f, 'a::linordered_field) platform_layout \<Rightarrow> uchar list \<Rightarrow> 'a \<Rightarrow> 'f font_run list \<Rightarrow> 'a option \<Rightarrow>
    ('f, 'a) layout_cache \<Rightarrow> ('f, 'a) line_layout \<times> ('f, 'a) layout_cache" where
  "cache_layout_line plat txt font_size runs force_width c =
     (let key = \<lparr>ck_text = txt, ck_font_size = font_size, ck_runs = runs, ck_wrap_width = None, ck_force_width = force_width\<rparr>;
          f = lc_current_frame c; p = lc_previous_frame c in
      case fc_lines f key of
        Some l \<Rightarrow> (l, c)
      | None \<Rightarrow>
          (let (l, p) = (case fc_lines p key of
                 Some l \<Rightarrow> (l, p\<lparr>fc_lines := (fc_lines p)(key := None)\<rparr>)
               | None \<Rightarrow> (force_layout force_width (plat txt font_size runs), p))
           in (l, \<lparr>lc_previous_frame = p, lc_current_frame = f\<lparr>fc_lines := (fc_lines f)(key := Some l),
                   fc_used_lines := fc_used_lines f @ [key]\<rparr>\<rparr>)))"

definition cache_layout_wrapped_line :: "('f, 'a::linordered_field) platform_layout \<Rightarrow> uchar list \<Rightarrow> 'a \<Rightarrow> 'f font_run list \<Rightarrow>
    'a option \<Rightarrow> nat option \<Rightarrow> ('f, 'a) layout_cache \<Rightarrow> (('f, 'a) wrapped_line_layout \<times> ('f, 'a) layout_cache) option" where
  "cache_layout_wrapped_line plat txt font_size runs wrap_width max_lines c =
     (let key = \<lparr>ck_text = txt, ck_font_size = font_size, ck_runs = runs, ck_wrap_width = wrap_width, ck_force_width = None\<rparr> in
      case fc_wrapped_lines (lc_current_frame c) key of
        Some w \<Rightarrow> Some (w, c)
      | None \<Rightarrow>
          map_option (\<lambda>(w, c). (w, c\<lparr>lc_current_frame := (lc_current_frame c)
              \<lparr>fc_wrapped_lines := (fc_wrapped_lines (lc_current_frame c))(key := Some w),
               fc_used_wrapped_lines := fc_used_wrapped_lines (lc_current_frame c) @ [key]\<rparr>\<rparr>))
            (case fc_wrapped_lines (lc_previous_frame c) key of
               Some w \<Rightarrow> Some (w, c\<lparr>lc_previous_frame := (lc_previous_frame c)
                  \<lparr>fc_wrapped_lines := (fc_wrapped_lines (lc_previous_frame c))(key := None)\<rparr>\<rparr>)
             | None \<Rightarrow>
                 (let (l, c) = cache_layout_line plat txt font_size runs None c in
                  map_option (\<lambda>bs. (\<lparr>wl_unwrapped_layout = l, wl_wrap_boundaries = bs, wl_wrap_width = wrap_width\<rparr>, c))
                    (case wrap_width of None \<Rightarrow> Some [] | Some ww \<Rightarrow> compute_wrap_boundaries txt ww max_lines l))))"

section \<open>The cache shows only in one way\<close>

text \<open>What laying out without a cache gives.\<close>

definition fresh_line :: "('f, 'a::linordered_field) platform_layout \<Rightarrow> ('f, 'a) cache_key \<Rightarrow> ('f, 'a) line_layout" where
  "fresh_line plat k = force_layout (ck_force_width k) (plat (ck_text k) (ck_font_size k) (ck_runs k))"

definition fresh_wrapped :: "('f, 'a::linordered_field) platform_layout \<Rightarrow> nat option \<Rightarrow> ('f, 'a) cache_key \<Rightarrow>
    ('f, 'a) wrapped_line_layout option" where
  "fresh_wrapped plat max_lines k =
     (let l = plat (ck_text k) (ck_font_size k) (ck_runs k) in
      map_option (\<lambda>bs. \<lparr>wl_unwrapped_layout = l, wl_wrap_boundaries = bs, wl_wrap_width = ck_wrap_width k\<rparr>)
        (case ck_wrap_width k of None \<Rightarrow> Some [] | Some ww \<Rightarrow> compute_wrap_boundaries (ck_text k) ww max_lines l))"

definition frame_ok :: "('f, 'a::linordered_field) platform_layout \<Rightarrow> nat option set \<Rightarrow> ('f, 'a) frame_cache \<Rightarrow> bool" where
  "frame_ok plat limits f \<longleftrightarrow>
     (\<forall>k l. fc_lines f k = Some l \<longrightarrow> l = fresh_line plat k) \<and>
     (\<forall>k w. fc_wrapped_lines f k = Some w \<longrightarrow> (\<exists>m \<in> limits. fresh_wrapped plat m k = Some w))"

text \<open>A cache as it is used, and the limits on the number of lines it was asked for.\<close>

inductive cache_used :: "('f, 'a::linordered_field) platform_layout \<Rightarrow> nat option set \<Rightarrow> ('f, 'a) layout_cache \<Rightarrow> bool" for plat where
  used_new: "cache_used plat {} layout_cache_new"
| used_reuse: "cache_used plat ms c \<Longrightarrow> reuse_layouts s e c = Some c' \<Longrightarrow> cache_used plat ms c'"
| used_truncate: "cache_used plat ms c \<Longrightarrow> cache_used plat ms (truncate_layouts i c)"
| used_finish: "cache_used plat ms c \<Longrightarrow> cache_used plat ms (finish_frame c)"
| used_line: "cache_used plat ms c \<Longrightarrow> cache_layout_line plat txt sz runs fw c = (l, c') \<Longrightarrow> cache_used plat ms c'"
| used_wrapped: "cache_used plat ms c \<Longrightarrow> cache_layout_wrapped_line plat txt sz runs ww m c = Some (w, c') \<Longrightarrow>
    cache_used plat (insert m ms) c'"

lemma move_entries_from:
  assumes "move_entries ks prev cur = (prev', cur')"
  shows "(prev' k = Some v \<longrightarrow> prev k = Some v) \<and> (cur' k = Some v \<longrightarrow> prev k = Some v \<or> cur k = Some v)"
  using assms by (induction ks prev cur rule: move_entries.induct) (auto split: option.splits if_splits)

lemma cache_layout_line_ok:
  assumes ok: "frame_ok plat ms (lc_previous_frame c)" "frame_ok plat ms (lc_current_frame c)"
    and run: "cache_layout_line plat txt sz runs fw c = (l, c')"
  shows "l = force_layout fw (plat txt sz runs)" "frame_ok plat ms (lc_previous_frame c')" "frame_ok plat ms (lc_current_frame c')"
    "fc_wrapped_lines (lc_current_frame c') = fc_wrapped_lines (lc_current_frame c)"
    "fc_wrapped_lines (lc_previous_frame c') = fc_wrapped_lines (lc_previous_frame c)"
proof -
  define key where "key = \<lparr>ck_text = txt, ck_font_size = sz, ck_runs = runs, ck_wrap_width = None, ck_force_width = fw\<rparr>"
  have fresh: "fresh_line plat key = force_layout fw (plat txt sz runs)" by (simp add: fresh_line_def key_def)
  have lines: "frame_ok plat ms f \<Longrightarrow> fc_lines f key = Some l \<Longrightarrow> l = force_layout fw (plat txt sz runs)" for f l
    unfolding frame_ok_def fresh [symmetric] by blast
  note run = run [unfolded cache_layout_line_def Let_def key_def [symmetric]]
  show l: "l = force_layout fw (plat txt sz runs)"
    using run lines [OF ok(1)] lines [OF ok(2)] by (auto split: option.splits)
  show "frame_ok plat ms (lc_previous_frame c')" "frame_ok plat ms (lc_current_frame c')"
    using run ok l fresh unfolding frame_ok_def by (auto split: option.splits if_splits)
  show "fc_wrapped_lines (lc_current_frame c') = fc_wrapped_lines (lc_current_frame c)"
    "fc_wrapped_lines (lc_previous_frame c') = fc_wrapped_lines (lc_previous_frame c)"
    using run by (auto split: option.splits)
qed

lemma frame_ok_mono: "frame_ok plat ms f \<Longrightarrow> ms \<subseteq> ms' \<Longrightarrow> frame_ok plat ms' f"
  unfolding frame_ok_def by blast

lemma cache_layout_wrapped_ok:
  assumes ok: "frame_ok plat ms (lc_previous_frame c)" "frame_ok plat ms (lc_current_frame c)"
    and run: "cache_layout_wrapped_line plat txt sz runs ww m c = Some (w, c')"
  defines "key \<equiv> \<lparr>ck_text = txt, ck_font_size = sz, ck_runs = runs, ck_wrap_width = ww, ck_force_width = None\<rparr>"
  shows "\<exists>m' \<in> insert m ms. fresh_wrapped plat m' key = Some w"
    "frame_ok plat (insert m ms) (lc_previous_frame c')" "frame_ok plat (insert m ms) (lc_current_frame c')"
proof -
  have ok': "frame_ok plat (insert m ms) (lc_previous_frame c)" "frame_ok plat (insert m ms) (lc_current_frame c)"
    using ok frame_ok_mono [of plat ms _ "insert m ms"] by blast+
  have all: "(\<exists>m' \<in> insert m ms. fresh_wrapped plat m' key = Some w) \<and>
    frame_ok plat (insert m ms) (lc_previous_frame c') \<and> frame_ok plat (insert m ms) (lc_current_frame c')"
  proof (cases "fc_wrapped_lines (lc_current_frame c) key")
    case (Some v)
    with run have "w = v" "c' = c" by (simp_all add: cache_layout_wrapped_line_def key_def Let_def)
    with Some ok' show ?thesis unfolding frame_ok_def by blast
  next
    case None
    show ?thesis
    proof (cases "fc_wrapped_lines (lc_previous_frame c) key")
      case (Some v)
      with run None have "w = v" and c': "lc_previous_frame c' = (lc_previous_frame c)\<lparr>fc_wrapped_lines := (fc_wrapped_lines (lc_previous_frame c))(key := None)\<rparr>"
        "fc_lines (lc_current_frame c') = fc_lines (lc_current_frame c)"
        "fc_wrapped_lines (lc_current_frame c') = (fc_wrapped_lines (lc_current_frame c))(key := Some v)"
        by (auto simp: cache_layout_wrapped_line_def key_def [symmetric] Let_def)
      moreover have "\<exists>m' \<in> insert m ms. fresh_wrapped plat m' key = Some v" using Some ok'(1) unfolding frame_ok_def by blast
      ultimately show ?thesis using ok' unfolding frame_ok_def c' by auto
    next
      case prev: None
      obtain l c1 where line: "cache_layout_line plat txt sz runs None c = (l, c1)" by (cases "cache_layout_line plat txt sz runs None c")
      note line_ok = cache_layout_line_ok [OF ok' line]
      obtain bs where bs: "(case ww of None \<Rightarrow> Some [] | Some x \<Rightarrow> compute_wrap_boundaries txt x m l) = Some bs"
        and w: "w = \<lparr>wl_unwrapped_layout = l, wl_wrap_boundaries = bs, wl_wrap_width = ww\<rparr>"
        and c': "lc_previous_frame c' = lc_previous_frame c1" "fc_lines (lc_current_frame c') = fc_lines (lc_current_frame c1)"
          "fc_wrapped_lines (lc_current_frame c') = (fc_wrapped_lines (lc_current_frame c1))(key := Some w)"
        using run None prev line by (auto simp: cache_layout_wrapped_line_def key_def [symmetric] Let_def)
      have fresh: "fresh_wrapped plat m key = Some w"
        using bs line_ok(1) by (cases ww) (simp_all add: fresh_wrapped_def key_def w force_layout_def Let_def)
      then show ?thesis using line_ok(2,3) unfolding frame_ok_def c' by auto
    qed
  qed
  then show "\<exists>m' \<in> insert m ms. fresh_wrapped plat m' key = Some w"
    "frame_ok plat (insert m ms) (lc_previous_frame c')" "frame_ok plat (insert m ms) (lc_current_frame c')" by blast+
qed

lemma reuse_layouts_ok:
  assumes "frame_ok plat ms (lc_previous_frame c)" "frame_ok plat ms (lc_current_frame c)" and "reuse_layouts s e c = Some c'"
  shows "frame_ok plat ms (lc_previous_frame c')" "frame_ok plat ms (lc_current_frame c')"
proof -
  let ?p = "lc_previous_frame c" and ?f = "lc_current_frame c"
  obtain ks ws where keys: "key_range (li_lines_index s) (li_lines_index e) (fc_used_lines ?p) = Some ks"
    "key_range (li_wrapped_lines_index s) (li_wrapped_lines_index e) (fc_used_wrapped_lines ?p) = Some ws"
    using assms(3) by (auto simp: reuse_layouts_def Let_def split: bind_splits)
  obtain pl fl pw fw where moves: "move_entries ks (fc_lines ?p) (fc_lines ?f) = (pl, fl)"
    "move_entries ws (fc_wrapped_lines ?p) (fc_wrapped_lines ?f) = (pw, fw)" by (meson surj_pair)
  have c': "lc_previous_frame c' = ?p\<lparr>fc_lines := pl, fc_wrapped_lines := pw\<rparr>" "fc_lines (lc_current_frame c') = fl"
    "fc_wrapped_lines (lc_current_frame c') = fw"
    using assms(3) keys moves by (auto simp: reuse_layouts_def Let_def)
  show "frame_ok plat ms (lc_previous_frame c')" "frame_ok plat ms (lc_current_frame c')"
    using assms(1,2) move_entries_from [OF moves(1)] move_entries_from [OF moves(2)]
    unfolding frame_ok_def c' by (simp, meson)+
qed

lemma cache_used_ok: "cache_used plat ms c \<Longrightarrow> frame_ok plat ms (lc_previous_frame c) \<and> frame_ok plat ms (lc_current_frame c)"
proof (induction rule: cache_used.induct)
  case (used_reuse ms c s e c')
  from reuse_layouts_ok [OF _ _ used_reuse(2)] used_reuse.IH show ?case by simp
next
  case (used_line ms c t sz runs fw l c')
  from cache_layout_line_ok(2,3) [OF _ _ used_line(2)] used_line.IH show ?case by simp
next
  case (used_wrapped ms c t sz runs ww m w c')
  from cache_layout_wrapped_ok(2,3) [OF _ _ used_wrapped(2)] used_wrapped.IH show ?case by simp
qed (simp_all add: frame_ok_def layout_cache_new_def frame_cache_empty_def truncate_layouts_def finish_frame_def)

text \<open>
  C39. However the cache has been used, a line comes out as if it were laid out afresh.  A wrapped
  line comes out as if wrapped afresh for one of the limits on the number of lines ever asked for,
  hence for the present one when there was no other.
\<close>

theorem layout_cache_transparent:
  assumes "cache_used plat ms c"
  shows "fst (cache_layout_line plat txt sz runs fw c) = force_layout fw (plat txt sz runs) \<and>
    (\<forall>w c'. cache_layout_wrapped_line plat txt sz runs ww m c = Some (w, c') \<longrightarrow>
      (\<exists>m' \<in> insert m ms. fresh_wrapped plat m'
        \<lparr>ck_text = txt, ck_font_size = sz, ck_runs = runs, ck_wrap_width = ww, ck_force_width = None\<rparr> = Some w))"
proof -
  note ok = cache_used_ok [OF assms]
  have "fst (cache_layout_line plat txt sz runs fw c) = force_layout fw (plat txt sz runs)"
    using cache_layout_line_ok(1) ok by (metis prod.collapse)
  moreover have "\<exists>m' \<in> insert m ms. fresh_wrapped plat m'
        \<lparr>ck_text = txt, ck_font_size = sz, ck_runs = runs, ck_wrap_width = ww, ck_force_width = None\<rparr> = Some w"
    if "cache_layout_wrapped_line plat txt sz runs ww m c = Some (w, c')" for w c'
    using cache_layout_wrapped_ok(1) ok that by blast
  ultimately show ?thesis by blast
qed

definition word_layouts :: "(nat, rat) platform_layout" where
  "word_layouts txt font_size runs = wl_unwrapped_layout two_words"

definition word_key :: "(nat, rat) cache_key" where
  "word_key = \<lparr>ck_text = [97, 98], ck_font_size = 16, ck_runs = [], ck_wrap_width = Some 12, ck_force_width = None\<rparr>"

text \<open>The cache after the words were wrapped without a limit.\<close>

definition words_cached :: "(nat, rat) layout_cache" where
  "words_cached = \<lparr>lc_previous_frame = frame_cache_empty, lc_current_frame =
     \<lparr>fc_lines = [word_key\<lparr>ck_wrap_width := None\<rparr> \<mapsto> wl_unwrapped_layout two_words], fc_wrapped_lines = [word_key \<mapsto> two_words],
      fc_used_lines = [word_key\<lparr>ck_wrap_width := None\<rparr>], fc_used_wrapped_lines = [word_key]\<rparr>\<rparr>"

lemma wrap_two_words:
  "compute_wrap_boundaries [97, 98] 12 None (wl_unwrapped_layout two_words) = Some [(0, 1)]"
  "compute_wrap_boundaries [97, 98] 12 (Some 1) (wl_unwrapped_layout two_words) = Some []"
  by (simp_all add: compute_wrap_boundaries_def two_words_def glyph_items_def boundary_start_def boundary_step_def
      note_candidate_def candidate_char_def is_word_char_def char_len_utf8_def Let_def)

lemma words_cached:
  "cache_layout_wrapped_line word_layouts [97, 98] 16 [] (Some 12) None layout_cache_new = Some (two_words, words_cached)"
proof -
  have "\<lparr>wl_unwrapped_layout = wl_unwrapped_layout two_words, wl_wrap_boundaries = [(0, 1)], wl_wrap_width = Some 12\<rparr> = two_words"
    by (simp add: two_words_def)
  then show ?thesis
    by (simp add: cache_layout_wrapped_line_def cache_layout_line_def layout_cache_new_def frame_cache_empty_def Let_def
        force_layout_def word_layouts_def wrap_two_words words_cached_def word_key_def)
qed

lemma layout_cache_transparent_witness:
  "fst (cache_layout_line word_layouts [97] 16 [] None words_cached) = wl_unwrapped_layout two_words"
  using layout_cache_transparent [OF used_wrapped [OF used_new words_cached], of "[97]" 16 "[]" None]
  by (simp add: force_layout_def word_layouts_def)

text \<open>
  The key of a wrapped line leaves out the limit on the number of lines: a text that was laid
  out without a limit comes back on two lines when it is asked for on one.
\<close>

theorem wrapped_cache_ignores_limit:
  "cache_used word_layouts {None} words_cached \<and>
   cache_layout_wrapped_line word_layouts [97, 98] 16 [] (Some 12) (Some 1) words_cached = Some (two_words, words_cached) \<and>
   length (wl_wrap_boundaries two_words) = 1 \<and>
   map_option (length \<circ> wl_wrap_boundaries) (fresh_wrapped word_layouts (Some 1) word_key) = Some 0"
proof (intro conjI)
  show "cache_used word_layouts {None} words_cached" by (rule used_wrapped [OF used_new words_cached])
  show "cache_layout_wrapped_line word_layouts [97, 98] 16 [] (Some 12) (Some 1) words_cached = Some (two_words, words_cached)"
    by (simp add: cache_layout_wrapped_line_def words_cached_def word_key_def Let_def)
  show "length (wl_wrap_boundaries two_words) = 1" by (simp add: two_words_def)
  show "map_option (length \<circ> wl_wrap_boundaries) (fresh_wrapped word_layouts (Some 1) word_key) = Some 0"
    by (simp add: fresh_wrapped_def word_key_def word_layouts_def wrap_two_words Let_def del: One_nat_def)
qed

end
