(* ===== verification/Text_System.thy ===== *)
theory Text_System
  imports Layout_Cache Lengths
begin

text \<open>
  The text system, from \<open>src/src/text_system.rs\<close>: the caches of font ids, metrics and raster
  bounds, the pool of line wrappers, and the metrics of fonts.  The platform's text system is a
  parameter (\<open>plat_font_id\<close>, \<open>plat_metrics\<close>, ...).  An error value only says that there is one; the
  text of messages is left out, and so are locks.
\<close>

section \<open>Font metrics\<close>

record 'a font_metrics =
  fm_units_per_em :: nat
  fm_ascent :: 'a
  fm_descent :: 'a
  fm_line_gap :: 'a
  fm_underline_position :: 'a
  fm_underline_thickness :: 'a
  fm_cap_height :: 'a
  fm_x_height :: 'a
  fm_bounding_box :: "'a bounds"

definition in_pixels :: "'a::linordered_field font_metrics \<Rightarrow> 'a \<Rightarrow> 'a \<Rightarrow> 'a" where
  "in_pixels m font_size units = units / of_nat (fm_units_per_em m) * font_size"

definition metrics_ascent :: "'a::linordered_field \<Rightarrow> 'a font_metrics \<Rightarrow> 'a" where
  "metrics_ascent font_size m = in_pixels m font_size (fm_ascent m)"

definition metrics_descent :: "'a::linordered_field \<Rightarrow> 'a font_metrics \<Rightarrow> 'a" where
  "metrics_descent font_size m = in_pixels m font_size (fm_descent m)"

definition metrics_line_gap :: "'a::linordered_field \<Rightarrow> 'a font_metrics \<Rightarrow> 'a" where
  "metrics_line_gap font_size m = in_pixels m font_size (fm_line_gap m)"

definition metrics_underline_position :: "'a::linordered_field \<Rightarrow> 'a font_metrics \<Rightarrow> 'a" where
  "metrics_underline_position font_size m = in_pixels m font_size (fm_underline_position m)"

definition metrics_underline_thickness :: "'a::linordered_field \<Rightarrow> 'a font_metrics \<Rightarrow> 'a" where
  "metrics_underline_thickness font_size m = in_pixels m font_size (fm_underline_thickness m)"

definition metrics_cap_height :: "'a::linordered_field \<Rightarrow> 'a font_metrics \<Rightarrow> 'a" where
  "metrics_cap_height font_size m = in_pixels m font_size (fm_cap_height m)"

definition metrics_x_height :: "'a::linordered_field \<Rightarrow> 'a font_metrics \<Rightarrow> 'a" where
  "metrics_x_height font_size m = in_pixels m font_size (fm_x_height m)"

definition metrics_bounding_box :: "'a::linordered_field \<Rightarrow> 'a font_metrics \<Rightarrow> 'a bounds" where
  "metrics_bounding_box font_size m = bounds_map (in_pixels m font_size) (fm_bounding_box m)"

section \<open>The state\<close>

record ('g, 'f, 'a, 'p) text_system =
  ts_font_ids :: "'g \<Rightarrow> 'f option option"
  ts_font_metrics :: "'f \<Rightarrow> 'a font_metrics option"
  ts_raster_bounds :: "'p \<Rightarrow> int bounds option"
  ts_wrapper_pool :: "'f \<times> 'a \<Rightarrow> ('f, 'a) line_wrapper list option"
  ts_fallback_fonts :: "'g list"

definition text_system_new :: "'g list \<Rightarrow> ('g, 'f, 'a, 'p) text_system" where
  "text_system_new fallbacks = \<lparr>ts_font_ids = Map.empty, ts_font_metrics = Map.empty, ts_raster_bounds = Map.empty,
     ts_wrapper_pool = Map.empty, ts_fallback_fonts = fallbacks\<rparr>"

definition all_font_names :: "'n::linorder list \<Rightarrow> ('g \<Rightarrow> 'n) \<Rightarrow> 'n \<Rightarrow> ('g, 'f, 'a, 'p) text_system \<Rightarrow> 'n list" where
  "all_font_names plat_names family system_ui ts =
     remdups_adj (sort (plat_names @ map family (ts_fallback_fonts ts) @ [system_ui]))"

definition font_id :: "('g \<Rightarrow> 'f option) \<Rightarrow> 'g \<Rightarrow> ('g, 'f, 'a, 'p) text_system \<Rightarrow> 'f option \<times> ('g, 'f, 'a, 'p) text_system" where
  "font_id plat_font_id font ts =
     (case ts_font_ids ts font of
        Some r \<Rightarrow> (r, ts)
      | None \<Rightarrow> let r = plat_font_id font in (r, ts\<lparr>ts_font_ids := (ts_font_ids ts)(font := Some r)\<rparr>))"

text \<open>The first font that resolves, of the font itself and the fallbacks; none is a panic.\<close>

fun resolve_first :: "('g \<Rightarrow> 'f option) \<Rightarrow> 'g list \<Rightarrow> ('g, 'f, 'a, 'p) text_system \<Rightarrow> ('f \<times> ('g, 'f, 'a, 'p) text_system) option" where
  "resolve_first plat_font_id [] ts = None"
| "resolve_first plat_font_id (font # fonts) ts =
     (case font_id plat_font_id font ts of
        (Some i, ts) \<Rightarrow> Some (i, ts)
      | (None, ts) \<Rightarrow> resolve_first plat_font_id fonts ts)"

definition resolve_font :: "('g \<Rightarrow> 'f option) \<Rightarrow> 'g \<Rightarrow> ('g, 'f, 'a, 'p) text_system \<Rightarrow> ('f \<times> ('g, 'f, 'a, 'p) text_system) option" where
  "resolve_font plat_font_id font ts = resolve_first plat_font_id (font # ts_fallback_fonts ts) ts"

definition read_metrics :: "('f \<Rightarrow> 'a font_metrics) \<Rightarrow> 'f \<Rightarrow> ('a font_metrics \<Rightarrow> 'r) \<Rightarrow> ('g, 'f, 'a, 'p) text_system \<Rightarrow>
    'r \<times> ('g, 'f, 'a, 'p) text_system" where
  "read_metrics plat_metrics i read ts =
     (case ts_font_metrics ts i of
        Some m \<Rightarrow> (read m, ts)
      | None \<Rightarrow> let m = plat_metrics i in (read m, ts\<lparr>ts_font_metrics := (ts_font_metrics ts)(i := Some m)\<rparr>))"

definition units_per_em :: "('f \<Rightarrow> 'a font_metrics) \<Rightarrow> 'f \<Rightarrow> ('g, 'f, 'a, 'p) text_system \<Rightarrow> nat \<times> ('g, 'f, 'a, 'p) text_system" where
  "units_per_em plat_metrics i = read_metrics plat_metrics i fm_units_per_em"

definition ts_bounding_box :: "('f \<Rightarrow> 'a::linordered_field font_metrics) \<Rightarrow> 'f \<Rightarrow> 'a \<Rightarrow> ('g, 'f, 'a, 'p) text_system \<Rightarrow>
    'a bounds \<times> ('g, 'f, 'a, 'p) text_system" where
  "ts_bounding_box plat_metrics i font_size = read_metrics plat_metrics i (metrics_bounding_box font_size)"

definition ts_cap_height :: "('f \<Rightarrow> 'a::linordered_field font_metrics) \<Rightarrow> 'f \<Rightarrow> 'a \<Rightarrow> ('g, 'f, 'a, 'p) text_system \<Rightarrow>
    'a \<times> ('g, 'f, 'a, 'p) text_system" where
  "ts_cap_height plat_metrics i font_size = read_metrics plat_metrics i (metrics_cap_height font_size)"

definition ts_x_height :: "('f \<Rightarrow> 'a::linordered_field font_metrics) \<Rightarrow> 'f \<Rightarrow> 'a \<Rightarrow> ('g, 'f, 'a, 'p) text_system \<Rightarrow>
    'a \<times> ('g, 'f, 'a, 'p) text_system" where
  "ts_x_height plat_metrics i font_size = read_metrics plat_metrics i (metrics_x_height font_size)"

definition ts_ascent :: "('f \<Rightarrow> 'a::linordered_field font_metrics) \<Rightarrow> 'f \<Rightarrow> 'a \<Rightarrow> ('g, 'f, 'a, 'p) text_system \<Rightarrow>
    'a \<times> ('g, 'f, 'a, 'p) text_system" where
  "ts_ascent plat_metrics i font_size = read_metrics plat_metrics i (metrics_ascent font_size)"

definition ts_descent :: "('f \<Rightarrow> 'a::linordered_field font_metrics) \<Rightarrow> 'f \<Rightarrow> 'a \<Rightarrow> ('g, 'f, 'a, 'p) text_system \<Rightarrow>
    'a \<times> ('g, 'f, 'a, 'p) text_system" where
  "ts_descent plat_metrics i font_size = read_metrics plat_metrics i (metrics_descent font_size)"

definition baseline_offset :: "('f \<Rightarrow> 'a::linordered_field font_metrics) \<Rightarrow> 'f \<Rightarrow> 'a \<Rightarrow> 'a \<Rightarrow> ('g, 'f, 'a, 'p) text_system \<Rightarrow>
    'a \<times> ('g, 'f, 'a, 'p) text_system" where
  "baseline_offset plat_metrics i font_size line_height ts =
     (let (ascent, ts) = ts_ascent plat_metrics i font_size ts;
          (descent, ts) = ts_descent plat_metrics i font_size ts;
          padding_top = (line_height - ascent - descent) / 2
      in (padding_top + ascent, ts))"

text \<open>\<open>glyph_for_char\<close>, \<open>typographic_bounds\<close> and \<open>advance\<close> are the platform's.\<close>

definition ts_typographic_bounds :: "('f \<Rightarrow> uchar \<Rightarrow> 'i option) \<Rightarrow> ('f \<Rightarrow> 'i \<Rightarrow> 'a bounds option) \<Rightarrow> ('f \<Rightarrow> 'a::linordered_field font_metrics) \<Rightarrow>
    'f \<Rightarrow> 'a \<Rightarrow> uchar \<Rightarrow> ('g, 'f, 'a, 'p) text_system \<Rightarrow> 'a bounds option \<times> ('g, 'f, 'a, 'p) text_system" where
  "ts_typographic_bounds glyph_for_char plat_bounds plat_metrics i font_size c ts =
     (case Option.bind (glyph_for_char i c) (plat_bounds i) of
        None \<Rightarrow> (None, ts)
      | Some b \<Rightarrow> (let (b', ts) = read_metrics plat_metrics i (\<lambda>m. bounds_map (in_pixels m font_size) b) ts in (Some b', ts)))"

definition ts_advance :: "('f \<Rightarrow> uchar \<Rightarrow> 'i option) \<Rightarrow> ('f \<Rightarrow> 'i \<Rightarrow> 'a size2 option) \<Rightarrow> ('f \<Rightarrow> 'a::linordered_field font_metrics) \<Rightarrow>
    'f \<Rightarrow> 'a \<Rightarrow> uchar \<Rightarrow> ('g, 'f, 'a, 'p) text_system \<Rightarrow> 'a size2 option \<times> ('g, 'f, 'a, 'p) text_system" where
  "ts_advance glyph_for_char plat_advance plat_metrics i font_size c ts =
     (case Option.bind (glyph_for_char i c) (plat_advance i) of
        None \<Rightarrow> (None, ts)
      | Some s \<Rightarrow> (let (n, ts) = units_per_em plat_metrics i ts
                  in (Some (Size (sz_width s / of_nat n * font_size) (sz_height s / of_nat n * font_size)), ts)))"

definition raster_bounds :: "('p \<Rightarrow> int bounds option) \<Rightarrow> 'p \<Rightarrow> ('g, 'f, 'a, 'p) text_system \<Rightarrow>
    int bounds option \<times> ('g, 'f, 'a, 'p) text_system" where
  "raster_bounds plat_raster params ts =
     (case ts_raster_bounds ts params of
        Some b \<Rightarrow> (Some b, ts)
      | None \<Rightarrow>
          (case plat_raster params of
             None \<Rightarrow> (None, ts)
           | Some b \<Rightarrow> (Some b, ts\<lparr>ts_raster_bounds := (ts_raster_bounds ts)(params := Some b)\<rparr>)))"

text \<open>A handle takes a wrapper out of the pool and returns it when it is dropped.\<close>

definition ts_line_wrapper :: "('g \<Rightarrow> 'f option) \<Rightarrow> 'g \<Rightarrow> 'a \<Rightarrow> ('g, 'f, 'a, 'p) text_system \<Rightarrow>
    (('f, 'a) line_wrapper \<times> ('g, 'f, 'a, 'p) text_system) option" where
  "ts_line_wrapper plat_font_id font font_size ts =
     map_option (\<lambda>(i, ts).
       (let wrappers = (case ts_wrapper_pool ts (i, font_size) of None \<Rightarrow> [] | Some ws \<Rightarrow> ws);
            wrapper = (if wrappers = [] then line_wrapper_new i font_size else last wrappers)
        in (wrapper, ts\<lparr>ts_wrapper_pool := (ts_wrapper_pool ts)((i, font_size) := Some (butlast wrappers))\<rparr>)))
       (resolve_font plat_font_id font ts)"

definition line_wrapper_drop :: "('f, 'a) line_wrapper \<Rightarrow> ('g, 'f, 'a, 'p) text_system \<Rightarrow> ('g, 'f, 'a, 'p) text_system option" where
  "line_wrapper_drop w ts =
     (let key = (lw_font_id w, lw_font_size w) in
      map_option (\<lambda>ws. ts\<lparr>ts_wrapper_pool := (ts_wrapper_pool ts)(key := Some (ws @ [w]))\<rparr>) (ts_wrapper_pool ts key))"

section \<open>The caches agree with the platform\<close>

definition text_system_ok :: "('g \<Rightarrow> 'f option) \<Rightarrow> ('f \<Rightarrow> 'a font_metrics) \<Rightarrow> ('f \<Rightarrow> 'a \<Rightarrow> uchar \<Rightarrow> 'a) \<Rightarrow> ('p \<Rightarrow> int bounds option) \<Rightarrow>
    ('g, 'f, 'a, 'p) text_system \<Rightarrow> bool" where
  "text_system_ok plat_font_id plat_metrics layout_width plat_raster ts \<longleftrightarrow>
     (\<forall>g r. ts_font_ids ts g = Some r \<longrightarrow> r = plat_font_id g) \<and>
     (\<forall>i m. ts_font_metrics ts i = Some m \<longrightarrow> m = plat_metrics i) \<and>
     (\<forall>p b. ts_raster_bounds ts p = Some b \<longrightarrow> plat_raster p = Some b) \<and>
     (\<forall>i sz ws. ts_wrapper_pool ts (i, sz) = Some ws \<longrightarrow>
        (\<forall>w \<in> set ws. lw_font_id w = i \<and> lw_font_size w = sz \<and> cache_ok layout_width (layout_width i sz) w))"

definition resolved :: "('g \<Rightarrow> 'f option) \<Rightarrow> 'g list \<Rightarrow> 'f option" where
  "resolved plat_font_id fonts = (case List.find (\<lambda>g. plat_font_id g \<noteq> None) fonts of None \<Rightarrow> None | Some g \<Rightarrow> plat_font_id g)"

lemma font_id_ok:
  assumes "text_system_ok pf pm lw pr ts" and "font_id pf g ts = (r, ts')"
  shows "r = pf g" "text_system_ok pf pm lw pr ts'" "ts_fallback_fonts ts' = ts_fallback_fonts ts"
    "ts_wrapper_pool ts' = ts_wrapper_pool ts"
  using assms by (auto simp: font_id_def text_system_ok_def Let_def split: option.splits if_splits)

lemma resolve_first_ok:
  "text_system_ok pf pm lw pr ts \<Longrightarrow>
   (case resolve_first pf fonts ts of
      None \<Rightarrow> resolved pf fonts = None
    | Some (i, ts') \<Rightarrow> resolved pf fonts = Some i \<and> text_system_ok pf pm lw pr ts' \<and>
        ts_fallback_fonts ts' = ts_fallback_fonts ts)"
proof (induction fonts arbitrary: ts)
  case (Cons g fonts)
  obtain r ts1 where r: "font_id pf g ts = (r, ts1)" by (cases "font_id pf g ts")
  note ok = font_id_ok [OF Cons.prems r]
  show ?case
  proof (cases r)
    case None
    with ok(1) have "resolved pf (g # fonts) = resolved pf fonts" by (simp add: resolved_def)
    with Cons.IH [OF ok(2)] ok(3) r None show ?thesis by (auto split: option.splits prod.splits)
  next
    case (Some i)
    with ok(1) have "pf g = Some i" by simp
    with ok(2,3) r Some show ?thesis by (simp add: resolved_def)
  qed
qed (simp add: resolved_def)

lemma resolve_font_ok:
  assumes "text_system_ok pf pm lw pr ts"
  shows "case resolve_font pf font ts of
      None \<Rightarrow> resolved pf (font # ts_fallback_fonts ts) = None
    | Some (i, ts') \<Rightarrow> resolved pf (font # ts_fallback_fonts ts) = Some i \<and> text_system_ok pf pm lw pr ts' \<and>
        ts_fallback_fonts ts' = ts_fallback_fonts ts"
  using resolve_first_ok [OF assms] unfolding resolve_font_def .

lemma text_system_new_ok: "text_system_ok pf pm lw pr (text_system_new fallbacks)"
  by (simp add: text_system_ok_def text_system_new_def)

text \<open>
  With caches that agree with the platform, resolving a font gives the first of it and the
  fallbacks that the platform can load, and panics only when there is none; metrics and raster
  bounds are the platform's; and every operation keeps the caches so.
\<close>

theorem text_system_caches:
  assumes "text_system_ok pf pm lw pr ts"
  shows "map_option fst (resolve_font pf font ts) = resolved pf (font # ts_fallback_fonts ts) \<and>
    fst (read_metrics pm i read ts) = read (pm i) \<and> fst (raster_bounds pr p ts) = pr p \<and>
    \<not> (\<exists>i' ts'. resolve_font pf font ts = Some (i', ts') \<and> \<not> text_system_ok pf pm lw pr ts') \<and>
    text_system_ok pf pm lw pr (snd (read_metrics pm i read ts)) \<and> text_system_ok pf pm lw pr (snd (raster_bounds pr p ts))"
proof -
  have "map_option fst (resolve_font pf font ts) = resolved pf (font # ts_fallback_fonts ts) \<and>
    \<not> (\<exists>i' ts'. resolve_font pf font ts = Some (i', ts') \<and> \<not> text_system_ok pf pm lw pr ts')"
    using resolve_font_ok [OF assms, of font] by (auto split: option.splits)
  moreover have "fst (read_metrics pm i read ts) = read (pm i) \<and> text_system_ok pf pm lw pr (snd (read_metrics pm i read ts))"
    using assms by (auto simp: read_metrics_def text_system_ok_def Let_def split: option.splits)
  moreover have "fst (raster_bounds pr p ts) = pr p \<and> text_system_ok pf pm lw pr (snd (raster_bounds pr p ts))"
    using assms by (auto simp: raster_bounds_def text_system_ok_def split: option.splits)
  ultimately show ?thesis by blast
qed

lemma text_system_caches_witness:
  "map_option fst (resolve_font (\<lambda>g. if g = 3 then Some g else None) (7::nat)
     (text_system_new [5, 3] :: (nat, nat, rat, nat) text_system)) = Some 3"
proof -
  let ?pf = "\<lambda>g::nat. if g = 3 then Some g else None" and ?ts = "text_system_new [5, 3] :: (nat, nat, rat, nat) text_system"
  have "map_option fst (resolve_font ?pf 7 ?ts) = resolved ?pf (7 # ts_fallback_fonts ?ts)"
    using text_system_caches [OF text_system_new_ok, of ?pf 7 "[5, 3]" "\<lambda>_. undefined" 0 id "\<lambda>_. None" 0] by blast
  also have "\<dots> = Some 3" by (simp add: resolved_def text_system_new_def)
  finally show ?thesis .
qed

lemma wrapper_handle_ok:
  assumes "text_system_ok pf pm lw pr ts" and "ts_line_wrapper pf font sz ts = Some (w, ts')"
  shows "resolved pf (font # ts_fallback_fonts ts) = Some (lw_font_id w)" "lw_font_size w = sz"
    "cache_ok lw (lw (lw_font_id w) sz) w" "text_system_ok pf pm lw pr ts'" "ts_wrapper_pool ts' (lw_font_id w, sz) \<noteq> None"
proof -
  obtain i ts1 where i: "resolve_font pf font ts = Some (i, ts1)" using assms(2) by (auto simp: ts_line_wrapper_def)
  note ok = resolve_font_ok [OF assms(1), of font, unfolded i option.case prod.case]
  define ws where "ws = (case ts_wrapper_pool ts1 (i, sz) of None \<Rightarrow> [] | Some ws \<Rightarrow> ws)"
  have w: "w = (if ws = [] then line_wrapper_new i sz else last ws)"
    and ts': "ts' = ts1\<lparr>ts_wrapper_pool := (ts_wrapper_pool ts1)((i, sz) := Some (butlast ws))\<rparr>"
    using assms(2) i by (auto simp: ts_line_wrapper_def ws_def [symmetric] Let_def)
  have pool: "\<forall>w \<in> set ws. lw_font_id w = i \<and> lw_font_size w = sz \<and> cache_ok lw (lw i sz) w"
    using ok by (cases "ts_wrapper_pool ts1 (i, sz)") (auto simp: ws_def text_system_ok_def)
  have all: "lw_font_id w = i \<and> lw_font_size w = sz \<and> cache_ok lw (lw i sz) w"
    using pool cache_ok_new [of lw i sz] by (cases "ws = []") (simp_all add: w line_wrapper_new_def)
  then show "resolved pf (font # ts_fallback_fonts ts) = Some (lw_font_id w)" "lw_font_size w = sz"
    "cache_ok lw (lw (lw_font_id w) sz) w" "ts_wrapper_pool ts' (lw_font_id w, sz) \<noteq> None"
    using ok by (simp_all add: ts')
  show "text_system_ok pf pm lw pr ts'"
    using ok pool unfolding text_system_ok_def ts' by (auto dest: in_set_butlastD)
qed

lemma wrapper_drop_ok:
  assumes "text_system_ok pf pm lw pr ts" and "cache_ok lw (lw (lw_font_id w) (lw_font_size w)) w"
    and "line_wrapper_drop w ts = Some ts'"
  shows "text_system_ok pf pm lw pr ts'"
  using assms unfolding line_wrapper_drop_def text_system_ok_def by (fastforce simp: Let_def split: if_splits)

end
