(* ===== verification/Text_Shaping.thy ===== *)
theory Text_Shaping
  imports Text_System
begin

text \<open>
  Shaping text, from \<open>WindowTextSystem\<close> in \<open>src/src/text_system.rs\<close>: a text with styled runs is
  split into lines; each line gets its font runs and its decoration runs, and is laid out and
  wrapped by the cache.  Lengths are below \<open>2 ^ 32\<close>, so that the casts to \<open>u32\<close> keep them.  The
  pool that recycles the vectors of font runs is left out.
\<close>

section \<open>Runs\<close>

record ('x, 'u, 's) decoration =
  dn_color :: 'x
  dn_background_color :: "'x option"
  dn_underline :: "'u option"
  dn_strikethrough :: "'s option"

record ('g, 'd) styled_run =
  run_len :: nat
  run_font :: 'g
  run_decoration :: 'd

record 'd decoration_run =
  dr_len :: nat
  dr_decoration :: 'd

record ('g, 'f, 'a, 'p) window_text_system =
  wt_line_layout_cache :: "('f, 'a) layout_cache"
  wt_text_system :: "('g, 'f, 'a, 'p) text_system"


definition push_decoration :: "nat \<Rightarrow> 'd \<Rightarrow> 'd decoration_run list \<Rightarrow> bool \<times> 'd decoration_run list" where
  "push_decoration n d ds =
     (if ds \<noteq> [] \<and> dr_decoration (last ds) = d
      then (False, butlast ds @ [(last ds)\<lparr>dr_len := dr_len (last ds) + n\<rparr>])
      else (True, ds @ [\<lparr>dr_len = n, dr_decoration = d\<rparr>]))"

definition push_font :: "nat \<Rightarrow> 'f \<Rightarrow> bool \<Rightarrow> 'f font_run list \<Rightarrow> 'f font_run list" where
  "push_font n f changed fs =
     (if fs \<noteq> [] \<and> fr_font_id (last fs) = f \<and> \<not> changed
      then butlast fs @ [(last fs)\<lparr>fr_len := fr_len (last fs) + n\<rparr>]
      else fs @ [\<lparr>fr_len = n, fr_font_id = f\<rparr>])"








section \<open>Single lines\<close>

fun merge_decorations :: "('g, 'd) styled_run list \<Rightarrow> 'd decoration_run list \<Rightarrow> 'd decoration_run list" where
  "merge_decorations [] ds = ds"
| "merge_decorations (r # rs) ds = merge_decorations rs (snd (push_decoration (run_len r) (run_decoration r) ds))"

text \<open>The background does not matter for the glyphs.  The last run is that of the last change.\<close>

definition same_glyph_decoration :: "('x, 'u, 's) decoration \<Rightarrow> ('x, 'u, 's) decoration \<Rightarrow> bool" where
  "same_glyph_decoration d e \<longleftrightarrow> dn_color d = dn_color e \<and> dn_underline d = dn_underline e \<and> dn_strikethrough d = dn_strikethrough e"

fun font_runs_of :: "('g \<Rightarrow> 'f option) \<Rightarrow> ('g, ('x, 'u, 's) decoration) styled_run list \<Rightarrow> ('x, 'u, 's) decoration option \<Rightarrow>
    'f font_run list \<Rightarrow> ('g, 'f, 'a, 'p) text_system \<Rightarrow> ('f font_run list \<times> ('g, 'f, 'a, 'p) text_system) option" where
  "font_runs_of pf [] last_run fs ts = Some (fs, ts)"
| "font_runs_of pf (r # rs) last_run fs ts =
     (let changed = (case last_run of None \<Rightarrow> True | Some d \<Rightarrow> \<not> same_glyph_decoration d (run_decoration r)) in
      Option.bind (resolve_font pf (run_font r) ts) (\<lambda>(f, ts).
        font_runs_of pf rs (if changed then Some (run_decoration r) else last_run) (push_font (run_len r) f changed fs) ts))"

definition wt_layout_line :: "('g \<Rightarrow> 'f option) \<Rightarrow> ('f, 'a::linordered_field) platform_layout \<Rightarrow> uchar list \<Rightarrow> 'a \<Rightarrow>
    ('g, ('x, 'u, 's) decoration) styled_run list \<Rightarrow> 'a option \<Rightarrow> ('g, 'f, 'a, 'p) window_text_system \<Rightarrow>
    (('f, 'a) line_layout \<times> ('g, 'f, 'a, 'p) window_text_system) option" where
  "wt_layout_line pf plat txt font_size runs force_width wt =
     map_option (\<lambda>(fs, ts).
       (let (l, c) = cache_layout_line plat txt font_size fs force_width (wt_line_layout_cache wt)
        in (l, \<lparr>wt_line_layout_cache = c, wt_text_system = ts\<rparr>)))
       (font_runs_of pf runs None [] (wt_text_system wt))"

record ('f, 'a, 'd) shaped_line =
  sh_layout :: "('f, 'a) line_layout"
  sh_text :: "uchar list"
  sh_decoration_runs :: "'d decoration_run list"

definition shape_line :: "bool \<Rightarrow> ('g \<Rightarrow> 'f option) \<Rightarrow> ('f, 'a::linordered_field) platform_layout \<Rightarrow> uchar list \<Rightarrow> 'a \<Rightarrow>
    ('g, ('x, 'u, 's) decoration) styled_run list \<Rightarrow> 'a option \<Rightarrow> ('g, 'f, 'a, 'p) window_text_system \<Rightarrow>
    (('f, 'a, ('x, 'u, 's) decoration) shaped_line \<times> ('g, 'f, 'a, 'p) window_text_system) option" where
  "shape_line debug_assertions pf plat txt font_size runs force_width wt =
     (if debug_assertions \<and> 10 \<in> set txt then None
      else map_option (\<lambda>(l, wt). (\<lparr>sh_layout = l, sh_text = txt, sh_decoration_runs = merge_decorations runs []\<rparr>, wt))
             (wt_layout_line pf plat txt font_size runs force_width wt))"

definition shaped_line_with_len :: "nat \<Rightarrow> ('f, 'a, 'd) shaped_line \<Rightarrow> ('f, 'a, 'd) shaped_line" where
  "shaped_line_with_len n l = l\<lparr>sh_layout := (sh_layout l)\<lparr>ll_len := n\<rparr>\<rparr>"

section \<open>The runs cover the lines\<close>

definition styled_len :: "('g, 'd) styled_run list \<Rightarrow> nat" where
  "styled_len runs = sum_list (map run_len runs)"

definition fonts_len :: "'f font_run list \<Rightarrow> nat" where
  "fonts_len fs = sum_list (map fr_len fs)"

definition decorations_len :: "'d decoration_run list \<Rightarrow> nat" where
  "decorations_len ds = sum_list (map dr_len ds)"

lemma run_lens [simp]:
  "styled_len [] = 0" "styled_len (r # rs) = run_len r + styled_len rs" "fonts_len [] = 0" "decorations_len [] = 0"
  by (simp_all add: styled_len_def fonts_len_def decorations_len_def)






















end
