(* ===== verification/App_State.thy ===== *)
theory App_State
  imports Subscription Entity_Map Focus
begin

text \<open>
  The application, from \<open>src/src/app.rs\<close>: its queue of effects, observers and listeners, globals,
  entities, windows and nested updates.  A closure is a code, whose meaning is a field of
  \<open>env\<close>, a function on the whole state; the state of the closures is in \<open>ap_world\<close>.  The
  invalidator of a window is shared, so a window that is being updated or is closed keeps its
  place in \<open>ap_windows\<close>, which is indexed by window ids.  A panic is \<open>None\<close>.
\<close>

section \<open>State\<close>

text \<open>The closures that are deferred: the user's, and those that activate a subscriber.\<close>

datatype 'c closure = Call 'c | Activate_observer nat | Activate_listener nat | Activate_global_observer nat

datatype ('c, 'v) effect =
    Notify nat
  | Emit nat nat 'v
  | Refresh_windows
  | Notify_global_observers nat
  | Defer "'c closure"
  | Entity_created any_entity nat "nat option"

text \<open>A handler made by \<open>observe_internal\<close> or \<open>subscribe_internal\<close> upgrades its entity first.\<close>

datatype 'c handler = Handler 'c | Upgrading any_weak_entity 'c

datatype window_place = In_map | On_stack | Closed

record 'p app_window =
  aw_place :: window_place
  aw_removed :: bool
  aw_window :: "'p focus_window"

datatype quit_mode = Quit_default | Last_window_closed | Quit_explicit

record ('c, 'v, 'e, 'g, 'p, 'u) app =
  ap_flushing_effects :: bool
  ap_pending_updates :: nat
  ap_pending_effects :: "('c, 'v) effect list"
  ap_pending_notifications :: "nat set"
  ap_pending_global_notifications :: "nat set"
  ap_observers :: "(nat, 'c handler) subscriber_set"
  ap_event_listeners :: "(nat, nat \<times> 'c handler) subscriber_set"
  ap_global_observers :: "(nat, 'c) subscriber_set"
  ap_release_listeners :: "(nat, 'c) subscriber_set"
  ap_new_entity_observers :: "(nat, 'c) subscriber_set"
  ap_window_closed_observers :: "(unit, 'c) subscriber_set"
  ap_globals_by_type :: "nat \<Rightarrow> 'g option"
  ap_entities :: "'e entity_map"
  ap_focus_handles :: focus_map
  ap_focus_slots :: nat
  ap_windows :: "'p app_window list"
  ap_window_update_stack :: "nat list"
  ap_window_invalidators_by_entity :: "nat \<Rightarrow> nat list"
  ap_tracked_entities :: "nat \<Rightarrow> nat list"
  ap_quit_mode :: quit_mode
  ap_quits :: nat
  ap_world :: 'u

record ('c, 'v, 'e, 'g, 'p, 'u) env =
  en_call :: "'c \<Rightarrow> ('c, 'v, 'e, 'g, 'p, 'u) app \<Rightarrow> ('c, 'v, 'e, 'g, 'p, 'u) app option"
  en_notify :: "'c \<Rightarrow> ('c, 'v, 'e, 'g, 'p, 'u) app \<Rightarrow> (bool \<times> ('c, 'v, 'e, 'g, 'p, 'u) app) option"
  en_notify_entity :: "'c \<Rightarrow> any_entity \<Rightarrow> ('c, 'v, 'e, 'g, 'p, 'u) app \<Rightarrow> (bool \<times> ('c, 'v, 'e, 'g, 'p, 'u) app) option"
  en_event :: "'c \<Rightarrow> 'v \<Rightarrow> ('c, 'v, 'e, 'g, 'p, 'u) app \<Rightarrow> (bool \<times> ('c, 'v, 'e, 'g, 'p, 'u) app) option"
  en_event_entity :: "'c \<Rightarrow> any_entity \<Rightarrow> 'v \<Rightarrow> ('c, 'v, 'e, 'g, 'p, 'u) app \<Rightarrow> (bool \<times> ('c, 'v, 'e, 'g, 'p, 'u) app) option"
  en_release :: "'c \<Rightarrow> nat \<times> 'e \<Rightarrow> ('c, 'v, 'e, 'g, 'p, 'u) app \<Rightarrow> ((nat \<times> 'e) \<times> ('c, 'v, 'e, 'g, 'p, 'u) app) option"
  en_drop :: "nat \<times> 'e \<Rightarrow> ('c, 'v, 'e, 'g, 'p, 'u) app \<Rightarrow> ('c, 'v, 'e, 'g, 'p, 'u) app option"
  en_created :: "'c \<Rightarrow> any_entity \<Rightarrow> nat option \<Rightarrow> ('c, 'v, 'e, 'g, 'p, 'u) app \<Rightarrow> ('c, 'v, 'e, 'g, 'p, 'u) app option"

definition app_start :: "nat \<Rightarrow> quit_mode \<Rightarrow> 'u \<Rightarrow> ('c, 'v, 'e, 'g, 'p, 'u) app" where
  "app_start identity mode world = \<lparr>ap_flushing_effects = False, ap_pending_updates = 0, ap_pending_effects = [],
     ap_pending_notifications = {}, ap_pending_global_notifications = {},
     ap_observers = subscriber_set_new, ap_event_listeners = subscriber_set_new, ap_global_observers = subscriber_set_new,
     ap_release_listeners = subscriber_set_new, ap_new_entity_observers = subscriber_set_new,
     ap_window_closed_observers = subscriber_set_new, ap_globals_by_type = Map.empty, ap_entities = em_new identity,
     ap_focus_handles = Map.empty, ap_focus_slots = 0, ap_windows = [], ap_window_update_stack = [],
     ap_window_invalidators_by_entity = (\<lambda>_. []), ap_tracked_entities = (\<lambda>_. []), ap_quit_mode = mode, ap_quits = 0,
     ap_world = world\<rparr>"

section \<open>Queueing effects\<close>

definition push_effect :: "('c, 'v) effect \<Rightarrow> ('c, 'v, 'e, 'g, 'p, 'u) app \<Rightarrow> ('c, 'v, 'e, 'g, 'p, 'u) app" where
  "push_effect effect s =
     (let queued = s\<lparr>ap_pending_effects := ap_pending_effects s @ [effect]\<rparr> in
      case effect of
        Notify emitter \<Rightarrow>
          if emitter \<in> ap_pending_notifications s then s
          else queued\<lparr>ap_pending_notifications := insert emitter (ap_pending_notifications s)\<rparr>
      | Notify_global_observers T \<Rightarrow>
          if T \<in> ap_pending_global_notifications s then s
          else queued\<lparr>ap_pending_global_notifications := insert T (ap_pending_global_notifications s)\<rparr>
      | _ \<Rightarrow> queued)"

definition app_defer :: "'c closure \<Rightarrow> ('c, 'v, 'e, 'g, 'p, 'u) app \<Rightarrow> ('c, 'v, 'e, 'g, 'p, 'u) app" where
  "app_defer f s = push_effect (Defer f) s"

definition refresh_windows :: "('c, 'v, 'e, 'g, 'p, 'u) app \<Rightarrow> ('c, 'v, 'e, 'g, 'p, 'u) app" where
  "refresh_windows s = s\<lparr>ap_pending_effects := ap_pending_effects s @ [Refresh_windows]\<rparr>"

definition emit_event :: "nat \<Rightarrow> nat \<Rightarrow> 'v \<Rightarrow> ('c, 'v, 'e, 'g, 'p, 'u) app \<Rightarrow> ('c, 'v, 'e, 'g, 'p, 'u) app" where
  "emit_event emitter T event s = s\<lparr>ap_pending_effects := ap_pending_effects s @ [Emit emitter T event]\<rparr>"

definition set_invalidator :: "nat \<Rightarrow> window_invalidator \<Rightarrow> ('c, 'v, 'e, 'g, 'p, 'u) app \<Rightarrow> ('c, 'v, 'e, 'g, 'p, 'u) app" where
  "set_invalidator w iv s = s\<lparr>ap_windows :=
     (ap_windows s)[w := (ap_windows s ! w)\<lparr>aw_window := (aw_window (ap_windows s ! w))\<lparr>fw_invalidator := iv\<rparr>\<rparr>]\<rparr>"

fun invalidate_each :: "nat \<Rightarrow> nat list \<Rightarrow> ('c, 'v, 'e, 'g, 'p, 'u) app \<Rightarrow> ('c, 'v, 'e, 'g, 'p, 'u) app" where
  "invalidate_each entity [] s = s"
| "invalidate_each entity (w # ws) s =
     (let (iv, pushed) = invalidate_view entity (fw_invalidator (aw_window (ap_windows s ! w)))
      in invalidate_each entity ws ((if pushed then push_effect (Notify entity) else (\<lambda>s. s)) (set_invalidator w iv s)))"

text \<open>Without a window that shows the entity, the effect is queued as \<open>push_effect\<close> does.\<close>

definition app_notify :: "nat \<Rightarrow> ('c, 'v, 'e, 'g, 'p, 'u) app \<Rightarrow> ('c, 'v, 'e, 'g, 'p, 'u) app" where
  "app_notify entity s =
     (let ws = ap_window_invalidators_by_entity s entity in
      if ws = [] then
        if entity \<in> ap_pending_notifications s then s
        else s\<lparr>ap_pending_notifications := insert entity (ap_pending_notifications s),
               ap_pending_effects := ap_pending_effects s @ [Notify entity]\<rparr>
      else invalidate_each entity ws s)"

section \<open>Observers\<close>

text \<open>The first result names the subscription, which \<open>drop_observer\<close> and the like unsubscribe.\<close>

definition new_observer :: "nat \<Rightarrow> 'c handler \<Rightarrow> ('c, 'v, 'e, 'g, 'p, 'u) app \<Rightarrow> nat \<times> ('c, 'v, 'e, 'g, 'p, 'u) app" where
  "new_observer key value s =
     (let (i, set) = subscriber_insert key value (ap_observers s)
      in (i, app_defer (Activate_observer i) (s\<lparr>ap_observers := set\<rparr>)))"

definition observe_internal :: "any_entity \<Rightarrow> 'c \<Rightarrow> ('c, 'v, 'e, 'g, 'p, 'u) app \<Rightarrow> nat \<times> ('c, 'v, 'e, 'g, 'p, 'u) app" where
  "observe_internal entity on_notify s = new_observer (ae_id entity) (Upgrading (entity_downgrade entity) on_notify) s"

definition new_subscription :: "nat \<Rightarrow> nat \<times> 'c handler \<Rightarrow> ('c, 'v, 'e, 'g, 'p, 'u) app \<Rightarrow> nat \<times> ('c, 'v, 'e, 'g, 'p, 'u) app" where
  "new_subscription key value s =
     (let (i, set) = subscriber_insert key value (ap_event_listeners s)
      in (i, app_defer (Activate_listener i) (s\<lparr>ap_event_listeners := set\<rparr>)))"

definition subscribe_internal :: "any_entity \<Rightarrow> nat \<Rightarrow> 'c \<Rightarrow> ('c, 'v, 'e, 'g, 'p, 'u) app \<Rightarrow> nat \<times> ('c, 'v, 'e, 'g, 'p, 'u) app" where
  "subscribe_internal entity T on_event s =
     new_subscription (ae_id entity) (T, Upgrading (entity_downgrade entity) on_event) s"

definition observe_global :: "nat \<Rightarrow> 'c \<Rightarrow> ('c, 'v, 'e, 'g, 'p, 'u) app \<Rightarrow> nat \<times> ('c, 'v, 'e, 'g, 'p, 'u) app" where
  "observe_global T f s =
     (let (i, set) = subscriber_insert T f (ap_global_observers s)
      in (i, app_defer (Activate_global_observer i) (s\<lparr>ap_global_observers := set\<rparr>)))"

text \<open>These are active at once.\<close>

definition observe_new :: "nat \<Rightarrow> 'c \<Rightarrow> ('c, 'v, 'e, 'g, 'p, 'u) app \<Rightarrow> nat \<times> ('c, 'v, 'e, 'g, 'p, 'u) app" where
  "observe_new T on_new s =
     (let (i, set) = subscriber_insert T on_new (ap_new_entity_observers s)
      in (i, s\<lparr>ap_new_entity_observers := activate i set\<rparr>))"

definition observe_release :: "any_entity \<Rightarrow> 'c \<Rightarrow> ('c, 'v, 'e, 'g, 'p, 'u) app \<Rightarrow> nat \<times> ('c, 'v, 'e, 'g, 'p, 'u) app" where
  "observe_release entity on_release s =
     (let (i, set) = subscriber_insert (ae_id entity) on_release (ap_release_listeners s)
      in (i, s\<lparr>ap_release_listeners := activate i set\<rparr>))"

definition on_window_closed :: "'c \<Rightarrow> ('c, 'v, 'e, 'g, 'p, 'u) app \<Rightarrow> nat \<times> ('c, 'v, 'e, 'g, 'p, 'u) app" where
  "on_window_closed on_closed s =
     (let (i, set) = subscriber_insert () on_closed (ap_window_closed_observers s)
      in (i, s\<lparr>ap_window_closed_observers := activate i set\<rparr>))"

definition drop_observer :: "nat \<Rightarrow> nat \<Rightarrow> ('c, 'v, 'e, 'g, 'p, 'u) app \<Rightarrow> ('c, 'v, 'e, 'g, 'p, 'u) app" where
  "drop_observer key i s = s\<lparr>ap_observers := unsubscribe key i (ap_observers s)\<rparr>"

definition drop_listener :: "nat \<Rightarrow> nat \<Rightarrow> ('c, 'v, 'e, 'g, 'p, 'u) app \<Rightarrow> ('c, 'v, 'e, 'g, 'p, 'u) app" where
  "drop_listener key i s = s\<lparr>ap_event_listeners := unsubscribe key i (ap_event_listeners s)\<rparr>"

definition drop_global_observer :: "nat \<Rightarrow> nat \<Rightarrow> ('c, 'v, 'e, 'g, 'p, 'u) app \<Rightarrow> ('c, 'v, 'e, 'g, 'p, 'u) app" where
  "drop_global_observer T i s = s\<lparr>ap_global_observers := unsubscribe T i (ap_global_observers s)\<rparr>"

section \<open>Globals\<close>

definition has_global :: "nat \<Rightarrow> ('c, 'v, 'e, 'g, 'p, 'u) app \<Rightarrow> bool" where
  "has_global T s \<longleftrightarrow> ap_globals_by_type s T \<noteq> None"

text \<open>\<open>global\<close> panics where \<open>try_global\<close> gives \<open>None\<close>.\<close>

definition try_global :: "nat \<Rightarrow> ('c, 'v, 'e, 'g, 'p, 'u) app \<Rightarrow> 'g option" where
  "try_global T s = ap_globals_by_type s T"

text \<open>\<open>f\<close> is what the caller does with the reference.\<close>

definition global_mut :: "nat \<Rightarrow> ('g \<Rightarrow> 'g) \<Rightarrow> ('c, 'v, 'e, 'g, 'p, 'u) app \<Rightarrow> ('c, 'v, 'e, 'g, 'p, 'u) app option" where
  "global_mut T f s =
     (let s = push_effect (Notify_global_observers T) s in
      case ap_globals_by_type s T of
        None \<Rightarrow> None
      | Some g \<Rightarrow> Some (s\<lparr>ap_globals_by_type := (ap_globals_by_type s)(T \<mapsto> f g)\<rparr>))"

definition default_global :: "nat \<Rightarrow> 'g \<Rightarrow> ('g \<Rightarrow> 'g) \<Rightarrow> ('c, 'v, 'e, 'g, 'p, 'u) app \<Rightarrow> ('c, 'v, 'e, 'g, 'p, 'u) app" where
  "default_global T initial f s =
     (let s = push_effect (Notify_global_observers T) s;
          g = (case ap_globals_by_type s T of None \<Rightarrow> initial | Some g \<Rightarrow> g)
      in s\<lparr>ap_globals_by_type := (ap_globals_by_type s)(T \<mapsto> f g)\<rparr>)"

definition set_global :: "nat \<Rightarrow> 'g \<Rightarrow> ('c, 'v, 'e, 'g, 'p, 'u) app \<Rightarrow> ('c, 'v, 'e, 'g, 'p, 'u) app" where
  "set_global T g s =
     (let s = push_effect (Notify_global_observers T) s in s\<lparr>ap_globals_by_type := (ap_globals_by_type s)(T \<mapsto> g)\<rparr>)"

definition clear_globals :: "('c, 'v, 'e, 'g, 'p, 'u) app \<Rightarrow> ('c, 'v, 'e, 'g, 'p, 'u) app" where
  "clear_globals s = s\<lparr>ap_globals_by_type := Map.empty\<rparr>"

definition remove_global :: "nat \<Rightarrow> ('c, 'v, 'e, 'g, 'p, 'u) app \<Rightarrow> ('g \<times> ('c, 'v, 'e, 'g, 'p, 'u) app) option" where
  "remove_global T s =
     (let s = push_effect (Notify_global_observers T) s in
      map_option (\<lambda>g. (g, s\<lparr>ap_globals_by_type := (ap_globals_by_type s)(T := None)\<rparr>)) (ap_globals_by_type s T))"

text \<open>The global on the stack: a panic without one.\<close>

definition lease_global :: "nat \<Rightarrow> ('c, 'v, 'e, 'g, 'p, 'u) app \<Rightarrow> ('g \<times> ('c, 'v, 'e, 'g, 'p, 'u) app) option" where
  "lease_global T s =
     map_option (\<lambda>g. (g, s\<lparr>ap_globals_by_type := (ap_globals_by_type s)(T := None)\<rparr>)) (ap_globals_by_type s T)"

definition end_global_lease :: "nat \<Rightarrow> 'g \<Rightarrow> ('c, 'v, 'e, 'g, 'p, 'u) app \<Rightarrow> ('c, 'v, 'e, 'g, 'p, 'u) app" where
  "end_global_lease T lease s =
     (let s = push_effect (Notify_global_observers T) s in s\<lparr>ap_globals_by_type := (ap_globals_by_type s)(T \<mapsto> lease)\<rparr>)"

section \<open>Entities a window shows\<close>

definition record_entities_accessed :: "nat \<Rightarrow> nat list \<Rightarrow> ('c, 'v, 'e, 'g, 'p, 'u) app \<Rightarrow> ('c, 'v, 'e, 'g, 'p, 'u) app" where
  "record_entities_accessed w entities s =
     (let by_entity = (\<lambda>e. if e \<in> set (ap_tracked_entities s w)
             then removeAll w (ap_window_invalidators_by_entity s e) else ap_window_invalidators_by_entity s e);
          by_entity = (\<lambda>e. if e \<in> set entities then List.insert w (by_entity e) else by_entity e)
      in s\<lparr>ap_window_invalidators_by_entity := by_entity, ap_tracked_entities := (ap_tracked_entities s)(w := entities)\<rparr>)"

definition detect_accessed_entities :: "(('c, 'v, 'e, 'g, 'p, 'u) app \<Rightarrow> ('r \<times> ('c, 'v, 'e, 'g, 'p, 'u) app) option) \<Rightarrow>
    ('c, 'v, 'e, 'g, 'p, 'u) app \<Rightarrow> (('r \<times> nat set) \<times> ('c, 'v, 'e, 'g, 'p, 'u) app) option" where
  "detect_accessed_entities callback s =
     map_option (\<lambda>(r, s'). ((r, em_accessed (ap_entities s') - em_accessed (ap_entities s)), s')) (callback s)"

end
