(* ===== verification/App_Effects.thy ===== *)
theory App_Effects
  imports App_State
begin

text \<open>
  The effect cycle of \<open>src/src/app.rs\<close>: an update that is not nested flushes the queue when it
  finishes, and each effect runs closures that may queue more.  A flush that does not return, like
  one that panics, is \<open>None\<close>.  Drawing dirty windows in a flush, which only the feature
  \<open>test-support\<close> does, is left out.
\<close>

section \<open>Subscribers of the application\<close>

text \<open>\<open>SubscriberSet::retain\<close> with closures that act on the state \<open>s\<close> that the set \<open>get s\<close> is a part of.\<close>

fun retain_each :: "('s \<Rightarrow> ('k, 'c) subscriber_set) \<Rightarrow> ('c \<Rightarrow> 's \<Rightarrow> (bool \<times> 's) option) \<Rightarrow> (nat \<times> 'c) list \<Rightarrow> 's \<Rightarrow>
    ((nat \<times> 'c) list \<times> 's) option" where
  "retain_each get f [] s = Some ([], s)"
| "retain_each get f ((i, c) # m) s =
     (if i \<in> ss_active (get s) then
        Option.bind (f c s) (\<lambda>(keep, s). map_option (\<lambda>(m, s). (if keep then (i, c) # m else m, s)) (retain_each get f m s))
      else map_option (\<lambda>(m, s). ((i, c) # m, s)) (retain_each get f m s))"

definition app_retain :: "('s \<Rightarrow> ('k, 'c) subscriber_set) \<Rightarrow> (('k, 'c) subscriber_set \<Rightarrow> 's \<Rightarrow> 's) \<Rightarrow> bool \<Rightarrow> 'k \<Rightarrow>
    ('c \<Rightarrow> 's \<Rightarrow> (bool \<times> 's) option) \<Rightarrow> 's \<Rightarrow> 's option" where
  "app_retain get put debug_assertions emitter f s =
     (case ss_subscribers (get s) emitter of
        Some (Some subscribers) \<Rightarrow>
          Option.bind (retain_each get f subscribers
              (put ((get s)\<lparr>ss_subscribers := (ss_subscribers (get s))(emitter \<mapsto> None)\<rparr>) s)) (\<lambda>(subscribers, s).
            (let set = get s;
                 subscribers = (case ss_subscribers set emitter of
                     Some (Some new_subscribers) \<Rightarrow> bt_extend subscribers new_subscribers | _ \<Rightarrow> subscribers);
                 dropped = ss_dropped set;
                 subscribers = filter (\<lambda>(i, _). i \<notin> snd ` dropped) subscribers;
                 set = set\<lparr>ss_subscribers := (ss_subscribers set)(emitter := None), ss_dropped := {}\<rparr>
             in if debug_assertions \<and> \<not> fst ` dropped \<subseteq> {emitter} then None
                else Some (put (if subscribers \<noteq> [] then set\<lparr>ss_subscribers := (ss_subscribers set)(emitter \<mapsto> Some subscribers)\<rparr>
                                else set) s)))
      | _ \<Rightarrow> Some s)"

section \<open>Updates\<close>

definition start_update :: "('c, 'v, 'e, 'g, 'p, 'u) app \<Rightarrow> ('c, 'v, 'e, 'g, 'p, 'u) app" where
  "start_update s = s\<lparr>ap_pending_updates := Suc (ap_pending_updates s)\<rparr>"

definition finish_update :: "(('c, 'v, 'e, 'g, 'p, 'u) app \<Rightarrow> ('c, 'v, 'e, 'g, 'p, 'u) app option) \<Rightarrow>
    ('c, 'v, 'e, 'g, 'p, 'u) app \<Rightarrow> ('c, 'v, 'e, 'g, 'p, 'u) app option" where
  "finish_update flush s =
     Option.bind
       (if \<not> ap_flushing_effects s \<and> ap_pending_updates s = 1
        then map_option (\<lambda>s. s\<lparr>ap_flushing_effects := False\<rparr>) (flush (s\<lparr>ap_flushing_effects := True\<rparr>))
        else Some s)
       (\<lambda>s. if ap_pending_updates s = 0 then None else Some (s\<lparr>ap_pending_updates := ap_pending_updates s - 1\<rparr>))"

definition app_update :: "(('c, 'v, 'e, 'g, 'p, 'u) app \<Rightarrow> ('c, 'v, 'e, 'g, 'p, 'u) app option) \<Rightarrow>
    (('c, 'v, 'e, 'g, 'p, 'u) app \<Rightarrow> ('r \<times> ('c, 'v, 'e, 'g, 'p, 'u) app) option) \<Rightarrow>
    ('c, 'v, 'e, 'g, 'p, 'u) app \<Rightarrow> ('r \<times> ('c, 'v, 'e, 'g, 'p, 'u) app) option" where
  "app_update flush update s =
     Option.bind (update (start_update s)) (\<lambda>(r, s). map_option (Pair r) (finish_update flush s))"

text \<open>Updating a window; the inner \<open>None\<close> is the error that the window is not found.\<close>

definition quit_on_empty :: "target_os \<Rightarrow> quit_mode \<Rightarrow> bool" where
  "quit_on_empty os mode = (case mode of Quit_explicit \<Rightarrow> False | Last_window_closed \<Rightarrow> True | Quit_default \<Rightarrow> os \<noteq> Macos)"

definition put_window :: "nat \<Rightarrow> 'p app_window \<Rightarrow> ('c, 'v, 'e, 'g, 'p, 'u) app \<Rightarrow> ('c, 'v, 'e, 'g, 'p, 'u) app" where
  "put_window w win s = s\<lparr>ap_windows := (ap_windows s)[w := win]\<rparr>"

definition window_updated :: "target_os \<Rightarrow> bool \<Rightarrow> ('c, 'v, 'e, 'g, 'p, 'u) env \<Rightarrow> nat \<Rightarrow>
    ('c, 'v, 'e, 'g, 'p, 'u) app \<Rightarrow> ('c, 'v, 'e, 'g, 'p, 'u) app option" where
  "window_updated os dbg env w s =
     (let win = ap_windows s ! w in
      if aw_removed win then
        map_option (\<lambda>s. if quit_on_empty os (ap_quit_mode s) \<and> list_all (\<lambda>v. aw_place v = Closed) (ap_windows s)
                        then s\<lparr>ap_quits := Suc (ap_quits s)\<rparr> else s)
          (app_retain ap_window_closed_observers (\<lambda>x s. s\<lparr>ap_window_closed_observers := x\<rparr>) dbg ()
             (\<lambda>c s. map_option (Pair True) (en_call env c s)) (put_window w (win\<lparr>aw_place := Closed\<rparr>) s))
      else Some (put_window w (win\<lparr>aw_place := In_map\<rparr>) s))"

definition update_window_id :: "target_os \<Rightarrow> bool \<Rightarrow> ('c, 'v, 'e, 'g, 'p, 'u) env \<Rightarrow>
    (('c, 'v, 'e, 'g, 'p, 'u) app \<Rightarrow> ('c, 'v, 'e, 'g, 'p, 'u) app option) \<Rightarrow> nat \<Rightarrow>
    (('c, 'v, 'e, 'g, 'p, 'u) app \<Rightarrow> ('r \<times> ('c, 'v, 'e, 'g, 'p, 'u) app) option) \<Rightarrow>
    ('c, 'v, 'e, 'g, 'p, 'u) app \<Rightarrow> ('r option \<times> ('c, 'v, 'e, 'g, 'p, 'u) app) option" where
  "update_window_id os dbg env flush w update =
     app_update flush (\<lambda>s.
       if w < length (ap_windows s) \<and> aw_place (ap_windows s ! w) = In_map then
         Option.bind (update (put_window w ((ap_windows s ! w)\<lparr>aw_place := On_stack\<rparr>)
             (s\<lparr>ap_window_update_stack := ap_window_update_stack s @ [w]\<rparr>))) (\<lambda>(r, s).
           map_option (Pair (Some r)) (window_updated os dbg env w
             (s\<lparr>ap_window_update_stack := butlast (ap_window_update_stack s)\<rparr>)))
       else Some (None, s))"

section \<open>Applying effects\<close>

fun run_handler :: "('c, 'v, 'e, 'g, 'p, 'u) env \<Rightarrow> 'c handler \<Rightarrow> ('c, 'v, 'e, 'g, 'p, 'u) app \<Rightarrow>
    (bool \<times> ('c, 'v, 'e, 'g, 'p, 'u) app) option" where
  "run_handler env (Handler c) s = en_notify env c s"
| "run_handler env (Upgrading h c) s =
     (case weak_upgrade h (Some (em_refs (ap_entities s))) of
        None \<Rightarrow> Some (False, s)
      | Some (e, refs) \<Rightarrow> en_notify_entity env c e (s\<lparr>ap_entities := (ap_entities s)\<lparr>em_refs := refs\<rparr>\<rparr>))"

fun run_listener :: "('c, 'v, 'e, 'g, 'p, 'u) env \<Rightarrow> 'v \<Rightarrow> 'c handler \<Rightarrow> ('c, 'v, 'e, 'g, 'p, 'u) app \<Rightarrow>
    (bool \<times> ('c, 'v, 'e, 'g, 'p, 'u) app) option" where
  "run_listener env event (Handler c) s = en_event env c event s"
| "run_listener env event (Upgrading h c) s =
     (case weak_upgrade h (Some (em_refs (ap_entities s))) of
        None \<Rightarrow> Some (False, s)
      | Some (e, refs) \<Rightarrow> en_event_entity env c e event (s\<lparr>ap_entities := (ap_entities s)\<lparr>em_refs := refs\<rparr>\<rparr>))"

fun run_closure :: "('c, 'v, 'e, 'g, 'p, 'u) env \<Rightarrow> 'c closure \<Rightarrow> ('c, 'v, 'e, 'g, 'p, 'u) app \<Rightarrow>
    ('c, 'v, 'e, 'g, 'p, 'u) app option" where
  "run_closure env (Call c) s = en_call env c s"
| "run_closure env (Activate_observer i) s = Some (s\<lparr>ap_observers := activate i (ap_observers s)\<rparr>)"
| "run_closure env (Activate_listener i) s = Some (s\<lparr>ap_event_listeners := activate i (ap_event_listeners s)\<rparr>)"
| "run_closure env (Activate_global_observer i) s = Some (s\<lparr>ap_global_observers := activate i (ap_global_observers s)\<rparr>)"

definition apply_notify_effect :: "bool \<Rightarrow> ('c, 'v, 'e, 'g, 'p, 'u) env \<Rightarrow> nat \<Rightarrow> ('c, 'v, 'e, 'g, 'p, 'u) app \<Rightarrow>
    ('c, 'v, 'e, 'g, 'p, 'u) app option" where
  "apply_notify_effect dbg env emitter s =
     app_retain ap_observers (\<lambda>x s. s\<lparr>ap_observers := x\<rparr>) dbg emitter (run_handler env)
       (s\<lparr>ap_pending_notifications := ap_pending_notifications s - {emitter}\<rparr>)"

definition apply_emit_effect :: "bool \<Rightarrow> ('c, 'v, 'e, 'g, 'p, 'u) env \<Rightarrow> nat \<Rightarrow> nat \<Rightarrow> 'v \<Rightarrow> ('c, 'v, 'e, 'g, 'p, 'u) app \<Rightarrow>
    ('c, 'v, 'e, 'g, 'p, 'u) app option" where
  "apply_emit_effect dbg env emitter T event s =
     app_retain ap_event_listeners (\<lambda>x s. s\<lparr>ap_event_listeners := x\<rparr>) dbg emitter
       (\<lambda>(T', handler) s. if T' = T then run_listener env event handler s else Some (True, s)) s"

definition apply_refresh_effect :: "('c, 'v, 'e, 'g, 'p, 'u) app \<Rightarrow> ('c, 'v, 'e, 'g, 'p, 'u) app" where
  "apply_refresh_effect s = s\<lparr>ap_windows := map (\<lambda>win. if aw_place win = In_map
     then win\<lparr>aw_window := (aw_window win)\<lparr>fw_refreshing := True, fw_invalidator := set_dirty True (fw_invalidator (aw_window win))\<rparr>\<rparr>
     else win) (ap_windows s)\<rparr>"

definition apply_notify_global_observers_effect :: "bool \<Rightarrow> ('c, 'v, 'e, 'g, 'p, 'u) env \<Rightarrow> nat \<Rightarrow> ('c, 'v, 'e, 'g, 'p, 'u) app \<Rightarrow>
    ('c, 'v, 'e, 'g, 'p, 'u) app option" where
  "apply_notify_global_observers_effect dbg env T s =
     app_retain ap_global_observers (\<lambda>x s. s\<lparr>ap_global_observers := x\<rparr>) dbg T (en_notify env)
       (s\<lparr>ap_pending_global_notifications := ap_pending_global_notifications s - {T}\<rparr>)"

definition with_entity_refs :: "(entity_ref_counts option \<Rightarrow> entity_ref_counts option option) \<Rightarrow>
    ('c, 'v, 'e, 'g, 'p, 'u) app \<Rightarrow> ('c, 'v, 'e, 'g, 'p, 'u) app option" where
  "with_entity_refs f s = (case f (Some (em_refs (ap_entities s))) of
     Some (Some refs) \<Rightarrow> Some (s\<lparr>ap_entities := (ap_entities s)\<lparr>em_refs := refs\<rparr>\<rparr>) | _ \<Rightarrow> None)"

text \<open>The effects are applied while the flag is set, so the window's update does not flush.\<close>

definition apply_entity_created_effect :: "target_os \<Rightarrow> bool \<Rightarrow> ('c, 'v, 'e, 'g, 'p, 'u) env \<Rightarrow> any_entity \<Rightarrow> nat \<Rightarrow>
    nat option \<Rightarrow> ('c, 'v, 'e, 'g, 'p, 'u) app \<Rightarrow> ('c, 'v, 'e, 'g, 'p, 'u) app option" where
  "apply_entity_created_effect os dbg env e T window s =
     Option.bind (app_retain ap_new_entity_observers (\<lambda>x s. s\<lparr>ap_new_entity_observers := x\<rparr>) dbg T (\<lambda>c s.
       Option.bind (with_entity_refs (\<lambda>refs. map_option snd (entity_clone e refs)) s) (\<lambda>s.
         (case window of
            Some w \<Rightarrow>
              Option.bind (update_window_id os dbg env (\<lambda>_. None) w (\<lambda>s. map_option (Pair ()) (en_created env c e (Some w) s)) s)
                (\<lambda>(r, s). if r = None then None else Some (True, s))
          | None \<Rightarrow> map_option (Pair True) (en_created env c e None s)))) s)
     (with_entity_refs (entity_drop e))"

fun apply_effect :: "target_os \<Rightarrow> bool \<Rightarrow> ('c, 'v, 'e, 'g, 'p, 'u) env \<Rightarrow> ('c, 'v) effect \<Rightarrow> ('c, 'v, 'e, 'g, 'p, 'u) app \<Rightarrow>
    ('c, 'v, 'e, 'g, 'p, 'u) app option" where
  "apply_effect os dbg env (Notify emitter) s = apply_notify_effect dbg env emitter s"
| "apply_effect os dbg env (Emit emitter T event) s = apply_emit_effect dbg env emitter T event s"
| "apply_effect os dbg env Refresh_windows s = Some (apply_refresh_effect s)"
| "apply_effect os dbg env (Notify_global_observers T) s = apply_notify_global_observers_effect dbg env T s"
| "apply_effect os dbg env (Defer f) s = run_closure env f s"
| "apply_effect os dbg env (Entity_created e T window) s = apply_entity_created_effect os dbg env e T window s"

section \<open>Releasing\<close>

fun release_callbacks :: "('c, 'v, 'e, 'g, 'p, 'u) env \<Rightarrow> 'c list \<Rightarrow> nat \<times> 'e \<Rightarrow> ('c, 'v, 'e, 'g, 'p, 'u) app \<Rightarrow>
    ((nat \<times> 'e) \<times> ('c, 'v, 'e, 'g, 'p, 'u) app) option" where
  "release_callbacks env [] v s = Some (v, s)"
| "release_callbacks env (c # cs) v s = Option.bind (en_release env c v s) (\<lambda>(v, s). release_callbacks env cs v s)"

fun release_each :: "('c, 'v, 'e, 'g, 'p, 'u) env \<Rightarrow> (nat \<times> (nat \<times> 'e)) list \<Rightarrow> ('c, 'v, 'e, 'g, 'p, 'u) app \<Rightarrow>
    ('c, 'v, 'e, 'g, 'p, 'u) app option" where
  "release_each env [] s = Some s"
| "release_each env ((i, v) # dropped) s =
     (let s = s\<lparr>ap_observers := snd (subscriber_remove i (ap_observers s)),
                ap_event_listeners := snd (subscriber_remove i (ap_event_listeners s))\<rparr>;
          (cs, set) = subscriber_remove i (ap_release_listeners s)
      in Option.bind (release_callbacks env cs v (s\<lparr>ap_release_listeners := set\<rparr>)) (\<lambda>(v, s).
         Option.bind (en_drop env v s) (release_each env dropped)))"

partial_function (option) release_dropped_entities :: "bool \<Rightarrow> ('c, 'v, 'e, 'g, 'p, 'u) env \<Rightarrow>
    ('c, 'v, 'e, 'g, 'p, 'u) app \<Rightarrow> ('c, 'v, 'e, 'g, 'p, 'u) app option" where
  "release_dropped_entities dbg env s =
     Option.bind (take_dropped dbg (ap_entities s)) (\<lambda>dm.
       if fst dm = [] then Some (s\<lparr>ap_entities := snd dm\<rparr>)
       else Option.bind (release_each env (fst dm) (s\<lparr>ap_entities := snd dm\<rparr>)) (release_dropped_entities dbg env))"

text \<open>The windows that are not closed, and one that is being updated as \<open>None\<close>.\<close>

definition window_views :: "'p app_window list \<Rightarrow> 'p focus_window option list" where
  "window_views ws = map (\<lambda>w. if aw_place w = On_stack then None else Some (aw_window w)) (filter (\<lambda>w. aw_place w \<noteq> Closed) ws)"

fun put_views :: "'p app_window list \<Rightarrow> 'p focus_window option list \<Rightarrow> 'p app_window list" where
  "put_views (w # ws) vs =
     (if aw_place w = Closed then w # put_views ws vs
      else case vs of
        [] \<Rightarrow> w # ws
      | v # vs \<Rightarrow> (case v of None \<Rightarrow> w | Some x \<Rightarrow> w\<lparr>aw_window := x\<rparr>) # put_views ws vs)"
| "put_views [] vs = []"

definition app_release_focus_handles :: "('c, 'v, 'e, 'g, 'p, 'u) app \<Rightarrow> ('c, 'v, 'e, 'g, 'p, 'u) app option" where
  "app_release_focus_handles s =
     map_option (\<lambda>(fm, vs). s\<lparr>ap_focus_handles := fm, ap_windows := put_views (ap_windows s) vs\<rparr>)
       (release_dropped_focus_handles [0..<ap_focus_slots s] (ap_focus_handles s) (window_views (ap_windows s)))"

partial_function (option) flush_effects :: "target_os \<Rightarrow> bool \<Rightarrow> ('c, 'v, 'e, 'g, 'p, 'u) env \<Rightarrow>
    ('c, 'v, 'e, 'g, 'p, 'u) app \<Rightarrow> ('c, 'v, 'e, 'g, 'p, 'u) app option" where
  "flush_effects os dbg env s =
     Option.bind (Option.bind (release_dropped_entities dbg env s) app_release_focus_handles) (\<lambda>s.
       case ap_pending_effects s of
         [] \<Rightarrow> Some s
       | e # es \<Rightarrow> Option.bind (apply_effect os dbg env e (s\<lparr>ap_pending_effects := es\<rparr>)) (flush_effects os dbg env))"

section \<open>Entities of the application\<close>

text \<open>\<open>AppContext::new\<close>: the entity is built between the reservation of its slot and its insertion.\<close>

definition app_new :: "(('c, 'v, 'e, 'g, 'p, 'u) app \<Rightarrow> ('c, 'v, 'e, 'g, 'p, 'u) app option) \<Rightarrow> nat \<Rightarrow> nat \<Rightarrow>
    (any_weak_entity \<Rightarrow> ('c, 'v, 'e, 'g, 'p, 'u) app \<Rightarrow> ('e \<times> ('c, 'v, 'e, 'g, 'p, 'u) app) option) \<Rightarrow>
    ('c, 'v, 'e, 'g, 'p, 'u) app \<Rightarrow> (any_entity \<times> ('c, 'v, 'e, 'g, 'p, 'u) app) option" where
  "app_new flush fresh T build = app_update flush (\<lambda>s.
     (let (slot, m) = em_reserve fresh T (ap_entities s) in
      Option.bind (with_entity_refs (\<lambda>refs. map_option snd (entity_clone slot refs)) (s\<lparr>ap_entities := m\<rparr>)) (\<lambda>s.
      Option.bind (build (entity_downgrade slot) s) (\<lambda>(v, s).
      Option.bind (with_entity_refs (\<lambda>refs. map_option snd (entity_clone slot refs)) s) (\<lambda>s.
        (let s = push_effect (Entity_created slot T
               (if ap_window_update_stack s = [] then None else Some (last (ap_window_update_stack s)))) s;
             (e, m) = em_insert slot v (ap_entities s)
         in map_option (Pair slot) (with_entity_refs (entity_drop e) (s\<lparr>ap_entities := m\<rparr>))))))))"

definition reserve_entity :: "nat \<Rightarrow> nat \<Rightarrow> ('c, 'v, 'e, 'g, 'p, 'u) app \<Rightarrow> any_entity \<times> ('c, 'v, 'e, 'g, 'p, 'u) app" where
  "reserve_entity fresh T s = (let (slot, m) = em_reserve fresh T (ap_entities s) in (slot, s\<lparr>ap_entities := m\<rparr>))"

definition insert_entity :: "(('c, 'v, 'e, 'g, 'p, 'u) app \<Rightarrow> ('c, 'v, 'e, 'g, 'p, 'u) app option) \<Rightarrow> any_entity \<Rightarrow>
    (any_weak_entity \<Rightarrow> ('c, 'v, 'e, 'g, 'p, 'u) app \<Rightarrow> ('e \<times> ('c, 'v, 'e, 'g, 'p, 'u) app) option) \<Rightarrow>
    ('c, 'v, 'e, 'g, 'p, 'u) app \<Rightarrow> (any_entity \<times> ('c, 'v, 'e, 'g, 'p, 'u) app) option" where
  "insert_entity flush slot build = app_update flush (\<lambda>s.
     map_option (\<lambda>(v, s). (let (e, m) = em_insert slot v (ap_entities s) in (e, s\<lparr>ap_entities := m\<rparr>)))
       (build (entity_downgrade slot) s))"

text \<open>The closure gets the entity's type and value off the map, and leaves it with a value of its type.\<close>

definition update_entity :: "bool \<Rightarrow> (('c, 'v, 'e, 'g, 'p, 'u) app \<Rightarrow> ('c, 'v, 'e, 'g, 'p, 'u) app option) \<Rightarrow> any_entity \<Rightarrow>
    ('e \<Rightarrow> ('c, 'v, 'e, 'g, 'p, 'u) app \<Rightarrow> ('r \<times> 'e \<times> ('c, 'v, 'e, 'g, 'p, 'u) app) option) \<Rightarrow>
    ('c, 'v, 'e, 'g, 'p, 'u) app \<Rightarrow> ('r \<times> ('c, 'v, 'e, 'g, 'p, 'u) app) option" where
  "update_entity dbg flush handle update = app_update flush (\<lambda>s.
     Option.bind (em_lease dbg handle (ap_entities s)) (\<lambda>(l, m).
     Option.bind (lease_deref (ae_type handle) l) (\<lambda>v.
     Option.bind (update v (s\<lparr>ap_entities := m\<rparr>)) (\<lambda>(r, v, s).
     Option.bind (lease_deref_mut (ae_type handle) (\<lambda>_. v) l) (\<lambda>l.
       map_option (\<lambda>(_, m). (r, s\<lparr>ap_entities := m\<rparr>)) (em_end_lease l (ap_entities s)))))))"

definition read_entity :: "bool \<Rightarrow> any_entity \<Rightarrow> ('c, 'v, 'e, 'g, 'p, 'u) app \<Rightarrow> ('e \<times> ('c, 'v, 'e, 'g, 'p, 'u) app) option" where
  "read_entity dbg handle s = map_option (\<lambda>(v, m). (v, s\<lparr>ap_entities := m\<rparr>)) (em_read dbg handle (ap_entities s))"

text \<open>An entity that is being updated is not in the map, so updating or reading it again panics.\<close>

lemma reentrant_update: "em_entities (ap_entities s) (ae_id handle) = None \<Longrightarrow> update_entity dbg flush handle update s = None"
  by (auto simp: update_entity_def app_update_def start_update_def em_lease_def assert_valid_context_def)

lemma reentrant_read: "em_entities (ap_entities s) (ae_id handle) = None \<Longrightarrow> read_entity dbg handle s = None"
  by (auto simp: read_entity_def em_read_def assert_valid_context_def)

lemma leased_absent: "em_lease dbg handle m = Some (l, m') \<Longrightarrow> em_entities m' (ae_id handle) = None"
  by (auto simp: em_lease_def assert_valid_context_def Let_def split: if_splits option.splits)

end
