(* ===== verification/App_Cycle.thy ===== *)
theory App_Cycle
  imports App_Effects
begin

text \<open>
  What the effect cycle of the application keeps and reaches: notifications are queued once, a
  flush leaves nothing behind, and who is notified of what.
\<close>

section \<open>Retaining\<close>

text \<open>On the set alone, with closures that do not change themselves, this is \<open>SubscriberSet::retain\<close>.\<close>

lemma retain_each_loop:
  "retain_each id (\<lambda>c s. Some (f c s)) m s = Some (retain_loop (\<lambda>c s. (fst (f c s), c, snd (f c s))) m s)"
  by (induction m arbitrary: s) (auto simp: Let_def split: prod.splits)

lemma app_retain_is_retain:
  "app_retain id (\<lambda>x _. x) dbg emitter (\<lambda>c s. Some (f c s)) s =
   subscriber_retain dbg emitter (\<lambda>c s. (fst (f c s), c, snd (f c s))) s"
  by (simp add: app_retain_def subscriber_retain_def retain_each_loop Let_def
      split: option.splits prod.splits)

text \<open>What the closures and the changes of the set keep is kept.\<close>

lemma retain_each_kept:
  assumes refl: "\<And>s. R s s" and trans: "\<And>s t u. R s t \<Longrightarrow> R t u \<Longrightarrow> R s u"
    and f: "\<And>c s k s'. f c s = Some (k, s') \<Longrightarrow> R s s'"
  shows "retain_each get f m s = Some (m', s') \<Longrightarrow> R s s'"
proof (induction m arbitrary: m' s)
  case (Cons x m)
  obtain i c where x: "x = (i, c)" by (cases x)
  show ?case
  proof (cases "i \<in> ss_active (get s)")
    case True
    with Cons.prems x obtain k s1 m1 where "f c s = Some (k, s1)" "retain_each get f m s1 = Some (m1, s')"
      by (auto simp: bind_eq_Some_conv)
    with Cons.IH f trans show ?thesis by blast
  next
    case False
    with Cons.prems x obtain m1 where "retain_each get f m s = Some (m1, s')" by auto
    with Cons.IH show ?thesis by blast
  qed
qed (simp add: refl)

lemma app_retain_kept:
  assumes refl: "\<And>s. R s s" and trans: "\<And>s t u. R s t \<Longrightarrow> R t u \<Longrightarrow> R s u"
    and f: "\<And>c s k s'. f c s = Some (k, s') \<Longrightarrow> R s s'" and put: "\<And>x s. R s (put x s)"
    and run: "app_retain get put dbg emitter f s = Some s'"
  shows "R s s'"
proof (cases "ss_subscribers (get s) emitter")
  case (Some entry)
  show ?thesis
  proof (cases entry)
    case None
    with Some run refl show ?thesis by (simp add: app_retain_def)
  next
    case (Some subscribers)
    let ?s0 = "put ((get s)\<lparr>ss_subscribers := (ss_subscribers (get s))(emitter \<mapsto> None)\<rparr>) s"
    from run Some \<open>ss_subscribers (get s) emitter = Some entry\<close> obtain m s1 x where
      "retain_each get f subscribers ?s0 = Some (m, s1)" "s' = put x s1"
      by (auto simp: app_retain_def bind_eq_Some_conv Let_def split: if_splits)
    have "R ?s0 s1"
      by (rule retain_each_kept [of R, OF refl trans f]) (assumption | fact)+
    then have "R s s1" by (rule trans [OF put])
    with \<open>s' = put x s1\<close> show ?thesis using trans put by blast
  qed
qed (use run refl in \<open>simp add: app_retain_def\<close>)

section \<open>What closures may do\<close>

text \<open>
  Every use a closure makes of the application is a change of what is not the queue, or queues
  an effect; and it leaves as many updates pending as it found.
\<close>

definition same_queue :: "('c, 'v, 'e, 'g, 'p, 'u) app \<Rightarrow> ('c, 'v, 'e, 'g, 'p, 'u) app \<Rightarrow> bool" where
  "same_queue s s' \<longleftrightarrow> ap_pending_effects s' = ap_pending_effects s \<and> ap_pending_notifications s' = ap_pending_notifications s \<and>
     ap_pending_global_notifications s' = ap_pending_global_notifications s \<and> ap_flushing_effects s' = ap_flushing_effects s"

inductive app_steps :: "('c, 'v, 'e, 'g, 'p, 'u) app \<Rightarrow> ('c, 'v, 'e, 'g, 'p, 'u) app \<Rightarrow> bool" where
  steps_refl: "app_steps s s"
| steps_change: "app_steps s t \<Longrightarrow> same_queue t u \<Longrightarrow> app_steps s u"
| steps_push: "app_steps s t \<Longrightarrow> app_steps s (push_effect e t)"

lemma app_steps_trans: "app_steps t u \<Longrightarrow> app_steps s t \<Longrightarrow> app_steps s u"
  by (induction rule: app_steps.induct) (auto intro: app_steps.intros)

lemma same_queue_steps: "same_queue s s' \<Longrightarrow> app_steps s s'"
  by (rule steps_change [OF steps_refl])

lemma push_effect_steps: "app_steps s (push_effect e s)"
  by (rule steps_push [OF steps_refl])

lemma push_steps: "app_steps (push_effect e s) t \<Longrightarrow> app_steps s t"
  by (rule app_steps_trans [OF _ push_effect_steps])

lemma emit_is_push: "emit_event emitter T event s = push_effect (Emit emitter T event) s"
  "refresh_windows s = push_effect Refresh_windows s"
  by (simp_all add: emit_event_def refresh_windows_def push_effect_def)

lemma invalidate_each_steps: "app_steps s (invalidate_each entity ws s)"
proof (induction ws arbitrary: s)
  case (Cons w ws)
  obtain iv pushed where iv: "invalidate_view entity (fw_invalidator (aw_window (ap_windows s ! w))) = (iv, pushed)"
    by (cases "invalidate_view entity (fw_invalidator (aw_window (ap_windows s ! w)))")
  have "app_steps s (set_invalidator w iv s)"
    by (rule same_queue_steps) (simp add: same_queue_def set_invalidator_def)
  then have "app_steps s ((if pushed then push_effect (Notify entity) else (\<lambda>s. s)) (set_invalidator w iv s))"
    by (simp add: steps_push)
  from app_steps_trans [OF Cons.IH this] show ?case by (simp add: iv)
qed (simp add: steps_refl)

lemma notify_is_push: "ap_window_invalidators_by_entity s entity = [] \<Longrightarrow> app_notify entity s = push_effect (Notify entity) s"
  by (simp add: app_notify_def push_effect_def Let_def)

lemma notify_steps: "app_steps s (app_notify entity s)"
proof (cases "ap_window_invalidators_by_entity s entity = []")
  case True
  then show ?thesis by (simp add: notify_is_push push_effect_steps)
next
  case False
  then show ?thesis by (simp add: app_notify_def Let_def invalidate_each_steps)
qed

lemma change_push_steps: "same_queue s t \<Longrightarrow> app_steps s (push_effect e t)"
  by (rule steps_push [OF same_queue_steps])

text \<open>The operations of the application.\<close>

lemma push_change_steps: "same_queue (push_effect e s) t \<Longrightarrow> app_steps s t"
  by (rule push_steps [OF same_queue_steps])

lemma observer_steps:
  "app_steps s (snd (new_observer key value s))"
  "app_steps s (snd (new_subscription key lst s))"
  "app_steps s (snd (observe_global T f s))"
  by (auto simp: new_observer_def new_subscription_def observe_global_def app_defer_def same_queue_def
      intro!: change_push_steps split: prod.split)

lemma active_observer_steps:
  "app_steps s (snd (observe_new T f s))"
  "app_steps s (snd (observe_release entity f s))"
  "app_steps s (snd (on_window_closed f s))"
  "app_steps s (drop_observer key i s)"
  by (auto simp: observe_new_def observe_release_def on_window_closed_def drop_observer_def same_queue_def
      intro!: same_queue_steps split: prod.split)

lemma global_push_steps:
  "app_steps s (set_global T g s)"
  "app_steps s (end_global_lease T g s)"
  "app_steps s (default_global T g h s)"
  "global_mut T h s = Some s' \<Longrightarrow> app_steps s s'"
  "remove_global T s = Some (g, s') \<Longrightarrow> app_steps s s'"
  by (auto simp: set_global_def end_global_lease_def default_global_def global_mut_def remove_global_def
      same_queue_def Let_def intro: push_change_steps [of "Notify_global_observers T"] split: option.splits)

lemma global_change_steps:
  "app_steps s (clear_globals s)"
  "lease_global T s = Some (g, s') \<Longrightarrow> app_steps s s'"
  by (auto simp: clear_globals_def lease_global_def same_queue_def intro!: same_queue_steps)

lemma push_effect_same [simp]:
  "ap_flushing_effects (push_effect e s) = ap_flushing_effects s" "ap_pending_updates (push_effect e s) = ap_pending_updates s"
  by (simp_all add: push_effect_def Let_def split: effect.split)

lemma app_steps_flag: "app_steps s t \<Longrightarrow> ap_flushing_effects t = ap_flushing_effects s"
  by (induction rule: app_steps.induct) (simp_all add: same_queue_def)

lemma invalidate_each_updates: "ap_pending_updates (invalidate_each entity ws s) = ap_pending_updates s"
  by (induction ws arbitrary: s) (auto simp: set_invalidator_def split: prod.split)

lemma notify_updates: "ap_pending_updates (app_notify entity s) = ap_pending_updates s"
  by (simp add: app_notify_def invalidate_each_updates Let_def)

text \<open>A nested update does not flush.\<close>

lemma nested_update_steps:
  assumes "app_update flush update s = Some (r, s')" and "ap_flushing_effects s \<or> ap_pending_updates s \<noteq> 0"
    and "\<And>t r t'. update t = Some (r, t') \<Longrightarrow> app_steps t t' \<and> ap_pending_updates t' = ap_pending_updates t"
  shows "app_steps s s' \<and> ap_pending_updates s' = ap_pending_updates s"
proof -
  obtain t where t: "update (start_update s) = Some (r, t)" and fin: "finish_update flush t = Some s'"
    using assms(1) by (auto simp: app_update_def bind_eq_Some_conv)
  have t': "app_steps (start_update s) t" "ap_pending_updates t = Suc (ap_pending_updates s)" "ap_flushing_effects t = ap_flushing_effects s"
    using assms(3) [OF t] app_steps_flag [of "start_update s" t] by (simp_all add: start_update_def)
  have "finish_update flush t = Some (t\<lparr>ap_pending_updates := ap_pending_updates s\<rparr>)"
    using t'(2,3) assms(2) by (auto simp: finish_update_def)
  with fin have s': "s' = t\<lparr>ap_pending_updates := ap_pending_updates s\<rparr>" by simp
  have "app_steps s (start_update s)" by (rule same_queue_steps) (simp add: same_queue_def start_update_def)
  from app_steps_trans [OF t'(1) this] have "app_steps s s'" unfolding s' by (rule steps_change) (simp add: same_queue_def)
  then show ?thesis by (simp add: s')
qed

text \<open>What a closure, an effect or a whole flush does to the queue.\<close>

definition ran :: "('c, 'v, 'e, 'g, 'p, 'u) app \<Rightarrow> ('c, 'v, 'e, 'g, 'p, 'u) app \<Rightarrow> bool" where
  "ran s s' \<longleftrightarrow> app_steps s s' \<and> ap_pending_updates s' = ap_pending_updates s"

lemma ran_refl: "ran s s"
  by (simp add: ran_def steps_refl)

lemma ran_trans: "ran s t \<Longrightarrow> ran t u \<Longrightarrow> ran s u"
  using app_steps_trans by (auto simp: ran_def)

lemma ran_change: "same_queue s s' \<Longrightarrow> ap_pending_updates s' = ap_pending_updates s \<Longrightarrow> ran s s'"
  by (simp add: ran_def same_queue_steps)

definition env_ok :: "('c, 'v, 'e, 'g, 'p, 'u) env \<Rightarrow> bool" where
  "env_ok env \<longleftrightarrow>
     (\<forall>c s s'. en_call env c s = Some s' \<longrightarrow> ran s s') \<and>
     (\<forall>c s k s'. en_notify env c s = Some (k, s') \<longrightarrow> ran s s') \<and>
     (\<forall>c e s k s'. en_notify_entity env c e s = Some (k, s') \<longrightarrow> ran s s') \<and>
     (\<forall>c v s k s'. en_event env c v s = Some (k, s') \<longrightarrow> ran s s') \<and>
     (\<forall>c e v s k s'. en_event_entity env c e v s = Some (k, s') \<longrightarrow> ran s s') \<and>
     (\<forall>c v s v' s'. en_release env c v s = Some (v', s') \<longrightarrow> ran s s') \<and>
     (\<forall>v s s'. en_drop env v s = Some s' \<longrightarrow> ran s s') \<and>
     (\<forall>c e w s s'. en_created env c e w s = Some s' \<longrightarrow> ran s s')"

lemma env_okD:
  assumes "env_ok env"
  shows "en_call env c s = Some s' \<Longrightarrow> ran s s'" "en_notify env c s = Some (k, s') \<Longrightarrow> ran s s'"
    "en_notify_entity env c e s = Some (k, s') \<Longrightarrow> ran s s'" "en_event env c v s = Some (k, s') \<Longrightarrow> ran s s'"
    "en_event_entity env c e v s = Some (k, s') \<Longrightarrow> ran s s'" "en_release env c x s = Some (x', s') \<Longrightarrow> ran s s'"
    "en_drop env x s = Some s' \<Longrightarrow> ran s s'" "en_created env c e w s = Some s' \<Longrightarrow> ran s s'"
  using assms by (auto 0 4 simp: env_ok_def simp del: split_paired_All)

lemma with_refs_ran: "ran s (s\<lparr>ap_entities := m\<rparr>)"
  by (rule ran_change) (simp_all add: same_queue_def)

lemma run_handler_ran: "env_ok env \<Longrightarrow> run_handler env h s = Some (k, s') \<Longrightarrow> ran s s'"
  by (cases h) (auto split: option.splits intro: env_okD ran_refl ran_trans [OF with_refs_ran])

lemma run_listener_ran: "env_ok env \<Longrightarrow> run_listener env v h s = Some (k, s') \<Longrightarrow> ran s s'"
  by (cases h) (auto split: option.splits intro: env_okD ran_refl ran_trans [OF with_refs_ran])

lemma run_closure_ran: "env_ok env \<Longrightarrow> run_closure env f s = Some s' \<Longrightarrow> ran s s'"
  by (cases f) (auto intro: env_okD ran_change simp: same_queue_def)

lemma with_entity_refs_ran: "with_entity_refs f s = Some s' \<Longrightarrow> ran s s'"
  by (auto simp: with_entity_refs_def with_refs_ran split: option.splits)

lemma retain_ran:
  assumes "\<And>c s k s'. f c s = Some (k, s') \<Longrightarrow> ran s s'" and "\<And>x s. ran s (put x s)"
    and "app_retain get put dbg emitter f s = Some s'"
  shows "ran s s'"
  by (rule app_retain_kept [where R = ran and f = f and put = put]) (fact ran_refl, erule (1) ran_trans, erule assms(1), fact assms(2), fact assms(3))

lemma put_window_ran: "ran s (put_window w v s)"
  by (rule ran_change) (simp_all add: put_window_def same_queue_def)

lemma window_updated_ran:
  assumes "env_ok env" and "window_updated os dbg env w s = Some s'"
  shows "ran s s'"
proof (cases "aw_removed (ap_windows s ! w)")
  case True
  with assms(2) obtain t where t: "app_retain ap_window_closed_observers (\<lambda>x s. s\<lparr>ap_window_closed_observers := x\<rparr>) dbg ()
      (\<lambda>c s. map_option (Pair True) (en_call env c s)) (put_window w ((ap_windows s ! w)\<lparr>aw_place := Closed\<rparr>) s) = Some t"
    "s' = t \<or> s' = t\<lparr>ap_quits := Suc (ap_quits t)\<rparr>"
    by (auto simp: window_updated_def Let_def)
  have "ran (put_window w ((ap_windows s ! w)\<lparr>aw_place := Closed\<rparr>) s) t"
    by (rule retain_ran [OF _ _ t(1)]) (auto intro: env_okD [OF assms(1)] ran_change simp: same_queue_def)
  moreover have "ran t s'" using t(2) by (auto intro: ran_refl ran_change simp: same_queue_def)
  ultimately show ?thesis using ran_trans put_window_ran by blast
next
  case False
  with assms(2) have "s' = put_window w ((ap_windows s ! w)\<lparr>aw_place := In_map\<rparr>) s" by (simp add: window_updated_def Let_def)
  then show ?thesis by (simp add: put_window_ran)
qed

lemma update_window_ran:
  assumes env: "env_ok env" and run: "update_window_id os dbg env flush w update s = Some (r, s')"
    and nested: "ap_flushing_effects s \<or> ap_pending_updates s \<noteq> 0"
    and update: "\<And>t r t'. update t = Some (r, t') \<Longrightarrow> ran t t'"
  shows "ran s s'"
proof -
  have "ran t t'" if body: "(if w < length (ap_windows t) \<and> aw_place (ap_windows t ! w) = In_map then
         Option.bind (update (put_window w ((ap_windows t ! w)\<lparr>aw_place := On_stack\<rparr>)
             (t\<lparr>ap_window_update_stack := ap_window_update_stack t @ [w]\<rparr>))) (\<lambda>(r, s).
           map_option (Pair (Some r)) (window_updated os dbg env w
             (s\<lparr>ap_window_update_stack := butlast (ap_window_update_stack s)\<rparr>)))
       else Some (None, t)) = Some (q, t')" for t q t'
  proof (cases "w < length (ap_windows t) \<and> aw_place (ap_windows t ! w) = In_map")
    case True
    with body obtain r1 t1 where t1: "update (put_window w ((ap_windows t ! w)\<lparr>aw_place := On_stack\<rparr>)
             (t\<lparr>ap_window_update_stack := ap_window_update_stack t @ [w]\<rparr>)) = Some (r1, t1)"
      "window_updated os dbg env w (t1\<lparr>ap_window_update_stack := butlast (ap_window_update_stack t1)\<rparr>) = Some t'"
      by (auto simp: bind_eq_Some_conv)
    have stack: "ran v (v\<lparr>ap_window_update_stack := st\<rparr>)" for st and v :: "('a, 'b, 'c, 'd, 'e, 'f) app"
      by (rule ran_change) (simp_all add: same_queue_def)
    note ran_trans [OF ran_trans [OF ran_trans [OF stack put_window_ran] update [OF t1(1)]]
        ran_trans [OF stack window_updated_ran [OF env t1(2)]]]
    then show ?thesis .
  qed (use body ran_refl in auto)
  with nested_update_steps [OF run [unfolded update_window_id_def] nested] show ?thesis
    unfolding ran_def by blast
qed

lemma ran_flag: "ran s s' \<Longrightarrow> ap_flushing_effects s' = ap_flushing_effects s"
  by (simp add: ran_def app_steps_flag)

lemma apply_entity_created_ran:
  assumes env: "env_ok env" and flag: "ap_flushing_effects s"
    and run: "apply_entity_created_effect os dbg env e T window s = Some s'"
  shows "ran s s'"
proof -
  let ?R = "\<lambda>s s'. ap_flushing_effects s \<longrightarrow> ran s s'"
  let ?f = "\<lambda>c s. Option.bind (with_entity_refs (\<lambda>refs. map_option snd (entity_clone e refs)) s) (\<lambda>s.
         (case window of
            Some w \<Rightarrow>
              Option.bind (update_window_id os dbg env (\<lambda>_. None) w (\<lambda>s. map_option (Pair ()) (en_created env c e (Some w) s)) s)
                (\<lambda>(r, s). if r = None then None else Some (True, s))
          | None \<Rightarrow> map_option (Pair True) (en_created env c e None s)))"
  obtain t where t: "app_retain ap_new_entity_observers (\<lambda>x s. s\<lparr>ap_new_entity_observers := x\<rparr>) dbg T ?f s = Some t"
    "with_entity_refs (entity_drop e) t = Some s'"
    using run by (auto simp: apply_entity_created_effect_def bind_eq_Some_conv)
  have f: "?R v v'" if fv: "?f c v = Some (k, v')" for c v k v'
  proof
    assume v: "ap_flushing_effects v"
    from fv obtain u where u: "with_entity_refs (\<lambda>refs. map_option snd (entity_clone e refs)) v = Some u"
      "(case window of
            Some w \<Rightarrow>
              Option.bind (update_window_id os dbg env (\<lambda>_. None) w (\<lambda>s. map_option (Pair ()) (en_created env c e (Some w) s)) u)
                (\<lambda>(r, s). if r = None then None else Some (True, s))
          | None \<Rightarrow> map_option (Pair True) (en_created env c e None u)) = Some (k, v')"
      by (auto simp: bind_eq_Some_conv)
    note vu = with_entity_refs_ran [OF u(1)]
    have "ran u v'"
    proof (cases window)
      case None
      with u(2) env_okD(8) [OF env] show ?thesis by auto
    next
      case (Some w)
      with u(2) obtain r where r: "update_window_id os dbg env (\<lambda>_. None) w (\<lambda>s. map_option (Pair ()) (en_created env c e (Some w) s)) u = Some (r, v')"
        by (auto simp: bind_eq_Some_conv split: if_splits)
      show ?thesis
        by (rule update_window_ran [OF env r]) (use v ran_flag [OF vu] env_okD(8) [OF env] in auto)
    qed
    with vu show "ran v v'" by (rule ran_trans)
  qed
  have "?R s t"
  proof (rule app_retain_kept [where R = ?R and f = ?f and put = "\<lambda>x s. s\<lparr>ap_new_entity_observers := x\<rparr>"])
    show "?R v u" if "?R v w" "?R w u" for v w u :: "('a, 'b, 'c, 'd, 'e, 'f) app"
      using that ran_flag ran_trans by blast
    show "?R v (v\<lparr>ap_new_entity_observers := x\<rparr>)" for v x
      by (auto intro: ran_change simp: same_queue_def)
  qed (use f t(1) ran_refl in \<open>blast+\<close>)
  then show ?thesis using flag with_entity_refs_ran [OF t(2)] ran_trans by blast
qed

lemma apply_effect_ran:
  assumes env: "env_ok env" and flag: "ap_flushing_effects s"
    and run: "apply_effect os dbg env e s = Some s'"
  shows "ran (case e of Notify i \<Rightarrow> s\<lparr>ap_pending_notifications := ap_pending_notifications s - {i}\<rparr>
     | Notify_global_observers T \<Rightarrow> s\<lparr>ap_pending_global_notifications := ap_pending_global_notifications s - {T}\<rparr>
     | _ \<Rightarrow> s) s'"
proof (cases e)
  case (Notify i)
  from run [unfolded Notify apply_effect.simps apply_notify_effect_def]
  have "ran (s\<lparr>ap_pending_notifications := ap_pending_notifications s - {i}\<rparr>) s'"
    by (rule retain_ran [rotated 2]) (auto intro: run_handler_ran [OF env] ran_change simp: same_queue_def)
  with Notify show ?thesis by simp
next
  case (Emit i T v)
  from run [unfolded Emit apply_effect.simps apply_emit_effect_def] have "ran s s'"
    by (rule retain_ran [rotated 2])
      (auto intro: run_listener_ran [OF env] ran_change ran_refl simp: same_queue_def split: prod.splits if_splits)
  with Emit show ?thesis by simp
next
  case Refresh_windows
  then show ?thesis using run by (auto simp: apply_refresh_effect_def same_queue_def intro: ran_change)
next
  case (Notify_global_observers T)
  from run [unfolded Notify_global_observers apply_effect.simps apply_notify_global_observers_effect_def]
  have "ran (s\<lparr>ap_pending_global_notifications := ap_pending_global_notifications s - {T}\<rparr>) s'"
    by (rule retain_ran [rotated 2]) (auto intro: env_okD [OF env] ran_change simp: same_queue_def)
  with Notify_global_observers show ?thesis by simp
next
  case (Defer f)
  then show ?thesis using run run_closure_ran [OF env] by simp
next
  case (Entity_created x T window)
  then show ?thesis using run apply_entity_created_ran [OF env flag] by simp
qed

section \<open>Notifications are queued once\<close>

text \<open>The effects that \<open>push_effect\<close> coalesces.\<close>

definition coalesced :: "('c, 'v) effect \<Rightarrow> bool" where
  "coalesced e \<longleftrightarrow> (case e of Notify _ \<Rightarrow> True | Notify_global_observers _ \<Rightarrow> True | _ \<Rightarrow> False)"

definition effects_ok :: "('c, 'v, 'e, 'g, 'p, 'u) app \<Rightarrow> bool" where
  "effects_ok s \<longleftrightarrow> ap_pending_notifications s = {i. Notify i \<in> set (ap_pending_effects s)} \<and>
     ap_pending_global_notifications s = {T. Notify_global_observers T \<in> set (ap_pending_effects s)} \<and>
     distinct (filter coalesced (ap_pending_effects s))"

lemma push_effect_ok: "effects_ok s \<Longrightarrow> effects_ok (push_effect e s)"
  by (cases e) (auto simp: effects_ok_def push_effect_def coalesced_def Let_def)

lemma app_steps_ok: "app_steps s t \<Longrightarrow> effects_ok s \<Longrightarrow> effects_ok t"
proof (induction rule: app_steps.induct)
  case (steps_change s t u)
  then show ?case by (simp add: effects_ok_def same_queue_def)
qed (simp_all add: push_effect_ok)

lemma pop_effect_ok:
  assumes "effects_ok s" and "ap_pending_effects s = e # es"
  shows "effects_ok (case e of
      Notify i \<Rightarrow> s\<lparr>ap_pending_effects := es, ap_pending_notifications := ap_pending_notifications s - {i}\<rparr>
    | Notify_global_observers T \<Rightarrow> s\<lparr>ap_pending_effects := es, ap_pending_global_notifications := ap_pending_global_notifications s - {T}\<rparr>
    | _ \<Rightarrow> s\<lparr>ap_pending_effects := es\<rparr>)"
  using assms by (cases e) (auto simp: effects_ok_def coalesced_def)

lemma release_callbacks_ran: "env_ok env \<Longrightarrow> release_callbacks env cs v s = Some (v', s') \<Longrightarrow> ran s s'"
  by (induction cs arbitrary: v s) (auto simp: ran_refl bind_eq_Some_conv intro: ran_trans dest: env_okD(6))

lemma release_each_ran:
  assumes env: "env_ok env"
  shows "release_each env dropped s = Some s' \<Longrightarrow> ran s s'"
proof (induction dropped arbitrary: s)
  case (Cons x dropped)
  obtain i v where x: "x = (i, v)" by (cases x)
  let ?s = "s\<lparr>ap_observers := snd (subscriber_remove i (ap_observers s)),
              ap_event_listeners := snd (subscriber_remove i (ap_event_listeners s))\<rparr>"
  obtain cs set where cs: "subscriber_remove i (ap_release_listeners ?s) = (cs, set)" by (cases "subscriber_remove i (ap_release_listeners ?s)")
  obtain v' s1 s2 where s1: "release_callbacks env cs v (?s\<lparr>ap_release_listeners := set\<rparr>) = Some (v', s1)"
    and s2: "en_drop env v' s1 = Some s2" "release_each env dropped s2 = Some s'"
    using Cons.prems cs by (auto simp: x Let_def bind_eq_Some_conv)
  have "ran s (?s\<lparr>ap_release_listeners := set\<rparr>)" by (rule ran_change) (simp_all add: same_queue_def)
  from ran_trans [OF ran_trans [OF this release_callbacks_ran [OF env s1]] ran_trans [OF env_okD(7) [OF env s2(1)] Cons.IH [OF s2(2)]]]
  show ?case .
qed (simp add: ran_refl)

lemma take_each_dropped: "take_each dbg is m = Some (taken, m') \<Longrightarrow> rc_dropped (em_refs m') = rc_dropped (em_refs m)"
  by (induction dbg "is" m arbitrary: taken rule: take_each.induct) (auto simp: Let_def split: option.splits if_splits)

lemma take_dropped_none: "take_dropped dbg m = Some (taken, m') \<Longrightarrow> rc_dropped (em_refs m') = []"
  by (auto simp: take_dropped_def dest: take_each_dropped)

lemma release_dropped_ran:
  assumes env: "env_ok env" and run: "release_dropped_entities dbg env s = Some s'"
  shows "ran s s' \<and> rc_dropped (em_refs (ap_entities s')) = []"
proof -
  have "env_ok env \<longrightarrow> ran s s' \<and> rc_dropped (em_refs (ap_entities s')) = []"
  proof (rule release_dropped_entities.raw_induct [where P = "\<lambda>dbg env s s'. env_ok env \<longrightarrow> ran s s' \<and> rc_dropped (em_refs (ap_entities s')) = []", OF _ run])
    fix f :: "bool \<Rightarrow> ('a, 'b, 'c, 'd, 'e, 'f) env \<Rightarrow> ('a, 'b, 'c, 'd, 'e, 'f) app \<Rightarrow> ('a, 'b, 'c, 'd, 'e, 'f) app option"
      and dbg env s s'
    assume IH: "\<And>dbg env s s'. f dbg env s = Some s' \<Longrightarrow> env_ok env \<longrightarrow> ran s s' \<and> rc_dropped (em_refs (ap_entities s')) = []"
      and eq: "Option.bind (take_dropped dbg (ap_entities s)) (\<lambda>dm.
       if fst dm = [] then Some (s\<lparr>ap_entities := snd dm\<rparr>)
       else Option.bind (release_each env (fst dm) (s\<lparr>ap_entities := snd dm\<rparr>)) (f dbg env)) = Some s'"
    show "env_ok env \<longrightarrow> ran s s' \<and> rc_dropped (em_refs (ap_entities s')) = []"
    proof
      assume env: "env_ok env"
      obtain dropped m where t: "take_dropped dbg (ap_entities s) = Some (dropped, m)" using eq by (cases "take_dropped dbg (ap_entities s)") auto
      have m: "rc_dropped (em_refs m) = []" using take_dropped_none [OF t] .
      show "ran s s' \<and> rc_dropped (em_refs (ap_entities s')) = []"
      proof (cases "dropped = []")
        case True
        with eq t m show ?thesis by (auto simp: with_refs_ran)
      next
        case False
        with eq t obtain u where u: "release_each env dropped (s\<lparr>ap_entities := m\<rparr>) = Some u" "f dbg env u = Some s'"
          by (auto simp: bind_eq_Some_conv)
        from ran_trans [OF with_refs_ran release_each_ran [OF env u(1)]] have "ran s u" .
        with IH [OF u(2)] env show ?thesis using ran_trans by blast
      qed
    qed
  qed
  with env show ?thesis by blast
qed

section \<open>A flush leaves nothing behind\<close>

lemma release_focus_zero:
  "release_dropped_focus_handles keys fm ws = Some (fm', ws') \<Longrightarrow>
   (\<forall>i. fm' i = None \<or> fm' i = fm i) \<and> \<not> (\<exists>i \<in> set keys. focus_count fm' i = Some 0)"
proof (induction keys arbitrary: fm ws)
  case (Cons i keys)
  show ?case
  proof (cases "focus_count fm i = Some 0")
    case True
    then obtain r where r: "fm i = Some r" "fr_ref_count r = 0" by (auto simp: focus_count_def)
    with Cons.prems obtain ws1 where w: "blur_all i ws = Some ws1"
      "release_dropped_focus_handles keys (fm(i := None)) ws1 = Some (fm', ws')" by (auto simp: bind_eq_Some_conv)
    from Cons.IH [OF w(2)] have "fm' i = None" "\<forall>j. fm' j = None \<or> fm' j = (fm(i := None)) j"
      "\<not> (\<exists>j \<in> set keys. focus_count fm' j = Some 0)" by (auto split: if_splits)
    then show ?thesis by (auto simp: focus_count_def split: if_splits)
  next
    case False
    then have "release_dropped_focus_handles keys fm ws = Some (fm', ws')"
      using Cons.prems by (auto simp: focus_count_def split: option.splits)
    from Cons.IH [OF this] have IH: "\<forall>i. fm' i = None \<or> fm' i = fm i" "\<not> (\<exists>i \<in> set keys. focus_count fm' i = Some 0)"
      by blast+
    have "focus_count fm' i \<noteq> Some 0" using IH(1) [rule_format, of i] False by (auto simp: focus_count_def)
    with IH show ?thesis by simp
  qed
qed simp

lemma release_focus_ran:
  assumes "app_release_focus_handles s = Some s'"
  shows "ran s s'" "\<not> (\<exists>i < ap_focus_slots s'. focus_count (ap_focus_handles s') i = Some 0)"
    "ap_entities s' = ap_entities s"
  using assms release_focus_zero
  by (fastforce simp: app_release_focus_handles_def same_queue_def intro: ran_change)+

text \<open>Nothing queued, nothing to be notified, no dropped entity and no released focus reference.\<close>

definition settled :: "('c, 'v, 'e, 'g, 'p, 'u) app \<Rightarrow> bool" where
  "settled s \<longleftrightarrow> ap_pending_effects s = [] \<and> ap_pending_notifications s = {} \<and> ap_pending_global_notifications s = {} \<and>
     rc_dropped (em_refs (ap_entities s)) = [] \<and> \<not> (\<exists>i < ap_focus_slots s. focus_count (ap_focus_handles s) i = Some 0)"

lemma flush_settled:
  assumes run: "flush_effects os dbg env s = Some s'" and env: "env_ok env" and flag: "ap_flushing_effects s"
    and ok: "effects_ok s"
  shows "settled s' \<and> ap_flushing_effects s' \<and> ap_pending_updates s' = ap_pending_updates s"
proof -
  let ?P = "\<lambda>os dbg env s s'. env_ok env \<and> ap_flushing_effects s \<and> effects_ok s \<longrightarrow>
    settled s' \<and> ap_flushing_effects s' \<and> ap_pending_updates s' = ap_pending_updates s"
  have "?P os dbg env s s'"
  proof (rule flush_effects.raw_induct [where P = ?P, OF _ run])
    fix f :: "target_os \<Rightarrow> bool \<Rightarrow> ('a, 'b, 'c, 'd, 'e, 'f) env \<Rightarrow> ('a, 'b, 'c, 'd, 'e, 'f) app \<Rightarrow> ('a, 'b, 'c, 'd, 'e, 'f) app option"
      and os dbg env s s'
    assume IH: "\<And>os dbg env s s'. f os dbg env s = Some s' \<Longrightarrow> ?P os dbg env s s'"
      and eq: "Option.bind (Option.bind (release_dropped_entities dbg env s) app_release_focus_handles) (\<lambda>s.
       case ap_pending_effects s of
         [] \<Rightarrow> Some s
       | e # es \<Rightarrow> Option.bind (apply_effect os dbg env e (s\<lparr>ap_pending_effects := es\<rparr>)) (f os dbg env)) = Some s'"
    show "?P os dbg env s s'"
    proof
      assume A: "env_ok env \<and> ap_flushing_effects s \<and> effects_ok s"
      then have env: "env_ok env" by blast
      obtain t u where t: "release_dropped_entities dbg env s = Some t" and u: "app_release_focus_handles t = Some u"
        and rest: "(case ap_pending_effects u of [] \<Rightarrow> Some u
          | e # es \<Rightarrow> Option.bind (apply_effect os dbg env e (u\<lparr>ap_pending_effects := es\<rparr>)) (f os dbg env)) = Some s'"
        using eq by (auto simp: bind_eq_Some_conv)
      note su = ran_trans [OF release_dropped_ran [OF env t, THEN conjunct1] release_focus_ran(1) [OF u]]
      have u': "effects_ok u" "ap_flushing_effects u" "ap_pending_updates u = ap_pending_updates s"
        using su A app_steps_ok ran_flag [OF su] by (auto simp: ran_def)
      show "settled s' \<and> ap_flushing_effects s' \<and> ap_pending_updates s' = ap_pending_updates s"
      proof (cases "ap_pending_effects u")
        case Nil
        with rest u' release_focus_ran(2,3) [OF u] release_dropped_ran [OF env t] show ?thesis
          by (auto simp: settled_def effects_ok_def)
      next
        case (Cons e es)
        with rest obtain v where v: "apply_effect os dbg env e (u\<lparr>ap_pending_effects := es\<rparr>) = Some v" "f os dbg env v = Some s'"
          by (auto simp: bind_eq_Some_conv)
        note uv = apply_effect_ran [OF env _ v(1)]
        have "effects_ok v" "ap_flushing_effects v" "ap_pending_updates v = ap_pending_updates u"
          using uv pop_effect_ok [OF u'(1) Cons] app_steps_ok ran_flag u'(2)
          by (fastforce simp: ran_def split: effect.splits)+
        with IH [OF v(2)] env u'(3) show ?thesis by auto
      qed
    qed
  qed
  with env flag ok show ?thesis by blast
qed

text \<open>
  C5. An update that is nested, or runs in a flush, only queues effects.  One that is not, when it
  returns, has flushed the queue: no effect is left, no notification is pending, every dropped
  entity and every focus reference without handles is released; and no update is left pending.
  The closures may do whatever the application lets them.
\<close>

theorem update_settles:
  assumes "env_ok env" and "effects_ok s" and run: "app_update (flush_effects os dbg env) update s = Some (r, s')"
    and update: "\<And>t r t'. update t = Some (r, t') \<Longrightarrow> ran t t'"
  shows "if ap_flushing_effects s \<or> ap_pending_updates s \<noteq> 0 then ran s s'
    else settled s' \<and> \<not> ap_flushing_effects s' \<and> ap_pending_updates s' = 0"
proof (cases "ap_flushing_effects s \<or> ap_pending_updates s \<noteq> 0")
  case True
  with nested_update_steps [OF run True] update show ?thesis by (auto simp: ran_def)
next
  case False
  obtain t where t: "update (start_update s) = Some (r, t)" "finish_update (flush_effects os dbg env) t = Some s'"
    using run by (auto simp: app_update_def bind_eq_Some_conv)
  have "ran (start_update s) t" by (rule update [OF t(1)])
  then have t': "ap_pending_updates t = 1" "\<not> ap_flushing_effects t" "app_steps (start_update s) t"
    using False ran_flag [of "start_update s" t] by (simp_all add: ran_def start_update_def)
  have "effects_ok (start_update s)" using assms(2) by (simp add: effects_ok_def start_update_def)
  from app_steps_ok [OF t'(3) this] have ok: "effects_ok (t\<lparr>ap_flushing_effects := True\<rparr>)" by (simp add: effects_ok_def)
  obtain u where u: "flush_effects os dbg env (t\<lparr>ap_flushing_effects := True\<rparr>) = Some u"
    "s' = u\<lparr>ap_flushing_effects := False, ap_pending_updates := ap_pending_updates u - 1\<rparr>"
    using t(2) t' by (auto simp: finish_update_def bind_eq_Some_conv split: if_splits)
  from flush_settled [OF u(1) assms(1) _ ok] t'(1) False show ?thesis by (simp add: u(2) settled_def)
qed

text \<open>Closures that log their number in the world.\<close>

definition logging :: "(nat, nat, nat, nat, unit, nat list) env" where
  "logging = \<lparr>en_call = (\<lambda>c s. Some (s\<lparr>ap_world := ap_world s @ [c]\<rparr>)),
     en_notify = (\<lambda>c s. Some (True, s\<lparr>ap_world := ap_world s @ [c]\<rparr>)),
     en_notify_entity = (\<lambda>c e s. map_option (\<lambda>s. (True, s\<lparr>ap_world := ap_world s @ [c]\<rparr>)) (with_entity_refs (entity_drop e) s)),
     en_event = (\<lambda>c v s. Some (True, s\<lparr>ap_world := ap_world s @ [c]\<rparr>)),
     en_event_entity = (\<lambda>c e v s. map_option (\<lambda>s. (True, s\<lparr>ap_world := ap_world s @ [c]\<rparr>)) (with_entity_refs (entity_drop e) s)),
     en_release = (\<lambda>c v s. Some (v, s\<lparr>ap_world := ap_world s @ [c]\<rparr>)),
     en_drop = (\<lambda>v s. Some s),
     en_created = (\<lambda>c e w s. map_option (\<lambda>s. s\<lparr>ap_world := ap_world s @ [c]\<rparr>) (with_entity_refs (entity_drop e) s))\<rparr>"

lemma world_ran: "ran s (s\<lparr>ap_world := u\<rparr>)"
  by (rule ran_change) (simp_all add: same_queue_def)

lemma logging_ok: "env_ok logging"
  by (auto simp: env_ok_def logging_def world_ran ran_refl dest: with_entity_refs_ran intro: ran_trans)

text \<open>An application that was started and observes entity 3.\<close>

definition observing :: "(nat, nat, nat, nat, unit, nat list) app" where
  "observing = snd (new_observer 3 (Handler 7) (app_start 0 Quit_default []))"

lemma app_start_ok: "effects_ok (app_start identity mode world)"
  by (simp add: effects_ok_def app_start_def)

lemma observing_ok: "effects_ok observing"
  unfolding observing_def by (rule app_steps_ok [OF observer_steps(1) app_start_ok])

lemma release_focus_none:
  "\<not> (\<exists>i \<in> set keys. focus_count fm i = Some 0) \<Longrightarrow> release_dropped_focus_handles keys fm ws = Some (fm, ws)"
  by (induction keys) (auto simp: focus_count_def split: option.split)

lemma put_views_same: "put_views ws (window_views ws) = ws"
  by (induction ws) (auto simp: window_views_def)

lemma flush_calm:
  assumes "rc_dropped (em_refs (ap_entities s)) = []" and "\<not> (\<exists>i < ap_focus_slots s. focus_count (ap_focus_handles s) i = Some 0)"
  shows "flush_effects os dbg env s = (case ap_pending_effects s of
         [] \<Rightarrow> Some s
       | e # es \<Rightarrow> Option.bind (apply_effect os dbg env e (s\<lparr>ap_pending_effects := es\<rparr>)) (flush_effects os dbg env))"
proof -
  have "take_dropped dbg (ap_entities s) = Some ([], ap_entities s)" using assms(1) by (simp add: take_dropped_def)
  then have "release_dropped_entities dbg env s = Some s" by (subst release_dropped_entities.simps) simp
  moreover have "app_release_focus_handles s = Some s"
    using assms(2) by (simp add: app_release_focus_handles_def release_focus_none put_views_same)
  ultimately show ?thesis by (subst flush_effects.simps) simp
qed

lemmas run_simps = flush_calm app_update_def start_update_def finish_update_def apply_notify_effect_def app_retain_def
  subscriber_insert_def subscriber_set_new_def activate_def bt_extend_def new_observer_def app_defer_def push_effect_def
  observing_def app_start_def em_new_def logging_def app_notify_def

lemma notify_logged:
  "app_update (flush_effects Linux True logging) (\<lambda>s. Some ((), app_notify 3 s)) observing =
   Some ((), observing\<lparr>ap_pending_effects := [], ap_observers := activate 0 (ap_observers observing), ap_world := [7]\<rparr>)"
  by (simp add: run_simps Let_def)

lemma update_settles_witness:
  "settled (observing\<lparr>ap_pending_effects := [], ap_observers := activate 0 (ap_observers observing), ap_world := [7]\<rparr>)"
proof -
  have "ran s (app_notify 3 s)" for s :: "(nat, nat, nat, nat, unit, nat list) app"
    by (simp add: ran_def notify_steps notify_updates)
  with update_settles [OF logging_ok observing_ok notify_logged] show ?thesis
    by (auto simp: observing_def new_observer_def app_defer_def app_start_def split: prod.splits)
qed

section \<open>Who hears of a notification\<close>

lemma app_steps_append: "app_steps s t \<Longrightarrow> \<exists>new. ap_pending_effects t = ap_pending_effects s @ new"
proof (induction rule: app_steps.induct)
  case (steps_push s t e)
  then obtain new where "ap_pending_effects t = ap_pending_effects s @ new" by blast
  then show ?case by (auto simp: push_effect_def Let_def split: effect.split)
qed (auto simp: same_queue_def)

lemma new_observer_queue:
  "new_observer key value s = (i, t) \<Longrightarrow> ap_pending_effects t = ap_pending_effects s @ [Defer (Activate_observer i)] \<and>
     i = ss_next_id (ap_observers s) \<and> i \<notin> ss_active (ap_observers t) \<and>
     ap_pending_notifications t = ap_pending_notifications s \<and>
     ap_window_invalidators_by_entity t = ap_window_invalidators_by_entity s"
  by (auto simp: new_observer_def subscriber_insert_def app_defer_def push_effect_def Let_def)

text \<open>
  An observer that is registered while no notification of its entity is pending is activated
  before any notification of the entity that is queued later in the cycle is applied.
\<close>

theorem new_observer_hears:
  assumes "Notify key \<notin> set (ap_pending_effects s)" and "new_observer key value s = (i, t)"
    and "app_steps t u" and "Notify key \<in> set (ap_pending_effects u)"
  shows "\<exists>before later. ap_pending_effects u = before @ Notify key # later \<and>
    Defer (Activate_observer i) \<in> set before \<and> Notify key \<notin> set before"
proof -
  obtain new where new: "ap_pending_effects u = (ap_pending_effects s @ [Defer (Activate_observer i)]) @ new"
    using app_steps_append [OF assms(3)] new_observer_queue [OF assms(2)] by auto
  then have "Notify key \<in> set new" using assms(1,4) by auto
  then obtain a b where ab: "new = a @ Notify key # b" "Notify key \<notin> set a" by (metis split_list_first)
  with new assms(1) show ?thesis
    by (intro exI [of _ "ap_pending_effects s @ Defer (Activate_observer i) # a"] exI [of _ b]) auto
qed

lemma new_observer_hears_witness:
  "\<exists>before later. ap_pending_effects (app_notify 3 observing) = before @ Notify 3 # later \<and>
    Defer (Activate_observer 0) \<in> set before \<and> Notify 3 \<notin> set before"
proof (rule new_observer_hears [OF _ _ notify_steps])
  show "Notify 3 \<notin> set (ap_pending_effects (app_start 0 Quit_default [] :: (nat, nat, nat, nat, unit, nat list) app))"
    by (simp add: app_start_def)
  show "new_observer 3 (Handler 7) (app_start 0 Quit_default [] :: (nat, nat, nat, nat, unit, nat list) app) = (0, observing)"
    by (simp add: observing_def new_observer_def subscriber_insert_def app_start_def subscriber_set_new_def Let_def)
  show "Notify 3 \<in> set (ap_pending_effects (app_notify 3 observing))"
    by (simp add: observing_def new_observer_def subscriber_insert_def app_start_def subscriber_set_new_def Let_def
        app_defer_def push_effect_def app_notify_def)
qed

text \<open>
  An observer that is registered while a notification of its entity is pending misses a
  notification made after it: the second is dropped as queued already, and the first is applied
  while the observer is still inactive.
\<close>

theorem new_observer_misses:
  assumes "effects_ok s" and "Notify key \<in> set (ap_pending_effects s)" and "new_observer key value s = (i, t)"
    and "ap_window_invalidators_by_entity s key = []" and "Defer (Activate_observer i) \<notin> set (ap_pending_effects s)"
  shows "app_notify key t = t \<and> i \<notin> ss_active (ap_observers t) \<and>
    (\<exists>before later. ap_pending_effects t = before @ Notify key # later \<and>
      Defer (Activate_observer i) \<notin> set before \<and> Notify key \<notin> set later)"
proof -
  note q = new_observer_queue [OF assms(3)]
  have "key \<in> ap_pending_notifications s" using assms(1,2) by (simp add: effects_ok_def)
  with q assms(4) have "app_notify key t = t" by (simp add: app_notify_def Let_def)
  moreover obtain a b where ab: "ap_pending_effects s = a @ Notify key # b" using assms(2) by (metis split_list)
  moreover from this assms(1) have "Notify key \<notin> set b" by (auto simp: effects_ok_def coalesced_def)
  ultimately show ?thesis using q assms(5)
    by (intro conjI exI [of _ a] exI [of _ "b @ [Defer (Activate_observer i)]"]) auto
qed

definition notified_first :: "(nat, nat, nat, nat, unit, nat list) app" where
  "notified_first = app_notify 3 (app_start 0 Quit_default [])"

lemma notified_first_queue: "ap_pending_effects notified_first = [Notify 3]"
  "ap_window_invalidators_by_entity notified_first 3 = []" "effects_ok notified_first"
proof -
  show "ap_pending_effects notified_first = [Notify 3]" "ap_window_invalidators_by_entity notified_first 3 = []"
    by (simp_all add: notified_first_def app_start_def app_notify_def)
  show "effects_ok notified_first" unfolding notified_first_def by (rule app_steps_ok [OF notify_steps app_start_ok])
qed

text \<open>So the closure 7 is not run, although the entity was notified after it was registered.\<close>

lemma new_observer_misses_witness:
  "app_notify 3 (snd (new_observer 3 (Handler 7) notified_first)) = snd (new_observer 3 (Handler 7) notified_first) \<and>
   map_option (ap_world \<circ> snd) (app_update (flush_effects Linux True logging)
     (\<lambda>s. Some ((), app_notify 3 (snd (new_observer 3 (Handler 7) (app_notify 3 s))))) (app_start 0 Quit_default [])) = Some []"
proof
  obtain i t where t: "new_observer 3 (Handler 7) notified_first = (i, t)" by (cases "new_observer 3 (Handler 7) notified_first")
  then have "app_notify 3 t = t"
    using new_observer_misses [of notified_first 3 "Handler 7" i t] notified_first_queue by simp
  then show "app_notify 3 (snd (new_observer 3 (Handler 7) notified_first)) = snd (new_observer 3 (Handler 7) notified_first)"
    by (simp add: t)
  show "map_option (ap_world \<circ> snd) (app_update (flush_effects Linux True logging)
     (\<lambda>s. Some ((), app_notify 3 (snd (new_observer 3 (Handler 7) (app_notify 3 s))))) (app_start 0 Quit_default [])) = Some []"
    by (simp add: run_simps Let_def)
qed

section \<open>A flush returns when closures queue nothing\<close>

text \<open>What decides about the rest of the flush.\<close>

definition calm :: "('c, 'v, 'e, 'g, 'p, 'u) app \<Rightarrow> ('c, 'v, 'e, 'g, 'p, 'u) app \<Rightarrow> bool" where
  "calm s s' \<longleftrightarrow> ap_pending_effects s' = ap_pending_effects s \<and> ap_entities s' = ap_entities s \<and>
     ap_focus_handles s' = ap_focus_handles s \<and> ap_focus_slots s' = ap_focus_slots s"

text \<open>Closures that return, change their world only and drop the handle they are given.\<close>

definition quiet :: "('c, 'v, 'e, 'g, 'p, 'u) env \<Rightarrow> bool" where
  "quiet env \<longleftrightarrow>
     (\<forall>c s. \<exists>u. en_call env c s = Some (s\<lparr>ap_world := u\<rparr>)) \<and>
     (\<forall>c s. \<exists>k u. en_notify env c s = Some (k, s\<lparr>ap_world := u\<rparr>)) \<and>
     (\<forall>c v s. \<exists>k u. en_event env c v s = Some (k, s\<lparr>ap_world := u\<rparr>)) \<and>
     (\<forall>c e s. \<exists>k g. en_notify_entity env c e s = map_option (\<lambda>s. (k, s\<lparr>ap_world := g s\<rparr>)) (with_entity_refs (entity_drop e) s)) \<and>
     (\<forall>c e v s. \<exists>k g. en_event_entity env c e v s = map_option (\<lambda>s. (k, s\<lparr>ap_world := g s\<rparr>)) (with_entity_refs (entity_drop e) s))"

lemma quietD:
  assumes "quiet env"
  shows "\<exists>u. en_call env c s = Some (s\<lparr>ap_world := u\<rparr>)" "\<exists>k u. en_notify env c s = Some (k, s\<lparr>ap_world := u\<rparr>)"
    "\<exists>k u. en_event env c v s = Some (k, s\<lparr>ap_world := u\<rparr>)"
    "\<exists>k g. en_notify_entity env c e s = map_option (\<lambda>s. (k, s\<lparr>ap_world := g s\<rparr>)) (with_entity_refs (entity_drop e) s)"
    "\<exists>k g. en_event_entity env c e v s = map_option (\<lambda>s. (k, s\<lparr>ap_world := g s\<rparr>)) (with_entity_refs (entity_drop e) s)"
  using assms by (auto simp: quiet_def)

lemma upgrade_then_drop:
  assumes "weak_upgrade h (Some (em_refs (ap_entities s))) = Some (e, refs)"
  shows "with_entity_refs (entity_drop e) (s\<lparr>ap_entities := (ap_entities s)\<lparr>em_refs := refs\<rparr>\<rparr>) = Some s"
proof -
  obtain n where n: "rc_counts (em_refs (ap_entities s)) (we_id h) = Some n" "0 < n" "ae_id e = we_id h"
    "refs = (em_refs (ap_entities s))\<lparr>rc_counts := (rc_counts (em_refs (ap_entities s)))(we_id h \<mapsto> Suc n)\<rparr>"
    using assms by (auto simp: weak_upgrade_def upgrade_ref_count_def split: option.splits nat.splits prod.splits if_splits)
  then have "(rc_counts (em_refs (ap_entities s)))(we_id h \<mapsto> n) = rc_counts (em_refs (ap_entities s))" by auto
  with n show ?thesis by (simp add: with_entity_refs_def entity_drop_def decr_ref_def)
qed

lemma quiet_handler:
  assumes "quiet env"
  shows "\<exists>k s'. run_handler env h s = Some (k, s') \<and> calm s s'" "\<exists>k s'. run_listener env v h s = Some (k, s') \<and> calm s s'"
proof -
  show "\<exists>k s'. run_handler env h s = Some (k, s') \<and> calm s s'"
  proof (cases h)
    case (Handler c)
    then show ?thesis using quietD(2) [OF assms, of c s] by (auto simp: calm_def)
  next
    case (Upgrading w c)
    show ?thesis
    proof (cases "weak_upgrade w (Some (em_refs (ap_entities s)))")
      case (Some er)
      obtain e refs where er: "er = (e, refs)" by (cases er)
      from quietD(4) [OF assms, of c e "s\<lparr>ap_entities := (ap_entities s)\<lparr>em_refs := refs\<rparr>\<rparr>"]
        upgrade_then_drop [OF Some [unfolded er]] Upgrading Some er
      show ?thesis by (auto simp: calm_def)
    qed (use Upgrading in \<open>auto simp: calm_def\<close>)
  qed
  show "\<exists>k s'. run_listener env v h s = Some (k, s') \<and> calm s s'"
  proof (cases h)
    case (Handler c)
    then show ?thesis using quietD(3) [OF assms, of c v s] by (auto simp: calm_def)
  next
    case (Upgrading w c)
    show ?thesis
    proof (cases "weak_upgrade w (Some (em_refs (ap_entities s)))")
      case (Some er)
      obtain e refs where er: "er = (e, refs)" by (cases er)
      from quietD(5) [OF assms, of c e v "s\<lparr>ap_entities := (ap_entities s)\<lparr>em_refs := refs\<rparr>\<rparr>"]
        upgrade_then_drop [OF Some [unfolded er]] Upgrading Some er
      show ?thesis by (auto simp: calm_def)
    qed (use Upgrading in \<open>auto simp: calm_def\<close>)
  qed
qed

lemma calm_trans: "calm s t \<Longrightarrow> calm t u \<Longrightarrow> calm s u"
  by (simp add: calm_def)

lemma retain_each_calm:
  assumes "\<And>c s. \<exists>k s'. f c s = Some (k, s') \<and> calm s s'"
  shows "\<exists>m' s'. retain_each get f m s = Some (m', s') \<and> calm s s'"
proof (induction m arbitrary: s)
  case (Cons x m)
  obtain i c where x: "x = (i, c)" by (cases x)
  obtain k s1 where s1: "f c s = Some (k, s1)" "calm s s1" using assms by blast
  show ?case
  proof (cases "i \<in> ss_active (get s)")
    case True
    obtain m1 s2 where "retain_each get f m s1 = Some (m1, s2)" "calm s1 s2" using Cons.IH by blast
    with True s1 calm_trans [OF s1(2)] show ?thesis by (simp add: x)
  next
    case False
    with Cons.IH [of s] show ?thesis by (auto simp: x)
  qed
qed (simp add: calm_def)

lemma app_retain_calm:
  assumes f: "\<And>c s. \<exists>k s'. f c s = Some (k, s') \<and> calm s s'" and put: "\<And>x s. calm s (put x s)"
  shows "\<exists>s'. app_retain get put False emitter f s = Some s' \<and> calm s s'"
proof -
  have "\<exists>s'. Option.bind (retain_each get f subs (put x s)) (\<lambda>(m, s). Some (put (g m (get s)) s)) = Some s' \<and> calm s s'" for subs x g
  proof -
    obtain m s1 where "retain_each get f subs (put x s) = Some (m, s1)" "calm (put x s) s1"
      using retain_each_calm [of f get subs "put x s", OF f] by blast
    then show ?thesis using calm_trans [OF put] calm_trans put by (metis (no_types, lifting) bind.bind_lunit prod.case)
  qed
  then show ?thesis by (auto simp: app_retain_def Let_def calm_def split: option.split)
qed

lemma apply_effect_calm:
  assumes "quiet env" and "\<not> (\<exists>x T w. e = Entity_created x T w)"
  shows "\<exists>s'. apply_effect os False env e s = Some s' \<and> calm s s'"
proof (cases e)
  case (Notify i)
  have "\<exists>s'. apply_notify_effect False env i s = Some s' \<and> calm (s\<lparr>ap_pending_notifications := ap_pending_notifications s - {i}\<rparr>) s'"
    unfolding apply_notify_effect_def by (rule app_retain_calm) (use quiet_handler [OF assms(1)] in \<open>auto simp: calm_def\<close>)
  with Notify show ?thesis by (auto simp: calm_def)
next
  case (Emit i T v)
  have "\<exists>s'. apply_emit_effect False env i T v s = Some s' \<and> calm s s'"
    unfolding apply_emit_effect_def
  proof (rule app_retain_calm)
    show "\<exists>k s'. (case h of (T', handler) \<Rightarrow> \<lambda>s. if T' = T then run_listener env v handler s else Some (True, s)) t = Some (k, s') \<and> calm t s'"
      for h t using quiet_handler(2) [OF assms(1)] by (cases h) (auto simp: calm_def)
  qed (simp add: calm_def)
  with Emit show ?thesis by simp
next
  case (Notify_global_observers T)
  have "\<exists>s'. apply_notify_global_observers_effect False env T s = Some s' \<and>
    calm (s\<lparr>ap_pending_global_notifications := ap_pending_global_notifications s - {T}\<rparr>) s'"
    unfolding apply_notify_global_observers_effect_def
  proof (rule app_retain_calm)
    show "\<exists>k s'. en_notify env c t = Some (k, s') \<and> calm t s'" for c t
      using quietD(2) [OF assms(1), of c t] by (auto simp: calm_def)
  qed (simp add: calm_def)
  with Notify_global_observers show ?thesis by (auto simp: calm_def)
next
  case (Defer f)
  show ?thesis
  proof (cases f)
    case (Call c)
    with Defer quietD(1) [OF assms(1), of c s] show ?thesis by (auto simp: calm_def)
  qed (use Defer in \<open>simp_all add: calm_def\<close>)
qed (use assms(2) in \<open>simp_all add: calm_def apply_refresh_effect_def\<close>)

text \<open>
  When the closures queue no effects and drop nothing but the handle they are given, a flush
  with nothing to be released returns, in a release build: it applies the queued effects, one in
  each round, and ends with none.
\<close>

theorem flush_returns:
  assumes "quiet env" and "rc_dropped (em_refs (ap_entities s)) = []"
    and "\<not> (\<exists>i < ap_focus_slots s. focus_count (ap_focus_handles s) i = Some 0)"
    and "\<not> (\<exists>e T w. Entity_created e T w \<in> set (ap_pending_effects s))"
  shows "\<exists>s'. flush_effects os False env s = Some s' \<and> ap_pending_effects s' = []"
  using assms(2-4)
proof (induction "ap_pending_effects s" arbitrary: s)
  case Nil
  then show ?case by (simp add: flush_calm)
next
  case (Cons e es)
  let ?s = "s\<lparr>ap_pending_effects := es\<rparr>"
  have q: "ap_pending_effects s = e # es" using Cons.hyps(2) by simp
  have "\<not> (\<exists>x T w. e = Entity_created x T w)" using Cons.prems(3) by (auto simp: q)
  from apply_effect_calm [OF assms(1) this, of os ?s] obtain t where t: "apply_effect os False env e ?s = Some t" "calm ?s t" by blast
  have "flush_effects os False env s = flush_effects os False env t"
    by (simp add: flush_calm [OF Cons.prems(1,2)] q t(1))
  moreover have "\<exists>s'. flush_effects os False env t = Some s' \<and> ap_pending_effects s' = []"
  proof (rule Cons.hyps(1))
    show "es = ap_pending_effects t" using t(2) by (simp add: calm_def)
    show "rc_dropped (em_refs (ap_entities t)) = []" using t(2) Cons.prems(1) by (simp add: calm_def)
    show "\<not> (\<exists>i < ap_focus_slots t. focus_count (ap_focus_handles t) i = Some 0)" using t(2) Cons.prems(2) by (simp add: calm_def)
    show "\<not> (\<exists>e T w. Entity_created e T w \<in> set (ap_pending_effects t))" using t(2) Cons.prems(3) by (auto simp: calm_def q)
  qed
  ultimately show ?case by simp
qed

lemma logging_quiet: "quiet logging"
  unfolding quiet_def logging_def by auto

lemma flush_returns_witness:
  "\<exists>s'. flush_effects Linux False logging (app_notify 3 observing) = Some s' \<and> ap_pending_effects s' = []"
  by (rule flush_returns [OF logging_quiet])
    (auto simp: observing_def new_observer_def subscriber_insert_def app_start_def em_new_def app_defer_def push_effect_def
      app_notify_def Let_def)

section \<open>Entities being updated\<close>


end
