(* ===== verification/Raster_Compositor.thy ===== *)
theory Raster_Compositor
  imports Prelude
begin

text \<open>
  The camera transform that input handling publishes and the display link reads, from
  \<open>src/src/raster_cache.rs\<close>: a sequence lock.  All atomics are sequentially consistent, so the
  threads interleave at single loads and stores, which are the steps of a thread here; the
  deque of times is behind a mutex and one step.  Numbers are of a type \<open>'f\<close> with a predicate
  for the finite ones, kept as they are by their bits, without a second zero, so that equal numbers
  are the same; a generation stays below \<open>2 ^ 64\<close>.
\<close>

section \<open>State\<close>

record 'f compositor_transform =
  ct_scale :: 'f
  ct_x :: 'f
  ct_y :: 'f

record ('f, 't) compositor_state =
  cs_generation :: nat
  cs_scale :: 'f
  cs_x :: 'f
  cs_y :: 'f
  cs_updates :: "(nat \<times> 't) list"

definition compositor_transform_new :: "('f \<Rightarrow> bool) \<Rightarrow> ('f \<Rightarrow> bool) \<Rightarrow> 'f compositor_transform \<Rightarrow> 'f compositor_transform option" where
  "compositor_transform_new is_finite is_positive t =
     (if is_finite (ct_scale t) \<and> is_positive (ct_scale t) \<and> is_finite (ct_x t) \<and> is_finite (ct_y t) then Some t else None)"

definition compositor_handle_new :: "('f \<Rightarrow> bool) \<Rightarrow> ('f \<Rightarrow> bool) \<Rightarrow> 't \<Rightarrow> 'f compositor_transform \<Rightarrow>
    ('f, 't) compositor_state option" where
  "compositor_handle_new is_finite is_positive now initial =
     map_option (\<lambda>t. \<lparr>cs_generation = 0, cs_scale = ct_scale t, cs_x = ct_x t, cs_y = ct_y t, cs_updates = [(0, now)]\<rparr>)
       (compositor_transform_new is_finite is_positive initial)"

definition updated_at :: "nat \<Rightarrow> ('f, 't) compositor_state \<Rightarrow> 't option" where
  "updated_at revision s = map_option snd (List.find (\<lambda>(candidate, _). candidate = revision) (rev (cs_updates s)))"

section \<open>Threads\<close>

text \<open>
  Where a thread is.  A snapshot belongs to a call of \<open>snapshot\<close> or, with the transform and the
  time, to one of \<open>update_at\<close>; the arguments are the values the thread has loaded.
\<close>

datatype ('f, 't) compositor_pc =
    Snap_before "('f compositor_transform \<times> 't) option"
  | Snap_scale "('f compositor_transform \<times> 't) option" nat
  | Snap_x "('f compositor_transform \<times> 't) option" nat 'f
  | Snap_y "('f compositor_transform \<times> 't) option" nat 'f 'f
  | Snap_after "('f compositor_transform \<times> 't) option" nat 'f 'f 'f
  | Snap_returned nat "'f compositor_transform"
  | Write_load "'f compositor_transform" 't
  | Write_exchange "'f compositor_transform" 't nat
  | Write_scale "'f compositor_transform" 't nat
  | Write_x "'f compositor_transform" 't nat
  | Write_y "'f compositor_transform" 't nat
  | Write_updates "'f compositor_transform" 't nat
  | Write_publish "'f compositor_transform" 't nat
  | Update_returned bool

text \<open>At most 128 times are kept: old ones are popped from the front.\<close>

definition pop_old :: "'u list \<Rightarrow> 'u list" where
  "pop_old us = drop (length us - 128) us"

definition push_update :: "nat \<times> 't \<Rightarrow> (nat \<times> 't) list \<Rightarrow> (nat \<times> 't) list" where
  "push_update u us = pop_old (us @ [u])"

fun thread_step :: "('f, 't) compositor_pc \<Rightarrow> ('f, 't) compositor_state \<Rightarrow> ('f, 't) compositor_pc \<times> ('f, 't) compositor_state" where
  "thread_step (Snap_before k) s =
     (if odd (cs_generation s) then (Snap_before k, s) else (Snap_scale k (cs_generation s), s))"
| "thread_step (Snap_scale k before) s = (Snap_x k before (cs_scale s), s)"
| "thread_step (Snap_x k before scale) s = (Snap_y k before scale (cs_x s), s)"
| "thread_step (Snap_y k before scale x) s = (Snap_after k before scale x (cs_y s), s)"
| "thread_step (Snap_after k before scale x y) s =
     (if cs_generation s = before
      then (case k of
          None \<Rightarrow> Snap_returned (cs_generation s div 2) \<lparr>ct_scale = scale, ct_x = x, ct_y = y\<rparr>
        | Some (t, at) \<Rightarrow> if \<lparr>ct_scale = scale, ct_x = x, ct_y = y\<rparr> = t then Update_returned False else Write_load t at)
      else Snap_before k, s)"
| "thread_step (Snap_returned r t) s = (Snap_returned r t, s)"
| "thread_step (Write_load t at) s =
     (if odd (cs_generation s) then (Write_load t at, s) else (Write_exchange t at (cs_generation s), s))"
| "thread_step (Write_exchange t at g) s =
     (if cs_generation s = g then (Write_scale t at g, s\<lparr>cs_generation := g + 1\<rparr>) else (Write_load t at, s))"
| "thread_step (Write_scale t at g) s = (Write_x t at g, s\<lparr>cs_scale := ct_scale t\<rparr>)"
| "thread_step (Write_x t at g) s = (Write_y t at g, s\<lparr>cs_x := ct_x t\<rparr>)"
| "thread_step (Write_y t at g) s = (Write_updates t at g, s\<lparr>cs_y := ct_y t\<rparr>)"
| "thread_step (Write_updates t at g) s =
     (Write_publish t at g, s\<lparr>cs_updates := push_update ((g + 2) div 2, at) (cs_updates s)\<rparr>)"
| "thread_step (Write_publish t at g) s = (Update_returned True, s\<lparr>cs_generation := g + 2\<rparr>)"
| "thread_step (Update_returned b) s = (Update_returned b, s)"

text \<open>The calls; an invalid transform is refused.\<close>

definition snapshot :: "('f, 't) compositor_pc" where
  "snapshot = Snap_before None"

definition update_at :: "('f \<Rightarrow> bool) \<Rightarrow> ('f \<Rightarrow> bool) \<Rightarrow> 'f compositor_transform \<Rightarrow> 't \<Rightarrow> ('f, 't) compositor_pc" where
  "update_at is_finite is_positive t at =
     (case compositor_transform_new is_finite is_positive t of None \<Rightarrow> Update_returned False | Some t \<Rightarrow> Snap_before (Some (t, at)))"

section \<open>The interleaving\<close>

text \<open>The threads, the shared state and, to speak of them, the transforms published so far.\<close>

record ('f, 't) compositor_system =
  cy_threads :: "nat \<Rightarrow> ('f, 't) compositor_pc"
  cy_state :: "('f, 't) compositor_state"
  cy_published :: "('f compositor_transform \<times> 't) list"

fun returned :: "('f, 't) compositor_pc \<Rightarrow> bool" where
  "returned (Snap_returned r t) = True"
| "returned (Update_returned b) = True"
| "returned pc = False"

fun publishes :: "('f, 't) compositor_pc \<Rightarrow> ('f compositor_transform \<times> 't) list" where
  "publishes (Write_publish t at g) = [(t, at)]"
| "publishes pc = []"

inductive compositor_reachable :: "('f \<Rightarrow> bool) \<Rightarrow> ('f \<Rightarrow> bool) \<Rightarrow> ('f, 't) compositor_system \<Rightarrow> bool" for is_finite is_positive where
  start: "compositor_handle_new is_finite is_positive now initial = Some s \<Longrightarrow>
    compositor_reachable is_finite is_positive
      \<lparr>cy_threads = (\<lambda>_. Update_returned False), cy_state = s, cy_published = [(initial, now)]\<rparr>"
| call_snapshot: "compositor_reachable is_finite is_positive y \<Longrightarrow> returned (cy_threads y i) \<Longrightarrow>
    compositor_reachable is_finite is_positive (y\<lparr>cy_threads := (cy_threads y)(i := snapshot)\<rparr>)"
| call_update: "compositor_reachable is_finite is_positive y \<Longrightarrow> returned (cy_threads y i) \<Longrightarrow>
    compositor_reachable is_finite is_positive (y\<lparr>cy_threads := (cy_threads y)(i := update_at is_finite is_positive t at)\<rparr>)"
| run: "compositor_reachable is_finite is_positive y \<Longrightarrow> thread_step (cy_threads y i) (cy_state y) = (pc, s) \<Longrightarrow>
    compositor_reachable is_finite is_positive \<lparr>cy_threads = (cy_threads y)(i := pc), cy_state = s,
      cy_published = cy_published y @ publishes (cy_threads y i)\<rparr>"

section \<open>The invariant\<close>

text \<open>The generation that a thread in the critical section has found.\<close>

fun holds :: "('f, 't) compositor_pc \<Rightarrow> nat option" where
  "holds (Write_scale t at g) = Some g"
| "holds (Write_x t at g) = Some g"
| "holds (Write_y t at g) = Some g"
| "holds (Write_updates t at g) = Some g"
| "holds (Write_publish t at g) = Some g"
| "holds pc = None"

definition current :: "('f, 't) compositor_state \<Rightarrow> 'f compositor_transform" where
  "current s = \<lparr>ct_scale = cs_scale s, ct_x = cs_x s, ct_y = cs_y s\<rparr>"

definition latest :: "('f compositor_transform \<times> 't) list \<Rightarrow> (nat \<times> 't) list" where
  "latest ps = pop_old (zip [0..<length ps] (map snd ps))"

text \<open>What a thread knows of the shared state \<open>s\<close> and the published transforms \<open>ps\<close>.\<close>

fun knows :: "('f, 't) compositor_state \<Rightarrow> ('f compositor_transform \<times> 't) list \<Rightarrow> ('f, 't) compositor_pc \<Rightarrow> bool" where
  "knows s ps (Snap_scale k b) \<longleftrightarrow> even b \<and> b \<le> cs_generation s"
| "knows s ps (Snap_x k b c) \<longleftrightarrow> even b \<and> b \<le> cs_generation s \<and> (cs_generation s = b \<longrightarrow> c = cs_scale s)"
| "knows s ps (Snap_y k b c x) \<longleftrightarrow> even b \<and> b \<le> cs_generation s \<and> (cs_generation s = b \<longrightarrow> c = cs_scale s \<and> x = cs_x s)"
| "knows s ps (Snap_after k b c x y) \<longleftrightarrow> even b \<and> b \<le> cs_generation s \<and>
     (cs_generation s = b \<longrightarrow> c = cs_scale s \<and> x = cs_x s \<and> y = cs_y s)"
| "knows s ps (Snap_returned r t) \<longleftrightarrow> r < length ps \<and> fst (ps ! r) = t"
| "knows s ps (Write_exchange t at g) \<longleftrightarrow> even g"
| "knows s ps (Write_scale t at g) \<longleftrightarrow> cs_generation s = Suc g"
| "knows s ps (Write_x t at g) \<longleftrightarrow> cs_generation s = Suc g \<and> cs_scale s = ct_scale t"
| "knows s ps (Write_y t at g) \<longleftrightarrow> cs_generation s = Suc g \<and> cs_scale s = ct_scale t \<and> cs_x s = ct_x t"
| "knows s ps (Write_updates t at g) \<longleftrightarrow> cs_generation s = Suc g \<and> current s = t"
| "knows s ps (Write_publish t at g) \<longleftrightarrow> cs_generation s = Suc g \<and> current s = t"
| "knows s ps pc \<longleftrightarrow> True"

definition compositor_inv :: "('f, 't) compositor_system \<Rightarrow> bool" where
  "compositor_inv y \<longleftrightarrow>
     (let s = cy_state y; ps = cy_published y; th = cy_threads y in
      length ps = cs_generation s div 2 + 1 \<and>
      (even (cs_generation s) \<longrightarrow> fst (ps ! (cs_generation s div 2)) = current s \<and> (\<forall>i. holds (th i) = None)) \<and>
      (odd (cs_generation s) \<longrightarrow> (\<exists>w. holds (th w) \<noteq> None \<and> (\<forall>i. i \<noteq> w \<longrightarrow> holds (th i) = None) \<and>
         cs_updates s = latest (ps @ publishes (th w)))) \<and>
      (even (cs_generation s) \<longrightarrow> cs_updates s = latest ps) \<and>
      (\<forall>i. knows s ps (th i)))"

lemma compositor_invI:
  assumes "length (cy_published y) = cs_generation (cy_state y) div 2 + 1"
    and "even (cs_generation (cy_state y)) \<Longrightarrow>
      fst (cy_published y ! (cs_generation (cy_state y) div 2)) = current (cy_state y) \<and> (\<forall>i. holds (cy_threads y i) = None) \<and>
      cs_updates (cy_state y) = latest (cy_published y)"
    and "odd (cs_generation (cy_state y)) \<Longrightarrow> holds (cy_threads y w) \<noteq> None \<and>
      (\<forall>i. i \<noteq> w \<longrightarrow> holds (cy_threads y i) = None) \<and>
      cs_updates (cy_state y) = latest (cy_published y @ publishes (cy_threads y w))"
    and "\<And>i. knows (cy_state y) (cy_published y) (cy_threads y i)"
  shows "compositor_inv y"
  using assms by (auto simp: compositor_inv_def Let_def)

lemma compositor_invD:
  assumes "compositor_inv y"
  shows "length (cy_published y) = cs_generation (cy_state y) div 2 + 1"
    "even (cs_generation (cy_state y)) \<Longrightarrow> fst (cy_published y ! (cs_generation (cy_state y) div 2)) = current (cy_state y)"
    "even (cs_generation (cy_state y)) \<Longrightarrow> holds (cy_threads y i) = None"
    "even (cs_generation (cy_state y)) \<Longrightarrow> cs_updates (cy_state y) = latest (cy_published y)"
    "knows (cy_state y) (cy_published y) (cy_threads y i)"
  using assms by (auto simp: compositor_inv_def Let_def)

lemma holder:
  assumes "compositor_inv y" and "holds (cy_threads y w) \<noteq> None"
  shows "odd (cs_generation (cy_state y))" "i \<noteq> w \<Longrightarrow> holds (cy_threads y i) = None"
    "cs_updates (cy_state y) = latest (cy_published y @ publishes (cy_threads y w))"
proof -
  show odd: "odd (cs_generation (cy_state y))" using assms(2) compositor_invD(3) [OF assms(1), of w] by auto
  obtain v where v: "\<forall>i. i \<noteq> v \<longrightarrow> holds (cy_threads y i) = None"
    "cs_updates (cy_state y) = latest (cy_published y @ publishes (cy_threads y v))"
    using assms(1) odd by (auto simp: compositor_inv_def Let_def)
  have "v = w" using v(1) assms(2) by metis
  with v show "i \<noteq> w \<Longrightarrow> holds (cy_threads y i) = None"
    "cs_updates (cy_state y) = latest (cy_published y @ publishes (cy_threads y w))" by blast+
qed

text \<open>What other threads know survives a later generation, since they know of even ones only.\<close>

lemma knows_later:
  assumes "knows s ps pc" and "holds pc = None" and "cs_generation s \<le> cs_generation s'"
    and "\<And>b. even b \<Longrightarrow> b \<le> cs_generation s \<Longrightarrow> cs_generation s' \<noteq> b"
  shows "knows s' (ps @ qs) pc"
  using assms by (cases pc) (auto simp: nth_append)

text \<open>A step that leaves the shared state alone.\<close>

lemma local_step:
  assumes iv: "compositor_inv y" and pc: "holds (cy_threads y i) = holds pc" "publishes (cy_threads y i) = publishes pc"
    and knows: "knows (cy_state y) (cy_published y) pc"
  shows "compositor_inv (y\<lparr>cy_threads := (cy_threads y)(i := pc)\<rparr>)"
proof -
  let ?th = "(cy_threads y)(i := pc)"
  have th: "holds (?th j) = holds (cy_threads y j)" "publishes (?th j) = publishes (cy_threads y j)" for j
    using pc by simp_all
  obtain w where w: "odd (cs_generation (cy_state y)) \<Longrightarrow> holds (cy_threads y w) \<noteq> None"
    using iv by (auto simp: compositor_inv_def Let_def)
  show ?thesis
  proof (rule compositor_invI [where w = w])
    assume "odd (cs_generation (cy_state (y\<lparr>cy_threads := ?th\<rparr>)))"
    then have hw: "holds (cy_threads y w) \<noteq> None" using w by simp
    show "holds (cy_threads (y\<lparr>cy_threads := ?th\<rparr>) w) \<noteq> None \<and>
      (\<forall>j. j \<noteq> w \<longrightarrow> holds (cy_threads (y\<lparr>cy_threads := ?th\<rparr>) j) = None) \<and>
      cs_updates (cy_state (y\<lparr>cy_threads := ?th\<rparr>)) =
        latest (cy_published (y\<lparr>cy_threads := ?th\<rparr>) @ publishes (cy_threads (y\<lparr>cy_threads := ?th\<rparr>) w))"
      using holder [OF iv hw] hw th by (simp del: fun_upd_apply)
  next
    show "knows (cy_state (y\<lparr>cy_threads := ?th\<rparr>)) (cy_published (y\<lparr>cy_threads := ?th\<rparr>)) (cy_threads (y\<lparr>cy_threads := ?th\<rparr>) j)" for j
      using compositor_invD(5) [OF iv] knows by simp
  qed (use compositor_invD [OF iv] th in \<open>simp_all del: fun_upd_apply\<close>)
qed

lemma thread_step_local:
  assumes "thread_step pc s = (pc', s')" and "holds pc = None" and "\<not> (\<exists>t at. pc = Write_exchange t at (cs_generation s))"
    and "knows s ps pc" and "length ps = cs_generation s div 2 + 1"
    and "even (cs_generation s) \<Longrightarrow> fst (ps ! (cs_generation s div 2)) = current s"
  shows "s' = s \<and> holds pc' = None \<and> publishes pc = [] \<and> publishes pc' = [] \<and> knows s ps pc'"
  using assms by (cases pc) (auto simp: current_def split: if_splits option.splits)

text \<open>A step of the thread that enters, holds or leaves the critical section.\<close>

lemma writer_step:
  assumes iv: "compositor_inv y" and gen: "cs_generation (cy_state y) \<le> cs_generation s"
    and later: "\<And>b. even b \<Longrightarrow> b \<le> cs_generation (cy_state y) \<Longrightarrow> cs_generation s \<noteq> b"
    and others: "\<And>j. j \<noteq> i \<Longrightarrow> holds (cy_threads y j) = None"
    and knows: "knows s (cy_published y @ publishes (cy_threads y i)) pc"
    and len: "length (cy_published y @ publishes (cy_threads y i)) = cs_generation s div 2 + 1"
    and odd: "odd (cs_generation s) \<Longrightarrow> holds pc \<noteq> None \<and>
      cs_updates s = latest ((cy_published y @ publishes (cy_threads y i)) @ publishes pc)"
    and even: "even (cs_generation s) \<Longrightarrow> holds pc = None \<and>
      fst ((cy_published y @ publishes (cy_threads y i)) ! (cs_generation s div 2)) = current s \<and>
      cs_updates s = latest (cy_published y @ publishes (cy_threads y i))"
  shows "compositor_inv \<lparr>cy_threads = (cy_threads y)(i := pc), cy_state = s,
      cy_published = cy_published y @ publishes (cy_threads y i)\<rparr>"
proof (rule compositor_invI [where w = i])
  show "knows (cy_state \<lparr>cy_threads = (cy_threads y)(i := pc), cy_state = s, cy_published = cy_published y @ publishes (cy_threads y i)\<rparr>)
      (cy_published \<lparr>cy_threads = (cy_threads y)(i := pc), cy_state = s, cy_published = cy_published y @ publishes (cy_threads y i)\<rparr>)
      (cy_threads \<lparr>cy_threads = (cy_threads y)(i := pc), cy_state = s, cy_published = cy_published y @ publishes (cy_threads y i)\<rparr> j)" for j
    using knows knows_later [OF compositor_invD(5) [OF iv] others gen later] by simp
qed (use len odd even others in simp_all)

lemma pop_old_push: "pop_old (pop_old us @ [u]) = pop_old (us @ [u])"
proof (cases "length us \<le> 128")
  case False
  then have "Suc (length us - 128) = length us - 127" by arith
  with False show ?thesis by (simp add: pop_old_def)
qed (simp add: pop_old_def)

lemma latest_push: "latest (ps @ [(t, at)]) = push_update (length ps, at) (latest ps)"
  by (simp add: latest_def push_update_def pop_old_push)

lemma compositor_reachable_inv: "compositor_reachable is_finite is_positive y \<Longrightarrow> compositor_inv y"
proof (induction rule: compositor_reachable.induct)
  case (start now initial s)
  then have s: "s = \<lparr>cs_generation = 0, cs_scale = ct_scale initial, cs_x = ct_x initial, cs_y = ct_y initial, cs_updates = [(0, now)]\<rparr>"
    by (auto simp: compositor_handle_new_def compositor_transform_new_def split: if_splits)
  show ?case by (rule compositor_invI) (simp_all add: s current_def latest_def pop_old_def)
next
  case (call_snapshot y i)
  then show ?case by (intro local_step) (cases "cy_threads y i"; simp add: snapshot_def)+
next
  case (call_update y i t at)
  then show ?case by (intro local_step) (cases "cy_threads y i"; simp add: update_at_def split: option.split)+
next
  case (run y i pc s)
  note iv = run.IH and step = run.hyps(2)
  have same: ?case if "holds (cy_threads y i) = None" "\<not> (\<exists>t at. cy_threads y i = Write_exchange t at (cs_generation (cy_state y)))"
  proof -
    note L = thread_step_local [OF step that compositor_invD(5,1,2) [OF iv]]
    from local_step [OF iv, of i pc] L that show ?thesis by (cases y) simp
  qed
  have know: "knows (cy_state y) (cy_published y) (cy_threads y i)" using compositor_invD(5) [OF iv] .
  show ?case
  proof (cases "cy_threads y i")
    case (Write_exchange t at g)
    show ?thesis
    proof (cases "cs_generation (cy_state y) = g")
      case True
      with Write_exchange step know compositor_invD(1,3,4) [OF iv] show ?thesis
        by (intro writer_step [OF iv]) auto
    next
      case False
      with Write_exchange have "holds (cy_threads y i) = None" "\<not> (\<exists>t at. cy_threads y i = Write_exchange t at (cs_generation (cy_state y)))"
        by simp_all
      then show ?thesis by (rule same)
    qed
  next
    case (Write_scale t at g)
    note H = holder [OF iv, of i, unfolded Write_scale, simplified]
    from Write_scale step know compositor_invD(1) [OF iv] H show ?thesis
      by (intro writer_step [OF iv]) auto
  next
    case (Write_x t at g)
    note H = holder [OF iv, of i, unfolded Write_x, simplified]
    from Write_x step know compositor_invD(1) [OF iv] H show ?thesis
      by (intro writer_step [OF iv]) auto
  next
    case (Write_y t at g)
    note H = holder [OF iv, of i, unfolded Write_y, simplified]
    from Write_y step know compositor_invD(1) [OF iv] H show ?thesis
      by (intro writer_step [OF iv]) (auto simp: current_def)
  next
    case (Write_updates t at g)
    note H = holder [OF iv, of i, unfolded Write_updates, simplified]
    have "(g + 2) div 2 = length (cy_published y)" "current s = current (cy_state y)"
      using Write_updates step know compositor_invD(1) [OF iv] H(1) by (auto simp: current_def)
    with Write_updates step know compositor_invD(1) [OF iv] H show ?thesis
      by (intro writer_step [OF iv]) (auto simp: latest_push)
  next
    case (Write_publish t at g)
    note H = holder [OF iv, of i, unfolded Write_publish, simplified]
    have "length (cy_published y) = (g + 2) div 2" "current s = current (cy_state y)"
      using Write_publish step know compositor_invD(1) [OF iv] H(1) by (auto simp: current_def)
    with Write_publish step know H show ?thesis
      by (intro writer_step [OF iv]) (auto simp: nth_append)
  qed (intro same; simp)+
qed

section \<open>Properties\<close>

text \<open>The transform that a thread is to publish.\<close>

fun carries :: "('f, 't) compositor_pc \<Rightarrow> 'f compositor_transform option" where
  "carries (Snap_before k) = map_option fst k"
| "carries (Snap_scale k b) = map_option fst k"
| "carries (Snap_x k b c) = map_option fst k"
| "carries (Snap_y k b c x) = map_option fst k"
| "carries (Snap_after k b c x y) = map_option fst k"
| "carries (Snap_returned r t) = None"
| "carries (Write_load t at) = Some t"
| "carries (Write_exchange t at g) = Some t"
| "carries (Write_scale t at g) = Some t"
| "carries (Write_x t at g) = Some t"
| "carries (Write_y t at g) = Some t"
| "carries (Write_updates t at g) = Some t"
| "carries (Write_publish t at g) = Some t"
| "carries (Update_returned b) = None"

lemma thread_step_carries: "thread_step pc s = (pc', s') \<Longrightarrow> carries pc' = None \<or> carries pc' = carries pc"
  by (cases pc) (auto split: if_splits option.splits)

lemma publishes_carries: "list_all (\<lambda>p. carries pc = Some (fst p)) (publishes pc)"
  by (cases pc) auto

lemma reachable_valid:
  "compositor_reachable is_finite is_positive y \<Longrightarrow>
   list_all (\<lambda>p. compositor_transform_new is_finite is_positive (fst p) = Some (fst p)) (cy_published y) \<and>
   \<not> (\<exists>i t. carries (cy_threads y i) = Some t \<and> compositor_transform_new is_finite is_positive t \<noteq> Some t)"
proof (induction rule: compositor_reachable.induct)
  case (start now initial s)
  then show ?case by (auto simp: compositor_handle_new_def compositor_transform_new_def split: if_splits)
next
  case (call_snapshot y i)
  then show ?case by (auto simp: snapshot_def)
next
  case (call_update y i t at)
  then show ?case by (auto simp: update_at_def compositor_transform_new_def split: option.splits if_splits)
next
  case (run y i pc s)
  have "carries pc = None \<or> carries pc = carries (cy_threads y i)"
    by (rule thread_step_carries [OF run.hyps(2)])
  moreover have "list_all (\<lambda>p. carries (cy_threads y i) = Some (fst p)) (publishes (cy_threads y i))"
    by (rule publishes_carries)
  moreover have "compositor_transform_new is_finite is_positive t = Some t" if "carries (cy_threads y j) = Some t" for j t
    using run.IH that by blast
  ultimately have "list_all (\<lambda>p. compositor_transform_new is_finite is_positive (fst p) = Some (fst p)) (publishes (cy_threads y i))"
    "\<And>j t. carries (((cy_threads y)(i := pc)) j) = Some t \<Longrightarrow> compositor_transform_new is_finite is_positive t = Some t"
    by (auto simp: list_all_iff split: if_splits)
  then show ?case using run.IH by (simp only: compositor_system.simps list_all_append) blast
qed

lemma snapshot_returns:
  assumes "thread_step pc s = (Snap_returned r t, s')" and "\<not> returned pc"
  shows "\<exists>c x v. pc = Snap_after None (cs_generation s) c x v \<and> r = cs_generation s div 2 \<and> t = \<lparr>ct_scale = c, ct_x = x, ct_y = v\<rparr>"
  using assms by (cases pc) (auto split: if_splits option.splits)

text \<open>
  C25. However writers and readers interleave, a snapshot never mixes two updates: when it returns,
  it returns the transform published last at its last load, with its revision, and that
  transform is valid; and at most one writer is between its exchange and its publication.
\<close>

theorem snapshot_never_tears:
  assumes "compositor_reachable is_finite is_positive y"
    and "thread_step (cy_threads y i) (cy_state y) = (Snap_returned r t, s)" and "\<not> returned (cy_threads y i)"
  shows "r = length (cy_published y) - 1 \<and> t = fst (last (cy_published y)) \<and>
    compositor_transform_new is_finite is_positive t = Some t \<and>
    \<not> (\<exists>v w. v \<noteq> w \<and> holds (cy_threads y v) \<noteq> None \<and> holds (cy_threads y w) \<noteq> None)"
proof -
  note iv = compositor_reachable_inv [OF assms(1)]
  obtain c x v where pc: "cy_threads y i = Snap_after None (cs_generation (cy_state y)) c x v"
    "r = cs_generation (cy_state y) div 2" "t = \<lparr>ct_scale = c, ct_x = x, ct_y = v\<rparr>"
    using snapshot_returns [OF assms(2,3)] by blast
  have even: "even (cs_generation (cy_state y))" and t: "t = current (cy_state y)"
    using compositor_invD(5) [OF iv, of i] pc by (auto simp: current_def)
  have r: "r = length (cy_published y) - 1" and ne: "cy_published y \<noteq> []"
    using compositor_invD(1) [OF iv] pc(2) by auto
  have last: "fst (last (cy_published y)) = t"
    unfolding last_conv_nth [OF ne] r [symmetric] using compositor_invD(2) [OF iv even] t pc(2) by simp
  have "compositor_transform_new is_finite is_positive (fst p) = Some (fst p)" if "p \<in> set (cy_published y)" for p
    using reachable_valid [OF assms(1)] that by (simp add: list_all_iff)
  from this [OF last_in_set [OF ne]] last
  have "compositor_transform_new is_finite is_positive t = Some t" by simp
  moreover have "\<not> (\<exists>v w. v \<noteq> w \<and> holds (cy_threads y v) \<noteq> None \<and> holds (cy_threads y w) \<noteq> None)"
  proof
    assume "\<exists>v w. v \<noteq> w \<and> holds (cy_threads y v) \<noteq> None \<and> holds (cy_threads y w) \<noteq> None"
    then obtain v w where vw: "v \<noteq> w" "holds (cy_threads y v) \<noteq> None" "holds (cy_threads y w) \<noteq> None" by blast
    from holder(2) [OF iv vw(3,1)] vw(2) show False by simp
  qed
  ultimately show ?thesis using r last by simp
qed

lemma find_candidate:
  assumes "(r, v) \<in> set us" and "\<And>w. (r, w) \<in> set us \<Longrightarrow> w = v"
  shows "List.find (\<lambda>(candidate, _). candidate = r) us = Some (r, v)"
proof -
  obtain p where p: "List.find (\<lambda>(candidate, _). candidate = r) us = Some p"
    using assms(1) by (cases "List.find (\<lambda>(candidate, _). candidate = r) us") (auto simp: find_None_iff)
  then have "p \<in> set us" "fst p = r" by (auto simp: find_Some_iff intro: nth_mem)
  with assms(2) [of "snd p"] p show ?thesis by (cases p) simp
qed

text \<open>
  A snapshot's revision keeps its transform for ever, and the time of its update can be looked
  up as soon as it can be read, until 127 more revisions are published.
\<close>

theorem revision_has_its_time:
  assumes "compositor_reachable is_finite is_positive y" and "r < length (cy_published y)" and "length (cy_published y) < r + 128"
  shows "updated_at r (cy_state y) = Some (snd (cy_published y ! r))"
proof -
  note iv = compositor_reachable_inv [OF assms(1)]
  obtain w qs where q: "cs_updates (cy_state y) = latest (cy_published y @ qs)" "length qs \<le> 1"
  proof (cases "even (cs_generation (cy_state y))")
    case True
    then show ?thesis using that [of "[]"] compositor_invD(4) [OF iv] by simp
  next
    case False
    then obtain w where "holds (cy_threads y w) \<noteq> None" using iv by (auto simp: compositor_inv_def Let_def)
    moreover have "length (publishes (cy_threads y w)) \<le> 1" by (cases "cy_threads y w") auto
    ultimately show ?thesis using that holder(3) [OF iv] by blast
  qed
  let ?us = "zip [0..<length (cy_published y @ qs)] (map snd (cy_published y @ qs))"
  have at_r: "?us ! r = (r, snd (cy_published y ! r))" "r < length ?us" using assms(2) by (auto simp: nth_append)
  have kept: "(r, snd (cy_published y ! r)) \<in> set (pop_old ?us)"
  proof -
    have "length ?us - 128 \<le> r" using assms(3) q(2) by simp
    then have "drop (length ?us - 128) ?us ! (r - (length ?us - 128)) = ?us ! r" using at_r(2) by simp
    moreover have "r - (length ?us - 128) < length (drop (length ?us - 128) ?us)" using at_r(2) \<open>length ?us - 128 \<le> r\<close> by simp
    ultimately show ?thesis unfolding pop_old_def using at_r(1) by (metis nth_mem)
  qed
  have its_time: "v = snd (cy_published y ! r)" if "(r, v) \<in> set ?us" for v
    using that assms(2) by (auto simp: set_zip nth_append)
  have kept_time: "v = snd (cy_published y ! r)" if "(r, v) \<in> set (pop_old ?us)" for v
    using that its_time unfolding pop_old_def by (meson in_set_dropD)
  have "List.find (\<lambda>(candidate, _). candidate = r) (rev (pop_old ?us)) = Some (r, snd (cy_published y ! r))"
  proof (rule find_candidate)
    show "(r, snd (cy_published y ! r)) \<in> set (rev (pop_old ?us))" unfolding set_rev by (rule kept)
    show "w = snd (cy_published y ! r)" if "(r, w) \<in> set (rev (pop_old ?us))" for w
      using that unfolding set_rev by (rule kept_time)
  qed
  then show ?thesis by (simp add: updated_at_def q(1) latest_def)
qed

text \<open>Thread 1 publishes a transform, then thread 0 comes to its last load.\<close>

definition run_thread :: "nat \<Rightarrow> ('f, 't) compositor_system \<Rightarrow> ('f, 't) compositor_system" where
  "run_thread i y = (let (pc, s) = thread_step (cy_threads y i) (cy_state y)
     in \<lparr>cy_threads = (cy_threads y)(i := pc), cy_state = s, cy_published = cy_published y @ publishes (cy_threads y i)\<rparr>)"

lemma run_thread_reachable:
  "compositor_reachable is_finite is_positive y \<Longrightarrow> compositor_reachable is_finite is_positive ((run_thread i ^^ n) y)"
  by (induction n) (auto simp: run_thread_def intro: compositor_reachable.run split: prod.split)

definition moved_camera :: "int compositor_transform" where
  "moved_camera = \<lparr>ct_scale = 2, ct_x = 20, ct_y = 30\<rparr>"

definition camera_start :: "(int, nat) compositor_system" where
  "camera_start = \<lparr>cy_threads = (\<lambda>_. Update_returned False), cy_state = \<lparr>cs_generation = 0, cs_scale = 1, cs_x = 0, cs_y = 0, cs_updates = [(0, 5)]\<rparr>,
     cy_published = [(\<lparr>ct_scale = 1, ct_x = 0, ct_y = 0\<rparr>, 5)]\<rparr>"

definition camera_moved :: "(int, nat) compositor_system" where
  "camera_moved = (run_thread 1 ^^ 13) (camera_start\<lparr>cy_threads := (cy_threads camera_start)(1 := update_at (\<lambda>_. True) (\<lambda>c. 0 < c) moved_camera 8)\<rparr>)"

definition camera_read :: "(int, nat) compositor_system" where
  "camera_read = (run_thread 0 ^^ 4) (camera_moved\<lparr>cy_threads := (cy_threads camera_moved)(0 := snapshot)\<rparr>)"

lemma camera_moved_eq:
  "camera_moved = \<lparr>cy_threads = (\<lambda>_. Update_returned False)(1 := Update_returned True),
     cy_state = \<lparr>cs_generation = 2, cs_scale = 2, cs_x = 20, cs_y = 30, cs_updates = [(0, 5), (1, 8)]\<rparr>,
     cy_published = [(\<lparr>ct_scale = 1, ct_x = 0, ct_y = 0\<rparr>, 5), (moved_camera, 8)]\<rparr>"
  by (simp add: camera_moved_def camera_start_def run_thread_def update_at_def compositor_transform_new_def moved_camera_def
      eval_nat_numeral push_update_def pop_old_def)

lemma camera_read_eq: "cy_threads camera_read 0 = Snap_after None 2 2 20 30" "cy_state camera_read = cy_state camera_moved"
  "cy_published camera_read = cy_published camera_moved"
  by (simp_all add: camera_read_def camera_moved_eq run_thread_def snapshot_def eval_nat_numeral)

lemma camera_reachable:
  "compositor_reachable (\<lambda>_. True) (\<lambda>c. 0 < c) camera_moved" "compositor_reachable (\<lambda>_. True) (\<lambda>c. 0 < c) camera_read"
proof -
  have "compositor_reachable (\<lambda>_. True) (\<lambda>c. 0 < c) camera_start"
    unfolding camera_start_def
    by (rule compositor_reachable.start) (simp add: compositor_handle_new_def compositor_transform_new_def)
  from compositor_reachable.call_update [OF this, of 1 moved_camera 8]
  show moved: "compositor_reachable (\<lambda>_. True) (\<lambda>c. 0 < c) camera_moved"
    unfolding camera_moved_def by (intro run_thread_reachable) (simp add: camera_start_def)
  from compositor_reachable.call_snapshot [OF this, of 0]
  show "compositor_reachable (\<lambda>_. True) (\<lambda>c. 0 < c) camera_read"
    unfolding camera_read_def by (intro run_thread_reachable) (simp add: camera_moved_eq)
qed

lemma snapshot_never_tears_witness:
  "fst (thread_step (cy_threads camera_read 0) (cy_state camera_read)) = Snap_returned 1 moved_camera \<and>
   compositor_transform_new (\<lambda>_. True) (\<lambda>c. 0 < c) moved_camera = Some moved_camera"
proof
  show step: "fst (thread_step (cy_threads camera_read 0) (cy_state camera_read)) = Snap_returned 1 moved_camera"
    by (simp add: camera_read_eq camera_moved_eq moved_camera_def)
  then obtain s where "thread_step (cy_threads camera_read 0) (cy_state camera_read) = (Snap_returned 1 moved_camera, s)"
    by (metis prod.collapse)
  from snapshot_never_tears [OF camera_reachable(2) this]
  show "compositor_transform_new (\<lambda>_. True) (\<lambda>c. 0 < c) moved_camera = Some moved_camera" by (simp add: camera_read_eq)
qed

lemma revision_has_its_time_witness: "updated_at 1 (cy_state camera_moved) = Some 8"
  using revision_has_its_time [OF camera_reachable(1), of 1] by (simp add: camera_moved_eq)

end
