(* ===== verification/Raster_Store.thy ===== *)
theory Raster_Store
  imports Prelude Lengths "HOL-Library.AList"
begin

text \<open>
  The raster tiles a Metal renderer keeps, from \<open>src/src/platform/mac/metal_renderer.rs\<close> and the
  limits of \<open>src/src/raster_cache.rs\<close>: textures that one tile or a batch of tiles share, counted
  for each cache and evicted, least recently used first, to stay within its limits.

  A hash map is the list of its entries in the order it iterates over them.  Numbers of bytes, tiles
  and frames stay below \<open>2 ^ 64\<close> when added; the product of a size is checked, as it is in the code.
  What is drawn into a texture is left out, and an allocation is told apart by a number.
\<close>

section \<open>State\<close>

record raster_config =
  rc_soft :: nat
  rc_hard :: nat

definition raster_config_new :: "nat \<Rightarrow> nat \<Rightarrow> raster_config option" where
  "raster_config_new soft hard = (if 0 < soft \<and> soft \<le> hard then Some \<lparr>rc_soft = soft, rc_hard = hard\<rparr> else None)"

definition raster_config_default :: raster_config where
  "raster_config_default = \<lparr>rc_soft = 224 * 1024 * 1024, rc_hard = 256 * 1024 * 1024\<rparr>"

record cache_handle =
  ch_id :: nat
  ch_config :: raster_config

record comparison_stats =
  cmp_samples :: nat
  cmp_min_ssim_ppb :: nat
  cmp_p99_channel_error :: nat
  cmp_max_channel_error :: nat

record raster_stats =
  st_resident_bytes :: nat
  st_resident_tiles :: nat
  st_evicted_tiles :: nat
  st_hits :: nat
  st_misses :: nat
  st_comparisons :: comparison_stats

definition comparison_default :: comparison_stats where
  "comparison_default = \<lparr>cmp_samples = 0, cmp_min_ssim_ppb = 0, cmp_p99_channel_error = 0, cmp_max_channel_error = 0\<rparr>"

definition raster_stats_default :: raster_stats where
  "raster_stats_default = \<lparr>st_resident_bytes = 0, st_resident_tiles = 0, st_evicted_tiles = 0, st_hits = 0, st_misses = 0,
     st_comparisons = comparison_default\<rparr>"

record raster_allocation =
  al_id :: nat
  al_bytes :: nat

record raster_texture =
  rt_allocation :: raster_allocation
  rt_source_origin :: "int point"
  rt_source_size :: "int size2"
  rt_gutter :: nat
  rt_last_used :: nat

text \<open>The cache, the tile and its revision.\<close>

type_synonym raster_key = "nat \<times> nat \<times> nat"

record raster_namespace =
  ns_owner :: nat
  ns_stats :: raster_stats
  ns_comparisons :: comparison_stats

definition raster_namespace_new :: "cache_handle \<Rightarrow> raster_namespace" where
  "raster_namespace_new cache = \<lparr>ns_owner = ch_id cache, ns_stats = raster_stats_default, ns_comparisons = comparison_default\<rparr>"

record raster_store =
  rs_textures :: "(raster_key \<times> raster_texture) list"
  rs_namespaces :: "(nat \<times> raster_namespace) list"
  rs_frame_index :: nat
  rs_allocated :: nat

definition raster_store_new :: raster_store where
  "raster_store_new = \<lparr>rs_textures = [], rs_namespaces = [], rs_frame_index = 0, rs_allocated = 0\<rparr>"

section \<open>Lookups and statistics\<close>

definition change_stats :: "nat \<Rightarrow> (raster_stats \<Rightarrow> raster_stats) \<Rightarrow> raster_store \<Rightarrow> raster_store" where
  "change_stats c f s = s\<lparr>rs_namespaces := map (\<lambda>(d, n). (d, if d = c then n\<lparr>ns_stats := f (ns_stats n)\<rparr> else n)) (rs_namespaces s)\<rparr>"

definition namespace_entry :: "cache_handle \<Rightarrow> raster_store \<Rightarrow> raster_store" where
  "namespace_entry cache s =
     (if map_of (rs_namespaces s) (ch_id cache) = None
      then s\<lparr>rs_namespaces := rs_namespaces s @ [(ch_id cache, raster_namespace_new cache)]\<rparr> else s)"

definition touch :: "raster_key \<Rightarrow> raster_store \<Rightarrow> raster_store" where
  "touch k s = s\<lparr>rs_textures := map (\<lambda>(j, t). (j, if j = k then t\<lparr>rt_last_used := rs_frame_index s\<rparr> else t)) (rs_textures s)\<rparr>"

definition forget_cache :: "nat \<Rightarrow> raster_store \<Rightarrow> raster_store" where
  "forget_cache c s = s\<lparr>rs_textures := filter (\<lambda>(k, _). fst k \<noteq> c) (rs_textures s),
     rs_namespaces := filter (\<lambda>(d, _). d \<noteq> c) (rs_namespaces s)\<rparr>"

definition release_raster_cache :: "cache_handle \<Rightarrow> raster_store \<Rightarrow> raster_store" where
  "release_raster_cache cache s = forget_cache (ch_id cache) s"

text \<open>\<open>alive\<close> says of which caches a handle is left.\<close>

definition prune_released :: "(nat \<Rightarrow> bool) \<Rightarrow> raster_store \<Rightarrow> raster_store" where
  "prune_released alive s =
     fold forget_cache (List.map_filter (\<lambda>(c, n). if alive (ns_owner n) then None else Some c) (rs_namespaces s)) s"

datatype raster_lookup = Hit nat | Miss

definition raster_tile_lookup :: "(nat \<Rightarrow> bool) \<Rightarrow> cache_handle \<Rightarrow> nat \<Rightarrow> nat \<Rightarrow> raster_store \<Rightarrow> raster_lookup \<times> raster_store" where
  "raster_tile_lookup alive cache key revision s =
     (let s = namespace_entry cache (prune_released alive s)
      in case map_of (rs_textures s) (ch_id cache, key, revision) of
        Some tile \<Rightarrow> (Hit (rt_gutter tile),
          change_stats (ch_id cache) (\<lambda>st. st\<lparr>st_hits := st_hits st + 1\<rparr>) (touch (ch_id cache, key, revision) s))
      | None \<Rightarrow> (Miss, change_stats (ch_id cache) (\<lambda>st. st\<lparr>st_misses := st_misses st + 1\<rparr>) s))"

definition raster_cache_stats :: "cache_handle \<Rightarrow> raster_store \<Rightarrow> raster_stats" where
  "raster_cache_stats cache s =
     (case map_of (rs_namespaces s) (ch_id cache) of
        None \<Rightarrow> raster_stats_default
      | Some n \<Rightarrow> (ns_stats n)\<lparr>st_comparisons := ns_comparisons n\<rparr>)"

section \<open>Removal and eviction\<close>

text \<open>The entries that have an allocation, whose number is the strong count of its \<open>Arc\<close>.\<close>

definition shares :: "raster_allocation \<Rightarrow> (raster_key \<times> raster_texture) list \<Rightarrow> nat" where
  "shares a ts = length (filter (\<lambda>(_, t). al_id (rt_allocation t) = al_id a) ts)"

definition removal_stats :: "bool \<Rightarrow> bool \<Rightarrow> raster_texture \<Rightarrow> raster_stats \<Rightarrow> raster_stats" where
  "removal_stats released evicted t st =
     st\<lparr>st_resident_bytes := (if released then st_resident_bytes st - al_bytes (rt_allocation t) else st_resident_bytes st),
        st_resident_tiles := st_resident_tiles st - 1,
        st_evicted_tiles := (if evicted then st_evicted_tiles st + 1 else st_evicted_tiles st)\<rparr>"

definition remove_raster_texture :: "raster_key \<Rightarrow> bool \<Rightarrow> raster_store \<Rightarrow> raster_store" where
  "remove_raster_texture k evicted s =
     (case map_of (rs_textures s) k of
        None \<Rightarrow> s
      | Some t \<Rightarrow> change_stats (fst k) (removal_stats (shares (rt_allocation t) (rs_textures s) = 1) evicted t)
          (s\<lparr>rs_textures := AList.delete k (rs_textures s)\<rparr>))"

definition eviction_candidate :: "nat \<Rightarrow> raster_key set \<Rightarrow> raster_store \<Rightarrow> raster_key option" where
  "eviction_candidate c protected s =
     (case filter (\<lambda>(j, _). fst j = c \<and> j \<notin> protected) (rs_textures s) of
        [] \<Rightarrow> None
      | e # es \<Rightarrow> Some (fst (arg_min_list (\<lambda>(_, t). rt_last_used t) (e # es))))"

definition resident_bytes :: "nat \<Rightarrow> raster_store \<Rightarrow> nat" where
  "resident_bytes c s = (case map_of (rs_namespaces s) c of None \<Rightarrow> 0 | Some n \<Rightarrow> st_resident_bytes (ns_stats n))"

lemma arg_min_list_in: "arg_min_list f (x # xs) \<in> set (x # xs)"
  by (induction xs arbitrary: x) (auto simp: Let_def)

lemma candidate_in:
  assumes "eviction_candidate c protected s = Some k"
  shows "\<exists>t. (k, t) \<in> set (rs_textures s) \<and> fst k = c \<and> k \<notin> protected \<and>
    (\<forall>(j, u) \<in> set (rs_textures s). fst j = c \<longrightarrow> j \<notin> protected \<longrightarrow> rt_last_used t \<le> rt_last_used u)"
proof -
  define es where "es = filter (\<lambda>(j, _). fst j = c \<and> j \<notin> protected) (rs_textures s)"
  define e where "e = arg_min_list (\<lambda>(_, t). rt_last_used t) es"
  have "es \<noteq> []" and k: "k = fst e" using assms by (auto simp: eviction_candidate_def es_def e_def split: list.splits)
  then have "e \<in> set es" unfolding e_def using arg_min_list_in [of _ "hd es" "tl es"] by simp
  moreover have "(\<lambda>(_, t). rt_last_used t) e \<le> (\<lambda>(_, t). rt_last_used t) x" if "x \<in> set es" for x
    using f_arg_min_list_f [OF \<open>es \<noteq> []\<close>, of "\<lambda>(_, t). rt_last_used t"] that unfolding e_def by simp
  ultimately have "e \<in> set (rs_textures s)" "fst k = c" "k \<notin> protected"
    "\<And>j u. (j, u) \<in> set (rs_textures s) \<Longrightarrow> fst j = c \<Longrightarrow> j \<notin> protected \<Longrightarrow> rt_last_used (snd e) \<le> rt_last_used u"
    unfolding k es_def by (auto simp: case_prod_beta)
  then show ?thesis unfolding k by (intro exI [of _ "snd e"]) auto
qed

lemma remove_shrinks:
  assumes "(k, t) \<in> set (rs_textures s)"
  shows "length (rs_textures (remove_raster_texture k b s)) < length (rs_textures s)"
proof -
  obtain u where "map_of (rs_textures s) k = Some u"
    using assms by (metis map_of_eq_None_iff image_eqI fst_conv not_None_eq)
  moreover have "length (AList.delete k (rs_textures s)) < length (rs_textures s)"
    using assms unfolding AList.delete_eq by (intro length_filter_less [where x = "(k, t)"]) auto
  ultimately show ?thesis by (simp add: remove_raster_texture_def change_stats_def)
qed

text \<open>Evicting from the cache until \<open>bytes\<close> more fit under its hard limit; whether they do in the end.\<close>

function make_room :: "nat \<Rightarrow> nat \<Rightarrow> nat \<Rightarrow> raster_key set \<Rightarrow> raster_store \<Rightarrow> bool \<times> raster_store" where
  "make_room hard c bytes protected s =
     (if hard < resident_bytes c s + bytes
      then case eviction_candidate c protected s of
          None \<Rightarrow> (False, s)
        | Some k \<Rightarrow> make_room hard c bytes protected (remove_raster_texture k True s)
      else (True, s))"
  by pat_completeness auto
termination
  by (relation "measure (\<lambda>(_, _, _, _, s). length (rs_textures s))") (auto dest!: candidate_in intro: remove_shrinks)

declare make_room.simps [simp del]

text \<open>At the end of a frame, evicting down to the soft limit as far as the frame's own tiles allow.\<close>

function evict_over_soft :: "nat \<Rightarrow> nat \<Rightarrow> raster_key set \<Rightarrow> raster_store \<Rightarrow> raster_store" where
  "evict_over_soft soft c protected s =
     (if soft < resident_bytes c s
      then case eviction_candidate c protected s of
          None \<Rightarrow> s
        | Some k \<Rightarrow> evict_over_soft soft c protected (remove_raster_texture k True s)
      else s)"
  by pat_completeness auto
termination
  by (relation "measure (\<lambda>(_, _, _, s). length (rs_textures s))") (auto dest!: candidate_in intro: remove_shrinks)

declare evict_over_soft.simps [simp del]

section \<open>Preparing textures\<close>

record raster_update =
  ru_cache :: cache_handle
  ru_config :: raster_config
  ru_key :: nat
  ru_revision :: nat
  ru_texture_size :: "int size2"
  ru_gutter :: int

record 'f raster_target =
  tg_key :: nat
  tg_revision :: nat
  tg_source_bounds :: "'f bounds"

text \<open>The tiles composed within the scene of a batch are given by their keys.\<close>

record 'f raster_batch =
  rb_cache :: cache_handle
  rb_config :: raster_config
  rb_texture_size :: "int size2"
  rb_gutter :: int
  rb_targets :: "'f raster_target list"
  rb_tiles :: "raster_key list"

definition checked_mul :: "nat \<Rightarrow> nat \<Rightarrow> nat option" where
  "checked_mul a b = (if a * b < 2 ^ 64 then Some (a * b) else None)"

definition pixels_across :: "int \<Rightarrow> nat" where
  "pixels_across k = nat (max k 0)"

definition texture_bytes :: "raster_config \<Rightarrow> int size2 \<Rightarrow> nat option" where
  "texture_bytes config s =
     (let width = pixels_across (sz_width s); height = pixels_across (sz_height s)
      in case Option.bind (checked_mul width height) (\<lambda>p. checked_mul p 4) of
        None \<Rightarrow> None
      | Some bytes \<Rightarrow> if width = 0 \<or> height = 0 \<or> rc_hard config < bytes then None else Some bytes)"

text \<open>The new allocation of some tiles of a cache; the entries are those the map has afterwards.\<close>

definition allocate :: "cache_handle \<Rightarrow> nat \<Rightarrow> (raster_allocation \<Rightarrow> (raster_key \<times> raster_texture) list) \<Rightarrow>
    raster_store \<Rightarrow> raster_allocation \<times> raster_store" where
  "allocate cache bytes entries s =
     (let a = \<lparr>al_id = rs_allocated s, al_bytes = bytes\<rparr>;
          s = s\<lparr>rs_allocated := rs_allocated s + 1, rs_textures := fold (\<lambda>(k, t). AList.update k t) (entries a) (rs_textures s)\<rparr>
      in (a, change_stats (ch_id cache) (\<lambda>st. st\<lparr>st_resident_bytes := st_resident_bytes st + bytes,
            st_resident_tiles := st_resident_tiles st + length (entries a)\<rparr>) (namespace_entry cache s)))"

definition reusable :: "raster_key \<Rightarrow> (raster_texture \<Rightarrow> bool) \<Rightarrow> raster_store \<Rightarrow> raster_texture option" where
  "reusable k fits s = (case map_of (rs_textures s) k of None \<Rightarrow> None | Some t \<Rightarrow> if fits t then Some t else None)"

definition same_size :: "int size2 \<Rightarrow> raster_texture \<Rightarrow> bool" where
  "same_size z t \<longleftrightarrow> pixels_across (sz_width (rt_source_size t)) = pixels_across (sz_width z) \<and>
     pixels_across (sz_height (rt_source_size t)) = pixels_across (sz_height z)"

definition prepare_raster_texture :: "raster_update \<Rightarrow> raster_key set \<Rightarrow> raster_store \<Rightarrow> raster_allocation option \<times> raster_store" where
  "prepare_raster_texture u protected s =
     (let c = ch_id (ru_cache u); k = (c, ru_key u, ru_revision u) in
      case texture_bytes (ru_config u) (ru_texture_size u) of
        None \<Rightarrow> (None, s)
      | Some bytes \<Rightarrow>
         (case reusable k (same_size (ru_texture_size u)) s of
            Some t \<Rightarrow> (Some (rt_allocation t), touch k s)
          | None \<Rightarrow>
             (case make_room (rc_hard (ru_config u)) c bytes protected (remove_raster_texture k False s) of
                (False, s) \<Rightarrow> (None, s)
              | (True, s) \<Rightarrow>
                 apfst Some (allocate (ru_cache u) bytes
                    (\<lambda>a. [(k, \<lparr>rt_allocation = a, rt_source_origin = Point 0 0, rt_source_size = ru_texture_size u,
                       rt_gutter = pixels_across (ru_gutter u), rt_last_used = rs_frame_index s\<rparr>)]) s))))"

text \<open>A target of a batch: its key, and where it starts in the texture, if the texture holds it.\<close>

definition target_key :: "'f raster_batch \<Rightarrow> 'f raster_target \<Rightarrow> raster_key" where
  "target_key b g = (ch_id (rb_cache b), tg_key g, tg_revision g)"

definition target_origin :: "'f::floor_ceiling bounds \<Rightarrow> 'f raster_target \<Rightarrow> int point" where
  "target_origin source g =
     Point (as_i32 (round_away (pt_x (bd_origin (tg_source_bounds g)) - pt_x (bd_origin source))))
           (as_i32 (round_away (pt_y (bd_origin (tg_source_bounds g)) - pt_y (bd_origin source))))"

definition target_outside :: "'f::floor_ceiling raster_batch \<Rightarrow> 'f bounds \<Rightarrow> int size2 \<Rightarrow> 'f raster_target \<Rightarrow> bool" where
  "target_outside b source z g \<longleftrightarrow>
     pt_x (target_origin source g) < 0 \<or> pt_y (target_origin source g) < 0 \<or>
     sz_width z < as_i32 (pt_x (target_origin source g) + sz_width (rb_texture_size b)) \<or>
     sz_height z < as_i32 (pt_y (target_origin source g) + sz_height (rb_texture_size b))"

definition fits_target :: "'f raster_batch \<Rightarrow> raster_texture \<Rightarrow> bool" where
  "fits_target b t \<longleftrightarrow> rt_source_size t = rb_texture_size b \<and> rt_gutter t = pixels_across (rb_gutter b)"

fun batch_entries :: "'f::floor_ceiling raster_batch \<Rightarrow> 'f bounds \<Rightarrow> int size2 \<Rightarrow> 'f raster_target list \<Rightarrow> raster_store \<Rightarrow>
    (raster_key \<times> int point) list option \<times> raster_store" where
  "batch_entries b source z [] s = (Some [], s)"
| "batch_entries b source z (g # gs) s =
     (if target_outside b source z g then (None, s)
      else case reusable (target_key b g) (fits_target b) s of
        Some t \<Rightarrow> batch_entries b source z gs (touch (target_key b g) s)
      | None \<Rightarrow> apfst (map_option (Cons (target_key b g, target_origin source g)))
          (batch_entries b source z gs (remove_raster_texture (target_key b g) False s)))"

datatype prepared_batch = AlreadyReady | Allocated raster_allocation

definition prepare_raster_batch_texture :: "'f::floor_ceiling raster_batch \<Rightarrow> 'f bounds \<Rightarrow> int size2 \<Rightarrow> raster_key set \<Rightarrow>
    raster_store \<Rightarrow> prepared_batch option \<times> raster_store" where
  "prepare_raster_batch_texture b source z protected s =
     (case texture_bytes (rb_config b) z of
        None \<Rightarrow> (None, s)
      | Some bytes \<Rightarrow>
         (case batch_entries b source z (rb_targets b) s of
            (None, s) \<Rightarrow> (None, s)
          | (Some [], s) \<Rightarrow> (Some AlreadyReady, s)
          | (Some entries, s) \<Rightarrow>
             (case make_room (rc_hard (rb_config b)) (ch_id (rb_cache b)) bytes protected s of
                (False, s) \<Rightarrow> (None, s)
              | (True, s) \<Rightarrow>
                 apfst (\<lambda>a. Some (Allocated a)) (allocate (rb_cache b) bytes
                    (\<lambda>a. map (\<lambda>(k, origin). (k, \<lparr>rt_allocation = a, rt_source_origin = origin,
                       rt_source_size = rb_texture_size b, rt_gutter = pixels_across (rb_gutter b),
                       rt_last_used = rs_frame_index s\<rparr>)) entries) s))))"

section \<open>A frame\<close>

text \<open>The bounds of all targets, and the texture that is to hold them.\<close>

definition source_union :: "'f::floor_ceiling raster_batch \<Rightarrow> 'f bounds option" where
  "source_union b = (case map tg_source_bounds (rb_targets b) of [] \<Rightarrow> None | x # xs \<Rightarrow> Some (foldl bounds_union x xs))"

definition covered :: "int list \<Rightarrow> int" where
  "covered ks = (case ks of [] \<Rightarrow> 0 | k # ks \<Rightarrow> fold max ks k)"

definition batch_texture_size :: "'f::floor_ceiling raster_batch \<Rightarrow> 'f bounds \<Rightarrow> int size2" where
  "batch_texture_size b source =
     (let gutter = max (rb_gutter b) 0;
          covered_width = covered (map (\<lambda>g. pt_x (target_origin source g) + sz_width (rb_texture_size b)) (rb_targets b));
          covered_height = covered (map (\<lambda>g. pt_y (target_origin source g) + sz_height (rb_texture_size b)) (rb_targets b))
      in Size (max (as_i32 \<lceil>sz_width (bd_size source)\<rceil> + 2 * gutter) covered_width)
              (max (as_i32 \<lceil>sz_height (bd_size source)\<rceil> + 2 * gutter) covered_height))"

record 'f raster_frame =
  rf_tiles :: "raster_key list"
  rf_updates :: "raster_update list"
  rf_batches :: "'f raster_batch list"

definition protected_keys :: "'f raster_frame \<Rightarrow> raster_key set" where
  "protected_keys f = set (rf_tiles f @ concat (map rb_tiles (rf_batches f)) @
     map (\<lambda>u. (ch_id (ru_cache u), ru_key u, ru_revision u)) (rf_updates f) @
     concat (map (\<lambda>b. map (target_key b) (rb_targets b)) (rf_batches f)))"

definition draw_batch :: "raster_key set \<Rightarrow> 'f::floor_ceiling raster_batch \<Rightarrow> raster_store \<Rightarrow> raster_store" where
  "draw_batch protected b s =
     (case source_union b of
        None \<Rightarrow> s
      | Some source \<Rightarrow>
          let z = batch_texture_size b source
          in if sz_width z \<le> 0 \<or> sz_height z \<le> 0 then s else snd (prepare_raster_batch_texture b source z protected s))"

definition cache_limits :: "'f raster_frame \<Rightarrow> (nat \<times> nat) list" where
  "cache_limits f = fold (\<lambda>(c, soft). AList.update c soft)
     (map (\<lambda>u. (ch_id (ru_cache u), rc_soft (ru_config u))) (rf_updates f) @
      map (\<lambda>b. (ch_id (rb_cache b), rc_soft (rb_config b))) (rf_batches f)) []"

text \<open>The tiles of a frame whose scenes can be encoded; one that cannot ends the frame early.\<close>

definition draw_rasters :: "'f::floor_ceiling raster_frame \<Rightarrow> raster_store \<Rightarrow> raster_store" where
  "draw_rasters f s =
     (let protected = protected_keys f;
          s = fold (\<lambda>u s. snd (prepare_raster_texture u protected s)) (rf_updates f) s;
          s = fold (draw_batch protected) (rf_batches f) s
      in fold (\<lambda>(c, soft). evict_over_soft soft c protected) (cache_limits f) s)"

end
