(* ===== verification/Raster_Residency.thy ===== *)
theory Raster_Residency
  imports Raster_Store
begin

text \<open>
  What the raster store keeps true: the counters of a cache are the tiles and the distinct
  allocations it holds, no cache exceeds its hard limit, and a frame's own tiles are never evicted.
\<close>

section \<open>What is counted\<close>

definition tiles_of :: "nat \<Rightarrow> (raster_key \<times> raster_texture) list \<Rightarrow> (raster_key \<times> raster_texture) list" where
  "tiles_of c ts = filter (\<lambda>e. fst (fst e) = c) ts"

definition allocations :: "nat \<Rightarrow> (raster_key \<times> raster_texture) list \<Rightarrow> raster_allocation set" where
  "allocations c ts = (\<lambda>e. rt_allocation (snd e)) ` set (tiles_of c ts)"

definition allocated_bytes :: "nat \<Rightarrow> (raster_key \<times> raster_texture) list \<Rightarrow> nat" where
  "allocated_bytes c ts = (\<Sum>a \<in> allocations c ts. al_bytes a)"

definition cache_stats :: "nat \<Rightarrow> raster_store \<Rightarrow> raster_stats" where
  "cache_stats c s = (case map_of (rs_namespaces s) c of None \<Rightarrow> raster_stats_default | Some n \<Rightarrow> ns_stats n)"

definition textures_wf :: "raster_store \<Rightarrow> bool" where
  "textures_wf s \<longleftrightarrow> distinct (map fst (rs_textures s)) \<and>
     (\<forall>e \<in> set (rs_textures s). al_id (rt_allocation (snd e)) < rs_allocated s \<and>
       (\<forall>d \<in> set (rs_textures s). al_id (rt_allocation (snd d)) = al_id (rt_allocation (snd e)) \<longrightarrow>
          rt_allocation (snd d) = rt_allocation (snd e) \<and> fst (fst d) = fst (fst e)))"

definition counted :: "raster_store \<Rightarrow> bool" where
  "counted s \<longleftrightarrow> (\<forall>c. st_resident_tiles (cache_stats c s) = length (tiles_of c (rs_textures s)) \<and>
     st_resident_bytes (cache_stats c s) = allocated_bytes c (rs_textures s))"

definition under_limits :: "(nat \<Rightarrow> raster_config) \<Rightarrow> raster_store \<Rightarrow> bool" where
  "under_limits limits s \<longleftrightarrow> (\<forall>c. st_resident_bytes (cache_stats c s) \<le> rc_hard (limits c))"

definition raster_inv :: "(nat \<Rightarrow> raster_config) \<Rightarrow> raster_store \<Rightarrow> bool" where
  "raster_inv limits s \<longleftrightarrow> textures_wf s \<and> counted s \<and> under_limits limits s"

lemmas raster_inv_defs = raster_inv_def textures_wf_def counted_def under_limits_def

lemma resident_bytes_stats: "resident_bytes c s = st_resident_bytes (cache_stats c s)"
  by (simp add: resident_bytes_def cache_stats_def raster_stats_default_def split: option.split)

lemma allocated_bytes_cong: "allocations c ts = allocations c us \<Longrightarrow> allocated_bytes c ts = allocated_bytes c us"
  by (simp add: allocated_bytes_def)

lemma finite_allocations [simp]: "finite (allocations c ts)"
  by (simp add: allocations_def)

section \<open>Changes of the statistics\<close>

lemma map_of_map_at: "map_of (map (\<lambda>(d, n). (d, if d = c then f n else n)) ns) d = (if d = c then map_option f (map_of ns d) else map_of ns d)"
  by (induction ns) (auto split: option.splits)

lemma change_stats_simps [simp]:
  "rs_textures (change_stats c f s) = rs_textures s" "rs_allocated (change_stats c f s) = rs_allocated s"
  "rs_frame_index (change_stats c f s) = rs_frame_index s"
  by (simp_all add: change_stats_def)

lemma cache_stats_change: "cache_stats d (change_stats c f s) =
    (if d = c \<and> map_of (rs_namespaces s) c \<noteq> None then f (cache_stats d s) else cache_stats d s)"
  by (auto simp: cache_stats_def change_stats_def map_of_map_at split: option.split)

lemma cache_stats_textures [simp]: "cache_stats c (s\<lparr>rs_textures := ts\<rparr>) = cache_stats c s"
  "cache_stats c (s\<lparr>rs_allocated := n\<rparr>) = cache_stats c s" "cache_stats c (s\<lparr>rs_frame_index := n\<rparr>) = cache_stats c s"
  by (simp_all add: cache_stats_def)

lemma namespace_entry_simps [simp]:
  "rs_textures (namespace_entry cache s) = rs_textures s" "rs_allocated (namespace_entry cache s) = rs_allocated s"
  "rs_frame_index (namespace_entry cache s) = rs_frame_index s"
  "cache_stats c (namespace_entry cache s) = cache_stats c s"
  "map_of (rs_namespaces (namespace_entry cache s)) (ch_id cache) \<noteq> None"
  by (auto simp: namespace_entry_def cache_stats_def raster_namespace_new_def map_add_def split: option.split)

lemma unknown_cache: "map_of (rs_namespaces s) c = None \<Longrightarrow> cache_stats c s = raster_stats_default"
  by (simp add: cache_stats_def)

text \<open>Only the counters of bytes and tiles matter to the invariant.\<close>

lemma raster_inv_same:
  assumes "raster_inv limits s" and "rs_textures s' = rs_textures s" "rs_allocated s' = rs_allocated s"
    and "\<And>c. st_resident_bytes (cache_stats c s') = st_resident_bytes (cache_stats c s)"
    and "\<And>c. st_resident_tiles (cache_stats c s') = st_resident_tiles (cache_stats c s)"
  shows "raster_inv limits s'"
  using assms(1) unfolding raster_inv_defs assms(2-5) .

lemma touch_simps [simp]:
  "rs_allocated (touch k s) = rs_allocated s" "rs_namespaces (touch k s) = rs_namespaces s"
  "rs_frame_index (touch k s) = rs_frame_index s" "cache_stats c (touch k s) = cache_stats c s"
  by (simp_all add: touch_def cache_stats_def)

lemma touch_map_of: "map_of (rs_textures (touch k s)) j =
    (if j = k then map_option (rt_last_used_update (\<lambda>_. rs_frame_index s)) (map_of (rs_textures s) j) else map_of (rs_textures s) j)"
  unfolding touch_def by (simp add: map_of_map_at)

lemma touch_maps: "\<exists>f. rs_textures (touch k s) = map f (rs_textures s) \<and>
    (\<forall>e. fst (f e) = fst e \<and> rt_allocation (snd (f e)) = rt_allocation (snd e))"
  by (rule exI [of _ "\<lambda>(j, t). (j, if j = k then t\<lparr>rt_last_used := rs_frame_index s\<rparr> else t)"]) (simp add: touch_def case_prod_beta)

lemma touch_keys [simp]: "map fst (rs_textures (touch k s)) = map fst (rs_textures s)"
  using touch_maps [of k s] by auto

lemma touch_inv:
  assumes "raster_inv limits s" shows "raster_inv limits (touch k s)"
proof -
  obtain f where f: "rs_textures (touch k s) = map f (rs_textures s)"
    "\<And>e. fst (f e) = fst e" "\<And>e. rt_allocation (snd (f e)) = rt_allocation (snd e)"
    using touch_maps by metis
  have "fst \<circ> f = fst" using f(2) by (simp add: fun_eq_iff)
  then have "textures_wf (touch k s)" using assms unfolding raster_inv_def textures_wf_def f(1)
    by (simp only: map_map set_map ball_simps f touch_simps) blast
  moreover have "allocations c (map f ts) = allocations c ts" for c ts
    by (simp add: allocations_def tiles_of_def filter_map comp_def image_image f)
  then have "allocated_bytes c (rs_textures (touch k s)) = allocated_bytes c (rs_textures s)" for c
    unfolding f(1) by (rule allocated_bytes_cong)
  moreover have "length (tiles_of c (map f ts)) = length (tiles_of c ts)" for c ts
    by (simp add: tiles_of_def filter_map comp_def f)
  ultimately have "counted (touch k s)" using assms by (simp add: raster_inv_def counted_def f(1))
  moreover have "under_limits limits (touch k s)" using assms unfolding raster_inv_def under_limits_def touch_simps by blast
  ultimately show ?thesis using \<open>textures_wf (touch k s)\<close> by (simp add: raster_inv_def)
qed

section \<open>Removal\<close>

lemma remove_absent: "map_of (rs_textures s) k = None \<Longrightarrow> remove_raster_texture k b s = s"
  by (simp add: remove_raster_texture_def)

lemma remove_simps [simp]:
  "rs_textures (remove_raster_texture k b s) = AList.delete k (rs_textures s)"
  "rs_allocated (remove_raster_texture k b s) = rs_allocated s"
  "rs_frame_index (remove_raster_texture k b s) = rs_frame_index s"
  by (auto simp: remove_raster_texture_def map_of_eq_None_iff split: option.split)

lemma shares_one:
  assumes wf: "textures_wf s" and k: "map_of (rs_textures s) k = Some t"
  shows "allocations (fst k) (AList.delete k (rs_textures s)) =
    (if shares (rt_allocation t) (rs_textures s) = 1 then allocations (fst k) (rs_textures s) - {rt_allocation t}
     else allocations (fst k) (rs_textures s))"
proof -
  let ?ts = "rs_textures s" and ?a = "rt_allocation t"
  have kt: "(k, t) \<in> set ?ts" using k by (rule map_of_SomeD)
  have dist: "distinct (map fst ?ts)" using wf by (simp add: textures_wf_def)
  have same: "rt_allocation (snd e) = ?a \<and> fst (fst e) = fst k" if "e \<in> set ?ts" "al_id (rt_allocation (snd e)) = al_id ?a" for e
    using wf kt that unfolding textures_wf_def by fastforce
  let ?sh = "filter (\<lambda>(_, t). al_id (rt_allocation t) = al_id ?a) ?ts"
  have sh: "set ?sh = {e \<in> set ?ts. rt_allocation (snd e) = ?a}" using same by auto
  have dsh: "distinct ?sh" using dist distinct_map by (intro distinct_filter) blast
  have one: "shares ?a ?ts = card {e \<in> set ?ts. rt_allocation (snd e) = ?a}"
    unfolding shares_def sh [symmetric] distinct_card [OF dsh] ..
  have del: "set (AList.delete k ?ts) = set ?ts - {(k, t)}"
    using dist kt unfolding AList.delete_eq by (auto simp: eq_key_imp_eq_value)
  have alloc: "allocations (fst k) us = (\<lambda>e. rt_allocation (snd e)) ` {e \<in> set us. fst (fst e) = fst k}" for us
    by (simp add: allocations_def tiles_of_def)
  show ?thesis
  proof (cases "shares ?a ?ts = 1")
    case True
    then obtain e where "{e \<in> set ?ts. rt_allocation (snd e) = ?a} = {e}" unfolding one by (auto simp: card_1_singleton_iff)
    then have "{e \<in> set ?ts. rt_allocation (snd e) = ?a} = {(k, t)}" using kt by auto
    then show ?thesis using True unfolding alloc del by (auto simp: image_iff)
  next
    case False
    have "\<exists>e \<in> set ?ts - {(k, t)}. rt_allocation (snd e) = ?a"
    proof (rule ccontr)
      assume "\<not> (\<exists>e \<in> set ?ts - {(k, t)}. rt_allocation (snd e) = ?a)"
      then have "{e \<in> set ?ts. rt_allocation (snd e) = ?a} = {(k, t)}" using kt by auto
      then show False using False one by simp
    qed
    then obtain e where "e \<in> set ?ts - {(k, t)}" "rt_allocation (snd e) = ?a" "fst (fst e) = fst k" using same by (metis DiffD1)
    then show ?thesis using False unfolding alloc del by (auto simp: image_iff) (metis DiffD1 DiffD2 insertI1 prod.collapse)+
  qed
qed

lemma length_delete:
  "distinct (map fst xs) \<Longrightarrow> map_of xs k = Some v \<Longrightarrow> Suc (length (AList.delete k xs)) = length xs"
proof (induction xs)
  case (Cons x xs)
  then show ?case by (cases x) (auto simp: delete_id)
qed simp

lemma tiles_of_delete: "tiles_of c (AList.delete k ts) = AList.delete k (tiles_of c ts)"
  by (simp add: tiles_of_def AList.delete_eq conj_commute)

lemma tiles_of_delete_other: "fst k \<noteq> c \<Longrightarrow> tiles_of c (AList.delete k ts) = tiles_of c ts"
  unfolding tiles_of_def AList.delete_eq filter_filter by (intro filter_cong) auto

lemma map_of_tiles_of: "map_of (tiles_of c ts) k = (if fst k = c then map_of ts k else None)"
  unfolding tiles_of_def by (induction ts) auto

lemma distinct_tiles_of: "distinct (map fst ts) \<Longrightarrow> distinct (map fst (tiles_of c ts))"
  unfolding tiles_of_def by (induction ts) auto

lemma remove_stats:
  assumes iv: "textures_wf s" "counted s" and k: "map_of (rs_textures s) k = Some t"
  shows "cache_stats c (remove_raster_texture k b s) = (if c = fst k
    then removal_stats (shares (rt_allocation t) (rs_textures s) = 1) b t (cache_stats c s) else cache_stats c s)"
proof -
  have "(k, t) \<in> set (tiles_of (fst k) (rs_textures s))" using map_of_SomeD [OF k] by (simp add: tiles_of_def)
  then have "0 < st_resident_tiles (cache_stats (fst k) s)" using iv(2) by (auto simp: counted_def)
  then have "cache_stats (fst k) s \<noteq> raster_stats_default" by (auto simp: raster_stats_default_def)
  then have "map_of (rs_namespaces s) (fst k) \<noteq> None" using unknown_cache by blast
  then show ?thesis by (simp add: remove_raster_texture_def k cache_stats_change)
qed

lemma remove_inv:
  assumes iv: "raster_inv limits s" shows "raster_inv limits (remove_raster_texture k b s)"
proof (cases "map_of (rs_textures s) k")
  case (Some t)
  let ?s = "remove_raster_texture k b s" and ?ts = "rs_textures s"
  have wf: "textures_wf s" and cnt: "counted s" and lim: "under_limits limits s" using iv by (simp_all add: raster_inv_def)
  have sub: "set (AList.delete k ?ts) \<subseteq> set ?ts" by (auto simp: AList.delete_eq)
  have dist: "distinct (map fst ?ts)" using wf by (simp add: textures_wf_def)
  have wf': "textures_wf ?s" using wf sub distinct_delete [OF dist] unfolding textures_wf_def remove_simps by blast
  have kt: "(k, t) \<in> set (tiles_of (fst k) ?ts)" using map_of_SomeD [OF Some] by (simp add: tiles_of_def)
  then have member: "rt_allocation t \<in> allocations (fst k) ?ts" unfolding allocations_def by force
  have bytes: "allocated_bytes (fst k) (AList.delete k ?ts) = (if shares (rt_allocation t) ?ts = 1
      then allocated_bytes (fst k) ?ts - al_bytes (rt_allocation t) else allocated_bytes (fst k) ?ts)"
    unfolding allocated_bytes_def shares_one [OF wf Some] using member by (simp add: sum_diff1_nat)
  have tiles: "Suc (length (tiles_of (fst k) (AList.delete k ?ts))) = length (tiles_of (fst k) ?ts)"
    unfolding tiles_of_delete using Some by (intro length_delete distinct_tiles_of dist) (simp add: map_of_tiles_of)
  have stats: "st_resident_tiles (cache_stats c ?s) = length (tiles_of c (rs_textures ?s)) \<and>
      st_resident_bytes (cache_stats c ?s) = allocated_bytes c (rs_textures ?s) \<and>
      st_resident_bytes (cache_stats c ?s) \<le> st_resident_bytes (cache_stats c s)" for c
  proof (cases "c = fst k")
    case True
    then show ?thesis using cnt bytes tiles unfolding remove_stats [OF wf cnt Some] counted_def remove_simps
      by (auto simp: removal_stats_def)
  next
    case False
    then show ?thesis using cnt unfolding remove_stats [OF wf cnt Some] counted_def remove_simps
      by (simp add: tiles_of_delete_other allocated_bytes_def allocations_def)
  qed
  have "counted ?s" unfolding counted_def using stats by blast
  moreover have "under_limits limits ?s" using stats lim unfolding under_limits_def by (meson le_trans)
  ultimately show ?thesis using wf' by (simp add: raster_inv_def)
qed (use iv in \<open>simp add: remove_absent\<close>)

section \<open>Making room\<close>

lemma make_room_keeps:
  assumes "P s" and "\<And>s k. P s \<Longrightarrow> eviction_candidate c protected s = Some k \<Longrightarrow> P (remove_raster_texture k True s)"
  shows "P (snd (make_room hard c bytes protected s))"
  using assms
proof (induction hard c bytes protected s rule: make_room.induct)
  case (1 hard c bytes protected s)
  show ?case
  proof (cases "eviction_candidate c protected s")
    case None
    then show ?thesis using 1(2) by (subst make_room.simps) simp
  next
    case (Some k)
    have "P (snd (make_room hard c bytes protected (remove_raster_texture k True s)))" if "hard < resident_bytes c s + bytes"
      using 1(1) [OF that Some 1(3) [OF 1(2) Some] 1(3)] .
    then show ?thesis using Some 1(2) by (subst make_room.simps) simp
  qed
qed

lemma evict_is_make_room: "evict_over_soft soft c protected s = snd (make_room soft c 0 protected s)"
proof (induction soft c protected s rule: evict_over_soft.induct)
  case (1 soft c protected s)
  show ?case using 1 by (subst evict_over_soft.simps, subst make_room.simps) (auto split: option.split)
qed

lemma make_room_makes_room:
  "fst (make_room hard c bytes protected s) \<Longrightarrow> resident_bytes c (snd (make_room hard c bytes protected s)) + bytes \<le> hard"
proof (induction hard c bytes protected s rule: make_room.induct)
  case (1 hard c bytes protected s)
  show ?case
  proof (cases "eviction_candidate c protected s")
    case None
    then show ?thesis using 1(2) by (subst (asm) make_room.simps, subst make_room.simps) (simp split: if_splits)
  next
    case (Some k)
    then show ?thesis using 1(1) [OF _ Some] 1(2) by (subst (asm) (2) make_room.simps, subst make_room.simps) (simp split: if_splits)
  qed
qed

lemma make_room_inv: "raster_inv limits s \<Longrightarrow> raster_inv limits (snd (make_room hard c bytes protected s))"
  by (rule make_room_keeps) (auto intro: remove_inv)

lemma make_room_absent:
  "map_of (rs_textures s) k = None \<Longrightarrow> map_of (rs_textures (snd (make_room hard c bytes protected s))) k = None"
  by (rule make_room_keeps) (auto simp: delete_conv')

section \<open>Allocation\<close>

lemma fold_update_new:
  "distinct (map fst es) \<Longrightarrow> (\<And>k. k \<in> fst ` set es \<Longrightarrow> map_of ts k = None) \<Longrightarrow>
    fold (\<lambda>(k, t). AList.update k t) es ts = ts @ es"
proof (induction es arbitrary: ts)
  case (Cons e es)
  have new: "AList.update (fst e) (snd e) ts = ts @ [e]" using Cons.prems(2) [of "fst e"]
    by (induction ts) (auto split: if_splits)
  have "map_of (ts @ [e]) k = None" if "k \<in> fst ` set es" for k
  proof -
    have "fst e \<notin> fst ` set es" using Cons.prems(1) by simp
    then have "k \<noteq> fst e" using that by metis
    then show ?thesis using that Cons.prems(2) [of k] by (simp add: map_add_def)
  qed
  with Cons.IH [of "ts @ [e]"] Cons.prems(1) new show ?case by (simp add: case_prod_beta)
qed simp

lemma allocate_inv:
  assumes iv: "raster_inv limits s" and es: "\<And>a. distinct (map fst (es a))"
    "\<And>a k. k \<in> fst ` set (es a) \<Longrightarrow> fst k = ch_id cache \<and> map_of (rs_textures s) k = None"
    "\<And>a e. e \<in> set (es a) \<Longrightarrow> rt_allocation (snd e) = a" "\<And>a. es a \<noteq> []"
    and room: "resident_bytes (ch_id cache) s + bytes \<le> rc_hard (limits (ch_id cache))"
  shows "raster_inv limits (snd (allocate cache bytes es s))"
proof -
  define a where "a = \<lparr>al_id = rs_allocated s, al_bytes = bytes\<rparr>"
  define s' where "s' = snd (allocate cache bytes es s)"
  let ?c = "ch_id cache" and ?ts = "rs_textures s"
  have ts: "rs_textures s' = ?ts @ es a" "rs_allocated s' = Suc (rs_allocated s)"
    unfolding s'_def allocate_def Let_def a_def by (simp_all, intro fold_update_new es(1) conjunct2 [OF es(2)])
  have stats: "cache_stats d s' = (if d = ?c then cache_stats d s\<lparr>st_resident_bytes := st_resident_bytes (cache_stats d s) + bytes,
      st_resident_tiles := st_resident_tiles (cache_stats d s) + length (es a)\<rparr> else cache_stats d s)" for d
    unfolding s'_def allocate_def Let_def a_def using namespace_entry_simps(5) by (auto simp: cache_stats_change)
  have wf: "textures_wf s" and cnt: "counted s" and lim: "under_limits limits s" using iv by (simp_all add: raster_inv_def)
  have old: "al_id (rt_allocation (snd e)) < rs_allocated s" if "e \<in> set ?ts" for e using wf that by (simp add: textures_wf_def)
  have new: "rt_allocation (snd e) = a" "fst (fst e) = ?c" if "e \<in> set (es a)" for e using es(2,3) that by (blast, metis imageI)
  have tiles: "tiles_of d (?ts @ es a) = tiles_of d ?ts @ (if d = ?c then es a else [])" for d
    using new(2) by (auto simp: tiles_of_def intro: filter_True filter_False)
  have wf': "textures_wf s'"
  proof -
    have "fst ` set ?ts \<inter> fst ` set (es a) = {}" using es(2) [of _ a] unfolding map_of_eq_None_iff by blast
    then have "distinct (map fst (?ts @ es a))" using wf es(1) by (simp add: textures_wf_def)
    moreover have "al_id (rt_allocation (snd e)) < Suc (rs_allocated s)" if "e \<in> set (?ts @ es a)" for e
    proof (cases "e \<in> set ?ts")
      case False
      then show ?thesis using that new(1) [of e] by (simp add: a_def)
    qed (simp add: old less_SucI)
    moreover have "rt_allocation (snd d) = rt_allocation (snd e) \<and> fst (fst d) = fst (fst e)"
      if "e \<in> set (?ts @ es a)" "d \<in> set (?ts @ es a)" "al_id (rt_allocation (snd d)) = al_id (rt_allocation (snd e))" for d e
    proof (cases "e \<in> set ?ts")
      case True
      then have "d \<in> set ?ts" using that new(1) [of d] old [of e] by (auto simp: a_def)
      then show ?thesis using True wf that(3) unfolding textures_wf_def by blast
    next
      case False
      then have "e \<in> set (es a)" using that(1) by simp
      moreover have "d \<in> set (es a)" using calculation that new(1) [of e] old [of d] by (auto simp: a_def)
      ultimately show ?thesis using new by simp
    qed
    ultimately show ?thesis unfolding textures_wf_def ts by blast
  qed
  have "a \<notin> allocations ?c ?ts"
  proof
    assume "a \<in> allocations ?c ?ts"
    then obtain e where "e \<in> set ?ts" "a = rt_allocation (snd e)" by (auto simp: allocations_def tiles_of_def)
    then have "al_id a < rs_allocated s" using old by simp
    then show False by (simp add: a_def)
  qed
  moreover have "allocations ?c (?ts @ es a) = insert a (allocations ?c ?ts)"
    using es(4) [of a] new(1) unfolding allocations_def tiles by (cases "es a") (auto simp: image_Un)
  ultimately have bytes: "allocated_bytes ?c (?ts @ es a) = allocated_bytes ?c ?ts + bytes"
    by (simp add: allocated_bytes_def a_def)
  have "counted s'" unfolding counted_def ts stats using cnt bytes
    by (auto simp: counted_def tiles allocated_bytes_def allocations_def)
  moreover have "under_limits limits s'" unfolding under_limits_def stats using lim room
    by (auto simp: under_limits_def resident_bytes_stats)
  ultimately show ?thesis using wf' unfolding s'_def raster_inv_def by blast
qed

section \<open>Namespaces\<close>

lemma map_of_filter_key: "map_of (filter (\<lambda>(d, _). P d) xs) c = (if P c then map_of xs c else None)"
  by (induction xs) auto

lemma forget_inv:
  assumes iv: "raster_inv limits s" shows "raster_inv limits (forget_cache c s)"
proof -
  let ?ts = "filter (\<lambda>(k, _). fst k \<noteq> c) (rs_textures s)"
  have ts: "tiles_of d ?ts = (if d = c then [] else tiles_of d (rs_textures s))" for d
    by (auto simp: tiles_of_def case_prod_beta intro!: filter_False filter_cong)
  have stats: "cache_stats d (forget_cache c s) = (if d = c then raster_stats_default else cache_stats d s)" for d
    by (simp add: cache_stats_def forget_cache_def map_of_filter_key)
  have "textures_wf s" using iv by (simp add: raster_inv_def)
  then have "textures_wf (forget_cache c s)"
    unfolding textures_wf_def forget_cache_def by (auto simp: distinct_map_filter)
  moreover have "counted (forget_cache c s)" using iv unfolding counted_def stats
    by (simp add: forget_cache_def ts raster_inv_def counted_def allocated_bytes_def allocations_def raster_stats_default_def)
  moreover have "under_limits limits (forget_cache c s)" using iv unfolding under_limits_def stats
    by (simp add: raster_inv_def under_limits_def raster_stats_default_def)
  ultimately show ?thesis by (simp add: raster_inv_def)
qed

lemma prune_inv: "raster_inv limits s \<Longrightarrow> raster_inv limits (prune_released alive s)"
proof -
  have "raster_inv limits s \<Longrightarrow> raster_inv limits (fold forget_cache cs s)" for cs s
    by (induction cs arbitrary: s) (auto intro: forget_inv)
  then show "raster_inv limits s \<Longrightarrow> raster_inv limits (prune_released alive s)" by (simp add: prune_released_def)
qed

lemma namespace_entry_inv: "raster_inv limits s \<Longrightarrow> raster_inv limits (namespace_entry cache s)"
  by (rule raster_inv_same) simp_all

lemma lookup_inv:
  assumes "raster_inv limits s"
  shows "raster_inv limits (snd (raster_tile_lookup alive cache key revision s))"
proof -
  define n where "n = namespace_entry cache (prune_released alive s)"
  have n: "raster_inv limits n" unfolding n_def using assms by (intro namespace_entry_inv prune_inv)
  have "raster_inv limits (change_stats c (\<lambda>st. st\<lparr>st_hits := Suc (st_hits st)\<rparr>) s')"
      "raster_inv limits (change_stats c (\<lambda>st. st\<lparr>st_misses := Suc (st_misses st)\<rparr>) s')"
    if "raster_inv limits s'" for c s'
    by (rule raster_inv_same [OF that]; simp add: cache_stats_change)+
  then show ?thesis using n touch_inv [OF n]
    by (simp add: raster_tile_lookup_def n_def [symmetric] Let_def split: option.split)
qed

section \<open>Preparing\<close>

lemma prepare_inv:
  assumes iv: "raster_inv limits s" and config: "ru_config u = limits (ch_id (ru_cache u))"
  shows "raster_inv limits (snd (prepare_raster_texture u protected s))"
proof (cases "texture_bytes (ru_config u) (ru_texture_size u)")
  case (Some bytes)
  define k where "k = (ch_id (ru_cache u), ru_key u, ru_revision u)"
  obtain ok s1 where room: "make_room (rc_hard (ru_config u)) (ch_id (ru_cache u)) bytes protected (remove_raster_texture k False s) = (ok, s1)"
    by fastforce
  have s1: "raster_inv limits s1" using make_room_inv [OF remove_inv [OF iv]] room by (metis snd_conv)
  have absent: "map_of (rs_textures s1) k = None"
    using make_room_absent [of "remove_raster_texture k False s" k] room by (metis delete_conv' fun_upd_same remove_simps(1) snd_conv)
  have fits: "resident_bytes (ch_id (ru_cache u)) s1 + bytes \<le> rc_hard (limits (ch_id (ru_cache u)))" if ok
    using make_room_makes_room room that config by (metis fst_conv snd_conv)
  have "raster_inv limits (snd (allocate (ru_cache u) bytes (\<lambda>a. [(k, \<lparr>rt_allocation = a, rt_source_origin = Point 0 0,
      rt_source_size = ru_texture_size u, rt_gutter = pixels_across (ru_gutter u), rt_last_used = rs_frame_index s1\<rparr>)]) s1))" if ok
    by (rule allocate_inv [OF s1]) (use absent fits [OF that] in \<open>auto simp: k_def\<close>)
  then show ?thesis using Some s1 touch_inv [OF iv, of k] room
    by (cases "reusable k (same_size (ru_texture_size u)) s") (auto simp: prepare_raster_texture_def Let_def k_def split: bool.split)
qed (use iv in \<open>simp add: prepare_raster_texture_def Let_def\<close>)

text \<open>The entries of a batch: new keys of its cache, if its targets are different tiles.\<close>

lemma batch_entries_inv:
  "raster_inv limits s \<Longrightarrow> raster_inv limits (snd (batch_entries b source z gs s))"
  by (induction b source z gs s rule: batch_entries.induct) (auto split: option.split intro: touch_inv remove_inv)

lemma batch_entries_keys:
  "fst (batch_entries b source z gs s) = Some es \<Longrightarrow> distinct (map (target_key b) gs) \<Longrightarrow>
    distinct (map fst es) \<and> set (map fst es) \<subseteq> set (map (target_key b) gs)"
proof (induction b source z gs s arbitrary: es rule: batch_entries.induct)
  case (2 b source z g gs s)
  show ?case
  proof (cases "reusable (target_key b g) (fits_target b) s")
    case None
    then obtain es' where es': "fst (batch_entries b source z gs (remove_raster_texture (target_key b g) False s)) = Some es'"
      "es = (target_key b g, target_origin source g) # es'" "\<not> target_outside b source z g"
      using 2(3) by (auto split: if_splits)
    have "distinct (map fst es') \<and> set (map fst es') \<subseteq> set (map (target_key b) gs)"
      using 2(1) [OF es'(3) None es'(1)] 2(4) by simp
    then show ?thesis using 2(4) unfolding es'(2) by (simp del: set_map) blast
  next
    case (Some t)
    then have "distinct (map fst es) \<and> set (map fst es) \<subseteq> set (map (target_key b) gs)"
      using 2(2) [OF _ Some] 2(3,4) by (auto split: if_splits)
    then show ?thesis by auto
  qed
qed simp

lemma batch_entries_keeps_absent:
  "map_of (rs_textures s) k = None \<Longrightarrow> map_of (rs_textures (snd (batch_entries b source z gs s))) k = None"
proof (induction b source z gs s rule: batch_entries.induct)
  case (2 b source z g gs s)
  have "map_of (rs_textures (touch j s)) k = None" "map_of (rs_textures (remove_raster_texture j c s)) k = None" for j c
    using 2(3) by (auto simp add: touch_map_of delete_conv')
  then show ?case using 2 by (simp split: option.split)
qed simp

lemma batch_entries_absent:
  "fst (batch_entries b source z gs s) = Some es \<Longrightarrow> k \<in> fst ` set es \<Longrightarrow>
    map_of (rs_textures (snd (batch_entries b source z gs s))) k = None"
proof (induction b source z gs s arbitrary: es rule: batch_entries.induct)
  case (2 b source z g gs s)
  show ?case
  proof (cases "reusable (target_key b g) (fits_target b) s")
    case None
    let ?s = "remove_raster_texture (target_key b g) False s"
    obtain es' where es': "fst (batch_entries b source z gs ?s) = Some es'" "es = (target_key b g, target_origin source g) # es'"
      using 2(3) None by (auto split: if_splits)
    have "map_of (rs_textures ?s) (target_key b g) = None" by (simp add: delete_conv')
    then have "map_of (rs_textures (snd (batch_entries b source z gs ?s))) (target_key b g) = None"
      by (rule batch_entries_keeps_absent)
    then show ?thesis using 2 None es' by (auto split: if_splits)
  next
    case (Some t)
    then show ?thesis using 2 by (auto split: if_splits)
  qed
qed simp

lemma prepare_batch_inv:
  assumes iv: "raster_inv limits s" and config: "rb_config b = limits (ch_id (rb_cache b))"
    and targets: "distinct (map (target_key b) (rb_targets b))"
  shows "raster_inv limits (snd (prepare_raster_batch_texture b source z protected s))"
proof (cases "texture_bytes (rb_config b) z")
  case (Some bytes)
  let ?c = "ch_id (rb_cache b)"
  obtain es s1 where entries: "batch_entries b source z (rb_targets b) s = (es, s1)" by fastforce
  have s1: "raster_inv limits s1" using batch_entries_inv [OF iv] entries by (metis snd_conv)
  obtain ok s2 where room: "make_room (rc_hard (rb_config b)) ?c bytes protected s1 = (ok, s2)" by fastforce
  have s2: "raster_inv limits s2" using make_room_inv [OF s1] room by (metis snd_conv)
  have fits: "resident_bytes ?c s2 + bytes \<le> rc_hard (limits ?c)" if ok
    using make_room_makes_room room that config by (metis fst_conv snd_conv)
  have "raster_inv limits (snd (allocate (rb_cache b) bytes (\<lambda>a. map (\<lambda>(k, origin). (k, \<lparr>rt_allocation = a, rt_source_origin = origin,
      rt_source_size = rb_texture_size b, rt_gutter = pixels_across (rb_gutter b), rt_last_used = rs_frame_index s2\<rparr>)) fs) s2))"
    if "es = Some fs" "fs \<noteq> []" ok for fs
  proof (rule allocate_inv [OF s2 _ _ _ _ fits [OF \<open>ok\<close>]])
    fix a k
    let ?es = "map (\<lambda>(k, origin). (k, \<lparr>rt_allocation = a, rt_source_origin = origin,
      rt_source_size = rb_texture_size b, rt_gutter = pixels_across (rb_gutter b), rt_last_used = rs_frame_index s2\<rparr>)) fs"
    have keys: "map fst ?es = map fst fs" by (simp add: case_prod_beta)
    have fs: "distinct (map fst fs)" "set (map fst fs) \<subseteq> set (map (target_key b) (rb_targets b))"
      using batch_entries_keys [of b source z "rb_targets b" s fs] entries targets that(1) by auto
    show "distinct (map fst ?es)" unfolding keys by (rule fs(1))
    assume "k \<in> fst ` set ?es"
    then have k: "k \<in> fst ` set fs" using keys by (metis set_map)
    have "map_of (rs_textures s1) k = None" using batch_entries_absent [of b source z "rb_targets b" s fs k] k entries that(1) by simp
    then have "map_of (rs_textures s2) k = None" using make_room_absent room by (metis snd_conv)
    moreover have "fst k = ?c" using k fs(2) by (auto simp: target_key_def)
    ultimately show "fst k = ?c \<and> map_of (rs_textures s2) k = None" by simp
  qed (use that in auto)
  then show ?thesis using Some s1 s2 entries room
    by (auto simp: prepare_raster_batch_texture_def split: option.split list.split bool.split)
qed (use iv in \<open>simp add: prepare_raster_batch_texture_def\<close>)

end
