(* ===== verification/Raster_Frames.thy ===== *)
theory Raster_Frames
  imports Raster_Residency
begin

text \<open>
  The store over its life: whatever sequence of lookups, releases, frames and evictions it goes
  through, its counters are exact; a frame never evicts what it composes; and the texture chosen
  for a batch holds all of its targets.
\<close>

section \<open>Reachable stores\<close>

text \<open>A cache has the limits of its handle, and the targets of a batch are different tiles.\<close>

inductive raster_reachable :: "(nat \<Rightarrow> raster_config) \<Rightarrow> raster_store \<Rightarrow> bool" for limits where
  start: "raster_reachable limits raster_store_new"
| lookup: "raster_reachable limits s \<Longrightarrow> raster_reachable limits (snd (raster_tile_lookup alive cache key revision s))"
| release: "raster_reachable limits s \<Longrightarrow> raster_reachable limits (release_raster_cache cache s)"
| next_frame: "raster_reachable limits s \<Longrightarrow> raster_reachable limits (s\<lparr>rs_frame_index := rs_frame_index s + 1\<rparr>)"
| update: "raster_reachable limits s \<Longrightarrow> ru_config u = limits (ch_id (ru_cache u)) \<Longrightarrow>
    raster_reachable limits (snd (prepare_raster_texture u protected s))"
| batch: "raster_reachable limits s \<Longrightarrow> rb_config b = limits (ch_id (rb_cache b)) \<Longrightarrow> distinct (map (target_key b) (rb_targets b)) \<Longrightarrow>
    raster_reachable limits (draw_batch protected (b :: rat raster_batch) s)"
| evict: "raster_reachable limits s \<Longrightarrow> raster_reachable limits (evict_over_soft (rc_soft (limits c)) c protected s)"

lemma draw_batch_inv:
  assumes "raster_inv limits s" "rb_config b = limits (ch_id (rb_cache b))" "distinct (map (target_key b) (rb_targets b))"
  shows "raster_inv limits (draw_batch protected b s)"
  using prepare_batch_inv [OF assms] assms(1) by (simp add: draw_batch_def Let_def split: option.split)

lemma raster_reachable_inv: "raster_reachable limits s \<Longrightarrow> raster_inv limits s"
proof (induction rule: raster_reachable.induct)
  case start
  then show ?case
    by (simp add: raster_inv_defs raster_store_new_def cache_stats_def raster_stats_default_def tiles_of_def
        allocated_bytes_def allocations_def)
next
  case (next_frame s)
  show ?case by (rule raster_inv_same [OF next_frame.IH]) simp_all
qed (auto intro: lookup_inv forget_inv prepare_inv draw_batch_inv make_room_inv simp: release_raster_cache_def evict_is_make_room)


section \<open>What eviction leaves\<close>

lemma no_candidate: "eviction_candidate c protected s = None \<Longrightarrow> (j, u) \<in> set (rs_textures s) \<Longrightarrow> fst j = c \<Longrightarrow> j \<in> protected"
  by (auto simp: eviction_candidate_def filter_empty_conv split: list.splits)

lemma make_room_subset: "set (rs_textures (snd (make_room hard c bytes protected s))) \<subseteq> set (rs_textures s)"
  by (rule make_room_keeps) (auto simp: AList.delete_eq)

lemma make_room_fails:
  "\<not> fst (make_room hard c bytes protected s) \<Longrightarrow> hard < resident_bytes c (snd (make_room hard c bytes protected s)) + bytes \<and>
    (\<forall>(j, u) \<in> set (rs_textures (snd (make_room hard c bytes protected s))). fst j = c \<longrightarrow> j \<in> protected)"
proof (induction hard c bytes protected s rule: make_room.induct)
  case (1 hard c bytes protected s)
  show ?case
  proof (cases "eviction_candidate c protected s")
    case None
    then show ?thesis using 1(2) no_candidate [OF None]
      by (subst (asm) make_room.simps, subst make_room.simps, subst make_room.simps) (auto split: if_splits)
  next
    case (Some k)
    have "hard < resident_bytes c s + bytes" using 1(2) by (subst (asm) make_room.simps) (simp split: if_splits)
    moreover from this Some have step: "make_room hard c bytes protected s = make_room hard c bytes protected (remove_raster_texture k True s)"
      by (subst make_room.simps) simp
    ultimately show ?thesis using 1 Some by simp
  qed
qed

lemma make_room_least_recent:
  "distinct (map fst (rs_textures s)) \<Longrightarrow> e \<in> set (rs_textures s) \<Longrightarrow> e \<notin> set (rs_textures (snd (make_room hard c bytes protected s))) \<Longrightarrow>
    fst e \<notin> protected \<and> fst (fst e) = c \<and>
    (\<forall>d \<in> set (rs_textures (snd (make_room hard c bytes protected s))). fst (fst d) = c \<longrightarrow> fst d \<notin> protected \<longrightarrow>
      rt_last_used (snd e) \<le> rt_last_used (snd d))"
proof (induction hard c bytes protected s rule: make_room.induct)
  case (1 hard c bytes protected s)
  have over: "hard < resident_bytes c s + bytes" using 1(3,4) by (subst (asm) make_room.simps) (simp split: if_splits)
  obtain k where k: "eviction_candidate c protected s = Some k"
    using 1(3,4) over by (subst (asm) make_room.simps) (cases "eviction_candidate c protected s"; simp)
  let ?s = "remove_raster_texture k True s"
  have step: "make_room hard c bytes protected s = make_room hard c bytes protected ?s" using over k by (subst make_room.simps) simp
  show ?case
  proof (cases "e \<in> set (rs_textures ?s)")
    case True
    have "distinct (map fst (rs_textures ?s))" using 1(2) by (simp add: distinct_delete)
    from 1(1) [OF over k this True] 1(4) show ?thesis unfolding step by blast
  next
    case False
    then have "fst e = k" using 1(3) by (auto simp: AList.delete_eq)
    obtain t where t: "(k, t) \<in> set (rs_textures s)" "fst k = c" "k \<notin> protected"
      "\<And>j u. (j, u) \<in> set (rs_textures s) \<Longrightarrow> fst j = c \<Longrightarrow> j \<notin> protected \<Longrightarrow> rt_last_used t \<le> rt_last_used u"
      using candidate_in [OF k] by blast
    have "snd e = t" using eq_key_imp_eq_value [OF 1(2) t(1)] 1(3) \<open>fst e = k\<close> by (metis prod.collapse)
    then show ?thesis using t \<open>fst e = k\<close> make_room_subset [of hard c bytes protected s] by fastforce
  qed
qed




section \<open>A frame keeps its tiles\<close>








section \<open>What a prepared texture is\<close>

lemma touch_set: "set (rs_textures (touch k s)) =
    (\<lambda>(j, t). (j, if j = k then t\<lparr>rt_last_used := rs_frame_index s\<rparr> else t)) ` set (rs_textures s)"
  by (simp add: touch_def)

lemma touch_keeps_others: "e \<in> set (rs_textures s) \<Longrightarrow> fst e \<noteq> k \<Longrightarrow> e \<in> set (rs_textures (touch k s))"
  unfolding touch_set by (cases e, rule image_eqI [where x = e]) simp_all

text \<open>What making room evicts was used no later than what could be evicted and stays.\<close>

lemma evicted_least_recent:
  assumes "distinct (map fst (rs_textures s))" and "make_room limit c bytes protected (remove_raster_texture k False s) = (ok, s1)"
    and "e \<in> set (rs_textures s)" and "fst e \<noteq> k" and "e \<notin> set (rs_textures s1)"
  shows "fst e \<notin> protected \<and> fst (fst e) = c \<and> (\<forall>d \<in> set (rs_textures s1). fst (fst d) = c \<longrightarrow> fst d \<notin> protected \<longrightarrow>
    rt_last_used (snd e) \<le> rt_last_used (snd d))"
proof -
  have "e \<in> set (rs_textures (remove_raster_texture k False s))" using assms(3,4) by (auto simp: AList.delete_eq)
  from make_room_least_recent [OF _ this, of limit c bytes protected, unfolded assms(2) snd_conv]
  show ?thesis using assms(1,5) by (simp add: distinct_delete)
qed

lemma room_without_key:
  "make_room limit c bytes protected (remove_raster_texture k False s) = (ok, s1) \<Longrightarrow> k \<notin> fst ` set (rs_textures s1)"
  using make_room_subset [of limit c bytes protected "remove_raster_texture k False s"] by (auto simp: AList.delete_eq)

lemma allocate_single:
  assumes "k \<notin> fst ` set (rs_textures s)"
  shows "rs_textures (snd (allocate cache bytes (\<lambda>a. [(k, t a)]) s)) = rs_textures s @ [(k, t (fst (allocate cache bytes (\<lambda>a. [(k, t a)]) s)))]"
  using assms fold_update_new [of "[(k, v)]" "rs_textures s" for v] by (auto simp: allocate_def Let_def map_of_eq_None_iff)

text \<open>
  C28. Preparing a texture gives up only if the size is empty or over the limit, or if all that the
  cache is left with is protected and there is no room beside it.  Otherwise the tile is
  in the store afterwards, with the texture returned.  Either way a tile that was evicted was
  unprotected and of the same cache, and it was used no later than any such tile that stayed.
\<close>

theorem prepare_outcome:
  assumes "raster_reachable limits s" and "prepare_raster_texture u protected s = (result, s')"
    and "k = (ch_id (ru_cache u), ru_key u, ru_revision u)"
  shows "(case result of
      None \<Rightarrow> (case texture_bytes (ru_config u) (ru_texture_size u) of
          None \<Rightarrow> s' = s
        | Some bytes \<Rightarrow> rc_hard (ru_config u) < resident_bytes (fst k) s' + bytes \<and>
            (\<forall>e \<in> set (rs_textures s'). fst (fst e) = fst k \<longrightarrow> fst e \<in> protected))
    | Some a \<Rightarrow> \<exists>t. map_of (rs_textures s') k = Some t \<and> rt_allocation t = a \<and> same_size (ru_texture_size u) t) \<and>
    (\<forall>e \<in> set (rs_textures s). fst e \<noteq> k \<longrightarrow> e \<notin> set (rs_textures s') \<longrightarrow>
       fst e \<notin> protected \<and> fst (fst e) = fst k \<and>
       (\<forall>d \<in> set (rs_textures s'). fst (fst d) = fst k \<longrightarrow> fst d \<noteq> k \<longrightarrow> fst d \<notin> protected \<longrightarrow>
          rt_last_used (snd e) \<le> rt_last_used (snd d)))"
proof (cases "texture_bytes (ru_config u) (ru_texture_size u)")
  case None
  then show ?thesis using assms(2) by (simp add: prepare_raster_texture_def Let_def)
next
  case (Some bytes)
  have distinct: "distinct (map fst (rs_textures s))" using raster_reachable_inv [OF assms(1)] by (simp add: raster_inv_def textures_wf_def)
  show ?thesis
  proof (cases "reusable k (same_size (ru_texture_size u)) s")
    case (Some t)
    then have "s' = touch k s" "result = Some (rt_allocation t)" "map_of (rs_textures s) k = Some t" "same_size (ru_texture_size u) t"
      using assms(2,3) \<open>texture_bytes _ _ = _\<close> by (auto simp: prepare_raster_texture_def reusable_def split: option.splits if_splits)
    then show ?thesis by (auto simp: touch_map_of same_size_def intro: touch_keeps_others)
  next
    case None
    obtain ok s1 where room: "make_room (rc_hard (ru_config u)) (fst k) bytes protected (remove_raster_texture k False s) = (ok, s1)"
      by fastforce
    note lru = evicted_least_recent [OF distinct room] and k = room_without_key [OF room]
    show ?thesis
    proof (cases ok)
      case True
      define t where "t = (\<lambda>a. \<lparr>rt_allocation = a, rt_source_origin = Point 0 0, rt_source_size = ru_texture_size u,
        rt_gutter = pixels_across (ru_gutter u), rt_last_used = rs_frame_index s1\<rparr>)"
      have "(result, s') = apfst Some (allocate (ru_cache u) bytes (\<lambda>a. [(k, t a)]) s1)"
        using assms(2,3) True None \<open>texture_bytes _ _ = _\<close> room by (simp add: prepare_raster_texture_def Let_def t_def)
      then have r: "result = Some (fst (allocate (ru_cache u) bytes (\<lambda>a. [(k, t a)]) s1))"
        "rs_textures s' = rs_textures s1 @ [(k, t (fst (allocate (ru_cache u) bytes (\<lambda>a. [(k, t a)]) s1)))]"
        using allocate_single [OF k, of "ru_cache u" bytes t] by (auto simp: prod_eq_iff)
      have "map_of (rs_textures s1) k = None" using k by (simp add: map_of_eq_None_iff)
      then show ?thesis using lru unfolding r by (auto simp: map_add_def t_def same_size_def)
    next
      case False
      then have "result = None" "s' = s1"
        using assms(2,3) None \<open>texture_bytes _ _ = _\<close> room by (simp_all add: prepare_raster_texture_def Let_def)
      moreover have "rc_hard (ru_config u) < resident_bytes (fst k) s1 + bytes \<and> (\<forall>e \<in> set (rs_textures s1). fst (fst e) = fst k \<longrightarrow> fst e \<in> protected)"
        using make_room_fails [of "rc_hard (ru_config u)" "fst k" bytes protected "remove_raster_texture k False s"] room False by force
      ultimately show ?thesis using lru \<open>texture_bytes _ _ = _\<close> by auto
    qed
  qed
qed

section \<open>The texture of a batch\<close>

lemma covered_ge: "k \<in> set ks \<Longrightarrow> k \<le> covered ks"
proof -
  have "m \<le> fold max ks m \<and> (\<forall>k \<in> set ks. k \<le> fold max ks m)" for ks and m :: int
    by (induction ks arbitrary: m) (auto, (meson max.bounded_iff)+)
  then show "k \<in> set ks \<Longrightarrow> k \<le> covered ks" by (cases ks) (auto simp: covered_def)
qed

lemma union_origin_le:
  "b \<in> set (x # xs) \<Longrightarrow> pt_x (bd_origin (foldl bounds_union x xs)) \<le> pt_x (bd_origin b) \<and>
     pt_y (bd_origin (foldl bounds_union x xs)) \<le> pt_y (bd_origin b)"
proof (induction xs arbitrary: x b)
  case (Cons y xs)
  have "pt_x (bd_origin (bounds_union x y)) \<le> min (pt_x (bd_origin x)) (pt_x (bd_origin y))"
    "pt_y (bd_origin (bounds_union x y)) \<le> min (pt_y (bd_origin x)) (pt_y (bd_origin y))"
    by (auto simp: bounds_union_def from_corners_def point_min_def)
  moreover note Cons.IH [of "bounds_union x y" "bounds_union x y"] Cons.IH [of b "bounds_union x y"] Cons.prems
  ultimately show ?case by auto
qed simp

lemma as_i32_mono: "0 \<le> k \<Longrightarrow> 0 \<le> as_i32 k"
  by (simp add: as_i32_def)

lemma as_i32_sum: "- (2 ^ 31) \<le> k \<Longrightarrow> as_i32 k \<le> k"
  by (simp add: as_i32_def)

lemma round_away_nonneg: "0 \<le> x \<Longrightarrow> 0 \<le> round_away x"
  by (simp add: round_away_def)

text \<open>
  The texture whose size is chosen for the targets of a batch holds each of them, so the check
  that refuses a batch with a target outside its texture never fails.
\<close>

theorem batch_targets_fit:
  assumes "source_union b = Some source" and "g \<in> set (rb_targets b)"
    and "- (2 ^ 31) \<le> sz_width (rb_texture_size b)" and "- (2 ^ 31) \<le> sz_height (rb_texture_size b)"
  shows "\<not> target_outside b source (batch_texture_size b source) g"
proof -
  have "tg_source_bounds g \<in> set (map tg_source_bounds (rb_targets b))" using assms(2) by simp
  then have "pt_x (bd_origin source) \<le> pt_x (bd_origin (tg_source_bounds g)) \<and> pt_y (bd_origin source) \<le> pt_y (bd_origin (tg_source_bounds g))"
    using assms(1) union_origin_le unfolding source_union_def by (cases "map tg_source_bounds (rb_targets b)") auto
  then have origin: "0 \<le> pt_x (target_origin source g)" "0 \<le> pt_y (target_origin source g)"
    unfolding target_origin_def by (simp_all add: as_i32_mono round_away_nonneg)
  have "pt_x (target_origin source g) + sz_width (rb_texture_size b) \<le> sz_width (batch_texture_size b source)"
    "pt_y (target_origin source g) + sz_height (rb_texture_size b) \<le> sz_height (batch_texture_size b source)"
    unfolding batch_texture_size_def Let_def using assms(2) by (auto intro!: max.coboundedI2 covered_ge)
  then show ?thesis using origin assms(3,4)
      as_i32_sum [of "pt_x (target_origin source g) + sz_width (rb_texture_size b)"]
      as_i32_sum [of "pt_y (target_origin source g) + sz_height (rb_texture_size b)"]
    by (simp add: target_outside_def)
qed

section \<open>An example\<close>

definition small_cache :: cache_handle where
  "small_cache = \<lparr>ch_id = 1, ch_config = \<lparr>rc_soft = 300, rc_hard = 700\<rparr>\<rparr>"

definition small_update :: "nat \<Rightarrow> nat \<Rightarrow> raster_update" where
  "small_update key revision = \<lparr>ru_cache = small_cache, ru_config = ch_config small_cache, ru_key = key, ru_revision = revision,
     ru_texture_size = Size 8 8, ru_gutter = 1\<rparr>"

text \<open>Three tiles of 256 bytes: the third needs the room of the first.\<close>

definition one_tile :: raster_store where
  "one_tile = snd (prepare_raster_texture (small_update 10 1) {} raster_store_new)"

definition two_tiles :: raster_store where
  "two_tiles = snd (prepare_raster_texture (small_update 20 1) {} (one_tile\<lparr>rs_frame_index := rs_frame_index one_tile + 1\<rparr>))"

definition small_tile :: "nat \<Rightarrow> nat \<Rightarrow> raster_texture" where
  "small_tile a frame = \<lparr>rt_allocation = \<lparr>al_id = a, al_bytes = 256\<rparr>, rt_source_origin = Point 0 0, rt_source_size = Size 8 8,
     rt_gutter = 1, rt_last_used = frame\<rparr>"

lemmas small_defs = Let_def small_update_def small_cache_def prepare_raster_texture_def texture_bytes_def checked_mul_def pixels_across_def
  reusable_def remove_raster_texture_def resident_bytes_def eviction_candidate_def allocate_def
  change_stats_def namespace_entry_def raster_namespace_new_def raster_stats_default_def removal_stats_def shares_def
  same_size_def touch_def

lemma allocate_fst: "fst (allocate cache bytes es s) = \<lparr>al_id = rs_allocated s, al_bytes = bytes\<rparr>"
  by (simp add: allocate_def Let_def)

lemma allocate_rs_textures: "rs_textures (snd (allocate cache bytes es s)) =
    fold (\<lambda>(k, t). AList.update k t) (es \<lparr>al_id = rs_allocated s, al_bytes = bytes\<rparr>) (rs_textures s)"
  by (simp add: allocate_def Let_def)

lemma make_room_enough: "resident_bytes c s + bytes \<le> hard \<Longrightarrow> make_room hard c bytes protected s = (True, s)"
  by (subst make_room.simps) simp

lemma make_room_evicts: "hard < resident_bytes c s + bytes \<Longrightarrow> eviction_candidate c protected s = Some k \<Longrightarrow>
    make_room hard c bytes protected s = make_room hard c bytes protected (remove_raster_texture k True s)"
  by (subst make_room.simps) simp

lemma two_tiles_eq: "two_tiles = \<lparr>rs_textures = [((1, 10, 1), small_tile 0 0), ((1, 20, 1), small_tile 1 1)],
   rs_namespaces = [(1, \<lparr>ns_owner = 1, ns_stats = raster_stats_default\<lparr>st_resident_bytes := 512, st_resident_tiles := 2\<rparr>,
     ns_comparisons = comparison_default\<rparr>)], rs_frame_index = 1, rs_allocated = 2\<rparr>"
  by (simp add: two_tiles_def one_tile_def raster_store_new_def make_room_enough small_defs small_tile_def)

lemma two_tiles_reachable: "raster_reachable (\<lambda>_. ch_config small_cache) two_tiles"
  unfolding two_tiles_def one_tile_def
  by (intro raster_reachable.intros) (simp_all add: small_update_def)


definition third_tile :: "raster_allocation option \<times> raster_store" where
  "third_tile = prepare_raster_texture (small_update 30 1) {} two_tiles"

lemma prepare_outcome_witness:
  "fst (fst (hd (rs_textures two_tiles))) = 1 \<and> hd (rs_textures two_tiles) \<notin> set (rs_textures (snd third_tile)) \<and>
   rt_last_used (snd (hd (rs_textures two_tiles))) \<le> rt_last_used (small_tile 1 1)"
proof -
  let ?s = "remove_raster_texture (1, 10, 1) True two_tiles"
  have "eviction_candidate 1 {} two_tiles = Some (1, 10, 1)" "resident_bytes 1 two_tiles = 512"
    by (simp_all add: eviction_candidate_def resident_bytes_def two_tiles_eq small_tile_def)
  then have "make_room 700 1 256 {} two_tiles = make_room 700 1 256 {} ?s" by (intro make_room_evicts) simp_all
  also have "\<dots> = (True, ?s)" by (rule make_room_enough) (simp add: two_tiles_eq small_defs small_tile_def)
  finally have room: "make_room 700 (Suc 0) 256 {} two_tiles = (True, ?s)" by simp
  have absent: "map_of (rs_textures two_tiles) (Suc 0, 30, Suc 0) = None" by (simp add: two_tiles_eq)
  have eq: "third_tile = apfst Some (allocate small_cache 256 (\<lambda>a. [((1, 30, 1), small_tile 2 1\<lparr>rt_allocation := a\<rparr>)]) ?s)"
    using room remove_absent [OF absent] absent unfolding third_tile_def prepare_raster_texture_def
    by (simp add: small_update_def small_cache_def texture_bytes_def checked_mul_def pixels_across_def reusable_def Let_def
        small_tile_def two_tiles_eq [THEN arg_cong, of rs_frame_index])
  have fields: "rs_allocated two_tiles = 2" "rs_textures two_tiles = [((1, 10, 1), small_tile 0 0), ((1, 20, 1), small_tile 1 1)]"
    by (simp_all add: two_tiles_eq)
  have "fst third_tile = Some \<lparr>al_id = 2, al_bytes = 256\<rparr>" unfolding eq fst_apfst allocate_fst remove_simps fields ..
  then have third: "third_tile = (Some \<lparr>al_id = 2, al_bytes = 256\<rparr>, snd third_tile)" by (metis prod.collapse)
  have textures: "rs_textures (snd third_tile) = [((1, 20, 1), small_tile 1 1), ((1, 30, 1), small_tile 2 1)]"
    unfolding eq snd_apfst allocate_rs_textures remove_simps fields by (simp add: small_tile_def)
  have hd: "hd (rs_textures two_tiles) = ((1, 10, 1), small_tile 0 0)" by (simp add: fields)
  from prepare_outcome [OF two_tiles_reachable third [unfolded third_tile_def] refl, folded third_tile_def]
  have "\<forall>e \<in> set (rs_textures two_tiles). fst e \<noteq> (1, 30, 1) \<longrightarrow> e \<notin> set (rs_textures (snd third_tile)) \<longrightarrow>
      fst (fst e) = 1 \<and> (\<forall>d \<in> set (rs_textures (snd third_tile)). fst (fst d) = 1 \<longrightarrow> fst d \<noteq> (1, 30, 1) \<longrightarrow>
        rt_last_used (snd e) \<le> rt_last_used (snd d))"
    by (simp add: small_update_def small_cache_def)
  from bspec [OF this, of "hd (rs_textures two_tiles)"]
  show ?thesis unfolding hd textures fields by (simp add: small_tile_def)
qed



text \<open>Two tiles side by side in one texture.\<close>

definition small_batch :: "rat raster_batch" where
  "small_batch = \<lparr>rb_cache = small_cache, rb_config = ch_config small_cache, rb_texture_size = Size 8 8, rb_gutter = 1,
     rb_targets = [\<lparr>tg_key = 40, tg_revision = 1, tg_source_bounds = Bounds (Point 6 0) (Size 6 6)\<rparr>,
       \<lparr>tg_key = 50, tg_revision = 1, tg_source_bounds = Bounds (Point 0 0) (Size 6 6)\<rparr>], rb_tiles = []\<rparr>"

lemma small_batch_source: "source_union small_batch = Some (Bounds (Point 0 0) (Size 12 6))"
  by (simp add: source_union_def small_batch_def bounds_union_def from_corners_def point_min_def point_max_def bottom_right_def)

lemma batch_targets_fit_witness:
  "\<not> target_outside small_batch (Bounds (Point 0 0) (Size 12 6)) (batch_texture_size small_batch (Bounds (Point 0 0) (Size 12 6)))
     (hd (rb_targets small_batch))"
  by (rule batch_targets_fit [OF small_batch_source]) (simp_all add: small_batch_def)

section \<open>Two things the code does not do\<close>

text \<open>A batch with a target twice counts it twice, and the counter stays too high.\<close>

lemma repeated_target_counted_twice:
  "let s = draw_batch {} (small_batch\<lparr>rb_targets := [hd (rb_targets small_batch), hd (rb_targets small_batch)]\<rparr>) raster_store_new
   in st_resident_tiles (raster_cache_stats small_cache s) = 2 \<and> length (rs_textures s) = 1"
  by (simp add: draw_batch_def Let_def source_union_def small_batch_def bounds_union_def from_corners_def point_min_def point_max_def
      bottom_right_def batch_texture_size_def covered_def target_origin_def round_away_def as_i32_def prepare_raster_batch_texture_def
      target_outside_def target_key_def raster_store_new_def make_room_enough small_defs raster_cache_stats_def)

text \<open>An update with another gutter but the same size reuses the tile and keeps its old gutter.\<close>

lemma update_keeps_old_gutter:
  "(case prepare_raster_texture (small_update 10 1\<lparr>ru_gutter := 3\<rparr>) {} two_tiles of
     (a, s) \<Rightarrow> a \<noteq> None \<and> map_option rt_gutter (map_of (rs_textures s) (1, 10, 1)) = Some 1)"
  by (simp add: two_tiles_eq small_defs small_tile_def)

end
