(* ===== verification/System_Tabs.thy ===== *)
theory System_Tabs
  imports Prelude "HOL-Library.AList" "HOL-Library.Multiset"
begin

text \<open>
  The groups of native window tabs, \<open>SystemWindowTabController\<close> of \<open>src/src/app.rs\<close>.  The hash map
  of groups is the list of its entries in the order it iterates over them; instants are numbers; a
  window is activated by its handle, which the selecting functions return.
\<close>

section \<open>State\<close>

record window_handle =
  wh_id :: nat
  wh_type :: nat

record window_tab =
  wt_id :: nat
  wt_title :: string
  wt_handle :: window_handle
  wt_last_active :: nat

definition window_tab_new :: "nat \<Rightarrow> string \<Rightarrow> window_handle \<Rightarrow> window_tab" where
  "window_tab_new now title handle = \<lparr>wt_id = wh_id handle, wt_title = title, wt_handle = handle, wt_last_active = now\<rparr>"

record tab_controller =
  tc_visible :: "bool option"
  tc_groups :: "(nat \<times> window_tab list) list"

definition tab_controller_new :: tab_controller where
  "tab_controller_new = \<lparr>tc_visible = None, tc_groups = []\<rparr>"

section \<open>Operations\<close>

definition has_tab :: "nat \<Rightarrow> window_tab list \<Rightarrow> bool" where
  "has_tab w ts \<longleftrightarrow> list_ex (\<lambda>t. wt_id t = w) ts"

definition group_of :: "nat \<Rightarrow> tab_controller \<Rightarrow> nat option" where
  "group_of w c = map_option fst (List.find (\<lambda>(_, ts). has_tab w ts) (tc_groups c))"

definition tabs :: "nat \<Rightarrow> tab_controller \<Rightarrow> window_tab list option" where
  "tabs w c = Option.bind (group_of w c) (map_of (tc_groups c))"

text \<open>\<open>max_by_key\<close> returns the last of several greatest elements.\<close>

definition most_recent :: "window_tab list \<Rightarrow> window_tab option" where
  "most_recent ts = (case ts of [] \<Rightarrow> None
     | t # ts \<Rightarrow> Some (foldl (\<lambda>m t. if wt_last_active m \<le> wt_last_active t then t else m) t ts))"

definition group_window :: "nat \<Rightarrow> tab_controller \<Rightarrow> window_handle option" where
  "group_window i c = Option.bind (map_of (tc_groups c) (map fst (tc_groups c) ! i)) (\<lambda>ts. map_option wt_handle (most_recent ts))"

definition position :: "('a \<Rightarrow> bool) \<Rightarrow> 'a list \<Rightarrow> nat option" where
  "position P xs = (if list_ex P xs then Some (length (takeWhile (\<lambda>x. \<not> P x) xs)) else None)"

definition next_index :: "nat \<Rightarrow> nat \<Rightarrow> nat" where
  "next_index n i = (i + 1) mod n"

definition prev_index :: "nat \<Rightarrow> nat \<Rightarrow> nat" where
  "prev_index n i = (if i = 0 then n - 1 else i - 1)"

definition get_next_tab_group_window :: "nat \<Rightarrow> tab_controller \<Rightarrow> window_handle option" where
  "get_next_tab_group_window w c = Option.bind (group_of w c) (\<lambda>g. Option.bind (position (\<lambda>h. h = g) (map fst (tc_groups c)))
     (\<lambda>i. group_window (next_index (length (tc_groups c)) i) c))"

definition get_prev_tab_group_window :: "nat \<Rightarrow> tab_controller \<Rightarrow> window_handle option" where
  "get_prev_tab_group_window w c = Option.bind (group_of w c) (\<lambda>g. Option.bind (position (\<lambda>h. h = g) (map fst (tc_groups c)))
     (\<lambda>i. group_window (prev_index (length (tc_groups c)) i) c))"

definition init_visible :: "bool \<Rightarrow> tab_controller \<Rightarrow> tab_controller" where
  "init_visible v c = (if tc_visible c = None then c\<lparr>tc_visible := Some v\<rparr> else c)"

definition tabs_visible :: "tab_controller \<Rightarrow> bool" where
  "tabs_visible c = (case tc_visible c of None \<Rightarrow> False | Some v \<Rightarrow> v)"

definition set_visible :: "bool \<Rightarrow> tab_controller \<Rightarrow> tab_controller" where
  "set_visible v c = c\<lparr>tc_visible := Some v\<rparr>"

definition update_last_active :: "nat \<Rightarrow> nat \<Rightarrow> tab_controller \<Rightarrow> tab_controller" where
  "update_last_active now w c = c\<lparr>tc_groups := map (\<lambda>(g, ts). (g, map (\<lambda>t. if wt_id t = w then t\<lparr>wt_last_active := now\<rparr> else t) ts)) (tc_groups c)\<rparr>"

text \<open>The first entry that satisfies \<open>P\<close> is changed.\<close>

fun change_first :: "('a \<Rightarrow> bool) \<Rightarrow> ('a \<Rightarrow> 'a) \<Rightarrow> 'a list \<Rightarrow> 'a list" where
  "change_first P f [] = []"
| "change_first P f (x # xs) = (if P x then f x # xs else x # change_first P f xs)"

definition move_within :: "nat \<Rightarrow> nat \<Rightarrow> window_tab list \<Rightarrow> window_tab list" where
  "move_within w ix ts =
     (case position (\<lambda>t. wt_id t = w) ts of
        None \<Rightarrow> ts
      | Some pos \<Rightarrow>
         if ix < length ts \<and> pos \<noteq> ix
         then let others = take pos ts @ drop (Suc pos) ts in take ix others @ ts ! pos # drop ix others
         else ts)"

definition update_tab_position :: "nat \<Rightarrow> nat \<Rightarrow> tab_controller \<Rightarrow> tab_controller" where
  "update_tab_position w ix c =
     c\<lparr>tc_groups := change_first (\<lambda>(_, ts). has_tab w ts) (\<lambda>(g, ts). (g, move_within w ix ts)) (tc_groups c)\<rparr>"

definition update_tab_title :: "nat \<Rightarrow> string \<Rightarrow> tab_controller \<Rightarrow> tab_controller" where
  "update_tab_title w title c =
     (case List.find (\<lambda>t. wt_id t = w) (concat (map snd (tc_groups c))) of
        None \<Rightarrow> c
      | Some t \<Rightarrow>
         if wt_title t = title then c
         else c\<lparr>tc_groups := change_first (\<lambda>(_, ts). has_tab w ts)
           (\<lambda>(g, ts). (g, change_first (\<lambda>t. wt_id t = w) (\<lambda>t. t\<lparr>wt_title := title\<rparr>) ts)) (tc_groups c)\<rparr>)"

definition add_tab :: "nat \<Rightarrow> window_tab list \<Rightarrow> tab_controller \<Rightarrow> tab_controller" where
  "add_tab w ts c =
     (case List.find (\<lambda>t. wt_id t = w) ts of
        None \<Rightarrow> c
      | Some t \<Rightarrow>
         (let expected = sort (map wt_id (filter (\<lambda>t. wt_id t \<noteq> w) ts)) in
          case List.find (\<lambda>(_, us). sort (map wt_id us) = expected) (tc_groups c) of
            Some (g, _) \<Rightarrow> c\<lparr>tc_groups := change_first (\<lambda>(h, _). h = g) (\<lambda>(h, us). (h, us @ [t])) (tc_groups c)\<rparr>
          | None \<Rightarrow> c\<lparr>tc_groups := AList.update (length (tc_groups c)) ts (tc_groups c)\<rparr>))"

definition remove_first :: "nat \<Rightarrow> window_tab list \<Rightarrow> window_tab list" where
  "remove_first w ts = (case position (\<lambda>t. wt_id t = w) ts of None \<Rightarrow> ts | Some i \<Rightarrow> take i ts @ drop (Suc i) ts)"

definition remove_tab :: "nat \<Rightarrow> tab_controller \<Rightarrow> window_tab option \<times> tab_controller" where
  "remove_tab w c =
     (foldl (\<lambda>removed (_, ts). case List.find (\<lambda>t. wt_id t = w) ts of None \<Rightarrow> removed | Some t \<Rightarrow> Some t) None (tc_groups c),
      c\<lparr>tc_groups := filter (\<lambda>(_, ts). ts \<noteq> []) (map (\<lambda>(g, ts). (g, remove_first w ts)) (tc_groups c))\<rparr>)"

definition fresh_group :: "tab_controller \<Rightarrow> nat" where
  "fresh_group c = (case map fst (tc_groups c) of [] \<Rightarrow> 0 | g # gs \<Rightarrow> fold max gs g + 1)"

definition move_tab_to_new_window :: "nat \<Rightarrow> tab_controller \<Rightarrow> tab_controller" where
  "move_tab_to_new_window w c =
     (case remove_tab w c of
        (None, c) \<Rightarrow> c
      | (Some t, c) \<Rightarrow> c\<lparr>tc_groups := AList.update (fresh_group c) [t] (tc_groups c)\<rparr>)"

definition merge_all_windows :: "nat \<Rightarrow> tab_controller \<Rightarrow> tab_controller" where
  "merge_all_windows w c =
     (case tabs w c of
        None \<Rightarrow> c
      | Some initial \<Rightarrow>
         c\<lparr>tc_groups := [(0, initial @ concat (map (\<lambda>(_, ts). filter (\<lambda>t. t \<notin> set initial) ts) (tc_groups c)))]\<rparr>)"

text \<open>The handle of the window to activate; indexing cannot fail as the group has the window.\<close>

definition select_next_tab :: "nat \<Rightarrow> tab_controller \<Rightarrow> window_handle option" where
  "select_next_tab w c = Option.bind (tabs w c) (\<lambda>ts. Option.bind (position (\<lambda>t. wt_id t = w) ts)
     (\<lambda>i. Some (wt_handle (ts ! next_index (length ts) i))))"

definition select_previous_tab :: "nat \<Rightarrow> tab_controller \<Rightarrow> window_handle option" where
  "select_previous_tab w c = Option.bind (tabs w c) (\<lambda>ts. Option.bind (position (\<lambda>t. wt_id t = w) ts)
     (\<lambda>i. Some (wt_handle (ts ! prev_index (length ts) i))))"

section \<open>The invariant\<close>

definition window_ids :: "tab_controller \<Rightarrow> nat list" where
  "window_ids c = concat (map (\<lambda>(_, ts). map wt_id ts) (tc_groups c))"

definition tabs_wf :: "tab_controller \<Rightarrow> bool" where
  "tabs_wf c \<longleftrightarrow> distinct (map fst (tc_groups c)) \<and> distinct (window_ids c) \<and>
     (\<forall>(g, ts) \<in> set (tc_groups c). ts \<noteq> [] \<and> (\<forall>t \<in> set ts. wh_id (wt_handle t) = wt_id t))"

lemma change_first_cases:
  obtains "\<forall>x \<in> set xs. \<not> P x" "change_first P f xs = xs"
  | ys x zs where "xs = ys @ x # zs" "P x" "change_first P f xs = ys @ f x # zs"
proof (induction xs arbitrary: thesis)
  case (Cons a xs)
  show ?case
  proof (cases "P a")
    case True
    then show ?thesis using Cons.prems(2) [of "[]"] by simp
  next
    case False
    show ?thesis by (rule Cons.IH) (use False Cons.prems(1) Cons.prems(2) [of "a # _"] in auto)
  qed
qed simp

lemma change_first_none: "\<forall>x \<in> set xs. \<not> P x \<Longrightarrow> change_first P f xs = xs"
  by (induction xs) auto

lemma position_split: "position P xs = Some i \<longleftrightarrow> (\<exists>ys x zs. xs = ys @ x # zs \<and> P x \<and> (\<forall>y \<in> set ys. \<not> P y) \<and> i = length ys)"
proof
  assume "position P xs = Some i"
  then have "list_ex P xs" and i: "i = length (takeWhile (\<lambda>x. \<not> P x) xs)" by (auto simp: position_def split: if_splits)
  then have "dropWhile (\<lambda>x. \<not> P x) xs \<noteq> []" by (auto simp: list_ex_iff dropWhile_eq_Nil_conv)
  then obtain x zs where d: "dropWhile (\<lambda>x. \<not> P x) xs = x # zs" by (cases "dropWhile (\<lambda>x. \<not> P x) xs") auto
  then have "P x" using hd_dropWhile [of "\<lambda>x. \<not> P x" xs] by simp
  moreover have "xs = takeWhile (\<lambda>x. \<not> P x) xs @ x # zs" by (metis d takeWhile_dropWhile_id)
  moreover have "\<forall>y \<in> set (takeWhile (\<lambda>x. \<not> P x) xs). \<not> P y" by (auto dest: set_takeWhileD)
  ultimately show "\<exists>ys x zs. xs = ys @ x # zs \<and> P x \<and> (\<forall>y \<in> set ys. \<not> P y) \<and> i = length ys" using i by blast
next
  assume "\<exists>ys x zs. xs = ys @ x # zs \<and> P x \<and> (\<forall>y \<in> set ys. \<not> P y) \<and> i = length ys"
  then obtain ys x zs where xs: "xs = ys @ x # zs" and x: "P x" and ys: "\<forall>y \<in> set ys. \<not> P y" and i: "i = length ys" by blast
  have "takeWhile (\<lambda>x. \<not> P x) xs = ys" unfolding xs using x ys by (simp add: takeWhile_append2)
  then show "position P xs = Some i" using x i by (simp add: position_def xs)
qed

lemma position_None: "position P xs = None \<longleftrightarrow> (\<forall>x \<in> set xs. \<not> P x)"
  by (auto simp: position_def list_ex_iff)

lemma move_within_mset: "mset (move_within w ix ts) = mset ts"
proof (cases "position (\<lambda>t. wt_id t = w) ts")
  case (Some i)
  then obtain ys x zs where ts: "ts = ys @ x # zs" "i = length ys" by (auto simp: position_split)
  have "mset (take ix others) + mset (drop ix others) = mset others" for others :: "window_tab list"
    by (metis append_take_drop_id mset_append)
  note split = this [of "take i ts @ drop (Suc i) ts"]
  have "mset (take i ts @ drop (Suc i) ts) + {#ts ! i#} = mset ts" by (simp add: ts)
  then show ?thesis unfolding move_within_def Some using split
    by (simp add: Let_def del: take_append drop_append)
qed (simp add: move_within_def)

lemma remove_first_absent: "w \<notin> set (map wt_id ts) \<Longrightarrow> remove_first w ts = ts"
proof -
  assume "w \<notin> set (map wt_id ts)"
  then have "position (\<lambda>t. wt_id t = w) ts = None" unfolding position_None by auto
  then show ?thesis by (simp add: remove_first_def)
qed

lemma remove_first_ids: "distinct (map wt_id ts) \<Longrightarrow> remove_first w ts = filter (\<lambda>t. wt_id t \<noteq> w) ts"
proof (cases "position (\<lambda>t. wt_id t = w) ts")
  case None
  then have "filter (\<lambda>t. wt_id t \<noteq> w) ts = ts" by (simp add: position_None filter_True)
  with None show ?thesis by (simp add: remove_first_def)
next
  case (Some i)
  then obtain ys x zs where ts: "ts = ys @ x # zs" "i = length ys" "wt_id x = w" "\<forall>y \<in> set ys. wt_id y \<noteq> w"
    by (auto simp: position_split)
  assume "distinct (map wt_id ts)"
  then have "w \<notin> wt_id ` set zs" using ts(1,3) by auto
  then have "\<forall>z \<in> set zs. wt_id z \<noteq> w" by blast
  then show ?thesis using Some ts by (simp add: remove_first_def filter_True)
qed

lemma window_ids_simps:
  "window_ids (c\<lparr>tc_groups := gs\<rparr>) = concat (map (\<lambda>(_, ts). map wt_id ts) gs)"
  by (simp add: window_ids_def)

lemma groups_distinct: "tabs_wf c \<Longrightarrow> (g, ts) \<in> set (tc_groups c) \<Longrightarrow> distinct (map wt_id ts)"
  unfolding tabs_wf_def window_ids_def by (auto simp: distinct_concat_iff)

lemma remove_groups:
  assumes "tabs_wf c"
  shows "tc_groups (snd (remove_tab w c)) = filter (\<lambda>(_, ts). ts \<noteq> []) (map (\<lambda>(g, ts). (g, filter (\<lambda>t. wt_id t \<noteq> w) ts)) (tc_groups c))"
proof -
  have "map (\<lambda>(g, ts). (g, remove_first w ts)) (tc_groups c) = map (\<lambda>(g, ts). (g, filter (\<lambda>t. wt_id t \<noteq> w) ts)) (tc_groups c)"
    by (intro map_cong refl) (auto simp: remove_first_ids groups_distinct [OF assms])
  then show ?thesis by (simp add: remove_tab_def del: map_eq_conv)
qed

lemma concat_filter_groups: "concat (map (\<lambda>(_, ts). map wt_id ts) (filter (\<lambda>(_, ts). ts \<noteq> []) (map (\<lambda>(g, ts). (g, filter P ts)) gs))) =
    concat (map (\<lambda>(_, ts). map wt_id (filter P ts)) gs)"
  by (induction gs) auto

lemma remove_ids:
  assumes "tabs_wf c"
  shows "window_ids (snd (remove_tab w c)) = filter (\<lambda>i. i \<noteq> w) (window_ids c)"
  unfolding window_ids_def remove_groups [OF assms] concat_filter_groups
  by (simp add: filter_concat comp_def split_def filter_map)

lemma remove_wf:
  assumes "tabs_wf c" shows "tabs_wf (snd (remove_tab w c))"
proof -
  have "distinct (window_ids (snd (remove_tab w c)))" using assms unfolding remove_ids [OF assms] by (simp add: tabs_wf_def)
  moreover have "distinct (map fst (tc_groups (snd (remove_tab w c))))"
  proof -
    have "map fst (map (\<lambda>(g, ts). (g, filter P ts)) gs) = map fst gs" for P and gs :: "(nat \<times> window_tab list) list"
      by (simp add: split_def)
    then show ?thesis unfolding remove_groups [OF assms] using assms by (intro distinct_map_filter) (simp only: tabs_wf_def)
  qed
  moreover have "ts \<noteq> [] \<and> (\<forall>t \<in> set ts. wh_id (wt_handle t) = wt_id t)" if "(g, ts) \<in> set (tc_groups (snd (remove_tab w c)))" for g ts
    using that assms unfolding remove_groups [OF assms] tabs_wf_def by auto
  ultimately show ?thesis unfolding tabs_wf_def by blast
qed

lemma tabs_wfD:
  assumes "tabs_wf c" "(g, ts) \<in> set (tc_groups c)"
  shows "map_of (tc_groups c) g = Some ts" "ts \<noteq> []" "\<And>t. t \<in> set ts \<Longrightarrow> wh_id (wt_handle t) = wt_id t" "distinct (map wt_id ts)"
  using assms groups_distinct [OF assms] by (auto simp: tabs_wf_def)

lemma has_tab_iff: "has_tab w ts \<longleftrightarrow> w \<in> wt_id ` set ts"
  by (auto simp: has_tab_def list_ex_iff)

lemma window_ids_iff: "w \<in> set (window_ids c) \<longleftrightarrow> (\<exists>(g, ts) \<in> set (tc_groups c). has_tab w ts)"
  by (auto simp: window_ids_def has_tab_iff)

text \<open>Each window is in one group, so it does not matter which is found first.\<close>

lemma one_group:
  assumes "tabs_wf c" "(g, ts) \<in> set (tc_groups c)" "(h, us) \<in> set (tc_groups c)" "has_tab w ts" "has_tab w us"
  shows "(g, ts) = (h, us)"
proof (rule ccontr)
  assume ne: "(g, ts) \<noteq> (h, us)"
  obtain as bs where gs: "tc_groups c = as @ (g, ts) # bs" using assms(2) by (auto dest: split_list)
  then have "(h, us) \<in> set as \<union> set bs" using assms(3) ne by auto
  define A B where "A = concat (map (\<lambda>(_, ts). map wt_id ts) as)" and "B = concat (map (\<lambda>(_, ts). map wt_id ts) bs)"
  have "w \<in> set A \<union> set B" using \<open>(h, us) \<in> set as \<union> set bs\<close> assms(5) by (auto simp: has_tab_iff A_def B_def intro: rev_bexI)
  moreover have "w \<in> set (map wt_id ts)" using assms(4) by (simp add: has_tab_iff)
  moreover have "window_ids c = A @ map wt_id ts @ B" by (simp add: window_ids_def gs A_def B_def)
  then have "distinct (A @ map wt_id ts @ B)" using assms(1) by (simp add: tabs_wf_def)
  ultimately show False by auto
qed

lemma tabs_in:
  assumes "tabs_wf c" "(g, ts) \<in> set (tc_groups c)" "has_tab w ts"
  shows "group_of w c = Some g" "tabs w c = Some ts"
proof -
  obtain p where p: "List.find (\<lambda>(_, ts). has_tab w ts) (tc_groups c) = Some p"
    using assms(2,3) by (cases "List.find (\<lambda>(_, ts). has_tab w ts) (tc_groups c)") (auto simp: find_None_iff)
  then obtain h us where "p = (h, us)" "(h, us) \<in> set (tc_groups c)" "has_tab w us"
    by (cases p) (auto simp: find_Some_iff, metis nth_mem)
  with one_group [OF assms(1,2)] assms(3) have "p = (g, ts)" by blast
  then show "group_of w c = Some g" using p by (simp add: group_of_def)
  then show "tabs w c = Some ts" using tabs_wfD(1) [OF assms(1,2)] by (simp add: tabs_def)
qed

lemma find_SomeD: "List.find P xs = Some x \<Longrightarrow> x \<in> set xs \<and> P x"
  by (induction xs) (auto split: if_splits)

lemma tabs_Some:
  assumes "tabs w c = Some ts" "tabs_wf c"
  shows "\<exists>g. (g, ts) \<in> set (tc_groups c)" "has_tab w ts"
proof -
  obtain p where p: "List.find (\<lambda>(_, ts). has_tab w ts) (tc_groups c) = Some p" "map_of (tc_groups c) (fst p) = Some ts"
    using assms(1) by (auto simp: tabs_def group_of_def bind_eq_Some_conv)
  then have in_p: "p \<in> set (tc_groups c)" "has_tab w (snd p)" by (auto dest: find_SomeD)
  have "snd p = ts" using p(2) tabs_wfD(1) [OF assms(2), of "fst p" "snd p"] in_p(1) by simp
  then show "\<exists>g. (g, ts) \<in> set (tc_groups c)" "has_tab w ts" using in_p by (auto intro: exI [of _ "fst p"])
qed

lemma tabs_None: "tabs_wf c \<Longrightarrow> tabs w c = None \<longleftrightarrow> w \<notin> set (window_ids c)"
  using tabs_in(2) [of c _ _ w] tabs_Some [of w c] unfolding window_ids_iff by (cases "tabs w c") auto

lemma removed_tab:
  assumes "tabs_wf c"
  shows "fst (remove_tab w c) = List.find (\<lambda>t. wt_id t = w) (concat (map snd (tc_groups c)))"
proof -
  have "foldl (\<lambda>r (_, ts). case List.find (\<lambda>t. wt_id t = w) ts of None \<Rightarrow> r | Some t \<Rightarrow> Some t) r gs =
      (case List.find (\<lambda>t. wt_id t = w) (concat (map snd gs)) of None \<Rightarrow> r | Some t \<Rightarrow> Some t)"
    if "distinct (concat (map (\<lambda>(_, ts). map wt_id ts) gs))" for gs r
    using that
  proof (induction gs arbitrary: r)
    case (Cons p gs)
    have found: "List.find (\<lambda>t. wt_id t = w) (xs @ ys) = (case List.find (\<lambda>t. wt_id t = w) xs of None \<Rightarrow> List.find (\<lambda>t. wt_id t = w) ys | Some t \<Rightarrow> Some t)"
      for xs ys by (induction xs) auto
    have "List.find (\<lambda>t. wt_id t = w) (concat (map snd gs)) = None" if "List.find (\<lambda>t. wt_id t = w) (snd p) = Some t" for t
    proof -
      have "w \<in> set (map wt_id (snd p))" using that by (auto simp: find_Some_iff)
      then have "w \<notin> set (concat (map (\<lambda>(_, ts). map wt_id ts) gs))" using Cons.prems by (auto simp: case_prod_beta)
      then show ?thesis by (auto simp: find_None_iff case_prod_beta)
    qed
    then show ?case using Cons by (auto simp: case_prod_beta found split: option.split)
  qed simp
  from this [of "tc_groups c" None] show ?thesis using assms
    by (simp add: remove_tab_def tabs_wf_def window_ids_def option.case_eq_if)
qed

lemma fresh_group: "fresh_group c \<notin> set (map fst (tc_groups c))"
proof -
  have "m \<le> fold max gs m \<and> (\<forall>g \<in> set gs. g \<le> fold max gs m)" for gs and m :: nat
    by (induction gs arbitrary: m) (auto, (meson max.bounded_iff)+)
  note le = this
  show ?thesis
  proof (cases "map fst (tc_groups c)")
    case (Cons g gs)
    then have "fresh_group c = Suc (fold max gs g)" by (simp add: fresh_group_def)
    then show ?thesis using le [of g gs] unfolding Cons by force
  qed simp
qed

lemma update_fresh: "g \<notin> set (map fst gs) \<Longrightarrow> AList.update g ts gs = gs @ [(g, ts)]"
  by (induction gs) auto

lemma add_group_wf:
  assumes "tabs_wf c" "g \<notin> set (map fst (tc_groups c))" "ts \<noteq> []" "\<forall>t \<in> set ts. wh_id (wt_handle t) = wt_id t"
    "distinct (map wt_id ts)" "set (map wt_id ts) \<inter> set (window_ids c) = {}"
  shows "tabs_wf (c\<lparr>tc_groups := AList.update g ts (tc_groups c)\<rparr>)"
    "window_ids (c\<lparr>tc_groups := AList.update g ts (tc_groups c)\<rparr>) = window_ids c @ map wt_id ts"
proof -
  note up = update_fresh [OF assms(2), of ts]
  show ids: "window_ids (c\<lparr>tc_groups := AList.update g ts (tc_groups c)\<rparr>) = window_ids c @ map wt_id ts"
    unfolding up by (simp add: window_ids_def)
  show "tabs_wf (c\<lparr>tc_groups := AList.update g ts (tc_groups c)\<rparr>)"
    using assms unfolding tabs_wf_def ids by (simp add: up) blast
qed

section \<open>What the operations do to the windows\<close>

lemma removed_iff: "tabs_wf c \<Longrightarrow> fst (remove_tab w c) = None \<longleftrightarrow> w \<notin> set (window_ids c)"
  unfolding removed_tab by (auto simp: find_None_iff window_ids_def) (metis snd_conv)

lemma removed_tab_facts:
  assumes "tabs_wf c" "fst (remove_tab w c) = Some t"
  shows "wt_id t = w" "wh_id (wt_handle t) = w" "w \<in> set (window_ids c)"
proof -
  obtain g ts where t: "(g, ts) \<in> set (tc_groups c)" "t \<in> set ts" and id: "wt_id t = w"
    using assms(2) find_SomeD unfolding removed_tab [OF assms(1)] by fastforce
  show "wt_id t = w" by (rule id)
  show "wh_id (wt_handle t) = w" using tabs_wfD(3) [OF assms(1) t] id by simp
  show "w \<in> set (window_ids c)" using removed_iff [OF assms(1)] assms(2) by (metis option.distinct(1))
qed

lemma tabs_after_remove:
  assumes wf: "tabs_wf c" and "v \<noteq> w"
  shows "tabs v (snd (remove_tab w c)) = map_option (filter (\<lambda>t. wt_id t \<noteq> w)) (tabs v c)"
proof (cases "tabs v c")
  case None
  then have "v \<notin> set (window_ids (snd (remove_tab w c)))" unfolding remove_ids [OF wf] using tabs_None [OF wf] by simp
  then show ?thesis using None tabs_None [OF remove_wf [OF wf]] by simp
next
  case (Some ts)
  obtain g where g: "(g, ts) \<in> set (tc_groups c)" and v: "has_tab v ts" using tabs_Some [OF Some wf] by blast
  have v': "has_tab v (filter (\<lambda>t. wt_id t \<noteq> w) ts)" using v assms(2) by (auto simp: has_tab_iff)
  then have "(g, filter (\<lambda>t. wt_id t \<noteq> w) ts) \<in> set (tc_groups (snd (remove_tab w c)))"
    unfolding remove_groups [OF wf] using g by (auto simp: has_tab_iff filter_empty_conv)
  from tabs_in(2) [OF remove_wf [OF wf] this v'] show ?thesis by (simp add: Some)
qed

lemma move_to_new:
  assumes wf: "tabs_wf c" and t: "fst (remove_tab w c) = Some t"
  shows "tabs_wf (move_tab_to_new_window w c)" "mset (window_ids (move_tab_to_new_window w c)) = mset (window_ids c)"
    "tabs w (move_tab_to_new_window w c) = Some [t]"
    "v \<noteq> w \<Longrightarrow> tabs v (move_tab_to_new_window w c) = map_option (filter (\<lambda>t. wt_id t \<noteq> w)) (tabs v c)"
proof -
  define r where "r = snd (remove_tab w c)"
  note wf_r = remove_wf [OF wf, of w, folded r_def] and ids_r = remove_ids [OF wf, of w, folded r_def]
  have c': "move_tab_to_new_window w c = r\<lparr>tc_groups := AList.update (fresh_group r) [t] (tc_groups r)\<rparr>"
    using t by (cases "remove_tab w c") (simp add: move_tab_to_new_window_def r_def)
  have new: "set (map wt_id [t]) \<inter> set (window_ids r) = {}" using removed_tab_facts [OF wf t] by (simp add: ids_r)
  have add: "tabs_wf (move_tab_to_new_window w c)" "window_ids (move_tab_to_new_window w c) = window_ids r @ [w]"
    unfolding c' using add_group_wf [OF wf_r fresh_group _ _ _ new] removed_tab_facts [OF wf t] by simp_all
  show wf': "tabs_wf (move_tab_to_new_window w c)" by (rule add(1))
  have "mset (filter (\<lambda>i. i \<noteq> w) xs) + {#w#} = mset xs" if "distinct xs" "w \<in> set xs" for xs
  proof -
    have "filter (\<lambda>i. i \<noteq> w) xs = remove1 w xs"
      unfolding distinct_remove1_removeAll [OF that(1)] by (induction xs) auto
    then show ?thesis using that(2) by simp
  qed
  then show "mset (window_ids (move_tab_to_new_window w c)) = mset (window_ids c)"
    unfolding add(2) ids_r using wf removed_tab_facts(3) [OF wf t] by (simp add: tabs_wf_def)
  have groups: "tc_groups (move_tab_to_new_window w c) = tc_groups r @ [(fresh_group r, [t])]"
    unfolding c' using update_fresh [OF fresh_group] by simp
  show "tabs w (move_tab_to_new_window w c) = Some [t]"
    by (rule tabs_in(2) [OF wf']) (auto simp: groups has_tab_iff removed_tab_facts(1) [OF wf t])
  assume v: "v \<noteq> w"
  have "tabs v (move_tab_to_new_window w c) = tabs v r"
  proof (cases "tabs v r")
    case None
    then show ?thesis using tabs_None [OF wf_r, of v] tabs_None [OF wf', of v] v by (simp add: add(2))
  next
    case (Some ts)
    then obtain g where "(g, ts) \<in> set (tc_groups r)" "has_tab v ts" using tabs_Some [OF Some wf_r] by blast
    then show ?thesis unfolding Some by (intro tabs_in(2) [OF wf', of g]) (simp_all add: groups)
  qed
  then show "tabs v (move_tab_to_new_window w c) = map_option (filter (\<lambda>t. wt_id t \<noteq> w)) (tabs v c)"
    using tabs_after_remove [OF wf v] by (simp add: r_def)
qed

lemma merge_all:
  assumes wf: "tabs_wf c" and w: "tabs w c = Some initial"
  shows "tabs_wf (merge_all_windows w c)" "mset (window_ids (merge_all_windows w c)) = mset (window_ids c)"
    "\<exists>others. tc_groups (merge_all_windows w c) = [(0, initial @ others)]"
proof -
  define others where "others = concat (map (\<lambda>(_, ts). filter (\<lambda>t. t \<notin> set initial) ts) (tc_groups c))"
  have c': "merge_all_windows w c = c\<lparr>tc_groups := [(0, initial @ others)]\<rparr>" using w by (simp add: merge_all_windows_def others_def)
  obtain g where g: "(g, initial) \<in> set (tc_groups c)" and has: "has_tab w initial" using tabs_Some [OF w wf] by blast
  then obtain as bs where gs: "tc_groups c = as @ (g, initial) # bs" by (auto dest: split_list)
  have apart: "t \<notin> set initial" if "(h, ts) \<in> set as \<union> set bs" "t \<in> set ts" for h ts t
  proof
    assume t: "t \<in> set initial"
    have "(h, ts) = (g, initial)"
      by (rule one_group [OF wf, of _ _ _ _ "wt_id t"]) (use that t gs in \<open>auto simp: has_tab_iff\<close>)
    moreover have "g \<notin> fst ` (set as \<union> set bs)" using wf gs by (auto simp: tabs_wf_def)
    ultimately show False using that(1) by (metis fst_conv imageI)
  qed
  have "concat (map (\<lambda>(_, ts). filter (\<lambda>t. t \<notin> set initial) ts) xs) = concat (map snd xs)" if "set xs \<subseteq> set as \<union> set bs" for xs
    using that
  proof (induction xs)
    case (Cons x xs)
    have "filter (\<lambda>t. t \<notin> set initial) (snd x) = snd x" using apart [of "fst x" "snd x"] Cons.prems by (intro filter_True) auto
    with Cons show ?case by (simp add: case_prod_beta)
  qed simp
  then have others: "others = concat (map snd as) @ concat (map snd bs)" by (simp add: others_def gs)
  have all: "window_ids c = map wt_id (concat (map snd (tc_groups c)))" by (simp add: window_ids_def map_concat comp_def split_def)
  have ids: "window_ids (merge_all_windows w c) = map wt_id (initial @ others)" unfolding c' by (simp add: window_ids_def)
  show mset: "mset (window_ids (merge_all_windows w c)) = mset (window_ids c)" unfolding ids all gs others by (simp add: ac_simps)
  have "initial \<noteq> []" using has by (auto simp: has_tab_iff)
  moreover have "wh_id (wt_handle t) = wt_id t" if "t \<in> set (initial @ others)" for t
  proof -
    have "\<exists>p \<in> set (tc_groups c). t \<in> set (snd p)" using that unfolding others gs by auto
    then show ?thesis using tabs_wfD(3) [OF wf] by (metis prod.collapse)
  qed
  moreover have "distinct (window_ids (merge_all_windows w c))" using mset wf unfolding tabs_wf_def by (metis mset_eq_imp_distinct_iff)
  ultimately show "tabs_wf (merge_all_windows w c)" unfolding tabs_wf_def unfolding c' by simp
  show "\<exists>others. tc_groups (merge_all_windows w c) = [(0, initial @ others)]" unfolding c' by simp
qed

lemma change_group:
  assumes wf: "tabs_wf c" and w: "tabs w c = Some ts"
    and f: "mset (map wt_id (f ts)) = mset (map wt_id ts)" "\<forall>t \<in> set (f ts). wh_id (wt_handle t) = wt_id t"
    and c': "c' = c\<lparr>tc_groups := change_first (\<lambda>(_, ts). has_tab w ts) (\<lambda>(g, ts). (g, f ts)) (tc_groups c)\<rparr>"
  shows "tabs_wf c'" "mset (window_ids c') = mset (window_ids c)" "tabs w c' = Some (f ts)"
proof -
  obtain g where g: "(g, ts) \<in> set (tc_groups c)" and has: "has_tab w ts" using tabs_Some [OF w wf] by blast
  obtain as p bs where gs: "tc_groups c = as @ p # bs" "has_tab w (snd p)"
      "tc_groups c' = as @ (fst p, f (snd p)) # bs"
    by (rule change_first_cases [of "tc_groups c" "\<lambda>(_, ts). has_tab w ts" "\<lambda>(g, ts). (g, f ts)"])
      (use g has c' in \<open>auto simp: case_prod_beta\<close>)
  have p: "p = (g, ts)" using one_group [OF wf g, of "fst p" "snd p"] gs has by simp
  have ids: "mset (map wt_id (f ts)) = mset (map wt_id ts)" by (rule f(1))
  show mset: "mset (window_ids c') = mset (window_ids c)" using ids by (simp add: window_ids_def gs p)
  have "f ts \<noteq> []" using ids has by (auto simp: has_tab_iff)
  moreover have "distinct (window_ids c')" using mset wf unfolding tabs_wf_def by (metis mset_eq_imp_distinct_iff)
  moreover have "map fst (tc_groups c') = map fst (tc_groups c)" by (simp add: gs)
  ultimately show wf': "tabs_wf c'" using wf f(2) unfolding tabs_wf_def by (auto simp: gs p)
  have "w \<in> set (map wt_id (f ts))" using ids has by (metis has_tab_iff set_map set_mset_mset)
  then have "has_tab w (f ts)" by (simp add: has_tab_iff)
  then show "tabs w c' = Some (f ts)" by (intro tabs_in(2) [OF wf', of "fst p"]) (auto simp: gs p)
qed

lemma remove_windows:
  assumes "tabs_wf c"
  shows "tabs_wf (snd (remove_tab w c)) \<and> window_ids (snd (remove_tab w c)) = filter (\<lambda>i. i \<noteq> w) (window_ids c)"
  using remove_wf [OF assms] remove_ids [OF assms] by simp

lemma move_windows:
  assumes "tabs_wf c"
  shows "tabs_wf (move_tab_to_new_window w c) \<and> mset (window_ids (move_tab_to_new_window w c)) = mset (window_ids c) \<and>
      (w \<in> set (window_ids c) \<longrightarrow> (\<exists>t. wt_id t = w \<and> tabs w (move_tab_to_new_window w c) = Some [t]) \<and>
        (\<forall>v. v \<noteq> w \<longrightarrow> tabs v (move_tab_to_new_window w c) = map_option (filter (\<lambda>t. wt_id t \<noteq> w)) (tabs v c)))"
proof (cases "fst (remove_tab w c)")
  case None
  then have "w \<notin> set (window_ids c)" using removed_iff [OF assms] by simp
  moreover from this have "filter (\<lambda>i. i \<noteq> w) (window_ids c) = window_ids c" by (auto intro: filter_True)
  moreover have "move_tab_to_new_window w c = snd (remove_tab w c)"
    using None by (cases "remove_tab w c") (simp add: move_tab_to_new_window_def)
  ultimately show ?thesis using remove_wf [OF assms, of w] remove_ids [OF assms, of w] by simp
next
  case (Some t)
  show ?thesis using move_to_new [OF assms Some] removed_tab_facts [OF assms Some] by blast
qed

lemma merge_windows:
  assumes "tabs_wf c"
  shows "tabs_wf (merge_all_windows w c) \<and> mset (window_ids (merge_all_windows w c)) = mset (window_ids c) \<and>
      (\<forall>ts. tabs w c = Some ts \<longrightarrow> (\<exists>others. tc_groups (merge_all_windows w c) = [(0, ts @ others)]))"
  using merge_all [OF assms] assms by (cases "tabs w c") (simp_all add: merge_all_windows_def)

lemma position_windows:
  assumes "tabs_wf c"
  shows "tabs_wf (update_tab_position w ix c) \<and> mset (window_ids (update_tab_position w ix c)) = mset (window_ids c) \<and>
      tabs w (update_tab_position w ix c) = map_option (move_within w ix) (tabs w c)"
proof (cases "tabs w c")
  case None
  then have "\<forall>p \<in> set (tc_groups c). \<not> (\<lambda>(_, ts). has_tab w ts) p" using tabs_None [OF assms] window_ids_iff by fastforce
  then have "change_first (\<lambda>(_, ts). has_tab w ts) (\<lambda>(g, ts). (g, move_within w ix ts)) (tc_groups c) = tc_groups c"
    by (rule change_first_none)
  then show ?thesis using assms None by (simp add: update_tab_position_def)
next
  case (Some ts)
  obtain g where g: "(g, ts) \<in> set (tc_groups c)" using tabs_Some [OF Some assms] by blast
  have "\<forall>t \<in> set (move_within w ix ts). wh_id (wt_handle t) = wt_id t"
    using tabs_wfD(3) [OF assms g] move_within_mset by (metis set_mset_mset)
  moreover have "mset (map wt_id (move_within w ix ts)) = mset (map wt_id ts)" by (simp add: move_within_mset)
  ultimately show ?thesis using change_group [OF assms Some, of "move_within w ix"] Some by (simp add: update_tab_position_def)
qed

text \<open>
  With every window in one group, the operations keep it so and lose no window: removing a tab
  takes exactly it, moving it to a new window leaves it alone in a group and the others as they
  were, merging makes one group that starts with the window's own, and a new position only
  permutes the window's group.
\<close>

theorem tab_operations_windows:
  assumes "tabs_wf c"
  shows "(tabs_wf (snd (remove_tab w c)) \<and> window_ids (snd (remove_tab w c)) = filter (\<lambda>i. i \<noteq> w) (window_ids c)) \<and>
    (tabs_wf (move_tab_to_new_window w c) \<and> mset (window_ids (move_tab_to_new_window w c)) = mset (window_ids c) \<and>
      (w \<in> set (window_ids c) \<longrightarrow> (\<exists>t. wt_id t = w \<and> tabs w (move_tab_to_new_window w c) = Some [t]) \<and>
        (\<forall>v. v \<noteq> w \<longrightarrow> tabs v (move_tab_to_new_window w c) = map_option (filter (\<lambda>t. wt_id t \<noteq> w)) (tabs v c)))) \<and>
    (tabs_wf (merge_all_windows w c) \<and> mset (window_ids (merge_all_windows w c)) = mset (window_ids c) \<and>
      (\<forall>ts. tabs w c = Some ts \<longrightarrow> (\<exists>others. tc_groups (merge_all_windows w c) = [(0, ts @ others)]))) \<and>
    (tabs_wf (update_tab_position w ix c) \<and> mset (window_ids (update_tab_position w ix c)) = mset (window_ids c) \<and>
      tabs w (update_tab_position w ix c) = map_option (move_within w ix) (tabs w c))"
  using remove_windows [OF assms] move_windows [OF assms] merge_windows [OF assms] position_windows [OF assms] by blast

section \<open>Adding a tab\<close>

definition addable :: "nat \<Rightarrow> window_tab list \<Rightarrow> tab_controller \<Rightarrow> bool" where
  "addable w ts c \<longleftrightarrow> distinct (map wt_id ts) \<and> (\<forall>t \<in> set ts. wh_id (wt_handle t) = wt_id t) \<and> w \<notin> set (window_ids c) \<and>
     ((\<exists>(_, us) \<in> set (tc_groups c). set (map wt_id us) = set (map wt_id ts) - {w}) \<or>
      set (map wt_id ts) \<inter> set (window_ids c) = {} \<and> length (tc_groups c) \<notin> set (map fst (tc_groups c)))"

lemma found_group:
  assumes wf: "tabs_wf c" and ok: "addable w ts c" and t: "t \<in> set ts" "wt_id t = w"
    and p: "p \<in> set (tc_groups c)" "sort (map wt_id (snd p)) = sort (map wt_id (filter (\<lambda>t. wt_id t \<noteq> w) ts))"
    and c': "c' = c\<lparr>tc_groups := change_first (\<lambda>(h, _). h = fst p) (\<lambda>(h, us). (h, us @ [t])) (tc_groups c)\<rparr>"
  shows "tabs_wf c'" "set (window_ids c') = set (window_ids c) \<union> set (map wt_id ts)" "tabs w c' = Some (snd p @ [t])"
    "set (map wt_id (snd p @ [t])) = set (map wt_id ts)"
proof -
  have "set (map wt_id (snd p)) = set (map wt_id (filter (\<lambda>t. wt_id t \<noteq> w) ts))" using arg_cong [OF p(2), of set] by simp
  then show ids: "set (map wt_id (snd p @ [t])) = set (map wt_id ts)" using t by auto
  obtain as q bs where gs: "tc_groups c = as @ q # bs" "fst q = fst p" "tc_groups c' = as @ (fst q, snd q @ [t]) # bs"
    by (rule change_first_cases [of "tc_groups c" "\<lambda>(h, _). h = fst p" "\<lambda>(h, us). (h, us @ [t])"])
      (use p c' in \<open>auto simp: case_prod_beta\<close>)
  have "q = p" using gs p(1) tabs_wfD(1) [OF wf, of "fst p"] by (metis in_set_conv_decomp option.inject prod.collapse)
  then have all: "mset (window_ids c') = add_mset w (mset (window_ids c))" using t(2) by (simp add: window_ids_def gs split_def)
  have "distinct (w # window_ids c)" using wf ok by (simp add: tabs_wf_def addable_def)
  then have "distinct (window_ids c')" using all by (metis mset.simps(2) mset_eq_imp_distinct_iff)
  moreover have "map fst (tc_groups c') = map fst (tc_groups c)" by (simp add: gs)
  ultimately show wf': "tabs_wf c'" using wf ok t(1) unfolding tabs_wf_def addable_def by (auto simp: gs)
  have "set (map wt_id (snd p)) \<subseteq> set (window_ids c)" using p(1) by (cases p) (auto simp: window_ids_iff has_tab_iff intro!: bexI [of _ p])
  then show "set (window_ids c') = set (window_ids c) \<union> set (map wt_id ts)"
  proof -
    have "set (map wt_id ts) = insert w (set (map wt_id (snd p)))" using ids t(2) by simp
    moreover have "set (window_ids c') = insert w (set (window_ids c))" using arg_cong [OF all, of set_mset] by simp
    ultimately show ?thesis using \<open>set (map wt_id (snd p)) \<subseteq> set (window_ids c)\<close> by blast
  qed
  show "tabs w c' = Some (snd p @ [t])"
    by (rule tabs_in(2) [OF wf', of "fst p"]) (use t(2) in \<open>simp_all add: gs \<open>q = p\<close> has_tab_iff\<close>)
qed

text \<open>
  Adding a tab that is new to a group the system names, or with a group that is all new under a
  number that is free, keeps every window in one group, and puts the tab together with exactly the
  windows named.
\<close>

theorem add_tab_groups:
  assumes "tabs_wf c" and "addable w ts c" and "w \<in> set (map wt_id ts)"
  shows "tabs_wf (add_tab w ts c) \<and> set (window_ids (add_tab w ts c)) = set (window_ids c) \<union> set (map wt_id ts) \<and>
    (\<exists>us. tabs w (add_tab w ts c) = Some us \<and> set (map wt_id us) = set (map wt_id ts))"
proof -
  define expected where "expected = sort (map wt_id (filter (\<lambda>t. wt_id t \<noteq> w) ts))"
  have "\<exists>t. List.find (\<lambda>t. wt_id t = w) ts = Some t" using assms(3) by (auto simp: not_None_eq [symmetric] find_None_iff)
  then obtain t where t: "List.find (\<lambda>t. wt_id t = w) ts = Some t" ..
  then have tw: "t \<in> set ts" "wt_id t = w" using find_SomeD by fast+
  show ?thesis
  proof (cases "List.find (\<lambda>(_, us). sort (map wt_id us) = expected) (tc_groups c)")
    case (Some p)
    then have "p \<in> set (tc_groups c)" "sort (map wt_id (snd p)) = sort (map wt_id (filter (\<lambda>t. wt_id t \<noteq> w) ts))"
      using find_SomeD [OF Some] by (auto simp: expected_def)
    note found = found_group [OF assms(1,2) tw this refl]
    have "add_tab w ts c = c\<lparr>tc_groups := change_first (\<lambda>(h, _). h = fst p) (\<lambda>(h, us). (h, us @ [t])) (tc_groups c)\<rparr>"
      using t Some by (simp add: add_tab_def Let_def expected_def split: prod.split)
    then show ?thesis using found by metis
  next
    case None
    have "\<not> (\<exists>(_, us) \<in> set (tc_groups c). set (map wt_id us) = set (map wt_id ts) - {w})"
    proof
      assume "\<exists>(_, us) \<in> set (tc_groups c). set (map wt_id us) = set (map wt_id ts) - {w}"
      then obtain g us where us: "(g, us) \<in> set (tc_groups c)" "set (map wt_id us) = set (map wt_id ts) - {w}" by blast
      have "distinct (map wt_id us)" "distinct (map wt_id (filter (\<lambda>t. wt_id t \<noteq> w) ts))"
        using tabs_wfD(4) [OF assms(1) us(1)] assms(2) by (simp_all add: addable_def distinct_map_filter)
      moreover have "set (map wt_id us) = set (map wt_id (filter (\<lambda>t. wt_id t \<noteq> w) ts))" using us(2) by auto
      ultimately have "mset (map wt_id us) = mset (map wt_id (filter (\<lambda>t. wt_id t \<noteq> w) ts))" using set_eq_iff_mset_eq_distinct by blast
      then have "sort (map wt_id us) = expected" unfolding expected_def by (metis properties_for_sort sorted_list_of_multiset_mset)
      then show False using None us(1) by (auto simp: find_None_iff)
    qed
    then have fresh: "set (map wt_id ts) \<inter> set (window_ids c) = {}" "length (tc_groups c) \<notin> set (map fst (tc_groups c))"
      using assms(2) by (auto simp: addable_def)
    have ne: "ts \<noteq> []" "\<forall>t \<in> set ts. wh_id (wt_handle t) = wt_id t" "distinct (map wt_id ts)" using assms(2) tw by (auto simp: addable_def)
    have c': "add_tab w ts c = c\<lparr>tc_groups := AList.update (length (tc_groups c)) ts (tc_groups c)\<rparr>"
      using t None by (simp add: add_tab_def Let_def expected_def)
    note added = add_group_wf [OF assms(1) fresh(2) ne fresh(1), folded c']
    have "tabs w (add_tab w ts c) = Some ts"
      by (rule tabs_in(2) [OF added(1), of "length (tc_groups c)"]) (use tw in \<open>auto simp: c' update_fresh [OF fresh(2)] has_tab_iff\<close>)
    then show ?thesis using added by simp
  qed
qed

section \<open>Selecting\<close>

lemma position_distinct:
  assumes "distinct (map wt_id ts)" "i < length ts"
  shows "position (\<lambda>t. wt_id t = wt_id (ts ! i)) ts = Some i"
proof -
  have "ts = take i ts @ ts ! i # drop (Suc i) ts" by (simp add: assms(2) id_take_nth_drop [symmetric])
  moreover have "wt_id y \<noteq> wt_id (ts ! i)" if y: "y \<in> set (take i ts)" for y
  proof -
    obtain j where "j < i" "y = ts ! j" using y assms(2) by (auto simp: in_set_conv_nth)
    then show ?thesis using nth_eq_iff_index_eq [OF assms(1), of j i] assms(2) by simp
  qed
  ultimately show ?thesis using assms(2) unfolding position_split by (metis length_take min.absorb4)
qed

lemma index_cycle:
  "i < n \<Longrightarrow> next_index n i < n" "i < n \<Longrightarrow> prev_index n i < n"
  "i < n \<Longrightarrow> prev_index n (next_index n i) = i" "i < n \<Longrightarrow> next_index n (prev_index n i) = i"
  by (auto simp: next_index_def prev_index_def mod_Suc)

text \<open>
  In a group, selecting the next tab and from there the previous one comes back to the
  tab, and the other way round; as often as the group has tabs, selecting the next comes back too.
\<close>

theorem select_tab_cycle:
  assumes "tabs_wf c" and "tabs w c = Some ts"
  shows "(\<exists>h. select_next_tab w c = Some h \<and> map_option wh_id (select_previous_tab (wh_id h) c) = Some w) \<and>
    (\<exists>h. select_previous_tab w c = Some h \<and> map_option wh_id (select_next_tab (wh_id h) c) = Some w) \<and>
    ((\<lambda>v. Option.bind v (\<lambda>v. map_option wh_id (select_next_tab v c))) ^^ length ts) (Some w) = Some w"
proof -
  obtain g where g: "(g, ts) \<in> set (tc_groups c)" and has: "has_tab w ts" using tabs_Some [OF assms(2,1)] by blast
  note ts = tabs_wfD [OF assms(1) g]
  have sel: "select_next_tab (wt_id (ts ! i)) c = Some (wt_handle (ts ! next_index (length ts) i))"
      "select_previous_tab (wt_id (ts ! i)) c = Some (wt_handle (ts ! prev_index (length ts) i))" if i: "i < length ts" for i
  proof -
    have "tabs (wt_id (ts ! i)) c = Some ts" using i by (intro tabs_in(2) [OF assms(1) g]) (simp add: has_tab_iff)
    then show "select_next_tab (wt_id (ts ! i)) c = Some (wt_handle (ts ! next_index (length ts) i))"
      "select_previous_tab (wt_id (ts ! i)) c = Some (wt_handle (ts ! prev_index (length ts) i))"
      using position_distinct [OF ts(4) i] by (simp_all add: select_next_tab_def select_previous_tab_def)
  qed
  have handle: "wh_id (wt_handle (ts ! i)) = wt_id (ts ! i)" if "i < length ts" for i using ts(3) that by simp
  obtain i where i: "i < length ts" "w = wt_id (ts ! i)" using has by (auto simp: has_tab_iff in_set_conv_nth)
  let ?n = "length ts"
  have "((\<lambda>v. Option.bind v (\<lambda>v. map_option wh_id (select_next_tab v c))) ^^ k) (Some w) = Some (wt_id (ts ! ((i + k) mod ?n)))" for k
  proof (induction k)
    case 0
    then show ?case using i by simp
  next
    case (Suc k)
    have "(i + k) mod ?n < ?n" using i(1) by (intro mod_less_divisor) linarith
    moreover have "Suc (i + k) mod ?n < ?n" using i(1) by (intro mod_less_divisor) linarith
    ultimately show ?case using Suc sel(1) handle by (simp add: next_index_def mod_Suc_eq)
  qed
  from this [of ?n] have "((\<lambda>v. Option.bind v (\<lambda>v. map_option wh_id (select_next_tab v c))) ^^ ?n) (Some w) = Some w"
    using i by simp
  then show ?thesis unfolding i(2) using i(1) sel handle index_cycle by simp
qed

section \<open>An example\<close>

definition a_tab :: "nat \<Rightarrow> window_tab" where
  "a_tab w = window_tab_new w ''tab'' \<lparr>wh_id = w, wh_type = 0\<rparr>"

definition two_groups :: tab_controller where
  "two_groups = tab_controller_new\<lparr>tc_groups := [(0, [a_tab 1, a_tab 2]), (1, [a_tab 3])]\<rparr>"

lemma two_groups_wf: "tabs_wf two_groups"
  by (simp add: tabs_wf_def window_ids_def two_groups_def a_tab_def window_tab_new_def)

lemma tab_operations_windows_witness: "window_ids (snd (remove_tab 2 two_groups)) = [1, 3]"
  using tab_operations_windows [OF two_groups_wf, of 2]
  by (simp add: window_ids_def two_groups_def a_tab_def window_tab_new_def)

lemma add_tab_groups_witness:
  "\<exists>us. tabs 4 (add_tab 4 [a_tab 3, a_tab 4] two_groups) = Some us \<and> set (map wt_id us) = {3, 4}"
proof -
  have "addable 4 [a_tab 3, a_tab 4] two_groups"
    by (auto simp: addable_def window_ids_def two_groups_def a_tab_def window_tab_new_def)
  from add_tab_groups [OF two_groups_wf this] show ?thesis by (simp add: a_tab_def window_tab_new_def)
qed

lemma select_tab_cycle_witness: "map_option wh_id (select_next_tab 1 two_groups) = Some 2 \<and>
    (\<exists>h. select_next_tab 1 two_groups = Some h \<and> map_option wh_id (select_previous_tab (wh_id h) two_groups) = Some 1)"
proof
  show "map_option wh_id (select_next_tab 1 two_groups) = Some 2"
    by (simp add: select_next_tab_def tabs_def group_of_def two_groups_def has_tab_def a_tab_def window_tab_new_def position_def next_index_def)
  have "tabs 1 two_groups = Some [a_tab 1, a_tab 2]" by (simp add: tabs_def group_of_def two_groups_def has_tab_def a_tab_def window_tab_new_def)
  from select_tab_cycle [OF two_groups_wf this]
  show "\<exists>h. select_next_tab 1 two_groups = Some h \<and> map_option wh_id (select_previous_tab (wh_id h) two_groups) = Some 1" by blast
qed

section \<open>A group that is lost\<close>

text \<open>
  A new group gets the number of groups there are, which after a removal may be the number of
  another group: that group's windows are forgotten.
\<close>

lemma add_tab_loses_group:
  "let c = snd (remove_tab 1 (add_tab 2 [a_tab 2] (add_tab 1 [a_tab 1] tab_controller_new)));
       d = add_tab 3 [a_tab 3] c
   in tabs 2 c = Some [a_tab 2] \<and> tabs 2 d = None"
  by (simp add: Let_def add_tab_def remove_tab_def remove_first_def position_def tabs_def group_of_def tab_controller_new_def
      has_tab_def a_tab_def window_tab_new_def)

end
