(* ===== verification/List_State.thy ===== *)
theory List_State
  imports Prelude Geometry
begin

text \<open>
  The state of the list element, from \<open>src/src/elements/list.rs\<close>: items of different heights that
  are measured as they are needed, and a scroll position relative to an item.  The tree of items
  (\<open>SumTree\<close>) is a library: its operations are the parameter \<open>T\<close>, and what is used of it is stated in
  \<open>item_tree_ok\<close>.  A cursor is the index of its item.  Pixels are exact.  What a scroll handler is
  called with is returned; focus handles are moved, not counted.
\<close>

section \<open>State\<close>

datatype list_alignment = Align_top | Align_bottom

datatype list_measuring = Measure bool | Visible

record 'f list_offset =
  lo_item_ix :: nat
  lo_offset :: 'f

datatype ('h, 'f) list_item =
    Unmeasured (li_focus: "'h option")
  | Measured (li_measured: "'f size2") (li_focus: "'h option")

record 'f list_summary =
  sm_count :: nat
  sm_rendered :: nat
  sm_unrendered :: nat
  sm_height :: 'f
  sm_focus :: bool

datatype bias = Bias_left | Bias_right

datatype 'f list_target = To_count nat | To_height 'f

record ('t, 'i, 'f) item_tree =
  it_from_iter :: "'i list \<Rightarrow> 't"
  it_iter :: "'t \<Rightarrow> 'i list"
  it_summary :: "'t \<Rightarrow> 'f list_summary"
  it_slice :: "'t \<Rightarrow> nat \<Rightarrow> 't"
  it_suffix :: "'t \<Rightarrow> nat \<Rightarrow> 't"
  it_extend :: "'t \<Rightarrow> 'i list \<Rightarrow> 't"
  it_append :: "'t \<Rightarrow> 't \<Rightarrow> 't"
  it_seek_forward :: "'t \<Rightarrow> nat \<Rightarrow> 'f list_target \<Rightarrow> bias \<Rightarrow> nat"
  it_start :: "'t \<Rightarrow> nat \<Rightarrow> 'f list_summary"
  it_item :: "'t \<Rightarrow> nat \<Rightarrow> 'i option"

record ('t, 'f) list_state =
  ls_bounds :: "'f bounds option"
  ls_padding :: "'f edges option"
  ls_items :: 't
  ls_scroll_top :: "'f list_offset option"
  ls_alignment :: list_alignment
  ls_overdraw :: 'f
  ls_reset :: bool
  ls_has_handler :: bool
  ls_drag_start_height :: "'f option"
  ls_measuring :: list_measuring

record 'f scroll_event =
  se_first :: nat
  se_end :: nat
  se_count :: nat
  se_is_scrolled :: bool

definition item_size :: "('h, 'f) list_item \<Rightarrow> 'f size2 option" where
  "item_size i = (case i of Measured z _ \<Rightarrow> Some z | Unmeasured _ \<Rightarrow> None)"

definition item_summary :: "('h, 'f::linordered_idom) list_item \<Rightarrow> 'f list_summary" where
  "item_summary i = (case i of
     Unmeasured h \<Rightarrow> \<lparr>sm_count = 1, sm_rendered = 0, sm_unrendered = 1, sm_height = 0, sm_focus = (h \<noteq> None)\<rparr>
   | Measured z h \<Rightarrow> \<lparr>sm_count = 1, sm_rendered = 1, sm_unrendered = 0, sm_height = sz_height z, sm_focus = (h \<noteq> None)\<rparr>)"

definition summary_zero :: "'f::linordered_idom list_summary" where
  "summary_zero = \<lparr>sm_count = 0, sm_rendered = 0, sm_unrendered = 0, sm_height = 0, sm_focus = False\<rparr>"

definition add_summary :: "'f::linordered_idom list_summary \<Rightarrow> 'f list_summary \<Rightarrow> 'f list_summary" where
  "add_summary a b = \<lparr>sm_count = sm_count a + sm_count b, sm_rendered = sm_rendered a + sm_rendered b,
     sm_unrendered = sm_unrendered a + sm_unrendered b, sm_height = sm_height a + sm_height b, sm_focus = (sm_focus a \<or> sm_focus b)\<rparr>"

definition measuring_reset :: "list_measuring \<Rightarrow> list_measuring" where
  "measuring_reset m = (case m of Measure _ \<Rightarrow> Measure False | Visible \<Rightarrow> Visible)"

section \<open>The tree\<close>

definition list_total :: "('h, 'f::linordered_idom) list_item list \<Rightarrow> 'f list_summary" where
  "list_total xs = foldl (\<lambda>a i. add_summary a (item_summary i)) summary_zero xs"

text \<open>A seek passes the items that end before the target or, with a bias to the right, at it.\<close>

definition passes :: "('h, 'f::linordered_idom) list_item list \<Rightarrow> 'f list_target \<Rightarrow> bias \<Rightarrow> nat \<Rightarrow> bool" where
  "passes xs target b i =
     (let e = list_total (take (Suc i) xs) in
      case target of
        To_count n \<Rightarrow> (case b of Bias_left \<Rightarrow> sm_count e < n | Bias_right \<Rightarrow> sm_count e \<le> n)
      | To_height h \<Rightarrow> (case b of Bias_left \<Rightarrow> sm_height e < h | Bias_right \<Rightarrow> sm_height e \<le> h))"

definition item_tree_ok :: "('t, ('h, 'f::linordered_idom) list_item, 'f) item_tree \<Rightarrow> bool" where
  "item_tree_ok T \<longleftrightarrow>
     (\<forall>xs. it_iter T (it_from_iter T xs) = xs) \<and>
     (\<forall>t. it_summary T t = list_total (it_iter T t)) \<and>
     (\<forall>t n. it_iter T (it_slice T t n) = take n (it_iter T t)) \<and>
     (\<forall>t n. it_iter T (it_suffix T t n) = drop n (it_iter T t)) \<and>
     (\<forall>t xs. it_iter T (it_extend T t xs) = it_iter T t @ xs) \<and>
     (\<forall>t u. it_iter T (it_append T t u) = it_iter T t @ it_iter T u) \<and>
     (\<forall>t i target b. i \<le> length (it_iter T t) \<longrightarrow> it_seek_forward T t i target b =
        i + length (takeWhile (passes (it_iter T t) target b) [i..<length (it_iter T t)])) \<and>
     (\<forall>t i. it_start T t i = list_total (take i (it_iter T t))) \<and>
     (\<forall>t i. it_item T t i = (if i < length (it_iter T t) then Some (it_iter T t ! i) else None))"

definition it_seek :: "('t, 'i, 'f) item_tree \<Rightarrow> 't \<Rightarrow> 'f list_target \<Rightarrow> bias \<Rightarrow> nat" where
  "it_seek T t = it_seek_forward T t 0"

section \<open>Operations on the state\<close>

definition splice_focusable :: "('t, ('h, 'f::linordered_idom) list_item, 'f) item_tree \<Rightarrow> nat \<Rightarrow> nat \<Rightarrow> 'h option list \<Rightarrow>
    ('t, 'f) list_state \<Rightarrow> ('t, 'f) list_state" where
  "splice_focusable T a e handles s =
     (let items = it_append T (it_extend T (it_slice T (ls_items s) a) (map Unmeasured handles)) (it_suffix T (ls_items s) e)
      in s\<lparr>ls_items := items, ls_scroll_top := map_option (\<lambda>pos.
          if a \<le> lo_item_ix pos \<and> lo_item_ix pos < e then \<lparr>lo_item_ix = a, lo_offset = 0\<rparr>
          else if e \<le> lo_item_ix pos then pos\<lparr>lo_item_ix := lo_item_ix pos - (e - a) + length handles\<rparr>
          else pos) (ls_scroll_top s)\<rparr>)"

definition splice :: "('t, ('h, 'f::linordered_idom) list_item, 'f) item_tree \<Rightarrow> nat \<Rightarrow> nat \<Rightarrow> nat \<Rightarrow>
    ('t, 'f) list_state \<Rightarrow> ('t, 'f) list_state" where
  "splice T a e n s = splice_focusable T a e (replicate n None) s"

definition list_state_new :: "('t, ('h, 'f::linordered_idom) list_item, 'f) item_tree \<Rightarrow> nat \<Rightarrow> list_alignment \<Rightarrow> 'f \<Rightarrow> ('t, 'f) list_state" where
  "list_state_new T n alignment overdraw =
     splice T 0 0 n \<lparr>ls_bounds = None, ls_padding = None, ls_items = it_from_iter T [], ls_scroll_top = None, ls_alignment = alignment,
       ls_overdraw = overdraw, ls_reset = False, ls_has_handler = False, ls_drag_start_height = None, ls_measuring = Visible\<rparr>"

definition measure_all :: "('t, 'f) list_state \<Rightarrow> ('t, 'f) list_state" where
  "measure_all s = s\<lparr>ls_measuring := Measure False\<rparr>"

definition item_count :: "('t, 'i, 'f) item_tree \<Rightarrow> ('t, 'f) list_state \<Rightarrow> nat" where
  "item_count T s = sm_count (it_summary T (ls_items s))"

definition list_reset :: "('t, ('h, 'f::linordered_idom) list_item, 'f) item_tree \<Rightarrow> nat \<Rightarrow> ('t, 'f) list_state \<Rightarrow> ('t, 'f) list_state" where
  "list_reset T n s = splice T 0 (item_count T s) n
     (s\<lparr>ls_reset := True, ls_measuring := measuring_reset (ls_measuring s), ls_scroll_top := None, ls_drag_start_height := None\<rparr>)"

definition set_scroll_handler :: "('t, 'f) list_state \<Rightarrow> ('t, 'f) list_state" where
  "set_scroll_handler s = s\<lparr>ls_has_handler := True\<rparr>"

definition logical_scroll_top :: "('t, 'i, 'f::linordered_idom) item_tree \<Rightarrow> ('t, 'f) list_state \<Rightarrow> 'f list_offset" where
  "logical_scroll_top T s =
     (case ls_scroll_top s of
        Some pos \<Rightarrow> pos
      | None \<Rightarrow> (case ls_alignment s of
          Align_top \<Rightarrow> \<lparr>lo_item_ix = 0, lo_offset = 0\<rparr>
        | Align_bottom \<Rightarrow> \<lparr>lo_item_ix = item_count T s, lo_offset = 0\<rparr>))"

definition scroll_top :: "('t, 'i, 'f::linordered_idom) item_tree \<Rightarrow> ('t, 'f) list_state \<Rightarrow> 'f list_offset \<Rightarrow> 'f" where
  "scroll_top T s pos =
     sm_height (it_start T (ls_items s) (it_seek T (ls_items s) (To_count (lo_item_ix pos)) Bias_right)) + lo_offset pos"

text \<open>The offset of a pixel position: the item there, and how far it is scrolled.\<close>

definition offset_at :: "('t, 'i, 'f::linordered_idom) item_tree \<Rightarrow> 't \<Rightarrow> bias \<Rightarrow> 'f \<Rightarrow> 'f list_offset" where
  "offset_at T t b y =
     (let start = it_start T t (it_seek T t (To_height y) b) in \<lparr>lo_item_ix = sm_count start, lo_offset = y - sm_height start\<rparr>)"

definition scroll_by :: "('t, 'i, 'f::linordered_idom) item_tree \<Rightarrow> 'f \<Rightarrow> ('t, 'f) list_state \<Rightarrow> ('t, 'f) list_state" where
  "scroll_by T distance s =
     (if distance = 0 then s
      else let current = logical_scroll_top T s;
               i = it_seek T (ls_items s) (To_count (lo_item_ix current)) Bias_right;
               start_pixel_offset = sm_height (it_start T (ls_items s) i) + lo_offset current;
               new_pixel_offset = max (start_pixel_offset + distance) 0;
               j = (if start_pixel_offset < new_pixel_offset
                    then it_seek_forward T (ls_items s) i (To_height new_pixel_offset) Bias_right
                    else it_seek T (ls_items s) (To_height new_pixel_offset) Bias_right);
               start = it_start T (ls_items s) j
           in s\<lparr>ls_scroll_top := Some \<lparr>lo_item_ix = sm_count start, lo_offset = new_pixel_offset - sm_height start\<rparr>\<rparr>)"

definition scroll_to :: "('t, 'i, 'f::linordered_idom) item_tree \<Rightarrow> 'f list_offset \<Rightarrow> ('t, 'f) list_state \<Rightarrow> ('t, 'f) list_state" where
  "scroll_to T pos s =
     s\<lparr>ls_scroll_top := Some (if item_count T s \<le> lo_item_ix pos then \<lparr>lo_item_ix = item_count T s, lo_offset = 0\<rparr> else pos)\<rparr>"

definition bounds_or_zero :: "'f::linordered_idom bounds option \<Rightarrow> 'f bounds" where
  "bounds_or_zero b = (case b of None \<Rightarrow> Bounds (Point 0 0) (Size 0 0) | Some b \<Rightarrow> b)"

definition padding_or_zero :: "'f::linordered_idom edges option \<Rightarrow> 'f edges" where
  "padding_or_zero p = (case p of None \<Rightarrow> Edges 0 0 0 0 | Some p \<Rightarrow> p)"

definition scroll_to_reveal_item :: "('t, 'i, 'f::linordered_idom) item_tree \<Rightarrow> nat \<Rightarrow> ('t, 'f) list_state \<Rightarrow> ('t, 'f) list_state" where
  "scroll_to_reveal_item T ix s =
     (let pos = logical_scroll_top T s;
          height = sz_height (bd_size (bounds_or_zero (ls_bounds s)));
          padding = padding_or_zero (ls_padding s);
          t = ls_items s
      in if ix \<le> lo_item_ix pos then s\<lparr>ls_scroll_top := Some \<lparr>lo_item_ix = ix, lo_offset = 0\<rparr>\<rparr>
         else let bottom = sm_height (it_start T t (it_seek T t (To_count (ix + 1)) Bias_right)) + e_top padding;
                  goal_top = max 0 (bottom - height + e_bottom padding);
                  start = it_start T t (it_seek T t (To_height goal_top) Bias_left)
              in s\<lparr>ls_scroll_top := Some
                   (if lo_item_ix pos \<le> sm_count start
                    then \<lparr>lo_item_ix = sm_count start, lo_offset = goal_top - sm_height start\<rparr> else pos)\<rparr>)"

definition bounds_for_item :: "('t, ('h, 'f::linordered_idom) list_item, 'f) item_tree \<Rightarrow> nat \<Rightarrow> ('t, 'f) list_state \<Rightarrow> 'f bounds option" where
  "bounds_for_item T ix s =
     (let b = bounds_or_zero (ls_bounds s);
          pos = logical_scroll_top T s;
          t = ls_items s
      in if ix < lo_item_ix pos then None
         else let i = it_seek T t (To_count (lo_item_ix pos)) Bias_right;
                  y = sm_height (it_start T t i) + lo_offset pos;
                  j = it_seek_forward T t i (To_count ix) Bias_right;
                  start = it_start T t j
              in case it_item T t j of
                  Some (Measured z _) \<Rightarrow>
                    if sm_count start = ix
                    then (let item_top = pt_y (bd_origin b) + sm_height start - y
                          in Some (from_corners (Point (pt_x (bd_origin b)) item_top)
                               (Point (pt_x (bd_origin b) + sz_width (bd_size b)) (item_top + sz_height z))))
                    else None
                | _ \<Rightarrow> None)"

definition scrollbar_drag_started :: "('t, 'i, 'f) item_tree \<Rightarrow> ('t, 'f) list_state \<Rightarrow> ('t, 'f) list_state" where
  "scrollbar_drag_started T s = s\<lparr>ls_drag_start_height := Some (sm_height (it_summary T (ls_items s)))\<rparr>"

definition scrollbar_drag_ended :: "('t, 'f) list_state \<Rightarrow> ('t, 'f) list_state" where
  "scrollbar_drag_ended s = s\<lparr>ls_drag_start_height := None\<rparr>"

definition drag_height :: "('t, 'i, 'f) item_tree \<Rightarrow> ('t, 'f) list_state \<Rightarrow> 'f" where
  "drag_height T s = (case ls_drag_start_height s of None \<Rightarrow> sm_height (it_summary T (ls_items s)) | Some h \<Rightarrow> h)"

definition max_offset_for_scrollbar :: "('t, 'i, 'f::linordered_idom) item_tree \<Rightarrow> ('t, 'f) list_state \<Rightarrow> 'f size2" where
  "max_offset_for_scrollbar T s = Size 0 (max 0 (drag_height T s - sz_height (bd_size (bounds_or_zero (ls_bounds s)))))"

definition scroll_px_offset_for_scrollbar :: "('t, 'i, 'f::linordered_idom) item_tree \<Rightarrow> ('t, 'f) list_state \<Rightarrow> 'f point" where
  "scroll_px_offset_for_scrollbar T s =
     (let drag_offset = sm_height (it_summary T (ls_items s)) - drag_height T s
      in Point 0 (- (scroll_top T s (logical_scroll_top T s) - drag_offset)))"

definition viewport_bounds :: "('t, 'f::linordered_idom) list_state \<Rightarrow> 'f bounds" where
  "viewport_bounds s = bounds_or_zero (ls_bounds s)"

definition visible_range :: "('t, 'i, 'f::linordered_idom) item_tree \<Rightarrow> 'f \<Rightarrow> 'f list_offset \<Rightarrow> ('t, 'f) list_state \<Rightarrow> nat \<times> nat" where
  "visible_range T height pos s =
     (let t = ls_items s;
          i = it_seek T t (To_count (lo_item_ix pos)) Bias_right;
          start_y = sm_height (it_start T t i) + lo_offset pos;
          j = it_seek_forward T t i (To_height (start_y + height)) Bias_left
      in (lo_item_ix pos, sm_count (it_start T t j) + 1))"

text \<open>Setting the scroll position in pixels, clamped to the content and its padding.\<close>

definition scroll_max :: "('t, 'i, 'f::linordered_idom) item_tree \<Rightarrow> 'f \<Rightarrow> ('t, 'f) list_state \<Rightarrow> 'f" where
  "scroll_max T height s =
     (let padding = padding_or_zero (ls_padding s)
      in max (sm_height (it_summary T (ls_items s)) + e_top padding + e_bottom padding - height) 0)"

definition set_scroll_px :: "('t, 'i, 'f::linordered_idom) item_tree \<Rightarrow> 'f \<Rightarrow> 'f \<Rightarrow> ('t, 'f) list_state \<Rightarrow> ('t, 'f) list_state" where
  "set_scroll_px T limit y s =
     (if ls_alignment s = Align_bottom \<and> y = limit then s\<lparr>ls_scroll_top := None\<rparr>
      else s\<lparr>ls_scroll_top := Some (offset_at T (ls_items s) Bias_right y)\<rparr>)"

definition list_scroll :: "('t, 'i, 'f::linordered_idom) item_tree \<Rightarrow> 'f list_offset \<Rightarrow> 'f \<Rightarrow> 'f point \<Rightarrow> ('t, 'f) list_state \<Rightarrow>
    'f scroll_event option \<times> ('t, 'f) list_state" where
  "list_scroll T pos height delta s =
     (if ls_reset s then (None, s)
      else let limit = scroll_max T height s;
               y = min (max (scroll_top T s pos - pt_y delta) 0) limit;
               s = set_scroll_px T limit y s
           in (if ls_has_handler s
               then Some (case visible_range T height pos s of (first, end) \<Rightarrow>
                 \<lparr>se_first = first, se_end = end, se_count = item_count T s, se_is_scrolled = (ls_scroll_top s \<noteq> None)\<rparr>)
               else None, s))"

definition set_offset_from_scrollbar :: "('t, 'i, 'f::linordered_idom) item_tree \<Rightarrow> 'f point \<Rightarrow> ('t, 'f) list_state \<Rightarrow> ('t, 'f) list_state" where
  "set_offset_from_scrollbar T p s =
     (case ls_bounds s of
        None \<Rightarrow> s
      | Some b \<Rightarrow>
         (let limit = scroll_max T (sz_height (bd_size b)) s;
              drag_offset = sm_height (it_summary T (ls_items s)) - drag_height T s
          in set_scroll_px T limit (min (max \<bar>pt_y p - drag_offset\<bar> 0) limit) s))"

end
