(* ===== verification/List_Layout.thy ===== *)
theory List_Layout
  imports List_State
begin

text \<open>
  Laying out the list element, from \<open>src/src/elements/list.rs\<close>: which items are rendered and
  measured, and where the scroll position ends up when they do not fill the list.  Rendering an item
  and laying it out is the parameter \<open>render\<close>, which gives its size for an available width;
  \<open>focused\<close> says what focus handles contain the focus, and \<open>autoscroll\<close> what the elements of an item
  ask for when prepainted at an origin.  What they do to the window is left out.
\<close>

section \<open>Items\<close>

record 'f item_layout =
  il_index :: nat
  il_size :: "'f size2"

record 'f layout_response =
  lr_max_item_width :: 'f
  lr_scroll_top :: "'f list_offset"
  lr_layouts :: "'f item_layout list"

record ('h, 'f) layout_progress =
  lp_height :: 'f
  lp_width :: 'f
  lp_measured :: "('h, 'f) list_item list"
  lp_layouts :: "'f item_layout list"
  lp_focused :: bool

definition contains_focused :: "('h \<Rightarrow> bool) \<Rightarrow> ('h, 'f) list_item \<Rightarrow> bool" where
  "contains_focused focused i = (case li_focus i of None \<Rightarrow> False | Some h \<Rightarrow> focused h)"

definition size_or :: "'f size2 \<Rightarrow> ('h, 'f) list_item \<Rightarrow> 'f size2" where
  "size_or z i = (case item_size i of None \<Rightarrow> z | Some z \<Rightarrow> z)"

definition layout_all_items :: "('t, ('h, 'f::linordered_idom) list_item, 'f) item_tree \<Rightarrow> ('f option \<Rightarrow> nat \<Rightarrow> 'f size2) \<Rightarrow> 'f \<Rightarrow>
    ('t, 'f) list_state \<Rightarrow> ('t, 'f) list_state" where
  "layout_all_items T render width s =
     (case ls_measuring s of
        Measure False \<Rightarrow> s\<lparr>ls_measuring := Measure True,
          ls_items := it_from_iter T (map (\<lambda>(ix, i). Measured (size_or (render (Some width) ix) i) (li_focus i)) (enumerated (it_iter T (ls_items s))))\<rparr>
      | _ \<Rightarrow> s)"

section \<open>The items in view\<close>

text \<open>From the item at the top of the view downward, with those in the overdraw below it.\<close>

fun layout_down :: "(nat \<Rightarrow> 'f::linordered_idom size2) \<Rightarrow> ('h \<Rightarrow> bool) \<Rightarrow> 'f \<Rightarrow> 'f \<Rightarrow> 'f \<Rightarrow> nat \<Rightarrow> ('h, 'f) list_item list \<Rightarrow>
    ('h, 'f) layout_progress \<Rightarrow> ('h, 'f) layout_progress" where
  "layout_down render focused available overdraw offset ix [] p = p"
| "layout_down render focused available overdraw offset ix (i # is) p =
     (let visible_height = lp_height p - offset in
      if available + overdraw \<le> visible_height then p
      else let in_view = visible_height < available;
               z = (if in_view then render ix else size_or (render ix) i)
           in layout_down render focused available overdraw offset (ix + 1) is
                \<lparr>lp_height = lp_height p + sz_height z, lp_width = max (lp_width p) (sz_width z),
                 lp_measured = lp_measured p @ [Measured z (li_focus i)],
                 lp_layouts = (if in_view then lp_layouts p @ [\<lparr>il_index = ix, il_size = z\<rparr>] else lp_layouts p),
                 lp_focused = (lp_focused p \<or> in_view \<and> contains_focused focused i)\<rparr>)"

text \<open>
  Upward from the cursor, before item \<open>j\<close>, while the view is not filled; moving before the first
  item ends the loop.
\<close>

fun layout_up :: "(nat \<Rightarrow> 'f::linordered_idom size2) \<Rightarrow> ('h \<Rightarrow> bool) \<Rightarrow> (nat \<Rightarrow> ('h, 'f) list_item option) \<Rightarrow> 'f \<Rightarrow> nat \<Rightarrow>
    ('h, 'f) layout_progress \<Rightarrow> nat \<times> ('h, 'f) layout_progress" where
  "layout_up render focused item available 0 p = (0, p)"
| "layout_up render focused item available (Suc j) p =
     (if lp_height p < available
      then case item j of
          None \<Rightarrow> (j, p)
        | Some i \<Rightarrow> layout_up render focused item available j
            (p\<lparr>lp_height := lp_height p + sz_height (render j), lp_measured := Measured (render j) (li_focus i) # lp_measured p,
               lp_layouts := \<lparr>il_index = j, il_size = render j\<rparr> # lp_layouts p,
               lp_focused := lp_focused p \<or> contains_focused focused i\<rparr>)
      else (Suc j, p))"

text \<open>The items in the overdraw above the view are measured only.\<close>

fun layout_lead :: "(nat \<Rightarrow> 'f::linordered_idom size2) \<Rightarrow> (nat \<Rightarrow> ('h, 'f) list_item option) \<Rightarrow> 'f \<Rightarrow> nat \<Rightarrow> 'f \<Rightarrow>
    ('h, 'f) list_item list \<Rightarrow> nat \<times> ('h, 'f) list_item list" where
  "layout_lead render item overdraw 0 lead ms = (0, ms)"
| "layout_lead render item overdraw (Suc j) lead ms =
     (if lead < overdraw
      then case item j of
          None \<Rightarrow> (j, ms)
        | Some i \<Rightarrow> (let z = size_or (render j) i
            in layout_lead render item overdraw j (lead + sz_height z) (Measured z (li_focus i) # ms))
      else (Suc j, ms))"

definition focused_layout :: "(nat \<Rightarrow> 'f size2) \<Rightarrow> ('h \<Rightarrow> bool) \<Rightarrow> ('h, 'f) list_item list \<Rightarrow> 'f item_layout list" where
  "focused_layout render focused is =
     (case List.find (\<lambda>(_, i). li_focus i \<noteq> None \<and> contains_focused focused i) (enumerated is) of
        None \<Rightarrow> []
      | Some (ix, _) \<Rightarrow> [\<lparr>il_index = ix, il_size = render ix\<rparr>])"

definition adjust_scroll_top :: "list_alignment \<Rightarrow> 'f::linordered_idom \<Rightarrow> nat \<Rightarrow> 'f \<Rightarrow> 'f list_offset \<times> 'f list_offset option" where
  "adjust_scroll_top alignment available j rendered_height =
     (case alignment of
        Align_top \<Rightarrow> (let pos = \<lparr>lo_item_ix = j, lo_offset = max (rendered_height - available) 0\<rparr> in (pos, Some pos))
      | Align_bottom \<Rightarrow> (\<lparr>lo_item_ix = j, lo_offset = rendered_height - available\<rparr>, None))"

definition layout_items :: "('t, ('h, 'f::linordered_idom) list_item, 'f) item_tree \<Rightarrow> ('f option \<Rightarrow> nat \<Rightarrow> 'f size2) \<Rightarrow> ('h \<Rightarrow> bool) \<Rightarrow>
    'f option \<Rightarrow> 'f \<Rightarrow> 'f edges \<Rightarrow> ('t, 'f) list_state \<Rightarrow> 'f layout_response \<times> ('t, 'f) list_state" where
  "layout_items T render focused width available padding s =
     (let t = ls_items s;
          pos = logical_scroll_top T s;
          i = it_seek T t (To_count (lo_item_ix pos)) Bias_right;
          p = layout_down (render width) focused available (ls_overdraw s) (lo_offset pos) (lo_item_ix pos) (drop i (it_iter T t))
                \<lparr>lp_height = e_top padding, lp_width = 0, lp_measured = [], lp_layouts = [], lp_focused = False\<rparr>;
          p = p\<lparr>lp_height := lp_height p + e_bottom padding\<rparr>;
          (j, p, pos, logical) =
            (if lp_height p - lo_offset pos < available
             then let (j, p) = layout_up (render width) focused (it_item T t) available i p;
                      (pos, logical) = adjust_scroll_top (ls_alignment s) available j (lp_height p)
                  in (j, p, pos, logical)
             else (i, p, pos, ls_scroll_top s));
          (k, measured) = layout_lead (render width) (it_item T t) (ls_overdraw s) j (lo_offset pos) (lp_measured p);
          items = it_append T (it_extend T (it_slice T t k) measured) (it_suffix T t (k + length measured));
          layouts = (if lp_focused p then lp_layouts p else lp_layouts p @ focused_layout (render width) focused (it_iter T items))
      in (\<lparr>lr_max_item_width = lp_width p, lr_scroll_top = pos, lr_layouts = layouts\<rparr>,
          s\<lparr>ls_items := items, ls_scroll_top := logical\<rparr>))"

section \<open>Prepainting\<close>

text \<open>Upward from item \<open>j\<close> until the height is used up.\<close>

fun fill_upward :: "(nat \<Rightarrow> 'f::linordered_idom size2) \<Rightarrow> (nat \<Rightarrow> ('h, 'f) list_item option) \<Rightarrow> nat \<Rightarrow> 'f \<Rightarrow> nat \<times> 'f" where
  "fill_upward render item 0 height = (0, height)"
| "fill_upward render item (Suc j) height =
     (if 0 < height
      then case item j of None \<Rightarrow> (j, height) | Some i \<Rightarrow> fill_upward render item j (height - sz_height (size_or (render j) i))
      else (Suc j, height))"

definition autoscroll_offset :: "('t, ('h, 'f::linordered_idom) list_item, 'f) item_tree \<Rightarrow> (nat \<Rightarrow> 'f size2) \<Rightarrow> 't \<Rightarrow> 'f bounds \<Rightarrow> 'f edges \<Rightarrow>
    nat \<Rightarrow> 'f point \<Rightarrow> 'f bounds \<Rightarrow> 'f list_offset option" where
  "autoscroll_offset T render t b padding ix origin wanted =
     (if pt_y (bd_origin wanted) < pt_y (bd_origin b)
      then Some \<lparr>lo_item_ix = ix, lo_offset = pt_y (bd_origin wanted) - pt_y origin\<rparr>
      else if pt_y (bottom_right b) < pt_y (bottom_right wanted)
      then (let height = sz_height (bd_size b) - e_top padding - e_bottom padding - (pt_y (bottom_right wanted) - pt_y origin);
                (j, height) = fill_upward render (it_item T t) (it_seek T t (To_count ix) Bias_right) height
            in Some \<lparr>lo_item_ix = j, lo_offset = (if height < 0 then - height else 0)\<rparr>)
      else None)"

fun prepaint_layouts :: "(nat \<Rightarrow> 'f::linordered_idom point \<Rightarrow> 'f list_offset option) \<Rightarrow> 'f point \<Rightarrow> 'f item_layout list \<Rightarrow> 'f list_offset option" where
  "prepaint_layouts request origin [] = None"
| "prepaint_layouts request origin (l # ls) =
     (case request (il_index l) origin of
        Some pos \<Rightarrow> Some pos
      | None \<Rightarrow> prepaint_layouts request (Point (pt_x origin) (pt_y origin + sz_height (il_size l))) ls)"

definition prepaint_items :: "('t, ('h, 'f::linordered_idom) list_item, 'f) item_tree \<Rightarrow> ('f option \<Rightarrow> nat \<Rightarrow> 'f size2) \<Rightarrow> ('h \<Rightarrow> bool) \<Rightarrow>
    (nat \<Rightarrow> 'f point \<Rightarrow> 'f bounds option) \<Rightarrow> 'f bounds \<Rightarrow> 'f edges \<Rightarrow> bool \<Rightarrow> ('t, 'f) list_state \<Rightarrow>
    ('f list_offset, 'f layout_response) result \<times> ('t, 'f) list_state" where
  "prepaint_items T render focused autoscroll b padding scrolls s =
     (let s = layout_all_items T render (sz_width (bd_size b)) s;
          (response, s) = layout_items T render focused (Some (sz_width (bd_size b))) (sz_height (bd_size b)) padding s
      in if e_top padding + e_bottom padding < sz_height (bd_size b)
         then let origin = Point (pt_x (bd_origin b)) (pt_y (bd_origin b) + e_top padding - lo_offset (lr_scroll_top response));
                  request = (\<lambda>ix at_origin. if scrolls
                    then Option.bind (autoscroll ix at_origin)
                      (autoscroll_offset T (render (Some (sz_width (bd_size b)))) (ls_items s) b padding ix at_origin)
                    else None)
              in case prepaint_layouts request origin (lr_layouts response) of
                  Some pos \<Rightarrow> (Inl pos, s)
                | None \<Rightarrow> (Inr response, s)
         else (Inr (response\<lparr>lr_layouts := []\<rparr>), s))"

text \<open>A list of another width has to measure all of its items again.\<close>

definition forget_sizes :: "('t, ('h, 'f::linordered_idom) list_item, 'f) item_tree \<Rightarrow> 'f bounds \<Rightarrow> ('t, 'f) list_state \<Rightarrow> ('t, 'f) list_state" where
  "forget_sizes T b s =
     (if (case ls_bounds s of None \<Rightarrow> True | Some l \<Rightarrow> sz_width (bd_size l) \<noteq> sz_width (bd_size b))
      then s\<lparr>ls_items := it_from_iter T (map (\<lambda>i. Unmeasured (li_focus i)) (it_iter T (ls_items s)))\<rparr> else s)"

text \<open>A panic is \<open>None\<close>: the layout without autoscroll is unwrapped.\<close>

definition list_prepaint :: "('t, ('h, 'f::linordered_idom) list_item, 'f) item_tree \<Rightarrow> ('f option \<Rightarrow> nat \<Rightarrow> 'f size2) \<Rightarrow> ('h \<Rightarrow> bool) \<Rightarrow>
    (nat \<Rightarrow> 'f point \<Rightarrow> 'f bounds option) \<Rightarrow> 'f bounds \<Rightarrow> 'f edges \<Rightarrow> ('t, 'f) list_state \<Rightarrow>
    ('f layout_response \<times> ('t, 'f) list_state) option" where
  "list_prepaint T render focused autoscroll b padding s =
     (let s = forget_sizes T b (s\<lparr>ls_reset := False\<rparr>);
          (layout, s) =
            (case prepaint_items T render focused autoscroll b padding True s of
               (Inr layout, s) \<Rightarrow> (Inr layout, s)
             | (Inl pos, s) \<Rightarrow> prepaint_items T render focused autoscroll b padding False (s\<lparr>ls_scroll_top := Some pos\<rparr>))
      in case layout of
          Inl _ \<Rightarrow> None
        | Inr layout \<Rightarrow> Some (layout, s\<lparr>ls_bounds := Some b, ls_padding := Some padding\<rparr>))"

end
