(* ===== verification/List_Scroll.thy ===== *)
theory List_Scroll
  imports List_Layout
begin

text \<open>
  What the list element guarantees: its pixel positions and item offsets agree, changes of its items
  keep what is at the top, a revealed item is in full view, and the items it lays out follow one
  another from the top of the view and fill it.
\<close>

section \<open>Positions\<close>

definition prefix_height :: "('h, 'f::linordered_idom) list_item list \<Rightarrow> nat \<Rightarrow> 'f" where
  "prefix_height xs i = sm_height (list_total (take i xs))"

definition list_items_ok :: "('h, 'f::linordered_idom) list_item list \<Rightarrow> bool" where
  "list_items_ok xs \<longleftrightarrow> (\<forall>i \<in> set xs. 0 \<le> sm_height (item_summary i))"

lemma item_treeD:
  assumes "item_tree_ok T"
  shows "it_iter T (it_from_iter T xs) = xs" "it_summary T t = list_total (it_iter T t)"
    "it_iter T (it_slice T t n) = take n (it_iter T t)" "it_iter T (it_suffix T t n) = drop n (it_iter T t)"
    "it_iter T (it_extend T t xs) = it_iter T t @ xs" "it_iter T (it_append T t u) = it_iter T t @ it_iter T u"
    "i \<le> length (it_iter T t) \<Longrightarrow> it_seek_forward T t i target b =
        i + length (takeWhile (passes (it_iter T t) target b) [i..<length (it_iter T t)])"
    "it_start T t i = list_total (take i (it_iter T t))"
    "it_item T t i = (if i < length (it_iter T t) then Some (it_iter T t ! i) else None)"
  using assms unfolding item_tree_ok_def by blast+

lemma list_total_snoc: "list_total (xs @ [i]) = add_summary (list_total xs) (item_summary i)"
  by (simp add: list_total_def)

lemma list_total_count [simp]: "sm_count (list_total xs) = length xs"
proof (induction xs rule: rev_induct)
  case (snoc i xs)
  then show ?case by (cases i) (simp_all add: list_total_snoc add_summary_def item_summary_def)
qed (simp add: list_total_def summary_zero_def)

lemma prefix_height_0 [simp]: "prefix_height xs 0 = 0"
  by (simp add: prefix_height_def list_total_def summary_zero_def)

lemma prefix_height_Suc: "i < length xs \<Longrightarrow> prefix_height xs (Suc i) = prefix_height xs i + sm_height (item_summary (xs ! i))"
  by (simp add: prefix_height_def take_Suc_conv_app_nth list_total_snoc add_summary_def)



lemma takeWhile_upt: "a \<le> m \<Longrightarrow> m \<le> b \<Longrightarrow> (\<And>i. a \<le> i \<Longrightarrow> i < m \<Longrightarrow> P i) \<Longrightarrow> (m < b \<Longrightarrow> \<not> P m) \<Longrightarrow> takeWhile P [a..<b] = [a..<m]"
proof -
  assume m: "a \<le> m" "m \<le> b" and P: "\<And>i. a \<le> i \<Longrightarrow> i < m \<Longrightarrow> P i" and not: "m < b \<Longrightarrow> \<not> P m"
  have "[a..<b] = [a..<m] @ [m..<b]" using m upt_add_eq_append [of a m "b - m"] by simp
  moreover have "takeWhile P ([a..<m] @ [m..<b]) = [a..<m] @ takeWhile P [m..<b]" by (rule takeWhile_append2) (simp add: P)
  moreover have "takeWhile P [m..<b] = []" using not by (cases "m < b") (simp_all add: upt_conv_Cons)
  ultimately show ?thesis by simp
qed

lemma seek_count:
  assumes T: "item_tree_ok T" and i: "i \<le> n" "i \<le> length (it_iter T t)"
  shows "it_seek_forward T t i (To_count n) Bias_right = min n (length (it_iter T t))"
proof -
  have "takeWhile (passes (it_iter T t) (To_count n) Bias_right) [i..<length (it_iter T t)] = [i..<min n (length (it_iter T t))]"
    using i by (intro takeWhile_upt) (auto simp: passes_def min_def split: if_splits)
  then show ?thesis using item_treeD(7) [OF T i(2)] i by simp
qed

lemma seek_height:
  fixes y b
  assumes T: "item_tree_ok T" and i: "i \<le> length (it_iter T t)"
  defines "j \<equiv> it_seek_forward T t i (To_height y) b"
  shows "i \<le> j" "j \<le> length (it_iter T t)"
    "i < j \<Longrightarrow> if b = Bias_left then prefix_height (it_iter T t) j < y else prefix_height (it_iter T t) j \<le> y"
    "j < length (it_iter T t) \<Longrightarrow> if b = Bias_left then y \<le> prefix_height (it_iter T t) (Suc j) else y < prefix_height (it_iter T t) (Suc j)"
proof -
  let ?xs = "it_iter T t" and ?P = "passes (it_iter T t) (To_height y) b"
  let ?w = "takeWhile ?P [i..<length ?xs]"
  have j: "j = i + length ?w" unfolding j_def by (rule item_treeD(7) [OF T i])
  have len: "length ?w \<le> length ?xs - i" by (metis length_takeWhile_le length_upt)
  show "i \<le> j" "j \<le> length ?xs" using j len i by linarith+
  have passed: "?P k \<longleftrightarrow> (if b = Bias_left then prefix_height ?xs (Suc k) < y else prefix_height ?xs (Suc k) \<le> y)" for k
    by (cases b) (simp_all add: passes_def prefix_height_def)
  have nth: "?w ! k = i + k" if "k < length ?w" for k using that len by (simp add: takeWhile_nth)
  show "if b = Bias_left then prefix_height ?xs j < y else prefix_height ?xs j \<le> y" if "i < j"
  proof -
    have "length ?w - 1 < length ?w" using that j by simp
    from nth_mem [OF this] have "?P (?w ! (length ?w - 1))" by (rule conjunct2 [OF set_takeWhileD])
    then have "?P (j - 1)" using nth [OF \<open>length ?w - 1 < length ?w\<close>] that j by simp
    moreover have "Suc (j - 1) = j" using that by simp
    ultimately show ?thesis using passed [of "j - 1"] by metis
  qed
  show "if b = Bias_left then y \<le> prefix_height ?xs (Suc j) else y < prefix_height ?xs (Suc j)" if "j < length ?xs"
  proof -
    have "\<not> ?P ([i..<length ?xs] ! length ?w)" by (rule nth_length_takeWhile) (use that j in simp)
    then show ?thesis using that passed [of j] j by (simp split: if_splits)
  qed
qed

lemma scroll_top_px:
  assumes "item_tree_ok T"
  shows "scroll_top T s pos = prefix_height (it_iter T (ls_items s)) (min (lo_item_ix pos) (length (it_iter T (ls_items s)))) + lo_offset pos"
  unfolding scroll_top_def it_seek_def
  by (simp add: seek_count [OF assms] item_treeD(8) [OF assms] prefix_height_def)



text \<open>
  Scrolling by a distance moves the position in pixels by it, but not above the first item, and
  leaves it in an item or, below the last one, at the end.
\<close>

theorem scroll_by_moves:
  assumes "item_tree_ok T" and "list_items_ok (it_iter T (ls_items s))" and "0 \<le> lo_offset (logical_scroll_top T s)"
    and "s' = scroll_by T d s" and "d \<noteq> 0"
  shows "scroll_top T s' (logical_scroll_top T s') = max (scroll_top T s (logical_scroll_top T s) + d) 0 \<and>
    lo_item_ix (logical_scroll_top T s') \<le> length (it_iter T (ls_items s')) \<and> 0 \<le> lo_offset (logical_scroll_top T s') \<and>
    (lo_item_ix (logical_scroll_top T s') < length (it_iter T (ls_items s')) \<longrightarrow>
      lo_offset (logical_scroll_top T s') < sm_height (item_summary (it_iter T (ls_items s') ! lo_item_ix (logical_scroll_top T s'))))"
proof -
  let ?xs = "it_iter T (ls_items s)"
  define i where "i = min (lo_item_ix (logical_scroll_top T s)) (length ?xs)"
  define old where "old = prefix_height ?xs i + lo_offset (logical_scroll_top T s)"
  define y where "y = max (old + d) 0"
  define from_i where "from_i = (if old < y then i else 0)"
  define j where "j = it_seek_forward T (ls_items s) from_i (To_height y) Bias_right"
  have i: "i \<le> length ?xs" by (simp add: i_def)
  have seek_i: "it_seek T (ls_items s) (To_count (lo_item_ix (logical_scroll_top T s))) Bias_right = i"
    unfolding it_seek_def i_def by (rule seek_count [OF assms(1)]) simp_all
  have fi: "from_i \<le> length ?xs" using i by (simp add: from_i_def)
  note seek = seek_height [OF assms(1) fi, of y Bias_right, folded j_def, simplified]
  have s': "s' = s\<lparr>ls_scroll_top := Some \<lparr>lo_item_ix = j, lo_offset = y - prefix_height ?xs j\<rparr>\<rparr>"
  proof -
    have "sm_height (it_start T (ls_items s) i) = prefix_height ?xs i" by (simp add: item_treeD(8) [OF assms(1)] prefix_height_def)
    then have "s' = s\<lparr>ls_scroll_top := Some \<lparr>lo_item_ix = sm_count (it_start T (ls_items s) j), lo_offset = y - sm_height (it_start T (ls_items s) j)\<rparr>\<rparr>"
      using assms(5) unfolding assms(4) scroll_by_def seek_i Let_def j_def from_i_def y_def old_def
      by (simp add: it_seek_def)
    then show ?thesis using seek(2) by (simp add: item_treeD(8) [OF assms(1)] prefix_height_def)
  qed
  have "prefix_height ?xs j \<le> y"
  proof (cases "from_i < j")
    case False
    then have "j = from_i" using seek(1) by simp
    then show ?thesis using assms(3) by (auto simp: from_i_def old_def y_def split: if_splits)
  qed (rule seek(3))
  moreover have "y - prefix_height ?xs j < sm_height (item_summary (?xs ! j))" if "j < length ?xs"
    using seek(4) [OF that] that by (simp add: prefix_height_Suc)
  moreover have "scroll_top T s (logical_scroll_top T s) = old" by (simp add: scroll_top_px [OF assms(1)] old_def i_def)
  moreover have "logical_scroll_top T s' = \<lparr>lo_item_ix = j, lo_offset = y - prefix_height ?xs j\<rparr>" by (simp add: s' logical_scroll_top_def)
  moreover have "scroll_top T s' \<lparr>lo_item_ix = j, lo_offset = y - prefix_height ?xs j\<rparr> = y"
    using seek(2) by (simp add: scroll_top_px [OF assms(1)] s' min_absorb1)
  ultimately show ?thesis using seek(2) by (simp add: y_def s')
qed

text \<open>
  Replacing a range of items keeps the item at the top of the view, and how far it is
  scrolled, unless it is replaced itself; then the view starts with the first of the new items.
\<close>

theorem splice_keeps_top:
  assumes "item_tree_ok T" and "a \<le> e" and "e \<le> length (it_iter T (ls_items s))" and "ls_scroll_top s = Some pos"
    and "s' = splice_focusable T a e handles s"
  shows "it_iter T (ls_items s') = take a (it_iter T (ls_items s)) @ map Unmeasured handles @ drop e (it_iter T (ls_items s)) \<and>
    (\<exists>pos'. ls_scroll_top s' = Some pos' \<and>
      (if a \<le> lo_item_ix pos \<and> lo_item_ix pos < e then pos' = \<lparr>lo_item_ix = a, lo_offset = 0\<rparr>
       else lo_offset pos' = lo_offset pos \<and>
         drop (lo_item_ix pos') (it_iter T (ls_items s')) =
           (if lo_item_ix pos < a then drop (lo_item_ix pos) (take a (it_iter T (ls_items s))) @ map Unmeasured handles @
                drop e (it_iter T (ls_items s))
            else drop (lo_item_ix pos) (it_iter T (ls_items s)))))"
proof -
  let ?xs = "it_iter T (ls_items s)"
  have items: "it_iter T (ls_items s') = take a ?xs @ map Unmeasured handles @ drop e ?xs"
    unfolding assms(5) splice_focusable_def Let_def by (simp add: item_treeD [OF assms(1)])
  consider "a \<le> lo_item_ix pos \<and> lo_item_ix pos < e" | "e \<le> lo_item_ix pos" | "lo_item_ix pos < a" by linarith
  then show ?thesis
  proof cases
    case 1
    then show ?thesis unfolding items by (simp add: assms(4,5) splice_focusable_def Let_def)
  next
    case 2
    then have "drop (lo_item_ix pos - (e - a) + length handles) (take a ?xs @ map Unmeasured handles @ drop e ?xs) = drop (lo_item_ix pos) ?xs"
      using assms(2,3) by (simp add: min_def)
    then show ?thesis unfolding items using 2 assms(2) by (auto simp: assms(4,5) splice_focusable_def Let_def)
  next
    case 3
    then show ?thesis unfolding items using assms(2,3) by (auto simp: assms(4,5) splice_focusable_def Let_def min_def)
  qed
qed




end
