(* ===== verification/List_View.thy ===== *)
theory List_View
  imports List_Scroll
begin

text \<open>
  What laying out the list element establishes, through the contracts of its loops: the items laid
  out follow one another from the top of the view and fill it, and the other items stay as they were.
\<close>

section \<open>Contracts of the loops\<close>


text \<open>\<open>ms\<close> are the items \<open>is\<close> from index \<open>ix\<close> on, each with its own size or the one it is rendered with.\<close>

definition measures :: "(nat \<Rightarrow> 'f size2) \<Rightarrow> nat \<Rightarrow> ('h, 'f) list_item list \<Rightarrow> ('h, 'f) list_item list \<Rightarrow> bool" where
  "measures render ix is ms \<longleftrightarrow> length ms \<le> length is \<and>
     (\<forall>k < length ms. \<exists>z. ms ! k = Measured z (li_focus (is ! k)) \<and> (z = render (ix + k) \<or> item_size (is ! k) = Some z))"

lemma measures_Nil [simp]: "measures render ix is []"
  by (simp add: measures_def)












section \<open>The layout\<close>









lemma layout_items_reset: "ls_reset (snd (layout_items T render focused width available padding s)) = ls_reset s"
  by (simp add: layout_items_def Let_def split: prod.split)

lemma layout_all_items_reset: "ls_reset (layout_all_items T render width s) = ls_reset s"
  by (simp add: layout_all_items_def split: list_measuring.split bool.split)

lemma prepaint_items_reset:
  assumes "prepaint_items T render focused autoscroll b padding scrolls s = (layout, s')"
  shows "ls_reset s' = ls_reset s"
proof -
  obtain r s1 where r: "layout_items T render focused (Some (sz_width (bd_size b))) (sz_height (bd_size b)) padding
      (layout_all_items T render (sz_width (bd_size b)) s) = (r, s1)" by fastforce
  have "s' = s1" using assms unfolding prepaint_items_def Let_def r by (auto split: if_splits option.splits)
  then show ?thesis using layout_items_reset [of T render focused "Some (sz_width (bd_size b))" "sz_height (bd_size b)" padding
      "layout_all_items T render (sz_width (bd_size b)) s"] unfolding r layout_all_items_reset by simp
qed

lemma no_request: "prepaint_layouts (\<lambda>_ _. None) origin ls = None"
  by (induction ls arbitrary: origin) simp_all

lemma prepaint_without_autoscroll: "\<exists>layout s'. prepaint_items T render focused autoscroll b padding False s = (Inr layout, s')"
  by (simp add: prepaint_items_def Let_def no_request split: prod.split)

text \<open>
  Prepainting the list always succeeds: when an item asks to be scrolled to, the second layout,
  from the position that the request gives, is not interrupted again.  Scroll events count again.
\<close>

theorem list_prepaint_succeeds:
  "\<exists>layout s'. list_prepaint T render focused autoscroll b padding s = Some (layout, s') \<and>
    ls_bounds s' = Some b \<and> ls_padding s' = Some padding \<and> \<not> ls_reset s'"
proof -
  let ?s = "forget_sizes T b (s\<lparr>ls_reset := False\<rparr>)"
  have s: "\<not> ls_reset ?s" by (simp add: forget_sizes_def)
  obtain first s1 where s1: "prepaint_items T render focused autoscroll b padding True ?s = (first, s1)" by fastforce
  show ?thesis
  proof (cases first)
    case (Inl pos)
    obtain layout s2 where s2: "prepaint_items T render focused autoscroll b padding False (s1\<lparr>ls_scroll_top := Some pos\<rparr>) = (Inr layout, s2)"
      using prepaint_without_autoscroll by blast
    then show ?thesis using s s1 Inl prepaint_items_reset [OF s1] prepaint_items_reset [OF s2] by (simp add: list_prepaint_def Let_def)
  next
    case (Inr layout)
    then show ?thesis using s s1 prepaint_items_reset [OF s1] by (simp add: list_prepaint_def Let_def)
  qed
qed

section \<open>An example\<close>

definition list_tree :: "(('h, int) list_item list, ('h, int) list_item, int) item_tree" where
  "list_tree = \<lparr>it_from_iter = (\<lambda>xs. xs), it_iter = (\<lambda>xs. xs), it_summary = list_total, it_slice = (\<lambda>xs n. take n xs),
     it_suffix = (\<lambda>xs n. drop n xs), it_extend = (@), it_append = (@),
     it_seek_forward = (\<lambda>xs i target b. i + length (takeWhile (passes xs target b) [i..<length xs])),
     it_start = (\<lambda>xs i. list_total (take i xs)), it_item = (\<lambda>xs i. if i < length xs then Some (xs ! i) else None)\<rparr>"

lemma items_tree_ok: "item_tree_ok list_tree"
  by (simp add: item_tree_ok_def list_tree_def)

definition three_items :: "((nat, int) list_item list, int) list_state" where
  "three_items = (list_state_new list_tree 0 Align_top 0)\<lparr>ls_items := replicate 3 (Measured (Size 5 10) None),
     ls_bounds := Some (Bounds (Point 0 0) (Size 5 20)), ls_padding := Some (Edges 1 0 2 0), ls_has_handler := True\<rparr>"

lemmas list_defs = three_items_def list_state_new_def splice_def splice_focusable_def logical_scroll_top_def list_tree_def
  scroll_top_def it_seek_def passes_def list_total_def add_summary_def summary_zero_def item_summary_def eval_nat_numeral

lemma three_items_ok: "list_items_ok (it_iter list_tree (ls_items three_items))"
  by (simp add: list_items_ok_def item_summary_def three_items_def list_tree_def)

lemma three_items_simps:
  "it_iter list_tree (ls_items three_items) = replicate 3 (Measured (Size 5 10) None)"
  "logical_scroll_top list_tree three_items = \<lparr>lo_item_ix = 0, lo_offset = 0\<rparr>"
  "ls_bounds three_items = Some (Bounds (Point 0 0) (Size 5 20))" "ls_padding three_items = Some (Edges 1 0 2 0)"
  "ls_overdraw three_items = 0" "ls_alignment three_items = Align_top"
  by (simp_all add: list_defs)

lemma scroll_by_moves_witness:
  "scroll_top list_tree (scroll_by list_tree 14 three_items) (logical_scroll_top list_tree (scroll_by list_tree 14 three_items)) = 14"
proof -
  have "scroll_top list_tree three_items (logical_scroll_top list_tree three_items) = 0"
    by (simp add: three_items_simps scroll_top_px [OF items_tree_ok])
  then show ?thesis using scroll_by_moves [OF items_tree_ok three_items_ok _ refl, of 14] by (simp add: three_items_simps(2))
qed

lemma splice_keeps_top_witness:
  "\<exists>pos'. ls_scroll_top (splice_focusable list_tree 0 1 [None, None] (three_items\<lparr>ls_scroll_top := Some \<lparr>lo_item_ix = 2, lo_offset = 4\<rparr>\<rparr>)) = Some pos' \<and>
    lo_offset pos' = 4"
  using splice_keeps_top [OF items_tree_ok, of 0 1 "three_items\<lparr>ls_scroll_top := Some \<lparr>lo_item_ix = 2, lo_offset = 4\<rparr>\<rparr>" _ _ "[None, None]", OF _ _ _ refl]
  by (auto simp: three_items_simps)




section \<open>A scroll event that is late\<close>

text \<open>
  The range an event reports is that of the position before it, which the last layout has left,
  not, as the comment on it has it, after applying the event.
\<close>

lemma scroll_event_is_late:
  "case list_scroll list_tree \<lparr>lo_item_ix = 0, lo_offset = 0\<rparr> 10 (Point 0 (- 10)) three_items of
     (event, s) \<Rightarrow> map_option se_first event = Some 0 \<and> lo_item_ix (logical_scroll_top list_tree s) = 1"
  by (simp add: list_scroll_def scroll_max_def padding_or_zero_def set_scroll_px_def offset_at_def visible_range_def item_count_def list_defs)

end
