(* ===== verification/Color.thy ===== *)
theory Color
  imports Rust_Str Lengths "HOL-Library.Word"
begin

text \<open>
  Colours, after \<open>src/src/color.rs\<close>: RGBA and HSLA values and the conversions between them, colours
  as 32-bit numbers and as text, and the backgrounds built from them.  A component is an element
  of an Archimedean field, so arithmetic is exact; conversions to integers truncate and saturate
  as Rust's \<open>as\<close> does.
\<close>

section \<open>Conversions between numbers\<close>

text \<open>\<open>f as u8\<close> and \<open>f as u32\<close>; \<open>f32::clamp(0., 1.)\<close>; the remainder \<open>%\<close> and \<open>rem_euclid\<close>.\<close>

definition as_u8 :: "'f::floor_ceiling \<Rightarrow> 8 word" where
  "as_u8 x = word_of_int (max 0 (min 255 \<lfloor>x\<rfloor>))"

definition as_u32 :: "'f::floor_ceiling \<Rightarrow> 32 word" where
  "as_u32 x = word_of_int (max 0 (min (2 ^ 32 - 1) \<lfloor>x\<rfloor>))"

definition clamp_unit :: "'f::linordered_field \<Rightarrow> 'f" where
  "clamp_unit x = (if x < 0 then 0 else if 1 < x then 1 else x)"

definition frem :: "'f::floor_ceiling \<Rightarrow> 'f \<Rightarrow> 'f" where
  "frem x y = x - y * of_int (if 0 \<le> x / y then \<lfloor>x / y\<rfloor> else \<lceil>x / y\<rceil>)"

definition rem_euclid :: "'f::floor_ceiling \<Rightarrow> 'f \<Rightarrow> 'f" where
  "rem_euclid x y = (let r = frem x y in if r < 0 then r + \<bar>y\<bar> else r)"

section \<open>RGBA colours\<close>

record 'f rgba_color =
  ra_r :: 'f
  ra_g :: 'f
  ra_b :: 'f
  ra_a :: 'f

definition byte_fraction :: "8 word \<Rightarrow> 'f::floor_ceiling" where
  "byte_fraction b = of_nat (unat b) / 255"

text \<open>\<open>u32::to_be_bytes\<close>: the most significant byte first.\<close>

definition to_be_bytes :: "32 word \<Rightarrow> 8 word \<times> 8 word \<times> 8 word \<times> 8 word" where
  "to_be_bytes hex = (ucast (drop_bit 24 hex), ucast (drop_bit 16 hex), ucast (drop_bit 8 hex), ucast hex)"

definition rgb :: "32 word \<Rightarrow> 'f::floor_ceiling rgba_color" where
  "rgb hex = (case to_be_bytes hex of (_, r, g, b) \<Rightarrow>
     \<lparr>ra_r = byte_fraction r, ra_g = byte_fraction g, ra_b = byte_fraction b, ra_a = 1\<rparr>)"

definition rgba :: "32 word \<Rightarrow> 'f::floor_ceiling rgba_color" where
  "rgba hex = (case to_be_bytes hex of (r, g, b, a) \<Rightarrow>
     \<lparr>ra_r = byte_fraction r, ra_g = byte_fraction g, ra_b = byte_fraction b, ra_a = byte_fraction a\<rparr>)"

definition rgba_blend :: "'f::linordered_field rgba_color \<Rightarrow> 'f rgba_color \<Rightarrow> 'f rgba_color" where
  "rgba_blend c d =
     (if 1 \<le> ra_a d then d
      else if ra_a d \<le> 0 then c
      else \<lparr>ra_r = ra_r c * (1 - ra_a d) + ra_r d * ra_a d, ra_g = ra_g c * (1 - ra_a d) + ra_g d * ra_a d,
            ra_b = ra_b c * (1 - ra_a d) + ra_b d * ra_a d, ra_a = ra_a c\<rparr>)"

definition u32_of_rgba :: "'f::floor_ceiling rgba_color \<Rightarrow> 32 word" where
  "u32_of_rgba c = or (or (or (push_bit 24 (as_u32 (ra_r c * 255))) (push_bit 16 (as_u32 (ra_g c * 255))))
     (push_bit 8 (as_u32 (ra_b c * 255)))) (as_u32 (ra_a c * 255))"

section \<open>Colours as text\<close>

text \<open>A byte in the format \<open>{:02x}\<close>.\<close>

definition hex_digit :: "nat \<Rightarrow> char" where
  "hex_digit n = char_of (if n < 10 then 48 + n else 87 + n)"

definition hex_byte :: "8 word \<Rightarrow> string" where
  "hex_byte b = [hex_digit (unat b div 16), hex_digit (unat b mod 16)]"

definition component_byte :: "'f::floor_ceiling \<Rightarrow> 8 word" where
  "component_byte x = as_u8 (of_int (round_away (x * 255)) :: 'f)"

definition serialize :: "'f::floor_ceiling rgba_color \<Rightarrow> string" where
  "serialize c = ''#'' @ hex_byte (component_byte (ra_r c)) @ hex_byte (component_byte (ra_g c)) @
     hex_byte (component_byte (ra_b c)) @ hex_byte (component_byte (ra_a c))"

text \<open>\<open>str::trim\<close>, \<open>str::split_once\<close> with a character, and \<open>str::get\<close> with a range of bytes.\<close>

definition trim :: "string \<Rightarrow> string" where
  "trim s = rev (dropWhile is_whitespace (rev (dropWhile is_whitespace s)))"

definition split_once :: "char \<Rightarrow> string \<Rightarrow> (string \<times> string) option" where
  "split_once c s = (case dropWhile (\<lambda>x. x \<noteq> c) s of [] \<Rightarrow> None | _ # rest \<Rightarrow> Some (takeWhile (\<lambda>x. x \<noteq> c) s, rest))"

fun split_bytes :: "nat \<Rightarrow> string \<Rightarrow> (string \<times> string) option" where
  "split_bytes 0 s = Some ([], s)"
| "split_bytes (Suc n) [] = None"
| "split_bytes (Suc n) (c # cs) =
     (if code_point c < 128 then map_option (apfst (Cons c)) (split_bytes n cs)
      else case n of 0 \<Rightarrow> None | Suc m \<Rightarrow> map_option (apfst (Cons c)) (split_bytes m cs))"

definition get_bytes :: "nat \<Rightarrow> nat \<Rightarrow> string \<Rightarrow> string option" where
  "get_bytes i j s = (if j < i then None else
     case split_bytes i s of None \<Rightarrow> None | Some (_, rest) \<Rightarrow> map_option fst (split_bytes (j - i) rest))"

text \<open>\<open>u8::from_str_radix(s, 16)\<close>: a leading plus sign is allowed, if digits follow.\<close>

datatype int_error = Int_empty | Invalid_digit | Pos_overflow

definition hex_value :: "char \<Rightarrow> nat option" where
  "hex_value c = (let n = code_point c in
     if 48 \<le> n \<and> n \<le> 57 then Some (n - 48)
     else if 65 \<le> n \<and> n \<le> 70 then Some (n - 55)
     else if 97 \<le> n \<and> n \<le> 102 then Some (n - 87) else None)"

fun hex_digits :: "nat \<Rightarrow> string \<Rightarrow> (int_error, 8 word) result" where
  "hex_digits acc [] = Inr (of_nat acc)"
| "hex_digits acc (c # cs) = (case hex_value c of
     None \<Rightarrow> Inl Invalid_digit
   | Some d \<Rightarrow> if 255 < acc * 16 + d then Inl Pos_overflow else hex_digits (acc * 16 + d) cs)"

definition u8_from_hex :: "string \<Rightarrow> (int_error, 8 word) result" where
  "u8_from_hex s = (case s of
     [] \<Rightarrow> Inl Int_empty
   | c # cs \<Rightarrow> if cs = [] \<and> (c = CHR ''+'' \<or> c = CHR ''-'') then Inl Invalid_digit
       else if c = CHR ''+'' then hex_digits 0 cs else hex_digits 0 s)"

datatype color_error = Invalid_format | Invalid_unicode char | Invalid_int int_error

definition hex_component :: "char \<Rightarrow> nat \<Rightarrow> nat \<Rightarrow> string \<Rightarrow> (color_error, 8 word) result" where
  "hex_component name i j hex = (case get_bytes i j hex of
     None \<Rightarrow> Inl (Invalid_unicode name)
   | Some s \<Rightarrow> (case u8_from_hex s of Inl e \<Rightarrow> Inl (Invalid_int e) | Inr b \<Rightarrow> Inr b))"

definition duplicate :: "8 word \<Rightarrow> 8 word" where
  "duplicate b = or (push_bit 4 b) b"

text \<open>
  \<open>w\<close> is the number of digits of a component, 1 or 2; the alpha digits are there if the text is four
  components long.
\<close>

definition hex_components :: "nat \<Rightarrow> 8 word \<Rightarrow> string \<Rightarrow> (color_error, 8 word \<times> 8 word \<times> 8 word \<times> 8 word) result" where
  "hex_components w opaque hex =
     bind_result (hex_component CHR ''r'' 0 w hex) (\<lambda>r.
     bind_result (hex_component CHR ''g'' w (2 * w) hex) (\<lambda>g.
     bind_result (hex_component CHR ''b'' (2 * w) (3 * w) hex) (\<lambda>b.
     bind_result (if byte_len hex = 4 * w then hex_component CHR ''a'' (3 * w) (4 * w) hex else Inr opaque) (\<lambda>a.
     Inr (r, g, b, a)))))"

definition rgba_try_from :: "string \<Rightarrow> (color_error, 'f::floor_ceiling rgba_color) result" where
  "rgba_try_from s = (case split_once CHR ''#'' (trim s) of
     Some ([], hex) \<Rightarrow>
       bind_result
         (if byte_len hex = 3 \<or> byte_len hex = 4 then
            bind_result (hex_components 1 0xF hex) (\<lambda>(r, g, b, a).
              Inr (duplicate r, duplicate g, duplicate b, duplicate a))
          else if byte_len hex = 6 \<or> byte_len hex = 8 then hex_components 2 0xFF hex
          else Inl Invalid_format)
         (\<lambda>(r, g, b, a). Inr \<lparr>ra_r = byte_fraction r, ra_g = byte_fraction g, ra_b = byte_fraction b, ra_a = byte_fraction a\<rparr>)
   | _ \<Rightarrow> Inl Invalid_format)"

section \<open>HSLA colours\<close>

record 'f hsla_color =
  hs_h :: 'f
  hs_s :: 'f
  hs_l :: 'f
  hs_a :: 'f

definition hsla :: "'f::linordered_field \<Rightarrow> 'f \<Rightarrow> 'f \<Rightarrow> 'f \<Rightarrow> 'f hsla_color" where
  "hsla h s l a = \<lparr>hs_h = clamp_unit h, hs_s = clamp_unit s, hs_l = clamp_unit l, hs_a = clamp_unit a\<rparr>"

definition black :: "'f::linordered_field hsla_color" where
  "black = \<lparr>hs_h = 0, hs_s = 0, hs_l = 0, hs_a = 1\<rparr>"

definition transparent_black :: "'f::linordered_field hsla_color" where
  "transparent_black = \<lparr>hs_h = 0, hs_s = 0, hs_l = 0, hs_a = 0\<rparr>"

definition transparent_white :: "'f::linordered_field hsla_color" where
  "transparent_white = \<lparr>hs_h = 0, hs_s = 0, hs_l = 1, hs_a = 0\<rparr>"

definition opaque_grey :: "'f::linordered_field \<Rightarrow> 'f \<Rightarrow> 'f hsla_color" where
  "opaque_grey lightness opacity = \<lparr>hs_h = 0, hs_s = 0, hs_l = clamp_unit lightness, hs_a = clamp_unit opacity\<rparr>"

definition white :: "'f::linordered_field hsla_color" where
  "white = \<lparr>hs_h = 0, hs_s = 0, hs_l = 1, hs_a = 1\<rparr>"

definition red :: "'f::linordered_field hsla_color" where
  "red = \<lparr>hs_h = 0, hs_s = 1, hs_l = 1 / 2, hs_a = 1\<rparr>"

definition blue :: "'f::linordered_field hsla_color" where
  "blue = \<lparr>hs_h = 6666666667 / 10000000000, hs_s = 1, hs_l = 1 / 2, hs_a = 1\<rparr>"

definition green :: "'f::linordered_field hsla_color" where
  "green = \<lparr>hs_h = 3333333333 / 10000000000, hs_s = 1, hs_l = 1 / 4, hs_a = 1\<rparr>"

definition yellow :: "'f::linordered_field hsla_color" where
  "yellow = \<lparr>hs_h = 1666666667 / 10000000000, hs_s = 1, hs_l = 1 / 2, hs_a = 1\<rparr>"

definition rgba_of_hsla :: "'f::floor_ceiling hsla_color \<Rightarrow> 'f rgba_color" where
  "rgba_of_hsla color =
     (let h = hs_h color; s = hs_s color; l = hs_l color;
          c = (1 - \<bar>2 * l - 1\<bar>) * s;
          x = c * (1 - \<bar>frem (h * 6) 2 - 1\<bar>);
          m = l - c / 2;
          cm = c + m;
          xm = x + m;
          k = as_i32 \<lfloor>h * 6\<rfloor>;
          (r, g, b) = (if k = 0 \<or> k = 6 then (cm, xm, m)
            else if k = 1 then (xm, cm, m)
            else if k = 2 then (m, cm, xm)
            else if k = 3 then (m, xm, cm)
            else if k = 4 then (xm, m, cm)
            else (cm, m, xm))
      in \<lparr>ra_r = clamp_unit r, ra_g = clamp_unit g, ra_b = clamp_unit b, ra_a = hs_a color\<rparr>)"

definition hsla_of_rgba :: "'f::floor_ceiling rgba_color \<Rightarrow> 'f hsla_color" where
  "hsla_of_rgba color =
     (let r = ra_r color; g = ra_g color; b = ra_b color;
          mx = max r (max g b); mn = min r (min g b); delta = mx - mn;
          l = (mx + mn) / 2;
          s = (if l = 0 \<or> l = 1 then 0 else if l < 1 / 2 then delta / (2 * l) else delta / (2 - 2 * l));
          h = (if delta = 0 then 0
            else if mx = r then rem_euclid ((g - b) / delta) 6 / 6
            else if mx = g then ((b - r) / delta + 2) / 6
            else ((r - g) / delta + 4) / 6)
      in \<lparr>hs_h = h, hs_s = s, hs_l = l, hs_a = ra_a color\<rparr>)"

definition hsla_is_transparent :: "'f::linordered_field hsla_color \<Rightarrow> bool" where
  "hsla_is_transparent c \<longleftrightarrow> hs_a c = 0"

definition is_opaque :: "'f::linordered_field hsla_color \<Rightarrow> bool" where
  "is_opaque c \<longleftrightarrow> hs_a c = 1"

definition hsla_blend :: "'f::floor_ceiling hsla_color \<Rightarrow> 'f hsla_color \<Rightarrow> 'f hsla_color" where
  "hsla_blend c d =
     (if 1 \<le> hs_a d then d
      else if hs_a d \<le> 0 then c
      else hsla_of_rgba (rgba_blend (rgba_of_hsla c) (rgba_of_hsla d)))"

definition grayscale :: "'f::linordered_field hsla_color \<Rightarrow> 'f hsla_color" where
  "grayscale c = c\<lparr>hs_s := 0\<rparr>"

definition fade_out :: "'f::linordered_field \<Rightarrow> 'f hsla_color \<Rightarrow> 'f hsla_color" where
  "fade_out factor c = c\<lparr>hs_a := hs_a c * (1 - clamp_unit factor)\<rparr>"

definition hsla_opacity :: "'f::linordered_field \<Rightarrow> 'f hsla_color \<Rightarrow> 'f hsla_color" where
  "hsla_opacity factor c = c\<lparr>hs_a := hs_a c * clamp_unit factor\<rparr>"

definition hsla_alpha :: "'f::linordered_field \<Rightarrow> 'f hsla_color \<Rightarrow> 'f hsla_color" where
  "hsla_alpha a c = c\<lparr>hs_a := clamp_unit a\<rparr>"

definition hsla_serialize :: "'f::floor_ceiling hsla_color \<Rightarrow> string" where
  "hsla_serialize c = serialize (rgba_of_hsla c)"

definition hsla_deserialize :: "string \<Rightarrow> (color_error, 'f::floor_ceiling hsla_color) result" where
  "hsla_deserialize s = bind_result (rgba_try_from s) (\<lambda>c. Inr (hsla_of_rgba c))"

section \<open>Backgrounds\<close>

datatype background_tag = Solid | Linear_gradient | Pattern_slash

datatype color_space = Srgb | Oklab

record 'f color_stop =
  st_color :: "'f hsla_color"
  st_percentage :: 'f

record 'f background =
  bg_tag :: background_tag
  bg_color_space :: color_space
  bg_solid :: "'f hsla_color"
  bg_angle_or_height :: 'f
  bg_colors :: "'f color_stop \<times> 'f color_stop"

definition hsla_default :: "'f::linordered_field hsla_color" where
  "hsla_default = \<lparr>hs_h = 0, hs_s = 0, hs_l = 0, hs_a = 0\<rparr>"

definition background_default :: "'f::linordered_field background" where
  "background_default = \<lparr>bg_tag = Solid, bg_color_space = Srgb, bg_solid = hsla_default, bg_angle_or_height = 0,
     bg_colors = (\<lparr>st_color = hsla_default, st_percentage = 0\<rparr>, \<lparr>st_color = hsla_default, st_percentage = 0\<rparr>)\<rparr>"

text \<open>The sum is one of 32-bit numbers, and panics or wraps round when it overflows: \<open>None\<close> is the overflow.\<close>

definition pattern_slash :: "'f::floor_ceiling hsla_color \<Rightarrow> 'f \<Rightarrow> 'f \<Rightarrow> 'f background option" where
  "pattern_slash color width interval =
     (let height = unat (as_u32 (width * 255)) * 0xFFFF + unat (as_u32 (interval * 255)) in
      if height < 2 ^ 32
      then Some (background_default\<lparr>bg_tag := Pattern_slash, bg_solid := color, bg_angle_or_height := of_nat height\<rparr>)
      else None)"

definition solid_background :: "'f::linordered_field hsla_color \<Rightarrow> 'f background" where
  "solid_background color = background_default\<lparr>bg_solid := color\<rparr>"

definition linear_gradient :: "'f::linordered_field \<Rightarrow> 'f color_stop \<Rightarrow> 'f color_stop \<Rightarrow> 'f background" where
  "linear_gradient angle src dst =
     background_default\<lparr>bg_tag := Linear_gradient, bg_angle_or_height := angle, bg_colors := (src, dst)\<rparr>"

definition linear_color_stop :: "'f hsla_color \<Rightarrow> 'f \<Rightarrow> 'f color_stop" where
  "linear_color_stop color percentage = \<lparr>st_color = color, st_percentage = percentage\<rparr>"

definition stop_opacity :: "'f::linordered_field \<Rightarrow> 'f color_stop \<Rightarrow> 'f color_stop" where
  "stop_opacity factor s = \<lparr>st_color = hsla_opacity factor (st_color s), st_percentage = st_percentage s\<rparr>"

definition set_color_space :: "color_space \<Rightarrow> 'f background \<Rightarrow> 'f background" where
  "set_color_space space b = b\<lparr>bg_color_space := space\<rparr>"

definition background_opacity :: "'f::linordered_field \<Rightarrow> 'f background \<Rightarrow> 'f background" where
  "background_opacity factor b = b\<lparr>bg_solid := hsla_opacity factor (bg_solid b),
     bg_colors := (stop_opacity factor (fst (bg_colors b)), stop_opacity factor (snd (bg_colors b)))\<rparr>"

definition background_is_transparent :: "'f::linordered_field background \<Rightarrow> bool" where
  "background_is_transparent b = (case bg_tag b of
     Solid \<Rightarrow> hsla_is_transparent (bg_solid b)
   | Linear_gradient \<Rightarrow> hsla_is_transparent (st_color (fst (bg_colors b))) \<and> hsla_is_transparent (st_color (snd (bg_colors b)))
   | Pattern_slash \<Rightarrow> hsla_is_transparent (bg_solid b))"

definition background_of_hsla :: "'f::linordered_field hsla_color \<Rightarrow> 'f background" where
  "background_of_hsla c = background_default\<lparr>bg_tag := Solid, bg_solid := c\<rparr>"

definition background_of_rgba :: "'f::floor_ceiling rgba_color \<Rightarrow> 'f background" where
  "background_of_rgba c = background_default\<lparr>bg_tag := Solid, bg_solid := hsla_of_rgba c\<rparr>"

section \<open>Numbers\<close>

lemma byte_bounds: "unat (b :: 8 word) \<le> 255"
  using unsigned_less [of b, where ?'a = nat] by simp

lemma byte_fraction_times: "byte_fraction b * 255 = (of_int (int (unat b)) :: 'f::floor_ceiling)"
  by (simp add: byte_fraction_def)

lemma as_u32_byte: "as_u32 (of_int (int (unat (b :: 8 word))) :: 'f::floor_ceiling) = ucast b"
proof -
  have "uint b \<le> 255" using uint_bounded [of b] by simp
  then show ?thesis unfolding as_u32_def floor_of_int by (simp add: min_def)
qed

lemma be_bytes_word:
  "to_be_bytes hex = (r, g, b, a) \<Longrightarrow>
   or (or (or (push_bit 24 (ucast r)) (push_bit 16 (ucast g))) (push_bit 8 (ucast b))) (ucast a) = (hex :: 32 word)"
proof (rule bit_word_eqI)
  fix n
  assume "to_be_bytes hex = (r, g, b, a)" and "n < LENGTH(32)"
  then have parts: "r = ucast (drop_bit 24 hex)" "g = ucast (drop_bit 16 hex)" "b = ucast (drop_bit 8 hex)" "a = ucast hex" "n < 32"
    by (simp_all add: to_be_bytes_def)
  consider "n < 8" | "8 \<le> n" "n < 16" | "16 \<le> n" "n < 24" | "24 \<le> n" by linarith
  then show "bit (or (or (or (push_bit 24 (ucast r)) (push_bit 16 (ucast g))) (push_bit 8 (ucast b))) (ucast a) :: 32 word) n = bit hex n"
    by cases (use parts(5) in \<open>auto simp: parts(1-4) bit_simps\<close>)
qed

text \<open>
  Reading a colour from a 32-bit number and turning it back into a number gives the number.
\<close>

theorem color_number_round_trip: "u32_of_rgba (rgba hex :: 'f::floor_ceiling rgba_color) = hex"
  by (cases "to_be_bytes hex") (simp only: u32_of_rgba_def rgba_def prod.case rgba_color.simps byte_fraction_times as_u32_byte be_bytes_word)

section \<open>Text\<close>

lemma of_char_char_of: "n < 256 \<Longrightarrow> code_point (char_of n) = n"
  by (simp add: code_point_def)

lemma hex_digit_code: "n < 16 \<Longrightarrow> code_point (hex_digit n) = (if n < 10 then 48 + n else 87 + n)"
  by (simp add: hex_digit_def of_char_char_of)

lemma hex_value_digit [simp]: "n < 16 \<Longrightarrow> hex_value (hex_digit n) = Some n"
  by (simp add: hex_value_def hex_digit_code)

lemma hex_digit_ascii [simp]: "n < 16 \<Longrightarrow> code_point (hex_digit n) < 128"
  by (simp add: hex_digit_code)

lemma hex_digit_not_sign [simp]: "n < 16 \<Longrightarrow> hex_digit n \<noteq> CHR ''+''" 
  using hex_digit_code [of n] by (auto simp: code_point_def split: if_splits)

lemma hex_digit_not_space [simp]: "n < 16 \<Longrightarrow> \<not> is_whitespace (hex_digit n)"
  by (simp add: is_whitespace_def hex_digit_code)

lemma u8_from_hex_byte: "u8_from_hex [hex_digit (unat b div 16), hex_digit (unat b mod 16)] = Inr b"
proof -
  have "unat b div 16 < 16" using byte_bounds [of b] by simp
  then show ?thesis using byte_bounds [of b] by (simp add: u8_from_hex_def div_mult_mod_eq)
qed

lemma round_away_unit: "0 \<le> x \<Longrightarrow> x \<le> 1 \<Longrightarrow> 0 \<le> round_away (x * 255) \<and> round_away (x * 255) \<le> 255"
  by (simp add: round_away_def floor_le_iff le_floor_iff)

lemma quotient_bound: "x * 255 \<le> 1 / 2 \<Longrightarrow> x \<le> 1 / (510 :: 'a::linordered_field)"
  by (simp add: field_simps)

lemma component_byte_near:
  fixes x :: "'a::floor_ceiling"
  assumes "0 \<le> x" and "x \<le> 1"
  shows "\<bar>byte_fraction (component_byte x) - x\<bar> \<le> 1 / 510"
proof -
  let ?k = "round_away (x * 255)"
  have k: "0 \<le> ?k" "?k \<le> 255" using round_away_unit [OF assms] by auto
  then have "int (unat (component_byte x)) = ?k"
    by (simp add: component_byte_def as_u8_def unsigned_of_int take_bit_int_eq_self)
  then have "byte_fraction (component_byte x) * (255 :: 'a) = of_int ?k" by (simp only: byte_fraction_times)
  with round_away_near [of "x * 255"] have "\<bar>(byte_fraction (component_byte x) - x) * 255\<bar> \<le> 1 / 2"
    by (simp only: left_diff_distrib)
  then show ?thesis unfolding abs_mult abs_numeral by (rule quotient_bound)
qed

lemma hex_digits_range: "unat (x :: 8 word) div 16 < 16" "unat (x :: 8 word) mod 16 < 16"
  using byte_bounds [of x] by simp_all

lemma get_two_bytes:
  "code_point c < 128 \<Longrightarrow> code_point d < 128 \<Longrightarrow> get_bytes 0 2 (c # d # s) = Some [c, d]"
  "code_point c < 128 \<Longrightarrow> code_point d < 128 \<Longrightarrow> get_bytes (i + 2) (j + 2) (c # d # s) = get_bytes i j s"
  by (auto simp: get_bytes_def numeral_2_eq_2 split: option.split)

lemma hex_byte_component:
  "hex_component n 0 2 (hex_byte b @ s) = Inr b"
  "hex_component n (i + 2) (j + 2) (hex_byte b @ s) = hex_component n i j s"
  unfolding hex_component_def hex_byte_def append_Cons append_Nil
  by (simp_all only: get_two_bytes hex_digit_ascii hex_digits_range option.case u8_from_hex_byte sum.case)

lemma trim_tight: "s \<noteq> [] \<Longrightarrow> \<not> is_whitespace (hd s) \<Longrightarrow> \<not> is_whitespace (last s) \<Longrightarrow> trim s = s"
proof -
  assume *: "s \<noteq> []" "\<not> is_whitespace (hd s)" "\<not> is_whitespace (last s)"
  then have "dropWhile is_whitespace s = s" by (cases s) auto
  moreover from * have "dropWhile is_whitespace (rev s) = rev s" by (cases s rule: rev_cases) auto
  ultimately show ?thesis by (simp add: trim_def)
qed

lemma hex_byte_simps [simp]:
  "byte_len (hex_byte b) = 2" "hex_byte b \<noteq> []" "\<not> is_whitespace (last (hex_byte b))"
  by (simp_all add: hex_byte_def hex_digits_range)

lemma parse_serialized:
  "rgba_try_from (''#'' @ hex_byte r @ hex_byte g @ hex_byte b @ hex_byte a) =
    Inr \<lparr>ra_r = byte_fraction r, ra_g = byte_fraction g, ra_b = byte_fraction b, ra_a = byte_fraction a\<rparr>"
proof -
  let ?hex = "hex_byte r @ hex_byte g @ hex_byte b @ hex_byte a"
  have "trim (''#'' @ ?hex) = ''#'' @ ?hex"
    by (rule trim_tight) (simp_all add: is_whitespace_def [of "CHR ''#''"] code_point_def)
  moreover have "hex_components 2 0xFF ?hex = Inr (r, g, b, a)"
    using hex_byte_component(2) [of _ 0 2] hex_byte_component(2) [of _ 2 4] hex_byte_component(2) [of _ 4 6]
      hex_byte_component(1) [of _ a "[]"]
    by (simp add: hex_components_def hex_byte_component(1) numeral_2_eq_2 [symmetric])
  ultimately show ?thesis by (simp add: rgba_try_from_def split_once_def)
qed

text \<open>
  The text a colour is written as is read back as the colour whose components are the nearest multiples of
  1/255, so each differs from the one written by at most 1/510.
\<close>

theorem color_text_round_trip:
  assumes "0 \<le> ra_r c \<and> ra_r c \<le> 1" and "0 \<le> ra_g c \<and> ra_g c \<le> 1" and "0 \<le> ra_b c \<and> ra_b c \<le> 1"
    and "0 \<le> ra_a c \<and> ra_a c \<le> 1"
  shows "\<exists>d. rgba_try_from (serialize c) = Inr d \<and> \<bar>ra_r d - ra_r c\<bar> \<le> 1 / 510 \<and> \<bar>ra_g d - ra_g c\<bar> \<le> 1 / 510 \<and>
    \<bar>ra_b d - ra_b c\<bar> \<le> 1 / 510 \<and> \<bar>ra_a d - ra_a c\<bar> \<le> 1 / 510"
proof -
  define r g b a where "r = component_byte (ra_r c)" and "g = component_byte (ra_g c)"
    and "b = component_byte (ra_b c)" and "a = component_byte (ra_a c)"
  have "unat x div 16 < 16" for x :: "8 word" using byte_bounds [of x] by simp
  then have d: "unat x div 16 < 16" "unat x mod 16 < 16" for x :: "8 word" by simp_all
  have "rgba_try_from (serialize c) = Inr \<lparr>ra_r = byte_fraction r, ra_g = byte_fraction g, ra_b = byte_fraction b, ra_a = byte_fraction a\<rparr>"
    unfolding serialize_def r_def [symmetric] g_def [symmetric] b_def [symmetric] a_def [symmetric] by (rule parse_serialized)
  then show ?thesis
    by (intro exI conjI, assumption) (use assms in \<open>simp_all add: r_def g_def b_def a_def component_byte_near del: divide_le_eq_numeral1 le_divide_eq_numeral1\<close>)
qed

section \<open>Hues\<close>

lemma unit_hue:
  assumes "- 1 \<le> t" and "t \<le> (1 :: 'f::floor_ceiling)"
  shows "rem_euclid t 6 = (if t < 0 then t + 6 else t)"
proof (cases "0 \<le> t")
  case True
  then have "\<lfloor>t / 6\<rfloor> = 0" using assms by (simp add: floor_eq_iff)
  then show ?thesis using True by (simp add: rem_euclid_def frem_def)
next
  case False
  then have "\<lceil>t / 6\<rceil> = 0" using assms by (simp add: ceiling_eq_iff)
  then show ?thesis using False by (simp add: rem_euclid_def frem_def zero_le_divide_iff)
qed

lemma frem_two:
  fixes t :: "'f::floor_ceiling"
  assumes "0 \<le> t"
  shows "t < 2 \<Longrightarrow> frem t 2 = t" "2 \<le> t \<Longrightarrow> t < 4 \<Longrightarrow> frem t 2 = t - 2" "4 \<le> t \<Longrightarrow> t < 6 \<Longrightarrow> frem t 2 = t - 4"
proof -
  have "t < 2 \<Longrightarrow> \<lfloor>t / 2\<rfloor> = 0" "2 \<le> t \<Longrightarrow> t < 4 \<Longrightarrow> \<lfloor>t / 2\<rfloor> = 1" "4 \<le> t \<Longrightarrow> t < 6 \<Longrightarrow> \<lfloor>t / 2\<rfloor> = 2"
    using assms by (auto simp: floor_eq_iff)
  then show "t < 2 \<Longrightarrow> frem t 2 = t" "2 \<le> t \<Longrightarrow> t < 4 \<Longrightarrow> frem t 2 = t - 2" "4 \<le> t \<Longrightarrow> t < 6 \<Longrightarrow> frem t 2 = t - 4"
    using assms by (simp_all add: frem_def)
qed

text \<open>The colour of each sixth of the hues, with chroma \<open>d\<close> and least component \<open>m\<close>.\<close>

definition hue_color :: "'f::floor_ceiling \<Rightarrow> 'f \<Rightarrow> 'f \<Rightarrow> 'f \<Rightarrow> 'f rgba_color" where
  "hue_color t d m a =
     (if t < 1 then \<lparr>ra_r = d + m, ra_g = d * t + m, ra_b = m, ra_a = a\<rparr>
      else if t < 2 then \<lparr>ra_r = d * (2 - t) + m, ra_g = d + m, ra_b = m, ra_a = a\<rparr>
      else if t < 3 then \<lparr>ra_r = m, ra_g = d + m, ra_b = d * (t - 2) + m, ra_a = a\<rparr>
      else if t < 4 then \<lparr>ra_r = m, ra_g = d * (4 - t) + m, ra_b = d + m, ra_a = a\<rparr>
      else if t < 5 then \<lparr>ra_r = d * (t - 4) + m, ra_g = m, ra_b = d + m, ra_a = a\<rparr>
      else \<lparr>ra_r = d + m, ra_g = m, ra_b = d * (6 - t) + m, ra_a = a\<rparr>)"

lemma clamp_unit_id: "0 \<le> x \<Longrightarrow> x \<le> 1 \<Longrightarrow> clamp_unit x = x"
  by (simp add: clamp_unit_def)

lemma clamp_mix:
  assumes "0 \<le> d" and "0 \<le> m" and "d + m \<le> 1" and "0 \<le> k" and "k \<le> (1 :: 'f::floor_ceiling)"
  shows "clamp_unit (d * k + m) = d * k + m"
proof (rule clamp_unit_id)
  show "0 \<le> d * k + m" using assms by simp
  have "d * k \<le> d" using assms by (simp add: mult_left_le)
  then show "d * k + m \<le> 1" using assms(3) by (meson add_right_mono order_trans)
qed

lemma rgba_of_hsla_hue:
  fixes t :: "'f::floor_ceiling"
  assumes "(1 - \<bar>2 * l - 1\<bar>) * s = d" and "l - d / 2 = m" and "0 \<le> t" and "t < 6"
    and "0 \<le> d" and "0 \<le> m" and "d + m \<le> 1"
  shows "rgba_of_hsla \<lparr>hs_h = t / 6, hs_s = s, hs_l = l, hs_a = a\<rparr> = hue_color t d m a"
proof -
  have ends: "clamp_unit (d + m) = d + m" "clamp_unit m = m" using assms(5-7) by (simp_all add: clamp_unit_id)
  note mix = clamp_mix [OF assms(5-7)]
  consider "t < 1" | "1 \<le> t" "t < 2" | "2 \<le> t" "t < 3" | "3 \<le> t" "t < 4" | "4 \<le> t" "t < 5" | "5 \<le> t" by linarith
  then show ?thesis
  proof cases
    case 1
    then have "\<lfloor>t\<rfloor> = 0" "frem t 2 = t" using assms(3) by (simp_all add: floor_eq_iff frem_two)
    then show ?thesis using 1 assms(1-3) ends mix [of t] by (simp add: rgba_of_hsla_def Let_def as_i32_def hue_color_def)
  next
    case 2
    then have "\<lfloor>t\<rfloor> = 1" "frem t 2 = t" using assms(3) by (simp_all add: floor_eq_iff frem_two)
    then show ?thesis using 2 assms(1-3) ends mix [of "2 - t"] by (simp add: rgba_of_hsla_def Let_def as_i32_def hue_color_def)
  next
    case 3
    then have "\<lfloor>t\<rfloor> = 2" "frem t 2 = t - 2" using assms(3) by (simp_all add: floor_eq_iff frem_two)
    then show ?thesis using 3 assms(1-3) ends mix [of "t - 2"] by (simp add: rgba_of_hsla_def Let_def as_i32_def hue_color_def)
  next
    case 4
    then have "\<lfloor>t\<rfloor> = 3" "frem t 2 = t - 2" using assms(3) by (simp_all add: floor_eq_iff frem_two)
    then show ?thesis using 4 assms(1-3) ends mix [of "4 - t"] by (simp add: rgba_of_hsla_def Let_def as_i32_def hue_color_def)
  next
    case 5
    then have "\<lfloor>t\<rfloor> = 4" "frem t 2 = t - 4" using assms(3) by (simp_all add: floor_eq_iff frem_two)
    then show ?thesis using 5 assms(1-3) ends mix [of "t - 4"] by (simp add: rgba_of_hsla_def Let_def as_i32_def hue_color_def)
  next
    case 6
    then have "\<lfloor>t\<rfloor> = 5" "frem t 2 = t - 4" using assms(3,4) by (simp_all add: floor_eq_iff frem_two)
    then show ?thesis using 6 assms(1-3) ends mix [of "6 - t"] assms(4) by (simp add: rgba_of_hsla_def Let_def as_i32_def hue_color_def)
  qed
qed

lemma chroma:
  fixes mx :: "'f::floor_ceiling"
  assumes "0 \<le> mn" and "mn \<le> mx" and "mx \<le> 1" and "l = (mx + mn) / 2"
  shows "(1 - \<bar>2 * l - 1\<bar>) *
    (if l = 0 \<or> l = 1 then 0 else if l < 1 / 2 then (mx - mn) / (2 * l) else (mx - mn) / (2 - 2 * l)) = mx - mn"
proof -
  consider "l = 0" | "l = 1" | "0 < l" "l < 1 / 2" | "1 / 2 \<le> l" "l < 1" using assms by (auto simp: field_simps) (linarith+)?
  then show ?thesis
  proof cases
    case 1
    then show ?thesis using assms by (simp add: field_simps)
  next
    case 2
    then show ?thesis using assms by (simp add: field_simps)
  next
    case 3
    then show ?thesis by (simp add: abs_if field_simps)
  next
    case 4
    then show ?thesis by (simp add: abs_if field_simps)
  qed
qed

lemma quotient_unit: "0 < d \<Longrightarrow> \<bar>x\<bar> \<le> d \<Longrightarrow> - 1 \<le> x / d \<and> x / d \<le> (1 :: 'f::linordered_field)"
  by (simp add: le_divide_eq divide_le_eq abs_le_iff)

lemma hue_color_back:
  fixes r g b :: "'f::floor_ceiling"
  assumes "mx = max r (max g b)" and "mn = min r (min g b)" and "mx - mn \<noteq> 0"
    and "t = (if mx = r then rem_euclid ((g - b) / (mx - mn)) 6
      else if mx = g then (b - r) / (mx - mn) + 2 else (r - g) / (mx - mn) + 4)"
  shows "0 \<le> t \<and> t < 6 \<and> hue_color t (mx - mn) mn a = \<lparr>ra_r = r, ra_g = g, ra_b = b, ra_a = a\<rparr>"
proof -
  define d where "d = mx - mn"
  have "mn \<le> r" "r \<le> mx" using assms(1,2) by simp_all
  then have d: "0 < d" using assms(3) by (simp add: d_def)
  have frac: "- 1 \<le> x / d \<and> x / d \<le> 1" "d * (x / d) = x" if "\<bar>x\<bar> \<le> d" for x
    using quotient_unit [OF d that] d by simp_all
  consider (r) "mx = r" | (g) "mx = g" "mx \<noteq> r" | (b) "mx = b" "mx \<noteq> r" "mx \<noteq> g" using assms(1) by linarith
  then show ?thesis
  proof cases
    case r
    define u where "u = (g - b) / d"
    have "\<bar>g - b\<bar> \<le> d" using assms(1,2) by (auto simp: d_def abs_le_iff)
    note u = frac [OF this, folded u_def]
    have "t = (if u < 0 then u + 6 else u)" using unit_hue [of u] u(1) r by (simp add: assms(4) u_def d_def)
    moreover have "(u < 0) = (g < b)" using d by (simp add: u_def divide_less_0_iff)
    moreover have "u = 1 \<Longrightarrow> g - b = d" using u(2) by simp
    ultimately show ?thesis unfolding d_def [symmetric] using u assms(1,2) r
      by (auto simp: hue_color_def d_def algebra_simps)
  next
    case g
    define u where "u = (b - r) / d"
    have "\<bar>b - r\<bar> \<le> d" using assms(1,2) by (auto simp: d_def abs_le_iff)
    note u = frac [OF this, folded u_def]
    have "t = u + 2" using g by (simp add: assms(4) u_def d_def)
    moreover have "(u < 0) = (b < r)" using d by (simp add: u_def divide_less_0_iff)
    moreover have "u = 1 \<Longrightarrow> b - r = d" using u(2) by simp
    ultimately show ?thesis unfolding d_def [symmetric] using u assms(1,2) g
      by (auto simp: hue_color_def d_def algebra_simps)
  next
    case b
    define u where "u = (r - g) / d"
    have "\<bar>r - g\<bar> \<le> d" using assms(1,2) by (auto simp: d_def abs_le_iff)
    note u = frac [OF this, folded u_def]
    have "t = u + 4" using b by (simp add: assms(4) u_def d_def)
    moreover have "(u < 0) = (r < g)" using d by (simp add: u_def divide_less_0_iff)
    moreover have "u = 1 \<Longrightarrow> r - g = d" using u(2) by simp
    ultimately show ?thesis unfolding d_def [symmetric] using u assms(1,2) b
      by (auto simp: hue_color_def d_def algebra_simps)
  qed
qed

text \<open>
  C37. Turning a colour into hue, saturation and lightness and back gives the colour.
\<close>

theorem hsla_round_trip:
  fixes c :: "'f::floor_ceiling rgba_color"
  assumes "0 \<le> ra_r c \<and> ra_r c \<le> 1" and "0 \<le> ra_g c \<and> ra_g c \<le> 1" and "0 \<le> ra_b c \<and> ra_b c \<le> 1"
  shows "rgba_of_hsla (hsla_of_rgba c) = c"
proof -
  obtain r g b a where c: "c = \<lparr>ra_r = r, ra_g = g, ra_b = b, ra_a = a\<rparr>" by (cases c)
  define mx mn where "mx = max r (max g b)" and "mn = min r (min g b)"
  define l where "l = (mx + mn) / 2"
  define s where "s = (if l = 0 \<or> l = 1 then 0 else if l < 1 / 2 then (mx - mn) / (2 * l) else (mx - mn) / (2 - 2 * l))"
  define t where "t = (if mx - mn = 0 then 0 else if mx = r then rem_euclid ((g - b) / (mx - mn)) 6
    else if mx = g then (b - r) / (mx - mn) + 2 else (r - g) / (mx - mn) + 4)"
  have range: "0 \<le> mn" "mn \<le> mx" "mx \<le> 1" using assms by (auto simp: c mx_def mn_def)
  have "hsla_of_rgba c = \<lparr>hs_h = t / 6, hs_s = s, hs_l = l, hs_a = a\<rparr>"
    by (simp only: hsla_of_rgba_def Let_def c rgba_color.simps mx_def [symmetric] mn_def [symmetric] l_def [symmetric]
        s_def [symmetric] t_def if_distrib [of "\<lambda>x. x / 6"] div_0)
  moreover have t: "0 \<le> t \<and> t < 6 \<and> hue_color t (mx - mn) mn a = c"
  proof (cases "mx - mn = 0")
    case True
    then have "r = mn" "g = mn" "b = mn" by (auto simp: mx_def mn_def)
    with True show ?thesis by (simp add: t_def hue_color_def c)
  qed (use hue_color_back [OF mx_def mn_def, of t a] in \<open>simp add: t_def c\<close>)
  moreover have "l - (mx - mn) / 2 = mn" by (simp add: l_def field_simps)
  ultimately show ?thesis
    using rgba_of_hsla_hue [OF chroma [OF range l_def, folded s_def], of mn t a] range by simp
qed

lemma color_text_round_trip_witness:
  "\<exists>d. rgba_try_from (serialize \<lparr>ra_r = 1 / 3, ra_g = 0, ra_b = 1, ra_a = 1 / 2 :: rat\<rparr>) = Inr d \<and> \<bar>ra_r d - (1 / 3 :: rat)\<bar> \<le> 1 / 510"
  using color_text_round_trip [of "\<lparr>ra_r = 1 / 3, ra_g = 0, ra_b = 1, ra_a = 1 / 2 :: rat\<rparr>"] by auto

lemma hsla_round_trip_witness:
  "rgba_of_hsla (hsla_of_rgba \<lparr>ra_r = 1 / 3, ra_g = 0, ra_b = 1, ra_a = 1 / 2 :: rat\<rparr>) =
    \<lparr>ra_r = 1 / 3, ra_g = 0, ra_b = 1, ra_a = 1 / 2\<rparr>"
  by (rule hsla_round_trip) simp_all

text \<open>
  A digit pair may also be a plus sign and a digit, which the pattern given for the text of a colour
  does not allow.
\<close>

lemma plus_sign_accepted:
  "rgba_try_from ''#+1+2+3'' = Inr \<lparr>ra_r = byte_fraction 1, ra_g = byte_fraction 2, ra_b = byte_fraction 3, ra_a = byte_fraction 255 :: rat\<rparr>"
  by (simp add: rgba_try_from_def trim_def split_once_def is_whitespace_def code_point_def hex_components_def hex_component_def
      get_bytes_def numeral_eq_Suc u8_from_hex_def hex_value_def)

text \<open>A width over 257 pixels does not fit the number that holds the pattern's width and interval.\<close>

lemma pattern_slash_overflows: "pattern_slash c (258 :: rat) 1 = None"
  by (simp add: pattern_slash_def as_u32_def Let_def)

end
