(* ===== verification/Hit_Test.thy ===== *)
theory Hit_Test
  imports Scene_Types "HOL-Library.Word"
begin

text \<open>
  Which elements the mouse is over, from \<open>src/src/window.rs\<close>: the hitboxes of a frame, the hit test at a
  position, what it says of a hitbox and of the window's control areas, the style of the cursor, and where a tooltip is put.
\<close>

section \<open>Hitboxes\<close>

datatype hitbox_behavior = Normal_behavior | Block_mouse | Block_mouse_except_scroll

record 'a hitbox =
  hb_id :: "64 word"
  hb_bounds :: "'a bounds"
  hb_content_mask :: "'a content_mask"
  hb_behavior :: hitbox_behavior

record hit_test_result =
  ht_ids :: "64 word list"
  ht_hover_hitbox_count :: nat

text \<open>\<open>HitTest::default\<close> and \<open>HitboxId::next\<close>, which wraps round.\<close>

definition hit_test_default :: hit_test_result where
  "hit_test_default = \<lparr>ht_ids = [], ht_hover_hitbox_count = 0\<rparr>"

definition hitbox_id_next :: "64 word \<Rightarrow> 64 word" where
  "hitbox_id_next i = i + 1"

text \<open>\<open>Frame::hit_test\<close>: the loop from the last hitbox to the first, with the flag that the count is set.\<close>

fun hit_test_loop :: "'a::linordered_field point \<Rightarrow> 'a hitbox list \<Rightarrow> bool \<Rightarrow> hit_test_result \<Rightarrow> bool \<times> hit_test_result" where
  "hit_test_loop position [] counted t = (counted, t)"
| "hit_test_loop position (h # hs) counted t =
     (if bounds_contains (bounds_intersect (hb_bounds h) (cm_bounds (hb_content_mask h))) position then
        let t = t\<lparr>ht_ids := ht_ids t @ [hb_id h]\<rparr>;
            scrolls = (\<not> counted \<and> hb_behavior h = Block_mouse_except_scroll);
            t = (if scrolls then t\<lparr>ht_hover_hitbox_count := length (ht_ids t)\<rparr> else t)
        in if hb_behavior h = Block_mouse then (counted \<or> scrolls, t)
           else hit_test_loop position hs (counted \<or> scrolls) t
      else hit_test_loop position hs counted t)"

definition hit_test :: "'a::linordered_field point \<Rightarrow> 'a hitbox list \<Rightarrow> hit_test_result" where
  "hit_test position hitboxes = (case hit_test_loop position (rev hitboxes) False hit_test_default of (counted, t) \<Rightarrow>
     if counted then t else t\<lparr>ht_hover_hitbox_count := length (ht_ids t)\<rparr>)"

text \<open>\<open>HitboxId::is_hovered\<close> and \<open>HitboxId::should_handle_scroll\<close>, for the hit test of the window.\<close>

definition hitbox_is_hovered :: "64 word \<Rightarrow> hit_test_result \<Rightarrow> bool" where
  "hitbox_is_hovered i t \<longleftrightarrow> i \<in> set (take (ht_hover_hitbox_count t) (ht_ids t))"

definition should_handle_scroll :: "64 word \<Rightarrow> hit_test_result \<Rightarrow> bool" where
  "should_handle_scroll i t \<longleftrightarrow> i \<in> set (ht_ids t)"

section \<open>Control areas and the cursor\<close>

datatype window_control_area = Area_drag | Area_close | Area_max | Area_min

text \<open>What the platform asks for: the first control area whose hitbox is under the mouse.\<close>

definition window_control_at :: "(window_control_area \<times> 'a hitbox) list \<Rightarrow> hit_test_result \<Rightarrow> window_control_area option" where
  "window_control_at areas t = map_option fst (List.find (\<lambda>(area, h). hb_id h \<in> set (ht_ids t)) areas)"

record 's cursor_style_request =
  cr_hitbox_id :: "64 word option"
  cr_style :: 's

text \<open>\<open>Frame::cursor_style\<close>: the \<open>fold_while\<close> over the requests from the last to the first.\<close>

fun cursor_style_fold :: "hit_test_result \<Rightarrow> 's option \<Rightarrow> 's cursor_style_request list \<Rightarrow> 's option" where
  "cursor_style_fold t style [] = style"
| "cursor_style_fold t style (r # rs) = (case cr_hitbox_id r of
     None \<Rightarrow> Some (cr_style r)
   | Some i \<Rightarrow> cursor_style_fold t
       (case style of Some s \<Rightarrow> Some s | None \<Rightarrow> if hitbox_is_hovered i t then Some (cr_style r) else None) rs)"

definition cursor_style :: "hit_test_result \<Rightarrow> 's cursor_style_request list \<Rightarrow> 's option" where
  "cursor_style t requests = cursor_style_fold t None (rev requests)"

section \<open>Tooltips\<close>

record 'a tooltip_bounds =
  tb_id :: nat
  tb_bounds :: "'a bounds"

definition tooltip_is_hovered :: "nat \<Rightarrow> 'a::linordered_field point \<Rightarrow> 'a tooltip_bounds option \<Rightarrow> bool" where
  "tooltip_is_hovered i mouse shown = (case shown of None \<Rightarrow> False
     | Some b \<Rightarrow> tb_id b = i \<and> bounds_contains (tb_bounds b) mouse)"

text \<open>
  Where \<open>Window::prepaint_tooltip\<close> puts a tooltip, in one dimension: below and to the right of the mouse,
  and on the other side of it where the window ends.
\<close>

definition tooltip_coordinate :: "'a::linordered_field \<Rightarrow> 'a \<Rightarrow> 'a \<Rightarrow> 'a" where
  "tooltip_coordinate mouse extent window_end =
     (let start = mouse + 1; tooltip_end = start + extent in
      if window_end < tooltip_end then
        let new = mouse - extent - 1 in
        if 0 \<le> new then new else max 0 (start - tooltip_end - window_end)
      else start)"

definition tooltip_place :: "'a::linordered_field point \<Rightarrow> 'a size2 \<Rightarrow> 'a size2 \<Rightarrow> 'a bounds" where
  "tooltip_place mouse extent viewport =
     Bounds (Point (tooltip_coordinate (pt_x mouse) (sz_width extent) (sz_width viewport))
                   (tooltip_coordinate (pt_y mouse) (sz_height extent) (sz_height viewport))) extent"

section \<open>What a hit test finds\<close>

definition under_mouse :: "'a::linordered_field point \<Rightarrow> 'a hitbox \<Rightarrow> bool" where
  "under_mouse position h \<longleftrightarrow> bounds_contains (bounds_intersect (hb_bounds h) (cm_bounds (hb_content_mask h))) position"

text \<open>The hitboxes of a list, front to back, that the mouse reaches: those before the first that blocks it, and that one.\<close>

fun reached :: "('h \<Rightarrow> bool) \<Rightarrow> 'h list \<Rightarrow> 'h list" where
  "reached blocks [] = []"
| "reached blocks (h # hs) = h # (if blocks h then [] else reached blocks hs)"

lemma reached_append: "reached B (xs @ ys) = reached B xs @ (if list_ex B xs then [] else reached B ys)"
  by (induction xs) auto

lemma reached_subset: "set (reached B hs) \<subseteq> set hs"
  by (induction hs) auto

lemma in_reached:
  assumes "distinct (xs @ h # ys)"
  shows "h \<in> set (reached B (xs @ h # ys)) \<longleftrightarrow> (\<forall>x \<in> set xs. \<not> B x)"
proof -
  have "h \<notin> set (reached B xs)" using assms reached_subset [of B xs] by auto
  then show ?thesis by (auto simp: reached_append list_ex_iff)
qed

abbreviation blocks_scroll :: "'a hitbox \<Rightarrow> bool" where
  "blocks_scroll h \<equiv> hb_behavior h = Block_mouse"

abbreviation blocks_hover :: "'a hitbox \<Rightarrow> bool" where
  "blocks_hover h \<equiv> hb_behavior h \<noteq> Normal_behavior"

lemma hit_test_loop_counted:
  "hit_test_loop p hs True t =
     (True, t\<lparr>ht_ids := ht_ids t @ map hb_id (reached blocks_scroll (filter (under_mouse p) hs))\<rparr>)"
  by (induction hs arbitrary: t) (auto simp: under_mouse_def Let_def)

lemma reached_scroll_extends: "length (reached blocks_hover hs) \<le> length (reached blocks_scroll hs)"
  by (induction hs) auto

lemma reached_take: "reached blocks_hover hs = take (length (reached blocks_hover hs)) (reached blocks_scroll hs)"
  by (induction hs) (auto simp: take_Cons')

lemma hit_test_loop_uncounted:
  assumes "hit_test_loop p hs False t = (counted, t')"
  shows "ht_ids t' = ht_ids t @ map hb_id (reached blocks_scroll (filter (under_mouse p) hs)) \<and>
    (if counted then ht_hover_hitbox_count t' else length (ht_ids t')) =
      length (ht_ids t) + length (reached blocks_hover (filter (under_mouse p) hs))"
  using assms
proof (induction hs arbitrary: t)
  case (Cons h hs)
  show ?case
  proof (cases "under_mouse p h")
    case True
    then have hit: "bounds_contains (bounds_intersect (hb_bounds h) (cm_bounds (hb_content_mask h))) p" by (simp add: under_mouse_def)
    show ?thesis
    proof (cases "hb_behavior h")
      case Normal_behavior
      then show ?thesis using Cons True hit by fastforce
    next
      case Block_mouse
      then show ?thesis using Cons.prems True hit by (auto simp: Let_def)
    next
      case Block_mouse_except_scroll
      then show ?thesis using Cons.prems True hit by (auto simp: Let_def hit_test_loop_counted)
    qed
  qed (use Cons in \<open>auto simp: under_mouse_def\<close>)
qed simp

lemma hit_test_ids:
  "ht_ids (hit_test p hs) = map hb_id (reached blocks_scroll (filter (under_mouse p) (rev hs)))"
  "take (ht_hover_hitbox_count (hit_test p hs)) (ht_ids (hit_test p hs)) =
     map hb_id (reached blocks_hover (filter (under_mouse p) (rev hs)))"
proof -
  obtain counted t where loop: "hit_test_loop p (rev hs) False hit_test_default = (counted, t)" by fastforce
  have t: "hit_test p hs = (if counted then t else t\<lparr>ht_hover_hitbox_count := length (ht_ids t)\<rparr>)"
    by (simp add: hit_test_def loop)
  have facts: "ht_ids (hit_test p hs) = map hb_id (reached blocks_scroll (filter (under_mouse p) (rev hs)))"
    "ht_hover_hitbox_count (hit_test p hs) = length (reached blocks_hover (filter (under_mouse p) (rev hs)))"
    unfolding t using hit_test_loop_uncounted [OF loop] by (auto simp: hit_test_default_def split: if_splits)
  then show "ht_ids (hit_test p hs) = map hb_id (reached blocks_scroll (filter (under_mouse p) (rev hs)))" by simp
  show "take (ht_hover_hitbox_count (hit_test p hs)) (ht_ids (hit_test p hs)) =
     map hb_id (reached blocks_hover (filter (under_mouse p) (rev hs)))"
    unfolding facts take_map by (subst (2) reached_take) (rule refl)
qed

lemma hit_iff:
  assumes "distinct (map hb_id (xs @ h # ys))"
  shows "hb_id h \<in> hb_id ` set (reached B (filter P (rev (xs @ h # ys)))) \<longleftrightarrow> P h \<and> (\<forall>f \<in> set ys. P f \<longrightarrow> \<not> B f)"
proof -
  have inj: "inj_on hb_id (set (xs @ h # ys))" and d: "distinct (xs @ h # ys)" using assms by (simp_all only: distinct_map)
  have "set (reached B (filter P (rev (xs @ h # ys)))) \<subseteq> set (xs @ h # ys)"
    using reached_subset [of B "filter P (rev (xs @ h # ys))"] by auto
  then have "hb_id h \<in> hb_id ` set (reached B (filter P (rev (xs @ h # ys)))) \<longleftrightarrow>
      h \<in> set (reached B (filter P (rev (xs @ h # ys))))"
    by (intro inj_on_image_mem_iff [OF inj]) simp_all
  also have "\<dots> \<longleftrightarrow> P h \<and> (\<forall>f \<in> set ys. P f \<longrightarrow> \<not> B f)"
  proof (cases "P h")
    case True
    have "distinct (filter P (rev ys) @ h # filter P (rev xs))" using d by auto
    from in_reached [OF this, of B] show ?thesis using True by auto
  next
    case False
    then have "h \<notin> set (filter P (rev (xs @ h # ys)))" by simp
    then show ?thesis using False reached_subset [of B "filter P (rev (xs @ h # ys))"] by auto
  qed
  finally show ?thesis .
qed

text \<open>
  C23. A hitbox is hovered if the mouse is in the visible part of it and no hitbox in front that the mouse is in blocks
  the mouse, and it handles scrolling if none of those blocks scrolling too.
\<close>

theorem hit_test_correct:
  assumes "distinct (map hb_id (xs @ h # ys))"
  shows "(hitbox_is_hovered (hb_id h) (hit_test p (xs @ h # ys)) \<longleftrightarrow>
      under_mouse p h \<and> (\<forall>f \<in> set ys. under_mouse p f \<longrightarrow> hb_behavior f = Normal_behavior)) \<and>
    (should_handle_scroll (hb_id h) (hit_test p (xs @ h # ys)) \<longleftrightarrow>
      under_mouse p h \<and> (\<forall>f \<in> set ys. under_mouse p f \<longrightarrow> hb_behavior f \<noteq> Block_mouse))"
  unfolding hitbox_is_hovered_def hit_test_ids(2) set_map hit_iff [OF assms]
  unfolding should_handle_scroll_def hit_test_ids(1) set_map hit_iff [OF assms] by simp

text \<open>The latest request for the whole window decides, and without one the latest whose hitbox is hovered.\<close>

lemma cursor_style_fold_spec:
  "cursor_style_fold t style rs = (case List.find (\<lambda>r. cr_hitbox_id r = None) rs of
     Some r \<Rightarrow> Some (cr_style r)
   | None \<Rightarrow> (case style of Some s \<Rightarrow> Some s
       | None \<Rightarrow> map_option cr_style (List.find (\<lambda>r. \<exists>i. cr_hitbox_id r = Some i \<and> hitbox_is_hovered i t) rs)))"
  by (induction rs arbitrary: style) (auto split: option.splits)

lemma cursor_style_spec:
  "cursor_style t requests = (case List.find (\<lambda>r. cr_hitbox_id r = None) (rev requests) of
     Some r \<Rightarrow> Some (cr_style r)
   | None \<Rightarrow> map_option cr_style
       (List.find (\<lambda>r. \<exists>i. cr_hitbox_id r = Some i \<and> hitbox_is_hovered i t) (rev requests)))"
  by (simp add: cursor_style_def cursor_style_fold_spec split: option.split)

text \<open>
  A tooltip that has room in the window is in the window.  Where it fits on neither side of the mouse
  it is put at the start of the window: the subtraction that was to move it back by what sticks out
  is never positive.
\<close>

lemma tooltip_at_start:
  assumes "0 \<le> extent" and "0 \<le> window_end" and "window_end < mouse + 1 + extent" and "mouse - extent - 1 < 0"
  shows "tooltip_coordinate mouse extent window_end = 0"
  using assms by (simp add: tooltip_coordinate_def Let_def)

lemma tooltip_in_window:
  assumes "0 \<le> extent" and "extent \<le> window_end" and "0 \<le> mouse" and "mouse \<le> window_end"
  shows "0 \<le> tooltip_coordinate mouse extent window_end \<and> tooltip_coordinate mouse extent window_end + extent \<le> window_end"
  using assms by (auto simp: tooltip_coordinate_def Let_def max_def)


lemma hit_test_correct_witness:
  "let whole = \<lparr>cm_bounds = Bounds (Point 0 0) (Size 10 10)\<rparr>;
       back = \<lparr>hb_id = 0, hb_bounds = Bounds (Point 0 0) (Size 4 4), hb_content_mask = whole, hb_behavior = Normal_behavior\<rparr>;
       front = \<lparr>hb_id = 1, hb_bounds = Bounds (Point 1 1) (Size 2 2), hb_content_mask = whole, hb_behavior = Block_mouse_except_scroll\<rparr>
   in \<not> hitbox_is_hovered 0 (hit_test (Point 2 (2 :: rat)) [back, front]) \<and> should_handle_scroll 0 (hit_test (Point 2 2) [back, front])"
  unfolding Let_def
  using hit_test_correct [of "[]" "\<lparr>hb_id = 0, hb_bounds = Bounds (Point 0 0) (Size 4 4),
      hb_content_mask = \<lparr>cm_bounds = Bounds (Point 0 0) (Size 10 10)\<rparr>, hb_behavior = Normal_behavior\<rparr>"
      "[\<lparr>hb_id = 1, hb_bounds = Bounds (Point 1 1) (Size 2 2), hb_content_mask = \<lparr>cm_bounds = Bounds (Point 0 0) (Size 10 10)\<rparr>,
        hb_behavior = Block_mouse_except_scroll\<rparr>]" "Point 2 (2 :: rat)"]
  by (simp add: under_mouse_def bounds_contains_def bounds_intersect_def from_corners_def point_max_def point_min_def bottom_right_def)

end
