(* ===== verification/Window_State.thy ===== *)
theory Window_State
  imports Hit_Test Scene Tab_Stop Layout_Cache Dispatch_Tree "HOL-Library.Monad_Syntax"
begin

text \<open>
  A window while it draws, from \<open>src/src/window.rs\<close>: the frame on the screen and the frame that is
  being built, the stacks that give an element its place, and the operations by which elements
  record what they are in the frame.  Closures, elements and input handlers are codes; text
  styles and cursor styles are plain data.  A call that is given a closure is a function of a
  computation on the window, which returns a result and the new window, or \<open>None\<close> if it panics.
  \<open>dbg\<close> tells whether debug assertions are compiled in.
\<close>

section \<open>Frames\<close>

text \<open>
  An element state is boxed as an \<open>Option\<close> of its type, behind \<open>dyn Any\<close>: the box holds the type it was
  made with and the value, if it is there.
\<close>

record 'v element_state =
  es_type :: nat
  es_inner :: "'v option"

type_synonym 'i state_key = "'i list \<times> nat"

record prepaint_state_index =
  px_hitboxes :: nat
  px_tooltips :: nat
  px_deferred_draws :: nat
  px_dispatch_tree :: nat
  px_accessed_element_states :: nat
  px_line_layout :: layout_index

record paint_state_index =
  pn_scene :: nat
  pn_mouse_listeners :: nat
  pn_input_handlers :: nat
  pn_cursor_styles :: nat
  pn_accessed_element_states :: nat
  pn_tab_handle :: nat
  pn_line_layout :: layout_index

record ('a, 'i, 'l, 'x) deferred_draw =
  dd_current_view :: nat
  dd_priority :: nat
  dd_parent_node :: nat
  dd_element_id_stack :: "'i list"
  dd_text_style_stack :: "'x list"
  dd_element :: "'l option"
  dd_absolute_offset :: "'a point"
  dd_prepaint_range :: "prepaint_state_index \<times> prepaint_state_index"
  dd_paint_range :: "paint_state_index \<times> paint_state_index"

record ('a, 'i, 'l, 't, 'u, 'v, 'x) frame =
  fra_focus :: "nat option"
  fra_window_active :: bool
  fra_element_states :: "'i state_key \<Rightarrow> 'v element_state option"
  fra_accessed_element_states :: "'i state_key list"
  fra_mouse_listeners :: "'l option list"
  fra_dispatch_tree :: "'l dispatch_tree"
  fra_scene :: "('a, 'x, 'u) scene"
  fra_hitboxes :: "'a hitbox list"
  fra_window_control_hitboxes :: "(window_control_area \<times> 'a hitbox) list"
  fra_deferred_draws :: "('a, 'i, 'l, 'x) deferred_draw list"
  fra_input_handlers :: "'l option list"
  fra_tooltip_requests :: "(nat \<times> 'l) option list"
  fra_cursor_styles :: "'x cursor_style_request list"
  fra_tab_stops :: "'t tab_stop_map"

definition frame_new :: "('t, 'c) sum_tree \<Rightarrow> ('a, 'i, 'l, 't, 'u, 'v, 'x) frame" where
  "frame_new T = \<lparr>fra_focus = None, fra_window_active = False, fra_element_states = Map.empty, fra_accessed_element_states = [],
     fra_mouse_listeners = [], fra_dispatch_tree = tree_new, fra_scene = scene_new, fra_hitboxes = [],
     fra_window_control_hitboxes = [], fra_deferred_draws = [], fra_input_handlers = [], fra_tooltip_requests = [],
     fra_cursor_styles = [], fra_tab_stops = tab_map_new T\<rparr>"

text \<open>\<open>Frame::clear\<close>; the handles of the tab stops are dropped, which lowers their counts.\<close>

definition frame_clear :: "('t, 'c) sum_tree \<Rightarrow> focus_map \<Rightarrow> ('a, 'i, 'l, 't, 'u, 'v, 'x) frame \<Rightarrow>
    (focus_map \<times> ('a, 'i, 'l, 't, 'u, 'v, 'x) frame) option" where
  "frame_clear T fm f = map_option (\<lambda>(fm, tab_stops).
     (fm, f\<lparr>fra_element_states := Map.empty, fra_accessed_element_states := [], fra_mouse_listeners := [],
        fra_dispatch_tree := tree_clear (fra_dispatch_tree f), fra_scene := scene_clear (fra_scene f), fra_input_handlers := [],
        fra_tooltip_requests := [], fra_cursor_styles := [], fra_hitboxes := [], fra_window_control_hitboxes := [],
        fra_deferred_draws := [], fra_tab_stops := tab_stops, fra_focus := None\<rparr>))
     (tab_clear T (fm, fra_tab_stops f))"

text \<open>
  \<open>Frame::finish\<close>: the states of elements that were accessed in this frame and not moved to it yet are
  taken over from the last frame.
\<close>

fun keep_element_states :: "'k list \<Rightarrow> ('k \<Rightarrow> 's option) \<Rightarrow> ('k \<Rightarrow> 's option) \<Rightarrow> ('k \<Rightarrow> 's option) \<times> ('k \<Rightarrow> 's option)" where
  "keep_element_states [] prev states = (prev, states)"
| "keep_element_states (k # ks) prev states = (case prev k of
     Some s \<Rightarrow> keep_element_states ks (prev(k := None)) (states(k \<mapsto> s))
   | None \<Rightarrow> keep_element_states ks prev states)"

definition frame_finish :: "('a, 'i, 'l, 't, 'u, 'v, 'x) frame \<Rightarrow> ('a, 'i, 'l, 't, 'u, 'v, 'x) frame \<Rightarrow>
    ('a, 'i, 'l, 't, 'u, 'v, 'x) frame \<times> ('a, 'i, 'l, 't, 'u, 'v, 'x) frame" where
  "frame_finish prev f =
     (case keep_element_states (fra_accessed_element_states f) (fra_element_states prev) (fra_element_states f) of
        (prev_states, states) \<Rightarrow>
          (prev\<lparr>fra_element_states := prev_states\<rparr>, f\<lparr>fra_element_states := states, fra_scene := scene_finish (fra_scene f)\<rparr>))"

text \<open>\<open>Frame::focus_path\<close>; it indexes nodes, so it can panic.\<close>

definition frame_focus_path :: "('a, 'i, 'l, 't, 'u, 'v, 'x) frame \<Rightarrow> nat list option" where
  "frame_focus_path f = (case fra_focus f of None \<Rightarrow> Some [] | Some i \<Rightarrow> focus_path (fra_dispatch_tree f) i)"

section \<open>Windows\<close>

record ('a, 'f, 'i, 'l, 't, 'u, 'v, 'x) window =
  win_invalidator :: window_invalidator
  win_focus_map :: focus_map
  win_text_system :: "('f, 'a) layout_cache"
  win_rem_size :: 'a
  win_rem_size_override_stack :: "'a list"
  win_viewport_size :: "'a size2"
  win_element_id_stack :: "'i list"
  win_text_style_stack :: "'x list"
  win_rendered_entity_stack :: "nat list"
  win_element_offset_stack :: "'a point list"
  win_element_opacity :: 'a
  win_element_transform :: "'a transformation"
  win_content_mask_stack :: "'a content_mask list"
  win_requested_autoscroll :: "'a bounds option"
  win_image_cache_stack :: "'x list"
  win_rendered_frame :: "('a, 'i, 'l, 't, 'u, 'v, 'x) frame"
  win_next_frame :: "('a, 'i, 'l, 't, 'u, 'v, 'x) frame"
  win_next_hitbox_id :: "64 word"
  win_next_tooltip_id :: nat
  win_tooltip_bounds :: "'a tooltip_bounds option"
  win_dirty_views :: "nat set"
  win_mouse_position :: "'a point"
  win_mouse_hit_test :: hit_test_result
  win_active :: bool
  win_needs_present :: bool
  win_refreshing :: bool
  win_focus :: "nat option"
  win_platform_input_handler :: "'l option"

type_synonym ('w, 'r) comp = "'w \<Rightarrow> ('r \<times> 'w) option"

definition next_frame_update :: "(('a, 'i, 'l, 't, 'u, 'v, 'x) frame \<Rightarrow> ('a, 'i, 'l, 't, 'u, 'v, 'x) frame) \<Rightarrow>
    ('a, 'f, 'i, 'l, 't, 'u, 'v, 'x, 'z) window_scheme \<Rightarrow> ('a, 'f, 'i, 'l, 't, 'u, 'v, 'x, 'z) window_scheme" where
  "next_frame_update g w = w\<lparr>win_next_frame := g (win_next_frame w)\<rparr>"

text \<open>The three debug assertions on the phase.\<close>

definition check_prepaint :: "bool \<Rightarrow> (('a, 'f, 'i, 'l, 't, 'u, 'v, 'x, 'z) window_scheme, unit) comp" where
  "check_prepaint dbg w = map_option (\<lambda>u. (u, w)) (debug_assert_prepaint dbg (win_invalidator w))"

definition check_paint :: "bool \<Rightarrow> (('a, 'f, 'i, 'l, 't, 'u, 'v, 'x, 'z) window_scheme, unit) comp" where
  "check_paint dbg w = map_option (\<lambda>u. (u, w)) (debug_assert_paint dbg (win_invalidator w))"

definition check_drawing :: "bool \<Rightarrow> (('a, 'f, 'i, 'l, 't, 'u, 'v, 'x, 'z) window_scheme, unit) comp" where
  "check_drawing dbg w = map_option (\<lambda>u. (u, w)) (debug_assert_paint_or_prepaint dbg (win_invalidator w))"

section \<open>The stacks\<close>

definition window_content_mask :: "bool \<Rightarrow> ('a::linordered_field, 'f, 'i, 'l, 't, 'u, 'v, 'x, 'z) window_scheme \<Rightarrow> 'a content_mask option" where
  "window_content_mask dbg w = do { _ \<leftarrow> check_drawing dbg w;
     Some (if win_content_mask_stack w = [] then \<lparr>cm_bounds = Bounds (Point 0 0) (win_viewport_size w)\<rparr>
           else last (win_content_mask_stack w)) }"

definition with_content_mask :: "bool \<Rightarrow> 'a content_mask option \<Rightarrow>
    (('a::linordered_field, 'f, 'i, 'l, 't, 'u, 'v, 'x, 'z) window_scheme, 'r) comp \<Rightarrow>
    (('a, 'f, 'i, 'l, 't, 'u, 'v, 'x, 'z) window_scheme, 'r) comp" where
  "with_content_mask dbg m f w = do { _ \<leftarrow> check_drawing dbg w;
     case m of
       None \<Rightarrow> f w
     | Some m \<Rightarrow> do { outer \<leftarrow> window_content_mask dbg w;
         (r, w) \<leftarrow> f (w\<lparr>win_content_mask_stack := win_content_mask_stack w @ [content_mask_intersect m outer]\<rparr>);
         Some (r, w\<lparr>win_content_mask_stack := butlast (win_content_mask_stack w)\<rparr>) } }"

definition element_offset :: "bool \<Rightarrow> ('a::linordered_field, 'f, 'i, 'l, 't, 'u, 'v, 'x, 'z) window_scheme \<Rightarrow> 'a point option" where
  "element_offset dbg w = do { _ \<leftarrow> check_prepaint dbg w;
     Some (if win_element_offset_stack w = [] then Point 0 0 else last (win_element_offset_stack w)) }"

definition with_absolute_element_offset :: "bool \<Rightarrow> 'a point \<Rightarrow> (('a, 'f, 'i, 'l, 't, 'u, 'v, 'x, 'z) window_scheme, 'r) comp \<Rightarrow>
    (('a, 'f, 'i, 'l, 't, 'u, 'v, 'x, 'z) window_scheme, 'r) comp" where
  "with_absolute_element_offset dbg offset f w = do { _ \<leftarrow> check_prepaint dbg w;
     (r, w) \<leftarrow> f (w\<lparr>win_element_offset_stack := win_element_offset_stack w @ [offset]\<rparr>);
     Some (r, w\<lparr>win_element_offset_stack := butlast (win_element_offset_stack w)\<rparr>) }"

definition with_element_offset :: "bool \<Rightarrow> 'a point \<Rightarrow> (('a::linordered_field, 'f, 'i, 'l, 't, 'u, 'v, 'x, 'z) window_scheme, 'r) comp \<Rightarrow>
    (('a, 'f, 'i, 'l, 't, 'u, 'v, 'x, 'z) window_scheme, 'r) comp" where
  "with_element_offset dbg offset f w = do { _ \<leftarrow> check_prepaint dbg w;
     if offset = Point 0 0 then f w
     else do { outer \<leftarrow> element_offset dbg w;
       with_absolute_element_offset dbg (Point (pt_x outer + pt_x offset) (pt_y outer + pt_y offset)) f w } }"

definition with_element_opacity :: "bool \<Rightarrow> 'a option \<Rightarrow> (('a::linordered_field, 'f, 'i, 'l, 't, 'u, 'v, 'x, 'z) window_scheme, 'r) comp \<Rightarrow>
    (('a, 'f, 'i, 'l, 't, 'u, 'v, 'x, 'z) window_scheme, 'r) comp" where
  "with_element_opacity dbg opacity f w = do { _ \<leftarrow> check_drawing dbg w;
     case opacity of
       None \<Rightarrow> f w
     | Some opacity \<Rightarrow> do { (r, w') \<leftarrow> f (w\<lparr>win_element_opacity := win_element_opacity w * opacity\<rparr>);
         Some (r, w'\<lparr>win_element_opacity := win_element_opacity w\<rparr>) } }"

definition with_element_transform :: "bool \<Rightarrow> 'a transformation option \<Rightarrow>
    (('a::linordered_field, 'f, 'i, 'l, 't, 'u, 'v, 'x, 'z) window_scheme, 'r) comp \<Rightarrow>
    (('a, 'f, 'i, 'l, 't, 'u, 'v, 'x, 'z) window_scheme, 'r) comp" where
  "with_element_transform dbg transform f w = do { _ \<leftarrow> check_drawing dbg w;
     case transform of
       None \<Rightarrow> f w
     | Some t \<Rightarrow> do { (r, w') \<leftarrow> f (w\<lparr>win_element_transform := tm_compose (win_element_transform w) t\<rparr>);
         Some (r, w'\<lparr>win_element_transform := win_element_transform w\<rparr>) } }"

definition with_text_style :: "bool \<Rightarrow> 'x option \<Rightarrow> (('a, 'f, 'i, 'l, 't, 'u, 'v, 'x, 'z) window_scheme, 'r) comp \<Rightarrow>
    (('a, 'f, 'i, 'l, 't, 'u, 'v, 'x, 'z) window_scheme, 'r) comp" where
  "with_text_style dbg style f w = do { _ \<leftarrow> check_drawing dbg w;
     case style of
       None \<Rightarrow> f w
     | Some s \<Rightarrow> do { (r, w) \<leftarrow> f (w\<lparr>win_text_style_stack := win_text_style_stack w @ [s]\<rparr>);
         Some (r, w\<lparr>win_text_style_stack := butlast (win_text_style_stack w)\<rparr>) } }"

definition rem_size :: "('a, 'f, 'i, 'l, 't, 'u, 'v, 'x, 'z) window_scheme \<Rightarrow> 'a" where
  "rem_size w = (if win_rem_size_override_stack w = [] then win_rem_size w else last (win_rem_size_override_stack w))"

definition set_rem_size :: "'a \<Rightarrow> ('a, 'f, 'i, 'l, 't, 'u, 'v, 'x, 'z) window_scheme \<Rightarrow> ('a, 'f, 'i, 'l, 't, 'u, 'v, 'x, 'z) window_scheme" where
  "set_rem_size s w = w\<lparr>win_rem_size := s\<rparr>"

definition with_rem_size :: "bool \<Rightarrow> 'a option \<Rightarrow> (('a, 'f, 'i, 'l, 't, 'u, 'v, 'x, 'z) window_scheme, 'r) comp \<Rightarrow>
    (('a, 'f, 'i, 'l, 't, 'u, 'v, 'x, 'z) window_scheme, 'r) comp" where
  "with_rem_size dbg override f w = do { _ \<leftarrow> check_drawing dbg w;
     case override of
       None \<Rightarrow> f w
     | Some s \<Rightarrow> do { (r, w) \<leftarrow> f (w\<lparr>win_rem_size_override_stack := win_rem_size_override_stack w @ [s]\<rparr>);
         Some (r, w\<lparr>win_rem_size_override_stack := butlast (win_rem_size_override_stack w)\<rparr>) } }"

definition with_global_id :: "'i \<Rightarrow> ('i list \<Rightarrow> (('a, 'f, 'i, 'l, 't, 'u, 'v, 'x, 'z) window_scheme, 'r) comp) \<Rightarrow>
    (('a, 'f, 'i, 'l, 't, 'u, 'v, 'x, 'z) window_scheme, 'r) comp" where
  "with_global_id i f w =
     (let w = w\<lparr>win_element_id_stack := win_element_id_stack w @ [i]\<rparr> in
      do { (r, w) \<leftarrow> f (win_element_id_stack w) w;
        Some (r, w\<lparr>win_element_id_stack := butlast (win_element_id_stack w)\<rparr>) })"

definition with_element_namespace :: "'i \<Rightarrow> (('a, 'f, 'i, 'l, 't, 'u, 'v, 'x, 'z) window_scheme, 'r) comp \<Rightarrow>
    (('a, 'f, 'i, 'l, 't, 'u, 'v, 'x, 'z) window_scheme, 'r) comp" where
  "with_element_namespace i f w = do {
     (r, w) \<leftarrow> f (w\<lparr>win_element_id_stack := win_element_id_stack w @ [i]\<rparr>);
     Some (r, w\<lparr>win_element_id_stack := butlast (win_element_id_stack w)\<rparr>) }"

definition with_id :: "'i \<Rightarrow> (('a, 'f, 'i, 'l, 't, 'u, 'v, 'x, 'z) window_scheme, 'r) comp \<Rightarrow>
    (('a, 'f, 'i, 'l, 't, 'u, 'v, 'x, 'z) window_scheme, 'r) comp" where
  "with_id i f = with_global_id i (\<lambda>_. f)"

definition with_rendered_view :: "nat \<Rightarrow> (('a, 'f, 'i, 'l, 't, 'u, 'v, 'x, 'z) window_scheme, 'r) comp \<Rightarrow>
    (('a, 'f, 'i, 'l, 't, 'u, 'v, 'x, 'z) window_scheme, 'r) comp" where
  "with_rendered_view i f w = do {
     (r, w) \<leftarrow> f (w\<lparr>win_rendered_entity_stack := win_rendered_entity_stack w @ [i]\<rparr>);
     Some (r, w\<lparr>win_rendered_entity_stack := butlast (win_rendered_entity_stack w)\<rparr>) }"

definition current_view :: "bool \<Rightarrow> ('a, 'f, 'i, 'l, 't, 'u, 'v, 'x, 'z) window_scheme \<Rightarrow> nat option" where
  "current_view dbg w = do { _ \<leftarrow> check_drawing dbg w; stack_last (win_rendered_entity_stack w) }"

definition with_image_cache :: "'x option \<Rightarrow> (('a, 'f, 'i, 'l, 't, 'u, 'v, 'x, 'z) window_scheme, 'r) comp \<Rightarrow>
    (('a, 'f, 'i, 'l, 't, 'u, 'v, 'x, 'z) window_scheme, 'r) comp" where
  "with_image_cache cache f w = (case cache of
     None \<Rightarrow> f w
   | Some c \<Rightarrow> do { (r, w) \<leftarrow> f (w\<lparr>win_image_cache_stack := win_image_cache_stack w @ [c]\<rparr>);
       Some (r, w\<lparr>win_image_cache_stack := butlast (win_image_cache_stack w)\<rparr>) })"

definition with_tab_group :: "int option \<Rightarrow> (('a, 'f, 'i, 'l, 't, 'u, 'v, 'x, 'z) window_scheme, 'r) comp \<Rightarrow>
    (('a, 'f, 'i, 'l, 't, 'u, 'v, 'x, 'z) window_scheme, 'r) comp" where
  "with_tab_group index f w = (case index of
     None \<Rightarrow> f w
   | Some i \<Rightarrow> do {
       (r, w) \<leftarrow> f (next_frame_update (\<lambda>fr. fr\<lparr>fra_tab_stops := begin_group i (fra_tab_stops fr)\<rparr>) w);
       Some (r, next_frame_update (\<lambda>fr. fr\<lparr>fra_tab_stops := end_group (fra_tab_stops fr)\<rparr>) w) })"

text \<open>The window \<open>Window::new\<close> returns, as far as drawing uses it, for what the platform window tells of itself.\<close>

definition window_new :: "('t, 'c) sum_tree \<Rightarrow> focus_map \<Rightarrow> 'a size2 \<Rightarrow> 'a point \<Rightarrow> bool \<Rightarrow>
    ('a::linordered_field, 'f, 'i, 'l, 't, 'u, 'v, 'x) window" where
  "window_new T focus_handles content_size mouse_position active = \<lparr>win_invalidator = invalidator_new, win_focus_map = focus_handles,
     win_text_system = layout_cache_new, win_rem_size = 16, win_rem_size_override_stack = [], win_viewport_size = content_size,
     win_element_id_stack = [], win_text_style_stack = [], win_rendered_entity_stack = [], win_element_offset_stack = [],
     win_element_opacity = 1, win_element_transform = tm_unit, win_content_mask_stack = [], win_requested_autoscroll = None,
     win_image_cache_stack = [], win_rendered_frame = frame_new T, win_next_frame = frame_new T, win_next_hitbox_id = 0,
     win_next_tooltip_id = 0, win_tooltip_bounds = None, win_dirty_views = {}, win_mouse_position = mouse_position,
     win_mouse_hit_test = hit_test_default, win_active = active, win_needs_present = False, win_refreshing = False,
     win_focus = None, win_platform_input_handler = None\<rparr>"

text \<open>A new window over plain data.\<close>

definition sample_window :: "(rat, nat, nat, nat, tab_node list, nat, nat, nat) window" where
  "sample_window = window_new list_tree Map.empty (Size 100 100) (Point 0 0) True"

end
