(* ===== verification/Element_State.thy ===== *)
theory Element_State
  imports Window_State
begin

text \<open>
  The states of elements, from \<open>src/src/window.rs\<close>: values that live from frame to frame under the global id
  of their element and their type, as long as the element is drawn.
\<close>

section \<open>Access\<close>

text \<open>
  \<open>Window::with_element_state\<close> for the type \<open>ty\<close>.  The box is taken out of the frame that is built, or of
  the one on the screen, while \<open>f\<close> runs; casting the box to another type and finding it without its value are
  panics.
\<close>

definition open_state_box :: "nat \<Rightarrow> 'v element_state \<Rightarrow> 'v option" where
  "open_state_box ty b = (if es_type b = ty then es_inner b else None)"

definition take_element_state :: "'i state_key \<Rightarrow> ('a, 'f, 'i, 'l, 't, 'u, 'v, 'x, 'z) window_scheme \<Rightarrow>
    'v element_state option \<times> ('a, 'f, 'i, 'l, 't, 'u, 'v, 'x, 'z) window_scheme" where
  "take_element_state k w = (case fra_element_states (win_next_frame w) k of
     Some b \<Rightarrow> (Some b, next_frame_update (\<lambda>fr. fr\<lparr>fra_element_states := (fra_element_states fr)(k := None)\<rparr>) w)
   | None \<Rightarrow> (fra_element_states (win_rendered_frame w) k,
       w\<lparr>win_rendered_frame := (win_rendered_frame w)\<lparr>fra_element_states := (fra_element_states (win_rendered_frame w))(k := None)\<rparr>\<rparr>))"

definition put_element_state :: "'i state_key \<Rightarrow> 'v \<Rightarrow> ('a, 'f, 'i, 'l, 't, 'u, 'v, 'x, 'z) window_scheme \<Rightarrow>
    ('a, 'f, 'i, 'l, 't, 'u, 'v, 'x, 'z) window_scheme" where
  "put_element_state k s = next_frame_update
     (\<lambda>fr. fr\<lparr>fra_element_states := (fra_element_states fr)(k \<mapsto> \<lparr>es_type = snd k, es_inner = Some s\<rparr>)\<rparr>)"

definition with_element_state :: "bool \<Rightarrow> nat \<Rightarrow> 'i list \<Rightarrow>
    ('v option \<Rightarrow> (('a, 'f, 'i, 'l, 't, 'u, 'v, 'x, 'z) window_scheme, 'r \<times> 'v) comp) \<Rightarrow>
    (('a, 'f, 'i, 'l, 't, 'u, 'v, 'x, 'z) window_scheme, 'r) comp" where
  "with_element_state dbg ty global_id f w = do { _ \<leftarrow> check_drawing dbg w;
     let key = (global_id, ty);
         w = next_frame_update (\<lambda>fr. fr\<lparr>fra_accessed_element_states := fra_accessed_element_states fr @ [key]\<rparr>) w in
     case take_element_state key w of
       (Some b, w) \<Rightarrow> do {
         s \<leftarrow> open_state_box ty b;
         ((r, s), w) \<leftarrow> f (Some s) w;
         Some (r, put_element_state key s w) }
     | (None, w) \<Rightarrow> do {
         ((r, s), w) \<leftarrow> f None w;
         Some (r, put_element_state key s w) } }"

definition with_optional_element_state :: "bool \<Rightarrow> nat \<Rightarrow> 'i list option \<Rightarrow>
    ('v option option \<Rightarrow> (('a, 'f, 'i, 'l, 't, 'u, 'v, 'x, 'z) window_scheme, 'r \<times> 'v option) comp) \<Rightarrow>
    (('a, 'f, 'i, 'l, 't, 'u, 'v, 'x, 'z) window_scheme, 'r) comp" where
  "with_optional_element_state dbg ty global_id f w = do { _ \<leftarrow> check_drawing dbg w;
     case global_id of
       Some i \<Rightarrow> with_element_state dbg ty i
         (\<lambda>s w. do { ((r, s), w) \<leftarrow> f (Some s) w; s \<leftarrow> s; Some ((r, s), w) }) w
     | None \<Rightarrow> do { ((r, s), w) \<leftarrow> f None w; if dbg \<and> s \<noteq> None then None else Some (r, w) } }"

text \<open>
  \<open>Window::use_keyed_state\<close>: the state of the key is the handle of an entity, made by \<open>new\<close> (with an observer
  that notifies the view) the first time.  The type of the handle is \<open>ty\<close>.
\<close>

definition use_keyed_state :: "bool \<Rightarrow> nat \<Rightarrow> 'i \<Rightarrow>
    (nat \<Rightarrow> (('a, 'f, 'i, 'l, 't, 'u, 'v, 'x, 'z) window_scheme, 'v) comp) \<Rightarrow>
    (('a, 'f, 'i, 'l, 't, 'u, 'v, 'x, 'z) window_scheme, 'v) comp" where
  "use_keyed_state dbg ty key new w = do {
     view \<leftarrow> current_view dbg w;
     with_global_id key (\<lambda>global_id. with_element_state dbg ty global_id
       (\<lambda>state w. case state of
          Some s \<Rightarrow> Some ((s, s), w)
        | None \<Rightarrow> do { (s, w) \<leftarrow> new view w; Some ((s, s), w) })) w }"

section \<open>Boxes hold the type they are filed under\<close>

definition boxes_typed :: "('i state_key \<Rightarrow> 'v element_state option) \<Rightarrow> bool" where
  "boxes_typed m \<longleftrightarrow> (\<forall>i ty b. m (i, ty) = Some b \<longrightarrow> es_type b = ty \<and> es_inner b \<noteq> None)"


lemma boxes_typed_changes:
  "boxes_typed Map.empty"
  "boxes_typed m \<Longrightarrow> boxes_typed (m(k := None))"
  "boxes_typed m \<Longrightarrow> boxes_typed (m(k \<mapsto> \<lparr>es_type = snd k, es_inner = Some s\<rparr>))"
  by (auto simp: boxes_typed_def)

lemma boxes_typed_moved: "boxes_typed prev \<Longrightarrow> boxes_typed m \<Longrightarrow> prev k = Some b \<Longrightarrow> boxes_typed (m(k \<mapsto> b))"
  by (cases k) (simp add: boxes_typed_def)

lemma keep_element_states_typed:
  "boxes_typed prev \<Longrightarrow> boxes_typed m \<Longrightarrow> keep_element_states ks prev m = (prev', m') \<Longrightarrow> boxes_typed prev' \<and> boxes_typed m'"
proof (induction ks arbitrary: prev m)
  case (Cons k ks)
  show ?case
  proof (cases "prev k")
    case (Some b)
    with Cons.prems have "boxes_typed (prev(k := None))" "boxes_typed (m(k \<mapsto> b))"
      by (auto intro: boxes_typed_changes boxes_typed_moved)
    from Cons.IH [OF this] Cons.prems(3) Some show ?thesis by (simp add: fun_upd_def)
  qed (use Cons in auto)
qed simp





section \<open>Nested uses\<close>
















text \<open>
  A use of the same state within its own use is not the panic the code announces: the inner use
  finds no state, as if the element were new, and what it stores is overwritten by the outer one.
\<close>

lemma reentrant_use_is_lost:
  assumes "check_drawing dbg w = Some ((), w)"
    and "fra_element_states (win_next_frame w) (i, ty) = None"
    and "fra_element_states (win_rendered_frame w) (i, ty) = Some \<lparr>es_type = ty, es_inner = Some s\<rparr>"
  shows "\<exists>u. with_element_state dbg ty i (\<lambda>_ w. do {
        (seen, w) \<leftarrow> with_element_state dbg ty i (\<lambda>s w. Some ((s, inner), w)) w; Some ((seen, outer), w) }) w = Some (None, u) \<and>
      fra_element_states (win_next_frame u) (i, ty) = Some \<lparr>es_type = ty, es_inner = Some outer\<rparr>"
proof -
  have "check_drawing dbg (w\<lparr>win_next_frame := x, win_rendered_frame := y\<rparr>) = Some ((), w\<lparr>win_next_frame := x, win_rendered_frame := y\<rparr>)"
    for x y using assms(1) by (auto simp: check_drawing_def split: option.splits)
  then show ?thesis using assms
    by (simp add: with_element_state_def Let_def take_element_state_def next_frame_update_def put_element_state_def open_state_box_def)
qed

section \<open>How long a state lives\<close>

text \<open>What drawing does to the states of a frame: an element takes its state and puts it back, or a view is reused with the keys its elements used.\<close>

datatype ('i, 'v) state_op = Take_state "'i state_key" | Put_state "'i state_key" 'v | Reuse_states "'i state_key list"

definition access_states :: "'i state_key list \<Rightarrow> ('a, 'f, 'i, 'l, 't, 'u, 'v, 'x, 'z) window_scheme \<Rightarrow>
    ('a, 'f, 'i, 'l, 't, 'u, 'v, 'x, 'z) window_scheme" where
  "access_states ks = next_frame_update (\<lambda>fr. fr\<lparr>fra_accessed_element_states := fra_accessed_element_states fr @ ks\<rparr>)"

fun run_state_op :: "('i, 'v) state_op \<Rightarrow> ('a, 'f, 'i, 'l, 't, 'u, 'v, 'x, 'z) window_scheme \<Rightarrow>
    ('a, 'f, 'i, 'l, 't, 'u, 'v, 'x, 'z) window_scheme" where
  "run_state_op (Take_state k) w = snd (take_element_state k (access_states [k] w))"
| "run_state_op (Put_state k s) w = put_element_state k s w"
| "run_state_op (Reuse_states ks) w = access_states ks w"

lemma with_element_state_ops:
  assumes "check_drawing dbg w = Some ((), w)"
  shows "with_element_state dbg ty i f w =
    (let k = (i, ty); (b, v) = take_element_state k (access_states [k] w) in do {
       s \<leftarrow> (case b of None \<Rightarrow> Some None | Some b \<Rightarrow> map_option Some (open_state_box ty b));
       ((r, s), u) \<leftarrow> f s v;
       Some (r, run_state_op (Put_state k s) u) })"
  using assms by (auto simp: with_element_state_def access_states_def Let_def split: prod.split option.split bind_splits)

















end
