(* ===== verification/Window_Frame.thy ===== *)
theory Window_Frame
  imports Element_State Dispatch_Tree_Inv
begin

text \<open>
  Recording a frame, from \<open>src/src/window.rs\<close>, and reusing parts of the last one for the cached views of
  \<open>src/src/view.rs\<close>: what an element notes in the frame while it is prepainted and painted, marks of how
  far the frame is, taking back a failed prepaint, and copying a range of the last frame.
\<close>

section \<open>What elements record\<close>

definition set_cursor_style :: "bool \<Rightarrow> 'x \<Rightarrow> 'a hitbox \<Rightarrow> (('a, 'f, 'i, 'l, 't, 'u, 'v, 'x, 'z) window_scheme, unit) comp" where
  "set_cursor_style dbg style h w = do { _ \<leftarrow> check_paint dbg w;
     Some ((), next_frame_update (\<lambda>fr. fr\<lparr>fra_cursor_styles := fra_cursor_styles fr @
       [\<lparr>cr_hitbox_id = Some (hb_id h), cr_style = style\<rparr>]\<rparr>) w) }"

definition set_window_cursor_style :: "bool \<Rightarrow> 'x \<Rightarrow> (('a, 'f, 'i, 'l, 't, 'u, 'v, 'x, 'z) window_scheme, unit) comp" where
  "set_window_cursor_style dbg style w = do { _ \<leftarrow> check_paint dbg w;
     Some ((), next_frame_update (\<lambda>fr. fr\<lparr>fra_cursor_styles := fra_cursor_styles fr @
       [\<lparr>cr_hitbox_id = None, cr_style = style\<rparr>]\<rparr>) w) }"

definition set_tooltip :: "bool \<Rightarrow> 'l \<Rightarrow> (('a, 'f, 'i, 'l, 't, 'u, 'v, 'x, 'z) window_scheme, nat) comp" where
  "set_tooltip dbg tooltip w = do { _ \<leftarrow> check_prepaint dbg w;
     let i = win_next_tooltip_id w in
     Some (i, next_frame_update (\<lambda>fr. fr\<lparr>fra_tooltip_requests := fra_tooltip_requests fr @ [Some (i, tooltip)]\<rparr>)
       (w\<lparr>win_next_tooltip_id := Suc i\<rparr>)) }"

definition request_autoscroll :: "bool \<Rightarrow> 'a bounds \<Rightarrow> (('a, 'f, 'i, 'l, 't, 'u, 'v, 'x, 'z) window_scheme, unit) comp" where
  "request_autoscroll dbg b w = do { _ \<leftarrow> check_prepaint dbg w; Some ((), w\<lparr>win_requested_autoscroll := Some b\<rparr>) }"

definition take_autoscroll :: "bool \<Rightarrow> (('a, 'f, 'i, 'l, 't, 'u, 'v, 'x, 'z) window_scheme, 'a bounds option) comp" where
  "take_autoscroll dbg w = do { _ \<leftarrow> check_prepaint dbg w;
     Some (win_requested_autoscroll w, w\<lparr>win_requested_autoscroll := None\<rparr>) }"

definition insert_hitbox :: "bool \<Rightarrow> 'a bounds \<Rightarrow> hitbox_behavior \<Rightarrow>
    (('a::linordered_field, 'f, 'i, 'l, 't, 'u, 'v, 'x, 'z) window_scheme, 'a hitbox) comp" where
  "insert_hitbox dbg b behavior w = do { _ \<leftarrow> check_prepaint dbg w; m \<leftarrow> window_content_mask dbg w;
     let h = \<lparr>hb_id = win_next_hitbox_id w, hb_bounds = b, hb_content_mask = m, hb_behavior = behavior\<rparr> in
     Some (h, next_frame_update (\<lambda>fr. fr\<lparr>fra_hitboxes := fra_hitboxes fr @ [h]\<rparr>)
       (w\<lparr>win_next_hitbox_id := hitbox_id_next (win_next_hitbox_id w)\<rparr>)) }"

definition insert_window_control_hitbox :: "bool \<Rightarrow> window_control_area \<Rightarrow> 'a hitbox \<Rightarrow>
    (('a, 'f, 'i, 'l, 't, 'u, 'v, 'x, 'z) window_scheme, unit) comp" where
  "insert_window_control_hitbox dbg area h w = do { _ \<leftarrow> check_paint dbg w;
     Some ((), next_frame_update (\<lambda>fr. fr\<lparr>fra_window_control_hitboxes := fra_window_control_hitboxes fr @ [(area, h)]\<rparr>) w) }"

text \<open>Changing the dispatch tree of the frame, which panics if the tree does.\<close>

definition next_tree_update :: "('l dispatch_tree \<Rightarrow> 'l dispatch_tree option) \<Rightarrow>
    (('a, 'f, 'i, 'l, 't, 'u, 'v, 'x, 'z) window_scheme, unit) comp" where
  "next_tree_update g w = do { t \<leftarrow> g (fra_dispatch_tree (win_next_frame w));
     Some ((), next_frame_update (\<lambda>fr. fr\<lparr>fra_dispatch_tree := t\<rparr>) w) }"

definition window_set_key_context :: "bool \<Rightarrow> key_context \<Rightarrow> (('a, 'f, 'i, 'l, 't, 'u, 'v, 'x, 'z) window_scheme, unit) comp" where
  "window_set_key_context dbg c w = do { _ \<leftarrow> check_paint dbg w; next_tree_update (set_key_context c) w }"

definition window_set_focus_handle :: "bool \<Rightarrow> nat \<Rightarrow> (('a, 'f, 'i, 'l, 't, 'u, 'v, 'x, 'z) window_scheme, unit) comp" where
  "window_set_focus_handle dbg focus_id w = do { _ \<leftarrow> check_prepaint dbg w;
     next_tree_update (set_focus_id focus_id)
       (if win_focus w = Some focus_id then next_frame_update (\<lambda>fr. fr\<lparr>fra_focus := Some focus_id\<rparr>) w else w) }"

definition window_set_view_id :: "bool \<Rightarrow> nat \<Rightarrow> (('a, 'f, 'i, 'l, 't, 'u, 'v, 'x, 'z) window_scheme, unit) comp" where
  "window_set_view_id dbg view_id w = do { _ \<leftarrow> check_prepaint dbg w; next_tree_update (set_view_id view_id) w }"

definition handle_input :: "bool \<Rightarrow> nat \<Rightarrow> 'l \<Rightarrow> (('a, 'f, 'i, 'l, 't, 'u, 'v, 'x, 'z) window_scheme, unit) comp" where
  "handle_input dbg focus_id handler w = do { _ \<leftarrow> check_paint dbg w;
     Some ((), if win_focus w = Some focus_id
       then next_frame_update (\<lambda>fr. fr\<lparr>fra_input_handlers := fra_input_handlers fr @ [Some handler]\<rparr>) w else w) }"

definition window_on_mouse_event :: "bool \<Rightarrow> 'l \<Rightarrow> (('a, 'f, 'i, 'l, 't, 'u, 'v, 'x, 'z) window_scheme, unit) comp" where
  "window_on_mouse_event dbg listener w = do { _ \<leftarrow> check_paint dbg w;
     Some ((), next_frame_update (\<lambda>fr. fr\<lparr>fra_mouse_listeners := fra_mouse_listeners fr @ [Some listener]\<rparr>) w) }"

definition window_on_key_event :: "bool \<Rightarrow> 'l \<Rightarrow> (('a, 'f, 'i, 'l, 't, 'u, 'v, 'x, 'z) window_scheme, unit) comp" where
  "window_on_key_event dbg listener w = do { _ \<leftarrow> check_paint dbg w; next_tree_update (on_key_event listener) w }"

definition window_on_modifiers_changed :: "bool \<Rightarrow> 'l \<Rightarrow> (('a, 'f, 'i, 'l, 't, 'u, 'v, 'x, 'z) window_scheme, unit) comp" where
  "window_on_modifiers_changed dbg listener w = do { _ \<leftarrow> check_paint dbg w; next_tree_update (on_modifiers_changed listener) w }"

definition window_on_action :: "bool \<Rightarrow> string \<Rightarrow> 'l \<Rightarrow> (('a, 'f, 'i, 'l, 't, 'u, 'v, 'x, 'z) window_scheme, unit) comp" where
  "window_on_action dbg action_type listener w = do { _ \<leftarrow> check_paint dbg w; next_tree_update (on_action action_type listener) w }"

definition layout_index_default :: layout_index where
  "layout_index_default = \<lparr>li_lines_index = 0, li_wrapped_lines_index = 0\<rparr>"

definition prepaint_index_default :: prepaint_state_index where
  "prepaint_index_default = \<lparr>px_hitboxes = 0, px_tooltips = 0, px_deferred_draws = 0, px_dispatch_tree = 0,
     px_accessed_element_states = 0, px_line_layout = layout_index_default\<rparr>"

definition paint_index_default :: paint_state_index where
  "paint_index_default = \<lparr>pn_scene = 0, pn_mouse_listeners = 0, pn_input_handlers = 0, pn_cursor_styles = 0,
     pn_accessed_element_states = 0, pn_tab_handle = 0, pn_line_layout = layout_index_default\<rparr>"

definition defer_draw :: "bool \<Rightarrow> 'l \<Rightarrow> 'a point \<Rightarrow> nat \<Rightarrow> (('a, 'f, 'i, 'l, 't, 'u, 'v, 'x, 'z) window_scheme, unit) comp" where
  "defer_draw dbg element offset priority w = do { _ \<leftarrow> check_prepaint dbg w;
     parent \<leftarrow> active_node_id (fra_dispatch_tree (win_next_frame w));
     view \<leftarrow> current_view dbg w;
     Some ((), next_frame_update (\<lambda>fr. fr\<lparr>fra_deferred_draws := fra_deferred_draws fr @
       [\<lparr>dd_current_view = view, dd_priority = priority, dd_parent_node = parent, dd_element_id_stack = win_element_id_stack w,
         dd_text_style_stack = win_text_style_stack w, dd_element = Some element, dd_absolute_offset = offset,
         dd_prepaint_range = (prepaint_index_default, prepaint_index_default),
         dd_paint_range = (paint_index_default, paint_index_default)\<rparr>]\<rparr>) w) }"

section \<open>Marks, and taking back a prepaint\<close>

definition prepaint_index :: "('a, 'f, 'i, 'l, 't, 'u, 'v, 'x, 'z) window_scheme \<Rightarrow> prepaint_state_index" where
  "prepaint_index w = (let f = win_next_frame w in
     \<lparr>px_hitboxes = length (fra_hitboxes f), px_tooltips = length (fra_tooltip_requests f),
      px_deferred_draws = length (fra_deferred_draws f), px_dispatch_tree = length (dt_nodes (fra_dispatch_tree f)),
      px_accessed_element_states = length (fra_accessed_element_states f), px_line_layout = layout_index_of (win_text_system w)\<rparr>)"

definition window_paint_index :: "('a, 'f, 'i, 'l, 't, 'u, 'v, 'x, 'z) window_scheme \<Rightarrow> paint_state_index" where
  "window_paint_index w = (let f = win_next_frame w in
     \<lparr>pn_scene = scene_len (fra_scene f), pn_mouse_listeners = length (fra_mouse_listeners f),
      pn_input_handlers = length (fra_input_handlers f), pn_cursor_styles = length (fra_cursor_styles f),
      pn_accessed_element_states = length (fra_accessed_element_states f), pn_tab_handle = paint_index (fra_tab_stops f),
      pn_line_layout = layout_index_of (win_text_system w)\<rparr>)"


section \<open>Reusing a range of the last frame\<close>

text \<open>The slice \<open>xs[s..e]\<close>, taken out of its entries.\<close>

definition take_range :: "nat \<Rightarrow> nat \<Rightarrow> 'b option list \<Rightarrow> ('b option list \<times> 'b option list) option" where
  "take_range s e xs = map_option (\<lambda>ys. (ys, take s xs @ map (\<lambda>_. None) ys @ drop e xs)) (key_range s e xs)"

definition reuse_deferred_draw :: "bool \<Rightarrow> reused_subtree \<Rightarrow> ('a, 'i, 'l, 'x) deferred_draw \<Rightarrow> ('a, 'i, 'l, 'x) deferred_draw option" where
  "reuse_deferred_draw dbg subtree d = map_option (\<lambda>parent. d\<lparr>dd_parent_node := parent, dd_element := None\<rparr>)
     (refresh_node_id dbg subtree (dd_parent_node d))"

definition reuse_prepaint :: "bool \<Rightarrow> prepaint_state_index \<times> prepaint_state_index \<Rightarrow> (('a, 'f, 'i, 'l, 't, 'u, 'v, 'x, 'z) window_scheme, unit) comp" where
  "reuse_prepaint dbg marks w = (case marks of (s, e) \<Rightarrow> let last_frame = win_rendered_frame w; frame = win_next_frame w in do {
     hitboxes \<leftarrow> key_range (px_hitboxes s) (px_hitboxes e) (fra_hitboxes last_frame);
     (tooltips, tooltips_left) \<leftarrow> take_range (px_tooltips s) (px_tooltips e) (fra_tooltip_requests last_frame);
     accessed \<leftarrow> key_range (px_accessed_element_states s) (px_accessed_element_states e) (fra_accessed_element_states last_frame);
     text_system \<leftarrow> reuse_layouts (px_line_layout s) (px_line_layout e) (win_text_system w);
     (subtree, last_tree, tree) \<leftarrow> reuse_subtree (px_dispatch_tree s) (px_dispatch_tree e) (fra_dispatch_tree last_frame)
       (win_focus w) (fra_dispatch_tree frame);
     deferred \<leftarrow> key_range (px_deferred_draws s) (px_deferred_draws e) (fra_deferred_draws last_frame);
     deferred \<leftarrow> those (map (reuse_deferred_draw dbg subtree) deferred);
     Some ((), w\<lparr>win_text_system := text_system,
       win_rendered_frame := last_frame\<lparr>fra_tooltip_requests := tooltips_left, fra_dispatch_tree := last_tree\<rparr>,
       win_next_frame := frame
         \<lparr>fra_hitboxes := fra_hitboxes frame @ hitboxes,
          fra_tooltip_requests := fra_tooltip_requests frame @ tooltips,
          fra_accessed_element_states := fra_accessed_element_states frame @ accessed,
          fra_dispatch_tree := tree,
          fra_focus := (if rs_contains_focus subtree then win_focus w else fra_focus frame),
          fra_deferred_draws := fra_deferred_draws frame @ deferred\<rparr>\<rparr>) })"

definition reuse_paint :: "('t, 'c) sum_tree \<Rightarrow> paint_state_index \<times> paint_state_index \<Rightarrow>
    (('a::linordered_field, 'f, 'i, 'l, 't, 'u, 'v, 'x, 'z) window_scheme, unit) comp" where
  "reuse_paint T marks w = (case marks of (s, e) \<Rightarrow> let last_frame = win_rendered_frame w; frame = win_next_frame w in do {
     cursor_styles \<leftarrow> key_range (pn_cursor_styles s) (pn_cursor_styles e) (fra_cursor_styles last_frame);
     (handlers, handlers_left) \<leftarrow> take_range (pn_input_handlers s) (pn_input_handlers e) (fra_input_handlers last_frame);
     (listeners, listeners_left) \<leftarrow> take_range (pn_mouse_listeners s) (pn_mouse_listeners e) (fra_mouse_listeners last_frame);
     accessed \<leftarrow> key_range (pn_accessed_element_states s) (pn_accessed_element_states e) (fra_accessed_element_states last_frame);
     history \<leftarrow> key_range (pn_tab_handle s) (pn_tab_handle e) (ts_history (fra_tab_stops last_frame));
     (focus_map, tab_stops) \<leftarrow> tab_replay T history (win_focus_map w, fra_tab_stops frame);
     text_system \<leftarrow> reuse_layouts (pn_line_layout s) (pn_line_layout e) (win_text_system w);
     scene \<leftarrow> scene_replay (pn_scene s) (pn_scene e) (fra_scene last_frame) (fra_scene frame);
     Some ((), w\<lparr>win_text_system := text_system, win_focus_map := focus_map,
       win_rendered_frame := last_frame\<lparr>fra_input_handlers := handlers_left, fra_mouse_listeners := listeners_left\<rparr>,
       win_next_frame := frame
         \<lparr>fra_cursor_styles := fra_cursor_styles frame @ cursor_styles,
          fra_input_handlers := fra_input_handlers frame @ handlers,
          fra_mouse_listeners := fra_mouse_listeners frame @ listeners,
          fra_accessed_element_states := fra_accessed_element_states frame @ accessed,
          fra_tab_stops := tab_stops, fra_scene := scene\<rparr>\<rparr>) })"

section \<open>What is reused\<close>

lemma key_range_Some: "key_range s e xs = Some ys \<longleftrightarrow> s \<le> e \<and> e \<le> length xs \<and> ys = drop s (take e xs)"
  by (auto simp: key_range_def)

lemma key_range_grown: "xs' = xs @ ys \<Longrightarrow> key_range (length xs) (length xs') xs' = Some ys"
  by (simp add: key_range_def)

lemma key_range_inside: "s \<le> e \<Longrightarrow> e \<le> length xs \<Longrightarrow> key_range s e xs = Some (drop s (take e xs))"
  by (simp add: key_range_def)

lemma prepaint_index_simps:
  "px_hitboxes (prepaint_index w) = length (fra_hitboxes (win_next_frame w))"
  "px_tooltips (prepaint_index w) = length (fra_tooltip_requests (win_next_frame w))"
  "px_deferred_draws (prepaint_index w) = length (fra_deferred_draws (win_next_frame w))"
  "px_dispatch_tree (prepaint_index w) = length (dt_nodes (fra_dispatch_tree (win_next_frame w)))"
  "px_accessed_element_states (prepaint_index w) = length (fra_accessed_element_states (win_next_frame w))"
  "li_lines_index (px_line_layout (prepaint_index w)) = length (fc_used_lines (lc_current_frame (win_text_system w)))"
  "li_wrapped_lines_index (px_line_layout (prepaint_index w)) = length (fc_used_wrapped_lines (lc_current_frame (win_text_system w)))"
  by (simp_all add: prepaint_index_def layout_index_of_def Let_def)

lemma take_range_Some:
  "take_range s e xs = Some (ys, zs) \<longleftrightarrow> s \<le> e \<and> e \<le> length xs \<and> ys = drop s (take e xs) \<and>
     zs = take s xs @ map (\<lambda>_. None) ys @ drop e xs"
  by (auto simp: take_range_def key_range_def)

lemma those_Some_iff: "those xs = Some ys \<longleftrightarrow> xs = map Some ys"
proof (induction xs arbitrary: ys)
  case (Cons x xs)
  then show ?case by (cases x; cases ys) auto
qed auto

lemma those_map_Some: "(\<And>x. x \<in> set xs \<Longrightarrow> g x = Some (h x)) \<Longrightarrow> those (map g xs) = Some (map h xs)"
  by (induction xs) auto

text \<open>A mark, between two others, in a frame whose text is cached in \<open>cache\<close>.\<close>

definition layout_marks_inside :: "layout_index \<Rightarrow> layout_index \<Rightarrow> ('f, 'a) frame_cache \<Rightarrow> bool" where
  "layout_marks_inside s e c \<longleftrightarrow> li_lines_index s \<le> li_lines_index e \<and> li_lines_index e \<le> length (fc_used_lines c) \<and>
     li_wrapped_lines_index s \<le> li_wrapped_lines_index e \<and> li_wrapped_lines_index e \<le> length (fc_used_wrapped_lines c)"

definition prepaint_marks_inside :: "prepaint_state_index \<times> prepaint_state_index \<Rightarrow> ('a, 'i, 'l, 't, 'u, 'v, 'x) frame \<Rightarrow>
    ('f, 'a) frame_cache \<Rightarrow> bool" where
  "prepaint_marks_inside marks f c \<longleftrightarrow> (case marks of (s, e) \<Rightarrow>
     px_hitboxes s \<le> px_hitboxes e \<and> px_hitboxes e \<le> length (fra_hitboxes f) \<and>
     px_tooltips s \<le> px_tooltips e \<and> px_tooltips e \<le> length (fra_tooltip_requests f) \<and>
     px_accessed_element_states s \<le> px_accessed_element_states e \<and> px_accessed_element_states e \<le> length (fra_accessed_element_states f) \<and>
     px_dispatch_tree s \<le> px_dispatch_tree e \<and> px_dispatch_tree e \<le> length (dt_nodes (fra_dispatch_tree f)) \<and>
     px_deferred_draws s \<le> px_deferred_draws e \<and> px_deferred_draws e \<le> length (fra_deferred_draws f) \<and>
     layout_marks_inside (px_line_layout s) (px_line_layout e) c)"

lemma reuse_layouts_returns:
  assumes "layout_marks_inside s e (lc_previous_frame c)"
  shows "\<exists>c'. reuse_layouts s e c = Some c' \<and>
    fc_used_lines (lc_current_frame c') = fc_used_lines (lc_current_frame c) @
      drop (li_lines_index s) (take (li_lines_index e) (fc_used_lines (lc_previous_frame c))) \<and>
    fc_used_wrapped_lines (lc_current_frame c') = fc_used_wrapped_lines (lc_current_frame c) @
      drop (li_wrapped_lines_index s) (take (li_wrapped_lines_index e) (fc_used_wrapped_lines (lc_previous_frame c)))"
  using assms by (auto simp: layout_marks_inside_def reuse_layouts_def Let_def key_range_def split: prod.split)

definition moved_draw :: "nat \<Rightarrow> nat \<Rightarrow> ('a, 'i, 'l, 'x) deferred_draw \<Rightarrow> ('a, 'i, 'l, 'x) deferred_draw" where
  "moved_draw old_start new_start d = d\<lparr>dd_parent_node := dd_parent_node d - old_start + new_start, dd_element := None\<rparr>"

text \<open>The range of nodes from \<open>a'\<close> to \<open>b'\<close> in the tree of a frame is the copy of a range of other nodes, below the active node.\<close>

definition nodes_reused :: "nat \<Rightarrow> nat \<Rightarrow> 'l dispatch_node list \<Rightarrow> nat \<Rightarrow> nat \<Rightarrow> 'l dispatch_tree \<Rightarrow> bool" where
  "nodes_reused a b nodes a' b' t \<longleftrightarrow> (case (key_range a b nodes, key_range a' b' (dt_nodes t)) of
     (Some sources, Some copies) \<Rightarrow> list_all2 (copy_of (dt_nodes t)) sources copies \<and>
       map dn_parent copies = copied_parents nodes (\<lambda>j. j - a + a') (active_node_id t) [] [a..<b] \<and>
       (paint_order nodes a [] [a..<b] \<longrightarrow> map dn_parent copies = map (moved_parent a a' (active_node_id t)) sources)
   | _ \<Rightarrow> False)"

text \<open>What two ranges of two frames have in common if the second is the reuse of the first.\<close>

definition same_prepaint :: "prepaint_state_index \<times> prepaint_state_index \<Rightarrow> ('a, 'i, 'l, 't, 'u, 'v, 'x) frame \<Rightarrow> ('f, 'a) frame_cache \<Rightarrow>
    prepaint_state_index \<times> prepaint_state_index \<Rightarrow> ('a, 'i, 'l, 't, 'u, 'v, 'x) frame \<Rightarrow> ('f, 'a) frame_cache \<Rightarrow> bool" where
  "same_prepaint old f c new f' c' \<longleftrightarrow> (case (old, new) of ((s, e), (s', e')) \<Rightarrow>
     key_range (px_hitboxes s') (px_hitboxes e') (fra_hitboxes f') = key_range (px_hitboxes s) (px_hitboxes e) (fra_hitboxes f) \<and>
     key_range (px_tooltips s') (px_tooltips e') (fra_tooltip_requests f') =
       key_range (px_tooltips s) (px_tooltips e) (fra_tooltip_requests f) \<and>
     key_range (px_accessed_element_states s') (px_accessed_element_states e') (fra_accessed_element_states f') =
       key_range (px_accessed_element_states s) (px_accessed_element_states e) (fra_accessed_element_states f) \<and>
     nodes_reused (px_dispatch_tree s) (px_dispatch_tree e) (dt_nodes (fra_dispatch_tree f))
       (px_dispatch_tree s') (px_dispatch_tree e') (fra_dispatch_tree f') \<and>
     key_range (px_deferred_draws s') (px_deferred_draws e') (fra_deferred_draws f') =
       map_option (map (moved_draw (px_dispatch_tree s) (px_dispatch_tree s')))
         (key_range (px_deferred_draws s) (px_deferred_draws e) (fra_deferred_draws f)) \<and>
     key_range (li_lines_index (px_line_layout s')) (li_lines_index (px_line_layout e')) (fc_used_lines c') =
       key_range (li_lines_index (px_line_layout s)) (li_lines_index (px_line_layout e)) (fc_used_lines c) \<and>
     key_range (li_wrapped_lines_index (px_line_layout s')) (li_wrapped_lines_index (px_line_layout e')) (fc_used_wrapped_lines c') =
       key_range (li_wrapped_lines_index (px_line_layout s)) (li_wrapped_lines_index (px_line_layout e)) (fc_used_wrapped_lines c))"

lemma reuse_subtree_nodes:
  assumes "tree_wf t" and "a \<le> b" and "b \<le> length (dt_nodes source)"
  shows "\<exists>rs source' t' copies. reuse_subtree a b source focus t = Some (rs, source', t') \<and> rs_old_start rs = a \<and>
    rs_new_start rs = length (dt_nodes t) \<and> tree_wf t' \<and> dt_nodes t' = dt_nodes t @ copies \<and>
    nodes_reused a b (dt_nodes source) (length (dt_nodes t)) (length (dt_nodes t')) t' \<and> rs_old_end rs = b"
proof -
  obtain rs source' t' copies where t': "reuse_subtree a b source focus t = Some (rs, source', t')" "rs_old_start rs = a" "rs_old_end rs = b"
      "rs_new_start rs = length (dt_nodes t)" "tree_wf t'" "dt_node_stack t' = dt_node_stack t"
      "copies_of_range (dt_nodes source) a b t t' copies"
      "map dn_parent copies = copied_parents (dt_nodes source) (\<lambda>j. j - a + length (dt_nodes t)) (active_node_id t) [] [a..<b]"
    using reuse_subtree_wf [OF assms, of focus] by auto
  have ranges: "key_range a b (dt_nodes source) = Some (take (b - a) (drop a (dt_nodes source)))"
      "key_range (length (dt_nodes t)) (length (dt_nodes t')) (dt_nodes t') = Some copies"
    using assms(2,3) t'(7) by (simp_all add: key_range_def drop_take copies_of_range_def)
  have "list_all2 (copy_of (dt_nodes t')) (take (b - a) (drop a (dt_nodes source))) copies" "active_node_id t' = active_node_id t"
    using t'(7) [unfolded copies_of_range_def] t'(6) by (blast, simp add: active_node_id_def)
  then have "nodes_reused a b (dt_nodes source) (length (dt_nodes t)) (length (dt_nodes t')) t'"
    using t'(8) reuse_subtree_parents [OF assms(3)] by (auto simp: nodes_reused_def ranges)
  with t' show ?thesis by (auto simp: copies_of_range_def)
qed

lemma reuse_prepaint_result:
  assumes "prepaint_marks_inside (s, e) (win_rendered_frame w) (lc_previous_frame (win_text_system w))"
    and "tree_wf (fra_dispatch_tree (win_next_frame w))"
    and "\<And>d. d \<in> set (drop (px_deferred_draws s) (take (px_deferred_draws e) (fra_deferred_draws (win_rendered_frame w)))) \<Longrightarrow>
      px_dispatch_tree s \<le> dd_parent_node d \<and> (dbg \<longrightarrow> dd_parent_node d < px_dispatch_tree e)"
  obtains w' copies where "reuse_prepaint dbg (s, e) w = Some ((), w')"
    and "fra_hitboxes (win_next_frame w') = fra_hitboxes (win_next_frame w) @
      drop (px_hitboxes s) (take (px_hitboxes e) (fra_hitboxes (win_rendered_frame w)))"
    and "fra_tooltip_requests (win_next_frame w') = fra_tooltip_requests (win_next_frame w) @
      drop (px_tooltips s) (take (px_tooltips e) (fra_tooltip_requests (win_rendered_frame w)))"
    and "fra_accessed_element_states (win_next_frame w') = fra_accessed_element_states (win_next_frame w) @
      drop (px_accessed_element_states s) (take (px_accessed_element_states e) (fra_accessed_element_states (win_rendered_frame w)))"
    and "fra_deferred_draws (win_next_frame w') = fra_deferred_draws (win_next_frame w) @
      map (moved_draw (px_dispatch_tree s) (length (dt_nodes (fra_dispatch_tree (win_next_frame w)))))
        (drop (px_deferred_draws s) (take (px_deferred_draws e) (fra_deferred_draws (win_rendered_frame w))))"
    and "dt_nodes (fra_dispatch_tree (win_next_frame w')) = dt_nodes (fra_dispatch_tree (win_next_frame w)) @ copies"
    and "nodes_reused (px_dispatch_tree s) (px_dispatch_tree e) (dt_nodes (fra_dispatch_tree (win_rendered_frame w)))
      (px_dispatch_tree (prepaint_index w)) (px_dispatch_tree (prepaint_index w')) (fra_dispatch_tree (win_next_frame w'))"
    and "tree_wf (fra_dispatch_tree (win_next_frame w'))"
    and "fc_used_lines (lc_current_frame (win_text_system w')) = fc_used_lines (lc_current_frame (win_text_system w)) @
      drop (li_lines_index (px_line_layout s)) (take (li_lines_index (px_line_layout e)) (fc_used_lines (lc_previous_frame (win_text_system w))))"
    and "fc_used_wrapped_lines (lc_current_frame (win_text_system w')) = fc_used_wrapped_lines (lc_current_frame (win_text_system w)) @
      drop (li_wrapped_lines_index (px_line_layout s)) (take (li_wrapped_lines_index (px_line_layout e))
        (fc_used_wrapped_lines (lc_previous_frame (win_text_system w))))"
proof -
  let ?f = "win_rendered_frame w" and ?n = "win_next_frame w" and ?c = "win_text_system w"
  note inside = assms(1) [unfolded prepaint_marks_inside_def prod.case]
  obtain c' where c': "reuse_layouts (px_line_layout s) (px_line_layout e) ?c = Some c'"
      "fc_used_lines (lc_current_frame c') = fc_used_lines (lc_current_frame ?c) @
        drop (li_lines_index (px_line_layout s)) (take (li_lines_index (px_line_layout e)) (fc_used_lines (lc_previous_frame ?c)))"
      "fc_used_wrapped_lines (lc_current_frame c') = fc_used_wrapped_lines (lc_current_frame ?c) @
        drop (li_wrapped_lines_index (px_line_layout s)) (take (li_wrapped_lines_index (px_line_layout e))
          (fc_used_wrapped_lines (lc_previous_frame ?c)))"
    using reuse_layouts_returns [of "px_line_layout s" "px_line_layout e" ?c] inside by blast
  obtain rs source t' copies where t': "reuse_subtree (px_dispatch_tree s) (px_dispatch_tree e) (fra_dispatch_tree ?f) (win_focus w)
        (fra_dispatch_tree ?n) = Some (rs, source, t')"
      "rs_old_start rs = px_dispatch_tree s" "rs_new_start rs = length (dt_nodes (fra_dispatch_tree ?n))"
      "tree_wf t'" "dt_nodes t' = dt_nodes (fra_dispatch_tree ?n) @ copies"
      "nodes_reused (px_dispatch_tree s) (px_dispatch_tree e) (dt_nodes (fra_dispatch_tree ?f))
        (length (dt_nodes (fra_dispatch_tree ?n))) (length (dt_nodes t')) t'"
      "rs_old_end rs = px_dispatch_tree e"
    using reuse_subtree_nodes [OF assms(2), of "px_dispatch_tree s" "px_dispatch_tree e" "fra_dispatch_tree ?f" "win_focus w"] inside by blast
  let ?ds = "drop (px_deferred_draws s) (take (px_deferred_draws e) (fra_deferred_draws ?f))"
  have ds: "those (map (reuse_deferred_draw dbg rs) ?ds) =
      Some (map (moved_draw (px_dispatch_tree s) (length (dt_nodes (fra_dispatch_tree ?n)))) ?ds)"
    by (rule those_map_Some) (use assms(3) t'(2,3,7) in \<open>simp add: reuse_deferred_draw_def refresh_node_id_def moved_draw_def\<close>)
  show ?thesis
    by (rule that [of "w\<lparr>win_text_system := c',
          win_rendered_frame := ?f\<lparr>fra_tooltip_requests := take (px_tooltips s) (fra_tooltip_requests ?f) @
            map (\<lambda>_. None) (drop (px_tooltips s) (take (px_tooltips e) (fra_tooltip_requests ?f))) @ drop (px_tooltips e) (fra_tooltip_requests ?f),
            fra_dispatch_tree := source\<rparr>,
          win_next_frame := ?n
            \<lparr>fra_hitboxes := fra_hitboxes ?n @ drop (px_hitboxes s) (take (px_hitboxes e) (fra_hitboxes ?f)),
             fra_tooltip_requests := fra_tooltip_requests ?n @ drop (px_tooltips s) (take (px_tooltips e) (fra_tooltip_requests ?f)),
             fra_accessed_element_states := fra_accessed_element_states ?n @
               drop (px_accessed_element_states s) (take (px_accessed_element_states e) (fra_accessed_element_states ?f)),
             fra_dispatch_tree := t', fra_focus := (if rs_contains_focus rs then win_focus w else fra_focus ?n),
             fra_deferred_draws := fra_deferred_draws ?n @
               map (moved_draw (px_dispatch_tree s) (length (dt_nodes (fra_dispatch_tree ?n)))) ?ds\<rparr>\<rparr>" copies])
      (use inside c' t' in \<open>simp_all add: prepaint_index_simps reuse_prepaint_def Let_def key_range_def take_range_def ds\<close>)
qed

text \<open>
  C18. Reusing the prepaint of a view whose marks lie in the last frame returns, and between the marks around it
  the new frame has the same hitboxes, tooltips, accessed states, deferred draws and lines of text, and copies of the nodes (with their views and parents, as in
  \<open>reuse_subtree_correct\<close>); so its new
  marks can be reused in the same way.
\<close>

theorem reuse_prepaint_correct:
  assumes "prepaint_marks_inside (s, e) (win_rendered_frame w) (lc_previous_frame (win_text_system w))"
    and "tree_wf (fra_dispatch_tree (win_next_frame w))"
    and "\<And>d. d \<in> set (drop (px_deferred_draws s) (take (px_deferred_draws e) (fra_deferred_draws (win_rendered_frame w)))) \<Longrightarrow>
      px_dispatch_tree s \<le> dd_parent_node d \<and> (dbg \<longrightarrow> dd_parent_node d < px_dispatch_tree e)"
  shows "\<exists>w'. reuse_prepaint dbg (s, e) w = Some ((), w') \<and>
    same_prepaint (s, e) (win_rendered_frame w) (lc_previous_frame (win_text_system w))
      (prepaint_index w, prepaint_index w') (win_next_frame w') (lc_current_frame (win_text_system w')) \<and>
    prepaint_marks_inside (prepaint_index w, prepaint_index w') (win_next_frame w') (lc_current_frame (win_text_system w')) \<and>
    tree_wf (fra_dispatch_tree (win_next_frame w'))"
proof -
  let ?f = "win_rendered_frame w" and ?n = "win_next_frame w" and ?c = "win_text_system w"
  obtain w' copies where w': "reuse_prepaint dbg (s, e) w = Some ((), w')"
    and nf: "fra_hitboxes (win_next_frame w') = fra_hitboxes ?n @ drop (px_hitboxes s) (take (px_hitboxes e) (fra_hitboxes ?f))"
      "fra_tooltip_requests (win_next_frame w') = fra_tooltip_requests ?n @ drop (px_tooltips s) (take (px_tooltips e) (fra_tooltip_requests ?f))"
      "fra_accessed_element_states (win_next_frame w') = fra_accessed_element_states ?n @
        drop (px_accessed_element_states s) (take (px_accessed_element_states e) (fra_accessed_element_states ?f))"
      "fra_deferred_draws (win_next_frame w') = fra_deferred_draws ?n @
        map (moved_draw (px_dispatch_tree s) (length (dt_nodes (fra_dispatch_tree ?n))))
          (drop (px_deferred_draws s) (take (px_deferred_draws e) (fra_deferred_draws ?f)))"
      "dt_nodes (fra_dispatch_tree (win_next_frame w')) = dt_nodes (fra_dispatch_tree ?n) @ copies"
    and copies: "nodes_reused (px_dispatch_tree s) (px_dispatch_tree e) (dt_nodes (fra_dispatch_tree ?f))
      (px_dispatch_tree (prepaint_index w)) (px_dispatch_tree (prepaint_index w')) (fra_dispatch_tree (win_next_frame w'))"
    and wf: "tree_wf (fra_dispatch_tree (win_next_frame w'))"
    and lines: "fc_used_lines (lc_current_frame (win_text_system w')) = fc_used_lines (lc_current_frame ?c) @
        drop (li_lines_index (px_line_layout s)) (take (li_lines_index (px_line_layout e)) (fc_used_lines (lc_previous_frame ?c)))"
      "fc_used_wrapped_lines (lc_current_frame (win_text_system w')) = fc_used_wrapped_lines (lc_current_frame ?c) @
        drop (li_wrapped_lines_index (px_line_layout s)) (take (li_wrapped_lines_index (px_line_layout e))
          (fc_used_wrapped_lines (lc_previous_frame ?c)))"
    by (rule reuse_prepaint_result [OF assms])
  note grown = key_range_grown [OF nf(1)] key_range_grown [OF nf(2)] key_range_grown [OF nf(3)] key_range_grown [OF nf(4)]
    key_range_grown [OF nf(5)] key_range_grown [OF lines(1)] key_range_grown [OF lines(2)]
  have "same_prepaint (s, e) ?f (lc_previous_frame ?c) (prepaint_index w, prepaint_index w') (win_next_frame w')
      (lc_current_frame (win_text_system w'))"
    unfolding same_prepaint_def prod.case prepaint_index_simps grown
    using assms(1) copies [unfolded prepaint_index_simps] by (simp add: prepaint_marks_inside_def layout_marks_inside_def key_range_inside)
  moreover have "prepaint_marks_inside (prepaint_index w, prepaint_index w') (win_next_frame w') (lc_current_frame (win_text_system w'))"
    by (simp add: prepaint_marks_inside_def layout_marks_inside_def prepaint_index_simps nf lines)
  ultimately show ?thesis using w' wf by blast
qed

definition sample_hitbox :: "rat hitbox" where
  "sample_hitbox = \<lparr>hb_id = 0, hb_bounds = Bounds (Point 0 0) (Size 4 4), hb_content_mask = \<lparr>cm_bounds = Bounds (Point 0 0) (Size 10 10)\<rparr>,
     hb_behavior = Normal_behavior\<rparr>"

lemma reuse_prepaint_correct_witness:
  "\<exists>w'. reuse_prepaint True (prepaint_index_default, prepaint_index_default\<lparr>px_hitboxes := 1\<rparr>)
      (sample_window\<lparr>win_rendered_frame := (frame_new list_tree)\<lparr>fra_hitboxes := [sample_hitbox]\<rparr>\<rparr>) = Some ((), w') \<and>
    key_range 0 (px_hitboxes (prepaint_index w')) (fra_hitboxes (win_next_frame w')) = Some [sample_hitbox]"
proof -
  have "tree_wf (tree_new :: nat dispatch_tree)"
    by (simp add: tree_wf_def tree_new_def parents_below_def stack_contexts_def stack_views_def List.map_filter_simps)
  then show ?thesis
    using reuse_prepaint_correct [of prepaint_index_default "prepaint_index_default\<lparr>px_hitboxes := 1\<rparr>"
        "sample_window\<lparr>win_rendered_frame := (frame_new list_tree)\<lparr>fra_hitboxes := [sample_hitbox]\<rparr>\<rparr>"]
    by (auto simp: sample_window_def window_new_def layout_cache_new_def frame_new_def prepaint_index_default_def layout_index_default_def
        prepaint_marks_inside_def layout_marks_inside_def same_prepaint_def prepaint_index_simps key_range_inside)
qed


lemma tab_insert_history: "tab_insert T h (fm, m) = Some (fm', m') \<Longrightarrow> \<exists>h'. fh_id h' = fh_id h \<and> ts_history m' = ts_history m @ [Tab_insert h']"
  by (auto simp: tab_insert_def Let_def focus_handle_clone_def focus_handle_for_id_def bind_eq_Some_conv split: option.splits prod.splits nat.splits)

lemma tab_replay_history:
  "tab_replay T ops (fm, m) = Some (fm', m') \<Longrightarrow> \<exists>new. ts_history m' = ts_history m @ new \<and> map op_id new = map op_id ops"
proof (induction ops arbitrary: fm m)
  case (Cons op ops)
  show ?case
  proof (cases op)
    case (Tab_insert h)
    with Cons.prems obtain fm1 m1 where m1: "tab_insert T h (fm, m) = Some (fm1, m1)" "tab_replay T ops (fm1, m1) = Some (fm', m')"
      by (auto simp: bind_eq_Some_conv)
    from tab_insert_history [OF m1(1)] Cons.IH [OF m1(2)] Tab_insert show ?thesis
      by (auto simp: op_id_def operation_handle_def)
  next
    case (Tab_group i)
    with Cons.prems have "tab_replay T ops (fm, begin_group i m) = Some (fm', m')" by simp
    from Cons.IH [OF this] Tab_group show ?thesis by (auto simp: begin_group_def)
  next
    case Tab_group_end
    with Cons.prems have "tab_replay T ops (fm, end_group m) = Some (fm', m')" by simp
    from Cons.IH [OF this] Tab_group_end show ?thesis by (auto simp: end_group_def)
  qed
qed simp

lemma window_paint_index_simps:
  "pn_mouse_listeners (window_paint_index w) = length (fra_mouse_listeners (win_next_frame w))"
  "pn_input_handlers (window_paint_index w) = length (fra_input_handlers (win_next_frame w))"
  "pn_cursor_styles (window_paint_index w) = length (fra_cursor_styles (win_next_frame w))"
  "pn_accessed_element_states (window_paint_index w) = length (fra_accessed_element_states (win_next_frame w))"
  "pn_tab_handle (window_paint_index w) = length (ts_history (fra_tab_stops (win_next_frame w)))"
  by (simp_all add: window_paint_index_def paint_index_def Let_def)

definition same_paint :: "paint_state_index \<times> paint_state_index \<Rightarrow> ('a, 'i, 'l, 't, 'u, 'v, 'x) frame \<Rightarrow>
    paint_state_index \<times> paint_state_index \<Rightarrow> ('a, 'i, 'l, 't, 'u, 'v, 'x) frame \<Rightarrow> bool" where
  "same_paint old f new f' \<longleftrightarrow> (case (old, new) of ((s, e), (s', e')) \<Rightarrow>
     key_range (pn_mouse_listeners s') (pn_mouse_listeners e') (fra_mouse_listeners f') =
       key_range (pn_mouse_listeners s) (pn_mouse_listeners e) (fra_mouse_listeners f) \<and>
     key_range (pn_input_handlers s') (pn_input_handlers e') (fra_input_handlers f') =
       key_range (pn_input_handlers s) (pn_input_handlers e) (fra_input_handlers f) \<and>
     key_range (pn_cursor_styles s') (pn_cursor_styles e') (fra_cursor_styles f') =
       key_range (pn_cursor_styles s) (pn_cursor_styles e) (fra_cursor_styles f) \<and>
     key_range (pn_accessed_element_states s') (pn_accessed_element_states e') (fra_accessed_element_states f') =
       key_range (pn_accessed_element_states s) (pn_accessed_element_states e) (fra_accessed_element_states f) \<and>
     map_option (map op_id) (key_range (pn_tab_handle s') (pn_tab_handle e') (ts_history (fra_tab_stops f'))) =
       map_option (map op_id) (key_range (pn_tab_handle s) (pn_tab_handle e) (ts_history (fra_tab_stops f))))"

text \<open>
  A reused paint returns the same cursor styles, listeners, input handlers, accessed states, tab operations and
  lines.  The control areas of the window are not reused: those of a cached view are gone.
\<close>

lemma reuse_paint_same:
  assumes "reuse_paint T (s, e) w = Some ((), w')"
  shows "same_paint (s, e) (win_rendered_frame w) (window_paint_index w, window_paint_index w') (win_next_frame w') \<and>
    fra_window_control_hitboxes (win_next_frame w') = fra_window_control_hitboxes (win_next_frame w)"
proof -
  let ?f = "win_rendered_frame w" and ?n = "win_next_frame w"
  from assms obtain styles handlers handlers_left listeners listeners_left accessed history fm tab_stops lines scene where
    parts: "key_range (pn_cursor_styles s) (pn_cursor_styles e) (fra_cursor_styles ?f) = Some styles"
      "take_range (pn_input_handlers s) (pn_input_handlers e) (fra_input_handlers ?f) = Some (handlers, handlers_left)"
      "take_range (pn_mouse_listeners s) (pn_mouse_listeners e) (fra_mouse_listeners ?f) = Some (listeners, listeners_left)"
      "key_range (pn_accessed_element_states s) (pn_accessed_element_states e) (fra_accessed_element_states ?f) = Some accessed"
      "key_range (pn_tab_handle s) (pn_tab_handle e) (ts_history (fra_tab_stops ?f)) = Some history"
      "tab_replay T history (win_focus_map w, fra_tab_stops ?n) = Some (fm, tab_stops)"
    and w': "win_next_frame w' = ?n\<lparr>fra_cursor_styles := fra_cursor_styles ?n @ styles, fra_input_handlers := fra_input_handlers ?n @ handlers,
        fra_mouse_listeners := fra_mouse_listeners ?n @ listeners, fra_accessed_element_states := fra_accessed_element_states ?n @ accessed,
        fra_tab_stops := tab_stops, fra_scene := scene\<rparr>"
    unfolding reuse_paint_def prod.case Let_def by (auto simp: bind_eq_Some_conv split: prod.splits)
  obtain new where new: "ts_history tab_stops = ts_history (fra_tab_stops ?n) @ new" "map op_id new = map op_id history"
    using tab_replay_history [OF parts(6)] by blast
  have nf: "fra_cursor_styles (win_next_frame w') = fra_cursor_styles ?n @ styles"
      "fra_input_handlers (win_next_frame w') = fra_input_handlers ?n @ handlers"
      "fra_mouse_listeners (win_next_frame w') = fra_mouse_listeners ?n @ listeners"
      "fra_accessed_element_states (win_next_frame w') = fra_accessed_element_states ?n @ accessed"
      "ts_history (fra_tab_stops (win_next_frame w')) = ts_history (fra_tab_stops ?n) @ new"
      "fra_window_control_hitboxes (win_next_frame w') = fra_window_control_hitboxes ?n"
    by (simp_all add: w' new(1))
  have taken: "key_range (pn_input_handlers s) (pn_input_handlers e) (fra_input_handlers ?f) = Some handlers"
      "key_range (pn_mouse_listeners s) (pn_mouse_listeners e) (fra_mouse_listeners ?f) = Some listeners"
    using parts(2,3) by (auto simp: take_range_def)
  note grown = key_range_grown [OF nf(1)] key_range_grown [OF nf(2)] key_range_grown [OF nf(3)] key_range_grown [OF nf(4)]
    key_range_grown [OF nf(5)]
  show ?thesis unfolding same_paint_def prod.case window_paint_index_simps grown parts(1,4,5) taken
    using new(2) nf(6) by simp
qed






end
