(* ===== verification/View_Cache.thy ===== *)
theory View_Cache
  imports Window_Frame
begin

text \<open>
  Cached views, from \<open>src/src/view.rs\<close> and \<open>src/src/window.rs\<close>: a view that was not notified, and whose
  place and style are those of the last frame, is copied from that frame instead of being drawn.
\<close>

section \<open>Dirty views\<close>

text \<open>\<open>Window::mark_view_dirty\<close>: the loop over the view and its ancestors ends at one that is marked.\<close>

fun mark_until :: "nat list \<Rightarrow> nat set \<Rightarrow> nat set" where
  "mark_until [] dirty = dirty"
| "mark_until (v # vs) dirty = (if v \<in> dirty then dirty else mark_until vs (insert v dirty))"

definition mark_view_dirty :: "nat \<Rightarrow> ('a, 'f, 'i, 'l, 't, 'u, 'v, 'x, 'z) window_scheme \<Rightarrow>
    ('a, 'f, 'i, 'l, 't, 'u, 'v, 'x, 'z) window_scheme option" where
  "mark_view_dirty view w = do { path \<leftarrow> view_path_reversed (fra_dispatch_tree (win_rendered_frame w)) view;
     Some (w\<lparr>win_dirty_views := mark_until path (win_dirty_views w)\<rparr>) }"

fun mark_views_dirty :: "nat list \<Rightarrow> ('a, 'f, 'i, 'l, 't, 'u, 'v, 'x, 'z) window_scheme \<Rightarrow>
    ('a, 'f, 'i, 'l, 't, 'u, 'v, 'x, 'z) window_scheme option" where
  "mark_views_dirty [] w = Some w"
| "mark_views_dirty (v # vs) w = do { w \<leftarrow> mark_view_dirty v w; mark_views_dirty vs w }"

text \<open>\<open>views\<close> are the views of the invalidator, in the order its hash set is drained.\<close>

definition invalidate_entities :: "nat list \<Rightarrow> ('a, 'f, 'i, 'l, 't, 'u, 'v, 'x, 'z) window_scheme \<Rightarrow>
    ('a, 'f, 'i, 'l, 't, 'u, 'v, 'x, 'z) window_scheme option" where
  "invalidate_entities views w = do {
     w \<leftarrow> mark_views_dirty views (w\<lparr>win_invalidator := snd (take_views (win_invalidator w))\<rparr>);
     Some (w\<lparr>win_invalidator := replace_views {} (win_invalidator w)\<rparr>) }"

section \<open>Drawing a view\<close>

record ('a, 'x) view_state =
  vs_accessed_entities :: "nat set"
  vs_prepaint_range :: "prepaint_state_index \<times> prepaint_state_index"
  vs_paint_range :: "paint_state_index \<times> paint_state_index"
  vs_bounds :: "'a bounds"
  vs_content_mask :: "'a content_mask"
  vs_text_style :: 'x

definition view_reusable :: "nat \<Rightarrow> 'a bounds \<Rightarrow> 'a content_mask \<Rightarrow> 'x \<Rightarrow> ('a, 'x) view_state \<Rightarrow>
    ('a, 'f, 'i, 'l, 't, 'u, 'v, 'x, 'z) window_scheme \<Rightarrow> bool" where
  "view_reusable view b m style st w \<longleftrightarrow> vs_bounds st = b \<and> vs_content_mask st = m \<and> vs_text_style st = style \<and>
     view \<notin> win_dirty_views w \<and> \<not> win_refreshing w"

text \<open>
  The closure of \<open>AnyView::prepaint\<close> for a cached view: the result tells the entities whose access is
  recorded for a reused view, or \<open>None\<close> if an element was drawn.  \<open>text_style\<close> combines the stack of styles,
  \<open>render\<close> renders, lays out and prepaints the view and returns the entities it accessed.
\<close>

definition view_prepaint_cached :: "bool \<Rightarrow> nat \<Rightarrow> 'a bounds \<Rightarrow> ('x list \<Rightarrow> 'x) \<Rightarrow>
    (('a::linordered_field, 'f, 'i, 'l, 't, 'u, 'v, 'x, 'z) window_scheme, nat set) comp \<Rightarrow> ('a, 'x) view_state option \<Rightarrow>
    (('a, 'f, 'i, 'l, 't, 'u, 'v, 'x, 'z) window_scheme, nat set option \<times> ('a, 'x) view_state) comp" where
  "view_prepaint_cached dbg view b text_style render state w = do {
     m \<leftarrow> window_content_mask dbg w;
     let style = text_style (win_text_style_stack w);
         start = prepaint_index w in
     case state of
       Some st \<Rightarrow>
         if view_reusable view b m style st w then do {
           (_, w) \<leftarrow> reuse_prepaint dbg (vs_prepaint_range st) w;
           Some ((Some (vs_accessed_entities st), st\<lparr>vs_prepaint_range := (start, prepaint_index w)\<rparr>), w) }
         else do {
           (accessed, v) \<leftarrow> render (w\<lparr>win_refreshing := True\<rparr>);
           Some ((None, \<lparr>vs_accessed_entities = accessed, vs_prepaint_range = (start, prepaint_index v),
             vs_paint_range = (paint_index_default, paint_index_default), vs_bounds = b, vs_content_mask = m, vs_text_style = style\<rparr>),
             v\<lparr>win_refreshing := win_refreshing w\<rparr>) }
     | None \<Rightarrow> do {
         (accessed, v) \<leftarrow> render (w\<lparr>win_refreshing := True\<rparr>);
         Some ((None, \<lparr>vs_accessed_entities = accessed, vs_prepaint_range = (start, prepaint_index v),
           vs_paint_range = (paint_index_default, paint_index_default), vs_bounds = b, vs_content_mask = m, vs_text_style = style\<rparr>),
           v\<lparr>win_refreshing := win_refreshing w\<rparr>) } }"

text \<open>
  \<open>AnyView::prepaint\<close>: an element made in \<open>request_layout\<close> is prepainted, otherwise the view is cached.  \<open>pack\<close>
  and \<open>unpack\<close> convert the state of a view and a state of an element, of type \<open>ty\<close>.
\<close>

definition any_view_prepaint :: "bool \<Rightarrow> nat \<Rightarrow> (('a, 'x) view_state \<Rightarrow> 'v) \<Rightarrow> ('v \<Rightarrow> ('a, 'x) view_state) \<Rightarrow> nat \<Rightarrow> 'i list \<Rightarrow> 'a bounds \<Rightarrow>
    ('x list \<Rightarrow> 'x) \<Rightarrow> (('a::linordered_field, 'f, 'i, 'l, 't, 'u, 'v, 'x, 'z) window_scheme, nat set) comp \<Rightarrow>
    (('a, 'f, 'i, 'l, 't, 'u, 'v, 'x, 'z) window_scheme, unit) comp option \<Rightarrow>
    (('a, 'f, 'i, 'l, 't, 'u, 'v, 'x, 'z) window_scheme, nat set option) comp" where
  "any_view_prepaint dbg ty pack unpack view global_id b text_style render element w = do {
     (_, w) \<leftarrow> window_set_view_id dbg view w;
     with_rendered_view view (case element of
         Some prepaint \<Rightarrow> (\<lambda>w. do { (_, w) \<leftarrow> prepaint w; Some (None, w) })
       | None \<Rightarrow> with_element_state dbg ty global_id (\<lambda>s w. do {
           ((reused, st), w) \<leftarrow> view_prepaint_cached dbg view b text_style render (map_option unpack s) w;
           Some ((reused, pack st), w) })) w }"

definition any_view_paint :: "bool \<Rightarrow> ('t, 'c) sum_tree \<Rightarrow> nat \<Rightarrow> (('a, 'x) view_state \<Rightarrow> 'v) \<Rightarrow> ('v \<Rightarrow> ('a, 'x) view_state) \<Rightarrow> nat \<Rightarrow> 'i list \<Rightarrow> bool \<Rightarrow>
    (('a::linordered_field, 'f, 'i, 'l, 't, 'u, 'v, 'x, 'z) window_scheme, unit) comp option \<Rightarrow>
    (('a, 'f, 'i, 'l, 't, 'u, 'v, 'x, 'z) window_scheme, unit) comp" where
  "any_view_paint dbg T ty pack unpack view global_id cached element = with_rendered_view view
     (if cached then with_element_state dbg ty global_id (\<lambda>s w. do {
        s \<leftarrow> s;
        let start = window_paint_index w in do {
        (_, v) \<leftarrow> (case element of
            Some paint \<Rightarrow> do { (_, v) \<leftarrow> paint (w\<lparr>win_refreshing := True\<rparr>); Some ((), v\<lparr>win_refreshing := win_refreshing w\<rparr>) }
          | None \<Rightarrow> reuse_paint T (vs_paint_range (unpack s)) w);
        Some (((), pack ((unpack s)\<lparr>vs_paint_range := (start, window_paint_index v)\<rparr>)), v) } })
      else (\<lambda>w. do { paint \<leftarrow> element; paint w }))"

section \<open>What is drawn anew\<close>

text \<open>Every view is on one node, which is filed under its id.\<close>

definition views_filed :: "'l dispatch_tree \<Rightarrow> bool" where
  "views_filed t \<longleftrightarrow> (\<forall>v i. dt_view_node_ids t v = Some i \<longleftrightarrow> i < length (dt_nodes t) \<and> dn_view_id (dt_nodes t ! i) = Some v)"

definition dirty_closed :: "'l dispatch_tree \<Rightarrow> nat set \<Rightarrow> bool" where
  "dirty_closed t dirty \<longleftrightarrow> (\<forall>v \<in> dirty. \<forall>path. view_path_reversed t v = Some path \<longrightarrow> set path \<subseteq> dirty)"

lemma chain_suffix: "chain nodes (xs @ ys) \<Longrightarrow> chain nodes ys"
  by (induction xs) auto

lemma view_path_suffix:
  assumes "views_filed t" and "chain (dt_nodes t) (xs @ i # ys)" and "dn_view_id (dt_nodes t ! i) = Some v"
  shows "view_path_reversed t v = Some (List.map_filter (\<lambda>j. dn_view_id (dt_nodes t ! j)) (i # ys))"
proof -
  have c: "chain (dt_nodes t) (i # ys)" by (rule chain_suffix [OF assms(2)])
  then have "dt_view_node_ids t v = Some i" using assms(1,3) by (simp add: views_filed_def)
  with climb_chain [OF c] show ?thesis by (simp add: view_path_reversed_def)
qed

lemma view_path_exists:
  assumes "views_filed t" and "parents_below (dt_nodes t)"
  obtains xs where "chain (dt_nodes t) xs" "view_path_reversed t v = Some (List.map_filter (\<lambda>j. dn_view_id (dt_nodes t ! j)) xs)"
proof (cases "dt_view_node_ids t v")
  case None
  then have "view_path_reversed t v = Some (List.map_filter (\<lambda>j. dn_view_id (dt_nodes t ! j)) [])"
    by (subst view_path_reversed_def, subst climb.simps) (simp add: List.map_filter_simps)
  then show ?thesis using that [of "[]"] by simp
next
  case (Some i)
  then have i: "i < length (dt_nodes t)" "dn_view_id (dt_nodes t ! i) = Some v" using assms(1) by (simp_all add: views_filed_def)
  from chain_exists [OF assms(2) i(1)] obtain p where p: "chain (dt_nodes t) (i # p)" by blast
  show ?thesis using p view_path_suffix [OF assms(1), of "[]" i p v] i by (intro that [of "i # p"]) simp_all
qed

lemma map_filter_splits:
  "List.map_filter f p = xs @ v # us \<Longrightarrow> \<exists>ps i qs. p = ps @ i # qs \<and> f i = Some v \<and> List.map_filter f qs = us"
proof (induction p arbitrary: xs)
  case (Cons i p)
  show ?case
  proof (cases "f i = Some v \<and> xs = []")
    case True
    with Cons.prems have "i # p = [] @ i # p \<and> f i = Some v \<and> List.map_filter f p = us" by (simp add: List.map_filter_simps)
    then show ?thesis by blast
  next
    case False
    then have "\<exists>ys. List.map_filter f p = ys @ v # us" using Cons.prems
      by (cases "f i"; cases xs) (auto simp: List.map_filter_simps)
    with Cons.IH obtain ps j qs where "p = ps @ j # qs" "f j = Some v" "List.map_filter f qs = us" by blast
    then have "i # p = (i # ps) @ j # qs \<and> f j = Some v \<and> List.map_filter f qs = us" by simp
    then show ?thesis by blast
  qed
qed (simp add: List.map_filter_simps)

lemma chain_views_distinct:
  assumes "views_filed t" and "parents_below (dt_nodes t)"
  shows "chain (dt_nodes t) p \<Longrightarrow> distinct (List.map_filter (\<lambda>j. dn_view_id (dt_nodes t ! j)) p)"
proof (induction p)
  case (Cons i p)
  have "v \<notin> set (List.map_filter (\<lambda>j. dn_view_id (dt_nodes t ! j)) p)" if v: "dn_view_id (dt_nodes t ! i) = Some v" for v
  proof
    assume "v \<in> set (List.map_filter (\<lambda>j. dn_view_id (dt_nodes t ! j)) p)"
    then obtain j where j: "j \<in> set p" "dn_view_id (dt_nodes t ! j) = Some v" by (auto simp: in_set_map_filter)
    have "sorted_wrt (>) (i # p)" by (rule chain_decreasing [OF assms(2) Cons.prems])
    with j(1) have "j < i" by simp
    have "i < length (dt_nodes t)" using Cons.prems by simp
    with assms(1) v j(2) \<open>j < i\<close> have "dt_view_node_ids t v = Some i" "dt_view_node_ids t v = Some j"
      unfolding views_filed_def by (blast, meson less_trans)
    with \<open>j < i\<close> show False by simp
  qed
  then show ?case using Cons by (cases "dn_view_id (dt_nodes t ! i)") (simp_all add: List.map_filter_simps)
qed (simp add: List.map_filter_simps)

text \<open>The loop ends early only where nothing is left to mark.\<close>

lemma mark_until_all:
  assumes "distinct vs" and "\<And>xs v us. vs = xs @ v # us \<Longrightarrow> v \<in> D \<Longrightarrow> set us \<subseteq> D"
  shows "mark_until vs D = D \<union> set vs"
  using assms
proof (induction vs arbitrary: D)
  case (Cons v vs)
  show ?case
  proof (cases "v \<in> D")
    case True
    with Cons.prems(2) [of "[]" v vs] show ?thesis by auto
  next
    case False
    have "mark_until vs (insert v D) = insert v D \<union> set vs"
    proof (rule Cons.IH)
      fix xs u us
      assume "vs = xs @ u # us" and "u \<in> insert v D"
      with Cons.prems(1) have "u \<in> D" by auto
      with \<open>vs = xs @ u # us\<close> Cons.prems(2) [of "v # xs" u us] show "set us \<subseteq> insert v D" by auto
    qed (use Cons.prems(1) in simp)
    with False show ?thesis by simp
  qed
qed simp

lemma mark_path:
  assumes filed: "views_filed t" and below: "parents_below (dt_nodes t)" and "dirty_closed t D"
    and "view_path_reversed t view = Some path"
  shows "mark_until path D = D \<union> set path" and "dirty_closed t (D \<union> set path)"
proof -
  from view_path_exists [OF filed below, of view] assms(4) obtain p where p: "chain (dt_nodes t) p"
    "path = List.map_filter (\<lambda>j. dn_view_id (dt_nodes t ! j)) p" by auto
  have suffix: "view_path_reversed t v = Some (v # us)" if "path = xs @ v # us" for xs v us
  proof -
    from that p(2) obtain ps i qs where pi: "p = ps @ i # qs" "dn_view_id (dt_nodes t ! i) = Some v"
      "us = List.map_filter (\<lambda>j. dn_view_id (dt_nodes t ! j)) qs"
      using map_filter_splits [of "\<lambda>j. dn_view_id (dt_nodes t ! j)" p xs v us] by auto
    with view_path_suffix [OF filed, of ps i qs v] p(1) show ?thesis by (simp add: List.map_filter_simps)
  qed
  show "mark_until path D = D \<union> set path"
  proof (rule mark_until_all)
    show "distinct path" unfolding p(2) by (rule chain_views_distinct [OF filed below p(1)])
    show "set us \<subseteq> D" if "path = xs @ v # us" "v \<in> D" for xs v us
      using suffix [OF that(1)] that(2) assms(3) unfolding dirty_closed_def by fastforce
  qed
  show "dirty_closed t (D \<union> set path)" unfolding dirty_closed_def
  proof (intro ballI allI impI)
    fix v q assume v: "v \<in> D \<union> set path" and q: "view_path_reversed t v = Some q"
    show "set q \<subseteq> D \<union> set path"
    proof (cases "v \<in> set path")
      case True
      then obtain xs us where split: "path = xs @ v # us" by (meson split_list)
      with suffix [OF split] q show ?thesis by auto
    next
      case False
      then show ?thesis using v q assms(3) by (auto simp: dirty_closed_def)
    qed
  qed
qed

lemma mark_view_dirty_marks:
  assumes filed: "views_filed (fra_dispatch_tree (win_rendered_frame w))"
    and below: "parents_below (dt_nodes (fra_dispatch_tree (win_rendered_frame w)))"
    and closed: "dirty_closed (fra_dispatch_tree (win_rendered_frame w)) (win_dirty_views w)"
  obtains path where "view_path_reversed (fra_dispatch_tree (win_rendered_frame w)) view = Some path"
    and "mark_view_dirty view w = Some (w\<lparr>win_dirty_views := win_dirty_views w \<union> set path\<rparr>)"
    and "dirty_closed (fra_dispatch_tree (win_rendered_frame w)) (win_dirty_views w \<union> set path)"
proof -
  from view_path_exists [OF filed below, of view] obtain path where
    path: "view_path_reversed (fra_dispatch_tree (win_rendered_frame w)) view = Some path" by metis
  with mark_path [OF filed below closed path] show ?thesis by (intro that [OF path]) (simp_all add: mark_view_dirty_def)
qed

lemma mark_views_dirty_marks:
  assumes filed: "views_filed (fra_dispatch_tree (win_rendered_frame w))"
    and below: "parents_below (dt_nodes (fra_dispatch_tree (win_rendered_frame w)))"
    and closed: "dirty_closed (fra_dispatch_tree (win_rendered_frame w)) (win_dirty_views w)"
  shows "\<exists>dirty. mark_views_dirty views w = Some (w\<lparr>win_dirty_views := dirty\<rparr>) \<and>
    dirty = win_dirty_views w \<union> {v. \<exists>u \<in> set views. \<exists>path. view_path_reversed (fra_dispatch_tree (win_rendered_frame w)) u = Some path \<and> v \<in> set path} \<and>
    dirty_closed (fra_dispatch_tree (win_rendered_frame w)) dirty"
  using assms
proof (induction views arbitrary: w)
  case (Cons u us)
  from Cons.prems obtain path where path: "view_path_reversed (fra_dispatch_tree (win_rendered_frame w)) u = Some path"
    "mark_view_dirty u w = Some (w\<lparr>win_dirty_views := win_dirty_views w \<union> set path\<rparr>)"
    "dirty_closed (fra_dispatch_tree (win_rendered_frame w)) (win_dirty_views w \<union> set path)"
    by (rule mark_view_dirty_marks)
  let ?w = "w\<lparr>win_dirty_views := win_dirty_views w \<union> set path\<rparr>"
  from Cons.IH [of ?w] Cons.prems path(3) obtain dirty where
    "mark_views_dirty us ?w = Some (?w\<lparr>win_dirty_views := dirty\<rparr>)"
    "dirty = win_dirty_views ?w \<union> {v. \<exists>u \<in> set us. \<exists>path. view_path_reversed (fra_dispatch_tree (win_rendered_frame w)) u = Some path \<and> v \<in> set path}"
    "dirty_closed (fra_dispatch_tree (win_rendered_frame w)) dirty" by auto
  then show ?case using path by (intro exI [of _ dirty]) auto
qed simp

lemma dirty_view_drawn:
  "v \<in> win_dirty_views w \<Longrightarrow> view_prepaint_cached d v b style render state w = view_prepaint_cached d v b style render None w"
  by (cases state; cases "window_content_mask d w") (simp_all add: view_prepaint_cached_def view_reusable_def Let_def)

text \<open>
  C6. Notified views are never drawn from the last frame.  When the notifications of a window are taken up, no panic
  occurs, the notified views are forgotten by the invalidator, and exactly the views on the paths from them to the root
  of the frame on the screen are marked in addition; while a mark lasts, the prepaint of a marked view does what
  it does for a view that is drawn for the first time, whatever state is kept for it.
\<close>

theorem notified_views_are_drawn:
  assumes "views_filed (fra_dispatch_tree (win_rendered_frame w))"
    and "parents_below (dt_nodes (fra_dispatch_tree (win_rendered_frame w)))"
    and "dirty_closed (fra_dispatch_tree (win_rendered_frame w)) (win_dirty_views w)"
  shows "\<exists>w'. invalidate_entities views w = Some w' \<and> wi_dirty_views (win_invalidator w') = {} \<and>
    win_dirty_views w' = win_dirty_views w \<union>
      {v. \<exists>u \<in> set views. \<exists>path. view_path_reversed (fra_dispatch_tree (win_rendered_frame w)) u = Some path \<and> v \<in> set path} \<and>
    dirty_closed (fra_dispatch_tree (win_rendered_frame w')) (win_dirty_views w') \<and>
    (\<forall>v \<in> win_dirty_views w'. \<forall>d b style render state. \<forall>w2. win_dirty_views w2 = win_dirty_views w' \<longrightarrow>
       view_prepaint_cached d v b style render state w2 = view_prepaint_cached d v b style render None w2)"
proof -
  let ?w = "w\<lparr>win_invalidator := snd (take_views (win_invalidator w))\<rparr>"
  from mark_views_dirty_marks [of ?w views] assms obtain dirty where
    "mark_views_dirty views ?w = Some (?w\<lparr>win_dirty_views := dirty\<rparr>)"
    "dirty = win_dirty_views w \<union> {v. \<exists>u \<in> set views. \<exists>path. view_path_reversed (fra_dispatch_tree (win_rendered_frame w)) u = Some path \<and> v \<in> set path}"
    "dirty_closed (fra_dispatch_tree (win_rendered_frame w)) dirty" by auto
  then show ?thesis
    by (auto simp: invalidate_entities_def replace_views_def intro: dirty_view_drawn)
qed

text \<open>
  C7. A cached view that is not marked, at the bounds, mask and text style of the last frame, is reused: its prepaint
  returns without rendering it, the frame gets between the marks stored for the next frame what the last frame had between
  the stored ones, and the entities the view read are told to the application.
\<close>

theorem clean_view_is_reused:
  assumes "window_content_mask dbg w = Some (vs_content_mask st)" and "text_style (win_text_style_stack w) = vs_text_style st"
    and "view \<notin> win_dirty_views w" and "\<not> win_refreshing w"
    and "prepaint_marks_inside (vs_prepaint_range st) (win_rendered_frame w) (lc_previous_frame (win_text_system w))"
    and "tree_wf (fra_dispatch_tree (win_next_frame w))"
    and "\<And>d. d \<in> set (drop (px_deferred_draws (fst (vs_prepaint_range st)))
        (take (px_deferred_draws (snd (vs_prepaint_range st))) (fra_deferred_draws (win_rendered_frame w)))) \<Longrightarrow>
      px_dispatch_tree (fst (vs_prepaint_range st)) \<le> dd_parent_node d \<and>
      (dbg \<longrightarrow> dd_parent_node d < px_dispatch_tree (snd (vs_prepaint_range st)))"
  shows "\<exists>w'. view_prepaint_cached dbg view (vs_bounds st) text_style render (Some st) w =
      Some ((Some (vs_accessed_entities st), st\<lparr>vs_prepaint_range := (prepaint_index w, prepaint_index w')\<rparr>), w') \<and>
    same_prepaint (vs_prepaint_range st) (win_rendered_frame w) (lc_previous_frame (win_text_system w))
      (prepaint_index w, prepaint_index w') (win_next_frame w') (lc_current_frame (win_text_system w')) \<and>
    prepaint_marks_inside (prepaint_index w, prepaint_index w') (win_next_frame w') (lc_current_frame (win_text_system w'))"
proof -
  obtain s e where range: "vs_prepaint_range st = (s, e)" by fastforce
  from reuse_prepaint_correct [of s e w dbg] assms(5-7) [unfolded range fst_conv snd_conv] obtain w' where
    "reuse_prepaint dbg (s, e) w = Some ((), w')"
    "same_prepaint (s, e) (win_rendered_frame w) (lc_previous_frame (win_text_system w))
      (prepaint_index w, prepaint_index w') (win_next_frame w') (lc_current_frame (win_text_system w'))"
    "prepaint_marks_inside (prepaint_index w, prepaint_index w') (win_next_frame w') (lc_current_frame (win_text_system w'))" by blast
  then show ?thesis using assms(1-4) by (simp add: view_prepaint_cached_def view_reusable_def range Let_def)
qed

text \<open>
  The opacity and the transformation of the elements around a view are baked into what it paints but are not among what is
  compared: a view drawn under other ones is reused all the same.
\<close>

lemma opacity_not_compared:
  "view_reusable view b m style st (w\<lparr>win_element_opacity := opacity, win_element_transform := transform\<rparr>) =
   view_reusable view b m style st w"
  by (simp add: view_reusable_def)

text \<open>A root view 1 with a child 2 and a grandchild 3, each on its own node.\<close>

definition view_node :: "nat option \<Rightarrow> nat \<Rightarrow> 'l dispatch_node" where
  "view_node parent view = node_default\<lparr>dn_parent := parent, dn_view_id := Some view\<rparr>"

definition view_tree :: "'l dispatch_tree" where
  "view_tree = tree_new\<lparr>dt_nodes := [view_node None 1, view_node (Some 0) 2, view_node (Some 1) 3],
     dt_view_node_ids := [1 \<mapsto> 0, 2 \<mapsto> 1, 3 \<mapsto> 2]\<rparr>"

lemma view_tree_ok: "views_filed view_tree" "parents_below (dt_nodes view_tree)" "dt_nodes (tree_new :: 'l dispatch_tree) = []"
  by (auto simp: views_filed_def view_tree_def view_node_def parents_below_def tree_new_def nth_Cons' less_Suc_eq numeral_2_eq_2)

lemma view_tree_path: "view_path_reversed view_tree 2 = Some [2, 1]"
  by (simp add: view_path_reversed_def view_tree_def view_node_def climb.simps List.map_filter_simps)

lemma notified_views_are_drawn_witness:
  "\<exists>w'. invalidate_entities [2] (sample_window\<lparr>win_rendered_frame := (frame_new list_tree)\<lparr>fra_dispatch_tree := view_tree\<rparr>\<rparr>) = Some w' \<and>
    win_dirty_views w' = {1, 2}"
proof -
  let ?w = "sample_window\<lparr>win_rendered_frame := (frame_new list_tree)\<lparr>fra_dispatch_tree := view_tree\<rparr>\<rparr>"
  have marked: "{v. \<exists>u \<in> set [2]. \<exists>path. view_path_reversed (fra_dispatch_tree (win_rendered_frame ?w)) u = Some path \<and> v \<in> set path} = {1, 2}"
    by (auto simp: view_tree_path)
  have none: "win_dirty_views ?w = {}" by (simp add: sample_window_def window_new_def)
  have tree: "views_filed (fra_dispatch_tree (win_rendered_frame ?w))"
      "parents_below (dt_nodes (fra_dispatch_tree (win_rendered_frame ?w)))" by (simp_all add: view_tree_ok)
  have "dirty_closed (fra_dispatch_tree (win_rendered_frame ?w)) (win_dirty_views ?w)" unfolding none by (simp add: dirty_closed_def)
  from notified_views_are_drawn [OF tree this, of "[2]"] obtain w' where w': "invalidate_entities [2] ?w = Some w'"
    "win_dirty_views w' = win_dirty_views ?w \<union> {v. \<exists>u \<in> set [2]. \<exists>path.
      view_path_reversed (fra_dispatch_tree (win_rendered_frame ?w)) u = Some path \<and> v \<in> set path}" by blast
  from w'(2) [unfolded none marked] have "win_dirty_views w' = {1, 2}" by simp
  with w'(1) show ?thesis by blast
qed

lemma clean_view_is_reused_witness:
  "let m = \<lparr>cm_bounds = Bounds (Point 0 0) (Size 100 100)\<rparr>;
       v = sample_window\<lparr>win_rendered_frame := (frame_new list_tree)\<lparr>fra_hitboxes := [sample_hitbox]\<rparr>\<rparr>;
       st = \<lparr>vs_accessed_entities = {5}, vs_prepaint_range = (prepaint_index_default, prepaint_index_default\<lparr>px_hitboxes := 1\<rparr>),
         vs_paint_range = (paint_index_default, paint_index_default), vs_bounds = cm_bounds m, vs_content_mask = m, vs_text_style = 8\<rparr>
   in \<exists>w' p. view_prepaint_cached False 3 (cm_bounds m) (\<lambda>_. 8) (\<lambda>_. None) (Some st) v = Some ((Some {5}, p), w')"
proof -
  have "tree_wf (tree_new :: nat dispatch_tree)"
    by (simp add: tree_wf_def tree_new_def parents_below_def stack_contexts_def stack_views_def List.map_filter_simps)
  then show ?thesis
    using clean_view_is_reused [of False "sample_window\<lparr>win_rendered_frame := (frame_new list_tree)\<lparr>fra_hitboxes := [sample_hitbox]\<rparr>\<rparr>"
        "\<lparr>vs_accessed_entities = {5}, vs_prepaint_range = (prepaint_index_default, prepaint_index_default\<lparr>px_hitboxes := 1\<rparr>),
         vs_paint_range = (paint_index_default, paint_index_default), vs_bounds = Bounds (Point 0 0) (Size 100 100),
         vs_content_mask = \<lparr>cm_bounds = Bounds (Point 0 0) (Size 100 100)\<rparr>, vs_text_style = 8\<rparr>" "\<lambda>_. 8" 3 "\<lambda>_. None"]
    by (auto simp: sample_window_def window_new_def window_content_mask_def check_drawing_def debug_assert_paint_or_prepaint_def frame_new_def
        prepaint_index_default_def layout_index_default_def prepaint_marks_inside_def layout_marks_inside_def Let_def)
qed

end
