(* ===== verification/Element_Draw.thy ===== *)
theory Element_Draw
  imports Window_Frame
begin

text \<open>
  Elements and the order in which they are drawn, from \<open>src/src/element.rs\<close> and \<open>src/src/elements/deferred.rs\<close>.
  What an implementation of \<open>Element\<close> does is a parameter: computations on the window, which are given
  the element and return it changed.  The layout engine is one too.  The ids of the inspector are left out.
\<close>

section \<open>Elements\<close>

record ('w, 'e, 'i, 'a, 'q, 'p) element_impl =
  im_id :: "'e \<Rightarrow> 'i option"
  im_request_layout :: "'e \<Rightarrow> 'i list option \<Rightarrow> ('w, nat \<times> 'q \<times> 'e) comp"
  im_prepaint :: "'e \<Rightarrow> 'i list option \<Rightarrow> 'a bounds \<Rightarrow> 'q \<Rightarrow> ('w, 'q \<times> 'p \<times> 'e) comp"
  im_paint :: "'e \<Rightarrow> 'i list option \<Rightarrow> 'a bounds \<Rightarrow> 'q \<Rightarrow> 'p \<Rightarrow> ('w, 'q \<times> 'p \<times> 'e) comp"

record ('w, 'a, 's) layouts =
  ly_compute :: "nat \<Rightarrow> 's \<Rightarrow> ('w, unit) comp"
  ly_bounds :: "nat \<Rightarrow> ('w, 'a bounds) comp"

datatype ('i, 'a, 'q, 'p, 's) element_phase =
    Start
  | Request_layout nat "'i list option" 'q
  | Layout_computed nat "'i list option" 's 'q
  | Prepaint nat "'i list option" "'a bounds" 'q 'p
  | Painted

record ('e, 'i, 'a, 'q, 'p, 's) drawable =
  dr_element :: 'e
  dr_phase :: "('i, 'a, 'q, 'p, 's) element_phase"

definition drawable_new :: "'e \<Rightarrow> ('e, 'i, 'a, 'q, 'p, 's) drawable" where
  "drawable_new e = \<lparr>dr_element = e, dr_phase = Start\<rparr>"

text \<open>The stack of ids around an element, which is pushed by its id and popped if it had a global id.\<close>

definition push_element_id :: "'i option \<Rightarrow> ('a, 'f, 'i, 'l, 't, 'u, 'v, 'x, 'z) window_scheme \<Rightarrow>
    ('a, 'f, 'i, 'l, 't, 'u, 'v, 'x, 'z) window_scheme" where
  "push_element_id i w = (case i of None \<Rightarrow> w | Some i \<Rightarrow> w\<lparr>win_element_id_stack := win_element_id_stack w @ [i]\<rparr>)"

definition pop_element_id :: "'i list option \<Rightarrow> ('a, 'f, 'i, 'l, 't, 'u, 'v, 'x, 'z) window_scheme \<Rightarrow>
    ('a, 'f, 'i, 'l, 't, 'u, 'v, 'x, 'z) window_scheme" where
  "pop_element_id global_id w =
     (if global_id = None then w else w\<lparr>win_element_id_stack := butlast (win_element_id_stack w)\<rparr>)"

text \<open>
  \<open>Window::layout_bounds\<close>: the bounds of the engine moved by the offset of the elements around.
\<close>

definition layout_bounds :: "bool \<Rightarrow> (('a::linordered_field, 'f, 'i, 'l, 't, 'u, 'v, 'x, 'z) window_scheme, 'a, 's) layouts \<Rightarrow> nat \<Rightarrow>
    (('a, 'f, 'i, 'l, 't, 'u, 'v, 'x, 'z) window_scheme, 'a bounds) comp" where
  "layout_bounds dbg ly layout_id w = do { _ \<leftarrow> check_prepaint dbg w;
     (b, w) \<leftarrow> ly_bounds ly layout_id w;
     offset \<leftarrow> element_offset dbg w;
     Some (Bounds (Point (pt_x (bd_origin b) + pt_x offset) (pt_y (bd_origin b) + pt_y offset)) (bd_size b), w) }"

definition compute_layout :: "bool \<Rightarrow> (('a, 'f, 'i, 'l, 't, 'u, 'v, 'x, 'z) window_scheme, 'a, 's) layouts \<Rightarrow> nat \<Rightarrow> 's \<Rightarrow>
    (('a, 'f, 'i, 'l, 't, 'u, 'v, 'x, 'z) window_scheme, unit) comp" where
  "compute_layout dbg ly layout_id available_space w = do { _ \<leftarrow> check_prepaint dbg w;
     ly_compute ly layout_id available_space w }"

section \<open>The calls on a drawable\<close>

definition drawable_request_layout ::
  "(('a, 'f, 'i, 'l, 't, 'u, 'v, 'x, 'z) window_scheme, 'e, 'i, 'a, 'q, 'p) element_impl \<Rightarrow> ('e, 'i, 'a, 'q, 'p, 's) drawable \<Rightarrow>
   (('a, 'f, 'i, 'l, 't, 'u, 'v, 'x, 'z) window_scheme, nat \<times> ('e, 'i, 'a, 'q, 'p, 's) drawable) comp" where
  "drawable_request_layout im d w = (case dr_phase d of
     Start \<Rightarrow>
       let i = im_id im (dr_element d); w = push_element_id i w; global_id = map_option (\<lambda>_. win_element_id_stack w) i in do {
       ((layout_id, q, e), w) \<leftarrow> im_request_layout im (dr_element d) global_id w;
       Some ((layout_id, \<lparr>dr_element = e, dr_phase = Request_layout layout_id global_id q\<rparr>), pop_element_id global_id w) }
   | _ \<Rightarrow> None)"

text \<open>The debug assertion on the ids around the element.\<close>

definition check_element_id :: "bool \<Rightarrow> 'i option \<Rightarrow> 'i list option \<Rightarrow> ('a, 'f, 'i, 'l, 't, 'u, 'v, 'x, 'z) window_scheme \<Rightarrow> unit option" where
  "check_element_id dbg i global_id w =
     (if dbg \<and> i \<noteq> None \<and> global_id \<noteq> Some (win_element_id_stack w) then None else Some ())"

definition prepaint_laid_out ::
  "bool \<Rightarrow> (('a::linordered_field, 'f, 'i, 'l, 't, 'u, 'v, 'x, 'z) window_scheme, 'a, 's) layouts \<Rightarrow>
   (('a, 'f, 'i, 'l, 't, 'u, 'v, 'x, 'z) window_scheme, 'e, 'i, 'a, 'q, 'p) element_impl \<Rightarrow> 'e \<Rightarrow> nat \<Rightarrow> 'i list option \<Rightarrow> 'q \<Rightarrow>
   (('a, 'f, 'i, 'l, 't, 'u, 'v, 'x, 'z) window_scheme, ('e, 'i, 'a, 'q, 'p, 's) drawable) comp" where
  "prepaint_laid_out dbg ly im e layout_id global_id q w =
     (let w = push_element_id (im_id im e) w in do {
      _ \<leftarrow> check_element_id dbg (im_id im e) global_id w;
      (b, w) \<leftarrow> layout_bounds dbg ly layout_id w;
      let (node, tree) = push_node (fra_dispatch_tree (win_next_frame w)) in do {
      ((q, p, e), w) \<leftarrow> im_prepaint im e global_id b q (next_frame_update (\<lambda>fr. fr\<lparr>fra_dispatch_tree := tree\<rparr>) w);
      (_, w) \<leftarrow> next_tree_update pop_node w;
      Some (\<lparr>dr_element = e, dr_phase = Prepaint node global_id b q p\<rparr>, pop_element_id global_id w) } })"

definition drawable_prepaint ::
  "bool \<Rightarrow> (('a::linordered_field, 'f, 'i, 'l, 't, 'u, 'v, 'x, 'z) window_scheme, 'a, 's) layouts \<Rightarrow>
   (('a, 'f, 'i, 'l, 't, 'u, 'v, 'x, 'z) window_scheme, 'e, 'i, 'a, 'q, 'p) element_impl \<Rightarrow> ('e, 'i, 'a, 'q, 'p, 's) drawable \<Rightarrow>
   (('a, 'f, 'i, 'l, 't, 'u, 'v, 'x, 'z) window_scheme, ('e, 'i, 'a, 'q, 'p, 's) drawable) comp" where
  "drawable_prepaint dbg ly im d w = (case dr_phase d of
     Request_layout layout_id global_id q \<Rightarrow> prepaint_laid_out dbg ly im (dr_element d) layout_id global_id q w
   | Layout_computed layout_id global_id _ q \<Rightarrow> prepaint_laid_out dbg ly im (dr_element d) layout_id global_id q w
   | _ \<Rightarrow> None)"

definition drawable_paint ::
  "bool \<Rightarrow> (('a, 'f, 'i, 'l, 't, 'u, 'v, 'x, 'z) window_scheme, 'e, 'i, 'a, 'q, 'p) element_impl \<Rightarrow> ('e, 'i, 'a, 'q, 'p, 's) drawable \<Rightarrow>
   (('a, 'f, 'i, 'l, 't, 'u, 'v, 'x, 'z) window_scheme, 'q \<times> 'p \<times> ('e, 'i, 'a, 'q, 'p, 's) drawable) comp" where
  "drawable_paint dbg im d w = (case dr_phase d of
     Prepaint node global_id b q p \<Rightarrow>
       let w = push_element_id (im_id im (dr_element d)) w in do {
       _ \<leftarrow> check_element_id dbg (im_id im (dr_element d)) global_id w;
       (_, w) \<leftarrow> next_tree_update (set_active_node node) w;
       ((q, p, e), w) \<leftarrow> im_paint im (dr_element d) global_id b q p w;
       Some ((q, p, \<lparr>dr_element = e, dr_phase = Painted\<rparr>), pop_element_id global_id w) }
   | _ \<Rightarrow> None)"

definition drawable_layout_as_root ::
  "bool \<Rightarrow> (('a::linordered_field, 'f, 'i, 'l, 't, 'u, 'v, 'x, 'z) window_scheme, 'a, 's) layouts \<Rightarrow>
   (('a, 'f, 'i, 'l, 't, 'u, 'v, 'x, 'z) window_scheme, 'e, 'i, 'a, 'q, 'p) element_impl \<Rightarrow> 's \<Rightarrow> ('e, 'i, 'a, 'q, 'p, 's) drawable \<Rightarrow>
   (('a, 'f, 'i, 'l, 't, 'u, 'v, 'x, 'z) window_scheme, 'a size2 \<times> ('e, 'i, 'a, 'q, 'p, 's) drawable) comp" where
  "drawable_layout_as_root dbg ly im available_space d w = do {
     (d, w) \<leftarrow> (case dr_phase d of
         Start \<Rightarrow> do { ((_, d), w) \<leftarrow> drawable_request_layout im d w; Some (d, w) }
       | _ \<Rightarrow> Some (d, w));
     ((layout_id, d), w) \<leftarrow> (case dr_phase d of
         Request_layout layout_id global_id q \<Rightarrow> do {
           (_, w) \<leftarrow> compute_layout dbg ly layout_id available_space w;
           Some ((layout_id, d\<lparr>dr_phase := Layout_computed layout_id global_id available_space q\<rparr>), w) }
       | Layout_computed layout_id global_id prev_available_space q \<Rightarrow> do {
           (_, w) \<leftarrow> (if available_space \<noteq> prev_available_space then compute_layout dbg ly layout_id available_space w else Some ((), w));
           Some ((layout_id, d\<lparr>dr_phase := Layout_computed layout_id global_id available_space q\<rparr>), w) }
       | _ \<Rightarrow> None);
     (b, w) \<leftarrow> layout_bounds dbg ly layout_id w;
     Some ((bd_size b, d), w) }"

text \<open>
  \<open>AnyElement::prepaint\<close>, \<open>prepaint_at\<close> and \<open>prepaint_as_root\<close>, which also tell whether the element took the
  focus: the handle is only made if the focus id still has one.
\<close>

definition any_prepaint ::
  "bool \<Rightarrow> (('a::linordered_field, 'f, 'i, 'l, 't, 'u, 'v, 'x, 'z) window_scheme, 'a, 's) layouts \<Rightarrow>
   (('a, 'f, 'i, 'l, 't, 'u, 'v, 'x, 'z) window_scheme, 'e, 'i, 'a, 'q, 'p) element_impl \<Rightarrow> ('e, 'i, 'a, 'q, 'p, 's) drawable \<Rightarrow>
   (('a, 'f, 'i, 'l, 't, 'u, 'v, 'x, 'z) window_scheme, focus_handle option \<times> ('e, 'i, 'a, 'q, 'p, 's) drawable) comp" where
  "any_prepaint dbg ly im d w = (let focus_assigned = (fra_focus (win_next_frame w) \<noteq> None) in do {
     (d, w) \<leftarrow> drawable_prepaint dbg ly im d w;
     case fra_focus (win_next_frame w) of
       Some focus_id \<Rightarrow>
         if focus_assigned then Some ((None, d), w)
         else (case focus_handle_for_id focus_id (win_focus_map w) of
                 None \<Rightarrow> Some ((None, d), w)
               | Some (h, fm) \<Rightarrow> Some ((Some h, d), w\<lparr>win_focus_map := fm\<rparr>))
     | None \<Rightarrow> Some ((None, d), w) })"

definition prepaint_at ::
  "bool \<Rightarrow> (('a::linordered_field, 'f, 'i, 'l, 't, 'u, 'v, 'x, 'z) window_scheme, 'a, 's) layouts \<Rightarrow>
   (('a, 'f, 'i, 'l, 't, 'u, 'v, 'x, 'z) window_scheme, 'e, 'i, 'a, 'q, 'p) element_impl \<Rightarrow> 'a point \<Rightarrow> ('e, 'i, 'a, 'q, 'p, 's) drawable \<Rightarrow>
   (('a, 'f, 'i, 'l, 't, 'u, 'v, 'x, 'z) window_scheme, focus_handle option \<times> ('e, 'i, 'a, 'q, 'p, 's) drawable) comp" where
  "prepaint_at dbg ly im origin d = with_absolute_element_offset dbg origin (any_prepaint dbg ly im d)"

definition prepaint_as_root ::
  "bool \<Rightarrow> (('a::linordered_field, 'f, 'i, 'l, 't, 'u, 'v, 'x, 'z) window_scheme, 'a, 's) layouts \<Rightarrow>
   (('a, 'f, 'i, 'l, 't, 'u, 'v, 'x, 'z) window_scheme, 'e, 'i, 'a, 'q, 'p) element_impl \<Rightarrow> 'a point \<Rightarrow> 's \<Rightarrow> ('e, 'i, 'a, 'q, 'p, 's) drawable \<Rightarrow>
   (('a, 'f, 'i, 'l, 't, 'u, 'v, 'x, 'z) window_scheme, focus_handle option \<times> ('e, 'i, 'a, 'q, 'p, 's) drawable) comp" where
  "prepaint_as_root dbg ly im origin available_space d w = do {
     ((_, d), w) \<leftarrow> drawable_layout_as_root dbg ly im available_space d w;
     prepaint_at dbg ly im origin d w }"

section \<open>Elements made of others\<close>

text \<open>A boxed child lives in the arena: it is a code, and its state is part of the state of the window.\<close>

record ('w, 'l) children =
  ch_request_layout :: "'l \<Rightarrow> ('w, nat) comp"
  ch_prepaint :: "'l \<Rightarrow> ('w, unit) comp"
  ch_paint :: "'l \<Rightarrow> ('w, unit) comp"

text \<open>\<open>Component\<close>: \<open>name\<close> is the id made of the name of its type, and \<open>render\<close> makes the child.\<close>

definition component_impl :: "(('a, 'f, 'i, 'l, 't, 'u, 'v, 'x, 'z) window_scheme, 'l) children \<Rightarrow> 'i \<Rightarrow>
    ('c \<Rightarrow> (('a, 'f, 'i, 'l, 't, 'u, 'v, 'x, 'z) window_scheme, 'l) comp) \<Rightarrow>
    (('a, 'f, 'i, 'l, 't, 'u, 'v, 'x, 'z) window_scheme, 'c option, 'i, 'a, 'l, unit) element_impl" where
  "component_impl ch name render =
     \<lparr>im_id = (\<lambda>_. None),
      im_request_layout = (\<lambda>component _. with_global_id name (\<lambda>_ w. do {
        c \<leftarrow> component; (child, w) \<leftarrow> render c w; (layout_id, w) \<leftarrow> ch_request_layout ch child w;
        Some ((layout_id, child, None), w) })),
      im_prepaint = (\<lambda>component _ _ child. with_global_id name (\<lambda>_ w. do {
        (_, w) \<leftarrow> ch_prepaint ch child w; Some ((child, (), component), w) })),
      im_paint = (\<lambda>component _ _ child _. with_global_id name (\<lambda>_ w. do {
        (_, w) \<leftarrow> ch_paint ch child w; Some ((child, (), component), w) }))\<rparr>"

text \<open>\<open>AnyElement\<close> as an element, and \<open>Empty\<close>, whose layout is made by \<open>hidden\<close>.\<close>

definition any_element_impl :: "('w, 'l) children \<Rightarrow> ('w, 'l, 'i, 'a, unit, unit) element_impl" where
  "any_element_impl ch =
     \<lparr>im_id = (\<lambda>_. None),
      im_request_layout = (\<lambda>child _ w. do { (layout_id, w) \<leftarrow> ch_request_layout ch child w; Some ((layout_id, (), child), w) }),
      im_prepaint = (\<lambda>child _ _ _ w. do { (_, w) \<leftarrow> ch_prepaint ch child w; Some (((), (), child), w) }),
      im_paint = (\<lambda>child _ _ _ _ w. do { (_, w) \<leftarrow> ch_paint ch child w; Some (((), (), child), w) })\<rparr>"

definition empty_impl :: "('w, nat) comp \<Rightarrow> ('w, unit, 'i, 'a, unit, unit) element_impl" where
  "empty_impl hidden =
     \<lparr>im_id = (\<lambda>_. None),
      im_request_layout = (\<lambda>e _ w. do { (layout_id, w) \<leftarrow> hidden w; Some ((layout_id, (), e), w) }),
      im_prepaint = (\<lambda>e _ _ _ w. Some (((), (), e), w)),
      im_paint = (\<lambda>e _ _ _ _ w. Some (((), (), e), w))\<rparr>"

text \<open>\<open>Deferred\<close>: the child and the priority.\<close>

definition deferred_impl :: "bool \<Rightarrow> (('a, 'f, 'i, 'l, 't, 'u, 'v, 'x, 'z) window_scheme, 'l) children \<Rightarrow>
    (('a::linordered_field, 'f, 'i, 'l, 't, 'u, 'v, 'x, 'z) window_scheme, 'l option \<times> nat, 'i, 'a, unit, unit) element_impl" where
  "deferred_impl dbg ch =
     \<lparr>im_id = (\<lambda>_. None),
      im_request_layout = (\<lambda>e _ w. do { child \<leftarrow> fst e; (layout_id, w) \<leftarrow> ch_request_layout ch child w; Some ((layout_id, (), e), w) }),
      im_prepaint = (\<lambda>e _ _ _ w. do { child \<leftarrow> fst e; offset \<leftarrow> element_offset dbg w;
        (_, w) \<leftarrow> defer_draw dbg child offset (snd e) w; Some (((), (), (None, snd e)), w) }),
      im_paint = (\<lambda>e _ _ _ _ w. Some (((), (), e), w))\<rparr>"

section \<open>The order of the calls\<close>

datatype 's draw_call = Do_request_layout | Do_layout_as_root 's | Do_prepaint | Do_paint

definition draw_call ::
  "bool \<Rightarrow> (('a::linordered_field, 'f, 'i, 'l, 't, 'u, 'v, 'x, 'z) window_scheme, 'a, 's) layouts \<Rightarrow>
   (('a, 'f, 'i, 'l, 't, 'u, 'v, 'x, 'z) window_scheme, 'e, 'i, 'a, 'q, 'p) element_impl \<Rightarrow> 's draw_call \<Rightarrow> ('e, 'i, 'a, 'q, 'p, 's) drawable \<Rightarrow>
   (('a, 'f, 'i, 'l, 't, 'u, 'v, 'x, 'z) window_scheme, ('e, 'i, 'a, 'q, 'p, 's) drawable) comp" where
  "draw_call dbg ly im c d w = (case c of
     Do_request_layout \<Rightarrow> map_option (\<lambda>((_, d), w). (d, w)) (drawable_request_layout im d w)
   | Do_layout_as_root s \<Rightarrow> map_option (\<lambda>((_, d), w). (d, w)) (drawable_layout_as_root dbg ly im s d w)
   | Do_prepaint \<Rightarrow> map_option (\<lambda>((_, d), w). (d, w)) (any_prepaint dbg ly im d w)
   | Do_paint \<Rightarrow> map_option (\<lambda>((_, _, d), w). (d, w)) (drawable_paint dbg im d w))"

text \<open>Between the calls the window may change in any way: \<open>others\<close> are what is done after each call.\<close>

fun draw_calls ::
  "bool \<Rightarrow> (('a::linordered_field, 'f, 'i, 'l, 't, 'u, 'v, 'x, 'z) window_scheme, 'a, 's) layouts \<Rightarrow>
   (('a, 'f, 'i, 'l, 't, 'u, 'v, 'x, 'z) window_scheme, 'e, 'i, 'a, 'q, 'p) element_impl \<Rightarrow>
   ('s draw_call \<times> (('a, 'f, 'i, 'l, 't, 'u, 'v, 'x, 'z) window_scheme \<Rightarrow> ('a, 'f, 'i, 'l, 't, 'u, 'v, 'x, 'z) window_scheme)) list \<Rightarrow>
   ('e, 'i, 'a, 'q, 'p, 's) drawable \<Rightarrow>
   (('a, 'f, 'i, 'l, 't, 'u, 'v, 'x, 'z) window_scheme, ('e, 'i, 'a, 'q, 'p, 's) drawable) comp" where
  "draw_calls dbg ly im [] d w = Some (d, w)"
| "draw_calls dbg ly im ((c, other) # cs) d w = do { (d, w) \<leftarrow> draw_call dbg ly im c d w; draw_calls dbg ly im cs d (other w) }"

text \<open>The phases as an automaton.\<close>

datatype draw_stage = At_start | At_layout | At_prepaint | At_paint

fun stage_step :: "draw_stage \<Rightarrow> 's draw_call \<Rightarrow> draw_stage option" where
  "stage_step At_start Do_request_layout = Some At_layout"
| "stage_step At_start (Do_layout_as_root s) = Some At_layout"
| "stage_step At_layout (Do_layout_as_root s) = Some At_layout"
| "stage_step At_layout Do_prepaint = Some At_prepaint"
| "stage_step At_prepaint Do_paint = Some At_paint"
| "stage_step _ _ = None"

fun stage_of :: "('i, 'a, 'q, 'p, 's) element_phase \<Rightarrow> draw_stage" where
  "stage_of Start = At_start"
| "stage_of (Request_layout _ _ _) = At_layout"
| "stage_of (Layout_computed _ _ _ _) = At_layout"
| "stage_of (Prepaint _ _ _ _ _) = At_prepaint"
| "stage_of Painted = At_paint"

lemma request_layout_stage:
  "drawable_request_layout im d w = Some ((r, d'), w') \<Longrightarrow> stage_of (dr_phase d) = At_start \<and> stage_of (dr_phase d') = At_layout"
  by (cases "dr_phase d") (auto simp: drawable_request_layout_def bind_eq_Some_conv Let_def)

lemma layout_as_root_stage:
  assumes "drawable_layout_as_root dbg ly im s d w = Some ((r, d'), w')"
  shows "stage_of (dr_phase d) \<in> {At_start, At_layout} \<and> stage_of (dr_phase d') = At_layout"
proof (cases "dr_phase d")
  case Start
  with assms obtain r0 d0 w0 where "drawable_request_layout im d w = Some ((r0, d0), w0)"
    by (auto simp: drawable_layout_as_root_def bind_eq_Some_conv)
  with assms Start show ?thesis using request_layout_stage [of im d w r0 d0 w0]
    by (cases "dr_phase d0") (auto simp: drawable_layout_as_root_def bind_eq_Some_conv)
qed (use assms in \<open>auto simp: drawable_layout_as_root_def bind_eq_Some_conv\<close>)

lemma prepaint_laid_out_stage: "prepaint_laid_out dbg ly im e i g q w = Some (d', w') \<Longrightarrow> stage_of (dr_phase d') = At_prepaint"
  by (auto simp: prepaint_laid_out_def bind_eq_Some_conv Let_def case_prod_unfold)

lemma prepaint_stage:
  "drawable_prepaint dbg ly im d w = Some (d', w') \<Longrightarrow> stage_of (dr_phase d) = At_layout \<and> stage_of (dr_phase d') = At_prepaint"
  by (cases "dr_phase d") (auto simp: drawable_prepaint_def prepaint_laid_out_stage)

lemma any_prepaint_drawable:
  assumes "any_prepaint dbg ly im d w = Some ((h, d'), w')"
  shows "\<exists>w0. drawable_prepaint dbg ly im d w = Some (d', w0)"
proof -
  from assms obtain d0 w0 where d0: "drawable_prepaint dbg ly im d w = Some (d0, w0)"
    by (auto simp: any_prepaint_def bind_eq_Some_conv)
  with assms have "d0 = d'" by (auto simp: any_prepaint_def Let_def split: option.splits if_splits)
  with d0 show ?thesis by blast
qed

lemma paint_stage:
  "drawable_paint dbg im d w = Some ((q, p, d'), w') \<Longrightarrow> stage_of (dr_phase d) = At_prepaint \<and> stage_of (dr_phase d') = At_paint"
  by (cases "dr_phase d") (auto simp: drawable_paint_def bind_eq_Some_conv Let_def)

lemma draw_call_stage:
  assumes "draw_call dbg ly im c d w = Some (d', w')"
  shows "stage_step (stage_of (dr_phase d)) c = Some (stage_of (dr_phase d'))"
proof (cases c)
  case Do_request_layout
  with assms request_layout_stage show ?thesis by (fastforce simp: draw_call_def)
next
  case (Do_layout_as_root s)
  with assms layout_as_root_stage show ?thesis by (fastforce simp: draw_call_def)
next
  case Do_prepaint
  with assms any_prepaint_drawable prepaint_stage show ?thesis by (fastforce simp: draw_call_def)
next
  case Do_paint
  with assms paint_stage show ?thesis by (fastforce simp: draw_call_def)
qed

text \<open>What may follow from a stage on.\<close>

definition layouts_of :: "'s list \<Rightarrow> 's draw_call list" where
  "layouts_of = map Do_layout_as_root"

fun follows :: "draw_stage \<Rightarrow> 's draw_call list \<Rightarrow> bool" where
  "follows At_start cs \<longleftrightarrow> cs = [] \<or> (\<exists>c ss n. c \<in> {Do_request_layout} \<union> range Do_layout_as_root \<and>
     cs = c # layouts_of ss @ take n [Do_prepaint, Do_paint])"
| "follows At_layout cs \<longleftrightarrow> (\<exists>ss n. cs = layouts_of ss @ take n [Do_prepaint, Do_paint])"
| "follows At_prepaint cs \<longleftrightarrow> cs = [] \<or> cs = [Do_paint]"
| "follows At_paint cs \<longleftrightarrow> cs = []"

lemma follows_Nil: "follows stage []"
  by (cases stage) (auto simp: layouts_of_def intro: exI [of _ "[]"] exI [of _ 0])

lemma follows_Cons:
  assumes "stage_step stage c = Some stage'" and "follows stage' cs"
  shows "follows stage (c # cs)"
proof (cases "stage = At_layout")
  case True
  show ?thesis
  proof (cases "stage' = At_layout")
    case True
    with \<open>stage = At_layout\<close> assms obtain s ss n where "c = Do_layout_as_root s" "cs = layouts_of ss @ take n [Do_prepaint, Do_paint]"
      by (cases c) auto
    then have "c # cs = layouts_of (s # ss) @ take n [Do_prepaint, Do_paint]" by (simp add: layouts_of_def)
    with \<open>stage = At_layout\<close> show ?thesis by (simp del: take_Cons) blast
  next
    case False
    with \<open>stage = At_layout\<close> assms have "c # cs = layouts_of [] @ take (Suc (length cs)) [Do_prepaint, Do_paint]"
      by (cases c) (auto simp: layouts_of_def)
    with \<open>stage = At_layout\<close> show ?thesis by (simp del: take_Suc_Cons) blast
  qed
next
  case False
  with assms show ?thesis by (cases stage; cases c) auto
qed

lemma draw_calls_follow:
  "draw_calls dbg ly im cs d w = Some r \<Longrightarrow> follows (stage_of (dr_phase d)) (map fst cs)"
proof (induction cs arbitrary: d w)
  case (Cons c cs)
  then obtain d' w' where "draw_call dbg ly im (fst c) d w = Some (d', w')" "draw_calls dbg ly im cs d' (snd c w') = Some r"
    by (cases c) (auto simp: bind_eq_Some_conv)
  then show ?case using follows_Cons [OF draw_call_stage Cons.IH] by (cases c) simp
qed (simp add: follows_Nil)

text \<open>
  C22. However the window changes in between, the calls on a new element return only in this order: a request of
  its layout or a measurement, any number of measurements, one prepaint and one paint; every other order panics.
\<close>

theorem element_call_order:
  assumes "draw_calls dbg ly im cs (drawable_new e) w = Some r"
  shows "cs = [] \<or> (\<exists>c ss n. c \<in> {Do_request_layout} \<union> range Do_layout_as_root \<and>
    map fst cs = c # map Do_layout_as_root ss @ take n [Do_prepaint, Do_paint])"
  using draw_calls_follow [OF assms] by (simp add: drawable_new_def layouts_of_def)

definition sample_layouts :: "('w, rat, nat) layouts" where
  "sample_layouts = \<lparr>ly_compute = (\<lambda>_ _ w. Some ((), w)), ly_bounds = (\<lambda>_ w. Some (Bounds (Point 0 0) (Size 5 5), w))\<rparr>"

lemma sample_element_drawn:
  "draw_calls True sample_layouts (empty_impl (\<lambda>w. Some (7, w)))
     [(Do_layout_as_root 9, \<lambda>w. w), (Do_prepaint, \<lambda>w. w\<lparr>win_invalidator := \<lparr>wi_dirty = False, wi_draw_phase = Phase_paint, wi_dirty_views = {}\<rparr>\<rparr>),
      (Do_paint, \<lambda>w. w)] (drawable_new ())
     (sample_window\<lparr>win_invalidator := \<lparr>wi_dirty = False, wi_draw_phase = Phase_prepaint, wi_dirty_views = {}\<rparr>\<rparr>) \<noteq> None"
  by (simp add: sample_layouts_def empty_impl_def drawable_new_def draw_call_def drawable_layout_as_root_def drawable_request_layout_def
      compute_layout_def layout_bounds_def check_prepaint_def debug_assert_prepaint_def element_offset_def any_prepaint_def
      drawable_prepaint_def prepaint_laid_out_def push_element_id_def pop_element_id_def check_element_id_def sample_window_def
      window_new_def frame_new_def push_node_def tree_new_def next_frame_update_def next_tree_update_def pop_node_def active_node_id_def
      drawable_paint_def set_active_node_def pop_until.simps Let_def)

lemma element_call_order_witness:
  "\<exists>c ss n. [Do_layout_as_root (9 :: nat), Do_prepaint, Do_paint] = c # map Do_layout_as_root ss @ take n [Do_prepaint, Do_paint]"
proof -
  from sample_element_drawn obtain r where r: "draw_calls True sample_layouts (empty_impl (\<lambda>w. Some (7, w)))
     [(Do_layout_as_root 9, \<lambda>w. w), (Do_prepaint, \<lambda>w. w\<lparr>win_invalidator := \<lparr>wi_dirty = False, wi_draw_phase = Phase_paint, wi_dirty_views = {}\<rparr>\<rparr>),
      (Do_paint, \<lambda>w. w)] (drawable_new ())
     (sample_window\<lparr>win_invalidator := \<lparr>wi_dirty = False, wi_draw_phase = Phase_prepaint, wi_dirty_views = {}\<rparr>\<rparr>) = Some r" by blast
  from element_call_order [OF r] show ?thesis by auto
qed

end
