(* ===== verification/Window_Draw.thy ===== *)
theory Window_Draw
  imports View_Cache Element_Draw
begin

text \<open>
  Drawing a window, from \<open>Window::draw\<close> and what it calls in \<open>src/src/window.rs\<close>: prepainting and painting
  the root, the deferred draws by their priority, and the prompt, the dragged view or a tooltip on top; then
  the new frame takes the place of the one on the screen.  The inspector is left out.
\<close>

section \<open>State\<close>

record ('a, 'l, 'x) any_drag =
  ad_view :: 'l
  ad_value :: 'l
  ad_cursor_offset :: "'a point"
  ad_cursor_style :: "'x option"

text \<open>
  The rest of the window that drawing and input use, with what they use of the application: the drag, the
  entities that were read since the start of the frame, those for which this window is told of
  notifications, and the cursor the platform shows.
\<close>

record ('a, 'f, 'i, 'l, 't, 'u, 'v, 'x) drawn_window = "('a, 'f, 'i, 'l, 't, 'u, 'v, 'x) window" +
  win_root :: "'l option"
  win_prompt :: "'l option"
  win_hovered :: bool
  app_active_drag :: "('a, 'l, 'x) any_drag option"
  app_accessed_entities :: "nat set"
  app_tracked_entities :: "nat set"
  app_cursor :: "'x option"

text \<open>What elements, tooltips and listeners of the focus do.\<close>

record ('w, 'l, 'a, 's, 'x) drawn_elements = "('w, 'l) children" +
  de_prepaint_as_root :: "'l \<Rightarrow> 'a point \<Rightarrow> 's \<Rightarrow> ('w, unit) comp"
  de_layout_as_root :: "'l \<Rightarrow> 's \<Rightarrow> ('w, 'a size2) comp"
  de_definite :: "'a size2 \<Rightarrow> 's"
  de_min_size :: 's
  de_tooltip_mouse_position :: "'l \<Rightarrow> 'a point"
  de_tooltip_check_visible :: "'l \<Rightarrow> 'a bounds \<Rightarrow> ('w, bool) comp"
  de_focus_lost :: "('w, unit) comp"
  de_focus_changed :: "nat list \<Rightarrow> nat list \<Rightarrow> ('w, unit) comp"
  de_arrow :: 'x

section \<open>Deferred draws\<close>

text \<open>The stable order \<open>sort_by_key\<close> puts the indices in.\<close>

definition sorted_deferred_draws :: "('a, 'i, 'l, 'x) deferred_draw list \<Rightarrow> nat list" where
  "sorted_deferred_draws ds = sort_key (\<lambda>i. dd_priority (ds ! i)) [0..<length ds]"

definition prepaint_deferred_draw ::
  "bool \<Rightarrow> ('l \<Rightarrow> (('a::linordered_field, 'f, 'i, 'l, 't, 'u, 'v, 'x, 'z) window_scheme, unit) comp) \<Rightarrow> ('a, 'i, 'l, 'x) deferred_draw \<Rightarrow>
   (('a, 'f, 'i, 'l, 't, 'u, 'v, 'x, 'z) window_scheme, ('a, 'i, 'l, 'x) deferred_draw) comp" where
  "prepaint_deferred_draw dbg prepaint d w = do {
     (_, w) \<leftarrow> next_tree_update (set_active_node (dd_parent_node d))
       (w\<lparr>win_element_id_stack := dd_element_id_stack d, win_text_style_stack := dd_text_style_stack d\<rparr>);
     let start = prepaint_index w in do {
     (_, w) \<leftarrow> (case dd_element d of
         Some e \<Rightarrow> with_rendered_view (dd_current_view d) (with_absolute_element_offset dbg (dd_absolute_offset d) (prepaint e)) w
       | None \<Rightarrow> reuse_prepaint dbg (dd_prepaint_range d) w);
     Some (d\<lparr>dd_prepaint_range := (start, prepaint_index w)\<rparr>, w) } }"

definition paint_deferred_draw ::
  "('t, 'c) sum_tree \<Rightarrow> ('l \<Rightarrow> (('a::linordered_field, 'f, 'i, 'l, 't, 'u, 'v, 'x, 'z) window_scheme, unit) comp) \<Rightarrow> ('a, 'i, 'l, 'x) deferred_draw \<Rightarrow>
   (('a, 'f, 'i, 'l, 't, 'u, 'v, 'x, 'z) window_scheme, ('a, 'i, 'l, 'x) deferred_draw) comp" where
  "paint_deferred_draw T paint d w = do {
     (_, w) \<leftarrow> next_tree_update (set_active_node (dd_parent_node d)) (w\<lparr>win_element_id_stack := dd_element_id_stack d\<rparr>);
     let start = window_paint_index w in do {
     (_, w) \<leftarrow> (case dd_element d of
         Some e \<Rightarrow> with_rendered_view (dd_current_view d) (paint e) w
       | None \<Rightarrow> reuse_paint T (dd_paint_range d) w);
     Some (d\<lparr>dd_paint_range := (start, window_paint_index w)\<rparr>, w) } }"

text \<open>The loop over the indices, with the draws taken out of the frame.\<close>

fun each_deferred_draw :: "(('a, 'i, 'l, 'x) deferred_draw \<Rightarrow> ('w, ('a, 'i, 'l, 'x) deferred_draw) comp) \<Rightarrow> nat list \<Rightarrow>
    ('a, 'i, 'l, 'x) deferred_draw list \<Rightarrow> ('w, ('a, 'i, 'l, 'x) deferred_draw list) comp" where
  "each_deferred_draw f [] ds w = Some (ds, w)"
| "each_deferred_draw f (i # is) ds w =
     (if i < length ds then do { (d, w) \<leftarrow> f (ds ! i) w; each_deferred_draw f is (ds[i := d]) w } else None)"

definition prepaint_deferred_draws ::
  "bool \<Rightarrow> ('l \<Rightarrow> (('a::linordered_field, 'f, 'i, 'l, 't, 'u, 'v, 'x, 'z) window_scheme, unit) comp) \<Rightarrow> nat list \<Rightarrow>
   (('a, 'f, 'i, 'l, 't, 'u, 'v, 'x, 'z) window_scheme, unit) comp" where
  "prepaint_deferred_draws dbg prepaint indices w =
     (if win_element_id_stack w \<noteq> [] then None else do {
      (ds, w) \<leftarrow> each_deferred_draw (prepaint_deferred_draw dbg prepaint) indices (fra_deferred_draws (win_next_frame w))
        (next_frame_update (\<lambda>fr. fr\<lparr>fra_deferred_draws := []\<rparr>) w);
      if fra_deferred_draws (win_next_frame w) \<noteq> [] then None else
        Some ((), (next_frame_update (\<lambda>fr. fr\<lparr>fra_deferred_draws := ds\<rparr>) w)
          \<lparr>win_element_id_stack := [], win_text_style_stack := []\<rparr>) })"

definition paint_deferred_draws ::
  "('t, 'c) sum_tree \<Rightarrow> ('l \<Rightarrow> (('a::linordered_field, 'f, 'i, 'l, 't, 'u, 'v, 'x, 'z) window_scheme, unit) comp) \<Rightarrow> nat list \<Rightarrow>
   (('a, 'f, 'i, 'l, 't, 'u, 'v, 'x, 'z) window_scheme, unit) comp" where
  "paint_deferred_draws T paint indices w =
     (if win_element_id_stack w \<noteq> [] then None else do {
      (ds, w) \<leftarrow> each_deferred_draw (paint_deferred_draw T paint) indices (fra_deferred_draws (win_next_frame w))
        (next_frame_update (\<lambda>fr. fr\<lparr>fra_deferred_draws := []\<rparr>) w);
      Some ((), (next_frame_update (\<lambda>fr. fr\<lparr>fra_deferred_draws := ds\<rparr>) w)\<lparr>win_element_id_stack := []\<rparr>) })"

section \<open>The roots\<close>

text \<open>
  \<open>Window::prepaint_tooltip\<close>: the last request that is visible where it would be put.  The number of
  requests is read at the start, the requests themselves one by one.
\<close>

fun prepaint_tooltip_loop ::
  "bool \<Rightarrow> (('a::linordered_field, 'f, 'i, 'l, 't, 'u, 'v, 'x, 'z) window_scheme, 'l, 'a, 's, 'x) drawn_elements \<Rightarrow> nat list \<Rightarrow>
   (('a, 'f, 'i, 'l, 't, 'u, 'v, 'x, 'z) window_scheme, 'l option) comp" where
  "prepaint_tooltip_loop dbg E [] w = Some (None, w)"
| "prepaint_tooltip_loop dbg E (i # is) w =
     (case (if i < length (fra_tooltip_requests (win_next_frame w)) then fra_tooltip_requests (win_next_frame w) ! i else None) of
        None \<Rightarrow> prepaint_tooltip_loop dbg E is w
      | Some (tooltip_id, tooltip) \<Rightarrow> do {
          (tooltip_size, w) \<leftarrow> de_layout_as_root E tooltip (de_min_size E) w;
          let b = tooltip_place (de_tooltip_mouse_position E tooltip) tooltip_size (win_viewport_size w) in do {
          (is_visible, w) \<leftarrow> de_tooltip_check_visible E tooltip b w;
          if is_visible then do {
            (_, w) \<leftarrow> with_absolute_element_offset dbg (bd_origin b) (ch_prepaint E tooltip) w;
            Some (Some tooltip, w\<lparr>win_tooltip_bounds := Some \<lparr>tb_id = tooltip_id, tb_bounds = b\<rparr>\<rparr>) }
          else prepaint_tooltip_loop dbg E is w } })"

definition prepaint_tooltip ::
  "bool \<Rightarrow> (('a::linordered_field, 'f, 'i, 'l, 't, 'u, 'v, 'x, 'z) window_scheme, 'l, 'a, 's, 'x) drawn_elements \<Rightarrow>
   (('a, 'f, 'i, 'l, 't, 'u, 'v, 'x, 'z) window_scheme, 'l option) comp" where
  "prepaint_tooltip dbg E w = prepaint_tooltip_loop dbg E (rev [0..<length (fra_tooltip_requests (win_next_frame w))]) w"

text \<open>
  What is prepainted on top of all: the prompt, or the dragged view at the mouse, or a tooltip.  The prompt and the drag
  are taken out while their views are drawn.
\<close>

definition prepaint_topmost ::
  "bool \<Rightarrow> (('a::linordered_field, 'f, 'i, 'l, 't, 'u, 'v, 'x, 'z) drawn_window_scheme, 'l, 'a, 's, 'x) drawn_elements \<Rightarrow> 'a size2 \<Rightarrow>
   (('a, 'f, 'i, 'l, 't, 'u, 'v, 'x, 'z) drawn_window_scheme, 'l option) comp" where
  "prepaint_topmost dbg E root_size w = (case win_prompt w of
     Some prompt \<Rightarrow> do {
       (_, w) \<leftarrow> de_prepaint_as_root E prompt (Point 0 0) (de_definite E root_size) (w\<lparr>win_prompt := None\<rparr>);
       Some (Some prompt, w\<lparr>win_prompt := Some prompt\<rparr>) }
   | None \<Rightarrow> (case app_active_drag w of
       Some active_drag \<Rightarrow> do {
         (_, w) \<leftarrow> de_prepaint_as_root E (ad_view active_drag)
           (Point (pt_x (win_mouse_position w) - pt_x (ad_cursor_offset active_drag)) (pt_y (win_mouse_position w) - pt_y (ad_cursor_offset active_drag)))
           (de_min_size E) (w\<lparr>app_active_drag := None\<rparr>);
         Some (Some (ad_view active_drag), w\<lparr>app_active_drag := Some active_drag\<rparr>) }
     | None \<Rightarrow> prepaint_tooltip dbg E w))"

definition prepaint_roots ::
  "bool \<Rightarrow> (('a::linordered_field, 'f, 'i, 'l, 't, 'u, 'v, 'x, 'z) drawn_window_scheme, 'l, 'a, 's, 'x) drawn_elements \<Rightarrow>
   (('a, 'f, 'i, 'l, 't, 'u, 'v, 'x, 'z) drawn_window_scheme, 'l \<times> nat list \<times> 'l option) comp" where
  "prepaint_roots dbg E w =
     (let w = w\<lparr>win_invalidator := set_phase Phase_prepaint (win_invalidator w), win_tooltip_bounds := None\<rparr>;
          root_size = win_viewport_size w in do {
      root_element \<leftarrow> win_root w;
      (_, w) \<leftarrow> de_prepaint_as_root E root_element (Point 0 0) (de_definite E root_size) w;
      let indices = sorted_deferred_draws (fra_deferred_draws (win_next_frame w)) in do {
      (_, w) \<leftarrow> prepaint_deferred_draws dbg (ch_prepaint E) indices w;
      (topmost, w) \<leftarrow> prepaint_topmost dbg E root_size w;
      Some ((root_element, indices, topmost), w\<lparr>win_mouse_hit_test := hit_test (win_mouse_position w) (fra_hitboxes (win_next_frame w))\<rparr>) } })"

definition paint_roots ::
  "('t, 'c) sum_tree \<Rightarrow> (('a::linordered_field, 'f, 'i, 'l, 't, 'u, 'v, 'x, 'z) window_scheme, 'l, 'a, 's, 'x) drawn_elements \<Rightarrow>
   'l \<Rightarrow> nat list \<Rightarrow> 'l option \<Rightarrow> (('a, 'f, 'i, 'l, 't, 'u, 'v, 'x, 'z) window_scheme, unit) comp" where
  "paint_roots T E root_element indices topmost w = do {
     (_, w) \<leftarrow> ch_paint E root_element (w\<lparr>win_invalidator := set_phase Phase_paint (win_invalidator w)\<rparr>);
     (_, w) \<leftarrow> paint_deferred_draws T (ch_paint E) indices w;
     case topmost of None \<Rightarrow> Some ((), w) | Some e \<Rightarrow> ch_paint E e w }"

definition draw_roots ::
  "bool \<Rightarrow> ('t, 'c) sum_tree \<Rightarrow> (('a::linordered_field, 'f, 'i, 'l, 't, 'u, 'v, 'x, 'z) drawn_window_scheme, 'l, 'a, 's, 'x) drawn_elements \<Rightarrow>
   (('a, 'f, 'i, 'l, 't, 'u, 'v, 'x, 'z) drawn_window_scheme, unit) comp" where
  "draw_roots dbg T E w = do { ((root_element, indices, topmost), w) \<leftarrow> prepaint_roots dbg E w; paint_roots T E root_element indices topmost w }"

section \<open>A frame\<close>

definition reset_cursor_style :: "'x \<Rightarrow> ('a, 'f, 'i, 'l, 't, 'u, 'v, 'x, 'z) drawn_window_scheme \<Rightarrow>
    ('a, 'f, 'i, 'l, 't, 'u, 'v, 'x, 'z) drawn_window_scheme" where
  "reset_cursor_style arrow w = (if win_hovered w then w\<lparr>app_cursor := Some
     (case cursor_style (win_mouse_hit_test w) (fra_cursor_styles (win_rendered_frame w)) of Some s \<Rightarrow> s | None \<Rightarrow> arrow)\<rparr> else w)"

text \<open>What \<open>draw\<close> does before the roots; \<open>views\<close> are the notified views in the order they are drained.\<close>

definition draw_begin :: "bool \<Rightarrow> nat list \<Rightarrow> (('a, 'f, 'i, 'l, 't, 'u, 'v, 'x, 'z) drawn_window_scheme, unit) comp" where
  "draw_begin dbg views w = do {
     w \<leftarrow> invalidate_entities views w;
     if dbg \<and> win_rendered_entity_stack w \<noteq> [] then None else
       let w = w\<lparr>app_accessed_entities := {}, win_invalidator := set_dirty False (win_invalidator w), win_requested_autoscroll := None\<rparr> in
       Some ((), case win_platform_input_handler w of
         None \<Rightarrow> w
       | Some h \<Rightarrow> w\<lparr>win_platform_input_handler := None,
           win_rendered_frame := (win_rendered_frame w)\<lparr>fra_input_handlers := fra_input_handlers (win_rendered_frame w) @ [Some h]\<rparr>\<rparr>) }"

text \<open>The last input handler of the frame is moved to the platform; it must not have been taken.\<close>

definition register_input_handler :: "(('a, 'f, 'i, 'l, 't, 'u, 'v, 'x, 'z) window_scheme, unit) comp" where
  "register_input_handler w = (case rev (fra_input_handlers (win_next_frame w)) of
     [] \<Rightarrow> Some ((), w)
   | None # _ \<Rightarrow> None
   | Some h # _ \<Rightarrow> Some ((), next_frame_update (\<lambda>fr. fr\<lparr>fra_input_handlers := butlast (fra_input_handlers fr)\<rparr>)
       (w\<lparr>win_platform_input_handler := Some h\<rparr>)))"

text \<open>The frames are finished and swapped; the result tells the two focus paths and whether the window was active.\<close>

definition swap_frames :: "('t, 'c) sum_tree \<Rightarrow>
    (('a, 'f, 'i, 'l, 't, 'u, 'v, 'x, 'z) window_scheme, (nat list \<times> bool) \<times> (nat list \<times> bool)) comp" where
  "swap_frames T w =
     (let w = w\<lparr>win_text_system := finish_frame (win_text_system w)\<rparr>;
          (last_frame, frame) = frame_finish (win_rendered_frame w) (win_next_frame w);
          w = w\<lparr>win_invalidator := set_phase Phase_focus (win_invalidator w)\<rparr> in do {
      previous_path \<leftarrow> frame_focus_path last_frame;
      (fm, cleared) \<leftarrow> frame_clear T (win_focus_map w) last_frame;
      current_path \<leftarrow> frame_focus_path frame;
      Some (((previous_path, fra_window_active last_frame), (current_path, fra_window_active frame)),
        w\<lparr>win_focus_map := fm, win_rendered_frame := frame, win_next_frame := cleared\<rparr>) })"

definition tell_focus ::
  "('w, 'l, 'a, 's, 'x) drawn_elements \<Rightarrow> nat list \<times> bool \<Rightarrow> nat list \<times> bool \<Rightarrow> ('w, unit) comp" where
  "tell_focus E previous current w =
     (if fst previous \<noteq> fst current \<or> snd previous \<noteq> snd current then do {
        (_, w) \<leftarrow> (if fst previous \<noteq> [] \<and> fst current = [] then de_focus_lost E w else Some ((), w));
        de_focus_changed E (if snd previous then fst previous else []) (if snd current then fst current else []) w }
      else Some ((), w))"

definition draw_end :: "bool \<Rightarrow> 'x \<Rightarrow> (('a, 'f, 'i, 'l, 't, 'u, 'v, 'x, 'z) drawn_window_scheme, unit) comp" where
  "draw_end dbg arrow w =
     (if dbg \<and> win_rendered_entity_stack w \<noteq> [] then None else
      Some ((), (reset_cursor_style arrow (w\<lparr>app_tracked_entities := app_accessed_entities w\<rparr>))
        \<lparr>win_refreshing := False, win_invalidator := set_phase Phase_none (win_invalidator w), win_needs_present := True\<rparr>))"

definition draw ::
  "bool \<Rightarrow> bool \<Rightarrow> ('t, 'c) sum_tree \<Rightarrow> (('a::linordered_field, 'f, 'i, 'l, 't, 'u, 'v, 'x, 'z) drawn_window_scheme, 'l, 'a, 's, 'x) drawn_elements \<Rightarrow>
   nat list \<Rightarrow> (('a, 'f, 'i, 'l, 't, 'u, 'v, 'x, 'z) drawn_window_scheme, unit) comp" where
  "draw dbg skip_drawing T E views w = do {
     (_, w) \<leftarrow> draw_begin dbg views w;
     (_, w) \<leftarrow> (if skip_drawing then Some ((), w) else draw_roots dbg T E w);
     let w = next_frame_update (\<lambda>fr. fr\<lparr>fra_window_active := win_active w\<rparr>) (w\<lparr>win_dirty_views := {}\<rparr>) in do {
     (_, w) \<leftarrow> register_input_handler w;
     ((previous, current), w) \<leftarrow> swap_frames T w;
     (_, w) \<leftarrow> tell_focus E previous current w;
     draw_end dbg (de_arrow E) w } }"

section \<open>The order of drawing\<close>




lemma set_sorted_deferred_draws [simp]: "set (sorted_deferred_draws ds) = {0..<length ds}" "distinct (sorted_deferred_draws ds)"
  by (simp_all add: sorted_deferred_draws_def)















































text \<open>
  The input handler that is lent to the platform between two frames is put back where it was, so that the marks of
  views that are reused still fit the handlers of the frame on the screen.
\<close>

lemma mark_views_dirty_keeps:
  "mark_views_dirty views v = Some v' \<Longrightarrow> win_rendered_frame v' = win_rendered_frame v \<and> win_platform_input_handler v' = win_platform_input_handler v"
proof (induction views arbitrary: v)
  case (Cons u us)
  then obtain v1 where v1: "mark_view_dirty u v = Some v1" "mark_views_dirty us v1 = Some v'" by (auto simp: bind_eq_Some_conv)
  from v1(1) have "win_rendered_frame v1 = win_rendered_frame v \<and> win_platform_input_handler v1 = win_platform_input_handler v"
    by (auto simp: mark_view_dirty_def bind_eq_Some_conv)
  with Cons.IH [OF v1(2)] show ?case by simp
qed simp

lemma invalidate_entities_keeps:
  "invalidate_entities views v = Some v' \<Longrightarrow>
   win_rendered_frame v' = win_rendered_frame v \<and> win_platform_input_handler v' = win_platform_input_handler v"
  using mark_views_dirty_keeps by (fastforce simp: invalidate_entities_def bind_eq_Some_conv)

lemma draw_begin_handlers:
  assumes "draw_begin dbg views w = Some ((), w')"
  shows "win_platform_input_handler w' = None \<and> fra_input_handlers (win_rendered_frame w') = fra_input_handlers (win_rendered_frame w) @
    (case win_platform_input_handler w of None \<Rightarrow> [] | Some h \<Rightarrow> [Some h])"
proof -
  from assms obtain v where v: "invalidate_entities views w = Some v" by (auto simp: draw_begin_def bind_eq_Some_conv)
  with assms invalidate_entities_keeps [OF v] show ?thesis
    by (cases "win_platform_input_handler w") (auto simp: draw_begin_def Let_def split: if_splits)
qed

lemma swap_frames_handlers:
  "swap_frames T w = Some (paths, w') \<Longrightarrow> win_platform_input_handler w' = win_platform_input_handler w \<and>
   fra_input_handlers (win_rendered_frame w') = fra_input_handlers (win_next_frame w)"
  by (auto simp: swap_frames_def frame_finish_def bind_eq_Some_conv Let_def split: prod.splits)

lemma input_handlers_restored:
  assumes "register_input_handler w = Some ((), w1)" and "swap_frames T w1 = Some (paths, w2)" and "draw_begin dbg views w2 = Some ((), w3)"
    and "win_platform_input_handler w = None"
  shows "fra_input_handlers (win_rendered_frame w3) = fra_input_handlers (win_next_frame w) \<and> win_platform_input_handler w3 = None"
proof (cases "fra_input_handlers (win_next_frame w)" rule: rev_cases)
  case Nil
  with assms(1) have "w1 = w" by (simp add: register_input_handler_def)
  with Nil assms(4) swap_frames_handlers [OF assms(2)] draw_begin_handlers [OF assms(3)] show ?thesis by simp
next
  case (snoc hs h)
  with assms(1) obtain h' where "h = Some h'" by (cases h) (simp_all add: register_input_handler_def)
  with snoc assms(1) have "fra_input_handlers (win_next_frame w1) = hs" "win_platform_input_handler w1 = Some h'"
    by (auto simp: register_input_handler_def next_frame_update_def)
  with \<open>h = Some h'\<close> snoc swap_frames_handlers [OF assms(2)] draw_begin_handlers [OF assms(3)] show ?thesis by simp
qed

text \<open>Drawing ends in no phase, with nothing to refresh, and asks for the frame to be presented.\<close>

lemma draw_end_done:
  "draw_end dbg arrow w = Some ((), w') \<Longrightarrow>
   wi_draw_phase (win_invalidator w') = Phase_none \<and> \<not> win_refreshing w' \<and> win_needs_present w' \<and> app_tracked_entities w' = app_accessed_entities w'"
  by (auto simp: draw_end_def reset_cursor_style_def set_phase_def split: if_splits)

lemma draw_done:
  assumes "draw dbg skip T E views w = Some ((), w')"
  shows "wi_draw_phase (win_invalidator w') = Phase_none \<and> \<not> win_refreshing w' \<and> win_needs_present w' \<and>
    app_tracked_entities w' = app_accessed_entities w'"
proof -
  from assms obtain v where "draw_end dbg (de_arrow E) v = Some ((), w')"
    unfolding draw_def Let_def by (auto simp: bind_eq_Some_conv simp del: split_paired_Ex)
  then show ?thesis by (rule draw_end_done)
qed

end
