(* ===== verification/Input_Events.thy ===== *)
theory Input_Events
  imports Keystroke Geometry
begin

text \<open>
  The events of \<open>src/src/interactive.rs\<close>, as the platform sends them, clicks, and how the parts of a scroll are
  put together.  Where a type of event carries data that is only passed on, it is kept as it is.
\<close>

section \<open>Mouse\<close>

datatype navigation_direction = Nav_back | Nav_forward

datatype mouse_button = Mouse_left | Mouse_right | Mouse_middle | Mouse_navigate navigation_direction

definition mouse_button_all :: "mouse_button list" where
  "mouse_button_all = [Mouse_left, Mouse_right, Mouse_middle, Mouse_navigate Nav_back, Mouse_navigate Nav_forward]"

record 'a mouse_down_event =
  md_button :: mouse_button
  md_position :: "'a point"
  md_modifiers :: modifiers
  md_click_count :: nat
  md_first_mouse :: bool

definition mouse_down_is_focusing :: "'a mouse_down_event \<Rightarrow> bool" where
  "mouse_down_is_focusing e \<longleftrightarrow> md_button e = Mouse_left"

record 'a mouse_up_event =
  mu_button :: mouse_button
  mu_position :: "'a point"
  mu_modifiers :: modifiers
  mu_click_count :: nat

definition mouse_up_is_focusing :: "'a mouse_up_event \<Rightarrow> bool" where
  "mouse_up_is_focusing e \<longleftrightarrow> mu_button e = Mouse_left"

record 'a mouse_move_event =
  mm_position :: "'a point"
  mm_pressed_button :: "mouse_button option"
  mm_modifiers :: modifiers

definition mouse_move_dragging :: "'a mouse_move_event \<Rightarrow> bool" where
  "mouse_move_dragging e \<longleftrightarrow> mm_pressed_button e = Some Mouse_left"

record 'a mouse_exit_event =
  mx_position :: "'a point"
  mx_pressed_button :: "mouse_button option"
  mx_modifiers :: modifiers

section \<open>Clicks\<close>

datatype keyboard_button = Button_enter | Button_space

datatype 'a click_event =
    Mouse_click "'a mouse_down_event" "'a mouse_up_event"
  | Keyboard_click keyboard_button "'a bounds"

fun click_modifiers :: "'a click_event \<Rightarrow> modifiers" where
  "click_modifiers (Keyboard_click _ _) = modifiers_none"
| "click_modifiers (Mouse_click _ up) = mu_modifiers up"

fun click_position :: "'a::linordered_field click_event \<Rightarrow> 'a point" where
  "click_position (Keyboard_click _ b) = Point (b_left b) (b_bottom b)"
| "click_position (Mouse_click _ up) = mu_position up"

fun click_mouse_position :: "'a click_event \<Rightarrow> 'a point option" where
  "click_mouse_position (Keyboard_click _ _) = None"
| "click_mouse_position (Mouse_click _ up) = Some (mu_position up)"

fun is_right_click :: "'a click_event \<Rightarrow> bool" where
  "is_right_click (Keyboard_click _ _) = False"
| "is_right_click (Mouse_click down up) = (md_button down = Mouse_right \<and> mu_button up = Mouse_right)"

fun standard_click :: "'a click_event \<Rightarrow> bool" where
  "standard_click (Keyboard_click _ _) = True"
| "standard_click (Mouse_click down up) = (md_button down = Mouse_left \<and> mu_button up = Mouse_left)"

fun first_focus :: "'a click_event \<Rightarrow> bool" where
  "first_focus (Keyboard_click _ _) = False"
| "first_focus (Mouse_click down _) = md_first_mouse down"

fun click_count :: "'a click_event \<Rightarrow> nat" where
  "click_count (Keyboard_click _ _) = 1"
| "click_count (Mouse_click _ up) = mu_click_count up"

fun click_is_keyboard :: "'a click_event \<Rightarrow> bool" where
  "click_is_keyboard (Mouse_click _ _) = False"
| "click_is_keyboard (Keyboard_click _ _) = True"

section \<open>Scrolling\<close>

datatype touch_phase = Touch_started | Touch_moved | Touch_ended

datatype 'a scroll_delta = Scroll_pixels "'a point" | Scroll_lines "'a point"

fun scroll_precise :: "'a scroll_delta \<Rightarrow> bool" where
  "scroll_precise (Scroll_pixels _) = True"
| "scroll_precise (Scroll_lines _) = False"

fun pixel_delta :: "'a::linordered_field scroll_delta \<Rightarrow> 'a \<Rightarrow> 'a point" where
  "pixel_delta (Scroll_pixels delta) line_height = delta"
| "pixel_delta (Scroll_lines delta) line_height = Point (line_height * pt_x delta) (line_height * pt_y delta)"

text \<open>\<open>f32::signum\<close>, which is 1 at zero.\<close>

definition signum :: "'a::linordered_field \<Rightarrow> 'a" where
  "signum x = (if x < 0 then -1 else 1)"

definition coalesce_axis :: "'a::linordered_field \<Rightarrow> 'a \<Rightarrow> 'a" where
  "coalesce_axis a b = (if signum a = signum b then a + b else b)"

fun coalesce :: "'a::linordered_field scroll_delta \<Rightarrow> 'a scroll_delta \<Rightarrow> 'a scroll_delta" where
  "coalesce (Scroll_pixels a) (Scroll_pixels b) =
     Scroll_pixels (Point (coalesce_axis (pt_x a) (pt_x b)) (coalesce_axis (pt_y a) (pt_y b)))"
| "coalesce (Scroll_lines a) (Scroll_lines b) =
     Scroll_lines (Point (coalesce_axis (pt_x a) (pt_x b)) (coalesce_axis (pt_y a) (pt_y b)))"
| "coalesce _ other = other"

record 'a scroll_wheel_event =
  sw_position :: "'a point"
  sw_delta :: "'a scroll_delta"
  sw_modifiers :: modifiers
  sw_touch_phase :: touch_phase

record 'a magnify_event =
  mg_position :: "'a point"
  mg_magnification :: 'a
  mg_modifiers :: modifiers
  mg_touch_phase :: touch_phase

section \<open>Keys and files\<close>

record key_down_event =
  kd_keystroke :: keystroke
  kd_is_held :: bool
  kd_prefer_character_input :: bool

record modifiers_changed_event =
  mc_modifiers :: modifiers
  mc_capslock :: bool

text \<open>The paths of a dropped file are passed on.\<close>

datatype ('a, 'p) file_drop_event = Drop_entered "'a point" 'p | Drop_pending "'a point" | Drop_submit "'a point" | Drop_exited

section \<open>What the platform sends\<close>

datatype ('a, 'p) platform_input =
    Key_down key_down_event
  | Key_up keystroke
  | Modifiers_changed modifiers_changed_event
  | Mouse_down "'a mouse_down_event"
  | Mouse_up "'a mouse_up_event"
  | Mouse_move "'a mouse_move_event"
  | Mouse_exited "'a mouse_exit_event"
  | Scroll_wheel "'a scroll_wheel_event"
  | Magnify "'a magnify_event"
  | File_drop "('a, 'p) file_drop_event"

text \<open>\<open>mouse_event\<close> and \<open>keyboard_event\<close> give the event as \<open>dyn Any\<close>: the event with its type, so itself.\<close>

definition mouse_event :: "('a, 'p) platform_input \<Rightarrow> ('a, 'p) platform_input option" where
  "mouse_event e = (case e of Key_down _ \<Rightarrow> None | Key_up _ \<Rightarrow> None | Modifiers_changed _ \<Rightarrow> None | _ \<Rightarrow> Some e)"

definition keyboard_event :: "('a, 'p) platform_input \<Rightarrow> ('a, 'p) platform_input option" where
  "keyboard_event e = (case e of Key_down _ \<Rightarrow> Some e | Key_up _ \<Rightarrow> Some e | Modifiers_changed _ \<Rightarrow> Some e | _ \<Rightarrow> None)"

text \<open>Every event is for the mouse or for the keyboard, and for one of them only.\<close>

lemma mouse_or_keyboard: "mouse_event e = Some e \<longleftrightarrow> keyboard_event e = None" "mouse_event e = None \<longleftrightarrow> keyboard_event e = Some e"
  by (cases e; simp add: mouse_event_def keyboard_event_def)+

text \<open>
  A part of a scroll that goes on in the direction of the last ones is added to them, and one that turns round
  replaces them: what is left is the sum of the last parts in one direction, and goes where the last part went.
\<close>

lemma signum_add: "signum a = signum b \<Longrightarrow> signum (a + b) = signum b"
  by (auto simp: signum_def split: if_splits)

lemma signum_coalesce: "signum (coalesce_axis a b) = signum b"
  by (simp add: coalesce_axis_def signum_add)

definition last_run :: "'a::linordered_field list \<Rightarrow> 'a list" where
  "last_run xs = rev (takeWhile (\<lambda>x. signum x = signum (last xs)) (rev xs))"

lemma coalesce_run:
  assumes "xs \<noteq> []"
  shows "fold (\<lambda>b a. coalesce_axis a b) (tl xs) (hd xs) = sum_list (last_run xs) \<and>
    signum (fold (\<lambda>b a. coalesce_axis a b) (tl xs) (hd xs)) = signum (last xs)"
  using assms
proof (induction xs rule: rev_induct)
  case (snoc b xs)
  show ?case
  proof (cases "xs = []")
    case True
    then show ?thesis by (simp add: last_run_def)
  next
    case False
    then have f: "fold (\<lambda>b a. coalesce_axis a b) (tl (xs @ [b])) (hd (xs @ [b])) = coalesce_axis (sum_list (last_run xs)) b"
      using snoc.IH by simp
    have s: "signum (sum_list (last_run xs)) = signum (last xs)" using snoc.IH [OF False] by metis
    show ?thesis
    proof (cases "signum (last xs) = signum b")
      case True
      then have "last_run (xs @ [b]) = last_run xs @ [b]" using False by (simp add: last_run_def)
      then show ?thesis unfolding f using s True by (simp add: coalesce_axis_def signum_add)
    next
      case turned: False
      from False obtain ys y where "xs = ys @ [y]" by (metis append_butlast_last_id)
      with turned have "last_run (xs @ [b]) = [b]" by (auto simp: last_run_def)
      then show ?thesis unfolding f using s turned by (simp add: coalesce_axis_def)
    qed
  qed
qed simp

end
