(* ===== verification/Inspector.thy ===== *)
theory Inspector
  imports Hit_Test Input_Events
begin

text \<open>
  The state of the inspector, from \<open>src/src/inspector.rs\<close>, and the element it picks under the mouse, from \<open>src/src/window.rs\<close>.  Paths of
  elements are numbers, as they are only compared.  The states that elements register with the inspector, and what it shows, are left out.
\<close>

record inspector_element_id =
  iei_path :: nat
  iei_instance_id :: nat

record 'a inspector =
  ins_active_element :: "inspector_element_id option"
  ins_pick_depth :: "'a option"

definition inspector_new :: "'a::zero inspector" where
  "inspector_new = \<lparr>ins_active_element = None, ins_pick_depth = Some 0\<rparr>"

definition is_picking :: "'a inspector \<Rightarrow> bool" where
  "is_picking i = (ins_pick_depth i \<noteq> None)"

definition start_picking :: "'a::zero inspector \<Rightarrow> 'a inspector" where
  "start_picking i = i\<lparr>ins_pick_depth := Some 0\<rparr>"

text \<open>Each operation tells whether another element is active now; the window is then drawn again.\<close>

definition set_active_element_id :: "inspector_element_id \<Rightarrow> 'a inspector \<Rightarrow> bool \<times> 'a inspector" where
  "set_active_element_id x i = (let changed = ins_active_element i \<noteq> Some x in
     (changed, if changed then i\<lparr>ins_active_element := Some x\<rparr> else i))"

definition inspector_select :: "inspector_element_id \<Rightarrow> 'a inspector \<Rightarrow> bool \<times> 'a inspector" where
  "inspector_select x i = (let (changed, i) = set_active_element_id x i in (changed, i\<lparr>ins_pick_depth := None\<rparr>))"

definition inspector_hover :: "inspector_element_id \<Rightarrow> 'a::zero inspector \<Rightarrow> bool \<times> 'a inspector" where
  "inspector_hover x i = (if is_picking i then
     let (changed, i) = set_active_element_id x i in (changed, if changed then i\<lparr>ins_pick_depth := Some 0\<rparr> else i)
   else (False, i))"

text \<open>The element under the mouse, as many elements below the topmost one as the depth tells.\<close>

definition hovered_inspector_hitbox :: "'a::floor_ceiling inspector \<Rightarrow> 64 word list \<Rightarrow>
    (64 word \<Rightarrow> inspector_element_id option) \<Rightarrow> (64 word \<times> inspector_element_id) option" where
  "hovered_inspector_hitbox i ids hitboxes = (case ins_pick_depth i of None \<Rightarrow> None
   | Some depth \<Rightarrow> let skip_count = min (nat \<lfloor>depth\<rfloor>) (length ids - 1) in
       Option.bind (List.find (\<lambda>h. hitboxes h \<noteq> None) (drop skip_count ids)) (\<lambda>h. map_option (Pair h) (hitboxes h)))"

text \<open>A turn of the wheel changes the depth.  There is none to change if the inspector does not pick.\<close>

definition scroll_pick_depth :: "'a::linordered_field scroll_delta \<Rightarrow> nat \<Rightarrow> 'a inspector \<Rightarrow> 'a inspector option" where
  "scroll_pick_depth delta hit i = map_option (\<lambda>depth.
     let depth = depth + pt_y (pixel_delta delta (36 / 3)) / 36; max_depth = of_nat hit - 1 / 2 in
     i\<lparr>ins_pick_depth := Some (if depth < 0 then 0 else if depth > max_depth then max_depth else depth)\<rparr>) (ins_pick_depth i)"

text \<open>What the inspector picks is an element whose hitbox is under the mouse.\<close>

lemma find_someD: "List.find P xs = Some x \<Longrightarrow> x \<in> set xs \<and> P x"
  by (auto simp: find_Some_iff)

lemma hovered_is_hit: "hovered_inspector_hitbox i ids hitboxes = Some (h, x) \<Longrightarrow> h \<in> set ids \<and> hitboxes h = Some x"
  by (auto simp: hovered_inspector_hitbox_def bind_eq_Some_conv Let_def split: option.splits dest!: find_someD dest: in_set_dropD)

lemma select_ends_picking: "\<not> is_picking (snd (inspector_select x i))" "ins_active_element (snd (inspector_select x i)) = Some x"
  by (simp_all add: inspector_select_def set_active_element_id_def is_picking_def Let_def)

end
