(* ===== verification/Event_Dispatch.thy ===== *)
theory Event_Dispatch
  imports Window_Draw Key_Dispatch Inspector
begin

text \<open>
  Dispatching the events of the platform, from \<open>src/src/window.rs\<close>: the listeners for the mouse and for keys, the
  actions that key bindings stand for, and keystrokes that wait for the rest of a binding.  What listeners
  do is a parameter; they are computations on the window, and stop an event by lowering the flag of the
  application.  While the inspector picks an element it takes the events of the mouse.  A timer is only noted as running.
\<close>

section \<open>State\<close>

datatype dispatch_phase = Bubble | Capture

datatype input_modality = By_mouse | By_keyboard

record pending_input =
  pi_keystrokes :: "keystroke list"
  pi_focus :: "nat option"
  pi_timer :: bool
  pi_needs_timeout :: bool

definition pending_input_default :: pending_input where
  "pending_input_default = \<lparr>pi_keystrokes = [], pi_focus = None, pi_timer = False, pi_needs_timeout = False\<rparr>"

record modifier_state =
  mo_modifiers :: modifiers
  mo_saw_keystroke :: bool

record ('a, 'f, 'i, 'l, 't, 'u, 'v, 'x) input_window = "('a, 'f, 'i, 'l, 't, 'u, 'v, 'x) drawn_window" +
  win_modifiers :: modifiers
  win_capslock :: bool
  win_default_prevented :: bool
  win_last_input_modality :: input_modality
  win_pending_input :: "pending_input option"
  win_pending_modifier :: modifier_state
  win_request_frame_immediately :: bool
  win_frames_requested :: nat
  app_propagate_event :: bool
  app_global_action_listeners :: "string \<Rightarrow> 'l list option"
  app_keymap :: keymap
  app_activations :: nat
  win_inspector :: "'a inspector option"
  win_inspector_hitboxes :: "64 word \<Rightarrow> inspector_element_id option"

text \<open>
  \<open>win_inspector_hitboxes\<close> is the map of that name of the frame on the screen.  In a program built without the inspector there is
  none: \<open>win_inspector\<close> is \<^const>\<open>None\<close>.
\<close>

text \<open>
  What listeners do: the first argument is their code.  \<open>ih_observe\<close>, \<open>ih_intercept\<close> and \<open>ih_pending_changed\<close> run
  the subscribers to keystrokes and to changes of pending input; \<open>ih_paths_view\<close> makes an entity of dropped paths and
  tells its view and value, and \<open>ih_draw\<close> draws the window.
\<close>

record ('w, 'l, 'a, 'p, 'x) input_handlers =
  ih_mouse :: "'l \<Rightarrow> ('a, 'p) platform_input \<Rightarrow> dispatch_phase \<Rightarrow> ('w, unit) comp"
  ih_key :: "'l \<Rightarrow> ('a, 'p) platform_input \<Rightarrow> dispatch_phase \<Rightarrow> ('w, unit) comp"
  ih_modifiers_changed :: "'l \<Rightarrow> modifiers_changed_event \<Rightarrow> ('w, unit) comp"
  ih_action :: "'l \<Rightarrow> action \<Rightarrow> dispatch_phase \<Rightarrow> ('w, unit) comp"
  ih_global_action :: "'l \<Rightarrow> action \<Rightarrow> dispatch_phase \<Rightarrow> ('w, unit) comp"
  ih_observe :: "keystroke \<Rightarrow> action option \<Rightarrow> key_context list \<Rightarrow> ('w, unit) comp"
  ih_intercept :: "keystroke \<Rightarrow> key_context list \<Rightarrow> ('w, unit) comp"
  ih_pending_changed :: "('w, unit) comp"
  ih_accepts_text :: "'l \<Rightarrow> ('w, bool) comp"
  ih_dispatch_input :: "'l \<Rightarrow> string \<Rightarrow> ('w, unit) comp"
  ih_paths_view :: "'p \<Rightarrow> ('w, 'l \<times> 'l) comp"
  ih_draw :: "('w, unit) comp"
  ih_arrow :: 'x

section \<open>Running listeners\<close>

text \<open>A loop over listeners that ends when one stops the event; the result tells whether none did.\<close>

fun each_listener :: "('l \<Rightarrow> (('a, 'f, 'i, 'm, 't, 'u, 'v, 'x, 'z) input_window_scheme, unit) comp) \<Rightarrow> 'l list \<Rightarrow>
    (('a, 'f, 'i, 'm, 't, 'u, 'v, 'x, 'z) input_window_scheme, bool) comp" where
  "each_listener f [] w = Some (True, w)"
| "each_listener f (l # ls) w = do { (_, w) \<leftarrow> f l w; if app_propagate_event w then each_listener f ls w else Some (False, w) }"

text \<open>A loop over the nodes of a path, which are read from the tree on the screen one by one.\<close>

fun each_path_node :: "('l dispatch_node \<Rightarrow> (('a, 'f, 'i, 'l, 't, 'u, 'v, 'x, 'z) window_scheme, bool) comp) \<Rightarrow> nat list \<Rightarrow>
    (('a, 'f, 'i, 'l, 't, 'u, 'v, 'x, 'z) window_scheme, bool) comp" where
  "each_path_node f [] w = Some (True, w)"
| "each_path_node f (i # is) w = (let nodes = dt_nodes (fra_dispatch_tree (win_rendered_frame w)) in
     if i < length nodes then do { (go_on, w) \<leftarrow> f (nodes ! i) w; if go_on then each_path_node f is w else Some (False, w) } else None)"

definition rendered_frame_update :: "(('a, 'i, 'l, 't, 'u, 'v, 'x) frame \<Rightarrow> ('a, 'i, 'l, 't, 'u, 'v, 'x) frame) \<Rightarrow>
    ('a, 'f, 'i, 'l, 't, 'u, 'v, 'x, 'z) window_scheme \<Rightarrow> ('a, 'f, 'i, 'l, 't, 'u, 'v, 'x, 'z) window_scheme" where
  "rendered_frame_update g w = w\<lparr>win_rendered_frame := g (win_rendered_frame w)\<rparr>"

text \<open>\<open>Window::refresh\<close>.\<close>

definition refresh_window :: "('a, 'f, 'i, 'l, 't, 'u, 'v, 'x, 'z) input_window_scheme \<Rightarrow> ('a, 'f, 'i, 'l, 't, 'u, 'v, 'x, 'z) input_window_scheme" where
  "refresh_window w = (if not_drawing (win_invalidator w) then
     let w = w\<lparr>win_refreshing := True, win_invalidator := set_dirty True (win_invalidator w)\<rparr> in
     if win_request_frame_immediately w then w\<lparr>win_frames_requested := Suc (win_frames_requested w)\<rparr> else w
   else w)"

section \<open>The inspector\<close>

definition is_inspector_picking :: "('a, 'f, 'i, 'l, 't, 'u, 'v, 'x, 'z) input_window_scheme \<Rightarrow> bool" where
  "is_inspector_picking w = (case win_inspector w of Some i \<Rightarrow> is_picking i | None \<Rightarrow> False)"

definition toggle_inspector :: "('a::zero, 'f, 'i, 'l, 't, 'u, 'v, 'x, 'z) input_window_scheme \<Rightarrow> ('a, 'f, 'i, 'l, 't, 'u, 'v, 'x, 'z) input_window_scheme" where
  "toggle_inspector w = refresh_window (w\<lparr>win_inspector := (case win_inspector w of None \<Rightarrow> Some inspector_new | Some _ \<Rightarrow> None)\<rparr>)"

text \<open>The inspector after a step of its own, and the window, which is drawn again if another element is active.\<close>

definition inspector_step :: "('a inspector \<Rightarrow> bool \<times> 'a inspector) \<Rightarrow> 'a inspector \<Rightarrow> ('a, 'f, 'i, 'l, 't, 'u, 'v, 'x, 'z) input_window_scheme \<Rightarrow>
    ('a, 'f, 'i, 'l, 't, 'u, 'v, 'x, 'z) input_window_scheme" where
  "inspector_step f i w = (let (changed, i) = f i; w = w\<lparr>win_inspector := Some i\<rparr> in if changed then refresh_window w else w)"

definition hovered_in_window :: "'a::floor_ceiling inspector \<Rightarrow> ('a, 'f, 'i, 'l, 't, 'u, 'v, 'x, 'z) input_window_scheme \<Rightarrow> inspector_element_id option" where
  "hovered_in_window i w = map_option snd (hovered_inspector_hitbox i (ht_ids (win_mouse_hit_test w)) (win_inspector_hitboxes w))"

definition handle_inspector_mouse_event :: "('a::floor_ceiling, 'p) platform_input \<Rightarrow> ('a, 'f, 'i, 'l, 't, 'u, 'v, 'x, 'z) input_window_scheme \<Rightarrow>
    ('a, 'f, 'i, 'l, 't, 'u, 'v, 'x, 'z) input_window_scheme" where
  "handle_inspector_mouse_event e w = (case win_inspector w of None \<Rightarrow> w | Some i \<Rightarrow> (case e of
       Mouse_move _ \<Rightarrow> (case hovered_in_window i w of Some x \<Rightarrow> inspector_step (inspector_hover x) i w | None \<Rightarrow> w)
     | Mouse_down _ \<Rightarrow> (case hovered_in_window i w of Some x \<Rightarrow> inspector_step (inspector_select x) i w | None \<Rightarrow> w)
     | Scroll_wheel m \<Rightarrow> (case scroll_pick_depth (sw_delta m) (length (ht_ids (win_mouse_hit_test w))) i of
           None \<Rightarrow> w
         | Some i \<Rightarrow> inspector_step (case hovered_in_window i w of Some x \<Rightarrow> set_active_element_id x | None \<Rightarrow> (\<lambda>i. (False, i))) i w)
     | _ \<Rightarrow> w))"

section \<open>The mouse\<close>

definition call_mouse_listener ::
  "(('a, 'f, 'i, 'l, 't, 'u, 'v, 'x, 'z) input_window_scheme, 'l, 'a, 'p, 'x) input_handlers \<Rightarrow> ('a, 'p) platform_input \<Rightarrow> dispatch_phase \<Rightarrow>
   'l option \<Rightarrow> (('a, 'f, 'i, 'l, 't, 'u, 'v, 'x, 'z) input_window_scheme, unit) comp" where
  "call_mouse_listener H e phase l w = do { l \<leftarrow> l; ih_mouse H l e phase w }"

definition update_hit_test :: "'x \<Rightarrow> ('a::linordered_field, 'f, 'i, 'l, 't, 'u, 'v, 'x, 'z) drawn_window_scheme \<Rightarrow>
    ('a, 'f, 'i, 'l, 't, 'u, 'v, 'x, 'z) drawn_window_scheme" where
  "update_hit_test arrow w = (let t = hit_test (win_mouse_position w) (fra_hitboxes (win_rendered_frame w)) in
     if t \<noteq> win_mouse_hit_test w then reset_cursor_style arrow (w\<lparr>win_mouse_hit_test := t\<rparr>) else w)"

text \<open>What happens to a drag after the event: it follows the mouse, or ends.\<close>

definition drag_after :: "('a, 'p) platform_input \<Rightarrow> ('a, 'f, 'i, 'l, 't, 'u, 'v, 'x, 'z) input_window_scheme \<Rightarrow>
    ('a, 'f, 'i, 'l, 't, 'u, 'v, 'x, 'z) input_window_scheme" where
  "drag_after e w = (if app_active_drag w \<noteq> None then (case e of
       Mouse_move _ \<Rightarrow> refresh_window w
     | Mouse_up _ \<Rightarrow> refresh_window (w\<lparr>app_active_drag := None\<rparr>)
     | _ \<Rightarrow> w) else w)"

definition dispatch_mouse_event ::
  "(('a::floor_ceiling, 'f, 'i, 'l, 't, 'u, 'v, 'x, 'z) input_window_scheme, 'l, 'a, 'p, 'x) input_handlers \<Rightarrow> ('a, 'p) platform_input \<Rightarrow>
   (('a, 'f, 'i, 'l, 't, 'u, 'v, 'x, 'z) input_window_scheme, unit) comp" where
  "dispatch_mouse_event H e w =
     (let w = update_hit_test (ih_arrow H) w in
      if is_inspector_picking w then Some ((), handle_inspector_mouse_event e w) else
      let listeners = fra_mouse_listeners (win_rendered_frame w) in do {
      (_, w) \<leftarrow> each_listener (call_mouse_listener H e Capture) listeners (rendered_frame_update (\<lambda>fr. fr\<lparr>fra_mouse_listeners := []\<rparr>) w);
      (_, w) \<leftarrow> (if app_propagate_event w then each_listener (call_mouse_listener H e Bubble) (rev listeners) w else Some (False, w));
      Some ((), drag_after e (rendered_frame_update (\<lambda>fr. fr\<lparr>fra_mouse_listeners := listeners\<rparr>) w)) })"

section \<open>Actions\<close>

definition focus_node_id_in_rendered_frame :: "('a, 'f, 'i, 'l, 't, 'u, 'v, 'x, 'z) window_scheme \<Rightarrow> nat" where
  "focus_node_id_in_rendered_frame w =
     (case Option.bind (win_focus w) (focusable_node_id (fra_dispatch_tree (win_rendered_frame w))) of Some i \<Rightarrow> i | None \<Rightarrow> 0)"

definition rendered_path :: "nat \<Rightarrow> ('a, 'f, 'i, 'l, 't, 'u, 'v, 'x, 'z) window_scheme \<Rightarrow> nat list option" where
  "rendered_path node w = dispatch_path (fra_dispatch_tree (win_rendered_frame w)) node"

text \<open>\<open>Window::context_stack\<close>.\<close>

definition window_context_stack :: "('a, 'f, 'i, 'l, 't, 'u, 'v, 'x, 'z) window_scheme \<Rightarrow> key_context list option" where
  "window_context_stack w = do { path \<leftarrow> rendered_path (focus_node_id_in_rendered_frame w) w;
     path_contexts (fra_dispatch_tree (win_rendered_frame w)) path }"

text \<open>The global listeners are taken out while they run, and those that came meanwhile are put after them.\<close>

definition call_global_listeners ::
  "(('a, 'f, 'i, 'l, 't, 'u, 'v, 'x, 'z) input_window_scheme, 'l, 'a, 'p, 'x) input_handlers \<Rightarrow> action \<Rightarrow>
   ('l list \<Rightarrow> (('a, 'f, 'i, 'l, 't, 'u, 'v, 'x, 'z) input_window_scheme, bool) comp) \<Rightarrow>
   (('a, 'f, 'i, 'l, 't, 'u, 'v, 'x, 'z) input_window_scheme, unit) comp" where
  "call_global_listeners H a run w = (case app_global_action_listeners w (act_type a) of
     None \<Rightarrow> Some ((), w)
   | Some listeners \<Rightarrow> do {
       (_, w) \<leftarrow> run listeners (w\<lparr>app_global_action_listeners := (app_global_action_listeners w)(act_type a := None)\<rparr>);
       let added = (case app_global_action_listeners w (act_type a) of None \<Rightarrow> [] | Some added \<Rightarrow> added) in
       Some ((), w\<lparr>app_global_action_listeners := (app_global_action_listeners w)(act_type a \<mapsto> listeners @ added)\<rparr>) })"

definition action_listeners :: "action \<Rightarrow> 'l dispatch_node \<Rightarrow> 'l list" where
  "action_listeners a node = map snd (filter (\<lambda>(ty, _). ty = act_type a) (dn_action_listeners node))"

text \<open>In the bubble phase an action stops by default.\<close>

definition stopping :: "('l \<Rightarrow> (('a, 'f, 'i, 'm, 't, 'u, 'v, 'x, 'z) input_window_scheme, unit) comp) \<Rightarrow> 'l \<Rightarrow>
    (('a, 'f, 'i, 'm, 't, 'u, 'v, 'x, 'z) input_window_scheme, unit) comp" where
  "stopping f l w = f l (w\<lparr>app_propagate_event := False\<rparr>)"

definition dispatch_action_on_node ::
  "(('a, 'f, 'i, 'l, 't, 'u, 'v, 'x, 'z) input_window_scheme, 'l, 'a, 'p, 'x) input_handlers \<Rightarrow> nat \<Rightarrow> action \<Rightarrow>
   (('a, 'f, 'i, 'l, 't, 'u, 'v, 'x, 'z) input_window_scheme, unit) comp" where
  "dispatch_action_on_node H node a w = do {
     path \<leftarrow> rendered_path node w;
     (_, w) \<leftarrow> call_global_listeners H a (each_listener (\<lambda>l. ih_global_action H l a Capture)) (w\<lparr>app_propagate_event := True\<rparr>);
     if \<not> app_propagate_event w then Some ((), w) else do {
     (go_on, w) \<leftarrow> each_path_node (\<lambda>n. each_listener (\<lambda>l. ih_action H l a Capture) (action_listeners a n)) path w;
     if \<not> go_on then Some ((), w) else do {
     (go_on, w) \<leftarrow> each_path_node (\<lambda>n. each_listener (stopping (\<lambda>l. ih_action H l a Bubble)) (action_listeners a n)) (rev path) w;
     if \<not> go_on then Some ((), w) else
       call_global_listeners H a (\<lambda>ls. each_listener (stopping (\<lambda>l. ih_global_action H l a Bubble)) (rev ls)) w } } }"

text \<open>The deferred part of \<open>Window::dispatch_action\<close>, for the element that was focused when it was called.\<close>

definition dispatch_action_deferred ::
  "(('a, 'f, 'i, 'l, 't, 'u, 'v, 'x, 'z) input_window_scheme, 'l, 'a, 'p, 'x) input_handlers \<Rightarrow> nat option \<Rightarrow> action \<Rightarrow>
   (('a, 'f, 'i, 'l, 't, 'u, 'v, 'x, 'z) input_window_scheme, unit) comp" where
  "dispatch_action_deferred H focus_id a w =
     dispatch_action_on_node H (focus_node_id_in_rendered_frame (w\<lparr>win_focus := focus_id\<rparr>)) a w"

section \<open>Keys\<close>

text \<open>Observers and interceptors hear of presses only.\<close>

definition dispatch_keystroke_observers ::
  "(('a, 'f, 'i, 'l, 't, 'u, 'v, 'x, 'z) input_window_scheme, 'l, 'a, 'p, 'x) input_handlers \<Rightarrow> ('a, 'p) platform_input \<Rightarrow> action option \<Rightarrow>
   key_context list \<Rightarrow> (('a, 'f, 'i, 'l, 't, 'u, 'v, 'x, 'z) input_window_scheme, unit) comp" where
  "dispatch_keystroke_observers H e a contexts w = (case e of Key_down k \<Rightarrow> ih_observe H (kd_keystroke k) a contexts w | _ \<Rightarrow> Some ((), w))"

definition dispatch_keystroke_interceptors ::
  "(('a, 'f, 'i, 'l, 't, 'u, 'v, 'x, 'z) input_window_scheme, 'l, 'a, 'p, 'x) input_handlers \<Rightarrow> ('a, 'p) platform_input \<Rightarrow>
   key_context list \<Rightarrow> (('a, 'f, 'i, 'l, 't, 'u, 'v, 'x, 'z) input_window_scheme, unit) comp" where
  "dispatch_keystroke_interceptors H e contexts w = (case e of Key_down k \<Rightarrow> ih_intercept H (kd_keystroke k) contexts w | _ \<Rightarrow> Some ((), w))"

definition dispatch_key_down_up_event ::
  "(('a, 'f, 'i, 'l, 't, 'u, 'v, 'x, 'z) input_window_scheme, 'l, 'a, 'p, 'x) input_handlers \<Rightarrow> ('a, 'p) platform_input \<Rightarrow> nat list \<Rightarrow>
   (('a, 'f, 'i, 'l, 't, 'u, 'v, 'x, 'z) input_window_scheme, unit) comp" where
  "dispatch_key_down_up_event H e path w = do {
     (go_on, w) \<leftarrow> each_path_node (\<lambda>n. each_listener (\<lambda>l. ih_key H l e Capture) (dn_key_listeners n)) path w;
     if \<not> go_on then Some ((), w) else do {
     (_, w) \<leftarrow> each_path_node (\<lambda>n. each_listener (\<lambda>l. ih_key H l e Bubble) (dn_key_listeners n)) (rev path) w;
     Some ((), w) } }"

definition dispatch_modifiers_changed_event ::
  "(('a, 'f, 'i, 'l, 't, 'u, 'v, 'x, 'z) input_window_scheme, 'l, 'a, 'p, 'x) input_handlers \<Rightarrow> ('a, 'p) platform_input \<Rightarrow> nat list \<Rightarrow>
   (('a, 'f, 'i, 'l, 't, 'u, 'v, 'x, 'z) input_window_scheme, unit) comp" where
  "dispatch_modifiers_changed_event H e path w = (case e of
     Modifiers_changed m \<Rightarrow> do {
       (_, w) \<leftarrow> each_path_node (\<lambda>n. each_listener (\<lambda>l. ih_modifiers_changed H l m) (dn_modifiers_changed_listeners n)) (rev path) w;
       Some ((), w) }
   | _ \<Rightarrow> Some ((), w))"

definition finish_dispatch_key_event ::
  "(('a, 'f, 'i, 'l, 't, 'u, 'v, 'x, 'z) input_window_scheme, 'l, 'a, 'p, 'x) input_handlers \<Rightarrow> ('a, 'p) platform_input \<Rightarrow> nat list \<Rightarrow>
   key_context list \<Rightarrow> (('a, 'f, 'i, 'l, 't, 'u, 'v, 'x, 'z) input_window_scheme, unit) comp" where
  "finish_dispatch_key_event H e path contexts w = do {
     (_, w) \<leftarrow> dispatch_key_down_up_event H e path w;
     if \<not> app_propagate_event w then Some ((), w) else do {
     (_, w) \<leftarrow> dispatch_modifiers_changed_event H e path w;
     if \<not> app_propagate_event w then Some ((), w) else dispatch_keystroke_observers H e None contexts w } }"

text \<open>The loop over the actions of bindings, until one is handled.\<close>

fun dispatch_bindings ::
  "(('a, 'f, 'i, 'l, 't, 'u, 'v, 'x, 'z) input_window_scheme, 'l, 'a, 'p, 'x) input_handlers \<Rightarrow> nat \<Rightarrow> ('a, 'p) platform_input \<Rightarrow>
   key_context list \<Rightarrow> key_binding list \<Rightarrow> (('a, 'f, 'i, 'l, 't, 'u, 'v, 'x, 'z) input_window_scheme, bool) comp" where
  "dispatch_bindings H node e contexts [] w = Some (False, w)"
| "dispatch_bindings H node e contexts (b # bs) w = do {
     (_, w) \<leftarrow> dispatch_action_on_node H node (kbd_action b) w;
     if \<not> app_propagate_event w then do {
       (_, w) \<leftarrow> dispatch_keystroke_observers H e (Some (kbd_action b)) contexts w; Some (True, w) }
     else dispatch_bindings H node e contexts bs w }"

text \<open>The input handler of the platform is taken out while it is used.\<close>

definition with_input_handler :: "'r \<Rightarrow> ('l \<Rightarrow> (('a, 'f, 'i, 'l, 't, 'u, 'v, 'x, 'z) window_scheme, 'r) comp) \<Rightarrow>
    (('a, 'f, 'i, 'l, 't, 'u, 'v, 'x, 'z) window_scheme, 'r) comp" where
  "with_input_handler r f w = (case win_platform_input_handler w of
     None \<Rightarrow> Some (r, w)
   | Some h \<Rightarrow> do { (r, w) \<leftarrow> f h (w\<lparr>win_platform_input_handler := None\<rparr>); Some (r, w\<lparr>win_platform_input_handler := Some h\<rparr>) })"

definition replay_event :: "keystroke \<Rightarrow> ('a, 'p) platform_input" where
  "replay_event k = Key_down \<lparr>kd_keystroke = k, kd_is_held = False, kd_prefer_character_input = True\<rparr>"

fun replay_each ::
  "(('a, 'f, 'i, 'l, 't, 'u, 'v, 'x, 'z) input_window_scheme, 'l, 'a, 'p, 'x) input_handlers \<Rightarrow> nat \<Rightarrow> nat list \<Rightarrow> replay list \<Rightarrow>
   (('a, 'f, 'i, 'l, 't, 'u, 'v, 'x, 'z) input_window_scheme, unit) comp" where
  "replay_each H node path [] w = Some ((), w)"
| "replay_each H node path (r # rs) w = (let e = replay_event (rp_keystroke r) in do {
     (handled, w) \<leftarrow> dispatch_bindings H node e [] (rp_bindings r) (w\<lparr>app_propagate_event := True\<rparr>);
     if handled then replay_each H node path rs w else do {
     (_, w) \<leftarrow> dispatch_key_down_up_event H e path w;
     if \<not> app_propagate_event w then replay_each H node path rs w else do {
     (_, w) \<leftarrow> (case ks_key_char (rp_keystroke r) of None \<Rightarrow> Some ((), w) | Some input \<Rightarrow> with_input_handler () (\<lambda>h. ih_dispatch_input H h input) w);
     replay_each H node path rs w } } })"

definition replay_pending_input ::
  "(('a, 'f, 'i, 'l, 't, 'u, 'v, 'x, 'z) input_window_scheme, 'l, 'a, 'p, 'x) input_handlers \<Rightarrow> replay list \<Rightarrow>
   (('a, 'f, 'i, 'l, 't, 'u, 'v, 'x, 'z) input_window_scheme, unit) comp" where
  "replay_pending_input H to_replay w = (let node = focus_node_id_in_rendered_frame w in do {
     path \<leftarrow> rendered_path node w; replay_each H node path to_replay w })"

text \<open>A modifier that was pressed and released alone counts as a keystroke.\<close>

definition lone_modifier_key :: "modifiers \<Rightarrow> string option" where
  "lone_modifier_key m = (if m_shift m then Some ''shift'' else if m_control m then Some ''control'' else if m_alt m then Some ''alt''
     else if m_platform m then Some ''platform'' else if m_function m then Some ''function'' else None)"

definition keystroke_of_event :: "('a, 'p) platform_input \<Rightarrow> modifier_state \<Rightarrow> keystroke option \<times> modifier_state" where
  "keystroke_of_event e pending = (case e of
     Modifiers_changed m \<Rightarrow>
       (if number_of_modifiers (mc_modifiers m) = 0 \<and> number_of_modifiers (mo_modifiers pending) = 1 \<and> \<not> mo_saw_keystroke pending
          then map_option (\<lambda>key. \<lparr>ks_modifiers = modifiers_none, ks_key = key, ks_key_char = None\<rparr>) (lone_modifier_key (mo_modifiers pending))
          else None,
        \<lparr>mo_modifiers = mc_modifiers m,
         mo_saw_keystroke = (if number_of_modifiers (mo_modifiers pending) = 0 \<and> number_of_modifiers (mc_modifiers m) = 1
           then False else mo_saw_keystroke pending)\<rparr>)
   | Key_down k \<Rightarrow> (Some (kd_keystroke k), pending\<lparr>mo_saw_keystroke := True\<rparr>)
   | _ \<Rightarrow> (None, pending))"

definition key_down_of :: "('a, 'p) platform_input \<Rightarrow> key_down_event option" where
  "key_down_of e = (case e of Key_down k \<Rightarrow> Some k | _ \<Rightarrow> None)"

text \<open>What follows the lookup of a keystroke among the bindings, if the keystrokes wait for more, and if they do not.\<close>

definition keep_pending ::
  "(('a, 'f, 'i, 'l, 't, 'u, 'v, 'x, 'z) input_window_scheme, 'l, 'a, 'p, 'x) input_handlers \<Rightarrow> ('a, 'p) platform_input \<Rightarrow> pending_input \<Rightarrow>
   dispatch_result \<Rightarrow> (('a, 'f, 'i, 'l, 't, 'u, 'v, 'x, 'z) input_window_scheme, unit) comp" where
  "keep_pending H e currently result w =
     (let focus = win_focus w; requires = (case key_down_of e of Some k \<Rightarrow> ks_key_char (kd_keystroke k) \<noteq> None | None \<Rightarrow> False) in do {
      (accepts, w) \<leftarrow> (if requires then with_input_handler False (ih_accepts_text H) w else Some (False, w));
      let needs_timeout = (pi_needs_timeout currently \<or> dr_pending_has_binding result \<or> accepts) in do {
      (_, w) \<leftarrow> ih_pending_changed H (w\<lparr>win_pending_input := Some \<lparr>pi_keystrokes = dr_pending result, pi_focus = focus,
        pi_timer = needs_timeout, pi_needs_timeout = needs_timeout\<rparr>\<rparr>);
      Some ((), w\<lparr>app_propagate_event := False\<rparr>) } })"

definition dispatch_matched ::
  "(('a, 'f, 'i, 'l, 't, 'u, 'v, 'x, 'z) input_window_scheme, 'l, 'a, 'p, 'x) input_handlers \<Rightarrow> ('a, 'p) platform_input \<Rightarrow> nat \<Rightarrow> nat list \<Rightarrow>
   dispatch_result \<Rightarrow> (('a, 'f, 'i, 'l, 't, 'u, 'v, 'x, 'z) input_window_scheme, unit) comp" where
  "dispatch_matched H e node path result w = do {
     (skip_bindings, w) \<leftarrow> (case key_down_of e of
         Some k \<Rightarrow> if kd_prefer_character_input k then with_input_handler False (ih_accepts_text H) w else Some (False, w)
       | None \<Rightarrow> Some (False, w));
     (handled, w) \<leftarrow> (if skip_bindings then Some (False, w)
       else dispatch_bindings H node e (dr_context_stack result) (dr_bindings result) w);
     (_, w) \<leftarrow> (if handled then Some ((), w) else finish_dispatch_key_event H e path (dr_context_stack result) w);
     ih_pending_changed H w }"

definition dispatch_key_event ::
  "target_os \<Rightarrow> (('a, 'f, 'i, 'l, 't, 'u, 'v, 'x, 'z) input_window_scheme, 'l, 'a, 'p, 'x) input_handlers \<Rightarrow> ('a, 'p) platform_input \<Rightarrow>
   (('a, 'f, 'i, 'l, 't, 'u, 'v, 'x, 'z) input_window_scheme, unit) comp" where
  "dispatch_key_event os H e w = do {
     (_, w) \<leftarrow> (if wi_dirty (win_invalidator w) then ih_draw H w else Some ((), w));
     let node = focus_node_id_in_rendered_frame w in do {
     path \<leftarrow> rendered_path node w;
     let (keystroke, pending_modifier) = keystroke_of_event e (win_pending_modifier w);
         w = w\<lparr>win_pending_modifier := pending_modifier\<rparr> in
     case keystroke of
       None \<Rightarrow> do { contexts \<leftarrow> window_context_stack w; finish_dispatch_key_event H e path contexts w }
     | Some k \<Rightarrow> do {
         contexts \<leftarrow> window_context_stack w;
         (_, w) \<leftarrow> dispatch_keystroke_interceptors H e contexts (w\<lparr>app_propagate_event := True\<rparr>);
         if \<not> app_propagate_event w then do { contexts \<leftarrow> window_context_stack w; finish_dispatch_key_event H e path contexts w }
         else let currently = (case win_pending_input w of Some p \<Rightarrow> p | None \<Rightarrow> pending_input_default);
                  currently = (if pi_focus currently \<noteq> None \<and> pi_focus currently \<noteq> win_focus w then pending_input_default else currently);
                  w = w\<lparr>win_pending_input := None\<rparr> in do {
           result \<leftarrow> tree_dispatch_key os (app_keymap w) (fra_dispatch_tree (win_rendered_frame w)) (pi_keystrokes currently) k path;
           (_, w) \<leftarrow> (if dr_to_replay result \<noteq> [] then do { (_, w) \<leftarrow> replay_pending_input H (dr_to_replay result) w;
             Some ((), w\<lparr>app_propagate_event := True\<rparr>) } else Some ((), w));
           if dr_pending result \<noteq> [] then keep_pending H e currently result w
           else dispatch_matched H e node path result w } } } }"

text \<open>What the timer of pending input does when it is up.\<close>

definition pending_input_timeout ::
  "target_os \<Rightarrow> (('a, 'f, 'i, 'l, 't, 'u, 'v, 'x, 'z) input_window_scheme, 'l, 'a, 'p, 'x) input_handlers \<Rightarrow>
   (('a, 'f, 'i, 'l, 't, 'u, 'v, 'x, 'z) input_window_scheme, unit) comp" where
  "pending_input_timeout os H w = (case win_pending_input w of
     None \<Rightarrow> Some ((), w)
   | Some currently \<Rightarrow> let w = w\<lparr>win_pending_input := None\<rparr> in
       if pi_focus currently \<noteq> win_focus w then Some ((), w) else do {
         path \<leftarrow> rendered_path (focus_node_id_in_rendered_frame w) w;
         to_replay \<leftarrow> tree_flush_dispatch os (app_keymap w) (fra_dispatch_tree (win_rendered_frame w)) (pi_keystrokes currently) path;
         (_, w) \<leftarrow> ih_pending_changed H w;
         replay_pending_input H to_replay w })"

section \<open>Events\<close>

definition modality_after :: "('a, 'p) platform_input \<Rightarrow> input_modality \<Rightarrow> input_modality" where
  "modality_after e m = (case e of Key_down _ \<Rightarrow> By_keyboard | Modifiers_changed _ \<Rightarrow> By_keyboard
     | Mouse_down d \<Rightarrow> if mouse_down_is_focusing d then By_mouse else m | _ \<Rightarrow> m)"

definition mouse_at :: "'a point \<Rightarrow> modifiers \<Rightarrow> ('a, 'f, 'i, 'l, 't, 'u, 'v, 'x, 'z) input_window_scheme \<Rightarrow>
    ('a, 'f, 'i, 'l, 't, 'u, 'v, 'x, 'z) input_window_scheme" where
  "mouse_at p m w = w\<lparr>win_mouse_position := p, win_modifiers := m\<rparr>"

text \<open>A file that is dragged over the window is a drag of its paths, with the left button down.\<close>

definition file_move :: "'a point \<Rightarrow> ('a, 'p) platform_input" where
  "file_move p = Mouse_move \<lparr>mm_position = p, mm_pressed_button = Some Mouse_left, mm_modifiers = modifiers_none\<rparr>"

definition track_event ::
  "(('a, 'f, 'i, 'l, 't, 'u, 'v, 'x, 'z) input_window_scheme, 'l, 'a, 'p, 'x) input_handlers \<Rightarrow> ('a, 'p) platform_input \<Rightarrow>
   (('a, 'f, 'i, 'l, 't, 'u, 'v, 'x, 'z) input_window_scheme, ('a, 'p) platform_input) comp" where
  "track_event H e w = (case e of
     Mouse_move m \<Rightarrow> Some (e, mouse_at (mm_position m) (mm_modifiers m) w)
   | Mouse_down m \<Rightarrow> Some (e, mouse_at (md_position m) (md_modifiers m) w)
   | Mouse_up m \<Rightarrow> Some (e, mouse_at (mu_position m) (mu_modifiers m) w)
   | Mouse_exited m \<Rightarrow> Some (e, w\<lparr>win_modifiers := mx_modifiers m\<rparr>)
   | Modifiers_changed m \<Rightarrow> Some (e, w\<lparr>win_modifiers := mc_modifiers m, win_capslock := mc_capslock m\<rparr>)
   | Scroll_wheel m \<Rightarrow> Some (e, mouse_at (sw_position m) (sw_modifiers m) w)
   | Magnify m \<Rightarrow> Some (e, mouse_at (mg_position m) (mg_modifiers m) w)
   | File_drop d \<Rightarrow> (case d of
       Drop_entered p paths \<Rightarrow> let w = w\<lparr>win_mouse_position := p\<rparr> in
         if app_active_drag w = None then do {
           ((view, paths_value), w) \<leftarrow> ih_paths_view H paths w;
           Some (file_move p, w\<lparr>app_active_drag := Some \<lparr>ad_view = view, ad_value = paths_value, ad_cursor_offset = p, ad_cursor_style = None\<rparr>\<rparr>) }
         else Some (file_move p, w)
     | Drop_pending p \<Rightarrow> Some (file_move p, w\<lparr>win_mouse_position := p\<rparr>)
     | Drop_submit p \<Rightarrow> Some (Mouse_up \<lparr>mu_button = Mouse_left, mu_position = p, mu_modifiers = modifiers_none, mu_click_count = 1\<rparr>,
         w\<lparr>app_activations := Suc (app_activations w), win_mouse_position := p\<rparr>)
     | Drop_exited \<Rightarrow> Some (e, w\<lparr>app_active_drag := None\<rparr>))
   | _ \<Rightarrow> Some (e, w))"

text \<open>The result tells whether the event went on and whether its default was prevented.\<close>

definition dispatch_event ::
  "target_os \<Rightarrow> (('a::floor_ceiling, 'f, 'i, 'l, 't, 'u, 'v, 'x, 'z) input_window_scheme, 'l, 'a, 'p, 'x) input_handlers \<Rightarrow> ('a, 'p) platform_input \<Rightarrow>
   (('a, 'f, 'i, 'l, 't, 'u, 'v, 'x, 'z) input_window_scheme, bool \<times> bool) comp" where
  "dispatch_event os H e w = do {
     (e, w) \<leftarrow> track_event H e (w\<lparr>win_last_input_modality := modality_after e (win_last_input_modality w), app_propagate_event := True,
       win_default_prevented := False\<rparr>);
     (_, w) \<leftarrow> (case mouse_event e of
         Some m \<Rightarrow> dispatch_mouse_event H m w
       | None \<Rightarrow> (case keyboard_event e of Some k \<Rightarrow> dispatch_key_event os H k w | None \<Rightarrow> Some ((), w)));
     Some ((app_propagate_event w, win_default_prevented w), w) }"

text \<open>A keystroke as if it was typed; the text of a key that is not handled goes to the input handler.\<close>

definition dispatch_keystroke ::
  "target_os \<Rightarrow> (('a::floor_ceiling, 'f, 'i, 'l, 't, 'u, 'v, 'x, 'z) input_window_scheme, 'l, 'a, 'p, 'x) input_handlers \<Rightarrow> keystroke \<Rightarrow>
   (('a, 'f, 'i, 'l, 't, 'u, 'v, 'x, 'z) input_window_scheme, bool) comp" where
  "dispatch_keystroke os H k w = do {
     k \<leftarrow> with_simulated_ime k;
     ((propagate, _), w) \<leftarrow> dispatch_event os H (Key_down \<lparr>kd_keystroke = k, kd_is_held = False, kd_prefer_character_input = False\<rparr>) w;
     if \<not> propagate then Some (True, w) else
       (case ks_key_char k of None \<Rightarrow> Some (False, w)
        | Some input \<Rightarrow> with_input_handler False (\<lambda>h w. do { (_, w) \<leftarrow> ih_dispatch_input H h input w; Some (True, w) }) w) }"

section \<open>Drags and mouse listeners\<close>

lemma refresh_window_simps [simp]:
  "app_active_drag (refresh_window w) = app_active_drag w" "win_rendered_frame (refresh_window w) = win_rendered_frame w"
  by (simp_all add: refresh_window_def Let_def)

lemma drag_after_listeners [simp]: "win_rendered_frame (drag_after e w) = win_rendered_frame w"
  by (simp add: drag_after_def split: platform_input.split)

lemma update_hit_test_keeps [simp]:
  "win_rendered_frame (update_hit_test x w) = win_rendered_frame w"
  "app_active_drag (update_hit_test x w) = app_active_drag w" "is_inspector_picking (update_hit_test x w) = is_inspector_picking w"
  by (simp_all add: update_hit_test_def reset_cursor_style_def is_inspector_picking_def Let_def)

lemma inspector_step_keeps [simp]:
  "app_active_drag (inspector_step f i w) = app_active_drag w" "win_rendered_frame (inspector_step f i w) = win_rendered_frame w"
  by (simp_all add: inspector_step_def split_def Let_def)

lemma inspector_keeps [simp]:
  "app_active_drag (handle_inspector_mouse_event e w) = app_active_drag w"
  "win_rendered_frame (handle_inspector_mouse_event e w) = win_rendered_frame w"
  by (simp_all add: handle_inspector_mouse_event_def split: option.split platform_input.split)

lemma mouse_up_clears_drag [simp]: "app_active_drag (drag_after (Mouse_up up) w) = None"
  by (simp add: drag_after_def)

text \<open>
  C4. Whatever listeners do, no drag outlasts the release of a mouse button or the drop of a file, unless the inspector is
  picking an element: then the inspector takes the event, and the drag goes on.
\<close>

theorem mouse_up_ends_drag:
  assumes "dispatch_event os H e w = Some (r, w')" and "(\<exists>up. e = Mouse_up up) \<or> (\<exists>p. e = File_drop (Drop_submit p))"
  shows "app_active_drag w' = (if is_inspector_picking w then app_active_drag w else None)"
proof -
  from assms obtain up w1 where "dispatch_mouse_event H (Mouse_up up) w1 = Some ((), w')"
    and "is_inspector_picking w1 = is_inspector_picking w" "app_active_drag w1 = app_active_drag w"
    by (auto simp: dispatch_event_def track_event_def mouse_event_def mouse_at_def is_inspector_picking_def bind_eq_Some_conv)
  then show ?thesis
    by (auto simp: dispatch_mouse_event_def bind_eq_Some_conv Let_def split: if_splits)
qed

text \<open>
  The mouse listeners of the frame are put back as they were, even if a listener has drawn the window in between: those
  of the new frame are then lost.
\<close>

lemma mouse_listeners_put_back:
  "dispatch_mouse_event H e w = Some ((), w') \<Longrightarrow> fra_mouse_listeners (win_rendered_frame w') = fra_mouse_listeners (win_rendered_frame w)"
  by (auto simp: dispatch_mouse_event_def bind_eq_Some_conv Let_def rendered_frame_update_def split: if_splits)

section \<open>The order of listeners\<close>

datatype 'l listener_call = Global_call 'l dispatch_phase | Node_call 'l dispatch_phase

text \<open>What a listener did with the flag of the event: set it, or left it alone; then an action goes on if it is on its way down.\<close>

fun phase_of_call :: "'l listener_call \<Rightarrow> dispatch_phase" where
  "phase_of_call (Global_call l phase) = phase"
| "phase_of_call (Node_call l phase) = phase"

fun went_on :: "'l listener_call \<times> bool option \<Rightarrow> bool" where
  "went_on (c, Some b) = b"
| "went_on (c, None) = (phase_of_call c = Capture)"

text \<open>Calls in the given order, each noted with what the listener did, up to the first that the action did not survive.\<close>

fun called_in_order :: "'l listener_call list \<Rightarrow> ('l listener_call \<times> bool option) list \<Rightarrow> bool" where
  "called_in_order [] ys = (ys = [])"
| "called_in_order (c # cs) [] = False"
| "called_in_order (c # cs) (y # ys) = (fst y = c \<and> (if went_on y then called_in_order cs ys else ys = []))"

lemma called_in_order_append: "called_in_order cs xs \<Longrightarrow> list_all went_on xs \<Longrightarrow> called_in_order ds ys \<Longrightarrow> called_in_order (cs @ ds) (xs @ ys)"
  by (induction cs xs rule: called_in_order.induct) auto

lemma called_in_order_stopped: "called_in_order cs xs \<Longrightarrow> \<not> list_all went_on xs \<Longrightarrow> called_in_order (cs @ ds) xs"
  by (induction cs xs rule: called_in_order.induct) auto

text \<open>
  A listener that returns.  It notes its call in a log, with what it does to the flag: it lets the event go on, stops it, or leaves the
  flag as it is.  It may decide by the state of the window, and change it, but not the dispatch tree and the global listeners.
\<close>

definition calls :: "('z \<Rightarrow> ('l listener_call \<times> bool option) list) \<Rightarrow> 'l listener_call \<Rightarrow>
    (('a, 'f, 'i, 'l, 't, 'u, 'v, 'x, 'z) input_window_scheme, unit) comp \<Rightarrow> bool" where
  "calls noted c f \<longleftrightarrow> (\<forall>w. \<exists>act w'. f w = Some ((), w') \<and> noted (input_window.more w') = noted (input_window.more w) @ [(c, act)] \<and>
     app_propagate_event w' = (case act of Some b \<Rightarrow> b | None \<Rightarrow> app_propagate_event w) \<and>
     fra_dispatch_tree (win_rendered_frame w') = fra_dispatch_tree (win_rendered_frame w) \<and>
     app_global_action_listeners w' = app_global_action_listeners w)"

text \<open>The same for a listener as an action calls it: the flag tells whether the action goes on.\<close>

definition hears :: "('z \<Rightarrow> ('l listener_call \<times> bool option) list) \<Rightarrow> 'l listener_call \<Rightarrow>
    (('a, 'f, 'i, 'l, 't, 'u, 'v, 'x, 'z) input_window_scheme, unit) comp \<Rightarrow> bool" where
  "hears noted c f \<longleftrightarrow> (\<forall>w. app_propagate_event w \<longrightarrow> (\<exists>act w'. f w = Some ((), w') \<and>
     noted (input_window.more w') = noted (input_window.more w) @ [(c, act)] \<and> app_propagate_event w' = went_on (c, act) \<and>
     fra_dispatch_tree (win_rendered_frame w') = fra_dispatch_tree (win_rendered_frame w) \<and>
     app_global_action_listeners w' = app_global_action_listeners w))"

lemma went_on_capture: "phase_of_call c = Capture \<Longrightarrow> went_on (c, act) = (case act of Some b \<Rightarrow> b | None \<Rightarrow> True)"
  by (cases act) simp_all

lemma went_on_bubble: "phase_of_call c = Bubble \<Longrightarrow> went_on (c, act) = (case act of Some b \<Rightarrow> b | None \<Rightarrow> False)"
  by (cases act) simp_all

lemma hears_capture:
  fixes f :: "(('a, 'f, 'i, 'l, 't, 'u, 'v, 'x, 'z) input_window_scheme, unit) comp"
  shows "calls noted c f \<Longrightarrow> phase_of_call c = Capture \<Longrightarrow> hears noted c f"
  unfolding calls_def hears_def
proof (intro allI impI)
  fix w :: "('a, 'f, 'i, 'l, 't, 'u, 'v, 'x, 'z) input_window_scheme"
  assume all: "\<forall>w. \<exists>act w'. f w = Some ((), w') \<and> noted (input_window.more w') = noted (input_window.more w) @ [(c, act)] \<and>
     app_propagate_event w' = (case act of Some b \<Rightarrow> b | None \<Rightarrow> app_propagate_event w) \<and>
     fra_dispatch_tree (win_rendered_frame w') = fra_dispatch_tree (win_rendered_frame w) \<and>
     app_global_action_listeners w' = app_global_action_listeners w" and flag: "app_propagate_event w" and phase: "phase_of_call c = Capture"
  from all [rule_format, of w]
  show "\<exists>act w'. f w = Some ((), w') \<and> noted (input_window.more w') = noted (input_window.more w) @ [(c, act)] \<and>
     app_propagate_event w' = went_on (c, act) \<and> fra_dispatch_tree (win_rendered_frame w') = fra_dispatch_tree (win_rendered_frame w) \<and>
     app_global_action_listeners w' = app_global_action_listeners w" by (simp add: went_on_capture [OF phase] flag cong: option.case_cong)
qed

lemma hears_bubble:
  assumes "calls noted c (f l)" and "phase_of_call c = Bubble"
  shows "hears noted c (stopping f l)"
  unfolding hears_def
proof (intro allI impI)
  fix w
  from assms(1) [unfolded calls_def, rule_format, of "w\<lparr>app_propagate_event := False\<rparr>"] assms(2)
  show "\<exists>act w'. stopping f l w = Some ((), w') \<and> noted (input_window.more w') = noted (input_window.more w) @ [(c, act)] \<and>
     app_propagate_event w' = went_on (c, act) \<and> fra_dispatch_tree (win_rendered_frame w') = fra_dispatch_tree (win_rendered_frame w) \<and>
     app_global_action_listeners w' = app_global_action_listeners w" by (simp add: stopping_def went_on_bubble cong: option.case_cong)
qed

definition called :: "('z \<Rightarrow> ('l listener_call \<times> bool option) list) \<Rightarrow> 'l listener_call list \<Rightarrow> bool \<Rightarrow>
    ('a, 'f, 'i, 'l, 't, 'u, 'v, 'x, 'z) input_window_scheme \<Rightarrow> ('a, 'f, 'i, 'l, 't, 'u, 'v, 'x, 'z) input_window_scheme \<Rightarrow> bool" where
  "called noted cs goes_on w w' \<longleftrightarrow> (\<exists>ys. noted (input_window.more w') = noted (input_window.more w) @ ys \<and> called_in_order cs ys \<and>
     list_all went_on ys = goes_on) \<and> app_propagate_event w' = goes_on \<and>
     fra_dispatch_tree (win_rendered_frame w') = fra_dispatch_tree (win_rendered_frame w) \<and>
     app_global_action_listeners w' = app_global_action_listeners w"

lemma called_Nil: "app_propagate_event w \<Longrightarrow> called noted [] True w w"
  by (auto simp: called_def)

lemma called_append:
  assumes "called noted cs a w w1" and "a" and "called noted ds b w1 w'"
  shows "called noted (cs @ ds) b w w'"
proof -
  from assms obtain xs ys where "noted (input_window.more w1) = noted (input_window.more w) @ xs" "called_in_order cs xs" "list_all went_on xs"
    and "noted (input_window.more w') = noted (input_window.more w1) @ ys" "called_in_order ds ys" "list_all went_on ys = b"
    by (auto simp: called_def)
  with assms show ?thesis unfolding called_def by (intro conjI exI [of _ "xs @ ys"]) (auto intro: called_in_order_append)
qed

lemma called_stopped: "called noted cs False w w' \<Longrightarrow> called noted (cs @ ds) False w w'"
  unfolding called_def using called_in_order_stopped by blast

lemma called_propagate: "called noted cs b w w' \<Longrightarrow> app_propagate_event w' = b"
  by (simp add: called_def)

lemma hears_called:
  assumes "hears noted c f" and "app_propagate_event w"
  shows "\<exists>w'. f w = Some ((), w') \<and> called noted [c] (app_propagate_event w') w w'"
proof -
  from assms obtain act w' where w': "f w = Some ((), w')" "noted (input_window.more w') = noted (input_window.more w) @ [(c, act)]"
    "app_propagate_event w' = went_on (c, act)" "fra_dispatch_tree (win_rendered_frame w') = fra_dispatch_tree (win_rendered_frame w)"
    "app_global_action_listeners w' = app_global_action_listeners w" unfolding hears_def by blast
  then have "called noted [c] (app_propagate_event w') w w'" unfolding called_def by (intro conjI exI [of _ "[(c, act)]"]) auto
  with w'(1) show ?thesis by blast
qed

lemma each_listener_calls:
  assumes "\<And>l. l \<in> set ls \<Longrightarrow> hears noted (x l) (f l)" and "app_propagate_event w"
  shows "\<exists>b w'. each_listener f ls w = Some (b, w') \<and> called noted (map x ls) b w w'"
  using assms
proof (induction ls arbitrary: w)
  case (Cons l ls)
  from hears_called [OF Cons.prems(1) [of l] Cons.prems(2)] obtain w1 where
    w1: "f l w = Some ((), w1)" "called noted [x l] (app_propagate_event w1) w w1" by auto
  show ?case
  proof (cases "app_propagate_event w1")
    case True
    with Cons obtain b w' where "each_listener f ls w1 = Some (b, w')" "called noted (map x ls) b w1 w'"
      by (metis list.set_intros(2))
    with called_append [OF w1(2) True] w1 True show ?thesis by fastforce
  next
    case False
    with called_stopped [of noted "[x l]" w w1 "map x ls"] w1 show ?thesis by auto
  qed
qed (auto intro!: exI [of _ True] called_Nil)

lemma each_path_node_calls:
  assumes "list_all (\<lambda>i. i < length nodes) path" and "dt_nodes (fra_dispatch_tree (win_rendered_frame w)) = nodes" and "app_propagate_event w"
    and "\<And>n l. n \<in> set nodes \<Longrightarrow> l \<in> set (ls n) \<Longrightarrow> hears noted (x l) (f l)"
  shows "\<exists>b w'. each_path_node (\<lambda>n. each_listener f (ls n)) path w = Some (b, w') \<and>
    called noted (map x (concat (map (\<lambda>i. ls (nodes ! i)) path))) b w w'"
  using assms(1,2,3)
proof (induction path arbitrary: w)
  case (Cons i path)
  then have i: "nodes ! i \<in> set nodes" "i < length nodes" by auto
  from each_listener_calls [of "ls (nodes ! i)" noted x f w] assms(4) [OF i(1)] Cons.prems(3) obtain b w1 where
    w1: "each_listener f (ls (nodes ! i)) w = Some (b, w1)" "called noted (map x (ls (nodes ! i))) b w w1" by blast
  show ?case
  proof (cases b)
    case True
    have "dt_nodes (fra_dispatch_tree (win_rendered_frame w1)) = nodes" "app_propagate_event w1"
      using w1(2) Cons.prems(2) True by (auto simp: called_def)
    with Cons.IH [of w1] Cons.prems(1) obtain b' w' where "each_path_node (\<lambda>n. each_listener f (ls n)) path w1 = Some (b', w')"
      "called noted (map x (concat (map (\<lambda>i. ls (nodes ! i)) path))) b' w1 w'" by fastforce
    moreover from called_append [OF w1(2) True this(2)]
    have "called noted (map x (concat (map (\<lambda>i. ls (nodes ! i)) (i # path)))) b' w w'" by simp
    ultimately show ?thesis using w1 True i(2) Cons.prems(2) by (simp add: Let_def)
  next
    case False
    with called_stopped [of noted "map x (ls (nodes ! i))" w w1] w1(2)
    have "called noted (map x (concat (map (\<lambda>i. ls (nodes ! i)) (i # path)))) False w w1" by simp
    then show ?thesis using w1 i(2) Cons.prems(2) False by (auto simp: Let_def)
  qed
qed (auto intro!: exI [of _ True] called_Nil)

text \<open>The global listeners for an action.\<close>

definition global_listeners :: "action \<Rightarrow> ('a, 'f, 'i, 'l, 't, 'u, 'v, 'x, 'z) input_window_scheme \<Rightarrow> 'l list" where
  "global_listeners a w = (case app_global_action_listeners w (act_type a) of None \<Rightarrow> [] | Some ls \<Rightarrow> ls)"

lemma call_global_listeners_calls:
  assumes "\<And>w. app_propagate_event w \<Longrightarrow> \<exists>b w'. run (global_listeners a w0) w = Some (b, w') \<and> called noted cs b w w'"
    and "global_listeners a w0 = [] \<Longrightarrow> cs = []" and "app_global_action_listeners w = app_global_action_listeners w0" "app_propagate_event w"
  shows "\<exists>w'. call_global_listeners H a run w = Some ((), w') \<and> called noted cs (app_propagate_event w') w w'"
proof (cases "app_global_action_listeners w (act_type a)")
  case None
  with assms(2-4) show ?thesis by (simp add: call_global_listeners_def global_listeners_def called_Nil)
next
  case (Some ls)
  let ?w = "w\<lparr>app_global_action_listeners := (app_global_action_listeners w)(act_type a := None)\<rparr>"
  from assms(1) [of ?w] Some assms(3,4) obtain b w' where w': "run ls ?w = Some (b, w')" "called noted cs b ?w w'"
    by (auto simp: global_listeners_def)
  then have "app_global_action_listeners w' = (app_global_action_listeners w)(act_type a := None)" by (simp add: called_def)
  then show ?thesis using Some w' by (auto simp: call_global_listeners_def called_def fun_upd_idem)
qed

text \<open>The four rounds of an action.\<close>

lemma global_capture_calls:
  assumes "\<And>l phase. l \<in> set (global_listeners a w) \<Longrightarrow> calls noted (Global_call l phase) (ih_global_action H l a phase)"
    and "app_global_action_listeners u = app_global_action_listeners w" "app_propagate_event u"
  shows "\<exists>u'. call_global_listeners H a (each_listener (\<lambda>l. ih_global_action H l a Capture)) u = Some ((), u') \<and>
    called noted (map (\<lambda>l. Global_call l Capture) (global_listeners a w)) (app_propagate_event u') u u'"
proof (rule call_global_listeners_calls [of _ a w])
  show "\<exists>b w'. each_listener (\<lambda>l. ih_global_action H l a Capture) (global_listeners a w) v = Some (b, w') \<and>
      called noted (map (\<lambda>l. Global_call l Capture) (global_listeners a w)) b v w'" if "app_propagate_event v" for v
    by (rule each_listener_calls [OF _ that]) (simp add: assms(1) hears_capture)
qed (simp_all add: assms(2,3))

lemma global_bubble_calls:
  assumes "\<And>l phase. l \<in> set (global_listeners a w) \<Longrightarrow> calls noted (Global_call l phase) (ih_global_action H l a phase)"
    and "app_global_action_listeners u = app_global_action_listeners w" "app_propagate_event u"
  shows "\<exists>u'. call_global_listeners H a (\<lambda>ls. each_listener (stopping (\<lambda>l. ih_global_action H l a Bubble)) (rev ls)) u = Some ((), u') \<and>
    called noted (map (\<lambda>l. Global_call l Bubble) (rev (global_listeners a w))) (app_propagate_event u') u u'"
proof (rule call_global_listeners_calls [of _ a w])
  show "\<exists>b w'. each_listener (stopping (\<lambda>l. ih_global_action H l a Bubble)) (rev (global_listeners a w)) v = Some (b, w') \<and>
      called noted (map (\<lambda>l. Global_call l Bubble) (rev (global_listeners a w))) b v w'" if "app_propagate_event v" for v
    by (rule each_listener_calls [OF _ that]) (simp add: assms(1) hears_bubble)
qed (simp_all add: assms(2,3))

lemma node_capture_calls:
  assumes "\<forall>n\<in>set nodes. \<forall>l\<in>set (action_listeners a n). \<forall>phase. calls noted (Node_call l phase) (ih_action H l a phase)"
    and "dt_nodes (fra_dispatch_tree (win_rendered_frame u)) = nodes" and "list_all (\<lambda>i. i < length nodes) path" and "app_propagate_event u"
    and "cs = map (\<lambda>l. Node_call l Capture) (concat (map (\<lambda>i. action_listeners a (nodes ! i)) path))"
  shows "\<exists>b u'. each_path_node (\<lambda>n. each_listener (\<lambda>l. ih_action H l a Capture) (action_listeners a n)) path u = Some (b, u') \<and>
    called noted cs b u u'"
  unfolding assms(5) by (rule each_path_node_calls [OF assms(3,2,4)]) (use assms(1) in \<open>simp add: hears_capture\<close>)

lemma node_bubble_calls:
  assumes "\<forall>n\<in>set nodes. \<forall>l\<in>set (action_listeners a n). \<forall>phase. calls noted (Node_call l phase) (ih_action H l a phase)"
    and "dt_nodes (fra_dispatch_tree (win_rendered_frame u)) = nodes" and "list_all (\<lambda>i. i < length nodes) path" and "app_propagate_event u"
    and "cs = map (\<lambda>l. Node_call l Bubble) (concat (map (\<lambda>i. action_listeners a (nodes ! i)) path))"
  shows "\<exists>b u'. each_path_node (\<lambda>n. each_listener (stopping (\<lambda>l. ih_action H l a Bubble)) (action_listeners a n)) path u = Some (b, u') \<and>
    called noted cs b u u'"
  unfolding assms(5) by (rule each_path_node_calls [OF assms(3,2,4)]) (use assms(1) in \<open>simp add: hears_bubble\<close>)

text \<open>
  C3. The order of action listeners.  An action on a node returns if the listeners do, which keep the dispatch tree and the global
  listeners, and may set the flag of the event or leave it alone.  It calls the global listeners for it, those on the nodes from the
  root to the node, those from the node to the root, and the global ones the other way round, until it does not survive a call: on its way
  down it goes on unless the listener stops it, and on its way up it stops unless the listener lets it go on.  The flag tells at
  the end whether it survived, and the global listeners are registered as before.
\<close>

theorem action_dispatch_order:
  fixes w :: "('a, 'f, 'i, 'l, 't, 'u, 'v, 'x, 'z) input_window_scheme"
  assumes "parents_below (dt_nodes (fra_dispatch_tree (win_rendered_frame w)))" and "node < length (dt_nodes (fra_dispatch_tree (win_rendered_frame w)))"
    and globals: "\<And>l phase. l \<in> set (global_listeners a w) \<Longrightarrow> calls noted (Global_call l phase) (ih_global_action H l a phase)"
    and locals: "\<And>n l phase. n \<in> set (dt_nodes (fra_dispatch_tree (win_rendered_frame w))) \<Longrightarrow> l \<in> set (action_listeners a n) \<Longrightarrow>
      calls noted (Node_call l phase) (ih_action H l a phase)"
  shows "\<exists>path w' ys. dispatch_path (fra_dispatch_tree (win_rendered_frame w)) node = Some path \<and>
    dispatch_action_on_node H node a w = Some ((), w') \<and>
    noted (input_window.more w') = noted (input_window.more w) @ ys \<and>
    (let listening = (\<lambda>i. action_listeners a (dt_nodes (fra_dispatch_tree (win_rendered_frame w)) ! i)) in
     called_in_order (map (\<lambda>l. Global_call l Capture) (global_listeners a w) @ map (\<lambda>l. Node_call l Capture) (concat (map listening path)) @
       map (\<lambda>l. Node_call l Bubble) (concat (map listening (rev path))) @ map (\<lambda>l. Global_call l Bubble) (rev (global_listeners a w))) ys) \<and>
    app_propagate_event w' = list_all went_on ys \<and> app_global_action_listeners w' = app_global_action_listeners w"
proof -
  let ?w = "w\<lparr>app_propagate_event := True\<rparr>"
  define nodes where "nodes = dt_nodes (fra_dispatch_tree (win_rendered_frame w))"
  obtain up where up: "chain nodes (node # up)" using chain_exists assms(1,2) unfolding nodes_def by blast
  define path where "path = rev (node # up)"
  have path: "dispatch_path (fra_dispatch_tree (win_rendered_frame w)) node = Some path"
    using path_up_chain [OF up] by (simp add: dispatch_path_def nodes_def path_def)
  have inside: "list_all (\<lambda>i. i < length nodes) path" "list_all (\<lambda>i. i < length nodes) (rev path)"
    using chain_bound [OF up] by (auto simp: path_def list_all_iff)
  define g1 n1 n2 g2 where "g1 = map (\<lambda>l. Global_call l Capture) (global_listeners a w)"
    and n1: "n1 = map (\<lambda>l. Node_call l Capture) (concat (map (\<lambda>i. action_listeners a (nodes ! i)) path))"
    and n2: "n2 = map (\<lambda>l. Node_call l Bubble) (concat (map (\<lambda>i. action_listeners a (nodes ! i)) (rev path)))"
    and "g2 = map (\<lambda>l. Global_call l Bubble) (rev (global_listeners a w))"
  note keeps = called_def
  have nodes: "\<forall>n\<in>set nodes. \<forall>l\<in>set (action_listeners a n). \<forall>phase. calls noted (Node_call l phase) (ih_action H l a phase)"
    using locals by (auto simp: nodes_def)
  have "\<exists>b w'. dispatch_action_on_node H node a w = Some ((), w') \<and> called noted (g1 @ n1 @ n2 @ g2) b ?w w'"
  proof -
    obtain w1 where w1: "call_global_listeners H a (each_listener (\<lambda>l. ih_global_action H l a Capture)) ?w = Some ((), w1)"
      "called noted g1 (app_propagate_event w1) ?w w1" using global_capture_calls [where w = w and u = ?w, OF globals] by (auto simp: g1_def)
    show ?thesis
    proof (cases "app_propagate_event w1")
      case False
      with called_stopped [of noted g1 ?w w1 "n1 @ n2 @ g2"] w1 path show ?thesis by (auto simp: dispatch_action_on_node_def rendered_path_def)
    next
      case go1: True
      have s1: "dt_nodes (fra_dispatch_tree (win_rendered_frame w1)) = nodes" using w1(2) by (simp add: keeps nodes_def)
      obtain b2 w2 where w2: "each_path_node (\<lambda>n. each_listener (\<lambda>l. ih_action H l a Capture) (action_listeners a n)) path w1 = Some (b2, w2)"
        "called noted n1 b2 w1 w2" using node_capture_calls [OF nodes s1 inside(1) go1 n1] by blast
      have c2: "called noted (g1 @ n1) b2 ?w w2" by (rule called_append [OF w1(2) go1 w2(2)])
      show ?thesis
      proof (cases b2)
        case False
        with called_stopped [of noted "g1 @ n1" ?w w2 "n2 @ g2"] c2 go1 w1(1) w2(1) path show ?thesis
          by (auto simp: dispatch_action_on_node_def rendered_path_def)
      next
        case go2: True
        have s2: "dt_nodes (fra_dispatch_tree (win_rendered_frame w2)) = nodes" "app_propagate_event w2" using c2 go2 by (simp_all add: keeps nodes_def)
        obtain b3 w3 where w3: "each_path_node (\<lambda>n. each_listener (stopping (\<lambda>l. ih_action H l a Bubble)) (action_listeners a n)) (rev path) w2 =
          Some (b3, w3)" "called noted n2 b3 w2 w3" using node_bubble_calls [OF nodes s2(1) inside(2) s2(2) n2] by blast
        have c3: "called noted ((g1 @ n1) @ n2) b3 ?w w3" by (rule called_append [OF c2 go2 w3(2)])
        show ?thesis
        proof (cases b3)
          case False
          with called_stopped [of noted "(g1 @ n1) @ n2" ?w w3 g2] c3 go1 go2 w1(1) w2(1) w3(1) path show ?thesis
            by (auto simp: dispatch_action_on_node_def rendered_path_def)
        next
          case go3: True
          have s3: "app_global_action_listeners w3 = app_global_action_listeners w" "app_propagate_event w3" using c3 go3 by (simp_all add: keeps)
          obtain w4 where w4: "call_global_listeners H a (\<lambda>ls. each_listener (stopping (\<lambda>l. ih_global_action H l a Bubble)) (rev ls)) w3 = Some ((), w4)"
            "called noted g2 (app_propagate_event w4) w3 w4"
            using global_bubble_calls [where w = w and u = w3, OF globals s3] by (auto simp: g2_def)
          have "called noted (((g1 @ n1) @ n2) @ g2) (app_propagate_event w4) ?w w4" by (rule called_append [OF c3 go3 w4(2)])
          with go1 go2 go3 w1(1) w2(1) w3(1) w4(1) path show ?thesis by (auto simp: dispatch_action_on_node_def rendered_path_def)
        qed
      qed
    qed
  qed
  with path show ?thesis
    unfolding called_def by (auto simp: Let_def g1_def g2_def n1 n2 nodes_def)
qed

text \<open>A window with a node 1 below a node 0, a listener for an action on each and a global one; the window logs calls.\<close>

definition sample_node :: "nat \<Rightarrow> nat option \<Rightarrow> nat dispatch_node" where
  "sample_node l parent = \<lparr>dn_key_listeners = [], dn_action_listeners = [(''Save'', l), (''Quit'', 7)], dn_modifiers_changed_listeners = [],
     dn_context = None, dn_focus_id = None, dn_view_id = None, dn_parent = parent\<rparr>"

type_synonym sample_input = "(rat, nat, nat, nat, tab_node list, nat, nat, nat, (nat listener_call \<times> bool option) list) input_window_scheme"

definition sample_input_window :: sample_input where
  "sample_input_window = \<lparr>win_invalidator = invalidator_new, win_focus_map = Map.empty, win_text_system = layout_cache_new, win_rem_size = 16,
     win_rem_size_override_stack = [], win_viewport_size = Size 100 100, win_element_id_stack = [], win_text_style_stack = [],
     win_rendered_entity_stack = [], win_element_offset_stack = [], win_element_opacity = 1, win_element_transform = tm_unit,
     win_content_mask_stack = [], win_requested_autoscroll = None, win_image_cache_stack = [],
     win_rendered_frame = (frame_new list_tree)\<lparr>fra_dispatch_tree := tree_new\<lparr>dt_nodes := [sample_node 10 None, sample_node 11 (Some 0)]\<rparr>\<rparr>,
     win_next_frame = frame_new list_tree, win_next_hitbox_id = 0, win_next_tooltip_id = 0, win_tooltip_bounds = None,
     win_dirty_views = {}, win_mouse_position = Point 0 0, win_mouse_hit_test = hit_test_default, win_active = True, win_needs_present = False,
     win_refreshing = False, win_focus = None, win_platform_input_handler = None, win_root = Some 1, win_prompt = None, win_hovered = True,
     app_active_drag = Some \<lparr>ad_view = 1, ad_value = 2, ad_cursor_offset = Point 0 0, ad_cursor_style = None\<rparr>,
     app_accessed_entities = {}, app_tracked_entities = {}, app_cursor = None, win_modifiers = modifiers_none, win_capslock = False,
     win_default_prevented = True, win_last_input_modality = By_mouse, win_pending_input = None,
     win_pending_modifier = \<lparr>mo_modifiers = modifiers_none, mo_saw_keystroke = False\<rparr>, win_request_frame_immediately = False,
     win_frames_requested = 0, app_propagate_event = True, app_global_action_listeners = [''Save'' \<mapsto> [20]], app_keymap = keymap_default,
     app_activations = 0, win_inspector = None, win_inspector_hitboxes = Map.empty, \<dots> = []\<rparr>"

text \<open>The listener of node 1 lets the action go on when it bubbles; no other listener touches the flag.\<close>

definition sample_act :: "nat listener_call \<Rightarrow> bool option" where
  "sample_act c = (if c = Node_call 11 Bubble then Some True else None)"

definition note_call :: "nat listener_call \<Rightarrow> (sample_input, unit) comp" where
  "note_call c w = Some ((), input_window.more_update (\<lambda>xs. xs @ [(c, sample_act c)])
     (w\<lparr>app_propagate_event := (case sample_act c of Some b \<Rightarrow> b | None \<Rightarrow> app_propagate_event w)\<rparr>))"

definition sample_input_handlers :: "(sample_input, nat, rat, nat, nat) input_handlers" where
  "sample_input_handlers = \<lparr>ih_mouse = (\<lambda>_ _ _ w. Some ((), w)), ih_key = (\<lambda>_ _ _ w. Some ((), w)),
     ih_modifiers_changed = (\<lambda>_ _ w. Some ((), w)), ih_action = (\<lambda>l _ p. note_call (Node_call l p)),
     ih_global_action = (\<lambda>l _ p. note_call (Global_call l p)), ih_observe = (\<lambda>_ _ _ w. Some ((), w)), ih_intercept = (\<lambda>_ _ w. Some ((), w)),
     ih_pending_changed = (\<lambda>w. Some ((), w)), ih_accepts_text = (\<lambda>_ w. Some (False, w)), ih_dispatch_input = (\<lambda>_ _ w. Some ((), w)),
     ih_paths_view = (\<lambda>_ w. Some ((0, 0), w)), ih_draw = (\<lambda>w. Some ((), w)), ih_arrow = 0\<rparr>"

lemma note_call_calls: "calls (\<lambda>xs. xs) c (note_call c)"
  by (simp add: calls_def note_call_def)

lemma sample_window_simps:
  "input_window.more sample_input_window = []" "global_listeners (Action ''Save'' []) sample_input_window = [20]"
  "dt_nodes (fra_dispatch_tree (win_rendered_frame sample_input_window)) = [sample_node 10 None, sample_node 11 (Some 0)]"
  by (simp_all add: sample_input_window_def global_listeners_def)

lemma action_dispatch_order_witness:
  "\<exists>w' ys. dispatch_action_on_node sample_input_handlers 1 (Action ''Save'' []) sample_input_window = Some ((), w') \<and>
    input_window.more w' = ys \<and> app_propagate_event w' = list_all went_on ys \<and>
    called_in_order [Global_call 20 Capture, Node_call 10 Capture, Node_call 11 Capture, Node_call 11 Bubble, Node_call 10 Bubble, Global_call 20 Bubble] ys"
proof -
  have path: "dispatch_path (fra_dispatch_tree (win_rendered_frame sample_input_window)) 1 = Some [0, 1]"
    by (simp add: sample_input_window_def sample_node_def dispatch_path_def path_up.simps)
  have below: "parents_below (dt_nodes (fra_dispatch_tree (win_rendered_frame sample_input_window)))"
    by (auto simp: parents_below_def sample_window_simps sample_node_def less_Suc_eq)
  have inside: "1 < length (dt_nodes (fra_dispatch_tree (win_rendered_frame sample_input_window)))" by (simp add: sample_window_simps)
  have noted: "calls (\<lambda>xs. xs) (Global_call l phase) (ih_global_action sample_input_handlers l (Action ''Save'' []) phase)"
    "calls (\<lambda>xs. xs) (Node_call l phase) (ih_action sample_input_handlers l (Action ''Save'' []) phase)" for l phase
    by (simp_all add: sample_input_handlers_def note_call_calls)
  have heard: "action_listeners (Action ''Save'' []) (sample_node 10 None) = [10]" "action_listeners (Action ''Save'' []) (sample_node 11 (Some 0)) = [11]"
    by (simp_all add: sample_node_def action_listeners_def)
  from action_dispatch_order [OF below inside noted(1) noted(2)] show ?thesis
    using path by (auto simp: sample_window_simps heard Let_def)
qed

lemma dispatch_mouse_event_without_listeners:
  "fra_mouse_listeners (win_rendered_frame w) = [] \<Longrightarrow> \<exists>w'. dispatch_mouse_event H e w = Some ((), w')"
  by (simp add: dispatch_mouse_event_def update_hit_test_def reset_cursor_style_def rendered_frame_update_def Let_def)

lemma mouse_up_ends_drag_witness:
  "\<exists>r w'. dispatch_event Macos sample_input_handlers (Mouse_up \<lparr>mu_button = Mouse_left, mu_position = Point 1 1, mu_modifiers = modifiers_none,
      mu_click_count = 1\<rparr>) sample_input_window = Some (r, w') \<and> app_active_drag sample_input_window \<noteq> None \<and> app_active_drag w' = None"
    (is "\<exists>r w'. ?dispatch = Some (r, w') \<and> _")
proof -
  let ?e = "Mouse_up \<lparr>mu_button = Mouse_left, mu_position = Point 1 1, mu_modifiers = modifiers_none, mu_click_count = 1\<rparr> :: (rat, nat) platform_input"
  obtain w1 where w1: "track_event sample_input_handlers ?e (sample_input_window\<lparr>win_last_input_modality := modality_after ?e (win_last_input_modality
      sample_input_window), app_propagate_event := True, win_default_prevented := False\<rparr>) = Some (?e, w1)"
    "fra_mouse_listeners (win_rendered_frame w1) = []"
    by (auto simp: track_event_def mouse_at_def sample_input_window_def frame_new_def)
  obtain w2 where "dispatch_mouse_event sample_input_handlers ?e w1 = Some ((), w2)"
    using dispatch_mouse_event_without_listeners [OF w1(2)] by blast
  with w1(1) have "\<exists>x. ?dispatch = Some x"
    by (simp add: dispatch_event_def mouse_event_def del: One_nat_def)
  then obtain r w' where ran: "?dispatch = Some (r, w')" by auto
  have "app_active_drag w' = (if is_inspector_picking sample_input_window then app_active_drag sample_input_window else None)"
    by (rule mouse_up_ends_drag [OF ran]) simp
  with ran show ?thesis by (auto simp: sample_input_window_def is_inspector_picking_def)
qed

end
