(* ===== verification/Window_Paint.thy ===== *)
theory Window_Paint
  imports Window_Frame Scene_Drawing Color
begin

text \<open>
  Painting into the scene of the next frame, from \<open>src/src/window.rs\<close>: layers, shadows, quads, paths, lines,
  glyphs and images, scaled to the display, clipped by the mask and faded by the opacity around the element.
  \<open>factor\<close> is the scale of the display.  The scene only carries colors along: \<open>in_scene\<close> and \<open>background_in_scene\<close> make its
  colors.  The atlas and the rasterizer are parameters that tell an error, or the tile.
\<close>

section \<open>What is painted\<close>

record 'a quad_paint =
  qd_bounds :: "'a bounds"
  qd_corner_radii :: "'a corners"
  qd_background :: "'a background"
  qd_border_widths :: "'a edges"
  qd_border_color :: "'a hsla_color"
  qd_border_style :: border_style

definition quad_new :: "'a bounds \<Rightarrow> 'a corners \<Rightarrow> 'a background \<Rightarrow> 'a edges \<Rightarrow> 'a hsla_color \<Rightarrow> border_style \<Rightarrow> 'a quad_paint" where
  "quad_new b radii background widths color style = \<lparr>qd_bounds = b, qd_corner_radii = radii, qd_background = background,
     qd_border_widths = widths, qd_border_color = color, qd_border_style = style\<rparr>"


definition outline_quad :: "'a::linordered_field bounds \<Rightarrow> 'a hsla_color \<Rightarrow> border_style \<Rightarrow> 'a quad_paint" where
  "outline_quad b color style = \<lparr>qd_bounds = b, qd_corner_radii = corners_all 0, qd_background = background_of_hsla transparent_black,
     qd_border_widths = edges_all 1, qd_border_color = color, qd_border_style = style\<rparr>"




section \<open>Painting\<close>

text \<open>An operation on the scene of the next frame, and the insertion of some primitives.\<close>

definition on_scene :: "(('a, 'x, 'u) scene \<Rightarrow> ('a, 'x, 'u) scene option) \<Rightarrow> (('a, 'f, 'i, 'l, 't, 'u, 'v, 'x, 'z) window_scheme, unit) comp" where
  "on_scene g w = do { sc \<leftarrow> g (fra_scene (win_next_frame w)); Some ((), next_frame_update (\<lambda>fr. fr\<lparr>fra_scene := sc\<rparr>) w) }"





definition paint_path :: "bool \<Rightarrow> 'a \<Rightarrow> ('a background \<Rightarrow> 'x) \<Rightarrow> ('a, 'x) path \<Rightarrow> 'a background \<Rightarrow>
    (('a::linordered_field, 'f, 'i, 'l, 't, 'u, 'v, 'x, 'z) window_scheme, unit) comp" where
  "paint_path dbg factor background_in_scene p color w = do { _ \<leftarrow> check_paint dbg w;
     m \<leftarrow> window_content_mask dbg w;
     on_scene (insert_primitive (P_path (path_scale factor (p\<lparr>path_mask := m,
       path_color := background_in_scene (background_opacity (win_element_opacity w) color)\<rparr>)))) w }"

text \<open>\<open>paint_triangles\<close>; a debug build requires whole triangles.\<close>

definition paint_triangles :: "bool \<Rightarrow> 'a \<Rightarrow> ('a background \<Rightarrow> 'x) \<Rightarrow> 'a point list \<Rightarrow> 'a background \<Rightarrow>
    (('a::linordered_field, 'f, 'i, 'l, 't, 'u, 'v, 'x, 'z) window_scheme, unit) comp" where
  "paint_triangles dbg factor background_in_scene vertices color w = do { _ \<leftarrow> check_paint dbg w;
     _ \<leftarrow> (if dbg \<and> length vertices mod 3 \<noteq> 0 then None else Some ());
     m \<leftarrow> window_content_mask dbg w;
     case filled_triangles vertices factor m (background_in_scene (background_opacity (win_element_opacity w) color)) of
       Some p \<Rightarrow> on_scene (insert_primitive (P_path p)) w
     | None \<Rightarrow> Some ((), w) }"




section \<open>Glyphs and images\<close>

text \<open>\<open>f32::fract\<close>, which is negative for a negative number.\<close>

definition fract :: "'a::floor_ceiling \<Rightarrow> 'a" where
  "fract x = x - (if 0 \<le> x then of_int \<lfloor>x\<rfloor> else of_int \<lceil>x\<rceil>)"

definition subpixel_variants_y :: "target_os \<Rightarrow> nat" where
  "subpixel_variants_y os = (if os = Windows \<or> os = Linux then 1 else 4)"

definition subpixel_variant :: "nat \<Rightarrow> 'a::floor_ceiling \<Rightarrow> nat" where
  "subpixel_variant variants x = unat (as_u8 (of_int \<lfloor>fract x * of_nat variants\<rfloor> :: 'a))"

record 'a glyph_params =
  gp_font_id :: nat
  gp_glyph_id :: nat
  gp_font_size :: 'a
  gp_subpixel_variant :: "nat \<times> nat"
  gp_scale_factor :: 'a
  gp_is_emoji :: bool

definition glyph_params_of :: "target_os \<Rightarrow> 'a::floor_ceiling \<Rightarrow> 'a point \<Rightarrow> nat \<Rightarrow> nat \<Rightarrow> 'a \<Rightarrow> 'a glyph_params" where
  "glyph_params_of os factor glyph_origin font glyph font_size = \<lparr>gp_font_id = font, gp_glyph_id = glyph, gp_font_size = font_size,
     gp_subpixel_variant = (subpixel_variant 4 (pt_x glyph_origin), subpixel_variant (subpixel_variants_y os) (pt_y glyph_origin)),
     gp_scale_factor = factor, gp_is_emoji = False\<rparr>"



definition glyph_bounds :: "'a::floor_ceiling point \<Rightarrow> int bounds \<Rightarrow> atlas_tile \<Rightarrow> 'a bounds" where
  "glyph_bounds glyph_origin raster tile = Bounds
     (Point (of_int \<lfloor>pt_x glyph_origin\<rfloor> + of_int (pt_x (bd_origin raster))) (of_int \<lfloor>pt_y glyph_origin\<rfloor> + of_int (pt_y (bd_origin raster))))
     (Size (of_int (sz_width (bd_size (at_bounds tile)))) (of_int (sz_height (bd_size (at_bounds tile)))))"










text \<open>What \<open>drop_image\<close> removes from the atlas.\<close>

definition dropped_image_keys :: "nat \<Rightarrow> nat \<Rightarrow> (nat \<times> nat) list" where
  "dropped_image_keys image_id frame_count = map (\<lambda>frame_index. (image_id, frame_index)) [0..<frame_count]"

section \<open>Triangles and paths\<close>

lemma push_triangles_update:
  assumes "length vs mod 3 = 0"
  shows "(push_triangles vs (path_new color v))\<lparr>path_mask := m, path_color := color'\<rparr> = (push_triangles vs (path_new color' v))\<lparr>path_mask := m\<rparr>"
proof -
  have "path_bounds (path_new c v) = from_corners v v" for c :: 'x by (simp add: path_new_def from_corners_def)
  note push = push_triangles_eq [OF assms this]
  show ?thesis unfolding push by (simp add: path_new_def)
qed

text \<open>
  C12. The comment of \<open>paint_triangles\<close>: for whole triangles it paints, in one pass, what \<open>paint_path\<close> paints for the path made by pushing
  the triangles one by one, and no triangles paint nothing.  In exact arithmetic the bounds agree too.
\<close>

theorem paint_triangles_as_path:
  assumes "length vertices mod 3 = 0" and "check_paint dbg w = Some ((), w)"
  shows "paint_triangles dbg factor background_in_scene vertices color w =
    (if vertices = [] then Some ((), w)
     else paint_path dbg factor background_in_scene (push_triangles vertices (path_new c (hd vertices))) color w)"
proof -
  from assms(2) obtain m where m: "window_content_mask dbg w = Some m"
    by (auto simp: check_paint_def debug_assert_paint_def window_content_mask_def check_drawing_def debug_assert_paint_or_prepaint_def split: if_splits)
  have "length vertices < 3 \<longleftrightarrow> vertices = []" using assms(1) by (cases "length vertices < 3") auto
  then show ?thesis
    using assms m by (simp add: paint_triangles_def paint_path_def filled_triangles_push Let_def push_triangles_update)
qed

section \<open>Where glyphs are drawn\<close>

lemma unat_as_u8: "unat (as_u8 (of_int k :: 'a::floor_ceiling)) = nat (max 0 (min 255 k))"
  by (simp add: as_u8_def unsigned_of_int take_bit_int_eq_self)

lemma subpixel_variant_near:
  assumes "0 \<le> x" and "0 < n" and "n < 256"
  shows "subpixel_variant n x < n" and "of_int \<lfloor>x\<rfloor> + of_nat (subpixel_variant n x) / of_nat n \<le> x"
    and "x < of_int \<lfloor>x\<rfloor> + (of_nat (subpixel_variant n x) + 1) / (of_nat n :: 'a::floor_ceiling)"
proof -
  let ?f = "x - of_int \<lfloor>x\<rfloor>"
  have f: "0 \<le> ?f" "?f < 1" by linarith+
  have n: "0 < (of_nat n :: 'a)" using assms(2) by simp
  let ?k = "\<lfloor>?f * of_nat n\<rfloor>"
  have "?f * of_nat n < of_nat n" using f n mult_strict_right_mono [OF f(2) n] by simp
  then have k: "0 \<le> ?k" "?k < int n" using f n by (simp_all add: floor_less_iff)
  then have v: "subpixel_variant n x = nat ?k"
    using assms(1,3) by (simp add: subpixel_variant_def fract_def unat_as_u8 del: floor_less_iff)
  show "subpixel_variant n x < n" using k by (simp add: v nat_less_iff del: floor_less_iff)
  have r: "(of_nat (subpixel_variant n x) :: 'a) = of_int ?k" using k(1) by (simp add: v)
  have "of_int ?k / of_nat n \<le> ?f" using n by (simp add: divide_le_eq)
  then show "of_int \<lfloor>x\<rfloor> + of_nat (subpixel_variant n x) / of_nat n \<le> x" unfolding r by linarith
  have "?f * of_nat n < of_int ?k + 1" using floor_correct [of "?f * of_nat n"] by simp
  then have "?f < (of_int ?k + 1) / of_nat n" using n by (simp only: pos_less_divide_eq)
  then show "x < of_int \<lfloor>x\<rfloor> + (of_nat (subpixel_variant n x) + 1) / of_nat n" unfolding r by linarith
qed

text \<open>
  C13. Where a glyph is drawn.  If its origin is not negative, the pixel the sprite is placed from and the variant it is
  rasterized for stand for a point that is at most a variant's width left of the origin, and below it likewise; where the
  platform has one vertical variant, the glyph moves by less than a pixel.
\<close>

theorem glyph_drawn_near_origin:
  fixes origin :: "'a::floor_ceiling point"
  assumes "0 \<le> pt_x origin" and "0 \<le> pt_y origin"
  shows "(let p = glyph_params_of os factor origin font glyph font_size; b = glyph_bounds origin raster tile;
              x = pt_x (bd_origin b) - of_int (pt_x (bd_origin raster)) + of_nat (fst (gp_subpixel_variant p)) / 4;
              y = pt_y (bd_origin b) - of_int (pt_y (bd_origin raster)) + of_nat (snd (gp_subpixel_variant p)) / of_nat (subpixel_variants_y os) in
     fst (gp_subpixel_variant p) < 4 \<and> x \<le> pt_x origin \<and> pt_x origin < x + 1 / 4 \<and>
     snd (gp_subpixel_variant p) < subpixel_variants_y os \<and> y \<le> pt_y origin \<and> pt_y origin < y + 1 / of_nat (subpixel_variants_y os))"
proof -
  have "0 < subpixel_variants_y os" "subpixel_variants_y os < 256" by (simp_all add: subpixel_variants_y_def)
  note y = subpixel_variant_near [OF assms(2) this] and x = subpixel_variant_near [OF assms(1), of 4]
  show ?thesis using x y by (simp add: Let_def glyph_params_of_def glyph_bounds_def add_divide_distrib add.assoc)
qed

lemma glyph_drawn_near_origin_witness:
  "(let p = glyph_params_of Macos 2 (Point (7 / 3) (9 / 8 :: rat)) 0 0 16; b = glyph_bounds (Point (7 / 3) (9 / 8 :: rat)) (Bounds (Point 1 2) (Size 5 6))
        \<lparr>at_texture_id = (0, Monochrome), at_tile_id = 0, at_padding = 0, at_bounds = Bounds (Point 0 0) (Size 5 6)\<rparr>;
        x = pt_x (bd_origin b) - of_int 1 + of_nat (fst (gp_subpixel_variant p)) / 4 in
     fst (gp_subpixel_variant p) < 4 \<and> x \<le> 7 / 3 \<and> 7 / 3 < x + 1 / 4)"
  using glyph_drawn_near_origin [of "Point (7 / 3) (9 / 8 :: rat)" Macos 2 0 0 16 "Bounds (Point 1 2) (Size 5 6)"
      "\<lparr>at_texture_id = (0, Monochrome), at_tile_id = 0, at_padding = 0, at_bounds = Bounds (Point 0 0) (Size 5 6)\<rparr>"]
  unfolding Let_def point.sel bounds.sel by simp

text \<open>
  Left of the window the variant is always the first, as the fraction is negative there and the cast saturates, while the
  pixel is rounded down: the glyph is drawn up to a pixel to the left of its place.
\<close>

lemma negative_origin_variant:
  assumes "x \<le> 0"
  shows "subpixel_variant n x = 0"
proof -
  have "fract x \<le> 0" using assms le_of_int_ceiling [of x] by (cases "x = 0") (simp_all add: fract_def)
  then have "fract x * of_nat n \<le> 0" by (simp add: mult_nonpos_nonneg)
  then have "\<lfloor>fract x * of_nat n\<rfloor> \<le> 0" by (simp add: floor_le_iff)
  then show ?thesis by (simp add: subpixel_variant_def unat_as_u8)
qed

lemma glyph_left_of_window: "(-1 / 8 :: rat) - (of_int \<lfloor>-1 / 8 :: rat\<rfloor> + of_nat (subpixel_variant 4 (-1 / 8 :: rat)) / 4) = 7 / 8"
proof -
  have "\<lfloor>-1 / 8 :: rat\<rfloor> = -1" by (rule floor_unique) simp_all
  then show ?thesis by (simp add: negative_origin_variant)
qed

section \<open>Painting goes well\<close>












lemma on_scene_none [simp]: "on_scene Some w = Some ((), w)"
  by (simp add: on_scene_def next_frame_update_def)
















lemma paint_triangles_as_path_witness:
  "paint_triangles False 2 (\<lambda>_. 0) [Point 0 0, Point 4 0, Point 0 4] (solid_background (hsla 0 1 (1 / 2) 1)) sample_window =
   paint_path False 2 (\<lambda>_. 0) (push_triangles [Point 0 0, Point 4 0, Point 0 4] (path_new 0 (Point 0 0))) (solid_background (hsla 0 1 (1 / 2) 1)) sample_window"
  using paint_triangles_as_path [of "[Point 0 0, Point 4 0, Point 0 4]" False sample_window 2 "\<lambda>_. 0" "solid_background (hsla 0 1 (1 / 2) 1)" 0]
  by (simp add: check_paint_def debug_assert_paint_def)

end
