(* ===== verification/Spec2Isabelle.thy ===== *)
theory Spec2Isabelle
  imports Prelude Rust_Str Key_Dispatch Subscription Arena Priority_Queue Bounds_Tree Entity_Map Tab_Stop Scene_Drawing Text_Shaping App_Cycle Raster_Compositor Raster_Frames System_Tabs List_View Color Event_Dispatch Window_Paint
begin

text \<open>
  A verification development for gpui, the GPU-accelerated user interface framework under
  \<open>src/src\<close>.

  \<^bold>\<open>The program.\<close>  An application (\<open>app.rs\<close>) owns entities in a counted map (\<open>app/entity_map.rs\<close>) and
  windows (\<open>window.rs\<close>).  Changes are effects in a queue, flushed when the outermost update ends, and
  reach observers through subscriber sets (\<open>subscription.rs\<close>).  A window draws a frame by laying out and
  painting elements, which live in an arena (\<open>arena.rs\<close>): they record focus, key contexts and
  listeners in a dispatch tree (\<open>key_dispatch.rs\<close>), the tab order (\<open>tab_stop.rs\<close>), laid out text
  (\<open>text_system.rs\<close>, \<open>text_system/\<close>) and the primitives of a scene (\<open>scene.rs\<close>), which the bounds tree
  orders (\<open>bounds_tree.rs\<close>) and the platform's renderer draws, keeping raster tiles in a store of its
  own (\<open>platform/mac/metal_renderer.rs\<close>).  Keystrokes are turned into actions by the keymap
  (\<open>keymap.rs\<close>, \<open>keymap/\<close>) along the path of the dispatch tree to the focus.

  \<^bold>\<open>The theories\<close>, in the order they build on each other.

  \<^item> \<open>Prelude\<close> (results, panics, facts on lists), \<open>Rust_Str\<close> (characters and strings of Rust).
  \<^item> \<open>Keystroke\<close>, \<open>Action_Registry\<close>, \<open>Key_Context\<close>, \<open>Context_Predicate\<close>, \<open>Predicate_Parser\<close>, \<open>Keymap\<close>: keystrokes,
    actions, contexts, the language of predicates on contexts, bindings and their precedence.
    The lookups of the keymap are shown equal to a declarative description, printing and parsing of
    predicates to be inverse, the parsers to return or not to return.
  \<^item> \<open>Dispatch_Tree\<close>, \<open>Dispatch_Tree_Inv\<close>, \<open>Key_Dispatch\<close>: the tree of a frame, what its stacks and maps satisfy in every
    sequence of operations, the reuse of a subtree of the last frame, and pending key sequences.
  \<^item> \<open>Subscription\<close>, \<open>Ref_Count\<close>, \<open>Entity_Map\<close>, \<open>Focus\<close>: subscriber sets that are changed by the callbacks they run, a
    locale of counted handles with the two tables that provide it, and the focus of windows.
  \<^item> \<open>Arena\<close>, \<open>Priority_Queue\<close>, \<open>Tab_Stop\<close>: memory of elements, the queue of the executors, the tab key.
  \<^item> \<open>Geometry\<close>, \<open>Lengths\<close>, \<open>Color\<close>: points, bounds, units and colours.
  \<^item> \<open>Bounds_Tree\<close>, \<open>Scene_Types\<close>, \<open>Scene\<close>, \<open>Scene_Batches\<close>, \<open>Scene_Drawing\<close>: the scene from painting to the batches that are drawn.
  \<^item> \<open>Line_Layout\<close>, \<open>Layout_Cache\<close>, \<open>Line_Wrapper\<close>, \<open>Text_System\<close>, \<open>Text_Shaping\<close>: lines of text, their cache over frames, and wrapping.
  \<^item> \<open>App_State\<close>, \<open>App_Effects\<close>, \<open>App_Cycle\<close>, \<open>System_Tabs\<close>: the application's state, the flush of its effects and what that
    reaches, and the groups of native tabs.
  \<^item> \<open>Raster_Compositor\<close>, \<open>Raster_Store\<close>, \<open>Raster_Residency\<close>, \<open>Raster_Frames\<close>: the sequence lock of the camera transform and the tiles
    kept between frames.
  \<^item> \<open>List_State\<close>, \<open>List_Layout\<close>, \<open>List_Scroll\<close>, \<open>List_View\<close>: the list element.
  \<^item> \<open>Hit_Test\<close>, \<open>Window_State\<close>, \<open>Element_State\<close>, \<open>Window_Frame\<close>: the state of a window and its two frames (\<open>window.rs\<close>): the hitboxes under
    the mouse, the states elements keep from frame to frame, and the part of a frame that is moved to the next one.
  \<^item> \<open>View_Cache\<close>, \<open>Element_Draw\<close>, \<open>Window_Draw\<close>: views that are drawn anew or from the last frame (\<open>view.rs\<close>), the phases
    of an element (\<open>element.rs\<close>, \<open>elements/deferred.rs\<close>), and the drawing of a whole frame.  These extend the record of the window as they need
    more of its fields.
  \<^item> \<open>Window_Paint\<close>: painting primitives and layers into the scene of the next frame, and where glyphs and images are placed.
  \<^item> \<open>Input_Events\<close>, \<open>Event_Dispatch\<close>: events of the platform (\<open>interactive.rs\<close>) and how a window hands them to listeners, actions and
    key bindings, with the keystrokes that wait for more.

  \<^bold>\<open>How the code is read.\<close>  A struct is a \<open>record\<close>, an enum a \<open>datatype\<close>, with the source's names; an operation is a function of
  the state that returns the new one.  A panic is \<^const>\<open>None\<close>, an \<open>Err\<close> is \<^const>\<open>Inl\<close>.  Loops that may not
  end are partial functions or carry fuel, and that they end is a theorem.  Ids are natural numbers,
  and counters do not wrap unless the definition says so.  A coordinate is an element of an ordered
  field: arithmetic is exact, without the rounding, infinities and NaN of \<open>f32\<close>.  Hash
  maps are maps, or lists in the order they are iterated, where that order shows.  Closures are codes
  whose meaning is an argument (\<open>env\<close>), so they may do to the state what they like.
  Library code that is not in the repository (the \<open>sum_tree\<close> and \<open>slotmap\<close> crates, the allocator, the platform's fonts) is an
  argument with its documented laws as hypotheses, and each such hypothesis has an instance.
  Atomics are sequentially consistent, and the caches are those of one thread.

  \<^bold>\<open>Bounds and fuel.\<close>  The parser of predicates takes fuel; the length of the input is enough, and
  this is a theorem.  The effect queue's flush takes fuel; it returns for effects that do not
  produce others without end.

  \<^bold>\<open>Not modelled.\<close>  The platform backends, whose code consists of calls of the operating system and of graphics libraries; the elements
  of an application other than lists, views and deferred elements, their styles and the layout engine (the \<open>taffy\<close> crate); executors and tasks (the \<open>async_task\<close> crate); image and
  vector graphics loading; tracing, profiling and the inspector; opening and closing windows and what the application forwards to the platform;
  drawing for tests within a flush.  In the window, prompts, the time of the last input and the texture
  atlas are left out.
\<close>

end
